(* ===== verification/Prelude.thy ===== *)
theory Prelude
  imports Main "HOL-Library.Word"
begin

unbundle bit_operations_syntax

text \<open>
  What the components share: the JavaScript string operations the sources call
  (\<open>trim\<close>, \<open>split\<close>, \<open>padStart\<close>, \<open>toLowerCase\<close>, \<open>slice\<close>), the printing and
  reading of integers in a radix (\<open>toString\<close>, \<open>BigInt\<close>), and the lemmas about
  them.

  A JavaScript string is modelled as a HOL string, a list of 8-bit characters:
  the strings whose code units are all below 256.  A BigInt, and a Number that
  the source uses as a whole number, is an \<open>int\<close>; a length or an index that is
  never negative is a \<open>nat\<close>.
\<close>

named_theorems js_defs \<open>definitions of the JavaScript string operations\<close>

type_synonym jstring = string

subsection \<open>Characters\<close>

definition code :: "char \<Rightarrow> nat" where
  "code c = of_char c"

text \<open>The white space of \<open>trim\<close> and of \<open>\s\<close>, below 256.\<close>

definition is_ws :: "char \<Rightarrow> bool" where
  "is_ws c \<longleftrightarrow> (9 \<le> code c \<and> code c \<le> 13) \<or> code c = 32 \<or> code c = 160"

definition is_digit :: "char \<Rightarrow> bool" where
  "is_digit c \<longleftrightarrow> 48 \<le> code c \<and> code c \<le> 57"

definition is_upper :: "char \<Rightarrow> bool" where
  "is_upper c \<longleftrightarrow> 65 \<le> code c \<and> code c \<le> 90"

definition is_lower :: "char \<Rightarrow> bool" where
  "is_lower c \<longleftrightarrow> 97 \<le> code c \<and> code c \<le> 122"

definition is_alpha :: "char \<Rightarrow> bool" where
  "is_alpha c \<longleftrightarrow> is_upper c \<or> is_lower c"

text \<open>\<open>\w\<close> in a regular expression.\<close>

definition is_word_char :: "char \<Rightarrow> bool" where
  "is_word_char c \<longleftrightarrow> is_alpha c \<or> is_digit c \<or> c = CHR ''_''"

text \<open>\<open>toLowerCase\<close> on the characters below 256: the letters A to Z, and the
  accented capitals 192 to 222 except the multiplication sign 215.\<close>

definition lower_char :: "char \<Rightarrow> char" where
  "lower_char c =
     (if is_upper c \<or> (192 \<le> code c \<and> code c \<le> 222 \<and> code c \<noteq> 215)
      then char_of (code c + 32) else c)"

definition js_lower :: "jstring \<Rightarrow> jstring" where
  "js_lower s = map lower_char s"

subsection \<open>Strings\<close>

definition js_trim :: "jstring \<Rightarrow> jstring" where
  "js_trim s = rev (dropWhile is_ws (rev (dropWhile is_ws s)))"

fun js_split :: "char \<Rightarrow> jstring \<Rightarrow> jstring list" where
  "js_split sep [] = [[]]"
| "js_split sep (c # cs) =
     (if c = sep then [] # js_split sep cs
      else case js_split sep cs of
             [] \<Rightarrow> [[c]]
           | w # ws \<Rightarrow> (c # w) # ws)"

fun js_join :: "jstring \<Rightarrow> jstring list \<Rightarrow> jstring" where
  "js_join sep [] = []"
| "js_join sep [w] = w"
| "js_join sep (w # v # ws) = w @ sep @ js_join sep (v # ws)"

definition padStart :: "nat \<Rightarrow> char \<Rightarrow> jstring \<Rightarrow> jstring" where
  "padStart n c s = replicate (n - length s) c @ s"

definition padEnd :: "nat \<Rightarrow> char \<Rightarrow> jstring \<Rightarrow> jstring" where
  "padEnd n c s = s @ replicate (n - length s) c"

text \<open>\<open>s.slice(a, b)\<close> and \<open>s.slice(a)\<close> with indices that are not negative.\<close>

definition js_slice :: "'a list \<Rightarrow> nat \<Rightarrow> nat \<Rightarrow> 'a list" where
  "js_slice s a b = take (b - a) (drop a s)"

text \<open>\<open>s.slice(a, b)\<close> in full: a negative index counts from the end, and an index
  past either end stops there.\<close>

definition js_index :: "nat \<Rightarrow> int \<Rightarrow> nat" where
  "js_index n a = (if a < 0 then nat (int n + a) else min (nat a) n)"

definition js_sub :: "'a list \<Rightarrow> int \<Rightarrow> int \<Rightarrow> 'a list" where
  "js_sub s a b = js_slice s (js_index (length s) a) (js_index (length s) b)"

definition js_from :: "'a list \<Rightarrow> int \<Rightarrow> 'a list" where
  "js_from s a = drop (js_index (length s) a) s"

text \<open>\<open>s < t\<close> on strings, by code units.\<close>

fun js_less :: "jstring \<Rightarrow> jstring \<Rightarrow> bool" where
  "js_less s [] = False"
| "js_less [] (d # ds) = True"
| "js_less (c # cs) (d # ds) = (code c < code d \<or> (c = d \<and> js_less cs ds))"

text \<open>\<open>s.replace(/0+$/, "")\<close> and \<open>s.replace(/^0+/, "")\<close>.\<close>

definition drop_trailing_zeros :: "jstring \<Rightarrow> jstring" where
  "drop_trailing_zeros s = rev (dropWhile (\<lambda>c. c = CHR ''0'') (rev s))"

definition drop_leading_zeros :: "jstring \<Rightarrow> jstring" where
  "drop_leading_zeros s = dropWhile (\<lambda>c. c = CHR ''0'') s"

fun starts_with :: "jstring \<Rightarrow> jstring \<Rightarrow> bool" where
  "starts_with [] s = True"
| "starts_with (p # ps) [] = False"
| "starts_with (p # ps) (c # cs) = (p = c \<and> starts_with ps cs)"

definition ends_with :: "jstring \<Rightarrow> jstring \<Rightarrow> bool" where
  "ends_with p s = starts_with (rev p) (rev s)"

text \<open>\<open>a[i] ?? d\<close> on an array, with the index out of range answering \<open>undefined\<close>.\<close>

fun nth_opt :: "'a list \<Rightarrow> nat \<Rightarrow> 'a option" where
  "nth_opt [] i = None"
| "nth_opt (x # xs) 0 = Some x"
| "nth_opt (x # xs) (Suc i) = nth_opt xs i"

lemma nth_opt_conv: "nth_opt xs i = (if i < length xs then Some (xs ! i) else None)"
  by (induction xs i rule: nth_opt.induct) auto

lemma nth_opt_eq_Some [simp]: "nth_opt xs i = Some x \<longleftrightarrow> i < length xs \<and> xs ! i = x"
  by (auto simp: nth_opt_conv)

lemma nth_opt_eq_None [simp]: "nth_opt xs i = None \<longleftrightarrow> length xs \<le> i"
  by (auto simp: nth_opt_conv)

text \<open>\<open>findIndex\<close>, with \<open>None\<close> for the -1 of no match.\<close>

fun find_index :: "('a \<Rightarrow> bool) \<Rightarrow> 'a list \<Rightarrow> nat option" where
  "find_index P [] = None"
| "find_index P (x # xs) = (if P x then Some 0 else map_option Suc (find_index P xs))"

lemma find_index_Some:
  "find_index P xs = Some i \<Longrightarrow> i < length xs \<and> P (xs ! i) \<and> (\<forall>j < i. \<not> P (xs ! j))"
proof (induction xs arbitrary: i)
  case (Cons x xs)
  then show ?case by (auto split: if_splits simp: nth_Cons split: nat.splits)
qed simp

lemma find_index_None: "find_index P xs = None \<longleftrightarrow> \<not> list_ex P xs"
  by (induction xs) auto

lemma starts_with_append [simp]: "starts_with p (p @ s)"
  by (induction p) auto

lemma starts_with_iff: "starts_with p s \<longleftrightarrow> (\<exists>t. s = p @ t)"
  by (induction p s rule: starts_with.induct) auto

text \<open>\<open>s.includes(p)\<close>.\<close>

fun js_includes :: "jstring \<Rightarrow> jstring \<Rightarrow> bool" where
  "js_includes [] p = (p = [])"
| "js_includes (c # cs) p = (starts_with p (c # cs) \<or> js_includes cs p)"

lemma js_includes_iff: "js_includes s p \<longleftrightarrow> (\<exists>pre post. s = pre @ p @ post)"
proof (induction s)
  case (Cons c s)
  have "(\<exists>pre post. c # s = pre @ p @ post) \<longleftrightarrow> (\<exists>post. c # s = p @ post) \<or> (\<exists>pre post. s = pre @ p @ post)"
    by (metis append_Cons append_Nil list.inject neq_Nil_conv)
  then show ?case using Cons by (auto simp: starts_with_iff)
qed auto

lemma ends_with_iff: "ends_with p s \<longleftrightarrow> (\<exists>t. s = t @ p)"
proof -
  have "(\<exists>t. rev s = rev p @ t) \<longleftrightarrow> (\<exists>t. s = t @ p)"
    by (metis rev_append rev_rev_ident)
  then show ?thesis by (simp add: ends_with_def starts_with_iff)
qed

subsubsection \<open>Splitting and joining\<close>

lemma js_split_nonempty [simp]: "js_split sep s \<noteq> []"
  by (induction s) (auto split: list.splits)

lemma js_join_split [simp]: "js_join [sep] (js_split sep s) = s"
proof (induction s)
  case Nil
  show ?case by simp
next
  case (Cons c s)
  obtain w ws where w: "js_split sep s = w # ws"
    by (cases "js_split sep s") auto
  show ?case
    using Cons w by (cases ws) auto
qed

lemma js_split_no_sep: "sep \<notin> set w \<Longrightarrow> js_split sep w = [w]"
  by (induction w) auto

lemma js_split_append:
  "sep \<notin> set w \<Longrightarrow> js_split sep (w @ sep # s) = w # js_split sep s"
  by (induction w) auto

lemma js_split_parts: "w \<in> set (js_split sep s) \<Longrightarrow> sep \<notin> set w"
  by (induction s arbitrary: w) (auto split: list.splits if_splits)

lemma length_js_split: "length (js_split sep s) = Suc (count_list s sep)"
  by (induction s) (auto split: list.splits)

lemma js_split_join:
  assumes "ws \<noteq> []" and "\<forall>w \<in> set ws. sep \<notin> set w"
  shows "js_split sep (js_join [sep] ws) = ws"
  using assms
proof (induction ws rule: induct_list012)
  case 1
  then show ?case by simp
next
  case (2 w)
  then show ?case by (simp add: js_split_no_sep)
next
  case (3 w v ws)
  then show ?case by (simp add: js_split_append)
qed

subsubsection \<open>Trimming and padding\<close>

lemma js_trim_Nil [simp]: "js_trim [] = []"
  by (simp add: js_trim_def)

lemma js_trim_id:
  assumes "s \<noteq> []" "\<not> is_ws (hd s)" "\<not> is_ws (last s)"
  shows "js_trim s = s"
proof -
  have "dropWhile is_ws s = s" using assms by (cases s) auto
  moreover have "dropWhile is_ws (rev s) = rev s"
    using assms by (cases s rule: rev_cases) auto
  ultimately show ?thesis by (simp add: js_trim_def)
qed

lemma js_trim_no_ws:
  assumes "\<And>c. c \<in> set s \<Longrightarrow> \<not> is_ws c"
  shows "js_trim s = s"
proof (cases "s = []")
  case False
  then show ?thesis using assms by (intro js_trim_id) auto
qed simp

lemma hd_js_trim: "js_trim s \<noteq> [] \<Longrightarrow> \<not> is_ws (hd (js_trim s))"
proof -
  assume ne: "js_trim s \<noteq> []"
  let ?t = "dropWhile is_ws s"
  have t: "?t \<noteq> []" using ne unfolding js_trim_def by (metis dropWhile.simps(1) rev.simps(1))
  have hd: "\<not> is_ws (hd ?t)" using t by (rule hd_dropWhile)
  obtain zs where "rev ?t = zs @ dropWhile is_ws (rev ?t)"
    by (metis takeWhile_dropWhile_id)
  then have "?t = rev (dropWhile is_ws (rev ?t)) @ rev zs"
    by (metis rev_append rev_rev_ident)
  then have "hd ?t = hd (js_trim s)"
    using ne by (metis js_trim_def hd_append2)
  with hd show ?thesis by simp
qed

lemma last_js_trim: "js_trim s \<noteq> [] \<Longrightarrow> \<not> is_ws (last (js_trim s))"
  by (metis js_trim_def hd_dropWhile last_rev rev_is_Nil_conv)

lemma js_trim_idem [simp]: "js_trim (js_trim s) = js_trim s"
proof (cases "js_trim s = []")
  case False
  then show ?thesis by (intro js_trim_id hd_js_trim last_js_trim)
qed simp

lemma length_js_trim: "length (js_trim s) \<le> length s"
  unfolding js_trim_def by (metis le_trans length_dropWhile_le length_rev)

lemma set_js_trim: "set (js_trim s) \<subseteq> set s"
  by (auto simp del: dropWhile_eq_drop simp: js_trim_def dest!: set_dropWhileD)

lemma length_padStart [simp]: "length (padStart n c s) = max n (length s)"
  by (simp add: padStart_def)

lemma length_padEnd [simp]: "length (padEnd n c s) = max n (length s)"
  by (simp add: padEnd_def)

lemma replicate_small:
  "replicate 2 x = [x, x]" "replicate 3 x = [x, x, x]" "replicate 4 x = [x, x, x, x]"
  "replicate 5 x = [x, x, x, x, x]"
  by (simp_all add: numeral_eq_Suc)

lemma set_padStart: "set (padStart n c s) \<subseteq> insert c (set s)"
  by (auto simp: padStart_def)

end
