(* ===== verification/Radix.thy ===== *)
theory Radix
  imports Prelude
begin

unbundle bit_operations_syntax

text \<open>
  Integers as text: \<open>n.toString(radix)\<close>, and \<open>BigInt\<close> or \<open>parseInt\<close> on a run of
  digits.  The locale \<open>radix\<close> holds what is true in every base from 2 to 16,
  above all that reading undoes printing whatever zeros are padded in front; it
  is interpreted for the four bases the sources print in.
\<close>

definition digit_char :: "nat \<Rightarrow> char" where
  "digit_char d = (if d < 10 then char_of (48 + d) else char_of (87 + d))"

text \<open>The value of a digit, in either case; \<open>None\<close> for any other character.\<close>

definition digit_val :: "char \<Rightarrow> nat option" where
  "digit_val c =
     (if 48 \<le> code c \<and> code c \<le> 57 then Some (code c - 48)
      else if 97 \<le> code c \<and> code c \<le> 102 then Some (code c - 87)
      else if 65 \<le> code c \<and> code c \<le> 70 then Some (code c - 55)
      else None)"

definition is_digit_in :: "nat \<Rightarrow> char \<Rightarrow> bool" where
  "is_digit_in b c \<longleftrightarrow> (case digit_val c of None \<Rightarrow> False | Some d \<Rightarrow> d < b)"

text \<open>\<open>/^[...]+$/.test(s)\<close> for the digits of a base.\<close>

definition digits_only :: "nat \<Rightarrow> jstring \<Rightarrow> bool" where
  "digits_only b s \<longleftrightarrow> s \<noteq> [] \<and> list_all (is_digit_in b) s"

fun nat_to_string :: "nat \<Rightarrow> nat \<Rightarrow> jstring" where
  "nat_to_string b n =
     (if b < 2 \<or> n < b then [digit_char n]
      else nat_to_string b (n div b) @ [digit_char (n mod b)])"

declare nat_to_string.simps [simp del]

definition to_string :: "nat \<Rightarrow> int \<Rightarrow> jstring" where
  "to_string b i =
     (if i < 0 then CHR ''-'' # nat_to_string b (nat (- i)) else nat_to_string b (nat i))"

definition of_digits :: "nat \<Rightarrow> jstring \<Rightarrow> nat" where
  "of_digits b s = foldl (\<lambda>acc c. acc * b + (case digit_val c of None \<Rightarrow> 0 | Some d \<Rightarrow> d)) 0 s"

lemma code_digit_char:
  "d < 16 \<Longrightarrow> code (digit_char d) = (if d < 10 then 48 + d else 87 + d)"
  by (simp add: digit_char_def code_def)

lemma digit_val_char [simp]: "d < 16 \<Longrightarrow> digit_val (digit_char d) = Some d"
  by (auto simp: digit_val_def code_digit_char)

lemma digit_char_not_ws: "d < 16 \<Longrightarrow> \<not> is_ws (digit_char d)"
  by (auto simp: is_ws_def code_digit_char)

lemma is_digit_in_not_ws: "is_digit_in b c \<Longrightarrow> \<not> is_ws c"
  by (auto simp: is_digit_in_def digit_val_def is_ws_def split: if_splits)

lemma is_digit_in_10: "is_digit_in 10 c \<longleftrightarrow> is_digit c"
  by (auto simp: is_digit_in_def digit_val_def is_digit_def)

lemma is_digit_in_mono: "is_digit_in b c \<Longrightarrow> b \<le> b' \<Longrightarrow> is_digit_in b' c"
  by (auto simp: is_digit_in_def split: option.splits)

lemma zero_is_digit: "0 < b \<Longrightarrow> is_digit_in b (CHR ''0'')"
  by (simp add: is_digit_in_def digit_val_def code_def)

lemma digit_val_zero [simp]: "digit_val (CHR ''0'') = Some 0"
  by (simp add: digit_val_def code_def)

lemma nat_to_string_nonempty [simp]: "nat_to_string b n \<noteq> []"
  by (subst nat_to_string.simps) simp

lemma of_digits_Nil [simp]: "of_digits b [] = 0"
  by (simp add: of_digits_def)

lemma of_digits_snoc [simp]:
  "of_digits b (s @ [c]) = of_digits b s * b + (case digit_val c of None \<Rightarrow> 0 | Some d \<Rightarrow> d)"
  by (simp add: of_digits_def)

lemma of_digits_zeros [simp]: "of_digits b (replicate k (CHR ''0'') @ s) = of_digits b s"
  by (induction k) (simp_all add: of_digits_def)

lemma of_digits_pad [simp]: "of_digits b (padStart k (CHR ''0'') s) = of_digits b s"
  by (simp add: padStart_def)

lemma of_digits_append: "of_digits b (s @ t) = of_digits b s * b ^ length t + of_digits b t"
proof (induction t rule: rev_induct)
  case (snoc c t)
  then show ?case
    by (simp flip: append_assoc add: algebra_simps)
qed simp

lemma of_digits_less:
  assumes "list_all (is_digit_in b) s" and "0 < b"
  shows "of_digits b s < b ^ length s"
  using assms(1)
proof (induction s rule: rev_induct)
  case (snoc c s)
  then obtain d where d: "digit_val c = Some d" "d < b"
    by (auto simp: is_digit_in_def split: option.splits)
  from snoc have "Suc (of_digits b s) \<le> b ^ length s" by simp
  then have "Suc (of_digits b s) * b \<le> b ^ length s * b" by (rule mult_le_mono1)
  with d show ?case by (simp add: algebra_simps)
qed simp

locale radix =
  fixes b :: nat
  assumes base_lower: "2 \<le> b" and base_upper: "b \<le> 16"
begin

lemma digit_val_digit [simp]: "d < b \<Longrightarrow> digit_val (digit_char d) = Some d"
  using base_upper by simp

lemma is_digit_digit [simp]: "d < b \<Longrightarrow> is_digit_in b (digit_char d)"
  by (simp add: is_digit_in_def)

lemma mod_digit [simp]: "n mod b < b"
  using base_lower by simp

lemma digits_are_digits: "list_all (is_digit_in b) (nat_to_string b n)"
proof (induction n rule: less_induct)
  case (less n)
  show ?case
  proof (cases "n < b")
    case True
    then show ?thesis
      by (subst nat_to_string.simps) simp
  next
    case False
    then have "n div b < n" using base_lower by auto
    from less [OF this] False show ?thesis
      using base_lower by (subst nat_to_string.simps) simp
  qed
qed

lemma of_digits_to_string: "of_digits b (nat_to_string b n) = n"
proof (induction n rule: less_induct)
  case (less n)
  show ?case
  proof (cases "n < b")
    case True
    then show ?thesis
      by (subst nat_to_string.simps) (simp add: of_digits_def)
  next
    case False
    then have "n div b < n" using base_lower by auto
    from less [OF this] False show ?thesis
      using base_lower by (subst nat_to_string.simps) simp
  qed
qed

lemma to_string_inj: "nat_to_string b m = nat_to_string b n \<Longrightarrow> m = n"
  by (metis of_digits_to_string)

lemma digits_only_to_string: "digits_only b (nat_to_string b n)"
  by (simp add: digits_only_def digits_are_digits)

lemma digits_only_padded: "digits_only b (padStart k (CHR ''0'') (nat_to_string b n))"
  using digits_are_digits [of n] base_lower
  by (auto simp: digits_only_def padStart_def list_all_iff zero_is_digit)

lemma to_string_length_le:
  assumes "n < b ^ k" "0 < k"
  shows "length (nat_to_string b n) \<le> k"
  using assms
proof (induction k arbitrary: n)
  case (Suc k)
  show ?case
  proof (cases "n < b")
    case True
    then show ?thesis by (subst nat_to_string.simps) simp
  next
    case False
    then have k: "0 < k" using Suc.prems by (cases k) auto
    have "n div b < b ^ k"
      using Suc.prems base_lower by (simp add: less_mult_imp_div_less mult.commute)
    from Suc.IH [OF this k] False base_lower show ?thesis
      by (subst nat_to_string.simps) simp
  qed
qed simp

lemma to_string_lower:
  assumes "0 < n"
  shows "b ^ (length (nat_to_string b n) - 1) \<le> n"
  using assms
proof (induction n rule: less_induct)
  case (less n)
  show ?case
  proof (cases "n < b")
    case True
    then show ?thesis using less.prems by (subst nat_to_string.simps) simp
  next
    case False
    let ?k = "length (nat_to_string b (n div b))"
    have q: "n div b < n" "0 < n div b" using False less.prems base_lower by (auto simp: div_greater_zero_iff)
    have "b ^ (?k - 1) * b \<le> n div b * b"
      using less.IH [OF q] by (rule mult_right_mono) simp
    also have "n div b * b \<le> n" by simp
    finally have "b ^ Suc (?k - 1) \<le> n" by (simp only: power_Suc mult.commute)
    moreover have "Suc (?k - 1) = ?k" by (cases "nat_to_string b (n div b)") auto
    ultimately have "b ^ ?k \<le> n" by metis
    then show ?thesis using False base_lower by (subst nat_to_string.simps) simp
  qed
qed

lemma to_string_upper: "n < b ^ length (nat_to_string b n)"
  using of_digits_less [OF digits_are_digits [of n]] base_lower by (simp add: of_digits_to_string)

lemma to_string_no_ws: "c \<in> set (nat_to_string b n) \<Longrightarrow> \<not> is_ws c"
  using digits_are_digits [of n] by (auto simp: list_all_iff dest: is_digit_in_not_ws)

end

interpretation bin: radix 2 by unfold_locales simp_all
interpretation oct: radix 8 by unfold_locales simp_all
interpretation dec: radix 10 by unfold_locales simp_all
interpretation hex: radix 16 by unfold_locales simp_all

text \<open>The binary text of a number, padded to a width, is its bits from the top down.\<close>

definition bit_char :: "bool \<Rightarrow> char" where
  "bit_char b = (if b then CHR ''1'' else CHR ''0'')"

lemma digit_char_01: "digit_char 0 = CHR ''0''" "digit_char (Suc 0) = CHR ''1''"
  by code_simp+

lemma digit_char_bit: "n < 2 \<Longrightarrow> digit_char n = bit_char (odd n)"
  by (auto simp: digit_char_01 bit_char_def less_2_cases_iff)

lemma pad_binary_step:
  assumes "0 < k"
  shows "padStart (Suc k) (CHR ''0'') (nat_to_string 2 n) =
         padStart k (CHR ''0'') (nat_to_string 2 (n div 2)) @ [bit_char (odd n)]"
proof (cases "n < 2")
  case True
  then have "nat_to_string 2 n = [bit_char (odd n)]" "nat_to_string 2 (n div 2) = [CHR ''0'']"
    by (subst nat_to_string.simps; simp add: digit_char_bit bit_char_def)+
  moreover have "replicate k (CHR ''0'') = replicate (k - 1) (CHR ''0'') @ [CHR ''0'']"
    using assms by (cases k) (simp_all add: replicate_append_same)
  ultimately show ?thesis by (simp add: padStart_def)
next
  case False
  then have "nat_to_string 2 n = nat_to_string 2 (n div 2) @ [digit_char (n mod 2)]"
    by (subst nat_to_string.simps) simp
  then show ?thesis by (simp add: padStart_def digit_char_bit)
qed

lemma pad_binary_bits:
  assumes "0 < k" "n < 2 ^ k"
  shows "padStart k (CHR ''0'') (nat_to_string 2 n) = map (\<lambda>i. bit_char (bit n i)) (rev [0..<k])"
  using assms
proof (induction k arbitrary: n)
  case (Suc k)
  show ?case
  proof (cases "k = 0")
    case True
    then show ?thesis
      using Suc.prems
      by (subst nat_to_string.simps) (simp add: padStart_def digit_char_bit bit_0)
  next
    case False
    have "map (\<lambda>i. bit_char (bit (n div 2) i)) (rev [0..<k]) @ [bit_char (odd n)] =
          map (\<lambda>i. bit_char (bit n i)) (rev [0..<Suc k])"
    proof -
      have "map (\<lambda>i. bit_char (bit n i)) [0..<Suc k] =
            bit_char (odd n) # map (\<lambda>i. bit_char (bit (n div 2) i)) [0..<k]"
        by (simp add: bit_0 bit_Suc upt_conv_Cons map_Suc_upt [symmetric] del: upt_Suc)
      then show ?thesis by (simp add: rev_map [symmetric] del: upt_Suc)
    qed
    moreover have "n div 2 < 2 ^ k" using Suc.prems by auto
    ultimately show ?thesis using Suc.IH [of "n div 2"] False by (simp add: pad_binary_step)
  qed
qed simp

lemma padded_no_ws: "digits_only b s \<Longrightarrow> js_trim s = s"
  by (intro js_trim_no_ws) (auto simp: digits_only_def list_all_iff dest: is_digit_in_not_ws)

lemma to_string_nonneg: "0 \<le> i \<Longrightarrow> to_string b i = nat_to_string b (nat i)"
  by (simp add: to_string_def)

end
