(* ===== verification/BaseConvert.thy ===== *)
theory BaseConvert
  imports Radix
begin

unbundle bit_operations_syntax

text \<open>
  The base converter of \<open>web/lib/asm/base-convert.ts\<close>.  The one stored value is
  the bit pattern, an integer in \<open>[0, 2^width)\<close>; every representation is a way
  to print and to read it.  The definitions follow the file function by
  function, the messages of the failing parses included.  The lemmas say that
  the signed reading is two's complement, that every representation reads back
  what it printed, and that no accepted text leaves the width.
\<close>

datatype Width = W8 | W16 | W32 | W64

fun wbits :: "Width \<Rightarrow> nat" where
  "wbits W8 = 8"
| "wbits W16 = 16"
| "wbits W32 = 32"
| "wbits W64 = 64"

definition WIDTHS :: "Width list" where
  "WIDTHS = [W8, W16, W32, W64]"

datatype Rep = Hex | Octal | Binary | Unsigned | Signed

definition maxUnsigned :: "Width \<Rightarrow> int" where
  "maxUnsigned w = push_bit (wbits w) 1 - 1"

definition minSigned :: "Width \<Rightarrow> int" where
  "minSigned w = - push_bit (wbits w - 1) 1"

definition maxSigned :: "Width \<Rightarrow> int" where
  "maxSigned w = push_bit (wbits w - 1) 1 - 1"

definition toSigned :: "int \<Rightarrow> Width \<Rightarrow> int" where
  "toSigned bits w =
     (if bits \<ge> push_bit (wbits w - 1) 1 then bits - push_bit (wbits w) 1 else bits)"

definition fromSigned :: "int \<Rightarrow> Width \<Rightarrow> int" where
  "fromSigned value w = (if value < 0 then value + push_bit (wbits w) 1 else value)"

definition signBit :: "int \<Rightarrow> Width \<Rightarrow> nat" where
  "signBit bits w = (if bits \<ge> push_bit (wbits w - 1) 1 then 1 else 0)"

definition flipBit :: "int \<Rightarrow> int \<Rightarrow> Width \<Rightarrow> int" where
  "flipBit bits index w =
     (if index < 0 \<or> index \<ge> int (wbits w) then bits else bits XOR push_bit (nat index) 1)"

definition bitAt :: "int \<Rightarrow> nat \<Rightarrow> nat" where
  "bitAt bits index = (if drop_bit index bits AND 1 \<noteq> 0 then 1 else 0)"

definition fitsUnsigned :: "int \<Rightarrow> Width \<Rightarrow> bool" where
  "fitsUnsigned bits w \<longleftrightarrow> bits \<ge> 0 \<and> bits \<le> maxUnsigned w"

definition truncate :: "int \<Rightarrow> Width \<Rightarrow> int" where
  "truncate bits w = bits AND maxUnsigned w"

definition formatHex :: "int \<Rightarrow> Width \<Rightarrow> jstring" where
  "formatHex bits w = padStart (wbits w div 4) (CHR ''0'') (to_string 16 bits)"

definition formatOctal :: "int \<Rightarrow> Width \<Rightarrow> jstring" where
  "formatOctal bits w = padStart ((wbits w + 2) div 3) (CHR ''0'') (to_string 8 bits)"

definition formatBinary :: "int \<Rightarrow> Width \<Rightarrow> jstring" where
  "formatBinary bits w =
     (let digits = padStart (wbits w) (CHR ''0'') (to_string 2 bits)
      in js_join '' '' (map (\<lambda>i. js_slice digits (4 * i) (4 * i + 4)) [0..<wbits w div 4]))"

definition formatUnsigned :: "int \<Rightarrow> jstring" where
  "formatUnsigned bits = to_string 10 bits"

definition formatSigned :: "int \<Rightarrow> Width \<Rightarrow> jstring" where
  "formatSigned bits w = to_string 10 (toSigned bits w)"

datatype ParseOutcome = POk int | PEmpty | PInvalid jstring | PRange jstring

definition bitsNeeded :: "int \<Rightarrow> nat" where
  "bitsNeeded value = (if value = 0 then 1 else length (to_string 2 value))"

text \<open>\<open>text.replace(/^0[xX]/, "")\<close>, for the two letters of the prefix.\<close>

fun strip_prefix :: "char \<Rightarrow> char \<Rightarrow> jstring \<Rightarrow> jstring" where
  "strip_prefix lo up (c # d # s) =
     (if c = CHR ''0'' \<and> (d = lo \<or> d = up) then s else c # d # s)"
| "strip_prefix lo up s = s"

definition show_nat :: "nat \<Rightarrow> jstring" where
  "show_nat n = nat_to_string 10 n"

definition show_int :: "int \<Rightarrow> jstring" where
  "show_int i = to_string 10 i"

text \<open>\<open>/^-?[0-9]+$/\<close>, and \<open>BigInt\<close> of such a text.\<close>

definition signed_decimal :: "jstring \<Rightarrow> bool" where
  "signed_decimal s =
     (case s of [] \<Rightarrow> False | c # cs \<Rightarrow> if c = CHR ''-'' then digits_only 10 cs else digits_only 10 s)"

definition signed_value :: "jstring \<Rightarrow> int" where
  "signed_value s =
     (case s of [] \<Rightarrow> 0
      | c # cs \<Rightarrow> if c = CHR ''-'' then - int (of_digits 10 cs) else int (of_digits 10 s))"

definition parseHexRep :: "jstring \<Rightarrow> Width \<Rightarrow> ParseOutcome" where
  "parseHexRep trimmed w =
     (let digits = strip_prefix (CHR ''x'') (CHR ''X'') trimmed in
      if digits = [] then PEmpty
      else if \<not> digits_only 16 digits then PInvalid ''hex digits are 0-9 and a-f''
      else let bits = int (of_digits 16 digits) in
        if \<not> fitsUnsigned bits w then
          PRange (''0x'' @ to_string 16 bits @ '' needs '' @ show_nat (bitsNeeded bits) @ '' bits; ''
                  @ show_nat (wbits w) @ ''-bit hex maxes at 0x'' @ replicate (wbits w div 4) (CHR ''f''))
        else POk bits)"

definition parseOctalRep :: "jstring \<Rightarrow> Width \<Rightarrow> ParseOutcome" where
  "parseOctalRep trimmed w =
     (let digits = strip_prefix (CHR ''o'') (CHR ''O'') trimmed in
      if digits = [] then PEmpty
      else if list_ex (\<lambda>c. c = CHR ''8'' \<or> c = CHR ''9'') digits \<and> digits_only 10 digits then
        PInvalid ''8 and 9 are not octal digits; octal uses 0-7''
      else if \<not> digits_only 8 digits then PInvalid ''octal digits are 0-7''
      else let bits = int (of_digits 8 digits) in
        if \<not> fitsUnsigned bits w then
          PRange (''that needs '' @ show_nat (bitsNeeded bits) @ '' bits; '' @ show_nat (wbits w)
                  @ ''-bit octal maxes at '' @ formatOctal (maxUnsigned w) w)
        else POk bits)"

definition parseBinaryRep :: "jstring \<Rightarrow> Width \<Rightarrow> ParseOutcome" where
  "parseBinaryRep trimmed w =
     (let digits = filter (\<lambda>c. c \<noteq> CHR '' '') (strip_prefix (CHR ''b'') (CHR ''B'') trimmed) in
      if digits = [] then PEmpty
      else if \<not> digits_only 2 digits then PInvalid ''binary digits are 0 and 1''
      else let bits = int (of_digits 2 digits) in
        if \<not> fitsUnsigned bits w then
          PRange (''that needs '' @ show_nat (bitsNeeded bits) @ '' bits; width is '' @ show_nat (wbits w))
        else POk bits)"

definition parseUnsignedRep :: "jstring \<Rightarrow> Width \<Rightarrow> ParseOutcome" where
  "parseUnsignedRep trimmed w =
     (if starts_with ''-'' trimmed then PInvalid ''negative belongs in the signed reading''
      else if \<not> digits_only 10 trimmed then PInvalid ''decimal digits only''
      else let bits = int (of_digits 10 trimmed) in
        if \<not> fitsUnsigned bits w then
          PRange (''unsigned '' @ show_nat (wbits w) @ ''-bit maxes at '' @ show_int (maxUnsigned w))
        else POk bits)"

definition parseSignedRep :: "jstring \<Rightarrow> Width \<Rightarrow> ParseOutcome" where
  "parseSignedRep trimmed w =
     (if \<not> signed_decimal trimmed then
        PInvalid ''decimal digits only, with an optional leading -''
      else let value = signed_value trimmed in
        if value < minSigned w \<or> value > maxSigned w then
          PRange (''signed '' @ show_nat (wbits w) @ ''-bit runs '' @ show_int (minSigned w)
                  @ '' to '' @ show_int (maxSigned w))
        else POk (fromSigned value w))"

definition parseRep :: "Rep \<Rightarrow> jstring \<Rightarrow> Width \<Rightarrow> ParseOutcome" where
  "parseRep rep text w =
     (let trimmed = js_trim text in
      if trimmed = [] then PEmpty
      else case rep of
        Hex \<Rightarrow> parseHexRep trimmed w
      | Octal \<Rightarrow> parseOctalRep trimmed w
      | Binary \<Rightarrow> parseBinaryRep trimmed w
      | Unsigned \<Rightarrow> parseUnsignedRep trimmed w
      | Signed \<Rightarrow> parseSignedRep trimmed w)"

fun formatRep :: "Rep \<Rightarrow> int \<Rightarrow> Width \<Rightarrow> jstring" where
  "formatRep Hex bits w = formatHex bits w"
| "formatRep Octal bits w = formatOctal bits w"
| "formatRep Binary bits w = formatBinary bits w"
| "formatRep Unsigned bits w = formatUnsigned bits"
| "formatRep Signed bits w = formatSigned bits w"

subsection \<open>Bit patterns and their signed reading\<close>

lemma wbits_pos [simp]: "0 < wbits w"
  by (cases w) auto

lemma wbits_mult4: "4 * (wbits w div 4) = wbits w"
  by (cases w) auto

lemma half_double: "(2::int) ^ wbits w = 2 * 2 ^ (wbits w - 1)"
  by (cases w) auto

lemma fitsUnsigned_iff: "fitsUnsigned bits w \<longleftrightarrow> 0 \<le> bits \<and> bits < 2 ^ wbits w"
  by (auto simp: fitsUnsigned_def maxUnsigned_def push_bit_eq_mult)

lemma truncate_mod: "truncate bits w = bits mod 2 ^ wbits w"
proof -
  have "maxUnsigned w = mask (wbits w)"
    by (simp add: maxUnsigned_def mask_eq_exp_minus_1 push_bit_eq_mult)
  then show ?thesis
    by (simp add: truncate_def take_bit_eq_mod flip: take_bit_eq_mask)
qed

lemma truncate_fits: "fitsUnsigned (truncate bits w) w"
  by (simp add: fitsUnsigned_iff truncate_mod)

lemma truncate_id: "fitsUnsigned bits w \<Longrightarrow> truncate bits w = bits"
  by (simp add: fitsUnsigned_iff truncate_mod)

lemma toSigned_fromSigned:
  assumes "minSigned w \<le> v" "v \<le> maxSigned w"
  shows "toSigned (fromSigned v w) w = v"
  using assms half_double [of w]
  by (auto simp: toSigned_def fromSigned_def minSigned_def maxSigned_def push_bit_eq_mult)

lemma fromSigned_toSigned:
  assumes "fitsUnsigned bits w"
  shows "fromSigned (toSigned bits w) w = bits"
  using assms half_double [of w]
  by (auto simp: toSigned_def fromSigned_def fitsUnsigned_iff push_bit_eq_mult)

lemma toSigned_bounds:
  assumes "fitsUnsigned bits w"
  shows "minSigned w \<le> toSigned bits w \<and> toSigned bits w \<le> maxSigned w"
  using assms half_double [of w]
  by (auto simp: toSigned_def minSigned_def maxSigned_def fitsUnsigned_iff push_bit_eq_mult)

lemma fromSigned_fits:
  assumes "minSigned w \<le> v" "v \<le> maxSigned w"
  shows "fitsUnsigned (fromSigned v w) w"
  using assms half_double [of w]
  by (auto simp: fromSigned_def minSigned_def maxSigned_def fitsUnsigned_iff push_bit_eq_mult)

lemma bitAt_bit: "bitAt bits i = of_bool (bit bits i)"
  by (auto simp: bitAt_def bit_iff_odd_drop_bit and_one_eq odd_iff_mod_2_eq_one)

lemma bit_flipBit:
  assumes "0 \<le> index" "index < int (wbits w)"
  shows "bit (flipBit bits index w) j \<longleftrightarrow> (if j = nat index then \<not> bit bits j else bit bits j)"
  using assms by (auto simp: flipBit_def bit_simps)

lemma fits_bits: "fitsUnsigned bits w \<longleftrightarrow> 0 \<le> bits \<and> take_bit (wbits w) bits = bits"
  by (auto simp: fitsUnsigned_iff take_bit_eq_mod) (metis pos_mod_bound zero_less_numeral zero_less_power)

subsection \<open>Printing and reading back\<close>

lemma strip_prefix_none: "lo \<notin> set s \<Longrightarrow> up \<notin> set s \<Longrightarrow> strip_prefix lo up s = s"
  by (induction lo up s rule: strip_prefix.induct) auto

lemma digits_only_strip:
  assumes "digits_only b s" and "\<not> is_digit_in b lo" and "\<not> is_digit_in b up"
  shows "strip_prefix lo up s = s"
  using assms by (intro strip_prefix_none) (auto simp: digits_only_def list_all_iff)

lemma not_hex_x: "\<not> is_digit_in 16 (CHR ''x'')" "\<not> is_digit_in 16 (CHR ''X'')"
  by (simp_all add: is_digit_in_def digit_val_def code_def)

lemma not_oct_o: "\<not> is_digit_in 8 (CHR ''o'')" "\<not> is_digit_in 8 (CHR ''O'')"
  by (simp_all add: is_digit_in_def digit_val_def code_def)

lemma not_bin_b:
  "\<not> is_digit_in 2 (CHR ''b'')" "\<not> is_digit_in 2 (CHR ''B'')" "\<not> is_digit_in 2 (CHR '' '')"
  by (simp_all add: is_digit_in_def digit_val_def code_def)

lemma not_oct_89: "\<not> is_digit_in 8 (CHR ''8'')" "\<not> is_digit_in 8 (CHR ''9'')"
  by (simp_all add: is_digit_in_def digit_val_def code_def)

lemma not_dec_minus: "\<not> is_digit_in 10 (CHR ''-'')"
  by (simp add: is_digit_in_def digit_val_def code_def)

lemma digits_only_nonempty: "digits_only b s \<Longrightarrow> s \<noteq> []"
  by (simp add: digits_only_def)

lemmas digits_not = not_hex_x not_oct_o not_bin_b not_oct_89 not_dec_minus

lemma parse_formatHex:
  assumes "fitsUnsigned bits w"
  shows "parseRep Hex (formatHex bits w) w = POk bits"
proof -
  let ?s = "formatHex bits w"
  have nn: "0 \<le> bits" using assms by (simp add: fitsUnsigned_iff)
  have d: "digits_only 16 ?s"
    using nn by (simp add: formatHex_def to_string_nonneg hex.digits_only_padded)
  have v: "int (of_digits 16 ?s) = bits"
    using nn by (simp add: formatHex_def to_string_nonneg hex.of_digits_to_string)
  show ?thesis
    using d v assms
    by (simp add: parseRep_def parseHexRep_def padded_no_ws digits_only_nonempty
        digits_only_strip [OF d] not_hex_x)
qed

lemma parse_formatOctal:
  assumes "fitsUnsigned bits w"
  shows "parseRep Octal (formatOctal bits w) w = POk bits"
proof -
  let ?s = "formatOctal bits w"
  have nn: "0 \<le> bits" using assms by (simp add: fitsUnsigned_iff)
  have d: "digits_only 8 ?s"
    using nn by (simp add: formatOctal_def to_string_nonneg oct.digits_only_padded)
  have v: "int (of_digits 8 ?s) = bits"
    using nn by (simp add: formatOctal_def to_string_nonneg oct.of_digits_to_string)
  have no89: "\<not> list_ex (\<lambda>c. c = CHR ''8'' \<or> c = CHR ''9'') ?s"
    using d not_oct_89 by (auto simp: digits_only_def list_all_iff list_ex_iff)
  show ?thesis
    using d v assms no89
    by (simp add: parseRep_def parseOctalRep_def padded_no_ws digits_only_nonempty
        digits_only_strip [OF d] not_oct_o)
qed

lemma parse_formatUnsigned:
  assumes "fitsUnsigned bits w"
  shows "parseRep Unsigned (formatUnsigned bits) w = POk bits"
proof -
  let ?s = "formatUnsigned bits"
  have nn: "0 \<le> bits" using assms by (simp add: fitsUnsigned_iff)
  have d: "digits_only 10 ?s"
    using nn by (simp add: formatUnsigned_def to_string_nonneg dec.digits_only_to_string)
  have v: "int (of_digits 10 ?s) = bits"
    using nn by (simp add: formatUnsigned_def to_string_nonneg dec.of_digits_to_string)
  have "\<not> starts_with ''-'' ?s"
    using d not_dec_minus by (auto simp: digits_only_def starts_with_iff)
  then show ?thesis
    using d v assms
    by (simp add: parseRep_def parseUnsignedRep_def padded_no_ws digits_only_nonempty)
qed

lemma to_string_nonempty [simp]: "to_string b v \<noteq> []"
  by (simp add: to_string_def)

lemma signed_decimal_to_string: "signed_decimal (to_string 10 v)"
  using dec.digits_only_to_string [of "nat v"] dec.digits_only_to_string [of "nat (- v)"] not_dec_minus
  by (auto simp: signed_decimal_def to_string_def digits_only_def split: list.splits)

lemma signed_value_to_string: "signed_value (to_string 10 v) = v"
proof (cases "v < 0")
  case True
  then show ?thesis
    by (simp add: signed_value_def to_string_def dec.of_digits_to_string)
next
  case False
  obtain c cs where s: "nat_to_string 10 (nat v) = c # cs"
    by (cases "nat_to_string 10 (nat v)") auto
  have "c \<noteq> CHR ''-''"
    using dec.digits_only_to_string [of "nat v"] not_dec_minus by (auto simp: s digits_only_def)
  then show ?thesis
    using False dec.of_digits_to_string [of "nat v"] by (simp add: signed_value_def to_string_def s)
qed

lemma trim_to_string [simp]: "js_trim (to_string 10 v) = to_string 10 v"
proof (rule js_trim_no_ws)
  fix c
  assume "c \<in> set (to_string 10 v)"
  then show "\<not> is_ws c"
    by (auto simp: to_string_def is_ws_def code_def split: if_splits dest!: dec.to_string_no_ws)
qed

lemma parse_formatSigned:
  assumes "fitsUnsigned bits w"
  shows "parseRep Signed (formatSigned bits w) w = POk bits"
  using toSigned_bounds [OF assms] fromSigned_toSigned [OF assms]
  by (simp add: parseRep_def parseSignedRep_def formatSigned_def signed_value_to_string
      signed_decimal_to_string)

lemma filter_join_spaces:
  assumes "\<forall>g \<in> set gs. CHR '' '' \<notin> set g"
  shows "filter (\<lambda>c. c \<noteq> CHR '' '') (js_join '' '' gs) = concat gs"
  using assms
proof (induction gs rule: induct_list012)
  case (2 g)
  then show ?case by (auto simp: filter_id_conv)
next
  case (3 g h gs)
  then show ?case by (auto simp: filter_id_conv)
qed simp

lemma concat_slices:
  "length s = 4 * n \<Longrightarrow> concat (map (\<lambda>i. js_slice s (4 * i) (4 * i + 4)) [0..<n]) = s"
proof (induction n arbitrary: s)
  case (Suc n)
  let ?t = "take (4 * n) s"
  have t: "length ?t = 4 * n" using Suc.prems by simp
  have "map (\<lambda>i. js_slice s (4 * i) (4 * i + 4)) [0..<n] =
        map (\<lambda>i. js_slice ?t (4 * i) (4 * i + 4)) [0..<n]"
    by (auto simp: js_slice_def take_drop)
  then have "concat (map (\<lambda>i. js_slice s (4 * i) (4 * i + 4)) [0..<n]) = ?t"
    by (simp only: Suc.IH [OF t])
  then have "concat (map (\<lambda>i. js_slice s (4 * i) (4 * i + 4)) [0..<Suc n]) = ?t @ js_slice s (4 * n) (4 * n + 4)"
    by simp
  also have "\<dots> = s" using Suc.prems by (simp add: js_slice_def)
  finally show ?case .
qed simp

lemma set_js_slice: "set (js_slice s a b) \<subseteq> set s"
  by (auto simp: js_slice_def dest: in_set_takeD in_set_dropD)

lemma set_js_join: "set (js_join sep gs) \<subseteq> set sep \<union> \<Union> (set (map set gs))"
  by (induction sep gs rule: js_join.induct) auto

lemma js_join_nonempty: "gs \<noteq> [] \<Longrightarrow> \<forall>g \<in> set gs. g \<noteq> [] \<Longrightarrow> js_join sep gs \<noteq> []"
  by (induction sep gs rule: js_join.induct) auto

lemma hd_js_join: "gs \<noteq> [] \<Longrightarrow> \<forall>g \<in> set gs. g \<noteq> [] \<Longrightarrow> hd (js_join sep gs) = hd (hd gs)"
  by (induction sep gs rule: js_join.induct) auto

lemma last_js_join: "gs \<noteq> [] \<Longrightarrow> \<forall>g \<in> set gs. g \<noteq> [] \<Longrightarrow> last (js_join sep gs) = last (last gs)"
  by (induction sep gs rule: js_join.induct) (auto simp: js_join_nonempty)

lemma js_trim_join:
  assumes "gs \<noteq> []" and g: "\<And>g. g \<in> set gs \<Longrightarrow> g \<noteq> [] \<and> (\<forall>c \<in> set g. \<not> is_ws c)"
  shows "js_trim (js_join sep gs) = js_join sep gs" "js_join sep gs \<noteq> []"
proof -
  have ne: "\<forall>g \<in> set gs. g \<noteq> []" using g by blast
  show *: "js_join sep gs \<noteq> []" using assms(1) ne by (rule js_join_nonempty)
  show "js_trim (js_join sep gs) = js_join sep gs"
  proof (rule js_trim_id [OF *])
    show "\<not> is_ws (hd (js_join sep gs))"
      using hd_js_join [OF assms(1) ne, of sep] g [of "hd gs"] assms(1) by auto
    show "\<not> is_ws (last (js_join sep gs))"
      using last_js_join [OF assms(1) ne, of sep] g [of "last gs"] assms(1) by auto
  qed
qed

lemma parse_formatBinary:
  assumes "fitsUnsigned bits w"
  shows "parseRep Binary (formatBinary bits w) w = POk bits"
proof -
  let ?k = "wbits w div 4"
  let ?digits = "padStart (wbits w) (CHR ''0'') (to_string 2 bits)"
  let ?gs = "map (\<lambda>i. js_slice ?digits (4 * i) (4 * i + 4)) [0..<?k]"
  let ?s = "formatBinary bits w"
  have nn: "0 \<le> bits" and lt: "nat bits < 2 ^ wbits w"
    using assms by (auto simp: fitsUnsigned_iff nat_less_iff)
  have d: "digits_only 2 ?digits"
    using nn by (simp add: to_string_nonneg bin.digits_only_padded)
  have len: "length ?digits = 4 * ?k"
    using bin.to_string_length_le [OF lt] nn wbits_mult4 [of w] by (simp add: to_string_nonneg)
  have cat: "concat ?gs = ?digits" by (rule concat_slices [OF len])
  have digit: "is_digit_in 2 c" if "c \<in> set g" "g \<in> set ?gs" for c g
    using that d set_js_slice by (fastforce simp: digits_only_def list_all_iff)
  have s: "?s = js_join '' '' ?gs" by (simp add: formatBinary_def Let_def)
  have chars: "c \<in> set ?s \<Longrightarrow> is_digit_in 2 c \<or> c = CHR '' ''" for c
    using set_js_join [of "'' ''" ?gs] digit unfolding s by fastforce
  have k: "0 < ?k" by (cases w) auto
  have ne: "js_slice ?digits (4 * i) (4 * i + 4) \<noteq> []" if "i < ?k" for i
    using that len by (auto simp: js_slice_def)
  have groups: "g \<noteq> [] \<and> (\<forall>c \<in> set g. \<not> is_ws c)" if "g \<in> set ?gs" for g
    using that ne digit [OF _ that] is_digit_in_not_ws by auto
  have trim: "js_trim ?s = ?s" "?s \<noteq> []"
    unfolding s using k groups by (intro js_trim_join; simp)+
  have strip: "strip_prefix (CHR ''b'') (CHR ''B'') ?s = ?s"
    using chars not_bin_b by (intro strip_prefix_none) auto
  have "filter (\<lambda>c. c \<noteq> CHR '' '') ?s = ?digits"
    unfolding s using digit not_bin_b(3) by (subst filter_join_spaces) (auto simp: cat)
  then show ?thesis
    using trim strip d nn assms
    by (simp add: parseRep_def parseBinaryRep_def digits_only_nonempty to_string_nonneg
        bin.of_digits_to_string)
qed

lemma parse_format:
  assumes "fitsUnsigned bits w"
  shows "parseRep rep (formatRep rep bits w) w = POk bits"
  using assms
  by (cases rep) (simp_all add: parse_formatHex parse_formatOctal parse_formatBinary
      parse_formatUnsigned parse_formatSigned)

lemma parse_fits:
  assumes "parseRep rep text w = POk bits"
  shows "fitsUnsigned bits w"
  using assms
  by (cases rep)
    (auto simp: parseRep_def parseHexRep_def parseOctalRep_def parseBinaryRep_def
      parseUnsignedRep_def parseSignedRep_def Let_def fromSigned_fits split: if_splits)

subsection \<open>Properties\<close>

text \<open>C14: the text a field of the base converter shows for a value reads back as that
  value: in hex, octal, binary, unsigned and signed decimal, at every width.\<close>

theorem parseRep_formatRep:
  assumes "fitsUnsigned bits w"
  shows "parseRep rep (formatRep rep bits w) w = POk bits"
  by (rule parse_format [OF assms])

theorem parseRep_formatRep_witness: "parseRep Signed (formatRep Signed 0xFE W8) W8 = POk 0xFE"
proof -
  have "fitsUnsigned 0xFE W8" by code_simp
  then show ?thesis by (rule parseRep_formatRep)
qed

text \<open>Whatever text is typed in whatever representation, a value the converter
  accepts fits the width: no accepted text overflows the register.\<close>

theorem parseRep_within_width:
  assumes "parseRep rep text w = POk bits"
  shows "0 \<le> bits \<and> bits < 2 ^ wbits w"
  using parse_fits [OF assms] by (simp add: fitsUnsigned_iff)

theorem parseRep_within_width_witness: "(0::int) \<le> 0xff \<and> (0xff::int) < 2 ^ wbits W8"
proof -
  have "parseRep Hex ''0xFF'' W8 = POk 0xff" by code_simp
  then show ?thesis by (rule parseRep_within_width)
qed

text \<open>The signed reading is two's complement: it lies in the signed range of the
  width, it is the pattern modulo the width, and storing it gives the pattern back.\<close>

theorem toSigned_twos_complement:
  assumes "fitsUnsigned bits w"
  shows "minSigned w \<le> toSigned bits w \<and> toSigned bits w \<le> maxSigned w \<and>
    toSigned bits w mod 2 ^ wbits w = bits \<and> fromSigned (toSigned bits w) w = bits"
proof -
  have "toSigned bits w mod 2 ^ wbits w = bits mod 2 ^ wbits w"
    by (simp add: toSigned_def push_bit_eq_mult)
  then show ?thesis
    using toSigned_bounds [OF assms] fromSigned_toSigned [OF assms] assms by (simp add: fitsUnsigned_iff)
qed

theorem toSigned_twos_complement_witness: "fromSigned (toSigned 0x80 W8) W8 = 0x80"
proof -
  have "fitsUnsigned 0x80 W8" by code_simp
  from toSigned_twos_complement [OF this] show ?thesis by simp
qed

text \<open>Clicking a bit of the grid changes that bit and no other, and clicking it again
  restores the value.\<close>

theorem flipBit_one_bit:
  assumes "0 \<le> index" "index < int (wbits w)"
  shows "bitAt (flipBit bits index w) j = (if j = nat index then 1 - bitAt bits j else bitAt bits j) \<and>
    flipBit (flipBit bits index w) index w = bits"
proof -
  have "bit (flipBit (flipBit bits index w) index w) k \<longleftrightarrow> bit bits k" for k
    by (simp add: bit_flipBit [OF assms])
  then show ?thesis by (simp add: bitAt_bit bit_flipBit [OF assms] bit_eq_iff)
qed

theorem flipBit_one_bit_witness: "bitAt (flipBit 5 1 W8) 1 = 1 \<and> flipBit (flipBit 5 1 W8) 1 W8 = 5"
  using flipBit_one_bit [of 1 W8 5 1] by (simp add: bitAt_bit)

end
