(* ===== verification/DecodeFields.thy ===== *)
theory DecodeFields
  imports BaseConvert
begin

unbundle bit_operations_syntax

text \<open>
  The live decode strip of \<open>web/lib/emulator/decode-fields.ts\<close>: a 32-bit machine
  word cut into the named fields of its encoding class.  One definition per
  class gives the field list the source passes to \<open>slice\<close>; \<open>layout\<close> is the
  chain of class tests in the source's order and \<open>decodeFields\<close> slices by it.
  The lemmas say that the fields always tile the word from bit 31 to bit 0 (so
  their bits, read in order, are the word), and that a field whose label is a
  bit pattern shows that pattern, except in the five places where the source
  does not test the bits it labels.
\<close>

type_synonym word32 = "32 word"

datatype FieldKind = Register | Immediate | Opcode

record DecodedField =
  f_label :: jstring
  f_bits :: nat
  f_value :: jstring
  f_meaning :: "jstring option"
  f_kind :: FieldKind

record DecodedWord =
  d_fields :: "DecodedField list"
  d_destIndex :: "nat option"

record FieldSpec =
  s_label :: jstring
  s_hi :: nat
  s_lo :: nat
  s_kind :: FieldKind
  s_meaning :: "word32 \<Rightarrow> jstring option"

text \<open>\<open>(word >>> lo) & ((1 << (hi - lo + 1)) - 1) >>> 0\<close>, on 32-bit integers: a shift
  count is taken modulo 32 and the \<open>&\<close> answers a signed number.\<close>

definition bits :: "word32 \<Rightarrow> nat \<Rightarrow> nat \<Rightarrow> int" where
  "bits w hi lo = sint (drop_bit lo w AND (push_bit ((hi - lo + 1) mod 32) 1 - 1))"

definition bitString :: "word32 \<Rightarrow> nat \<Rightarrow> nat \<Rightarrow> jstring" where
  "bitString w hi lo =
     concat (map (\<lambda>index. show_int (sint (drop_bit index w AND 1))) (rev [lo..<Suc hi]))"

definition xreg :: "int \<Rightarrow> int \<Rightarrow> jstring" where
  "xreg sf index =
     (if index = 31 then (if sf \<noteq> 0 then ''sp/xzr'' else ''wsp/wzr'')
      else (if sf \<noteq> 0 then ''x'' else ''w'') @ show_int index)"

definition slice :: "word32 \<Rightarrow> FieldSpec list \<Rightarrow> jstring option \<Rightarrow> DecodedWord" where
  "slice w specs destLabel =
     (let fs = map (\<lambda>spec.
                 \<lparr>f_label = s_label spec, f_bits = s_hi spec - s_lo spec + 1,
                  f_value = bitString w (s_hi spec) (s_lo spec),
                  f_meaning = s_meaning spec w, f_kind = s_kind spec\<rparr>) specs
      in \<lparr>d_fields = fs,
          d_destIndex = (case destLabel of None \<Rightarrow> None
                       | Some l \<Rightarrow> find_index (\<lambda>f. f_label f = l) fs)\<rparr>)"

definition COND_NAMES :: "jstring list" where
  "COND_NAMES =
     [''eq'', ''ne'', ''cs'', ''cc'', ''mi'', ''pl'', ''vs'', ''vc'',
      ''hi'', ''ls'', ''ge'', ''lt'', ''gt'', ''le'', ''al'', ''nv'']"

definition freg :: "int \<Rightarrow> int \<Rightarrow> jstring" where
  "freg ftype index = (if ftype = 1 then ''d'' else ''s'') @ show_int index"

definition EXCEPTION_NAMES :: "(jstring \<times> jstring) list" where
  "EXCEPTION_NAMES =
     [(''0,1'', ''svc''), (''0,2'', ''hvc''), (''0,3'', ''smc''), (''1,0'', ''brk''), (''2,0'', ''hlt'')]"

definition FP_MUL_ADD_NAMES :: "jstring list" where
  "FP_MUL_ADD_NAMES = [''fmadd'', ''fmsub'', ''fnmadd'', ''fnmsub'']"

definition FP_CVT_NAMES :: "(jstring \<times> jstring) list" where
  "FP_CVT_NAMES =
     [(''0,0'', ''fcvtns''), (''0,1'', ''fcvtnu''), (''0,2'', ''scvtf''), (''0,3'', ''ucvtf''),
      (''0,4'', ''fcvtas''), (''0,5'', ''fcvtau''),
      (''0,6'', ''fmov (fp to gp)''), (''0,7'', ''fmov (gp to fp)''),
      (''1,0'', ''fcvtps''), (''1,1'', ''fcvtpu''),
      (''2,0'', ''fcvtms''), (''2,1'', ''fcvtmu''),
      (''3,0'', ''fcvtzs''), (''3,1'', ''fcvtzu'')]"

definition DP1_NAMES :: "(jstring \<times> jstring) list" where
  "DP1_NAMES =
     [(''0,0'', ''rbit''), (''0,1'', ''rbit''),
      (''1,0'', ''rev16''), (''1,1'', ''rev16''),
      (''2,0'', ''rev''), (''2,1'', ''rev32''),
      (''3,1'', ''rev''),
      (''4,0'', ''clz''), (''4,1'', ''clz''),
      (''5,0'', ''cls''), (''5,1'', ''cls'')]"

text \<open>\<open>table[`${a},${b}`] ?? "reserved"\<close>.\<close>

definition lookup2 :: "(jstring \<times> jstring) list \<Rightarrow> int \<Rightarrow> int \<Rightarrow> jstring" where
  "lookup2 table a b =
     (case map_of table (show_int a @ '','' @ show_int b) of None \<Rightarrow> ''reserved'' | Some n \<Rightarrow> n)"

subsection \<open>Field specifications\<close>

definition spec :: "jstring \<Rightarrow> nat \<Rightarrow> nat \<Rightarrow> FieldKind \<Rightarrow> FieldSpec" where
  "spec l hi lo k = \<lparr>s_label = l, s_hi = hi, s_lo = lo, s_kind = k, s_meaning = (\<lambda>_. None)\<rparr>"

definition specm :: "jstring \<Rightarrow> nat \<Rightarrow> nat \<Rightarrow> FieldKind \<Rightarrow> (word32 \<Rightarrow> jstring) \<Rightarrow> FieldSpec" where
  "specm l hi lo k m = \<lparr>s_label = l, s_hi = hi, s_lo = lo, s_kind = k, s_meaning = (\<lambda>x. Some (m x))\<rparr>"

text \<open>An index into an array of names, \<open>undefined\<close> past its end.\<close>

definition specn :: "jstring \<Rightarrow> nat \<Rightarrow> nat \<Rightarrow> FieldKind \<Rightarrow> jstring list \<Rightarrow> (word32 \<Rightarrow> int) \<Rightarrow> FieldSpec" where
  "specn l hi lo k names m =
     \<lparr>s_label = l, s_hi = hi, s_lo = lo, s_kind = k, s_meaning = (\<lambda>x. nth_opt names (nat (m x)))\<rparr>"

text \<open>The register and flag fields that most classes end with.\<close>

definition xspec :: "jstring \<Rightarrow> nat \<Rightarrow> nat \<Rightarrow> int \<Rightarrow> FieldSpec" where
  "xspec l hi lo sf = specm l hi lo Register (\<lambda>x. xreg sf (bits x hi lo))"

definition fspec :: "jstring \<Rightarrow> nat \<Rightarrow> nat \<Rightarrow> int \<Rightarrow> FieldSpec" where
  "fspec l hi lo ftype = specm l hi lo Register (\<lambda>x. freg ftype (bits x hi lo))"

definition nspec :: "jstring \<Rightarrow> nat \<Rightarrow> nat \<Rightarrow> FieldSpec" where
  "nspec l hi lo = specm l hi lo Immediate (\<lambda>x. show_int (bits x hi lo))"

definition bspec :: "jstring \<Rightarrow> nat \<Rightarrow> jstring \<Rightarrow> jstring \<Rightarrow> FieldSpec" where
  "bspec l i one zero = specm l i i Opcode (\<lambda>x. if bits x i i \<noteq> 0 then one else zero)"

definition ftypespec :: "int \<Rightarrow> FieldSpec" where
  "ftypespec ftype = specm ''ftype'' 23 22 Opcode (\<lambda>_. if ftype = 1 then ''double'' else ''single'')"

definition nzcvspec :: FieldSpec where
  "nzcvspec = specm ''nzcv'' 3 0 Immediate (\<lambda>x. ''flags when the condition fails: '' @ bitString x 3 0)"

lemma nzcvspec_sel [simp]: "s_label nzcvspec = ''nzcv''" "s_hi nzcvspec = 3" "s_lo nzcvspec = 0"
  by (simp_all add: nzcvspec_def specm_def)

lemmas spec_defs =
  spec_def specm_def specn_def xspec_def fspec_def nspec_def bspec_def ftypespec_def

subsection \<open>The encoding classes\<close>

definition moveWide :: "word32 \<Rightarrow> FieldSpec list" where
  "moveWide w =
     (let sf = bits w 31 31 in
      [spec ''sf'' 31 31 Opcode, spec ''opc'' 30 29 Opcode, spec ''100101'' 28 23 Opcode,
       specm ''hw'' 22 21 Immediate (\<lambda>x. ''lsl '' @ show_int (bits x 22 21 * 16)),
       nspec ''imm16'' 20 5, xspec ''Rd'' 4 0 sf])"

definition addSubImm :: "word32 \<Rightarrow> FieldSpec list" where
  "addSubImm w =
     (let sf = bits w 31 31 in
      [spec ''sf'' 31 31 Opcode, bspec ''op'' 30 ''sub'' ''add'', spec ''S'' 29 29 Opcode,
       spec ''100010'' 28 23 Opcode, spec ''sh'' 22 22 Immediate, nspec ''imm12'' 21 10,
       xspec ''Rn'' 9 5 sf, xspec ''Rd'' 4 0 sf])"

definition addSubCarry :: "word32 \<Rightarrow> FieldSpec list" where
  "addSubCarry w =
     (let sf = bits w 31 31 in
      [spec ''sf'' 31 31 Opcode, bspec ''op'' 30 ''sbc'' ''adc'', spec ''S'' 29 29 Opcode,
       spec ''11010000'' 28 21 Opcode, xspec ''Rm'' 20 16 sf, spec ''000000'' 15 10 Opcode,
       xspec ''Rn'' 9 5 sf, xspec ''Rd'' 4 0 sf])"

definition condCompare :: "word32 \<Rightarrow> FieldSpec list" where
  "condCompare w =
     (let sf = bits w 31 31; isImm = (bits w 11 11 = 1) in
      [spec ''sf'' 31 31 Opcode, bspec ''op'' 30 ''ccmp'' ''ccmn'', spec ''S'' 29 29 Opcode,
       spec ''11010010'' 28 21 Opcode,
       specm ''Rm/imm5'' 20 16 (if isImm then Immediate else Register)
         (\<lambda>x. if isImm then show_int (bits x 20 16) else xreg sf (bits x 20 16)),
       specn ''cond'' 15 12 Opcode COND_NAMES (\<lambda>x. bits x 15 12),
       specm ''imm'' 11 11 Opcode (\<lambda>_. if isImm then ''immediate form'' else ''register form''),
       spec ''o2'' 10 10 Opcode, xspec ''Rn'' 9 5 sf, spec ''o3'' 4 4 Opcode, nzcvspec])"

definition addSubShifted :: "word32 \<Rightarrow> FieldSpec list" where
  "addSubShifted w =
     (let sf = bits w 31 31 in
      [spec ''sf'' 31 31 Opcode, bspec ''op'' 30 ''sub'' ''add'', spec ''S'' 29 29 Opcode,
       spec ''01011'' 28 24 Opcode, spec ''sh'' 23 22 Opcode, spec ''0'' 21 21 Opcode,
       xspec ''Rm'' 20 16 sf, spec ''imm6'' 15 10 Immediate,
       xspec ''Rn'' 9 5 sf, xspec ''Rd'' 4 0 sf])"

definition extendNames :: "jstring list" where
  "extendNames = [''uxtb'', ''uxth'', ''uxtw'', ''uxtx'', ''sxtb'', ''sxth'', ''sxtw'', ''sxtx'']"

definition spName :: "int \<Rightarrow> word32 \<Rightarrow> nat \<Rightarrow> nat \<Rightarrow> jstring" where
  "spName sf x hi lo =
     (let idx = bits x hi lo in
      if idx = 31 then (if sf \<noteq> 0 then ''sp'' else ''wsp'') else xreg sf idx)"

definition addSubExtended :: "word32 \<Rightarrow> FieldSpec list" where
  "addSubExtended w =
     (let sf = bits w 31 31; setsFlags = (bits w 29 29 = 1) in
      [spec ''sf'' 31 31 Opcode, bspec ''op'' 30 ''sub'' ''add'', spec ''S'' 29 29 Opcode,
       spec ''01011'' 28 24 Opcode, spec ''00'' 23 22 Opcode, spec ''1'' 21 21 Opcode,
       xspec ''Rm'' 20 16 sf, specn ''option'' 15 13 Opcode extendNames (\<lambda>x. bits x 15 13),
       spec ''imm3'' 12 10 Immediate,
       specm ''Rn'' 9 5 Register (\<lambda>x. spName sf x 9 5),
       specm ''Rd'' 4 0 Register
         (\<lambda>x. if setsFlags then xreg sf (bits x 4 0) else spName sf x 4 0)])"

definition logicalShifted :: "word32 \<Rightarrow> FieldSpec list" where
  "logicalShifted w =
     (let sf = bits w 31 31 in
      [spec ''sf'' 31 31 Opcode, spec ''opc'' 30 29 Opcode, spec ''01010'' 28 24 Opcode,
       spec ''sh'' 23 22 Opcode, spec ''N'' 21 21 Opcode, xspec ''Rm'' 20 16 sf,
       spec ''imm6'' 15 10 Immediate, xspec ''Rn'' 9 5 sf, xspec ''Rd'' 4 0 sf])"

definition logicalImm :: "word32 \<Rightarrow> FieldSpec list" where
  "logicalImm w =
     (let sf = bits w 31 31 in
      [spec ''sf'' 31 31 Opcode, spec ''opc'' 30 29 Opcode, spec ''100100'' 28 23 Opcode,
       spec ''N'' 22 22 Opcode, spec ''immr'' 21 16 Immediate, spec ''imms'' 15 10 Immediate,
       xspec ''Rn'' 9 5 sf, xspec ''Rd'' 4 0 sf])"

definition extractReg :: "word32 \<Rightarrow> FieldSpec list" where
  "extractReg w =
     (let sf = bits w 31 31 in
      [spec ''sf'' 31 31 Opcode, spec ''00'' 30 29 Opcode, spec ''100111'' 28 23 Opcode,
       spec ''N'' 22 22 Opcode, spec ''0'' 21 21 Opcode, xspec ''Rm'' 20 16 sf,
       specm ''imms'' 15 10 Immediate (\<lambda>x. ''from bit '' @ show_int (bits x 15 10)),
       xspec ''Rn'' 9 5 sf, xspec ''Rd'' 4 0 sf])"

definition dataProc3 :: "word32 \<Rightarrow> FieldSpec list" where
  "dataProc3 w =
     (let sf = bits w 31 31 in
      [spec ''sf'' 31 31 Opcode, spec ''00'' 30 29 Opcode, spec ''11011'' 28 24 Opcode,
       spec ''op31'' 23 21 Opcode, xspec ''Rm'' 20 16 sf, bspec ''o0'' 15 ''msub'' ''madd'',
       xspec ''Ra'' 14 10 sf, xspec ''Rn'' 9 5 sf, xspec ''Rd'' 4 0 sf])"

definition dataProc2 :: "word32 \<Rightarrow> FieldSpec list" where
  "dataProc2 w =
     (let sf = bits w 31 31 in
      [spec ''sf'' 31 31 Opcode, spec ''0S'' 30 29 Opcode, spec ''11010110'' 28 21 Opcode,
       xspec ''Rm'' 20 16 sf, spec ''opcode'' 15 10 Opcode,
       xspec ''Rn'' 9 5 sf, xspec ''Rd'' 4 0 sf])"

definition dataProc1 :: "word32 \<Rightarrow> FieldSpec list" where
  "dataProc1 w =
     (let sf = bits w 31 31 in
      [spec ''sf'' 31 31 Opcode, spec ''1'' 30 30 Opcode, spec ''S'' 29 29 Opcode,
       spec ''11010110'' 28 21 Opcode, spec ''00000'' 20 16 Opcode,
       specm ''opcode'' 15 10 Opcode (\<lambda>x. lookup2 DP1_NAMES (bits x 15 10) sf),
       xspec ''Rn'' 9 5 sf, xspec ''Rd'' 4 0 sf])"

definition fpDataProc3 :: "word32 \<Rightarrow> FieldSpec list" where
  "fpDataProc3 w =
     (let ftype = bits w 23 22 in
      [spec ''000'' 31 29 Opcode, spec ''11111'' 28 24 Opcode, ftypespec ftype,
       spec ''o1'' 21 21 Opcode, fspec ''Rm'' 20 16 ftype,
       specn ''o0'' 15 15 Opcode FP_MUL_ADD_NAMES
         (\<lambda>x. push_bit 1 (bits x 21 21) OR bits x 15 15),
       fspec ''Ra'' 14 10 ftype, fspec ''Rn'' 9 5 ftype, fspec ''Rd'' 4 0 ftype])"

definition fpCompare :: "word32 \<Rightarrow> FieldSpec list" where
  "fpCompare w =
     (let ftype = bits w 23 22; zero = (bits w 3 3 = 1) in
      [spec ''000'' 31 29 Opcode, spec ''11110'' 28 24 Opcode, ftypespec ftype,
       spec ''1'' 21 21 Opcode,
       specm ''Rm'' 20 16 (if zero then Opcode else Register)
         (\<lambda>x. if zero then ''unused'' else freg ftype (bits x 20 16)),
       spec ''001000'' 15 10 Opcode, fspec ''Rn'' 9 5 ftype,
       specm ''opc'' 4 0 Opcode
         (\<lambda>x. (if bits x 4 4 \<noteq> 0 then ''fcmpe'' else ''fcmp'') @ (if zero then '' with #0.0'' else ''''))])"

definition fpCondCompare :: "word32 \<Rightarrow> FieldSpec list" where
  "fpCondCompare w =
     (let ftype = bits w 23 22 in
      [spec ''000'' 31 29 Opcode, spec ''11110'' 28 24 Opcode, ftypespec ftype,
       spec ''1'' 21 21 Opcode, fspec ''Rm'' 20 16 ftype,
       specn ''cond'' 15 12 Opcode COND_NAMES (\<lambda>x. bits x 15 12),
       spec ''01'' 11 10 Opcode, fspec ''Rn'' 9 5 ftype,
       bspec ''op'' 4 ''fccmpe'' ''fccmp'', nzcvspec])"

definition fpCondSelect :: "word32 \<Rightarrow> FieldSpec list" where
  "fpCondSelect w =
     (let ftype = bits w 23 22 in
      [spec ''000'' 31 29 Opcode, spec ''11110'' 28 24 Opcode, ftypespec ftype,
       spec ''1'' 21 21 Opcode, fspec ''Rm'' 20 16 ftype,
       specn ''cond'' 15 12 Opcode COND_NAMES (\<lambda>x. bits x 15 12),
       spec ''11'' 11 10 Opcode, fspec ''Rn'' 9 5 ftype, fspec ''Rd'' 4 0 ftype])"

definition fpConvert :: "word32 \<Rightarrow> FieldSpec list" where
  "fpConvert w =
     (let sf = bits w 31 31; ftype = bits w 23 22; fixed = (bits w 21 21 = 0);
          rmode = bits w 20 19; opcode = bits w 18 16;
          toFp = (opcode = 2 \<or> opcode = 3);
          tail = (if fixed
                  then specm ''scale'' 15 10 Immediate
                         (\<lambda>x. ''#'' @ show_int (64 - bits x 15 10) @ '' fraction bits'')
                  else spec ''000000'' 15 10 Opcode) in
      [spec ''sf'' 31 31 Opcode, spec ''00'' 30 29 Opcode, spec ''11110'' 28 24 Opcode,
       ftypespec ftype,
       specm (if fixed then ''0'' else ''1'') 21 21 Opcode
         (\<lambda>_. if fixed then ''fixed-point form'' else ''integer form''),
       spec ''rmode'' 20 19 Opcode,
       specm ''opcode'' 18 16 Opcode (\<lambda>_. lookup2 FP_CVT_NAMES rmode opcode),
       tail,
       specm ''Rn'' 9 5 Register
         (\<lambda>x. if toFp then xreg sf (bits x 9 5) else freg ftype (bits x 9 5)),
       specm ''Rd'' 4 0 Register
         (\<lambda>x. if toFp then freg ftype (bits x 4 0) else xreg sf (bits x 4 0))])"

text \<open>\<open>fp ? `${"sdq"[opc] ?? "?"}${index}` : xreg(opc === 0 ? 0 : 1, index)\<close>.\<close>

definition pairReg :: "bool \<Rightarrow> int \<Rightarrow> int \<Rightarrow> jstring" where
  "pairReg fp opc index =
     (if fp then (case nth_opt ''sdq'' (nat opc) of None \<Rightarrow> ''?'' | Some c \<Rightarrow> [c]) @ show_int index
      else xreg (if opc = 0 then 0 else 1) index)"

definition loadStorePair :: "word32 \<Rightarrow> FieldSpec list" where
  "loadStorePair w =
     (let load = (bits w 22 22 = 1); opc = bits w 31 30; fp = (bits w 26 26 = 1);
          loadName = (if \<not> fp \<and> opc = 1 then ''ldpsw'' else ''ldp'') in
      [spec ''opc'' 31 30 Opcode, spec ''101'' 29 27 Opcode, spec ''V'' 26 26 Opcode,
       spec ''0'' 25 25 Opcode, spec ''mode'' 24 23 Opcode,
       specm ''L'' 22 22 Opcode (\<lambda>_. if load then loadName else ''stp''),
       spec ''imm7'' 21 15 Immediate,
       specm ''Rt2'' 14 10 Register (\<lambda>x. pairReg fp opc (bits x 14 10)),
       xspec ''Rn'' 9 5 1,
       specm ''Rt'' 4 0 Register (\<lambda>x. pairReg fp opc (bits x 4 0))])"

definition regSf :: "word32 \<Rightarrow> int" where
  "regSf w = (if bits w 31 30 = 3 then 1 else 0)"

definition ldrStr :: FieldSpec where
  "ldrStr = specm ''opc'' 23 22 Opcode (\<lambda>x. if bits x 23 22 \<noteq> 0 then ''ldr'' else ''str'')"

definition loadStoreUnsigned :: "word32 \<Rightarrow> FieldSpec list" where
  "loadStoreUnsigned w =
     [spec ''size'' 31 30 Opcode, spec ''111'' 29 27 Opcode, spec ''V'' 26 26 Opcode,
      spec ''01'' 25 24 Opcode, ldrStr, nspec ''imm12'' 21 10,
      xspec ''Rn'' 9 5 1, xspec ''Rt'' 4 0 (regSf w)]"

definition optionNames :: "(int \<times> jstring) list" where
  "optionNames = [(2, ''uxtw''), (3, ''lsl''), (6, ''sxtw''), (7, ''sxtx'')]"

definition loadStoreRegister :: "word32 \<Rightarrow> FieldSpec list" where
  "loadStoreRegister w =
     [spec ''size'' 31 30 Opcode, spec ''111'' 29 27 Opcode, spec ''V'' 26 26 Opcode,
      spec ''00'' 25 24 Opcode, ldrStr, spec ''1'' 21 21 Opcode,
      specm ''Rm'' 20 16 Register
        (\<lambda>x. xreg (if bits x 15 13 = 2 \<or> bits x 15 13 = 6 then 0 else 1) (bits x 20 16)),
      specm ''option'' 15 13 Opcode
        (\<lambda>x. case map_of optionNames (bits x 15 13) of None \<Rightarrow> ''reserved'' | Some n \<Rightarrow> n),
      specm ''S'' 12 12 Opcode
        (\<lambda>x. if bits x 12 12 \<noteq> 0 then ''scaled by the access size'' else ''unscaled''),
      spec ''10'' 11 10 Opcode, xspec ''Rn'' 9 5 1, xspec ''Rt'' 4 0 (regSf w)]"

definition loadStoreImm9 :: "word32 \<Rightarrow> FieldSpec list" where
  "loadStoreImm9 w =
     [spec ''size'' 31 30 Opcode, spec ''111'' 29 27 Opcode, spec ''V'' 26 26 Opcode,
      spec ''00'' 25 24 Opcode, ldrStr, spec ''0'' 21 21 Opcode, spec ''imm9'' 20 12 Immediate,
      spec ''idx'' 11 10 Opcode, xspec ''Rn'' 9 5 1, xspec ''Rt'' 4 0 (regSf w)]"

definition loadLiteral :: "FieldSpec list" where
  "loadLiteral =
     [spec ''opc'' 31 30 Opcode, spec ''011'' 29 27 Opcode, spec ''V'' 26 26 Opcode,
      spec ''00'' 25 24 Opcode, spec ''imm19'' 23 5 Immediate, xspec ''Rt'' 4 0 1]"

definition branchImm :: "FieldSpec list" where
  "branchImm =
     [bspec ''op'' 31 ''bl'' ''b'', spec ''00101'' 30 26 Opcode, spec ''imm26'' 25 0 Immediate]"

definition branchCond :: "FieldSpec list" where
  "branchCond =
     [spec ''0101010'' 31 25 Opcode, spec ''0'' 24 24 Opcode, spec ''imm19'' 23 5 Immediate,
      spec ''0'' 4 4 Opcode, specn ''cond'' 3 0 Opcode COND_NAMES (\<lambda>x. bits x 3 0)]"

definition compareBranch :: "word32 \<Rightarrow> FieldSpec list" where
  "compareBranch w =
     (let sf = bits w 31 31 in
      [spec ''sf'' 31 31 Opcode, spec ''011010'' 30 25 Opcode, bspec ''op'' 24 ''cbnz'' ''cbz'',
       spec ''imm19'' 23 5 Immediate, xspec ''Rt'' 4 0 sf])"

definition branchReg :: "FieldSpec list" where
  "branchReg =
     [spec ''1101011'' 31 25 Opcode, spec ''opc'' 24 21 Opcode, spec ''11111'' 20 16 Opcode,
      spec ''op3'' 15 10 Opcode, xspec ''Rn'' 9 5 1, spec ''00000'' 4 0 Opcode]"

definition exceptionGen :: "FieldSpec list" where
  "exceptionGen =
     [spec ''11010100'' 31 24 Opcode,
      specm ''opc'' 23 21 Opcode (\<lambda>x. lookup2 EXCEPTION_NAMES (bits x 23 21) (bits x 1 0)),
      nspec ''imm16'' 20 5, spec ''op2'' 4 2 Opcode, spec ''LL'' 1 0 Opcode]"

definition pcRel :: "FieldSpec list" where
  "pcRel =
     [bspec ''op'' 31 ''adrp'' ''adr'', spec ''immlo'' 30 29 Immediate, spec ''10000'' 28 24 Opcode,
      spec ''immhi'' 23 5 Immediate, xspec ''Rd'' 4 0 1]"

definition wholeWord :: "FieldSpec list" where
  "wholeWord = [spec ''word'' 31 0 Opcode]"

subsection \<open>The chain of class tests\<close>

definition fpClass :: "word32 \<Rightarrow> bool" where
  "fpClass w \<longleftrightarrow> bits w 31 29 = 0 \<and> bits w 28 24 = 0b11110 \<and> bits w 21 21 = 1"

definition loadStoreLayout :: "word32 \<Rightarrow> FieldSpec list \<times> jstring option" where
  "loadStoreLayout w =
     (let unsignedImm = (bits w 25 24 = 1);
          dest = (if bits w 23 22 \<noteq> 0 then Some ''Rt'' else None) in
      if unsignedImm then (loadStoreUnsigned w, dest)
      else if bits w 21 21 = 1 \<and> bits w 11 10 = 2 then (loadStoreRegister w, dest)
      else (loadStoreImm9 w, dest))"

definition layout :: "word32 \<Rightarrow> FieldSpec list \<times> jstring option" where
  "layout w =
     (if bits w 28 23 = 0b100101 then (moveWide w, Some ''Rd'')
      else if bits w 28 23 = 0b100010 then (addSubImm w, Some ''Rd'')
      else if bits w 28 21 = 0b11010000 \<and> bits w 15 10 = 0 then (addSubCarry w, Some ''Rd'')
      else if bits w 28 21 = 0b11010010 then (condCompare w, None)
      else if bits w 28 24 = 0b01011 \<and> bits w 21 21 = 0 then (addSubShifted w, Some ''Rd'')
      else if bits w 28 24 = 0b01011 \<and> bits w 23 22 = 0 \<and> bits w 21 21 = 1
        then (addSubExtended w, Some ''Rd'')
      else if bits w 28 24 = 0b01010 then (logicalShifted w, Some ''Rd'')
      else if bits w 28 23 = 0b100100 then (logicalImm w, Some ''Rd'')
      else if bits w 30 29 = 0 \<and> bits w 28 23 = 0b100111 \<and> bits w 21 21 = 0
        then (extractReg w, Some ''Rd'')
      else if bits w 28 24 = 0b11011 \<and> bits w 30 29 = 0 then (dataProc3 w, Some ''Rd'')
      else if bits w 28 21 = 0b11010110 \<and> bits w 30 30 = 0 then (dataProc2 w, Some ''Rd'')
      else if bits w 28 21 = 0b11010110 \<and> bits w 30 30 = 1 then (dataProc1 w, Some ''Rd'')
      else if bits w 31 29 = 0 \<and> bits w 28 24 = 0b11111 then (fpDataProc3 w, Some ''Rd'')
      else if fpClass w \<and> bits w 15 10 = 0b001000 then (fpCompare w, None)
      else if fpClass w \<and> bits w 11 10 = 0b01 then (fpCondCompare w, None)
      else if fpClass w \<and> bits w 11 10 = 0b11 then (fpCondSelect w, Some ''Rd'')
      else if bits w 30 29 = 0 \<and> bits w 28 24 = 0b11110 \<and> (bits w 21 21 = 0 \<or> bits w 15 10 = 0)
        then (fpConvert w, Some ''Rd'')
      else if bits w 29 27 = 0b101 \<and> bits w 25 25 = 0
        then (loadStorePair w, if bits w 22 22 = 1 then Some ''Rt'' else None)
      else if bits w 29 27 = 0b111 \<and> bits w 25 24 \<noteq> 0b10 then loadStoreLayout w
      else if bits w 29 27 = 0b011 \<and> bits w 25 24 = 0 then (loadLiteral, Some ''Rt'')
      else if bits w 30 26 = 0b00101 then (branchImm, None)
      else if bits w 31 25 = 0b0101010 \<and> bits w 4 4 = 0 then (branchCond, None)
      else if bits w 30 25 = 0b011010 then (compareBranch w, None)
      else if bits w 31 25 = 0b1101011 then (branchReg, None)
      else if bits w 31 24 = 0b11010100 then (exceptionGen, None)
      else if bits w 28 24 = 0b10000 then (pcRel, Some ''Rd'')
      else (wholeWord, None))"

definition decodeFields :: "int \<Rightarrow> DecodedWord" where
  "decodeFields word =
     (let w = word_of_int word in slice w (fst (layout w)) (snd (layout w)))"

subsection \<open>Bit fields\<close>

lemma bits_take:
  assumes "hi - lo + 1 < 32"
  shows "bits w hi lo = uint (take_bit (hi - lo + 1) (drop_bit lo w))"
proof -
  let ?n = "hi - lo + 1"
  have "push_bit ?n 1 - 1 = (mask ?n :: word32)"
    by (simp add: mask_eq_exp_minus_1 push_bit_eq_mult)
  then have eq: "bits w hi lo = sint (take_bit ?n (drop_bit lo w))"
    using assms by (simp add: bits_def take_bit_eq_mask)
  let ?x = "take_bit ?n (drop_bit lo w)"
  have "\<not> bit (uint ?x) 31" using assms by (simp add: bit_uint_iff bit_take_bit_iff)
  then have "sint ?x = take_bit 31 (uint ?x)"
    by (subst sint_uint) (simp add: signed_take_bit_eq_if_positive)
  also have "\<dots> = uint ?x"
  proof -
    have "min 31 ?n = ?n" using assms by simp
    then show ?thesis by (simp only: unsigned_take_bit_eq take_bit_take_bit)
  qed
  finally show ?thesis using eq by simp
qed

lemma bits_nonneg: "hi - lo + 1 < 32 \<Longrightarrow> 0 \<le> bits w hi lo"
  by (simp add: bits_take)

lemma bits_less: "hi - lo + 1 < 32 \<Longrightarrow> bits w hi lo < 2 ^ (hi - lo + 1)"
  using take_bit_int_less_exp [of "hi - lo + 1" "uint (drop_bit lo w)"]
  by (simp add: bits_take unsigned_take_bit_eq)

lemma bit_bits:
  assumes "hi - lo + 1 < 32" "lo \<le> hi" "hi < 32"
  shows "bit (nat (bits w hi lo)) i \<longleftrightarrow> i \<le> hi - lo \<and> bit w (lo + i)"
  using assms
  by (auto simp: bits_take bit_unsigned_iff bit_take_bit_iff bit_drop_bit_eq)

lemma bit_digit: "show_int (sint (drop_bit i (w :: word32) AND 1)) = [bit_char (bit w i)]"
proof -
  have "drop_bit i w AND 1 = of_bool (bit w i)"
    by (simp add: and_one_eq bit_iff_odd_drop_bit mod_2_eq_odd)
  then show ?thesis
    by (cases "bit w i")
      (simp_all add: show_int_def to_string_def nat_to_string.simps digit_char_01 bit_char_def)
qed

lemma bitString_chars: "bitString w hi lo = map (\<lambda>i. bit_char (bit w i)) (rev [lo..<Suc hi])"
proof -
  have "concat (map (\<lambda>i. [bit_char (bit w i)]) xs) = map (\<lambda>i. bit_char (bit w i)) xs" for xs
    by (induction xs) auto
  then show ?thesis by (simp only: bitString_def bit_digit)
qed

lemma length_bitString: "lo \<le> hi \<Longrightarrow> length (bitString w hi lo) = hi - lo + 1"
  by (simp add: bitString_chars del: upt_Suc)

lemma bitString_split:
  assumes "lo \<le> mid" "mid \<le> hi"
  shows "bitString w hi (Suc mid) @ bitString w mid lo = bitString w hi lo"
proof -
  have "[lo..<Suc hi] = [lo..<Suc mid] @ [Suc mid..<Suc hi]"
    using assms upt_add_eq_append [of lo "Suc mid" "hi - mid"] by (simp del: upt_Suc)
  then show ?thesis by (simp only: bitString_chars rev_append map_append)
qed

text \<open>The bits a field shows are the binary text of the number the class tests read.\<close>

lemma bitString_bits:
  assumes "hi - lo + 1 < 32" "lo \<le> hi" "hi < 32"
  shows "bitString w hi lo = padStart (hi - lo + 1) (CHR ''0'') (nat_to_string 2 (nat (bits w hi lo)))"
proof -
  let ?k = "hi - lo + 1" and ?n = "nat (bits w hi lo)"
  have "?n < 2 ^ ?k"
    using bits_less [OF assms(1), of w] bits_nonneg [OF assms(1), of w]
    by (simp add: nat_less_iff)
  then have "padStart ?k (CHR ''0'') (nat_to_string 2 ?n) = map (\<lambda>i. bit_char (bit ?n i)) (rev [0..<?k])"
    by (intro pad_binary_bits) simp_all
  also have "\<dots> = map (\<lambda>i. bit_char (bit w (i + lo))) (rev [0..<?k])"
    using assms by (auto simp: bit_bits add.commute)
  also have "\<dots> = map (\<lambda>i. bit_char (bit w i)) (map (\<lambda>i. i + lo) (rev [0..<?k]))"
    by simp
  also have "map (\<lambda>i. i + lo) (rev [0..<?k]) = rev [lo..<Suc hi]"
    using assms(2) by (simp only: rev_map [symmetric] map_add_upt) simp
  finally show ?thesis by (simp only: bitString_chars)
qed

subsection \<open>The fields tile the word\<close>

text \<open>\<open>tiles n specs\<close>: the fields run from bit \<open>n - 1\<close> down to bit 0 with no gap and
  no overlap.\<close>

fun tiles :: "nat \<Rightarrow> FieldSpec list \<Rightarrow> bool" where
  "tiles n [] = (n = 0)"
| "tiles n (s # ss) = (Suc (s_hi s) = n \<and> s_lo s \<le> s_hi s \<and> tiles (s_lo s) ss)"

named_theorems class_defs \<open>the field lists of the encoding classes\<close>

lemmas [class_defs] =
  moveWide_def addSubImm_def addSubCarry_def condCompare_def addSubShifted_def addSubExtended_def
  logicalShifted_def logicalImm_def extractReg_def dataProc3_def dataProc2_def dataProc1_def
  fpDataProc3_def fpCompare_def fpCondCompare_def fpCondSelect_def fpConvert_def loadStorePair_def
  loadStoreUnsigned_def loadStoreRegister_def loadStoreImm9_def loadLiteral_def branchImm_def
  branchCond_def compareBranch_def branchReg_def exceptionGen_def pcRel_def wholeWord_def ldrStr_def

lemma tiles_classes:
  "tiles 32 (moveWide w)" "tiles 32 (addSubImm w)" "tiles 32 (addSubCarry w)"
  "tiles 32 (condCompare w)" "tiles 32 (addSubShifted w)" "tiles 32 (addSubExtended w)"
  "tiles 32 (logicalShifted w)" "tiles 32 (logicalImm w)" "tiles 32 (extractReg w)"
  "tiles 32 (dataProc3 w)" "tiles 32 (dataProc2 w)" "tiles 32 (dataProc1 w)"
  "tiles 32 (fpDataProc3 w)" "tiles 32 (fpCompare w)" "tiles 32 (fpCondCompare w)"
  "tiles 32 (fpCondSelect w)" "tiles 32 (fpConvert w)" "tiles 32 (loadStorePair w)"
  "tiles 32 (loadStoreUnsigned w)" "tiles 32 (loadStoreRegister w)" "tiles 32 (loadStoreImm9 w)"
  "tiles 32 loadLiteral" "tiles 32 branchImm" "tiles 32 branchCond" "tiles 32 (compareBranch w)"
  "tiles 32 branchReg" "tiles 32 exceptionGen" "tiles 32 pcRel" "tiles 32 wholeWord"
  by (simp_all add: class_defs spec_defs Let_def)

lemma tiles_layout: "tiles 32 (fst (layout w))"
  by (simp add: layout_def loadStoreLayout_def Let_def tiles_classes)

lemma tiles_values:
  "tiles n specs \<Longrightarrow> n \<le> 32 \<Longrightarrow>
   concat (map (\<lambda>s. bitString w (s_hi s) (s_lo s)) specs) = (if n = 0 then [] else bitString w (n - 1) 0)"
proof (induction n specs rule: tiles.induct)
  case (2 n s ss)
  show ?case
  proof (cases "s_lo s")
    case 0
    then show ?thesis using 2 by auto
  next
    case (Suc m)
    then show ?thesis
      using 2 bitString_split [of 0 m "s_hi s" w] by auto
  qed
qed simp

lemma tiles_widths: "tiles n specs \<Longrightarrow> sum_list (map (\<lambda>s. s_hi s - s_lo s + 1) specs) = n"
  by (induction n specs rule: tiles.induct) auto

lemma tiles_lo_le_hi: "tiles n specs \<Longrightarrow> s \<in> set specs \<Longrightarrow> s_lo s \<le> s_hi s \<and> s_hi s < n"
  by (induction n specs rule: tiles.induct) (auto dest: order.strict_trans2)

lemma fields_slice:
  "d_fields (slice w specs dest) =
     map (\<lambda>s. \<lparr>f_label = s_label s, f_bits = s_hi s - s_lo s + 1,
               f_value = bitString w (s_hi s) (s_lo s), f_meaning = s_meaning s w,
               f_kind = s_kind s\<rparr>) specs"
  by (simp add: slice_def Let_def)

lemma concat_values_slice:
  "concat (map f_value (d_fields (slice w specs dest))) =
   concat (map (\<lambda>s. bitString w (s_hi s) (s_lo s)) specs)"
  by (simp add: fields_slice comp_def)

subsection \<open>Fixed patterns\<close>

text \<open>A label made of the digits 0 and 1 claims the bits it stands for.\<close>

definition literal_label :: "jstring \<Rightarrow> bool" where
  "literal_label l \<longleftrightarrow> l \<noteq> [] \<and> list_all (\<lambda>c. c = CHR ''0'' \<or> c = CHR ''1'') l"

definition labels_true :: "word32 \<Rightarrow> FieldSpec list \<Rightarrow> bool" where
  "labels_true w specs \<longleftrightarrow>
     list_all (\<lambda>s. literal_label (s_label s) \<longrightarrow> bitString w (s_hi s) (s_lo s) = s_label s) specs"

text \<open>The words that reach a class without the test that its fixed labels need: the
  second operand of the 1-source group, bits 25:24 and bit 21 of the load and
  store group, bit 24 of a conditional branch, and the fixed registers of a
  branch to register.\<close>

definition untested_label :: "word32 \<Rightarrow> bool" where
  "untested_label w \<longleftrightarrow>
     bits w 28 21 = 0b11010110 \<and> bits w 30 30 = 1 \<and> bits w 20 16 \<noteq> 0
   \<or> bits w 29 27 = 0b111 \<and> bits w 25 24 = 0b11
   \<or> bits w 29 27 = 0b111 \<and> bits w 25 24 = 0 \<and> bits w 21 21 = 1 \<and> bits w 11 10 \<noteq> 2
   \<or> bits w 31 25 = 0b0101010 \<and> bits w 24 24 \<noteq> 0
   \<or> bits w 31 25 = 0b1101011 \<and> (bits w 20 16 \<noteq> 31 \<or> bits w 4 0 \<noteq> 0)"

lemma bitString_binary:
  assumes "bits w hi lo = v" and "hi - lo + 1 < 32" "lo \<le> hi" "hi < 32"
  shows "bitString w hi lo = padStart (hi - lo + 1) (CHR ''0'') (nat_to_string 2 (nat v))"
  using bitString_bits [OF assms(2-4), of w] assms(1) by simp

lemmas binary_eval = nat_to_string.simps padStart_def digit_char_01 replicate_small

lemmas label_eval = labels_true_def literal_label_def bitString_bits binary_eval

lemma labels_data_processing:
  "bits w 28 23 = 0b100101 \<Longrightarrow> labels_true w (moveWide w)"
  "bits w 28 23 = 0b100010 \<Longrightarrow> labels_true w (addSubImm w)"
  "bits w 28 21 = 0b11010000 \<Longrightarrow> bits w 15 10 = 0 \<Longrightarrow> labels_true w (addSubCarry w)"
  "bits w 28 21 = 0b11010010 \<Longrightarrow> labels_true w (condCompare w)"
  "bits w 28 24 = 0b01011 \<Longrightarrow> bits w 21 21 = 0 \<Longrightarrow> labels_true w (addSubShifted w)"
  "bits w 28 24 = 0b01011 \<Longrightarrow> bits w 23 22 = 0 \<Longrightarrow> bits w 21 21 = 1 \<Longrightarrow>
     labels_true w (addSubExtended w)"
  "bits w 28 24 = 0b01010 \<Longrightarrow> labels_true w (logicalShifted w)"
  "bits w 28 23 = 0b100100 \<Longrightarrow> labels_true w (logicalImm w)"
  "bits w 30 29 = 0 \<Longrightarrow> bits w 28 23 = 0b100111 \<Longrightarrow> bits w 21 21 = 0 \<Longrightarrow>
     labels_true w (extractReg w)"
  "bits w 28 24 = 0b11011 \<Longrightarrow> bits w 30 29 = 0 \<Longrightarrow> labels_true w (dataProc3 w)"
  "bits w 28 21 = 0b11010110 \<Longrightarrow> labels_true w (dataProc2 w)"
  "bits w 28 21 = 0b11010110 \<Longrightarrow> bits w 30 30 = 1 \<Longrightarrow> bits w 20 16 = 0 \<Longrightarrow>
     labels_true w (dataProc1 w)"
  by (simp_all add: class_defs spec_defs Let_def label_eval)

lemma labels_floating_point:
  "bits w 31 29 = 0 \<Longrightarrow> bits w 28 24 = 0b11111 \<Longrightarrow> labels_true w (fpDataProc3 w)"
  "fpClass w \<Longrightarrow> bits w 15 10 = 0b001000 \<Longrightarrow> labels_true w (fpCompare w)"
  "fpClass w \<Longrightarrow> bits w 11 10 = 0b01 \<Longrightarrow> labels_true w (fpCondCompare w)"
  "fpClass w \<Longrightarrow> bits w 11 10 = 0b11 \<Longrightarrow> labels_true w (fpCondSelect w)"
  by (simp_all add: class_defs spec_defs fpClass_def Let_def label_eval)

lemma bit_cases: "bits w i i = 0 \<or> bits w i i = 1"
  using bits_less [of i i w] bits_nonneg [of i i w] by auto

lemma labels_fpConvert:
  assumes "bits w 30 29 = 0" "bits w 28 24 = 0b11110" "bits w 21 21 = 0 \<or> bits w 15 10 = 0"
  shows "labels_true w (fpConvert w)"
proof (cases "bits w 21 21 = 0")
  case True
  then show ?thesis using assms(1,2) by (simp add: class_defs spec_defs Let_def label_eval)
next
  case False
  then have "bits w 21 21 = 1" "bits w 15 10 = 0" using assms(3) bit_cases [of w 21] by auto
  then show ?thesis using assms(1,2) by (simp add: class_defs spec_defs Let_def label_eval)
qed

lemma labels_loads_branches:
  "bits w 29 27 = 0b101 \<Longrightarrow> bits w 25 25 = 0 \<Longrightarrow> labels_true w (loadStorePair w)"
  "bits w 29 27 = 0b111 \<Longrightarrow> bits w 25 24 = 1 \<Longrightarrow> labels_true w (loadStoreUnsigned w)"
  "bits w 29 27 = 0b111 \<Longrightarrow> bits w 25 24 = 0 \<Longrightarrow> bits w 21 21 = 1 \<Longrightarrow> bits w 11 10 = 2 \<Longrightarrow>
     labels_true w (loadStoreRegister w)"
  "bits w 29 27 = 0b111 \<Longrightarrow> bits w 25 24 = 0 \<Longrightarrow> bits w 21 21 = 0 \<Longrightarrow>
     labels_true w (loadStoreImm9 w)"
  "bits w 29 27 = 0b011 \<Longrightarrow> bits w 25 24 = 0 \<Longrightarrow> labels_true w loadLiteral"
  "bits w 30 26 = 0b00101 \<Longrightarrow> labels_true w branchImm"
  "bits w 31 25 = 0b0101010 \<Longrightarrow> bits w 4 4 = 0 \<Longrightarrow> bits w 24 24 = 0 \<Longrightarrow> labels_true w branchCond"
  "bits w 30 25 = 0b011010 \<Longrightarrow> labels_true w (compareBranch w)"
  "bits w 31 25 = 0b1101011 \<Longrightarrow> bits w 20 16 = 31 \<Longrightarrow> bits w 4 0 = 0 \<Longrightarrow> labels_true w branchReg"
  "bits w 31 24 = 0b11010100 \<Longrightarrow> labels_true w exceptionGen"
  "bits w 28 24 = 0b10000 \<Longrightarrow> labels_true w pcRel"
  "labels_true w wholeWord"
  by (simp_all add: class_defs spec_defs Let_def label_eval)

lemma two_bit_cases:
  "bits w (Suc i) i = 0 \<or> bits w (Suc i) i = 1 \<or> bits w (Suc i) i = 2 \<or> bits w (Suc i) i = 3"
proof -
  have "bits w (Suc i) i < 4" using bits_less [of "Suc i" i w] by simp
  then show ?thesis using bits_nonneg [of "Suc i" i w] by auto
qed

lemma labels_loadStore:
  assumes "bits w 29 27 = 0b111" "bits w 25 24 \<noteq> 0b10" "\<not> untested_label w"
  shows "labels_true w (fst (loadStoreLayout w))"
proof -
  have "bits w 25 24 = 0 \<or> bits w 25 24 = 1"
    using assms two_bit_cases [of w 24] by (auto simp: untested_label_def)
  then show ?thesis
    using assms bit_cases [of w 21]
    by (auto simp: loadStoreLayout_def Let_def untested_label_def labels_loads_branches)
qed

lemma labels_layout:
  assumes "\<not> untested_label w"
  shows "labels_true w (fst (layout w))"
  using assms unfolding layout_def
  by (simp add: labels_data_processing labels_floating_point labels_fpConvert
      labels_loads_branches labels_loadStore untested_label_def)

subsection \<open>The destination mark\<close>

text \<open>A destination label that the class names is the label of a register field, the
  one in bits 4 to 0.\<close>

definition dest_ok :: "FieldSpec list \<times> jstring option \<Rightarrow> bool" where
  "dest_ok lay =
     (case snd lay of None \<Rightarrow> True
      | Some l \<Rightarrow> (l = ''Rd'' \<or> l = ''Rt'') \<and>
          list_all (\<lambda>s. s_label s = l \<longrightarrow> s_kind s = Register \<and> s_hi s = 4 \<and> s_lo s = 0) (fst lay) \<and>
          list_ex (\<lambda>s. s_label s = l) (fst lay))"

lemma dest_ok_layout: "dest_ok (layout w)"
  unfolding layout_def loadStoreLayout_def
  by (simp add: dest_ok_def class_defs spec_defs Let_def)

lemma slice_dest:
  assumes "dest_ok (specs, dest)"
  shows "case d_destIndex (slice w specs dest) of
           None \<Rightarrow> dest = None
         | Some i \<Rightarrow> i < length (d_fields (slice w specs dest)) \<and>
             f_kind (d_fields (slice w specs dest) ! i) = Register \<and>
             f_value (d_fields (slice w specs dest) ! i) = bitString w 4 0"
proof (cases dest)
  case None
  then show ?thesis by (simp add: slice_def Let_def)
next
  case (Some l)
  let ?fs = "d_fields (slice w specs dest)"
  have idx: "d_destIndex (slice w specs dest) = find_index (\<lambda>f. f_label f = l) ?fs"
    using Some by (simp add: slice_def Let_def)
  obtain i where i: "find_index (\<lambda>f. f_label f = l) ?fs = Some i"
    using assms Some find_index_None [of "\<lambda>f. f_label f = l" ?fs]
    by (cases "find_index (\<lambda>f. f_label f = l) ?fs") (auto simp: dest_ok_def fields_slice list_ex_iff)
  from find_index_Some [OF i] have il: "i < length specs" "s_label (specs ! i) = l"
    by (auto simp: fields_slice)
  then have "s_kind (specs ! i) = Register \<and> s_hi (specs ! i) = 4 \<and> s_lo (specs ! i) = 0"
    using assms Some nth_mem [OF il(1)] by (auto simp: dest_ok_def list_all_iff)
  with il(1) show ?thesis unfolding idx i option.case by (simp add: fields_slice)
qed

subsection \<open>Properties\<close>

text \<open>C1: the fields of every word tile it: their widths add up to 32, each field
  shows as many bits as it is wide, and the fields' bits read in order, as one
  binary number, are the word that was decoded.\<close>

theorem decodeFields_tiles_word:
  "sum_list (map f_bits (d_fields (decodeFields word))) = 32 \<and>
   list_all (\<lambda>f. length (f_value f) = f_bits f) (d_fields (decodeFields word)) \<and>
   of_digits 2 (concat (map f_value (d_fields (decodeFields word)))) = nat (word mod 2 ^ 32)"
proof (intro conjI)
  let ?w = "word_of_int word :: word32"
  have t: "tiles 32 (fst (layout ?w))" by (rule tiles_layout)
  show "sum_list (map f_bits (d_fields (decodeFields word))) = 32"
    using tiles_widths [OF t] by (simp add: decodeFields_def Let_def fields_slice comp_def)
  show "list_all (\<lambda>f. length (f_value f) = f_bits f) (d_fields (decodeFields word))"
    using tiles_lo_le_hi [OF t]
    by (auto simp: decodeFields_def Let_def fields_slice list_all_iff length_bitString)
  have "concat (map f_value (d_fields (decodeFields word))) = bitString ?w 31 0"
    using tiles_values [OF t, of ?w] by (simp add: decodeFields_def Let_def concat_values_slice)
  also have "\<dots> = map (\<lambda>i. bit_char (bit (unat ?w) i)) (rev [0..<32])"
    by (auto simp: bitString_chars bit_unsigned_iff)
  also have "\<dots> = padStart 32 (CHR ''0'') (nat_to_string 2 (unat ?w))"
    using unsigned_less [of ?w] by (intro pad_binary_bits [symmetric]) simp_all
  finally show "of_digits 2 (concat (map f_value (d_fields (decodeFields word)))) = nat (word mod 2 ^ 32)"
    by (simp add: bin.of_digits_to_string unsigned_of_int take_bit_eq_mod)
qed

text \<open>Where a field's label is itself a bit pattern (\<open>100101\<close>, \<open>01011\<close>), the bits
  the field shows are that pattern, for every word but those of the classes
  whose fixed bits the source does not test.\<close>

theorem decodeFields_fixed_labels:
  assumes "\<not> untested_label (word_of_int word)"
  shows "list_all (\<lambda>f. literal_label (f_label f) \<longrightarrow> f_value f = f_label f)
           (d_fields (decodeFields word))"
  using labels_layout [OF assms]
  by (auto simp: decodeFields_def Let_def fields_slice labels_true_def list_all_iff)

theorem decodeFields_fixed_labels_witness:
  "\<not> untested_label (word_of_int 0xD2800540) \<and>
   list_all (\<lambda>f. literal_label (f_label f) \<longrightarrow> f_value f = f_label f)
     (d_fields (decodeFields 0xD2800540))"
proof -
  have "\<not> untested_label (word_of_int 0xD2800540)"
    by (simp add: untested_label_def bits_def)
  then show ?thesis using decodeFields_fixed_labels by blast
qed

text \<open>A word outside the known classes is not always left whole: the word
  \<open>0xF8200000\<close> (bit 21 set, index bits 00, the encoding of an atomic add that
  the emulator does not accept) is cut as a pre- or post-indexed load or store,
  and the field labelled \<open>0\<close> shows the bit 1.\<close>

theorem decodeFields_guessed_layout:
  "list_ex (\<lambda>f. f_label f = ''0'' \<and> f_value f = ''1'') (d_fields (decodeFields 0xF8200000))"
  by (simp add: decodeFields_def Let_def layout_def bits_def fpClass_def loadStoreLayout_def
      fields_slice loadStoreImm9_def spec_defs ldrStr_def bitString_chars bit_char_def)

text \<open>The field marked as the destination is always a register field and shows
  bits 4 to 0, and a field is marked whenever the class writes a register.\<close>

theorem decodeFields_destination:
  "case d_destIndex (decodeFields word) of
     None \<Rightarrow> snd (layout (word_of_int word)) = None
   | Some i \<Rightarrow> i < length (d_fields (decodeFields word)) \<and>
       f_kind (d_fields (decodeFields word) ! i) = Register \<and>
       f_value (d_fields (decodeFields word) ! i) = bitString (word_of_int word) 4 0"
  unfolding decodeFields_def Let_def by (rule slice_dest) (simp add: dest_ok_layout)

end
