(* ===== verification/Ieee754.thy ===== *)
theory Ieee754
  imports Complex_Main BaseConvert
begin

unbundle bit_operations_syntax

text \<open>
  The IEEE-754 reading of a bit pattern, \<open>web/lib/asm/ieee754.ts\<close>: fields, class,
  exact decimal value, and the parse of decimal text into the nearest float.
  The source rounds with BigInt fractions; the model does the same on \<open>int\<close>.  The
  main lemmas: splitting and joining are inverse, the exact decimal denotes
  exactly the stored value, and \<open>roundToFloat\<close> returns the nearest float of the
  format, ties to even, or says on which side the value fell off it.
\<close>

datatype FloatWidth = F32 | F64

fun fwidth :: "FloatWidth \<Rightarrow> nat" where
  "fwidth F32 = 32"
| "fwidth F64 = 64"

definition isFloatWidth :: "Width \<Rightarrow> bool" where
  "isFloatWidth w \<longleftrightarrow> w = W32 \<or> w = W64"

record FloatLayout =
  exponentBits :: nat
  fractionBits :: nat
  bias :: int

fun FLOAT_LAYOUT :: "FloatWidth \<Rightarrow> FloatLayout" where
  "FLOAT_LAYOUT F32 = \<lparr>exponentBits = 8, fractionBits = 23, bias = 127\<rparr>"
| "FLOAT_LAYOUT F64 = \<lparr>exponentBits = 11, fractionBits = 52, bias = 1023\<rparr>"

abbreviation fbits :: "FloatWidth \<Rightarrow> nat" where
  "fbits w \<equiv> fractionBits (FLOAT_LAYOUT w)"

abbreviation ebits :: "FloatWidth \<Rightarrow> nat" where
  "ebits w \<equiv> exponentBits (FLOAT_LAYOUT w)"

abbreviation fbias :: "FloatWidth \<Rightarrow> int" where
  "fbias w \<equiv> bias (FLOAT_LAYOUT w)"

datatype FloatClass = Zero | Subnormal | Normal | Infinity | QuietNaN | SignallingNaN

record FloatFields =
  sign :: int
  exponent :: int
  fraction :: int

definition topExponent :: "FloatWidth \<Rightarrow> int" where
  "topExponent w = push_bit (ebits w) 1 - 1"

definition splitFloat :: "int \<Rightarrow> FloatWidth \<Rightarrow> FloatFields" where
  "splitFloat bits w =
     \<lparr>sign = (if drop_bit (fwidth w - 1) bits AND 1 \<noteq> 0 then 1 else 0),
      exponent = drop_bit (fbits w) bits AND (push_bit (ebits w) 1 - 1),
      fraction = bits AND (push_bit (fbits w) 1 - 1)\<rparr>"

definition joinFloat :: "FloatFields \<Rightarrow> FloatWidth \<Rightarrow> int" where
  "joinFloat f w =
     push_bit (fwidth w - 1) (sign f) OR push_bit (fbits w) (exponent f) OR fraction f"

definition classify :: "int \<Rightarrow> FloatWidth \<Rightarrow> FloatClass" where
  "classify bits w =
     (let f = splitFloat bits w in
      if exponent f = 0 then (if fraction f = 0 then Zero else Subnormal)
      else if exponent f < topExponent w then Normal
      else if fraction f = 0 then Infinity
      else let quietBit = push_bit (fbits w - 1) 1 in
        if fraction f AND quietBit \<noteq> 0 then QuietNaN else SignallingNaN)"

definition isNaNClass :: "FloatClass \<Rightarrow> bool" where
  "isNaNClass k \<longleftrightarrow> k = QuietNaN \<or> k = SignallingNaN"

definition exactDecimal :: "int \<Rightarrow> int \<Rightarrow> jstring" where
  "exactDecimal m q =
     (if q \<ge> 0 then to_string 10 (push_bit (nat q) m)
      else let places = nat (- q);
               digits = padStart (places + 1) (CHR ''0'') (to_string 10 (m * 5 ^ places));
               whole = js_sub digits 0 (- int places);
               frac = drop_trailing_zeros (js_from digits (- int places))
           in if frac \<noteq> [] then whole @ ''.'' @ frac else whole)"

definition powerOfTwoForm :: "int \<Rightarrow> FloatWidth \<Rightarrow> (jstring \<times> int) option" where
  "powerOfTwoForm bits w =
     (let kind = classify bits w in
      if kind \<noteq> Normal \<and> kind \<noteq> Subnormal then None
      else let f = splitFloat bits w;
               normal = (kind = Normal);
               m = (if normal then fraction f OR push_bit (fbits w) 1 else fraction f)
           in Some ((if sign f \<noteq> 0 then ''-'' else ''+'') @ exactDecimal m (- int (fbits w)),
                    if normal then exponent f - fbias w else 1 - fbias w))"

text \<open>\<open>exactValue\<close> answers infinities and NaNs with \<open>formatFloatValue\<close>, whose first
  branches are these two texts.\<close>

definition specialText :: "int \<Rightarrow> FloatWidth \<Rightarrow> jstring" where
  "specialText bits w =
     (let minus = (if sign (splitFloat bits w) \<noteq> 0 then ''-'' else []) in
      if classify bits w = Infinity then minus @ ''inf'' else minus @ ''nan'')"

definition exactValue :: "int \<Rightarrow> FloatWidth \<Rightarrow> jstring" where
  "exactValue bits w =
     (let kind = classify bits w in
      if kind = Infinity \<or> isNaNClass kind then specialText bits w
      else let f = splitFloat bits w;
               m = (if exponent f = 0 then fraction f else fraction f OR push_bit (fbits w) 1);
               q = max (exponent f) 1 - fbias w - int (fbits w)
           in (if sign f \<noteq> 0 then ''-'' else []) @ exactDecimal m q)"

text \<open>The position of the first digit 1 to 9, -1 when there is none.\<close>

definition first_nonzero :: "jstring \<Rightarrow> int" where
  "first_nonzero s =
     (case find_index (\<lambda>c. 49 \<le> code c \<and> code c \<le> 57) s of None \<Rightarrow> -1 | Some i \<Rightarrow> int i)"

text \<open>The first \<open>digits\<close> significant digits of a decimal text as a whole number, the
  power of ten they count, and the digits cut off.\<close>

definition leading_digits :: "jstring \<Rightarrow> nat \<Rightarrow> int \<times> int \<times> jstring" where
  "leading_digits exact digits =
     (let parts = js_split (CHR ''.'') exact;
          whole = hd parts;
          frac = (case nth_opt parts 1 of None \<Rightarrow> [] | Some f \<Rightarrow> f);
          all = whole @ frac;
          lead = first_nonzero all;
          below = int (of_digits 10 (padEnd digits (CHR ''0'') (js_sub all lead (lead + int digits))));
          pw = int (length whole) - lead - int digits;
          rest = drop_trailing_zeros (js_from all (lead + int digits))
      in (below, pw, rest))"

definition neighbours :: "jstring \<Rightarrow> nat \<Rightarrow> (int \<times> int) list" where
  "neighbours exact digits =
     (case leading_digits exact digits of (below, pw, rest) \<Rightarrow>
        if rest = [] then [(below, pw)]
        else if js_less ''5'' rest \<or> (rest = ''5'' \<and> below mod 2 = 1)
             then [(below + 1, pw), (below, pw)]
             else [(below, pw), (below + 1, pw)])"

definition decimal_text :: "int \<times> int \<Rightarrow> jstring" where
  "decimal_text d = show_int (fst d) @ ''e'' @ show_int (snd d)"

definition bracketingDecimals :: "jstring \<Rightarrow> nat \<Rightarrow> jstring list" where
  "bracketingDecimals exact digits = map decimal_text (neighbours exact digits)"

text \<open>\<open>value.toString(2).padStart(length, "0").replace(/\B(?=(?:[01]{4})+$)/g, " ")\<close>: a
  space before every group of four digits counted from the right, except at the
  front.\<close>

fun group4 :: "jstring \<Rightarrow> jstring" where
  "group4 [] = []"
| "group4 [c] = [c]"
| "group4 (c # d # s) =
     (if Suc (length s) mod 4 = 0 then c # CHR '' '' # group4 (d # s) else c # group4 (d # s))"

definition grouped :: "int \<Rightarrow> nat \<Rightarrow> jstring" where
  "grouped value n = group4 (padStart n (CHR ''0'') (to_string 2 value))"

record FieldTexts =
  t_sign :: jstring
  t_exponent :: jstring
  t_fraction :: jstring

definition fieldBinary :: "int \<Rightarrow> FloatWidth \<Rightarrow> FieldTexts" where
  "fieldBinary bits w =
     (let f = splitFloat bits w in
      \<lparr>t_sign = show_int (sign f),
       t_exponent = grouped (exponent f) (ebits w),
       t_fraction = grouped (fraction f) (fbits w)\<rparr>)"

subsection \<open>Rounding\<close>

datatype Rounded = Rounded int int bool | Overflow | Underflow

text \<open>\<open>floor(log2(num / den))\<close>, from the bit lengths and one correction.\<close>

definition log2_quotient :: "int \<Rightarrow> int \<Rightarrow> int" where
  "log2_quotient num den =
     (let e = int (length (to_string 2 num)) - int (length (to_string 2 den)) in
      if (if e \<ge> 0 then num < push_bit (nat e) den else push_bit (nat (- e)) num < den)
      then e - 1 else e)"

definition roundToFloat :: "int \<Rightarrow> int \<Rightarrow> FloatWidth \<Rightarrow> Rounded" where
  "roundToFloat num den w =
     (let e = log2_quotient num den;
          q = max e (1 - fbias w) - int (fbits w);
          n = (if q < 0 then push_bit (nat (- q)) num else num);
          d = (if q > 0 then push_bit (nat q) den else den);
          m0 = n div d;
          r = n mod d;
          m = (if 2 * r > d \<or> (2 * r = d \<and> m0 AND 1 = 1) then m0 + 1 else m0) in
      if m = 0 then Underflow
      else let hidden = push_bit (fbits w) 1 in
        if m < hidden then Rounded 0 m (r = 0)
        else let exponent0 = q + int (fbits w) + fbias w;
                 carry = (m = push_bit 1 hidden);
                 m' = (if carry then drop_bit 1 m else m);
                 exponent' = (if carry then exponent0 + 1 else exponent0) in
          if exponent' \<ge> topExponent w then Overflow
          else Rounded exponent' (m' - hidden) (r = 0))"

subsection \<open>Decimal text\<close>

datatype DecimalRead = ReadBits int bool | ReadOverflow | ReadUnderflow | NotANumber

text \<open>\<open>/^([+-]?)(inf|infinity|nan)$/i\<close>: the sign and whether the word is \<open>nan\<close>.\<close>

definition take_sign :: "jstring \<Rightarrow> jstring \<times> jstring" where
  "take_sign s =
     (case s of [] \<Rightarrow> ([], [])
      | c # cs \<Rightarrow> if c = CHR ''+'' \<or> c = CHR ''-'' then ([c], cs) else ([], s))"

definition special_match :: "jstring \<Rightarrow> (jstring \<times> jstring) option" where
  "special_match text =
     (let (sg, word) = take_sign text; low = js_lower word in
      if low = ''inf'' \<or> low = ''infinity'' \<or> low = ''nan'' then Some (sg, low) else None)"

text \<open>\<open>/^([+-]?)([0-9]*)(?:\.([0-9]*))?(?:e([+-]?[0-9]+))?$/i\<close>: sign, digits before the
  point, digits after it, exponent.  The classes that follow one another are
  disjoint, so the match is the only one.\<close>

definition exponent_match :: "jstring \<Rightarrow> int option" where
  "exponent_match s =
     (case s of [] \<Rightarrow> Some 0
      | c # cs \<Rightarrow>
          if c = CHR ''e'' \<or> c = CHR ''E'' then
            (let (sg, ds) = take_sign cs in
             if digits_only 10 ds
             then Some (if sg = ''-'' then - int (of_digits 10 ds) else int (of_digits 10 ds))
             else None)
          else None)"

definition decimal_match :: "jstring \<Rightarrow> (jstring \<times> jstring \<times> jstring \<times> int) option" where
  "decimal_match text =
     (let (sg, s) = take_sign text;
          whole = takeWhile is_digit s;
          s1 = dropWhile is_digit s;
          (after, s2) = (case s1 of [] \<Rightarrow> ([], [])
                         | c # cs \<Rightarrow> if c = CHR ''.'' then (takeWhile is_digit cs, dropWhile is_digit cs)
                                     else ([], s1))
      in map_option (\<lambda>e. (sg, whole, after, e)) (exponent_match s2))"

definition MAX_VALUE_TEXT :: nat where
  "MAX_VALUE_TEXT = 2000"

definition decimalToFloat :: "jstring \<Rightarrow> FloatWidth \<Rightarrow> DecimalRead" where
  "decimalToFloat text w =
     (case special_match text of
        Some (sg, word) \<Rightarrow>
          let frac = (if word = ''nan'' then push_bit (fbits w - 1) 1 else 0) in
          ReadBits (joinFloat \<lparr>sign = (if sg = ''-'' then 1 else 0), exponent = topExponent w,
                              fraction = frac\<rparr> w) True
      | None \<Rightarrow>
          case (if length text \<le> MAX_VALUE_TEXT then decimal_match text else None) of
            None \<Rightarrow> NotANumber
          | Some (sg, whole, after, e) \<Rightarrow>
              if length whole + length after = 0 then NotANumber
              else
                let s = (if sg = ''-'' then 1 else 0);
                    digits = drop_leading_zeros (whole @ after) in
                if digits = [] then ReadBits (joinFloat \<lparr>sign = s, exponent = 0, fraction = 0\<rparr> w) True
                else
                  let exp10 = e - int (length after);
                      magnitude = int (length digits) + exp10 in
                  if magnitude > 400 then ReadOverflow
                  else if magnitude < -400 then ReadUnderflow
                  else case roundToFloat (int (of_digits 10 digits) * 10 ^ nat (max exp10 0))
                              (10 ^ nat (max (- exp10) 0)) w of
                         Overflow \<Rightarrow> ReadOverflow
                       | Underflow \<Rightarrow> ReadUnderflow
                       | Rounded ex fr exact \<Rightarrow>
                           ReadBits (joinFloat \<lparr>sign = s, exponent = ex, fraction = fr\<rparr> w) exact)"

subsection \<open>Numbers as JavaScript prints them\<close>

text \<open>ECMA-262, \<open>Number::toString\<close>, radix 10, for a positive value with significant
  digits \<open>ds\<close> (no trailing zero) and decimal point after \<open>n\<close> of them.\<close>

definition exponent_layout :: "jstring \<Rightarrow> int \<Rightarrow> jstring" where
  "exponent_layout ds n =
     (let e = n - 1; es = (if e < 0 then ''-'' else ''+'') @ show_int \<bar>e\<bar> in
      if length ds = 1 then ds @ ''e'' @ es else take 1 ds @ ''.'' @ drop 1 ds @ ''e'' @ es)"

definition number_layout :: "jstring \<Rightarrow> int \<Rightarrow> jstring" where
  "number_layout ds n =
     (let k = int (length ds) in
      if k \<le> n \<and> n \<le> 21 then ds @ replicate (nat (n - k)) (CHR ''0'')
      else if 0 < n \<and> n \<le> 21 then take (nat n) ds @ ''.'' @ drop (nat n) ds
      else if -6 < n \<and> n \<le> 0 then ''0.'' @ replicate (nat (- n)) (CHR ''0'') @ ds
      else exponent_layout ds n)"

text \<open>The double nearest to \<open>s * 10^p\<close>, as exponent and fraction fields.\<close>

definition round_decimal :: "int \<times> int \<Rightarrow> Rounded" where
  "round_decimal d =
     roundToFloat (fst d * 10 ^ nat (max (snd d) 0)) (10 ^ nat (max (- snd d) 0)) F64"

definition double_exact :: "int \<Rightarrow> int \<Rightarrow> jstring" where
  "double_exact ex fr =
     exactDecimal (if ex = 0 then fr else fr + 2 ^ 52) (max ex 1 - 1023 - 52)"

text \<open>The fewest significant digits, at most 17, whose nearest double is the given
  one; the closer of two candidates first.\<close>

definition shortest_digits :: "int \<Rightarrow> int \<Rightarrow> (int \<times> int) option" where
  "shortest_digits ex fr =
     (let exact = double_exact ex fr in
      find (\<lambda>d. case round_decimal d of Rounded ex' fr' _ \<Rightarrow> ex' = ex \<and> fr' = fr | _ \<Rightarrow> False)
        (concat (map (neighbours exact) [1..<18])))"

definition digits_text :: "(jstring \<Rightarrow> int \<Rightarrow> jstring) \<Rightarrow> int \<Rightarrow> int \<Rightarrow> jstring" where
  "digits_text layout ex fr =
     (case shortest_digits ex fr of
        None \<Rightarrow> []
      | Some (s, p) \<Rightarrow> layout (drop_trailing_zeros (show_int s)) (int (length (show_int s)) + p))"

text \<open>\<open>String(Number(`${s}e${p}`))\<close> for a positive \<open>s\<close>.\<close>

definition number_text :: "int \<times> int \<Rightarrow> jstring" where
  "number_text d =
     (case round_decimal d of Rounded ex fr _ \<Rightarrow> digits_text number_layout ex fr
      | Overflow \<Rightarrow> ''Infinity'' | Underflow \<Rightarrow> ''0'')"

text \<open>\<open>x.toPrecision(9)\<close>, as the decimal it denotes: the nearest with nine digits, the
  larger one on a tie.\<close>

definition to_precision9 :: "jstring \<Rightarrow> int \<times> int" where
  "to_precision9 exact =
     (case leading_digits exact 9 of (below, pw, rest) \<Rightarrow>
        (if rest \<noteq> [] \<and> \<not> js_less rest ''5'' then below + 1 else below, pw))"

definition formatFloatValue :: "int \<Rightarrow> FloatWidth \<Rightarrow> jstring" where
  "formatFloatValue bits w =
     (let kind = classify bits w;
          minus = (if sign (splitFloat bits w) \<noteq> 0 then ''-'' else []) in
      if kind = Infinity then minus @ ''inf''
      else if isNaNClass kind then minus @ ''nan''
      else if kind = Zero then minus @ ''0''
      else if w = F64 then
        minus @ digits_text number_layout (exponent (splitFloat bits w)) (fraction (splitFloat bits w))
      else
        let exact = (let t = exactValue bits F32 in if starts_with ''-'' t then drop 1 t else t);
            tries = concat (map (\<lambda>digits. map (\<lambda>d. minus @ number_text d) (neighbours exact digits)) [1..<9])
        in case find (\<lambda>text. case decimalToFloat text F32 of ReadBits b _ \<Rightarrow> b = bits | _ \<Rightarrow> False) tries of
             Some text \<Rightarrow> text
           | None \<Rightarrow> minus @ number_text (to_precision9 exact))"

subsection \<open>Reading and writing one field\<close>

datatype FloatField = FSign | FExponent | FUnbiased | FFraction | FValue

datatype FloatParseOutcome = Plain ParseOutcome | ParsedRounded int jstring

fun formatFloatField :: "FloatField \<Rightarrow> int \<Rightarrow> FloatWidth \<Rightarrow> jstring" where
  "formatFloatField FSign bits w = show_int (sign (splitFloat bits w))"
| "formatFloatField FExponent bits w = show_int (exponent (splitFloat bits w))"
| "formatFloatField FUnbiased bits w = show_int (exponent (splitFloat bits w) - fbias w)"
| "formatFloatField FFraction bits w =
     padStart ((fbits w + 3) div 4) (CHR ''0'') (to_string 16 (fraction (splitFloat bits w)))"
| "formatFloatField FValue bits w = formatFloatValue bits w"

definition parseFloatValue :: "jstring \<Rightarrow> FloatWidth \<Rightarrow> FloatParseOutcome" where
  "parseFloatValue text w =
     (case decimalToFloat text w of
        NotANumber \<Rightarrow>
          Plain (PInvalid ''type a decimal such as 0.1, -2.5, or 6.02e23, or inf or nan'')
      | ReadOverflow \<Rightarrow>
          let largest = joinFloat \<lparr>sign = 0, exponent = topExponent w - 1,
                                  fraction = push_bit (fbits w) 1 - 1\<rparr> w in
          Plain (PRange (''past the largest '' @ show_nat (fwidth w) @ ''-bit float, ''
                         @ formatFloatValue largest w @ ''; type inf for infinity''))
      | ReadUnderflow \<Rightarrow>
          Plain (PRange (''closer to 0 than the smallest '' @ show_nat (fwidth w) @ ''-bit float, ''
                         @ formatFloatValue 1 w @ '', so it would round to 0; type 0 for zero''))
      | ReadBits bits exact \<Rightarrow>
          if exact then Plain (POk bits)
          else ParsedRounded bits
                 (''not exact in '' @ show_nat (fwidth w)
                  @ '' bits; stored the nearest float, shown in full under exact value''))"

text \<open>\<open>/^[+-]?[0-9]+$/\<close> and \<open>Number\<close> of such a text.\<close>

definition signed_number :: "jstring \<Rightarrow> int option" where
  "signed_number s =
     (let (sg, ds) = take_sign s in
      if digits_only 10 ds
      then Some (if sg = ''-'' then - int (of_digits 10 ds) else int (of_digits 10 ds))
      else None)"

definition parseFloatField :: "FloatField \<Rightarrow> jstring \<Rightarrow> int \<Rightarrow> FloatWidth \<Rightarrow> FloatParseOutcome" where
  "parseFloatField field text bits w =
     (let trimmed = js_trim text in
      if trimmed = [] then Plain PEmpty
      else
        let top = topExponent w; f = splitFloat bits w in
        case field of
          FSign \<Rightarrow>
            if trimmed \<noteq> ''0'' \<and> trimmed \<noteq> ''1''
            then Plain (PInvalid ''the sign is 0 (positive) or 1 (negative)'')
            else Plain (POk (joinFloat (f\<lparr>sign := (if trimmed = ''1'' then 1 else 0)\<rparr>) w))
        | FExponent \<Rightarrow>
            if \<not> digits_only 10 trimmed
            then Plain (PInvalid (''the raw exponent is a whole number, 0 to '' @ show_int top))
            else let ex = int (of_digits 10 trimmed) in
              if ex > top
              then Plain (PRange (''the raw exponent is '' @ show_nat (ebits w) @ '' bits, so it runs 0 to ''
                                  @ show_int top))
              else Plain (POk (joinFloat (f\<lparr>exponent := ex\<rparr>) w))
        | FUnbiased \<Rightarrow>
            (case signed_number trimmed of
               None \<Rightarrow> Plain (PInvalid (''the unbiased exponent is a whole number, '' @ show_int (- fbias w)
                                       @ '' to '' @ show_int (top - fbias w)))
             | Some u \<Rightarrow>
                 if u < - fbias w \<or> u > top - fbias w
                 then Plain (PRange (''the unbiased exponent runs '' @ show_int (- fbias w) @ '' to ''
                                     @ show_int (top - fbias w) @ '': raw 0 to '' @ show_int top
                                     @ '', minus the bias '' @ show_int (fbias w)))
                 else Plain (POk (joinFloat (f\<lparr>exponent := u + fbias w\<rparr>) w)))
        | FFraction \<Rightarrow>
            (let digits = strip_prefix (CHR ''x'') (CHR ''X'') trimmed in
             if digits = [] then Plain PEmpty
             else if \<not> digits_only 16 digits
             then Plain (PInvalid ''the fraction is in hex: digits 0-9 and a-f'')
             else let frac = int (of_digits 16 digits); mx = push_bit (fbits w) 1 - 1 in
               if frac > mx
               then Plain (PRange (''the fraction is '' @ show_nat (fbits w) @ '' bits, so it maxes at 0x''
                                   @ to_string 16 mx))
               else Plain (POk (joinFloat (f\<lparr>fraction := frac\<rparr>) w)))
        | FValue \<Rightarrow> parseFloatValue trimmed w)"

subsection \<open>Splitting and joining\<close>

definition valid_fields :: "FloatFields \<Rightarrow> FloatWidth \<Rightarrow> bool" where
  "valid_fields f w \<longleftrightarrow>
     (sign f = 0 \<or> sign f = 1) \<and> 0 \<le> exponent f \<and> exponent f < 2 ^ ebits w \<and>
     0 \<le> fraction f \<and> fraction f < 2 ^ fbits w"

definition valid_pattern :: "int \<Rightarrow> FloatWidth \<Rightarrow> bool" where
  "valid_pattern bits w \<longleftrightarrow> 0 \<le> bits \<and> bits < 2 ^ fwidth w"

lemma fwidth_eq: "fwidth w = Suc (fbits w + ebits w)"
  by (cases w) auto

lemma fwidth_pred: "fwidth w - Suc 0 = fbits w + ebits w"
  by (simp add: fwidth_eq)

lemma joinFloat_concat:
  assumes "valid_fields f w"
  shows "joinFloat f w = concat_bit (fbits w) (fraction f) (concat_bit (ebits w) (exponent f) (sign f))"
proof -
  have "take_bit (fbits w) (fraction f) = fraction f" "take_bit (ebits w) (exponent f) = exponent f"
    using assms by (auto simp: valid_fields_def take_bit_int_eq_self)
  then show ?thesis
    by (simp add: joinFloat_def concat_bit_def fwidth_pred push_bit_or push_bit_push_bit
        or.assoc or.commute or.left_commute)
qed

lemma joinFloat_eq:
  assumes "valid_fields f w"
  shows "joinFloat f w = fraction f + 2 ^ fbits w * (exponent f + 2 ^ ebits w * sign f)"
proof -
  have "take_bit (fbits w) (fraction f) = fraction f" "take_bit (ebits w) (exponent f) = exponent f"
    using assms by (auto simp: valid_fields_def take_bit_int_eq_self)
  then show ?thesis
    by (simp add: joinFloat_concat [OF assms] concat_bit_eq push_bit_eq_mult mult.commute)
qed

lemma int_div_less:
  assumes "0 < (c::int)" "a < b * c"
  shows "a div c < b"
proof (rule ccontr)
  assume "\<not> a div c < b"
  then have "b * c \<le> a div c * c" using assms by (intro mult_right_mono) auto
  moreover have "a div c * c \<le> a"
    using assms(1) by (metis div_mult_mod_eq le_add_same_cancel1 pos_mod_sign)
  ultimately show False using assms by linarith
qed

lemma splitFloat_eq:
  assumes "valid_pattern bits w"
  shows "splitFloat bits w =
    \<lparr>sign = bits div 2 ^ fbits w div 2 ^ ebits w,
     exponent = (bits div 2 ^ fbits w) mod 2 ^ ebits w,
     fraction = bits mod 2 ^ fbits w\<rparr>"
proof -
  let ?s = "bits div 2 ^ fbits w div 2 ^ ebits w"
  have top: "drop_bit (fwidth w - 1) bits = ?s"
    by (simp add: fwidth_pred drop_bit_eq_div power_add zdiv_zmult2_eq)
  have "0 \<le> ?s"
    using assms by (simp add: valid_pattern_def pos_imp_zdiv_nonneg_iff)
  moreover have "?s < 2"
  proof -
    have "bits < 2 * (2 ^ fbits w * 2 ^ ebits w)"
      using assms by (simp add: valid_pattern_def fwidth_eq power_add)
    then have "bits div (2 ^ fbits w * 2 ^ ebits w) < 2"
      by (intro int_div_less) auto
    then show ?thesis by (simp add: zdiv_zmult2_eq)
  qed
  ultimately have s: "?s = 0 \<or> ?s = 1"
    by linarith
  have m: "push_bit n (1::int) - 1 = mask n" for n
    by (simp add: mask_eq_exp_minus_1 push_bit_eq_mult)
  show ?thesis
    unfolding splitFloat_def top m
    using s by (auto simp: drop_bit_eq_div take_bit_eq_mod [symmetric] take_bit_eq_mask [symmetric])
qed

lemma split_valid:
  assumes "valid_pattern bits w"
  shows "valid_fields (splitFloat bits w) w"
proof -
  have "sign (splitFloat bits w) = 0 \<or> sign (splitFloat bits w) = 1"
    by (simp add: splitFloat_def)
  then show ?thesis
    by (simp add: splitFloat_eq [OF assms] valid_fields_def)
qed

lemma join_split:
  assumes "valid_pattern bits w"
  shows "joinFloat (splitFloat bits w) w = bits"
  by (subst joinFloat_eq [OF split_valid [OF assms]]) (simp add: splitFloat_eq [OF assms] add.commute)

lemma join_valid:
  assumes "valid_fields f w"
  shows "valid_pattern (joinFloat f w) w"
proof -
  let ?F = "2 ^ fbits w :: int" and ?E = "2 ^ ebits w :: int"
  have "exponent f + ?E * sign f \<le> 2 * ?E - 1"
    using assms by (auto simp: valid_fields_def)
  then have "?F * (exponent f + ?E * sign f) \<le> ?F * (2 * ?E - 1)"
    by (intro mult_left_mono) auto
  moreover have "0 \<le> ?F * (exponent f + ?E * sign f)"
    using assms by (auto simp: valid_fields_def)
  ultimately show ?thesis
    using assms
    by (simp add: valid_pattern_def joinFloat_eq valid_fields_def fwidth_eq power_add algebra_simps)
qed

lemma split_join:
  assumes "valid_fields f w"
  shows "splitFloat (joinFloat f w) w = f"
proof -
  have "joinFloat f w div 2 ^ fbits w = exponent f + 2 ^ ebits w * sign f"
    and "joinFloat f w mod 2 ^ fbits w = fraction f"
    using assms by (auto simp: joinFloat_eq valid_fields_def)
  then show ?thesis
    using assms by (simp add: splitFloat_eq [OF join_valid [OF assms]] valid_fields_def)
qed

subsection \<open>The nearest float\<close>

text \<open>The real number a finite, positive float stores.\<close>

definition significand :: "int \<Rightarrow> int \<Rightarrow> FloatWidth \<Rightarrow> int" where
  "significand ex fr w = (if ex = 0 then fr else fr + 2 ^ fbits w)"

definition quantum :: "int \<Rightarrow> FloatWidth \<Rightarrow> int" where
  "quantum ex w = max ex 1 - fbias w - int (fbits w)"

definition float_real :: "int \<Rightarrow> int \<Rightarrow> FloatWidth \<Rightarrow> real" where
  "float_real ex fr w = of_int (significand ex fr w) * 2 powi (quantum ex w)"

definition finite_fields :: "int \<Rightarrow> int \<Rightarrow> FloatWidth \<Rightarrow> bool" where
  "finite_fields ex fr w \<longleftrightarrow> 0 \<le> ex \<and> ex < topExponent w \<and> 0 \<le> fr \<and> fr < 2 ^ fbits w"

lemma bit_length_bounds:
  assumes "0 < n"
  shows "2 powi (int (length (to_string 2 n)) - 1) \<le> (of_int n :: real)"
    and "(of_int n :: real) < 2 powi (int (length (to_string 2 n)))"
proof -
  let ?l = "length (nat_to_string 2 (nat n))"
  have l: "0 < ?l" by (cases "nat_to_string 2 (nat n)") auto
  have s: "to_string 2 n = nat_to_string 2 (nat n)"
    using assms by (simp add: to_string_nonneg)
  have r: "real (nat n) = of_int n" using assms by simp
  have "real (2 ^ (?l - 1)) \<le> real (nat n)"
    using bin.to_string_lower [of "nat n"] assms by (simp only: of_nat_le_iff)
  then show "2 powi (int (length (to_string 2 n)) - 1) \<le> (of_int n :: real)"
    using l unfolding s r by (simp add: power_int_def nat_diff_distrib')
  have "real (nat n) < real (2 ^ ?l)"
    using bin.to_string_upper [of "nat n"] by (simp only: of_nat_less_iff)
  then show "(of_int n :: real) < 2 powi (int (length (to_string 2 n)))"
    unfolding s r by simp
qed

text \<open>Scaling a quotient by a power of two, as the source does with shifts.\<close>

lemma shifted_quotient:
  assumes "0 < den"
  shows "of_int (if q < 0 then push_bit (nat (- q)) num else num)
       / of_int (if q > 0 then push_bit (nat q) den else den)
       = (of_int num / of_int den) / (2 powi q :: real)"
  using assms by (auto simp: push_bit_eq_mult power_int_def field_simps)

lemma log2_quotient_bounds:
  assumes "0 < num" "0 < den"
  shows "2 powi (log2_quotient num den) \<le> (of_int num / of_int den :: real)"
    and "(of_int num / of_int den :: real) < 2 powi (log2_quotient num den + 1)"
proof -
  define a b where "a = int (length (to_string 2 num))" and "b = int (length (to_string 2 den))"
  let ?x = "of_int num / of_int den :: real"
  note n = bit_length_bounds [OF assms(1), folded a_def]
    and d = bit_length_bounds [OF assms(2), folded b_def]
  have pd: "(0::real) < of_int den" using assms by simp
  have lo: "2 powi (a - b - 1) \<le> ?x"
  proof -
    have "2 powi (a - b - 1) * of_int den \<le> (2 powi (a - b - 1) * 2 powi b :: real)"
      using d(2) by (intro mult_left_mono) auto
    also have "\<dots> = 2 powi (a - 1)" by (simp flip: power_int_add)
    finally show ?thesis using n(1) pd by (simp add: field_simps)
  qed
  have hi: "?x < 2 powi (a - b + 1)"
  proof -
    have "(2 powi a :: real) = 2 powi (a - b + 1) * 2 powi (b - 1)" by (simp flip: power_int_add)
    also have "\<dots> \<le> 2 powi (a - b + 1) * of_int den"
      using d(1) by (intro mult_left_mono) auto
    finally show ?thesis using n(2) pd by (simp add: field_simps)
  qed
  have guard: "(if a - b \<ge> 0 then num < push_bit (nat (a - b)) den else push_bit (nat (- (a - b))) num < den)
      \<longleftrightarrow> ?x < 2 powi (a - b)"
  proof (cases "a - b \<ge> 0")
    case True
    have "num < push_bit (nat (a - b)) den \<longleftrightarrow> of_int num < (of_int (push_bit (nat (a - b)) den) :: real)"
      by (simp only: of_int_less_iff)
    then show ?thesis
      using True pd by (simp add: push_bit_eq_mult power_int_def field_simps)
  next
    case False
    have "push_bit (nat (- (a - b))) num < den \<longleftrightarrow> (of_int (push_bit (nat (- (a - b))) num) :: real) < of_int den"
      by (simp only: of_int_less_iff)
    then show ?thesis
      using False pd by (simp add: push_bit_eq_mult power_int_def field_simps)
  qed
  have e: "log2_quotient num den = (if ?x < 2 powi (a - b) then a - b - 1 else a - b)"
    by (simp only: log2_quotient_def Let_def a_def [symmetric] b_def [symmetric] guard)
  show "2 powi (log2_quotient num den) \<le> ?x" using lo by (simp add: e)
  show "?x < 2 powi (log2_quotient num den + 1)" using hi by (simp add: e)
qed

text \<open>Rounding a quotient of integers to the nearest integer, ties to even.\<close>

definition round_half_even :: "int \<Rightarrow> int \<Rightarrow> int" where
  "round_half_even n d =
     (if 2 * (n mod d) > d \<or> (2 * (n mod d) = d \<and> n div d AND 1 = 1) then n div d + 1 else n div d)"

lemma round_half_even_near:
  assumes "0 < d"
  shows "2 * \<bar>n - d * round_half_even n d\<bar> \<le> d"
    and "2 * \<bar>n - d * round_half_even n d\<bar> = d \<Longrightarrow> even (round_half_even n d)"
proof -
  have r: "n - d * (n div d) = n mod d" by (simp add: minus_mult_div_eq_mod)
  have b: "0 \<le> n mod d" "n mod d < d" using assms by auto
  have a: "(n div d AND 1 = 1) \<longleftrightarrow> odd (n div d)" by (simp add: and_one_eq odd_iff_mod_2_eq_one)
  have u: "n - d * (n div d + 1) = n mod d - d" using r by (simp add: algebra_simps)
  have v: "n - d * round_half_even n d =
      (if 2 * (n mod d) > d \<or> (2 * (n mod d) = d \<and> odd (n div d)) then n mod d - d else n mod d)"
    unfolding round_half_even_def a using r u by presburger
  show "2 * \<bar>n - d * round_half_even n d\<bar> \<le> d"
    unfolding v using b by (simp add: abs_if; linarith)
  show "even (round_half_even n d)" if "2 * \<bar>n - d * round_half_even n d\<bar> = d"
    using that b unfolding v
    by (cases "odd (n div d)"; cases "2 * (n mod d) > d"; cases "2 * (n mod d) = d")
       (auto simp: round_half_even_def a)
qed

lemma round_half_even_nearest:
  assumes "0 < d"
  shows "\<bar>n - d * round_half_even n d\<bar> \<le> \<bar>n - d * k\<bar>"
    and "\<bar>n - d * round_half_even n d\<bar> = \<bar>n - d * k\<bar> \<Longrightarrow> k \<noteq> round_half_even n d \<Longrightarrow>
         even (round_half_even n d)"
proof -
  define m where "m = round_half_even n d"
  have near: "2 * \<bar>n - d * m\<bar> \<le> d" using round_half_even_near(1) [OF assms] by (simp add: m_def)
  have gap: "d \<le> \<bar>d * m - d * k\<bar>" if "k \<noteq> m"
  proof -
    have "\<bar>d * m - d * k\<bar> = d * \<bar>m - k\<bar>" using assms by (simp add: abs_mult flip: right_diff_distrib)
    moreover have "1 \<le> \<bar>m - k\<bar>" using that by linarith
    ultimately show ?thesis using assms by (metis mult.right_neutral mult_left_mono order_less_imp_le)
  qed
  show "\<bar>n - d * round_half_even n d\<bar> \<le> \<bar>n - d * k\<bar>"
    unfolding m_def [symmetric]
  proof (cases "k = m")
    case False
    have "\<bar>n - a\<bar> \<le> \<bar>n - b\<bar>" if "2 * \<bar>n - a\<bar> \<le> d" "d \<le> \<bar>a - b\<bar>" for a b
      using that by (simp add: abs_if split: if_splits)
    from this [OF near gap [OF False]] show "\<bar>n - d * m\<bar> \<le> \<bar>n - d * k\<bar>" .
  qed simp
  show "even (round_half_even n d)"
    if "\<bar>n - d * round_half_even n d\<bar> = \<bar>n - d * k\<bar>" "k \<noteq> round_half_even n d"
  proof -
    have "2 * \<bar>n - a\<bar> = d" if "2 * \<bar>n - a\<bar> \<le> d" "d \<le> \<bar>a - b\<bar>" "\<bar>n - a\<bar> = \<bar>n - b\<bar>" for a b
      using that by (simp add: abs_if split: if_splits; linarith)
    from this [OF near gap] have "2 * \<bar>n - d * m\<bar> = d" using that unfolding m_def by blast
    then show ?thesis using round_half_even_near(2) [OF assms] by (simp add: m_def)
  qed
qed

text \<open>The same over the reals, for a quotient \<open>x = n / d\<close>.\<close>

lemma round_half_even_real:
  assumes "0 < d" and x: "x = (of_int n / of_int d :: real)"
  shows "\<bar>x - of_int (round_half_even n d)\<bar> \<le> \<bar>x - of_int k\<bar>"
    and "\<bar>x - of_int (round_half_even n d)\<bar> = \<bar>x - of_int k\<bar> \<Longrightarrow> k \<noteq> round_half_even n d \<Longrightarrow>
         even (round_half_even n d)"
    and "\<bar>x - of_int (round_half_even n d)\<bar> \<le> 1 / 2"
    and "n mod d = 0 \<longleftrightarrow> x = of_int (round_half_even n d)"
proof -
  have pd: "(0::real) < of_int d" using assms by simp
  have diff: "of_int d * \<bar>x - of_int j\<bar> = of_int \<bar>n - d * j\<bar>" for j
  proof -
    have "of_int d * \<bar>x - of_int j\<bar> = \<bar>of_int d * (x - of_int j)\<bar>" using pd by (simp add: abs_mult)
    also have "of_int d * (x - of_int j) = of_int (n - d * j)" using pd by (simp add: x field_simps)
    finally show ?thesis by simp
  qed
  have cmp: "\<bar>x - of_int i\<bar> \<le> \<bar>x - of_int j\<bar> \<longleftrightarrow> \<bar>n - d * i\<bar> \<le> \<bar>n - d * j\<bar>" for i j
    using pd diff [of i] diff [of j] by (metis mult_le_cancel_left_pos of_int_le_iff)
  show "\<bar>x - of_int (round_half_even n d)\<bar> \<le> \<bar>x - of_int k\<bar>"
    using round_half_even_nearest(1) [OF assms(1)] by (simp only: cmp)
  show "even (round_half_even n d)"
    if "\<bar>x - of_int (round_half_even n d)\<bar> = \<bar>x - of_int k\<bar>" "k \<noteq> round_half_even n d"
  proof -
    have "\<bar>n - d * round_half_even n d\<bar> = \<bar>n - d * k\<bar>"
      using that(1) cmp [of "round_half_even n d" k] cmp [of k "round_half_even n d"] by linarith
    then show ?thesis using round_half_even_nearest(2) [OF assms(1) _ that(2)] by blast
  qed
  have "2 * of_int \<bar>n - d * round_half_even n d\<bar> \<le> (of_int d :: real)"
    using round_half_even_near(1) [OF assms(1), of n] by (metis of_int_le_iff of_int_mult of_int_numeral)
  then have "of_int d * \<bar>x - of_int (round_half_even n d)\<bar> \<le> of_int d * (1 / 2)"
    unfolding diff by simp
  then show "\<bar>x - of_int (round_half_even n d)\<bar> \<le> 1 / 2"
    using pd by (simp only: mult_le_cancel_left_pos)
  have "n mod d = 0 \<longleftrightarrow> n = d * round_half_even n d"
  proof
    assume "n mod d = 0"
    moreover from this have "round_half_even n d = n div d" using assms(1) by (simp add: round_half_even_def)
    ultimately show "n = d * round_half_even n d" by (metis add.right_neutral mult_div_mod_eq)
  next
    assume "n = d * round_half_even n d"
    then show "n mod d = 0" by (metis mod_mult_self1_is_0)
  qed
  also have "\<dots> \<longleftrightarrow> x = of_int (round_half_even n d)"
  proof -
    have "n = d * round_half_even n d \<longleftrightarrow> of_int \<bar>n - d * round_half_even n d\<bar> = (0::real)"
      by (simp only: of_int_eq_0_iff) simp
    also have "\<dots> \<longleftrightarrow> x = of_int (round_half_even n d)"
      unfolding diff [symmetric] using pd by auto
    finally show ?thesis .
  qed
  finally show "n mod d = 0 \<longleftrightarrow> x = of_int (round_half_even n d)" .
qed

text \<open>The scale \<open>roundToFloat\<close> picks: the quantum of the binade of \<open>num / den\<close>, never
  below the one of the subnormals.\<close>

definition round_quantum :: "int \<Rightarrow> int \<Rightarrow> FloatWidth \<Rightarrow> int" where
  "round_quantum num den w = max (log2_quotient num den) (1 - fbias w) - int (fbits w)"

definition round_significand :: "int \<Rightarrow> int \<Rightarrow> FloatWidth \<Rightarrow> int" where
  "round_significand num den w =
     (let q = round_quantum num den w in
      round_half_even (if q < 0 then push_bit (nat (- q)) num else num)
                      (if q > 0 then push_bit (nat q) den else den))"

lemma format_facts:
  "0 < fbits w" "1 \<le> fbias w" "topExponent w = 2 * fbias w + 1"
  by (cases w; simp add: topExponent_def push_bit_eq_mult)+

lemma roundToFloat_cases:
  "roundToFloat num den w =
     (let q = round_quantum num den w; m = round_significand num den w;
          exact = ((if q < 0 then push_bit (nat (- q)) num else num)
                   mod (if q > 0 then push_bit (nat q) den else den) = 0) in
      if m = 0 then Underflow
      else if m < 2 ^ fbits w then Rounded 0 m exact
      else if m = 2 * 2 ^ fbits w then
        (if q + int (fbits w) + fbias w + 1 \<ge> topExponent w then Overflow
         else Rounded (q + int (fbits w) + fbias w + 1) 0 exact)
      else if q + int (fbits w) + fbias w \<ge> topExponent w then Overflow
      else Rounded (q + int (fbits w) + fbias w) (m - 2 ^ fbits w) exact)"
proof -
  have "push_bit (fbits w) 1 = (2 ^ fbits w :: int)" "push_bit 1 (2 ^ fbits w) = (2 * 2 ^ fbits w :: int)"
    "drop_bit 1 (2 * 2 ^ fbits w) = (2 ^ fbits w :: int)"
    by (simp_all add: push_bit_eq_mult drop_bit_eq_div)
  then show ?thesis
    by (simp only: roundToFloat_def Let_def round_quantum_def [symmetric]
        round_half_even_def [symmetric] round_significand_def) simp
qed

definition ratio :: "int \<Rightarrow> int \<Rightarrow> real" where
  "ratio num den = of_int num / of_int den"

lemma ratio_pos: "0 < num \<Longrightarrow> 0 < den \<Longrightarrow> 0 < ratio num den"
  by (simp add: ratio_def)

lemma round_significand_near:
  fixes num den :: int and w :: FloatWidth
  assumes "0 < den"
  defines "u \<equiv> 2 powi (round_quantum num den w) :: real" and "m \<equiv> round_significand num den w"
  shows "\<bar>ratio num den - of_int m * u\<bar> \<le> \<bar>ratio num den - of_int k * u\<bar>"
    and "\<bar>ratio num den - of_int m * u\<bar> = \<bar>ratio num den - of_int k * u\<bar> \<Longrightarrow> k \<noteq> m \<Longrightarrow> even m"
    and "\<bar>ratio num den - of_int m * u\<bar> \<le> u / 2"
    and "(let q = round_quantum num den w in
          (if q < 0 then push_bit (nat (- q)) num else num) mod (if q > 0 then push_bit (nat q) den else den) = 0)
         \<longleftrightarrow> ratio num den = of_int m * u"
proof -
  let ?q = "round_quantum num den w"
  let ?n = "if ?q < 0 then push_bit (nat (- ?q)) num else num"
    and ?d = "if ?q > 0 then push_bit (nat ?q) den else den"
  have d: "0 < ?d" using assms(1) by (simp add: push_bit_eq_mult)
  have u: "0 < u" by (simp add: u_def)
  have m: "m = round_half_even ?n ?d" by (simp add: m_def round_significand_def Let_def)
  have x: "ratio num den / u = of_int ?n / of_int ?d"
    using shifted_quotient [OF assms(1), of ?q num] by (simp add: ratio_def u_def)
  note near = round_half_even_real [OF d x, folded m]
  have s: "\<bar>ratio num den - of_int j * u\<bar> = \<bar>ratio num den / u - of_int j\<bar> * u" for j
  proof -
    have "ratio num den - of_int j * u = (ratio num den / u - of_int j) * u"
      using u by (simp add: left_diff_distrib)
    then show ?thesis using u by (simp add: abs_mult)
  qed
  show "\<bar>ratio num den - of_int m * u\<bar> \<le> \<bar>ratio num den - of_int k * u\<bar>"
    unfolding s using near(1) u by (intro mult_right_mono) auto
  show "even m" if "\<bar>ratio num den - of_int m * u\<bar> = \<bar>ratio num den - of_int k * u\<bar>" "k \<noteq> m"
    using near(2) that u unfolding s by (metis less_irrefl mult_cancel_right)
  have "\<bar>ratio num den / u - of_int m\<bar> * u \<le> 1 / 2 * u"
    using near(3) u by (intro mult_right_mono) auto
  then show "\<bar>ratio num den - of_int m * u\<bar> \<le> u / 2" unfolding s by simp
  show "(let q = ?q in (if q < 0 then push_bit (nat (- q)) num else num)
          mod (if q > 0 then push_bit (nat q) den else den) = 0) \<longleftrightarrow> ratio num den = of_int m * u"
    unfolding Let_def near(4) using u by (simp add: field_simps)
qed

lemma round_quantum_cases:
  fixes num den :: int and w :: FloatWidth
  assumes "0 < num" "0 < den"
  defines "q \<equiv> round_quantum num den w"
  obtains "q = 1 - fbias w - int (fbits w)"
  | "1 - fbias w - int (fbits w) < q" "2 ^ fbits w * 2 powi q \<le> ratio num den"
proof (cases "log2_quotient num den \<le> 1 - fbias w")
  case True
  then show ?thesis using that(1) by (simp add: q_def round_quantum_def)
next
  case False
  then have e: "q + int (fbits w) = log2_quotient num den" by (simp add: q_def round_quantum_def)
  have "2 ^ fbits w * (2 powi q :: real) = 2 powi (q + int (fbits w))" by (simp add: power_int_add)
  then show ?thesis
    using log2_quotient_bounds(1) [OF assms(1,2)] False e by (intro that(2)) (simp_all add: ratio_def)
qed

lemma ratio_below:
  assumes "0 < num" "0 < den"
  shows "ratio num den < 2 * 2 ^ fbits w * 2 powi (round_quantum num den w)"
proof -
  have "ratio num den < 2 powi (log2_quotient num den + 1)"
    unfolding ratio_def by (rule log2_quotient_bounds [OF assms])
  also have "\<dots> \<le> 2 powi (round_quantum num den w + int (fbits w) + 1)"
    by (intro power_int_increasing) (auto simp: round_quantum_def)
  also have "\<dots> = 2 * 2 ^ fbits w * 2 powi (round_quantum num den w)" by (simp add: power_int_add)
  finally show ?thesis .
qed

lemma mult_less_cases:
  assumes "0 < (u::real)"
  shows "of_int k * u < of_int j * u \<longleftrightarrow> k < j"
  using assms by simp

lemma round_significand_bounds:
  fixes num den :: int and w :: FloatWidth
  assumes "0 < num" "0 < den"
  defines "m \<equiv> round_significand num den w"
  shows "0 \<le> m" and "m \<le> 2 * 2 ^ fbits w"
    and "2 ^ fbits w * 2 powi (round_quantum num den w) \<le> ratio num den \<Longrightarrow> 2 ^ fbits w \<le> m"
proof -
  let ?u = "2 powi (round_quantum num den w) :: real"
  note near = round_significand_near(1) [OF assms(2), of num w, folded m_def]
  have less: "of_int k * ?u < of_int j * ?u \<longleftrightarrow> k < j" for k j
    by (rule mult_less_cases) simp
  show "0 \<le> m"
  proof (rule ccontr)
    assume "\<not> 0 \<le> m"
    then have "of_int m * ?u < 0" using less [of m 0] by simp
    then show False using near [of 0] ratio_pos [OF assms(1,2)] by simp
  qed
  show "m \<le> 2 * 2 ^ fbits w"
  proof (rule ccontr)
    assume "\<not> ?thesis"
    then have "of_int (2 * 2 ^ fbits w) * ?u < of_int m * ?u" by (simp only: less not_le)
    moreover have "ratio num den < of_int (2 * 2 ^ fbits w) * ?u"
      using ratio_below [OF assms(1,2), of w] by simp
    ultimately show False using near [of "2 * 2 ^ fbits w"] by linarith
  qed
  show "2 ^ fbits w \<le> m" if x: "2 ^ fbits w * ?u \<le> ratio num den"
  proof (rule ccontr)
    assume "\<not> ?thesis"
    then have "of_int m * ?u < of_int (2 ^ fbits w) * ?u" by (simp only: less not_le)
    moreover have "of_int (2 ^ fbits w) * ?u \<le> ratio num den" using x by simp
    ultimately show False using near [of "2 ^ fbits w"] by linarith
  qed
qed
lemma roundToFloat_value:
  assumes "0 < num" "0 < den" and r: "roundToFloat num den w = Rounded ex fr exact"
  shows "finite_fields ex fr w"
    and "float_real ex fr w = of_int (round_significand num den w) * 2 powi (round_quantum num den w)"
    and "exact \<longleftrightarrow> ratio num den = float_real ex fr w"
    and "even (round_significand num den w) \<Longrightarrow> even fr"
proof -
  let ?m = "round_significand num den w" and ?q = "round_quantum num den w"
  note b = round_significand_bounds [OF assms(1,2), of w]
  have qmin: "1 - fbias w - int (fbits w) \<le> ?q" by (simp add: round_quantum_def)
  have low: "?q = 1 - fbias w - int (fbits w)" if "?m < 2 ^ fbits w"
    using b(3) that by (cases rule: round_quantum_cases [OF assms(1,2), of w]) auto
  note f = format_facts [of w]
  have even2: "even (2 ^ fbits w :: int)" using f(1) by simp
  from r have c: "?m \<noteq> 0"
    "?m < 2 ^ fbits w \<Longrightarrow> ex = 0 \<and> fr = ?m"
    "?m = 2 * 2 ^ fbits w \<Longrightarrow> ex = ?q + int (fbits w) + fbias w + 1 \<and> fr = 0 \<and> ex < topExponent w"
    "\<not> ?m < 2 ^ fbits w \<Longrightarrow> ?m \<noteq> 2 * 2 ^ fbits w \<Longrightarrow>
       ex = ?q + int (fbits w) + fbias w \<and> fr = ?m - 2 ^ fbits w \<and> ex < topExponent w"
    and e: "exact = (let q = ?q in (if q < 0 then push_bit (nat (- q)) num else num)
                       mod (if q > 0 then push_bit (nat q) den else den) = 0)"
    by (auto simp: roundToFloat_cases Let_def split: if_splits)
  consider (sub) "?m < 2 ^ fbits w" | (carry) "?m = 2 * 2 ^ fbits w"
    | (normal) "2 ^ fbits w \<le> ?m" "?m < 2 * 2 ^ fbits w" using b(2) by linarith
  then have v: "finite_fields ex fr w \<and> float_real ex fr w = of_int ?m * 2 powi ?q \<and> (even ?m \<longrightarrow> even fr)"
  proof cases
    case sub
    then show ?thesis
      using c(2) low b(1) f by (simp add: finite_fields_def float_real_def significand_def quantum_def)
  next
    case carry
    then show ?thesis
      using c(3) qmin f by (simp add: finite_fields_def float_real_def significand_def quantum_def power_int_add)
  next
    case normal
    then show ?thesis
      using c(4) qmin f even2 by (simp add: finite_fields_def float_real_def significand_def quantum_def)
  qed
  then show "finite_fields ex fr w" "float_real ex fr w = of_int ?m * 2 powi ?q" "even ?m \<Longrightarrow> even fr"
    by auto
  show "exact \<longleftrightarrow> ratio num den = float_real ex fr w"
    unfolding e round_significand_near(4) [OF assms(2)] using v by simp
qed

text \<open>Every finite float is a multiple of the chosen quantum, or lies below the binade
  of the value being rounded.\<close>

lemma float_on_grid:
  assumes "finite_fields ex fr w" "quantum ex w \<ge> q"
  shows "float_real ex fr w = of_int (significand ex fr w * 2 ^ nat (quantum ex w - q)) * 2 powi q"
proof -
  have "(2 powi (quantum ex w) :: real) = 2 powi (int (nat (quantum ex w - q)) + q)"
    using assms(2) by simp
  also have "\<dots> = 2 ^ nat (quantum ex w - q) * 2 powi q"
    by (simp only: power_int_add [OF disjI1, of "2::real"] power_int_of_nat)
  finally show ?thesis by (simp add: float_real_def)
qed

lemma float_below_grid:
  assumes "finite_fields ex fr w" "quantum ex w < q"
  shows "float_real ex fr w < 2 ^ fbits w * 2 powi q"
proof -
  have "significand ex fr w < 2 * 2 ^ fbits w"
    using assms(1) by (auto simp: finite_fields_def significand_def)
  then have "(of_int (significand ex fr w) :: real) < of_int (2 * 2 ^ fbits w)"
    by (simp only: of_int_less_iff)
  then have "float_real ex fr w < 2 * 2 ^ fbits w * 2 powi (quantum ex w)"
    unfolding float_real_def by (intro mult_strict_right_mono) auto
  also have "\<dots> = 2 ^ fbits w * 2 powi (quantum ex w + 1)" by (simp add: power_int_add)
  also have "\<dots> \<le> 2 ^ fbits w * 2 powi q"
    using assms(2) by (intro mult_left_mono power_int_increasing) auto
  finally show ?thesis .
qed

text \<open>The result of \<open>roundToFloat\<close> is a nearest float, and on a tie its last fraction
  bit is 0.\<close>

lemma roundToFloat_nearest:
  assumes "0 < num" "0 < den" and r: "roundToFloat num den w = Rounded ex fr exact"
    and f: "finite_fields ex' fr' w"
  shows "\<bar>ratio num den - float_real ex fr w\<bar> \<le> \<bar>ratio num den - float_real ex' fr' w\<bar>"
    and "\<bar>ratio num den - float_real ex fr w\<bar> = \<bar>ratio num den - float_real ex' fr' w\<bar> \<Longrightarrow>
         float_real ex' fr' w \<noteq> float_real ex fr w \<Longrightarrow> even fr"
proof -
  let ?q = "round_quantum num den w" and ?m = "round_significand num den w" and ?x = "ratio num den"
  note v = roundToFloat_value [OF assms(1-3)]
  note near = round_significand_near(1,2) [OF assms(2), of num w]
  have fine: "\<bar>?x - float_real ex fr w\<bar> < \<bar>?x - float_real ex' fr' w\<bar>" if "quantum ex' w < ?q"
  proof -
    have "?q \<noteq> 1 - fbias w - int (fbits w)" using that by (simp add: quantum_def)
    then have x: "2 ^ fbits w * 2 powi ?q \<le> ?x"
      by (cases rule: round_quantum_cases [OF assms(1,2), of w]) auto
    have "\<bar>?x - float_real ex fr w\<bar> \<le> \<bar>?x - 2 ^ fbits w * 2 powi ?q\<bar>"
      using near(1) [of "2 ^ fbits w"] by (simp add: v(2))
    then show ?thesis using x float_below_grid [OF f that] by linarith
  qed
  note grid = float_on_grid [OF f, of ?q]
  show "\<bar>?x - float_real ex fr w\<bar> \<le> \<bar>?x - float_real ex' fr' w\<bar>"
  proof (cases "quantum ex' w < ?q")
    case False
    then show ?thesis using near(1) grid by (simp only: v(2) not_less)
  qed (use fine in simp)
  show "even fr" if t: "\<bar>?x - float_real ex fr w\<bar> = \<bar>?x - float_real ex' fr' w\<bar>"
    and ne: "float_real ex' fr' w \<noteq> float_real ex fr w"
  proof -
    have "?q \<le> quantum ex' w" using fine t by linarith
    note g = grid [OF this]
    from t have "even ?m" unfolding v(2) g
      by (rule near(2)) (use ne in \<open>auto simp only: g v(2)\<close>)
    then show ?thesis by (rule v(4))
  qed
qed

lemma roundToFloat_Underflow:
  assumes "0 < num" "0 < den" and r: "roundToFloat num den w = Underflow"
  shows "ratio num den \<le> float_real 0 1 w / 2"
proof -
  let ?q = "round_quantum num den w"
  from r have m: "round_significand num den w = 0"
    by (auto simp: roundToFloat_cases Let_def split: if_splits)
  have q: "?q = 1 - fbias w - int (fbits w)"
    using round_significand_bounds(3) [OF assms(1,2), of w] m
    by (cases rule: round_quantum_cases [OF assms(1,2), of w]) auto
  have "\<bar>ratio num den\<bar> \<le> 2 powi ?q / 2"
    using round_significand_near(3) [OF assms(2), of num w] m by simp
  then show ?thesis by (simp add: float_real_def significand_def quantum_def q)
qed

lemma roundToFloat_Overflow:
  assumes "0 < num" "0 < den" and r: "roundToFloat num den w = Overflow"
  shows "float_real (topExponent w - 1) (2 ^ fbits w - 1) w + 2 powi (quantum (topExponent w - 1) w) / 2
       \<le> ratio num den"
proof -
  let ?q = "round_quantum num den w" and ?m = "round_significand num den w" and ?x = "ratio num den"
  let ?t = "topExponent w - 1 - fbias w - int (fbits w)"
  note f = format_facts [of w]
  have t: "quantum (topExponent w - 1) w = ?t" using f by (simp add: quantum_def)
  have big: "float_real (topExponent w - 1) (2 ^ fbits w - 1) w + 2 powi ?t / 2
      = 2 * 2 ^ fbits w * 2 powi ?t - 2 powi ?t / 2"
    using f unfolding float_real_def t by (simp add: significand_def left_diff_distrib)
  from r have c: "2 ^ fbits w \<le> ?m" "?m \<noteq> 2 * 2 ^ fbits w \<Longrightarrow> ?t < ?q" "?t \<le> ?q"
    by (auto simp: roundToFloat_cases Let_def split: if_splits)
  show ?thesis
  proof (cases "?t < ?q")
    case True
    have "?q \<noteq> 1 - fbias w - int (fbits w)" using True f by linarith
    then have x: "2 ^ fbits w * 2 powi ?q \<le> ?x"
      by (cases rule: round_quantum_cases [OF assms(1,2), of w]) auto
    define y :: real where "y = 2 powi ?t"
    have "(2 powi (?t + 1) :: real) = y * 2"
      unfolding y_def by (subst power_int_add) (simp_all only: power_int_1_right, simp_all)
    then have "2 ^ fbits w * (y * 2) \<le> 2 ^ fbits w * 2 powi ?q"
      using True power_int_increasing [of "?t + 1" ?q "2::real"] by (intro mult_left_mono) auto
    also note x
    finally have "2 ^ fbits w * (y * 2) \<le> ?x" .
    moreover have "0 < y" by (simp add: y_def)
    ultimately have "2 * 2 ^ fbits w * y - y / 2 \<le> ?x" by (simp add: mult_ac)
    then show ?thesis unfolding t big y_def .
  next
    case False
    then have q: "?q = ?t" and m: "?m = 2 * 2 ^ fbits w" using c by auto
    have "\<bar>?x - 2 * 2 ^ fbits w * 2 powi ?t\<bar> \<le> 2 powi ?t / 2"
      using round_significand_near(3) [OF assms(2), of num w] unfolding q m by simp
    then show ?thesis unfolding t big by linarith
  qed
qed

subsection \<open>The exact decimal\<close>

text \<open>The number a decimal text without exponent denotes.\<close>

definition decimal_value :: "jstring \<Rightarrow> real" where
  "decimal_value s =
     (case js_split (CHR ''.'') s of
        [whole] \<Rightarrow> real (of_digits 10 whole)
      | whole # part # _ \<Rightarrow> real (of_digits 10 whole) + real (of_digits 10 part) / 10 ^ length part
      | [] \<Rightarrow> 0)"

lemma no_point_in_digits: "list_all (is_digit_in 10) s \<Longrightarrow> CHR ''.'' \<notin> set s"
  by (auto simp: list_all_iff is_digit_in_def digit_val_def code_def)

lemma drop_trailing_zeros_eq:
  obtains k where "s = drop_trailing_zeros s @ replicate k (CHR ''0'')"
proof -
  let ?z = "takeWhile (\<lambda>c. c = CHR ''0'') (rev s)"
  have z: "?z = replicate (length ?z) (CHR ''0'')"
    by (rule replicate_length_same [symmetric]) (auto dest: set_takeWhileD)
  have "rev s = ?z @ dropWhile (\<lambda>c. c = CHR ''0'') (rev s)" by simp
  then have "s = drop_trailing_zeros s @ rev ?z"
    unfolding drop_trailing_zeros_def by (metis rev_append rev_rev_ident)
  then show ?thesis using that z by (metis rev_replicate)
qed

lemma js_index_0 [simp]: "js_index n 0 = 0"
  by (simp add: js_index_def)

lemma exactDecimal_denotes:
  assumes "0 \<le> m"
  shows "decimal_value (exactDecimal m q) = of_int m * 2 powi q"
proof (cases "q \<ge> 0")
  case True
  let ?v = "push_bit (nat q) m"
  have s: "exactDecimal m q = nat_to_string 10 (nat ?v)"
    using True assms by (simp add: exactDecimal_def to_string_nonneg)
  have "CHR ''.'' \<notin> set (nat_to_string 10 (nat ?v))"
    by (rule no_point_in_digits) (rule dec.digits_are_digits)
  then have "decimal_value (exactDecimal m q) = real (nat ?v)"
    by (simp add: s decimal_value_def js_split_no_sep dec.of_digits_to_string)
  then show ?thesis using True assms by (simp add: push_bit_eq_mult power_int_def)
next
  case False
  define p where "p = nat (- q)"
  define ds where "ds = padStart (p + 1) (CHR ''0'') (to_string 10 (m * 5 ^ p))"
  define whole where "whole = take (length ds - p) ds"
  define frac0 where "frac0 = drop (length ds - p) ds"
  define fp where "fp = drop_trailing_zeros frac0"
  have p: "0 < p" "q = - int p" using False by (auto simp: p_def)
  have len: "p < length ds" by (simp add: ds_def)
  have i: "js_index (length ds) (- int p) = length ds - p"
    using p(1) len by (simp add: js_index_def)
  have ex: "exactDecimal m q = (if fp \<noteq> [] then whole @ ''.'' @ fp else whole)"
    using False
    by (simp only: exactDecimal_def Let_def p_def [symmetric] ds_def [symmetric] js_sub_def js_from_def
        i js_index_0 js_slice_def drop_0 diff_zero fp_def frac0_def whole_def if_False)
  have dsd: "list_all (is_digit_in 10) ds"
    using dec.digits_only_padded [of "p + 1" "nat (m * 5 ^ p)"] assms
    by (simp add: ds_def to_string_nonneg digits_only_def)
  have parts: "ds = whole @ frac0" "length frac0 = p"
    using len by (auto simp: whole_def frac0_def)
  obtain k where k: "frac0 = fp @ replicate k (CHR ''0'')"
    using drop_trailing_zeros_eq [of frac0] by (auto simp: fp_def)
  have digs: "list_all (is_digit_in 10) whole" "list_all (is_digit_in 10) fp"
    using dsd by (auto simp: parts k)
  have "of_digits 10 ds = nat (m * 5 ^ p)"
    using assms by (simp add: ds_def to_string_nonneg dec.of_digits_to_string)
  then have v: "of_digits 10 whole * 10 ^ p + of_digits 10 fp * 10 ^ k = nat (m * 5 ^ p)"
    using parts(2) of_digits_zeros [of 10 k "[]"] by (simp add: parts(1) of_digits_append k)
  have pk: "p = length fp + k" using parts(2) k by simp
  have "decimal_value (exactDecimal m q) =
      real (of_digits 10 whole) + real (of_digits 10 fp) / 10 ^ length fp"
    using no_point_in_digits [OF digs(1)] no_point_in_digits [OF digs(2)]
    by (auto simp: ex decimal_value_def js_split_no_sep js_split_append)
  also have "\<dots> = real (of_digits 10 whole * 10 ^ p + of_digits 10 fp * 10 ^ k) / 10 ^ p"
    by (simp add: pk power_add field_simps)
  also have "\<dots> = of_int m * 5 ^ p / 10 ^ p" unfolding v using assms by simp
  also have "(10::real) ^ p = 5 ^ p * 2 ^ p" by (simp flip: power_mult_distrib)
  finally show ?thesis by (simp add: p(2) power_int_minus field_simps)
qed
lemma or_hidden:
  assumes "0 \<le> f" "f < 2 ^ n"
  shows "f OR 2 ^ n = f + (2 ^ n :: int)"
proof -
  have "f = take_bit n f" using assms by (simp add: take_bit_int_eq_self)
  then have "f OR 2 ^ n = concat_bit n f 1" by (simp add: concat_bit_def)
  also have "\<dots> = f + 2 ^ n" using assms by (simp add: concat_bit_eq push_bit_eq_mult take_bit_int_eq_self)
  finally show ?thesis .
qed

lemma classify_finite:
  assumes "valid_pattern bits w" "classify bits w \<in> {Zero, Subnormal, Normal}"
  shows "finite_fields (exponent (splitFloat bits w)) (fraction (splitFloat bits w)) w"
proof -
  have "exponent (splitFloat bits w) < topExponent w"
    using assms(2) format_facts(2,3) [of w] by (auto simp: classify_def Let_def split: if_splits)
  then show ?thesis using split_valid [OF assms(1)] by (simp add: finite_fields_def valid_fields_def)
qed

lemma exactValue_denotes_lemma:
  assumes "valid_pattern bits w" "classify bits w \<in> {Zero, Subnormal, Normal}"
  defines "f \<equiv> splitFloat bits w"
  shows "\<exists>t. exactValue bits w = (if sign f = 1 then CHR ''-'' # t else t) \<and>
             decimal_value t = float_real (exponent f) (fraction f) w"
proof -
  have v: "valid_fields f w" using split_valid [OF assms(1)] by (simp add: f_def)
  let ?m = "significand (exponent f) (fraction f) w"
  have m: "(if exponent f = 0 then fraction f else fraction f OR push_bit (fbits w) 1) = ?m"
    using v by (simp add: significand_def or_hidden valid_fields_def)
  have k: "\<not> (classify bits w = Infinity \<or> isNaNClass (classify bits w))"
    using assms(2) by (auto simp: isNaNClass_def)
  have s: "sign f \<noteq> 0 \<longleftrightarrow> sign f = 1" using v by (auto simp: valid_fields_def)
  have e: "exactValue bits w = (if sign f = 1 then ''-'' else []) @ exactDecimal ?m (quantum (exponent f) w)"
    unfolding exactValue_def Let_def f_def [symmetric] m s quantum_def using k by (simp only: if_False)
  have "decimal_value (exactDecimal ?m (quantum (exponent f) w)) = float_real (exponent f) (fraction f) w"
    using v by (simp add: exactDecimal_denotes float_real_def significand_def valid_fields_def)
  then show ?thesis using e by auto
qed

subsection \<open>Editing one field\<close>

lemma trim_digits: "digits_only 10 s \<Longrightarrow> js_trim s = s" "digits_only 16 s \<Longrightarrow> js_trim s = s"
  by (auto intro: padded_no_ws)

lemma topExponent_eq: "topExponent w = 2 ^ ebits w - 1"
  by (simp add: topExponent_def push_bit_eq_mult)

lemma show_int_nonneg: "0 \<le> i \<Longrightarrow> show_int i = nat_to_string 10 (nat i)"
  by (simp add: show_int_def to_string_nonneg)

lemma take_sign_digits: "digits_only 10 s \<Longrightarrow> take_sign s = ([], s)"
  by (auto simp: take_sign_def digits_only_def is_digit_in_def digit_val_def code_def split: list.splits)

lemma signed_number_to_string: "signed_number (to_string 10 v) = Some v"
proof (cases "v < 0")
  case True
  then show ?thesis
    by (simp add: signed_number_def to_string_def take_sign_def dec.digits_only_to_string
        dec.of_digits_to_string)
next
  case False
  then show ?thesis
    by (simp add: signed_number_def to_string_def take_sign_digits dec.digits_only_to_string
        dec.of_digits_to_string)
qed

lemma sign_update_id: "sign f = s \<Longrightarrow> f\<lparr>sign := s\<rparr> = (f :: FloatFields)"
  by auto

lemma parse_formatFloatField:
  assumes "valid_pattern bits w" "field \<noteq> FValue"
  shows "parseFloatField field (formatFloatField field bits w) bits w = Plain (POk bits)"
proof -
  let ?f = "splitFloat bits w"
  note v = split_valid [OF assms(1), unfolded valid_fields_def] and j = join_split [OF assms(1)]
  show ?thesis
  proof (cases field)
    case FSign
    have "show_int (0::int) = ''0''" "show_int (1::int) = ''1''"
      by (simp_all add: show_int_def to_string_def nat_to_string.simps digit_char_01)
    moreover have "js_trim ''0'' = ''0''" "js_trim ''1'' = ''1''"
      by (simp_all add: js_trim_def is_ws_def code_def)
    ultimately show ?thesis
      using v j by (auto simp: FSign parseFloatField_def Let_def sign_update_id)
  next
    case FExponent
    have d: "digits_only 10 (show_int (exponent ?f))"
      and o: "int (of_digits 10 (show_int (exponent ?f))) = exponent ?f"
      using v by (simp_all add: show_int_nonneg dec.digits_only_to_string dec.of_digits_to_string)
    have "?f\<lparr>exponent := exponent ?f\<rparr> = ?f" by simp
    then show ?thesis
      using v j d o
      by (simp add: FExponent parseFloatField_def trim_digits digits_only_nonempty topExponent_eq Let_def)
  next
    case FUnbiased
    have "?f\<lparr>exponent := exponent ?f\<rparr> = ?f" by simp
    then show ?thesis
      using v j
      by (simp add: FUnbiased parseFloatField_def show_int_def signed_number_to_string topExponent_eq Let_def)
  next
    case FFraction
    let ?s = "formatFloatField FFraction bits w"
    have d: "digits_only 16 ?s" and o: "int (of_digits 16 ?s) = fraction ?f"
      using v by (simp_all add: to_string_nonneg hex.digits_only_padded hex.of_digits_to_string)
    have "?f\<lparr>fraction := fraction ?f\<rparr> = ?f" by simp
    then show ?thesis
      using v j d o digits_only_strip [OF d not_hex_x]
      by (simp add: FFraction parseFloatField_def trim_digits digits_only_nonempty push_bit_eq_mult Let_def
          del: formatFloatField.simps)
  next
    case FValue
    then show ?thesis using assms(2) by simp
  qed
qed

text \<open>An accepted edit changes its own field and leaves the others.\<close>

fun same_others :: "FloatField \<Rightarrow> FloatFields \<Rightarrow> FloatFields \<Rightarrow> bool" where
  "same_others FSign f g \<longleftrightarrow> exponent f = exponent g \<and> fraction f = fraction g"
| "same_others FExponent f g \<longleftrightarrow> sign f = sign g \<and> fraction f = fraction g"
| "same_others FUnbiased f g \<longleftrightarrow> sign f = sign g \<and> fraction f = fraction g"
| "same_others FFraction f g \<longleftrightarrow> sign f = sign g \<and> exponent f = exponent g"
| "same_others FValue f g \<longleftrightarrow> True"

lemma pow_pred_less: "2 ^ k - 1 < int n \<longleftrightarrow> \<not> n < 2 ^ k"
proof -
  have "int n < 2 ^ k \<longleftrightarrow> n < 2 ^ k" by simp
  then show ?thesis by linarith
qed

lemma parseFloatField_accepts:
  assumes "valid_pattern bits w" "field \<noteq> FValue"
    and "parseFloatField field text bits w = Plain (POk bits')"
  shows "\<exists>g. valid_fields g w \<and> bits' = joinFloat g w \<and> same_others field (splitFloat bits w) g"
proof -
  let ?f = "splitFloat bits w"
  note v = split_valid [OF assms(1)]
  show ?thesis
  proof (cases field)
    case FSign
    then show ?thesis using assms(3) v
      by (intro exI [of _ "?f\<lparr>sign := (if js_trim text = ''1'' then 1 else 0)\<rparr>"])
        (auto simp: parseFloatField_def Let_def valid_fields_def split: if_splits)
  next
    case FExponent
    then show ?thesis using assms(3) v
      by (intro exI [of _ "?f\<lparr>exponent := int (of_digits 10 (js_trim text))\<rparr>"])
        (auto simp: parseFloatField_def Let_def topExponent_eq valid_fields_def pow_pred_less split: if_splits)
  next
    case FUnbiased
    then show ?thesis using assms(3) v
      by (intro exI [of _ "?f\<lparr>exponent := the (signed_number (js_trim text)) + fbias w\<rparr>"])
        (auto simp: parseFloatField_def Let_def topExponent_eq valid_fields_def
          split: if_splits option.splits)
  next
    case FFraction
    then show ?thesis using assms(3) v
      by (intro exI [of _ "?f\<lparr>fraction :=
            int (of_digits 16 (strip_prefix (CHR ''x'') (CHR ''X'') (js_trim text)))\<rparr>"])
        (auto simp: parseFloatField_def Let_def push_bit_eq_mult valid_fields_def pow_pred_less
          split: if_splits)
  next
    case FValue
    then show ?thesis using assms(2) by simp
  qed
qed

subsection \<open>Properties\<close>

text \<open>C2: a positive fraction that \<open>roundToFloat\<close> accepts is stored as a finite float of
  the format; no finite float of the format is closer to the fraction; where another
  float is equally close the stored fraction field is even; and the flag \<open>exact\<close> is
  set exactly when nothing was rounded away.\<close>

theorem roundToFloat_nearest_even:
  assumes "0 < num" "0 < den" "roundToFloat num den w = Rounded ex fr exact"
    and "finite_fields ex' fr' w"
  shows "finite_fields ex fr w \<and>
    \<bar>ratio num den - float_real ex fr w\<bar> \<le> \<bar>ratio num den - float_real ex' fr' w\<bar> \<and>
    (\<bar>ratio num den - float_real ex fr w\<bar> \<noteq> \<bar>ratio num den - float_real ex' fr' w\<bar> \<or>
     float_real ex' fr' w = float_real ex fr w \<or> even fr) \<and>
    exact = (ratio num den = float_real ex fr w)"
  using roundToFloat_value [OF assms(1-3)] roundToFloat_nearest [OF assms] by blast

theorem roundToFloat_nearest_even_witness:
  "roundToFloat 1 10 F32 = Rounded 123 5033165 False \<and>
   \<bar>ratio 1 10 - float_real 123 5033165 F32\<bar> \<le> \<bar>ratio 1 10 - float_real 123 5033164 F32\<bar>"
proof -
  have r: "roundToFloat 1 10 F32 = Rounded 123 5033165 False" by code_simp
  have f: "finite_fields 123 5033164 F32" by code_simp
  show ?thesis using roundToFloat_nearest_even [OF _ _ r f] r by simp
qed

text \<open>\<open>roundToFloat\<close> refuses a fraction only at the ends of the format.  It answers
  underflow only for a value no larger than half the smallest subnormal, and overflow
  only for a value at least half a unit in the last place above the largest finite
  float.\<close>

theorem roundToFloat_refusals:
  assumes "0 < num" "0 < den"
  shows "(roundToFloat num den w = Underflow \<longrightarrow> ratio num den \<le> float_real 0 1 w / 2) \<and>
    (roundToFloat num den w = Overflow \<longrightarrow>
       float_real (topExponent w - 1) (2 ^ fbits w - 1) w + 2 powi (quantum (topExponent w - 1) w) / 2
       \<le> ratio num den)"
  using roundToFloat_Underflow [OF assms] roundToFloat_Overflow [OF assms] by blast

theorem roundToFloat_refusals_witness:
  "roundToFloat 1 (10 ^ 46) F32 = Underflow \<and> ratio 1 (10 ^ 46) \<le> float_real 0 1 F32 / 2"
proof -
  have l: "length (to_string 2 (10 ^ 46)) = 153" "length (to_string 2 1) = 1"
    by (simp_all add: to_string_def nat_to_string.simps)
  have e: "log2_quotient 1 (10 ^ 46) = -153"
    using l by (simp add: log2_quotient_def Let_def push_bit_eq_mult)
  have q: "round_quantum 1 (10 ^ 46) F32 = -149" using e by (simp add: round_quantum_def)
  have m: "round_significand 1 (10 ^ 46) F32 = 0"
    using q by (simp add: round_significand_def Let_def push_bit_eq_mult round_half_even_def)
  have r: "roundToFloat 1 (10 ^ 46) F32 = Underflow" using q m by (simp add: roundToFloat_cases)
  show ?thesis using roundToFloat_refusals [of 1 "10 ^ 46" F32] r by simp
qed

text \<open>Splitting a pattern of the format's width into sign, exponent and fraction and
  joining them gives the pattern back, with each field within its width.\<close>

theorem joinFloat_splitFloat:
  assumes "valid_pattern bits w"
  shows "joinFloat (splitFloat bits w) w = bits \<and> valid_fields (splitFloat bits w) w"
  using join_split [OF assms] split_valid [OF assms] by simp

theorem joinFloat_splitFloat_witness:
  "joinFloat (splitFloat 0xC0490FDB F32) F32 = 0xC0490FDB"
proof -
  have "valid_pattern 0xC0490FDB F32" by code_simp
  from joinFloat_splitFloat [OF this] show ?thesis by simp
qed

text \<open>Joining fields within their widths and splitting the result gives the fields
  back.\<close>

theorem splitFloat_joinFloat:
  assumes "valid_fields f w"
  shows "splitFloat (joinFloat f w) w = f \<and> valid_pattern (joinFloat f w) w"
  using split_join [OF assms] join_valid [OF assms] by simp

theorem splitFloat_joinFloat_witness:
  "splitFloat (joinFloat \<lparr>sign = 1, exponent = 1023, fraction = 7\<rparr> F64) F64
     = \<lparr>sign = 1, exponent = 1023, fraction = 7\<rparr>"
proof -
  have "valid_fields \<lparr>sign = 1, exponent = 1023, fraction = 7\<rparr> F64" by code_simp
  from splitFloat_joinFloat [OF this] show ?thesis by simp
qed

text \<open>For every finite pattern the text of \<open>exactValue\<close> is the stored number exactly,
  with a minus sign exactly when the sign bit is set: no digit is rounded.\<close>

theorem exactValue_is_exact:
  assumes "valid_pattern bits w" "classify bits w \<in> {Zero, Subnormal, Normal}"
  shows "\<exists>t. exactValue bits w = (if sign (splitFloat bits w) = 1 then CHR ''-'' # t else t) \<and>
    decimal_value t = float_real (exponent (splitFloat bits w)) (fraction (splitFloat bits w)) w"
  by (rule exactValue_denotes_lemma [OF assms])

theorem exactValue_is_exact_witness:
  "\<exists>t. exactValue 0xBDCCCCCD F32 = CHR ''-'' # t \<and> decimal_value t = float_real 123 5033165 F32"
proof -
  have p: "valid_pattern 0xBDCCCCCD F32" by code_simp
  have c: "classify 0xBDCCCCCD F32 = Normal" by code_simp
  have s: "splitFloat 0xBDCCCCCD F32 = \<lparr>sign = 1, exponent = 123, fraction = 5033165\<rparr>" by code_simp
  show ?thesis using exactValue_is_exact [OF p] c s by simp
qed

text \<open>The text shown for the sign, the raw exponent, the unbiased exponent or the
  fraction reads back, in that same field, as the unchanged pattern.\<close>

theorem float_field_round_trip:
  assumes "valid_pattern bits w" "field \<noteq> FValue"
  shows "parseFloatField field (formatFloatField field bits w) bits w = Plain (POk bits)"
  by (rule parse_formatFloatField [OF assms])

theorem float_field_round_trip_witness:
  "parseFloatField FFraction (formatFloatField FFraction 0x3DCCCCCD F32) 0x3DCCCCCD F32
     = Plain (POk 0x3DCCCCCD)"
proof -
  have "valid_pattern 0x3DCCCCCD F32" by code_simp
  from float_field_round_trip [OF this, of FFraction] show ?thesis by simp
qed

text \<open>An accepted edit of one field gives a pattern of the width in which every other
  field keeps its value.\<close>

theorem float_field_edit_is_local:
  assumes "valid_pattern bits w" "field \<noteq> FValue"
    and "parseFloatField field text bits w = Plain (POk bits')"
  shows "valid_pattern bits' w \<and> same_others field (splitFloat bits w) (splitFloat bits' w)"
  using parseFloatField_accepts [OF assms] by (auto simp: split_join join_valid)

theorem float_field_edit_is_local_witness:
  "same_others FExponent (splitFloat 0x3DCCCCCD F32) (splitFloat 0x7FCCCCCD F32)"
proof -
  have p: "valid_pattern 0x3DCCCCCD F32" by code_simp
  have e: "parseFloatField FExponent ''255'' 0x3DCCCCCD F32 = Plain (POk 0x7FCCCCCD)" by code_simp
  show ?thesis using float_field_edit_is_local [OF p _ e] by simp
qed

end
