(* ===== verification/FlagMath.thy ===== *)
theory FlagMath
  imports Ieee754
begin

unbundle bit_operations_syntax

text \<open>
  The NZCV flags of \<open>web/lib/emulator/flag-math.ts\<close>: the integer flag setters at 32
  and 64 bits, the float compare, and the two operand readers.  BigInt operands are
  \<open>int\<close>; a Number operand of the float compare is its double bit pattern, so that
  NaN, the infinities and the two zeros are all there.  The lemmas say that after a
  compare the flags decide the unsigned, the signed and the float order.
\<close>

record Flags =
  fl_n :: bool
  fl_z :: bool
  fl_c :: bool
  fl_v :: bool

datatype IntOp = OpSub | OpAdd | OpAnd

datatype RegBits = R32 | R64

fun regWidth :: "RegBits \<Rightarrow> Width" where
  "regWidth R32 = W32"
| "regWidth R64 = W64"

definition signOf :: "int \<Rightarrow> int \<Rightarrow> bool" where
  "signOf top_bit value \<longleftrightarrow> value AND top_bit \<noteq> 0"

definition computeIntFlags :: "IntOp \<Rightarrow> int \<Rightarrow> int \<Rightarrow> RegBits \<Rightarrow> int \<times> Flags" where
  "computeIntFlags op aIn bIn bits =
     (let width = wbits (regWidth bits);
          mask = push_bit width 1 - 1;
          top_bit = push_bit (width - 1) 1;
          a = aIn AND mask;
          b = bIn AND mask;
          (result, c, v) =
            (case op of
               OpSub \<Rightarrow>
                 let result = (a - b) AND mask in
                 (result, a \<ge> b,
                  signOf top_bit a \<noteq> signOf top_bit b \<and> signOf top_bit result \<noteq> signOf top_bit a)
             | OpAdd \<Rightarrow>
                 let wide = a + b; result = wide AND mask in
                 (result, wide > mask,
                  signOf top_bit a = signOf top_bit b \<and> signOf top_bit result \<noteq> signOf top_bit a)
             | OpAnd \<Rightarrow> (a AND b, False, False))
      in (result, \<lparr>fl_n = signOf top_bit result, fl_z = (result = 0), fl_c = c, fl_v = v\<rparr>))"

subsection \<open>The float compare\<close>

text \<open>\<open>a < b\<close> and \<open>a === b\<close> on Numbers that are not NaN: sign and magnitude, with both
  zeros equal.\<close>

definition double_key :: "int \<Rightarrow> int" where
  "double_key x =
     (if sign (splitFloat x F64) \<noteq> 0 then - (x AND (push_bit 63 1 - 1)) else x AND (push_bit 63 1 - 1))"

definition is_nan :: "int \<Rightarrow> bool" where
  "is_nan x \<longleftrightarrow> isNaNClass (classify x F64)"

definition computeFcmpFlags :: "int \<Rightarrow> int \<Rightarrow> Flags" where
  "computeFcmpFlags a b =
     (if is_nan a \<or> is_nan b then \<lparr>fl_n = False, fl_z = False, fl_c = True, fl_v = True\<rparr>
      else if double_key a < double_key b then \<lparr>fl_n = True, fl_z = False, fl_c = False, fl_v = False\<rparr>
      else if double_key a = double_key b then \<lparr>fl_n = False, fl_z = True, fl_c = True, fl_v = False\<rparr>
      else \<lparr>fl_n = False, fl_z = False, fl_c = True, fl_v = False\<rparr>)"

subsection \<open>Reading operands\<close>

text \<open>\<open>/^-?(0x[0-9a-f]+|\d+)$/\<close> on text already in lower case, and the value.\<close>

definition parseIntOperand :: "jstring \<Rightarrow> int option" where
  "parseIntOperand text =
     (let t = js_lower (js_trim text);
          negative = starts_with ''-'' t;
          body = (if negative then drop 1 t else t);
          magnitude =
            (if starts_with ''0x'' body \<and> digits_only 16 (drop 2 body)
             then Some (int (of_digits 16 (drop 2 body)))
             else if digits_only 10 body then Some (int (of_digits 10 body))
             else None)
      in map_option (\<lambda>m. if negative then - m else m) magnitude)"

text \<open>\<open>Number(t)\<close> on a decimal text, as the bit pattern of the nearest double: past the
  largest it is infinite, below half the smallest it is a zero, and the sign stays.\<close>

definition number_bits :: "bool \<Rightarrow> int \<Rightarrow> int \<Rightarrow> int" where
  "number_bits neg s p =
     (let sg = (if neg then 1 else 0) in
      if s = 0 then joinFloat \<lparr>sign = sg, exponent = 0, fraction = 0\<rparr> F64
      else case round_decimal (s, p) of
             Rounded ex fr _ \<Rightarrow> joinFloat \<lparr>sign = sg, exponent = ex, fraction = fr\<rparr> F64
           | Overflow \<Rightarrow> joinFloat \<lparr>sign = sg, exponent = topExponent F64, fraction = 0\<rparr> F64
           | Underflow \<Rightarrow> joinFloat \<lparr>sign = sg, exponent = 0, fraction = 0\<rparr> F64)"

definition quiet_nan :: int where
  "quiet_nan = joinFloat \<lparr>sign = 0, exponent = topExponent F64, fraction = push_bit 51 1\<rparr> F64"

text \<open>\<open>/^-?(\d+\.?\d*|\.\d+)(e-?\d+)?$/\<close>: the decimal syntax without a plus sign and with at
  least one digit beside the point.\<close>

definition parseFloatOperand :: "jstring \<Rightarrow> int option" where
  "parseFloatOperand text =
     (let t = js_lower (js_trim text) in
      if t = ''nan'' then Some quiet_nan
      else if CHR ''+'' \<in> set t then None
      else case decimal_match t of
             None \<Rightarrow> None
           | Some (sg, whole, after, e) \<Rightarrow>
               if whole = [] \<and> after = [] then None
               else Some (number_bits (sg = ''-'') (int (of_digits 10 (whole @ after)))
                            (e - int (length after))))"

subsection \<open>What the flags mean\<close>

lemma mask_mod: "x AND (2 ^ n - 1) = x mod (2 ^ n :: int)"
  by (simp add: mask_eq_exp_minus_1 [symmetric] take_bit_eq_mask [symmetric] take_bit_eq_mod push_bit_eq_mult)

lemma signOf_half:
  assumes "0 \<le> x" "x < 2 * 2 ^ n"
  shows "signOf (2 ^ n) x \<longleftrightarrow> 2 ^ n \<le> x"
proof -
  have "signOf (2 ^ n) x \<longleftrightarrow> bit x n"
    by (simp add: signOf_def and_exp_eq_0_iff_not_bit)
  also have "\<dots> \<longleftrightarrow> odd (x div 2 ^ n)" by (simp add: bit_iff_odd)
  also have "\<dots> \<longleftrightarrow> 2 ^ n \<le> x"
  proof (cases "x < 2 ^ n")
    case True
    then show ?thesis using assms by (simp add: div_pos_pos_trivial)
  next
    case False
    then have "x div 2 ^ n = (x - 2 ^ n) div 2 ^ n + 1" by (simp add: div_pos_geq)
    then show ?thesis using False assms by (simp add: div_pos_pos_trivial)
  qed
  finally show ?thesis .
qed

text \<open>The operand as the instruction sees it, unsigned and signed.\<close>

definition uval :: "RegBits \<Rightarrow> int \<Rightarrow> int" where
  "uval r x = x mod 2 ^ wbits (regWidth r)"

definition sval :: "RegBits \<Rightarrow> int \<Rightarrow> int" where
  "sval r x = toSigned (uval r x) (regWidth r)"

definition in_signed_range :: "RegBits \<Rightarrow> int \<Rightarrow> bool" where
  "in_signed_range r x \<longleftrightarrow> minSigned (regWidth r) \<le> x \<and> x \<le> maxSigned (regWidth r)"

lemma uval_fits: "0 \<le> uval r x \<and> uval r x < 2 ^ wbits (regWidth r)"
  by (simp add: uval_def)

lemma signOf_sval: "signOf (2 ^ (wbits (regWidth r) - Suc 0)) (uval r x) \<longleftrightarrow> sval r x < 0"
  using uval_fits [of r x] half_double [of "regWidth r"]
  by (simp add: signOf_half sval_def toSigned_def push_bit_eq_mult)

lemma sval_eq: "sval r x = (if 2 ^ (wbits (regWidth r) - 1) \<le> uval r x
    then uval r x - 2 * 2 ^ (wbits (regWidth r) - 1) else uval r x)"
  using half_double [of "regWidth r"] by (simp add: sval_def toSigned_def push_bit_eq_mult)

lemma computeIntFlags_sub:
  "computeIntFlags OpSub a b r =
     (uval r (a - b),
      \<lparr>fl_n = (sval r (a - b) < 0), fl_z = (uval r (a - b) = 0), fl_c = (uval r b \<le> uval r a),
       fl_v = ((sval r a < 0) \<noteq> (sval r b < 0) \<and> (sval r (a - b) < 0) \<noteq> (sval r a < 0))\<rparr>)"
proof -
  have "(uval r a - uval r b) mod 2 ^ wbits (regWidth r) = uval r (a - b)"
    by (simp add: uval_def mod_diff_eq)
  then show ?thesis
    by (simp add: computeIntFlags_def Let_def mask_mod uval_def [symmetric] signOf_sval)
qed

lemma computeIntFlags_add:
  "computeIntFlags OpAdd a b r =
     (uval r (a + b),
      \<lparr>fl_n = (sval r (a + b) < 0), fl_z = (uval r (a + b) = 0),
       fl_c = (2 ^ wbits (regWidth r) \<le> uval r a + uval r b),
       fl_v = ((sval r a < 0) = (sval r b < 0) \<and> (sval r (a + b) < 0) \<noteq> (sval r a < 0))\<rparr>)"
proof -
  have "(uval r a + uval r b) mod 2 ^ wbits (regWidth r) = uval r (a + b)"
    by (simp add: uval_def mod_add_eq)
  moreover have "2 ^ wbits (regWidth r) - 1 < z \<longleftrightarrow> 2 ^ wbits (regWidth r) \<le> z" for z :: int
    by auto
  ultimately show ?thesis
    by (simp add: computeIntFlags_def Let_def mask_mod uval_def [symmetric] signOf_sval)
qed
text \<open>A difference and a sum of register values, back in the register's range.\<close>

lemma uval_diff:
  "uval r (a - b) = (if uval r b \<le> uval r a then uval r a - uval r b
                     else uval r a - uval r b + 2 ^ wbits (regWidth r))"
proof -
  let ?M = "2 ^ wbits (regWidth r) :: int"
  have "uval r (a - b) = (uval r a - uval r b) mod ?M" by (simp add: uval_def mod_diff_eq)
  also have "\<dots> = (if uval r b \<le> uval r a then uval r a - uval r b else uval r a - uval r b + ?M)"
  proof (cases "uval r b \<le> uval r a")
    case False
    have "(uval r a - uval r b) mod ?M = (uval r a - uval r b + ?M) mod ?M" by simp
    also have "\<dots> = uval r a - uval r b + ?M"
      using False uval_fits [of r a] uval_fits [of r b] by (intro mod_pos_pos_trivial) auto
    finally show ?thesis using False by simp
  qed (use uval_fits [of r a] uval_fits [of r b] in \<open>simp add: mod_pos_pos_trivial\<close>)
  finally show ?thesis .
qed

lemma uval_sum:
  "uval r (a + b) = (if uval r a + uval r b < 2 ^ wbits (regWidth r) then uval r a + uval r b
                     else uval r a + uval r b - 2 ^ wbits (regWidth r))"
proof -
  let ?M = "2 ^ wbits (regWidth r) :: int"
  have "uval r (a + b) = (uval r a + uval r b) mod ?M" by (simp add: uval_def mod_add_eq)
  also have "\<dots> = (if uval r a + uval r b < ?M then uval r a + uval r b else uval r a + uval r b - ?M)"
  proof (cases "uval r a + uval r b < ?M")
    case False
    have "(uval r a + uval r b) mod ?M = (uval r a + uval r b - ?M) mod ?M" by simp
    also have "\<dots> = uval r a + uval r b - ?M"
      using False uval_fits [of r a] uval_fits [of r b] by (intro mod_pos_pos_trivial) auto
    finally show ?thesis using False by simp
  qed (use uval_fits [of r a] uval_fits [of r b] in \<open>simp add: mod_pos_pos_trivial\<close>)
  finally show ?thesis .
qed

lemma in_signed_range_iff:
  "in_signed_range r z \<longleftrightarrow> - (2 ^ (wbits (regWidth r) - 1)) \<le> z \<and> z < 2 ^ (wbits (regWidth r) - 1)"
  by (auto simp: in_signed_range_def minSigned_def maxSigned_def push_bit_eq_mult)

lemmas flag_arith = sval_eq uval_diff uval_sum in_signed_range_iff half_double

lemma sub_flags_meaning:
  assumes "H = (2::int) ^ (wbits (regWidth r) - 1)"
  shows "sval r (a - b) < 0 \<longleftrightarrow> H \<le> uval r (a - b)"
    and "uval r (a - b) = 0 \<longleftrightarrow> uval r a = uval r b"
  using uval_fits [of r a] uval_fits [of r b] uval_fits [of r "a - b"] half_double [of "regWidth r"] assms
  by (auto simp: sval_eq uval_diff)

text \<open>The order of two registers, by cases on which of them has the top bit set.\<close>

lemma sub_overflow:
  assumes f: "computeIntFlags OpSub a b r = (res, f)"
  shows "fl_v f \<longleftrightarrow> \<not> in_signed_range r (sval r a - sval r b)"
    and "(fl_n f \<noteq> fl_v f) \<longleftrightarrow> sval r a < sval r b"
proof -
  define H where "H = (2::int) ^ (wbits (regWidth r) - 1)"
  have M: "2 ^ wbits (regWidth r) = 2 * H" using half_double by (simp add: H_def)
  define x y where "x = uval r a" and "y = uval r b"
  have b: "0 \<le> x" "x < 2 * H" "0 \<le> y" "y < 2 * H"
    using uval_fits [of r a] uval_fits [of r b] by (auto simp: M x_def y_def)
  have d: "uval r (a - b) = (if y \<le> x then x - y else x - y + 2 * H)"
    by (simp only: uval_diff M x_def y_def)
  have s: "sval r a = (if H \<le> x then x - 2 * H else x)" "sval r b = (if H \<le> y then y - 2 * H else y)"
    by (simp_all only: sval_eq H_def [symmetric] x_def y_def)
  have n: "sval r (a - b) < 0 \<longleftrightarrow> H \<le> (if y \<le> x then x - y else x - y + 2 * H)"
    by (simp only: sub_flags_meaning(1) [OF H_def] d)
  have "f = snd (computeIntFlags OpSub a b r)" using f by simp
  then have fs: "fl_n f \<longleftrightarrow> sval r (a - b) < 0"
    "fl_v f \<longleftrightarrow> (sval r a < 0) \<noteq> (sval r b < 0) \<and> (sval r (a - b) < 0) \<noteq> (sval r a < 0)"
    by (simp_all add: computeIntFlags_sub)
  show "fl_v f \<longleftrightarrow> \<not> in_signed_range r (sval r a - sval r b)"
    unfolding fs s n in_signed_range_iff H_def [symmetric] using b by (simp split: if_splits; linarith)
  show "(fl_n f \<noteq> fl_v f) \<longleftrightarrow> sval r a < sval r b"
    unfolding fs s n using b by (simp split: if_splits; linarith)
qed

lemma add_overflow:
  assumes f: "computeIntFlags OpAdd a b r = (res, f)"
  shows "fl_v f \<longleftrightarrow> \<not> in_signed_range r (sval r a + sval r b)"
proof -
  define H where "H = (2::int) ^ (wbits (regWidth r) - 1)"
  have M: "2 ^ wbits (regWidth r) = 2 * H" using half_double by (simp add: H_def)
  define x y where "x = uval r a" and "y = uval r b"
  have b: "0 \<le> x" "x < 2 * H" "0 \<le> y" "y < 2 * H"
    using uval_fits [of r a] uval_fits [of r b] by (auto simp: M x_def y_def)
  have s: "sval r a = (if H \<le> x then x - 2 * H else x)" "sval r b = (if H \<le> y then y - 2 * H else y)"
    "sval r (a + b) = (if H \<le> (if x + y < 2 * H then x + y else x + y - 2 * H)
       then (if x + y < 2 * H then x + y else x + y - 2 * H) - 2 * H
       else (if x + y < 2 * H then x + y else x + y - 2 * H))"
    by (simp_all only: sval_eq uval_sum M H_def [symmetric] x_def y_def)
  have "f = snd (computeIntFlags OpAdd a b r)" using f by simp
  then have fs: "fl_v f \<longleftrightarrow> (sval r a < 0) = (sval r b < 0) \<and> (sval r (a + b) < 0) \<noteq> (sval r a < 0)"
    by (simp add: computeIntFlags_add)
  show ?thesis
    unfolding fs s in_signed_range_iff H_def [symmetric] using b by (simp split: if_splits; linarith)
qed
subsection \<open>The order of floats\<close>

definition double_real :: "int \<Rightarrow> real" where
  "double_real x =
     (let f = splitFloat x F64; m = float_real (exponent f) (fraction f) F64 in
      if sign f \<noteq> 0 then - m else m)"

definition is_finite_double :: "int \<Rightarrow> bool" where
  "is_finite_double x \<longleftrightarrow> valid_pattern x F64 \<and> classify x F64 \<in> {Zero, Subnormal, Normal}"

lemma float_real_mono:
  assumes "finite_fields ex fr w" "finite_fields ex' fr' w"
    and "ex * 2 ^ fbits w + fr < ex' * 2 ^ fbits w + fr'"
  shows "float_real ex fr w < float_real ex' fr' w"
proof -
  let ?F = "2 ^ fbits w :: int"
  have le: "ex \<le> ex'"
  proof (rule ccontr)
    assume "\<not> ex \<le> ex'"
    then have "(ex' + 1) * ?F \<le> ex * ?F" by (intro mult_right_mono) auto
    then show False using assms by (simp add: finite_fields_def algebra_simps)
  qed
  show ?thesis
  proof (cases "quantum ex w = quantum ex' w")
    case True
    have "significand ex fr w < significand ex' fr' w"
      using True le assms by (auto simp: quantum_def significand_def finite_fields_def split: if_splits)
    then show ?thesis by (simp add: float_real_def True)
  next
    case False
    have lt: "quantum ex w < quantum ex' w" "ex' \<noteq> 0"
      using False le assms(1) by (auto simp: quantum_def finite_fields_def)
    have "float_real ex fr w < 2 ^ fbits w * 2 powi (quantum ex' w)"
      by (rule float_below_grid [OF assms(1) lt(1)])
    also have "\<dots> \<le> float_real ex' fr' w"
      unfolding float_real_def using lt(2) assms(2)
      by (intro mult_right_mono) (auto simp: significand_def finite_fields_def)
    finally show ?thesis .
  qed
qed

definition magnitude :: "int \<Rightarrow> int" where
  "magnitude x = exponent (splitFloat x F64) * 2 ^ 52 + fraction (splitFloat x F64)"

lemma double_key_eq:
  assumes "valid_pattern x F64"
  shows "double_key x = (if sign (splitFloat x F64) \<noteq> 0 then - magnitude x else magnitude x)"
proof -
  have "x AND (push_bit 63 1 - 1) = x mod 2 ^ 63"
    using mask_mod [of x 63] by simp
  also have "\<dots> = x mod (2 ^ 52 * 2 ^ 11)" by simp
  also have "\<dots> = 2 ^ 52 * (x div 2 ^ 52 mod 2 ^ 11) + x mod 2 ^ 52" by (rule zmod_zmult2_eq) simp
  also have "\<dots> = magnitude x"
    using splitFloat_eq [OF assms] by (simp add: magnitude_def)
  finally show ?thesis by (simp only: double_key_def)
qed

lemma signed_order:
  fixes ma mb :: int and ra rb :: real
  assumes "ma < mb \<longleftrightarrow> ra < rb" "ma = mb \<longleftrightarrow> ra = rb" "mb < ma \<longleftrightarrow> rb < ra"
    and "ma = 0 \<longleftrightarrow> ra = 0" "0 \<le> ma" "0 \<le> ra" "mb = 0 \<longleftrightarrow> rb = 0" "0 \<le> mb" "0 \<le> rb"
  shows "(if p then - ma else ma) < (if q then - mb else mb) \<longleftrightarrow>
         (if p then - ra else ra) < (if q then - rb else rb)"
    and "(if p then - ma else ma) = (if q then - mb else mb) \<longleftrightarrow>
         (if p then - ra else ra) = (if q then - rb else rb)"
proof -
  have opp: "- ma < mb \<longleftrightarrow> - ra < rb" "- ma = mb \<longleftrightarrow> - ra = rb" "ma = - mb \<longleftrightarrow> ra = - rb"
    "\<not> ma < - mb" "\<not> ra < - rb"
    using assms(4-9) by linarith+
  show "(if p then - ma else ma) < (if q then - mb else mb) \<longleftrightarrow>
         (if p then - ra else ra) < (if q then - rb else rb)"
    using assms(1,3) opp by (cases p; cases q) auto
  show "(if p then - ma else ma) = (if q then - mb else mb) \<longleftrightarrow>
         (if p then - ra else ra) = (if q then - rb else rb)"
    using assms(2) opp by (cases p; cases q) auto
qed

lemma double_key_less:
  assumes "is_finite_double a" "is_finite_double b"
  shows "double_key a < double_key b \<longleftrightarrow> double_real a < double_real b"
    and "double_key a = double_key b \<longleftrightarrow> double_real a = double_real b"
proof -
  let ?r = "\<lambda>x. float_real (exponent (splitFloat x F64)) (fraction (splitFloat x F64)) F64"
  have fin: "finite_fields (exponent (splitFloat x F64)) (fraction (splitFloat x F64)) F64"
    if "is_finite_double x" for x
    using that classify_finite by (simp add: is_finite_double_def)
  have mono: "magnitude x < magnitude y \<Longrightarrow> ?r x < ?r y" if "is_finite_double x" "is_finite_double y" for x y
    using float_real_mono [OF fin [OF that(1)] fin [OF that(2)]] by (simp add: magnitude_def)
  have inj: "magnitude x = magnitude y \<Longrightarrow> ?r x = ?r y" if "is_finite_double x" "is_finite_double y" for x y
  proof -
    assume "magnitude x = magnitude y"
    then have "magnitude x div 2 ^ 52 = magnitude y div 2 ^ 52" "magnitude x mod 2 ^ 52 = magnitude y mod 2 ^ 52"
      by auto
    then show ?thesis using fin [OF that(1)] fin [OF that(2)] by (simp add: magnitude_def finite_fields_def)
  qed
  have zero: "magnitude x = 0 \<longleftrightarrow> ?r x = 0" "0 \<le> magnitude x" "0 \<le> ?r x" if "is_finite_double x" for x
    using fin [OF that]
    by (auto simp: magnitude_def finite_fields_def float_real_def significand_def)
  have cmp: "magnitude a < magnitude b \<longleftrightarrow> ?r a < ?r b" "magnitude a = magnitude b \<longleftrightarrow> ?r a = ?r b"
    "magnitude b < magnitude a \<longleftrightarrow> ?r b < ?r a"
    using mono [OF assms] mono [OF assms(2,1)] inj [OF assms]
    by (cases "magnitude a" "magnitude b" rule: linorder_cases; simp)+
  have key: "double_key x = (if sign (splitFloat x F64) \<noteq> 0 then - magnitude x else magnitude x)"
    if "is_finite_double x" for x
    using that double_key_eq by (simp add: is_finite_double_def)
  note rules = key [OF assms(1)] key [OF assms(2)] double_real_def Let_def
  note z = zero [OF assms(1)] zero [OF assms(2)]
  show "double_key a < double_key b \<longleftrightarrow> double_real a < double_real b"
    unfolding rules by (rule signed_order(1) [OF cmp z])
  show "double_key a = double_key b \<longleftrightarrow> double_real a = double_real b"
    unfolding rules by (rule signed_order(2) [OF cmp z])
qed

subsection \<open>Properties\<close>

text \<open>C15: after \<open>cmp\<close> or \<open>subs\<close> at either width, Z says the operands are equal, C that the
  first is not below the second unsigned, N differs from V exactly when it is below it
  signed, V exactly when the signed difference does not fit, and the result is the
  difference modulo the width.\<close>

theorem compare_flags:
  assumes "computeIntFlags OpSub a b r = (res, f)"
  shows "res = (a - b) mod 2 ^ wbits (regWidth r) \<and> fl_z f = (uval r a = uval r b) \<and>
    fl_c f = (uval r b \<le> uval r a) \<and> (fl_n f \<noteq> fl_v f) = (sval r a < sval r b) \<and>
    fl_v f = (\<not> in_signed_range r (sval r a - sval r b))"
  using sub_overflow [OF assms] assms sub_flags_meaning(2) [OF refl, of r a b]
  by (auto simp: computeIntFlags_sub uval_def)

theorem compare_flags_witness: "sval R32 0x80000000 < sval R32 1"
proof -
  have "computeIntFlags OpSub 0x80000000 1 R32 =
      (0x7FFFFFFF, \<lparr>fl_n = False, fl_z = False, fl_c = True, fl_v = True\<rparr>)" by code_simp
  from compare_flags [OF this] show ?thesis by simp
qed

text \<open>After \<open>adds\<close> or \<open>cmn\<close>, C is the carry out of the unsigned sum and V is set exactly
  when the signed sum does not fit the width.\<close>

theorem add_flags:
  assumes "computeIntFlags OpAdd a b r = (res, f)"
  shows "res = (a + b) mod 2 ^ wbits (regWidth r) \<and>
    fl_c f = (2 ^ wbits (regWidth r) \<le> uval r a + uval r b) \<and>
    fl_v f = (\<not> in_signed_range r (sval r a + sval r b)) \<and>
    fl_z f = (res = 0) \<and> fl_n f = (sval r (a + b) < 0)"
  using add_overflow [OF assms] assms by (auto simp: computeIntFlags_add uval_def)

theorem add_flags_witness: "\<not> in_signed_range R32 (sval R32 0x7FFFFFFF + sval R32 1)"
proof -
  have "computeIntFlags OpAdd 0x7FFFFFFF 1 R32 =
      (0x80000000, \<lparr>fl_n = True, fl_z = False, fl_c = False, fl_v = True\<rparr>)" by code_simp
  from add_flags [OF this] show ?thesis by simp
qed

text \<open>After \<open>fcmp\<close> of two finite doubles N says the first is smaller, Z that they are
  equal, C that the first is not smaller, as real numbers, and V is clear; both zeros
  compare equal.\<close>

theorem fcmp_flags:
  assumes "is_finite_double a" "is_finite_double b"
  shows "computeFcmpFlags a b =
    \<lparr>fl_n = (double_real a < double_real b), fl_z = (double_real a = double_real b),
     fl_c = (double_real b \<le> double_real a), fl_v = False\<rparr>"
proof -
  have "\<not> is_nan a" "\<not> is_nan b"
    using assms by (auto simp: is_nan_def isNaNClass_def is_finite_double_def)
  then show ?thesis
    using double_key_less [OF assms] by (auto simp: computeFcmpFlags_def)
qed

theorem fcmp_flags_witness: "double_real (2 ^ 63) = double_real 0"
proof -
  have f: "is_finite_double (2 ^ 63)" "is_finite_double 0"
    by (simp_all add: is_finite_double_def valid_pattern_def classify_def Let_def splitFloat_def
        drop_bit_eq_div mask_mod)
  have "computeFcmpFlags (2 ^ 63) 0 = \<lparr>fl_n = False, fl_z = True, fl_c = True, fl_v = False\<rparr>"
    by (simp add: computeFcmpFlags_def is_nan_def isNaNClass_def double_key_def classify_def Let_def
        splitFloat_def drop_bit_eq_div mask_mod)
  with fcmp_flags [OF f] show ?thesis by simp
qed

end
