(* ===== verification/SourceMap.thy ===== *)
theory SourceMap
  imports RegisterText "HOL-Library.AList"
begin

unbundle bit_operations_syntax

text \<open>
  From addresses to source lines and back: \<open>web/lib/emulator/line-map.ts\<close>,
  \<open>source-lines.ts\<close> and \<open>disassembly.ts\<close>.  A JavaScript \<open>Map\<close> is an association list in
  insertion order, written with \<open>AList.update\<close> (which, like \<open>Map.set\<close>, keeps the
  place of a key that is there) and read with \<open>map_of\<close>.  A Number of the flat array
  that comes from the wasm module is a whole number or not finite.
\<close>

subsection \<open>line-map.ts\<close>

datatype js_number = Fin int | NonFinite

record LineMap =
  addrToLine :: "(int \<times> int) list"
  lineToAddr :: "(int \<times> int) list"

definition emptyLineMap :: LineMap where
  "emptyLineMap = \<lparr>addrToLine = [], lineToAddr = []\<rparr>"

definition isEmptyLineMap :: "LineMap \<Rightarrow> bool" where
  "isEmptyLineMap m \<longleftrightarrow> addrToLine m = []"

text \<open>One round of the loop of \<open>parseLineMap\<close>.\<close>

definition add_pair :: "int \<Rightarrow> int \<Rightarrow> LineMap \<Rightarrow> LineMap" where
  "add_pair addr line m =
     \<lparr>addrToLine = AList.update addr line (addrToLine m),
      lineToAddr = (if map_of (lineToAddr m) line = None
                    then AList.update line addr (lineToAddr m) else lineToAddr m)\<rparr>"

fun parse_pairs :: "js_number list \<Rightarrow> LineMap \<Rightarrow> LineMap" where
  "parse_pairs (Fin addr # Fin line # rest) m = parse_pairs rest (add_pair addr line m)"
| "parse_pairs (x # y # rest) m = emptyLineMap"
| "parse_pairs xs m = m"

definition parseLineMap :: "js_number list option \<Rightarrow> LineMap" where
  "parseLineMap flat =
     (case flat of None \<Rightarrow> emptyLineMap
      | Some xs \<Rightarrow>
          if xs = [] \<or> length xs mod 2 \<noteq> 0 then emptyLineMap else parse_pairs xs emptyLineMap)"

definition pcToSourceLineFromMap :: "int \<Rightarrow> LineMap \<Rightarrow> int option" where
  "pcToSourceLineFromMap pc m = map_of (addrToLine m) pc"

text \<open>The scan for the nearest later line; the first component is \<open>bestLine\<close>, \<open>None\<close> for
  Infinity.\<close>

fun best_after :: "int \<Rightarrow> (int \<times> int) list \<Rightarrow> (int \<times> int) option \<Rightarrow> (int \<times> int) option" where
  "best_after line [] best = best"
| "best_after line ((mappedLine, addr) # rest) best =
     best_after line rest
       (if mappedLine \<ge> line \<and> (case best of None \<Rightarrow> True | Some (bestLine, _) \<Rightarrow> mappedLine < bestLine)
        then Some (mappedLine, addr) else best)"

definition lineToAddrFromMap :: "int \<Rightarrow> LineMap \<Rightarrow> int option" where
  "lineToAddrFromMap line m =
     (case map_of (lineToAddr m) line of
        Some addr \<Rightarrow> Some addr
      | None \<Rightarrow> map_option snd (best_after line (lineToAddr m) None))"

subsection \<open>source-lines.ts\<close>

text \<open>\<open>s.replace(/m.*$/, "")\<close> for a literal \<open>m\<close>: the leftmost \<open>m\<close> from which no line
  terminator follows, cut with all that follows it.\<close>

definition is_newline :: "char \<Rightarrow> bool" where
  "is_newline c \<longleftrightarrow> code c = 10 \<or> code c = 13"

fun cut_from :: "jstring \<Rightarrow> jstring \<Rightarrow> jstring" where
  "cut_from m [] = []"
| "cut_from m (c # s) =
     (if starts_with m (c # s) \<and> \<not> list_ex is_newline (drop (length m) (c # s)) then []
      else c # cut_from m s)"

definition stripLine :: "jstring \<Rightarrow> jstring" where
  "stripLine line = js_trim (cut_from '';'' (cut_from ''//'' line))"

definition emitsInstruction :: "jstring \<Rightarrow> bool" where
  "emitsInstruction stripped \<longleftrightarrow> length stripped > 0 \<and> \<not> ends_with '':'' stripped"

abbreviation newline :: char where "newline \<equiv> CHR 0x0A"

abbreviation source_lines :: "jstring \<Rightarrow> jstring list" where
  "source_lines source \<equiv> js_split newline source"

text \<open>The two loops, with the position \<open>i\<close> and the count \<open>idx\<close> of emitting lines so far.\<close>

fun line_of_index :: "int \<Rightarrow> jstring list \<Rightarrow> nat \<Rightarrow> nat \<Rightarrow> nat option" where
  "line_of_index instrIndex [] i idx = None"
| "line_of_index instrIndex (l # ls) i idx =
     (if \<not> emitsInstruction (stripLine l) then line_of_index instrIndex ls (i + 1) idx
      else if int idx = instrIndex then Some (i + 1)
      else line_of_index instrIndex ls (i + 1) (idx + 1))"

definition pcToSourceLine :: "int \<Rightarrow> jstring \<Rightarrow> nat option" where
  "pcToSourceLine instrIndex source = line_of_index instrIndex (source_lines source) 0 0"

fun index_of_line :: "int \<Rightarrow> jstring list \<Rightarrow> nat \<Rightarrow> nat \<Rightarrow> nat option" where
  "index_of_line line [] i idx = None"
| "index_of_line line (l # ls) i idx =
     (if \<not> emitsInstruction (stripLine l) then index_of_line line ls (i + 1) idx
      else if int (i + 1) = line then Some idx
      else index_of_line line ls (i + 1) (idx + 1))"

definition sourceLineToInstrIndex :: "int \<Rightarrow> jstring \<Rightarrow> nat option" where
  "sourceLineToInstrIndex line source = index_of_line line (source_lines source) 0 0"

definition stripSourceLines :: "jstring \<Rightarrow> jstring list" where
  "stripSourceLines source = map stripLine (source_lines source)"

definition indexedInstructionText :: "jstring list \<Rightarrow> jstring list" where
  "indexedInstructionText strippedLines = filter emitsInstruction strippedLines"

definition hasAssemblableContent :: "jstring \<Rightarrow> bool" where
  "hasAssemblableContent source \<longleftrightarrow> list_ex (\<lambda>l. emitsInstruction (stripLine l)) (source_lines source)"

subsection \<open>disassembly.ts\<close>

record DecodedInstruction =
  di_address :: int
  di_hex :: jstring
  di_text :: jstring

text \<open>\<open>listingLength\<close> divides Numbers, so its result may be a fraction.\<close>

definition last_address :: "LineMap \<Rightarrow> int" where
  "last_address m = foldl (\<lambda>last p. if fst p > last then fst p else last) (-1) (addrToLine m)"

definition listingLength :: "int \<Rightarrow> rat \<Rightarrow> LineMap \<Rightarrow> rat" where
  "listingLength base count m =
     (let last = last_address m in
      if last < base then count else max count (of_int (last - base) / 4 + 1))"

text \<open>\<open>|\<close> and \<open><<\<close> work on signed 32-bit words.\<close>

definition to_int32 :: "int \<Rightarrow> int" where
  "to_int32 x = signed_take_bit 31 x"

definition byte_at :: "int list \<Rightarrow> nat \<Rightarrow> int" where
  "byte_at bytes i = (case nth_opt bytes i of None \<Rightarrow> 0 | Some b \<Rightarrow> b)"

definition code_word :: "int list \<Rightarrow> nat \<Rightarrow> int" where
  "code_word codeBytes off =
     byte_at codeBytes off OR to_int32 (push_bit 8 (byte_at codeBytes (off + 1)))
     OR to_int32 (push_bit 16 (byte_at codeBytes (off + 2)))
     OR to_int32 (push_bit 24 (byte_at codeBytes (off + 3)))"

definition nth_int :: "'a list \<Rightarrow> int \<Rightarrow> 'a option" where
  "nth_int xs i = (if i < 0 then None else nth_opt xs (nat i))"

definition disassemble_one ::
    "int \<Rightarrow> int list \<Rightarrow> jstring list \<Rightarrow> jstring list \<Rightarrow> LineMap \<Rightarrow> nat \<Rightarrow> DecodedInstruction" where
  "disassemble_one base codeBytes strippedLines instrTexts m i =
     (let addr = base + int i * 4;
          hex = formatWord32 (code_word codeBytes (i * 4));
          text = (if \<not> isEmptyLineMap m then
                    (case pcToSourceLineFromMap addr m of
                       None \<Rightarrow> ''.word '' @ hex
                     | Some line \<Rightarrow> case_option [] id (nth_int strippedLines (line - 1)))
                  else case_option [] id (nth_opt instrTexts i))
      in \<lparr>di_address = addr, di_hex = hex, di_text = text\<rparr>)"

definition buildDisassembly ::
    "int \<Rightarrow> nat \<Rightarrow> int list \<Rightarrow> jstring \<Rightarrow> LineMap \<Rightarrow> DecodedInstruction list" where
  "buildDisassembly base count codeBytes source m =
     (let strippedLines = stripSourceLines source;
          instrTexts = indexedInstructionText strippedLines
      in map (disassemble_one base codeBytes strippedLines instrTexts m) [0 ..< count])"

subsection \<open>Lines and instruction indices\<close>

lemma line_of_index_after: "line_of_index j ls i idx = Some l \<Longrightarrow> i < l"
  by (induction j ls i idx rule: line_of_index.induct) (auto split: if_splits)

lemma index_of_line_after: "index_of_line l ls i idx = Some j \<Longrightarrow> idx \<le> j"
  by (induction l ls i idx rule: index_of_line.induct) (auto split: if_splits)

lemma line_of_index_ge: "line_of_index j ls i idx = Some l \<Longrightarrow> int idx \<le> j"
  by (induction j ls i idx rule: line_of_index.induct) (auto split: if_splits)

lemma index_of_line_ge: "index_of_line l ls i idx = Some j \<Longrightarrow> int i < l"
  by (induction l ls i idx rule: index_of_line.induct) (auto split: if_splits)

lemma line_index_inverse:
  "line_of_index (int j) ls i idx = Some l \<longleftrightarrow> index_of_line (int l) ls i idx = Some j"
proof (induction ls arbitrary: i idx)
  case (Cons x ls)
  show ?case
    using Cons [of "i + 1" idx] Cons [of "i + 1" "idx + 1"]
      line_of_index_ge [of "int j" ls "i + 1" "idx + 1" l]
      index_of_line_after [of "int l" ls "i + 1" "idx + 1" j]
      index_of_line_ge [of "int l" ls "i + 1" "idx + 1" j]
    by (auto split: if_splits)
qed simp

lemma line_of_index_text:
  "line_of_index (int j) ls i idx = Some l \<Longrightarrow>
   l - i - 1 < length ls \<and>
   nth_opt (filter emitsInstruction (map stripLine ls)) (j - idx) = Some (stripLine (ls ! (l - i - 1)))"
proof (induction ls arbitrary: i idx)
  case (Cons x ls)
  show ?case
  proof (cases "emitsInstruction (stripLine x) \<and> idx = j")
    case True
    then show ?thesis using Cons.prems by (auto split: if_splits)
  next
    case False
    let ?idx = "if emitsInstruction (stripLine x) then idx + 1 else idx"
    have r: "line_of_index (int j) ls (i + 1) ?idx = Some l"
      using Cons.prems False by (auto split: if_splits)
    have l: "i + 1 < l" using line_of_index_after [OF r] .
    have j: "int ?idx \<le> int j" using line_of_index_ge [OF r] .
    have e: "l - i - 1 = Suc (l - (i + 1) - 1)" using l by simp
    show ?thesis
    proof (cases "emitsInstruction (stripLine x)")
      case em: True
      then have "j - idx = Suc (j - (idx + 1))" using j by simp
      then show ?thesis using Cons.IH [OF r] em unfolding e by (simp del: nth_opt_eq_Some)
    next
      case em: False
      then show ?thesis using Cons.IH [OF r] unfolding e by (simp del: nth_opt_eq_Some)
    qed
  qed
qed simp

subsection \<open>The nearest mapped line\<close>

lemma best_after_spec:
  assumes "\<forall>p. best = Some p \<longrightarrow> line \<le> fst p"
  shows "case best_after line xs best of
      None \<Rightarrow> best = None \<and> (\<forall>p \<in> set xs. fst p < line)
    | Some p \<Rightarrow> (p \<in> set xs \<or> best = Some p) \<and> line \<le> fst p \<and>
        (\<forall>p' \<in> set xs. line \<le> fst p' \<longrightarrow> fst p \<le> fst p') \<and>
        (\<forall>p'. best = Some p' \<longrightarrow> fst p \<le> fst p')"
  using assms
proof (induction xs arbitrary: best)
  case Nil
  then show ?case by (auto split: option.splits)
next
  case (Cons x xs)
  obtain ml ad where x: "x = (ml, ad)" by (cases x)
  let ?best = "if ml \<ge> line \<and> (case best of None \<Rightarrow> True | Some (bestLine, _) \<Rightarrow> ml < bestLine)
               then Some (ml, ad) else best"
  have b: "\<forall>p. ?best = Some p \<longrightarrow> line \<le> fst p"
    using Cons.prems by (auto split: if_splits)
  obtain best' where b': "best' = ?best" by simp
  have step: "best_after line (x # xs) best = best_after line xs best'" by (simp add: x b')
  have bb: "\<forall>p. best' = Some p \<longrightarrow> line \<le> fst p" using b by (simp only: b')
  note IH = Cons.IH [OF bb]
  have none: "best' = None \<Longrightarrow> best = None \<and> fst x < line"
    and orig: "best' = Some p \<Longrightarrow> p = x \<or> best = Some p"
    and new: "line \<le> fst x \<Longrightarrow> \<exists>p. best' = Some p \<and> fst p \<le> fst x"
    and old: "best = Some p \<Longrightarrow> \<exists>q. best' = Some q \<and> fst q \<le> fst p" for p
    by (cases p; auto simp: b' x split: if_splits option.splits)+
  show ?case
  proof (cases "best_after line xs best'")
    case None
    then show ?thesis unfolding step using IH none by auto
  next
    case (Some p)
    then have ih: "p \<in> set xs \<or> best' = Some p" "line \<le> fst p"
      "\<forall>p' \<in> set xs. line \<le> fst p' \<longrightarrow> fst p \<le> fst p'" "\<forall>p'. best' = Some p' \<longrightarrow> fst p \<le> fst p'"
      using IH by simp_all
    have "line \<le> fst x \<longrightarrow> fst p \<le> fst x" using new ih(4) by (meson order_trans)
    moreover have "\<forall>p'. best = Some p' \<longrightarrow> fst p \<le> fst p'"
    proof (intro allI impI)
      fix p' assume "best = Some p'"
      from old [OF this] obtain q where "best' = Some q" "fst q \<le> fst p'" by blast
      then show "fst p \<le> fst p'" using ih(4) by force
    qed
    moreover have "p \<in> set (x # xs) \<or> best = Some p" using ih(1) orig [of p] by force
    ultimately show ?thesis using ih(2,3) by (simp add: step Some)
  qed
qed

lemma lineToAddr_Some:
  assumes "lineToAddrFromMap line m = Some addr"
  obtains l where "(l, addr) \<in> set (lineToAddr m)" "line \<le> l"
    "\<And>l' a'. (l', a') \<in> set (lineToAddr m) \<Longrightarrow> line \<le> l' \<Longrightarrow> l \<le> l'"
proof (cases "map_of (lineToAddr m) line")
  case (Some a)
  then show ?thesis
    using assms that [of line] by (auto simp: lineToAddrFromMap_def dest: map_of_SomeD)
next
  case None
  then obtain p where p: "best_after line (lineToAddr m) None = Some p" "snd p = addr"
    using assms by (auto simp: lineToAddrFromMap_def)
  have "p \<in> set (lineToAddr m)" "line \<le> fst p"
    "\<forall>p' \<in> set (lineToAddr m). line \<le> fst p' \<longrightarrow> fst p \<le> fst p'"
    using best_after_spec [of None line "lineToAddr m"] p(1) by auto
  then show ?thesis using that [of "fst p"] p(2) by force
qed

lemma lineToAddr_None:
  assumes "lineToAddrFromMap line m = None"
  shows "\<forall>p \<in> set (lineToAddr m). fst p < line"
  using assms best_after_spec [of None line "lineToAddr m"]
  by (auto simp: lineToAddrFromMap_def split: option.splits)
subsection \<open>Reading the flat array\<close>

definition flatten_pairs :: "(int \<times> int) list \<Rightarrow> js_number list" where
  "flatten_pairs ps = concat (map (\<lambda>p. [Fin (fst p), Fin (snd p)]) ps)"

lemma parse_pairs_flatten:
  "parse_pairs (flatten_pairs ps) m = foldl (\<lambda>m p. add_pair (fst p) (snd p) m) m ps"
  by (induction ps arbitrary: m) (auto simp: flatten_pairs_def)

lemma length_flatten_pairs: "length (flatten_pairs ps) = 2 * length ps"
  by (induction ps) (auto simp: flatten_pairs_def)

lemma parseLineMap_flatten:
  "parseLineMap (Some (flatten_pairs ps)) = foldl (\<lambda>m p. add_pair (fst p) (snd p) m) emptyLineMap ps"
proof (cases ps)
  case Nil
  then show ?thesis by (simp add: parseLineMap_def flatten_pairs_def)
next
  case (Cons p qs)
  then have "flatten_pairs ps \<noteq> []" by (simp add: flatten_pairs_def)
  then show ?thesis by (simp add: parseLineMap_def length_flatten_pairs parse_pairs_flatten)
qed

text \<open>The invariant of the two maps against the pairs read so far.\<close>

definition reflects :: "(int \<times> int) list \<Rightarrow> LineMap \<Rightarrow> bool" where
  "reflects ps m \<longleftrightarrow>
     map_of (addrToLine m) = map_of (rev ps) \<and>
     map_of (lineToAddr m) = map_of (map prod.swap ps) \<and>
     distinct (map fst (lineToAddr m))"

lemma reflects_add:
  assumes "reflects ps m"
  shows "reflects (ps @ [p]) (add_pair (fst p) (snd p) m)"
proof -
  have a: "map_of (addrToLine (add_pair (fst p) (snd p) m)) = map_of (rev (ps @ [p]))"
    using assms by (cases p) (auto simp: reflects_def add_pair_def update_conv')
  have l: "map_of (lineToAddr (add_pair (fst p) (snd p) m)) = map_of (map prod.swap (ps @ [p]))"
  proof (cases "map_of (lineToAddr m) (snd p)")
    case None
    then have n: "map_of (map prod.swap ps) (snd p) = None" using assms by (simp add: reflects_def)
    show ?thesis
      using assms None n
      by (cases p) (auto simp: reflects_def add_pair_def update_conv' map_add_def fun_eq_iff split: option.splits)
  next
    case (Some a)
    then have s: "map_of (map prod.swap ps) (snd p) = Some a" using assms by (simp add: reflects_def)
    show ?thesis
      using assms Some s
      by (cases p) (auto simp: reflects_def add_pair_def map_add_def fun_eq_iff split: option.splits)
  qed
  have "distinct (map fst (lineToAddr (add_pair (fst p) (snd p) m)))"
    using assms by (auto simp: reflects_def add_pair_def distinct_update)
  with a l show ?thesis by (simp add: reflects_def)
qed

lemma reflects_parse: "reflects ps (parseLineMap (Some (flatten_pairs ps)))"
proof -
  have "reflects (qs @ ps) (foldl (\<lambda>m p. add_pair (fst p) (snd p) m) m ps)" if "reflects qs m" for qs m
    using that
  proof (induction ps arbitrary: qs m)
    case (Cons p ps)
    then show ?case using Cons.IH [OF reflects_add [OF Cons.prems]] by simp
  qed simp
  moreover have "reflects [] emptyLineMap" by (simp add: reflects_def emptyLineMap_def)
  ultimately show ?thesis by (simp add: parseLineMap_flatten) fastforce
qed

subsection \<open>The words of the listing\<close>

lemma or_shifted:
  assumes "0 \<le> a" "a < 2 ^ n"
  shows "a OR push_bit n b = a + 2 ^ n * (b :: int)"
proof -
  have "take_bit n a = a" using assms by (simp add: take_bit_int_eq_self)
  then have "a OR push_bit n b = concat_bit n a b" by (simp add: concat_bit_def)
  also have "\<dots> = a + 2 ^ n * b" using \<open>take_bit n a = a\<close> by (simp add: concat_bit_eq push_bit_eq_mult mult.commute)
  finally show ?thesis .
qed

definition byte_list :: "int list \<Rightarrow> bool" where
  "byte_list bs \<longleftrightarrow> list_all (\<lambda>b. 0 \<le> b \<and> b < 256) bs"

lemma byte_at_range: "byte_list bs \<Longrightarrow> 0 \<le> byte_at bs i \<and> byte_at bs i < 256"
  by (auto simp: byte_at_def byte_list_def list_all_length nth_opt_conv split: option.splits if_splits)

lemma code_word_mod:
  assumes "byte_list bs"
  shows "code_word bs off mod 2 ^ 32 =
    byte_at bs off + 2 ^ 8 * byte_at bs (off + 1) + 2 ^ 16 * byte_at bs (off + 2) + 2 ^ 24 * byte_at bs (off + 3)"
proof -
  define a b c d where "a = byte_at bs off" "b = byte_at bs (off + 1)" "c = byte_at bs (off + 2)"
    "d = byte_at bs (off + 3)"
  note r = byte_at_range [OF assms]
  have s: "take_bit 32 (to_int32 x) = take_bit 32 x" for x
    by (simp add: to_int32_def take_bit_signed_take_bit)
  have "take_bit 32 (code_word bs off) =
      take_bit 32 (a OR push_bit 8 b OR push_bit 16 c OR push_bit 24 d)"
    by (simp only: code_word_def a_b_c_d_def take_bit_or s)
  also have "a OR push_bit 8 b OR push_bit 16 c OR push_bit 24 d =
      a OR push_bit 8 (b OR push_bit 8 (c OR push_bit 8 d))"
    by (simp add: push_bit_or push_bit_push_bit or.assoc)
  also have "\<dots> = a + 2 ^ 8 * (b + 2 ^ 8 * (c + 2 ^ 8 * d))"
    using r by (simp only: or_shifted a_b_c_d_def) (simp add: or_shifted r)
  also have "take_bit 32 (a + 2 ^ 8 * (b + 2 ^ 8 * (c + 2 ^ 8 * d))) = a + 2 ^ 8 * (b + 2 ^ 8 * (c + 2 ^ 8 * d))"
    using r [of off] r [of "off + 1"] r [of "off + 2"] r [of "off + 3"]
    by (intro take_bit_int_eq_self) (auto simp: a_b_c_d_def)
  finally show ?thesis by (simp add: take_bit_eq_mod a_b_c_d_def algebra_simps)
qed

lemma to_int32_range: "- (2 ^ 31) \<le> to_int32 x \<and> to_int32 x < 2 ^ 31"
  unfolding to_int32_def
  using signed_take_bit_int_greater_eq_minus_exp [of 31 x] signed_take_bit_int_less_exp [of 31 x] by blast

lemma signed_or_range:
  assumes "- (2 ^ n) \<le> x \<and> x < 2 ^ n" "- (2 ^ n) \<le> y \<and> y < (2 ^ n :: int)"
  shows "- (2 ^ n) \<le> x OR y \<and> x OR y < 2 ^ n"
proof -
  have "signed_take_bit n x = x" "signed_take_bit n y = y"
    using assms by (simp_all add: signed_take_bit_int_eq_self)
  moreover have "signed_take_bit n (x OR y) = signed_take_bit n x OR signed_take_bit n y"
    by (rule bit_eqI) (simp add: bit_signed_take_bit_iff bit_or_iff)
  ultimately have "signed_take_bit n (x OR y) = x OR y" by simp
  then show ?thesis by (metis signed_take_bit_int_greater_eq_minus_exp signed_take_bit_int_less_exp)
qed

lemma code_word_range:
  assumes "byte_list bs"
  shows "- (2 ^ 31) \<le> code_word bs off \<and> code_word bs off < 2 ^ 31"
  unfolding code_word_def
  by (intro signed_or_range to_int32_range) (use byte_at_range [OF assms, of off] in auto)

subsection \<open>Properties\<close>

text \<open>Counting lines and counting instructions are inverse: editor line \<open>l\<close> holds the
  instruction with index \<open>j\<close> exactly when the instruction with index \<open>j\<close> is on line \<open>l\<close>.\<close>

theorem line_count_inverse:
  "pcToSourceLine (int j) source = Some l \<longleftrightarrow> sourceLineToInstrIndex (int l) source = Some j"
  by (simp add: pcToSourceLine_def sourceLineToInstrIndex_def line_index_inverse)

text \<open>The line found for an instruction index is a line of the source that emits an
  instruction, and its stripped text is the entry the listing shows for that index.\<close>

theorem fallback_text_is_the_line:
  assumes "pcToSourceLine (int j) source = Some l"
  shows "0 < l \<and> l \<le> length (source_lines source) \<and>
    nth_opt (indexedInstructionText (stripSourceLines source)) j = Some (stripSourceLines source ! (l - 1)) \<and>
    emitsInstruction (stripSourceLines source ! (l - 1))"
proof -
  have r: "line_of_index (int j) (source_lines source) 0 0 = Some l"
    using assms by (simp add: pcToSourceLine_def)
  have l: "0 < l" by (rule line_of_index_after [OF r])
  have t: "l - 1 < length (source_lines source)"
    "nth_opt (filter emitsInstruction (map stripLine (source_lines source))) j =
     Some (stripLine (source_lines source ! (l - 1)))"
    using line_of_index_text [OF r] by (simp_all del: nth_opt_eq_Some)
  have "stripLine (source_lines source ! (l - 1)) \<in> set (filter emitsInstruction (map stripLine (source_lines source)))"
    using t(2) by (metis nth_mem nth_opt_eq_Some)
  then show ?thesis
    using l t by (simp add: indexedInstructionText_def stripSourceLines_def del: nth_opt_eq_Some)
qed

theorem fallback_text_is_the_line_witness:
  "nth_opt (indexedInstructionText (stripSourceLines
     (''main:'' @ [newline] @ '' mov x0, 1 // one'' @ [newline] @ ''ret''))) 0 = Some ''mov x0, 1''"
proof -
  have "pcToSourceLine (int 0) (''main:'' @ [newline] @ '' mov x0, 1 // one'' @ [newline] @ ''ret'') = Some 2"
    by code_simp
  from fallback_text_is_the_line [OF this]
  have "nth_opt (indexedInstructionText (stripSourceLines
     (''main:'' @ [newline] @ '' mov x0, 1 // one'' @ [newline] @ ''ret''))) 0
     = Some (stripSourceLines (''main:'' @ [newline] @ '' mov x0, 1 // one'' @ [newline] @ ''ret'') ! (2 - 1))"
    by blast
  also have "stripSourceLines (''main:'' @ [newline] @ '' mov x0, 1 // one'' @ [newline] @ ''ret'') ! (2 - 1)
     = ''mov x0, 1''" by code_simp
  finally show ?thesis .
qed

text \<open>A breakpoint asked for on line \<open>line\<close> lands on an instruction of the map whose own
  line is the first mapped line at or after it, and the map leads from that address
  back to that line, when the linker lists each address once.\<close>

theorem breakpoint_line:
  assumes "distinct (map fst ps)" "lineToAddrFromMap line (parseLineMap (Some (flatten_pairs ps))) = Some addr"
  shows "\<exists>l \<ge> line. (addr, l) \<in> set ps \<and>
    pcToSourceLineFromMap addr (parseLineMap (Some (flatten_pairs ps))) = Some l \<and>
    list_all (\<lambda>p. snd p < line \<or> l \<le> snd p) ps"
proof -
  let ?m = "parseLineMap (Some (flatten_pairs ps))"
  note r = reflects_parse [of ps, unfolded reflects_def]
  obtain l where l: "(l, addr) \<in> set (lineToAddr ?m)" "line \<le> l"
    "\<And>l' a'. (l', a') \<in> set (lineToAddr ?m) \<Longrightarrow> line \<le> l' \<Longrightarrow> l \<le> l'"
    using lineToAddr_Some [OF assms(2)] by blast
  have "map_of (map prod.swap ps) l = Some addr" using l(1) r by (metis map_of_is_SomeI)
  then have mem: "(addr, l) \<in> set ps" by (auto dest!: map_of_SomeD)
  have "map_of (rev ps) addr = Some l"
    using mem assms(1) by (intro map_of_is_SomeI) (simp_all add: rev_map [symmetric])
  moreover have "snd p < line \<or> l \<le> snd p" if "p \<in> set ps" for p
  proof -
    have "(snd p, fst p) \<in> set (map prod.swap ps)" using that by (force simp: prod.swap_def)
    then obtain a' where "map_of (map prod.swap ps) (snd p) = Some a'" by (metis weak_map_of_SomeI)
    then have "(snd p, a') \<in> set (lineToAddr ?m)" using r by (metis map_of_SomeD)
    then show ?thesis using l(3) by force
  qed
  ultimately show ?thesis
    using l(2) mem r by (auto simp: pcToSourceLineFromMap_def list_all_iff)
qed

theorem breakpoint_line_witness:
  "pcToSourceLineFromMap 0x400004 (parseLineMap (Some (flatten_pairs [(0x400000, 3), (0x400004, 7)]))) = Some 7"
proof -
  have d: "distinct (map fst [(0x400000 :: int, 3 :: int), (0x400004, 7)])" by simp
  have "lineToAddrFromMap 5 (parseLineMap (Some (flatten_pairs [(0x400000, 3), (0x400004, 7)]))) = Some 0x400004"
    by code_simp
  from breakpoint_line [OF d this] show ?thesis by auto
qed

text \<open>The listing has one entry per word, in address order from the base, and the hex
  shown is the little-endian word of the four code bytes there, missing bytes as 0.\<close>

theorem listing_words:
  assumes "byte_list bs" "i < count"
  shows "length (buildDisassembly base count bs source m) = count \<and>
    di_address (buildDisassembly base count bs source m ! i) = base + 4 * int i \<and>
    di_hex (buildDisassembly base count bs source m ! i) =
      ''0x'' @ padStart 8 (CHR ''0'') (to_string 16
        (byte_at bs (4 * i) + 2 ^ 8 * byte_at bs (4 * i + 1) + 2 ^ 16 * byte_at bs (4 * i + 2)
         + 2 ^ 24 * byte_at bs (4 * i + 3)))"
proof -
  let ?w = "code_word bs (4 * i)"
  have "- (2 ^ 31) \<le> ?w \<and> ?w < 2 ^ 31"
    by (rule code_word_range [OF assms(1)])
  then have "formatWord32 ?w = ''0x'' @ padStart 8 (CHR ''0'') (to_string 16 (?w mod 2 ^ 32))"
    by (auto simp: formatWord32_def Let_def mod_pos_pos_trivial)
  then have h: "formatWord32 (code_word bs (i * 4)) = ''0x'' @ padStart 8 (CHR ''0'') (to_string 16
      (byte_at bs (4 * i) + 2 ^ 8 * byte_at bs (4 * i + 1) + 2 ^ 16 * byte_at bs (4 * i + 2)
         + 2 ^ 24 * byte_at bs (4 * i + 3)))"
    unfolding code_word_mod [OF assms(1)] by (simp only: mult.commute)
  have "buildDisassembly base count bs source m ! i =
      disassemble_one base bs (stripSourceLines source)
        (indexedInstructionText (stripSourceLines source)) m i"
    using assms(2) by (simp add: buildDisassembly_def Let_def)
  then show ?thesis
    unfolding h [symmetric] by (simp add: disassemble_one_def Let_def) (simp add: buildDisassembly_def Let_def)
qed

theorem listing_words_witness:
  "di_hex (buildDisassembly 0x400000 1 [0xC0, 0x03, 0x5F, 0xD6] ''ret'' emptyLineMap ! 0) = ''0xd65f03c0''"
proof -
  have b: "byte_list [0xC0, 0x03, 0x5F, 0xD6]" by code_simp
  have v: "to_string 16 (0xC0 + 2 ^ 8 * 0x03 + 2 ^ 16 * 0x5F + 2 ^ 24 * 0xD6) = ''d65f03c0''"
    by (simp add: to_string_def nat_to_string.simps digit_char_def) code_simp
  show ?thesis
    using listing_words [OF b, of 0 1 "0x400000" "''ret''" emptyLineMap] v
    by (simp add: byte_at_def nth_opt_conv padStart_def)
qed

end
