(* ===== verification/Replay.thy ===== *)
theory Replay
  imports Prelude
begin

text \<open>
  The step scrubber's ring of register frames, \<open>web/lib/emulator/replay.ts\<close>.  The
  locale \<open>bounded_log\<close> is what the scrubber relies on: a push keeps at most
  \<open>capacity\<close> entries, dropping from the front.  From it alone follows that the log is
  always the most recent entries of everything pushed; it is interpreted on
  \<open>ReplayRing\<close>.
\<close>

record ReplayFrame =
  stepCount :: int
  registers :: "jstring list"
  rf_sp :: jstring
  fpRegisters :: "jstring list"
  vectorRegisters :: "jstring list"
  rf_pc :: int
  rf_nzcv :: int
  changedRegs :: "int list"
  changedFpRegs :: "int list"
  currentLine :: "int option"

record ReplayRing =
  frames :: "ReplayFrame list"
  cap :: nat

datatype ring_error = CapacityNotPositive

definition new_ring :: "int \<Rightarrow> ring_error + ReplayRing" where
  "new_ring c = (if c \<le> 0 then Inl CapacityNotPositive else Inr \<lparr>frames = [], cap = nat c\<rparr>)"

definition push :: "ReplayFrame \<Rightarrow> ReplayRing \<Rightarrow> ReplayRing" where
  "push frame r =
     (let fs = frames r @ [frame] in
      r\<lparr>frames := (if length fs > cap r then tl fs else fs)\<rparr>)"

definition range :: "ReplayRing \<Rightarrow> ReplayFrame list" where
  "range r = frames r"

definition ring_size :: "ReplayRing \<Rightarrow> nat" where
  "ring_size r = length (frames r)"

definition ring_at :: "ReplayRing \<Rightarrow> int \<Rightarrow> ReplayFrame option" where
  "ring_at r idx = (if idx < 0 then None else nth_opt (frames r) (nat idx))"

definition clear :: "ReplayRing \<Rightarrow> ReplayRing" where
  "clear r = r\<lparr>frames := []\<rparr>"

subsection \<open>The interface\<close>

text \<open>The last \<open>n\<close> entries of a list.\<close>

definition latest :: "nat \<Rightarrow> 'a list \<Rightarrow> 'a list" where
  "latest n xs = drop (length xs - n) xs"

lemma latest_small: "length xs \<le> n \<Longrightarrow> latest n xs = xs"
  by (simp add: latest_def)

lemma length_latest: "length (latest n xs) = min n (length xs)"
  by (auto simp: latest_def)

lemma latest_snoc:
  assumes "0 < n"
  shows "latest n (latest n xs @ [x]) = latest n (xs @ [x])"
proof (cases "length xs \<le> n")
  case False
  then have "Suc (length xs - n) = Suc (length xs) - n" by simp
  then show ?thesis using False assms by (simp add: latest_def)
qed (simp add: latest_def)

locale bounded_log =
  fixes capacity :: "'s \<Rightarrow> nat" and contents :: "'s \<Rightarrow> 'a list" and add :: "'a \<Rightarrow> 's \<Rightarrow> 's"
    and valid :: "'s \<Rightarrow> bool"
  assumes capacity_pos: "valid s \<Longrightarrow> 0 < capacity s"
    and bounded: "valid s \<Longrightarrow> length (contents s) \<le> capacity s"
    and contents_add: "valid s \<Longrightarrow> contents (add x s) = latest (capacity s) (contents s @ [x])"
    and valid_add: "valid s \<Longrightarrow> valid (add x s)"
    and capacity_add: "valid s \<Longrightarrow> capacity (add x s) = capacity s"
begin

lemma fold_valid: "valid s \<Longrightarrow> valid (fold add xs s) \<and> capacity (fold add xs s) = capacity s"
  by (induction xs arbitrary: s) (auto simp: valid_add capacity_add)

lemma contents_fold:
  assumes "valid s"
  shows "contents (fold add xs s) = latest (capacity s) (contents s @ xs)"
proof (induction xs rule: rev_induct)
  case Nil
  show ?case using bounded [OF assms] by (simp add: latest_small)
next
  case (snoc x xs)
  note f = fold_valid [OF assms, of xs]
  have "contents (fold add (xs @ [x]) s) = latest (capacity s) (latest (capacity s) (contents s @ xs) @ [x])"
    using f snoc by (simp add: contents_add)
  then show ?case using capacity_pos [OF assms] by (simp add: latest_snoc)
qed

end

definition ring_ok :: "ReplayRing \<Rightarrow> bool" where
  "ring_ok r \<longleftrightarrow> 0 < cap r \<and> length (frames r) \<le> cap r"

lemma frames_push:
  assumes "ring_ok r"
  shows "frames (push f r) = latest (cap r) (frames r @ [f])"
proof (cases "length (frames r) < cap r")
  case True
  then show ?thesis by (simp add: push_def Let_def latest_def)
next
  case False
  then have "Suc (length (frames r)) - cap r = 1" using assms by (simp add: ring_ok_def)
  then show ?thesis
    using False assms by (cases "frames r") (auto simp: push_def Let_def latest_def ring_ok_def)
qed

lemma cap_push: "cap (push f r) = cap r"
  by (simp add: push_def Let_def)

interpretation ring: bounded_log cap frames push ring_ok
proof
  show "ring_ok s \<Longrightarrow> ring_ok (push x s)" for s x
    by (auto simp: ring_ok_def push_def Let_def)
qed (simp_all add: frames_push cap_push, simp_all add: ring_ok_def)

subsection \<open>Properties\<close>

text \<open>From a new ring of capacity \<open>c\<close>, after any pushes the scrubber's range is exactly
  the last \<open>c\<close> frames pushed, oldest first, and \<open>at\<close> reads it by index and answers null
  outside it.\<close>

theorem replay_keeps_the_latest:
  assumes "new_ring c = Inr r"
  shows "range (fold push fs r) = latest (nat c) fs \<and>
    ring_at (fold push fs r) i = (if 0 \<le> i \<and> i < int (min (nat c) (length fs))
                             then Some (latest (nat c) fs ! nat i) else None)"
proof -
  have r: "ring_ok r" "frames r = []" "cap r = nat c"
    using assms by (auto simp: new_ring_def ring_ok_def split: if_splits)
  have "frames (fold push fs r) = latest (nat c) fs"
    using ring.contents_fold [OF r(1), of fs] r by simp
  then show ?thesis
    by (auto simp: range_def ring_at_def nth_opt_conv length_latest)
qed

definition frame_of_step :: "int \<Rightarrow> ReplayFrame" where
  "frame_of_step n =
     \<lparr>stepCount = n, registers = [], rf_sp = ''0x0'', fpRegisters = [], vectorRegisters = [],
      rf_pc = 4 * n, rf_nzcv = 0, changedRegs = [], changedFpRegs = [], currentLine = None\<rparr>"

theorem replay_keeps_the_latest_witness:
  "range (fold push (map frame_of_step [1, 2, 3]) \<lparr>frames = [], cap = 2\<rparr>) = map frame_of_step [2, 3]"
proof -
  have "new_ring 2 = Inr \<lparr>frames = [], cap = 2\<rparr>" by (simp add: new_ring_def)
  from replay_keeps_the_latest [OF this, of "map frame_of_step [1, 2, 3]" 0]
  show ?thesis by (simp add: latest_def)
qed

end
