(* ===== verification/StackFrames.thy ===== *)
theory StackFrames
  imports RegisterText
begin

unbundle bit_operations_syntax

text \<open>
  The stack frames view, \<open>web/lib/emulator/stack-frames.ts\<close> with the row layout of
  \<open>frame-data.ts\<close>: the machine's call stack and the program's frame layout decoded from
  the numbers the wasm module sends, and the drawing of each frame as boxes.  The
  numbers are whole (the Rust side writes unsigned integers and -1), so they are
  \<open>int\<close>; a count among them is never negative.  A width among them is positive, being
  the size of a memory access; theorems that need it say so.

  The lemmas: the boxes of a drawn frame tile it from its low end to its top with no gap
  and no overlap, every address of a drawn frame lands in a box, the ranges read from
  the stack are sorted and disjoint and cover the frames, and the rows decode to what
  was encoded.
\<close>

subsection \<open>frame-data.ts\<close>

record FrameLayoutPayload =
  numbers :: "int list"
  payload_names :: "jstring list"

record FrameExports =
  ex_frames :: "int list option"
  ex_frame_layout :: "int list option"
  ex_frame_names :: "jstring list option"

definition readFrames :: "FrameExports \<Rightarrow> int list option" where
  "readFrames emu = ex_frames emu"

definition readFrameLayout :: "FrameExports \<Rightarrow> FrameLayoutPayload option" where
  "readFrameLayout emu =
     (case (ex_frame_layout emu, ex_frame_names emu) of
        (Some ns, Some names) \<Rightarrow> Some \<lparr>numbers = ns, payload_names = names\<rparr>
      | _ \<Rightarrow> None)"

definition FRAMES_HEADER :: nat where "FRAMES_HEADER = 17"
definition FRAME_ROW :: nat where "FRAME_ROW = 18"

text \<open>\<open>n[i]\<close>.  Every read below is within the length the decoder has checked, except in
  \<open>callDepth\<close> and \<open>calleeLeftovers\<close>, which trust the sender; out of range the model reads
  0 where the source reads \<open>undefined\<close>.\<close>

definition num :: "int list \<Rightarrow> nat \<Rightarrow> int" where
  "num n i = (case nth_opt n i of None \<Rightarrow> 0 | Some v \<Rightarrow> v)"

definition callDepth :: "int list \<Rightarrow> int" where
  "callDepth n = num n 8 + num n 2 + num n 1"

definition calleeLeftovers :: "int list option \<Rightarrow> int list" where
  "calleeLeftovers frames =
     (case frames of None \<Rightarrow> []
      | Some n \<Rightarrow>
          map (\<lambda>k. num n (FRAMES_HEADER + nat (num n 8) * FRAME_ROW + k * 2)) [0 ..< nat (num n 9)])"

subsection \<open>Decoding the call stack\<close>

datatype FrameState = Complete | Entered | Reserved | Leaf | Nonstandard | NoRecord

definition FRAME_STATE :: "FrameState \<Rightarrow> int" where
  "FRAME_STATE s =
     (case s of Complete \<Rightarrow> 0 | Entered \<Rightarrow> 1 | Reserved \<Rightarrow> 2 | Leaf \<Rightarrow> 3 | Nonstandard \<Rightarrow> 4 | NoRecord \<Rightarrow> 5)"

definition LR_UNSAVED :: int where "LR_UNSAVED = 1"
definition RUNTIME_CALL :: int where "RUNTIME_CALL = 2"

record FrameHit =
  h_step :: int
  h_pc :: int
  h_element :: "int option"
  h_arrayName :: "int option"

record FrameRow =
  r_index :: int
  r_entry :: int
  r_callPc :: int
  r_retAddr :: int
  r_spEntry :: int
  r_lo :: int
  r_fpEntry :: int
  r_record :: int
  r_state :: int
  r_flags :: int
  r_fpHit :: "FrameHit option"
  r_lrHit :: "FrameHit option"

record BadCall =
  bc_index :: int
  bc_entry :: int
  bc_retAddr :: int
  bc_flags :: int
  bc_lastRet :: int
  bc_lrHit :: "FrameHit option"

record BadReturn =
  br_step :: int
  br_pc :: int
  br_target :: int
  br_call :: BadCall

record FramesSnapshot =
  s_step :: int
  s_uncounted :: int
  s_hidden :: int
  s_hiddenEntry :: int
  s_chainOk :: bool
  s_badReturn :: "BadReturn option"
  s_frames :: "FrameRow list"
  s_leftovers :: "(int \<times> int) list"

definition hit :: "int \<Rightarrow> int \<Rightarrow> int \<Rightarrow> int \<Rightarrow> FrameHit option" where
  "hit step pc element name =
     (if step = 0 then None
      else Some \<lparr>h_step = step, h_pc = pc,
                 h_element = (if element < 0 then None else Some element),
                 h_arrayName = (if name < 0 then None else Some name)\<rparr>)"

definition decode_row :: "int list \<Rightarrow> nat \<Rightarrow> FrameRow" where
  "decode_row n r =
     \<lparr>r_index = num n r, r_entry = num n (r + 1), r_callPc = num n (r + 2), r_retAddr = num n (r + 3),
      r_spEntry = num n (r + 4), r_lo = num n (r + 5), r_fpEntry = num n (r + 6),
      r_record = num n (r + 7), r_state = num n (r + 8), r_flags = num n (r + 9),
      r_fpHit = hit (num n (r + 10)) (num n (r + 11)) (num n (r + 12)) (num n (r + 13)),
      r_lrHit = hit (num n (r + 14)) (num n (r + 15)) (num n (r + 16)) (num n (r + 17))\<rparr>"

definition decode_bad_return :: "int list \<Rightarrow> BadReturn option" where
  "decode_bad_return n =
     (if num n 5 = 0 then None
      else Some \<lparr>br_step = num n 5, br_pc = num n 6, br_target = num n 7,
                 br_call = \<lparr>bc_index = num n 10, bc_entry = num n 11, bc_retAddr = num n 12,
                            bc_flags = num n 13, bc_lastRet = num n 14,
                            bc_lrHit = hit (num n 15) (num n 16) (-1) (-1)\<rparr>\<rparr>)"

definition decodeFrames :: "int list \<Rightarrow> FramesSnapshot option" where
  "decodeFrames n =
     (if length n < FRAMES_HEADER then None
      else
        let count = nat (num n 8); left = nat (num n 9);
            rows_end = FRAMES_HEADER + count * FRAME_ROW in
        if length n < rows_end + left * 2 then None
        else Some
          \<lparr>s_step = num n 0, s_uncounted = num n 1, s_hidden = num n 2, s_hiddenEntry = num n 3,
           s_chainOk = (num n 4 = 1), s_badReturn = decode_bad_return n,
           s_frames = map (\<lambda>i. decode_row n (FRAMES_HEADER + i * FRAME_ROW)) [0 ..< count],
           s_leftovers = map (\<lambda>k. (num n (rows_end + k * 2), num n (rows_end + k * 2 + 1))) [0 ..< left]\<rparr>)"

subsection \<open>Decoding the frame layout\<close>

record FrameSlot =
  sl_offset :: int
  sl_width :: int
  sl_float :: bool
  sl_name :: "jstring option"
  sl_field :: "jstring option"

record FrameArray =
  ar_offset :: int
  ar_width :: int
  ar_name :: "jstring option"

record FunctionLayout =
  f_entry :: int
  f_end :: int
  f_name :: "jstring option"
  f_frameBytes :: int
  f_makesRecord :: bool
  f_slots :: "FrameSlot list"
  f_arrays :: "FrameArray list"

record FrameLayout =
  l_names :: "jstring list"
  l_functions :: "FunctionLayout list"

definition name_at :: "jstring list \<Rightarrow> int \<Rightarrow> jstring option" where
  "name_at names nid = (if nid < 0 then None else nth_opt names (nat nid))"

definition decode_slot :: "jstring list \<Rightarrow> int list \<Rightarrow> nat \<Rightarrow> FrameSlot" where
  "decode_slot names n i =
     \<lparr>sl_offset = num n i, sl_width = num n (i + 1), sl_float = (num n (i + 2) = 1),
      sl_name = name_at names (num n (i + 3)), sl_field = name_at names (num n (i + 4))\<rparr>"

definition decode_array :: "jstring list \<Rightarrow> int list \<Rightarrow> nat \<Rightarrow> FrameArray" where
  "decode_array names n i =
     \<lparr>ar_offset = num n i, ar_width = num n (i + 1), ar_name = name_at names (num n (i + 2))\<rparr>"

text \<open>The loop over the functions: how many are left, and the place \<open>i\<close> in the numbers.
  The result is the functions and the place after the last.\<close>

fun decode_functions ::
    "jstring list \<Rightarrow> int list \<Rightarrow> nat \<Rightarrow> nat \<Rightarrow> (FunctionLayout list \<times> nat) option" where
  "decode_functions names n 0 i = Some ([], i)"
| "decode_functions names n (Suc left) i =
     (if i + 7 > length n then None
      else
        let slotCount = nat (num n (i + 5)); arrayCount = nat (num n (i + 6));
            j = i + 7; k = j + slotCount * 5 in
        if k + arrayCount * 3 > length n then None
        else case decode_functions names n left (k + arrayCount * 3) of
          None \<Rightarrow> None
        | Some (fs, e) \<Rightarrow>
            Some (\<lparr>f_entry = num n i, f_end = num n (i + 1), f_name = name_at names (num n (i + 2)),
                   f_frameBytes = num n (i + 3), f_makesRecord = (num n (i + 4) = 1),
                   f_slots = map (\<lambda>s. decode_slot names n (j + s * 5)) [0 ..< slotCount],
                   f_arrays = map (\<lambda>a. decode_array names n (k + a * 3)) [0 ..< arrayCount]\<rparr> # fs, e))"

definition decodeFrameLayout :: "FrameLayoutPayload \<Rightarrow> FrameLayout option" where
  "decodeFrameLayout p =
     (let n = numbers p; names = payload_names p in
      case decode_functions names n (nat (num n 0)) 1 of
        None \<Rightarrow> None
      | Some (fs, e) \<Rightarrow>
          if e = length n \<or> length n = 0 then Some \<lparr>l_names = names, l_functions = fs\<rparr> else None)"

subsection \<open>Texts\<close>

datatype BoxKind = BSaved | BLocal | BPadding | BReserved

record Base =
  b_at :: int
  b_name :: jstring

record StackBox =
  x_addr :: int
  x_size :: int
  x_offset :: jstring
  x_kind :: BoxKind
  x_title :: jstring
  x_name :: "jstring option"
  x_detail :: jstring
  x_overwritten :: bool
  x_wrote :: bool
  x_marker :: jstring

record DrawnFrame =
  d_index :: int
  d_name :: jstring
  d_bytes :: int
  d_from :: "jstring option"
  d_state :: "jstring option"
  d_base :: Base
  d_boxes :: "StackBox list"

record DrawnStack =
  k_frames :: "DrawnFrame list"
  k_folded :: "jstring option"
  k_untracked :: "jstring option"
  k_depth :: int

record StackBytes =
  sb_addr :: int
  sb_bytes :: "int list"

record DrawInput =
  i_snapshot :: FramesSnapshot
  i_layout :: "FrameLayout option"
  i_sp :: int
  i_fp :: int
  i_pc :: int
  i_memory :: "StackBytes list"
  i_written :: "(int \<times> int) list"
  i_regions :: "MemoryRegion list"
  i_lineLabel :: "int \<Rightarrow> jstring option"

definition STATE_WORDS :: "int \<Rightarrow> jstring option" where
  "STATE_WORDS s =
     (if s = FRAME_STATE Entered then Some ''just entered, nothing pushed yet''
      else if s = FRAME_STATE Reserved then Some ''frame reserved, fp not set yet''
      else if s = FRAME_STATE Leaf then Some ''leaf: no frame of its own''
      else if s = FRAME_STATE Nonstandard then Some ''nonstandard frame''
      else if s = FRAME_STATE NoRecord then Some ''no frame record''
      else None)"

definition MAX_ELEMENTS :: int where "MAX_ELEMENTS = 32"
definition MAX_READ :: int where "MAX_READ = 16 * 1024"

text \<open>\<open>Intl.NumberFormat("en-US").format\<close> on a whole number: a comma before every group of
  three digits counted from the right.\<close>

fun group3 :: "jstring \<Rightarrow> jstring" where
  "group3 [] = []"
| "group3 [c] = [c]"
| "group3 (c # d # s) =
     (if Suc (length s) mod 3 = 0 then c # CHR '','' # group3 (d # s) else c # group3 (d # s))"

definition COUNT_format :: "int \<Rightarrow> jstring" where
  "COUNT_format n = (if n < 0 then ''-'' else []) @ group3 (show_int \<bar>n\<bar>)"

definition hex :: "int \<Rightarrow> jstring" where
  "hex v = ''0x'' @ padStart 8 (CHR ''0'') (to_string 16 v)"

definition plural :: "int \<Rightarrow> jstring \<Rightarrow> jstring" where
  "plural count word = COUNT_format count @ '' '' @ word @ (if count = 1 then [] else ''s'')"

definition offsetText :: "int \<Rightarrow> Base \<Rightarrow> jstring" where
  "offsetText addr base =
     (let delta = addr - b_at base in
      b_name base @ '' '' @ (if delta < 0 then ''-'' else ''+'') @ '' '' @ show_int \<bar>delta\<bar>)"

subsection \<open>The bytes to read\<close>

text \<open>The loop that merges spans: \<open>merged\<close> with its last element apart.\<close>

fun merge_spans :: "int \<times> int \<Rightarrow> (int \<times> int) list \<Rightarrow> (int \<times> int) list" where
  "merge_spans s [] = [s]"
| "merge_spans (l, h) ((lo, hi) # rest) =
     (if lo \<le> h then merge_spans (l, max h hi) rest else (l, h) # merge_spans (lo, hi) rest)"

definition frame_spans :: "FramesSnapshot \<Rightarrow> (int \<times> int) list" where
  "frame_spans snapshot =
     sort_key fst
       (map (\<lambda>f. (r_lo f, r_spEntry f)) (filter (\<lambda>f. r_spEntry f > r_lo f) (s_frames snapshot)))"

definition merged_spans :: "(int \<times> int) list \<Rightarrow> (int \<times> int) list" where
  "merged_spans spans = (case spans of [] \<Rightarrow> [] | s # rest \<Rightarrow> merge_spans s rest)"

definition rangesToRead :: "FramesSnapshot \<Rightarrow> (int \<times> int) list" where
  "rangesToRead snapshot =
     map (\<lambda>(lo, hi). (lo, min (hi - lo) MAX_READ)) (merged_spans (frame_spans snapshot))"

fun bytesAt :: "StackBytes list \<Rightarrow> int \<Rightarrow> int \<Rightarrow> int list option" where
  "bytesAt [] addr n = None"
| "bytesAt (sp # rest) addr n =
     (let start = addr - sb_addr sp in
      if start \<ge> 0 \<and> start + n \<le> int (length (sb_bytes sp))
      then Some (js_slice (sb_bytes sp) (nat start) (nat (start + n)))
      else bytesAt rest addr n)"

definition littleEndian :: "int list \<Rightarrow> int" where
  "littleEndian bytes = foldr (\<lambda>b value. push_bit 8 value OR b) bytes 0"

definition wordAt :: "StackBytes list \<Rightarrow> int \<Rightarrow> int option" where
  "wordAt memory addr = map_option littleEndian (bytesAt memory addr 8)"

definition INT_KINDS :: "int \<Rightarrow> jstring option" where
  "INT_KINDS w =
     (if w = 1 then Some ''char'' else if w = 2 then Some ''short''
      else if w = 4 then Some ''int'' else if w = 8 then Some ''long'' else None)"

definition width_of_bytes :: "int \<Rightarrow> Width" where
  "width_of_bytes w = (if w = 1 then W8 else if w = 2 then W16 else if w = 4 then W32 else W64)"

record Typed =
  ty_kind :: "jstring option"
  ty_value :: "jstring option"

definition MAX_SAFE_INTEGER :: int where "MAX_SAFE_INTEGER = 2 ^ 53 - 1"

definition typed :: "int option \<Rightarrow> int \<Rightarrow> bool \<Rightarrow> MemoryRegion list \<Rightarrow> Typed" where
  "typed bits width float regions =
     (if float \<and> (width = 4 \<or> width = 8) then
        \<lparr>ty_kind = Some (if width = 4 then ''float'' else ''double''),
         ty_value = map_option (\<lambda>b. floatText b (if width = 4 then F32 else F64)) bits\<rparr>
      else if width = 8 \<and> (case bits of None \<Rightarrow> False
                 | Some b \<Rightarrow> b \<le> MAX_SAFE_INTEGER \<and> regionFor b regions \<noteq> None) then
        \<lparr>ty_kind = Some ''pointer'', ty_value = map_option hex bits\<rparr>
      else case INT_KINDS width of
             None \<Rightarrow> \<lparr>ty_kind = None, ty_value = map_option hex bits\<rparr>
           | Some kind \<Rightarrow>
               \<lparr>ty_kind = Some kind,
                ty_value = map_option (\<lambda>b. ir_signed (integerReading b (width_of_bytes width))) bits\<rparr>)"

subsection \<open>The named places of a frame\<close>

record Item =
  it_offset :: int
  it_width :: int
  it_float :: bool
  it_label :: jstring
  it_name :: "jstring option"
  it_more :: "(int \<times> int) option"

definition array_label :: "jstring \<Rightarrow> int \<Rightarrow> jstring" where
  "array_label name k = name @ ''['' @ show_int k @ '']''"

definition array_items :: "int list \<Rightarrow> int \<Rightarrow> FrameArray \<Rightarrow> Item list" where
  "array_items offsets tp arr =
     (let e = foldl min tp (filter (\<lambda>o'. o' > ar_offset arr) offsets);
          count = max 0 ((e - ar_offset arr) div ar_width arr);
          name = case_option ''array'' (\<lambda>x. x) (ar_name arr);
          elements = map (\<lambda>k. let label = array_label name (int k) in
                            \<lparr>it_offset = ar_offset arr + int k * ar_width arr, it_width = ar_width arr,
                             it_float = False, it_label = label, it_name = Some label, it_more = None\<rparr>)
                       [0 ..< nat (min count MAX_ELEMENTS)]
      in if count > MAX_ELEMENTS
         then let rest = count - MAX_ELEMENTS in
           elements @ [\<lparr>it_offset = ar_offset arr + MAX_ELEMENTS * ar_width arr,
                        it_width = rest * ar_width arr, it_float = False,
                        it_label = array_label name MAX_ELEMENTS @ '' to '' @ array_label name (count - 1),
                        it_name = None, it_more = Some (rest, ar_width arr)\<rparr>]
         else elements)"

definition slot_item :: "FrameSlot \<Rightarrow> Item" where
  "slot_item slot =
     (let label = (case sl_field slot of
            Some (c # cs) \<Rightarrow> case_option ''?'' (\<lambda>x. x) (sl_name slot) @ ''.'' @ (c # cs)
          | _ \<Rightarrow> case_option (''[fp, '' @ show_int (sl_offset slot) @ '']'') (\<lambda>x. x) (sl_name slot))
      in \<lparr>it_offset = sl_offset slot, it_width = sl_width slot, it_float = sl_float slot,
          it_label = label,
          it_name = (case sl_name slot of None \<Rightarrow> None | Some [] \<Rightarrow> Some [] | Some _ \<Rightarrow> Some label),
          it_more = None\<rparr>)"

fun keep_items :: "int \<Rightarrow> int \<Rightarrow> Item list \<Rightarrow> Item list" where
  "keep_items tp e [] = []"
| "keep_items tp e (item # rest) =
     (if it_offset item < e \<or> it_offset item + it_width item > tp then keep_items tp e rest
      else item # keep_items tp (it_offset item + it_width item) rest)"

definition itemsOf :: "FunctionLayout option \<Rightarrow> int \<Rightarrow> Item list" where
  "itemsOf fn tp =
     (case fn of None \<Rightarrow> []
      | Some f \<Rightarrow>
          let offsets = map sl_offset (f_slots f) @ map ar_offset (f_arrays f);
              items = concat (map (array_items offsets tp) (f_arrays f)) @ map slot_item (f_slots f)
          in keep_items tp 16 (sort_key it_offset items))"

subsection \<open>Drawing\<close>

definition fnAt :: "FrameLayout option \<Rightarrow> int \<Rightarrow> FunctionLayout option" where
  "fnAt layout entry =
     (case layout of None \<Rightarrow> None | Some l \<Rightarrow> find (\<lambda>f. f_entry f = entry) (l_functions l))"

definition nameOf :: "FrameLayout option \<Rightarrow> int \<Rightarrow> jstring" where
  "nameOf layout entry =
     (case Option.bind (fnAt layout entry) f_name of None \<Rightarrow> hex entry | Some name \<Rightarrow> name)"

text \<open>\<open>lineOf\<close> only caches \<open>lineLabel\<close>.  A text is false in a condition when it is empty.\<close>

definition overwritten :: "DrawInput \<Rightarrow> FrameHit \<Rightarrow> jstring" where
  "overwritten input h =
     (case i_lineLabel input (h_pc h) of
        Some (c # cs) \<Rightarrow> ''overwritten by '' @ (c # cs)
      | _ \<Rightarrow> ''overwritten'')"

definition frameName :: "DrawInput \<Rightarrow> int \<Rightarrow> jstring" where
  "frameName input rec =
     (let snapshot = i_snapshot input in
      case find (\<lambda>r. r_record r = rec) (s_frames snapshot) of
        Some owner \<Rightarrow> nameOf (i_layout input) (r_entry owner)
      | None \<Rightarrow>
          if s_hidden snapshot > 0 \<and> s_hiddenEntry snapshot \<noteq> 0
          then nameOf (i_layout input) (s_hiddenEntry snapshot) else ''the caller'')"

definition box ::
    "DrawInput \<Rightarrow> int \<Rightarrow> int \<Rightarrow> Base \<Rightarrow> BoxKind \<Rightarrow> jstring \<Rightarrow> jstring option \<Rightarrow> jstring \<Rightarrow> bool \<Rightarrow> StackBox" where
  "box input addr n base kind title name detail ow =
     (let inside = (\<lambda>reg. reg \<ge> addr \<and> reg < addr + n) in
      \<lparr>x_addr = addr, x_size = n, x_offset = offsetText addr base, x_kind = kind, x_title = title,
       x_name = name, x_detail = detail, x_overwritten = ow,
       x_wrote = list_ex (\<lambda>(a, len). a < addr + n \<and> addr < a + len) (i_written input),
       x_marker = js_join '', ''
         ((if inside (i_sp input) then [''sp''] else []) @ (if inside (i_fp input) then [''fp''] else []))\<rparr>)"

text \<open>The dot between a value and who overwrote it.\<close>

definition dot :: jstring where
  "dot = [CHR '' '', CHR 0xB7, CHR '' '']"

definition saved_fp_box :: "DrawInput \<Rightarrow> FrameRow \<Rightarrow> Base \<Rightarrow> StackBox" where
  "saved_fp_box input row base =
     (let R = r_record row;
          savedFp = wordAt (i_memory input) R;
          changed = (case savedFp of None \<Rightarrow> False | Some v \<Rightarrow> v \<noteq> r_fpEntry row);
          fpText = (if changed then hex (the savedFp)
                    else if r_fpEntry row = 0 then ''0, no caller frame''
                    else frameName input (r_fpEntry row) @ [CHR 0x27] @ ''s frame'');
          fpHit = (if changed then r_fpHit row else None)
      in box input R 8 base BSaved ''saved fp (x29)'' (Some ''saved fp'')
           (case fpHit of None \<Rightarrow> fpText | Some h \<Rightarrow> fpText @ dot @ overwritten input h)
           (fpHit \<noteq> None))"

text \<open>\<open>Number(savedLr)\<close> of a 64-bit word.\<close>

definition to_number :: "int \<Rightarrow> int" where
  "to_number v = (case whole_number_of (nat v) of Whole w \<Rightarrow> w | PosInfinity \<Rightarrow> 0)"

definition saved_lr_box :: "DrawInput \<Rightarrow> FrameRow \<Rightarrow> Base \<Rightarrow> StackBox" where
  "saved_lr_box input row base =
     (let R = r_record row;
          savedLr = wordAt (i_memory input) (R + 8);
          changed = (case savedLr of None \<Rightarrow> False | Some v \<Rightarrow> v \<noteq> r_retAddr row);
          lrLine = (if changed then i_lineLabel input (to_number (the savedLr)) else i_lineLabel input (r_retAddr row));
          lrText = (if changed then hex (the savedLr) @ '' ('' @ case_option ''not code'' (\<lambda>x. x) lrLine @ '')''
                    else if r_flags row AND RUNTIME_CALL \<noteq> 0 then ''back to qsort or bsearch''
                    else ''back to '' @ case_option ''the C runtime'' (\<lambda>x. x) lrLine);
          lrHit = (if changed then r_lrHit row else None)
      in box input (R + 8) 8 base BSaved ''saved lr (x30)'' (Some ''saved lr'')
           (case lrHit of None \<Rightarrow> lrText | Some h \<Rightarrow> lrText @ dot @ overwritten input h)
           (lrHit \<noteq> None))"

definition padding :: "DrawInput \<Rightarrow> Base \<Rightarrow> int \<Rightarrow> int \<Rightarrow> int \<Rightarrow> StackBox list" where
  "padding input base R gap to =
     (if to > gap
      then [box input (R + gap) (to - gap) base BPadding ''padding'' None (plural (to - gap) ''byte'') False]
      else [])"

definition item_box :: "DrawInput \<Rightarrow> Base \<Rightarrow> int \<Rightarrow> Item \<Rightarrow> StackBox" where
  "item_box input base R item =
     (let addr = R + it_offset item in
      case it_more item of
        Some (count, width) \<Rightarrow>
          let each = case_option ''element'' (\<lambda>x. x) (INT_KINDS width) in
          box input addr (it_width item) base BLocal (it_label item) (it_name item)
            (plural count (''more '' @ each) @ '', '' @ plural (it_width item) ''byte'') False
      | None \<Rightarrow>
          let bytes = bytesAt (i_memory input) addr (it_width item);
              t = typed (map_option littleEndian bytes) (it_width item) (it_float item) (i_regions input);
              title = (case ty_value t of None \<Rightarrow> it_label item | Some v \<Rightarrow> it_label item @ '' = '' @ v);
              size = plural (it_width item) ''byte''
          in box input addr (it_width item) base BLocal title (it_name item)
               (case ty_kind t of None \<Rightarrow> size | Some k \<Rightarrow> k @ '', '' @ size) False)"

fun item_boxes :: "DrawInput \<Rightarrow> Base \<Rightarrow> int \<Rightarrow> int \<Rightarrow> int \<Rightarrow> Item list \<Rightarrow> StackBox list" where
  "item_boxes input base R tp gap [] = padding input base R gap tp"
| "item_boxes input base R tp gap (item # rest) =
     padding input base R gap (it_offset item) @ item_box input base R item #
     item_boxes input base R tp (it_offset item + it_width item) rest"

definition has_record :: "FrameRow \<Rightarrow> bool" where
  "has_record row \<longleftrightarrow>
     (let R = r_record row in R \<noteq> 0 \<and> R \<ge> r_lo row \<and> R + 16 \<le> r_spEntry row)"

definition frame_base :: "DrawInput \<Rightarrow> FrameRow \<Rightarrow> Base" where
  "frame_base input row =
     (if has_record row \<and> r_state row \<noteq> FRAME_STATE Reserved
      then \<lparr>b_at = r_record row, b_name = ''fp''\<rparr> else \<lparr>b_at = i_sp input, b_name = ''sp''\<rparr>)"

text \<open>The boxes in the order they are pushed, low addresses first.\<close>

definition frame_boxes :: "DrawInput \<Rightarrow> FrameRow \<Rightarrow> StackBox list" where
  "frame_boxes input row =
     (let base = frame_base input row; R = r_record row; lo = r_lo row; tp = r_spEntry row;
          reserved = (\<lambda>size. box input lo size base BReserved ''reserved'' None (plural size ''byte'') False) in
      if \<not> has_record row then (if tp > lo then [reserved (tp - lo)] else [])
      else (if R > lo then [reserved (R - lo)] else [])
           @ [saved_fp_box input row base, saved_lr_box input row base]
           @ item_boxes input base R (tp - R) 16 (itemsOf (fnAt (i_layout input) (r_entry row)) (tp - R)))"

text \<open>\<open>row === innermost\<close> compares objects, so it is a flag for the last row.\<close>

definition drawFrame :: "DrawInput \<Rightarrow> bool \<Rightarrow> FrameRow \<Rightarrow> DrawnFrame" where
  "drawFrame input is_innermost row =
     (let released = is_innermost \<and> r_state row = FRAME_STATE Entered \<and> i_pc input \<noteq> r_entry row;
          from = (if r_index row = 0 then None
                  else if r_flags row AND RUNTIME_CALL \<noteq> 0 then Some ''called by qsort or bsearch''
                  else (case i_lineLabel input (r_callPc row) of
                          None \<Rightarrow> None
                        | Some [] \<Rightarrow> Some []
                        | Some l \<Rightarrow> Some (''called from '' @ l)))
      in \<lparr>d_index = r_index row,
          d_name = nameOf (i_layout input) (r_entry row),
          d_bytes = r_spEntry row - r_lo row,
          d_from = from,
          d_state = (if released then Some ''frame released, ret comes next'' else STATE_WORDS (r_state row)),
          d_base = frame_base input row,
          d_boxes = rev (frame_boxes input row)\<rparr>)"

definition drawFrames :: "DrawInput \<Rightarrow> DrawnStack" where
  "drawFrames input =
     (let snapshot = i_snapshot input; rows = s_frames snapshot; layout = i_layout input in
      \<lparr>k_frames = map (\<lambda>k. drawFrame input (Suc k = length rows) (rows ! k)) [0 ..< length rows],
       k_folded =
         (if s_hidden snapshot > 0
          then Some (plural (s_hidden snapshot) ''more call''
                     @ (if s_hiddenEntry snapshot \<noteq> 0 then '' of '' @ nameOf layout (s_hiddenEntry snapshot) else []))
          else None),
       k_untracked =
         (if s_uncounted snapshot > 0
          then Some (plural (s_uncounted snapshot) ''deeper frame''
                     @ '' not recorded: the playground records frames only this deep'')
          else None),
       k_depth = int (length rows) + s_hidden snapshot + s_uncounted snapshot\<rparr>)"

record SlotPlace =
  sp_slot :: jstring
  sp_owner :: jstring
  sp_index :: int
  sp_offset :: jstring

fun slot_in :: "DrawnFrame list \<Rightarrow> int \<Rightarrow> SlotPlace option" where
  "slot_in [] addr = None"
| "slot_in (frame # rest) addr =
     (case find (\<lambda>b. addr \<ge> x_addr b \<and> addr < x_addr b + x_size b) (d_boxes frame) of
        None \<Rightarrow> slot_in rest addr
      | Some b \<Rightarrow>
          let into = addr - x_addr b;
              offset = offsetText addr (d_base frame);
              slot = (case x_name b of None \<Rightarrow> offset
                      | Some name \<Rightarrow> if into \<noteq> 0 then name @ '' + '' @ show_int into else name)
          in Some \<lparr>sp_slot = slot, sp_owner = d_name frame, sp_index = d_index frame, sp_offset = offset\<rparr>)"

definition slotAt :: "DrawnStack \<Rightarrow> int \<Rightarrow> SlotPlace option" where
  "slotAt stack addr = slot_in (k_frames stack) addr"

subsection \<open>The boxes tile the frame\<close>

fun tile_range :: "int \<Rightarrow> int \<Rightarrow> StackBox list \<Rightarrow> bool" where
  "tile_range a b [] \<longleftrightarrow> a = b"
| "tile_range a b (x # xs) \<longleftrightarrow> x_addr x = a \<and> 0 < x_size x \<and> tile_range (a + x_size x) b xs"

lemma tile_range_append: "tile_range a b xs \<Longrightarrow> tile_range b c ys \<Longrightarrow> tile_range a c (xs @ ys)"
  by (induction xs arbitrary: a) auto

lemma tile_range_le: "tile_range a b xs \<Longrightarrow> a \<le> b"
  by (induction xs arbitrary: a) force+

lemma tile_range_cover:
  "tile_range a b xs \<Longrightarrow> (\<exists>x \<in> set xs. x_addr x \<le> y \<and> y < x_addr x + x_size x) \<longleftrightarrow> a \<le> y \<and> y < b"
proof (induction xs arbitrary: a)
  case (Cons x xs)
  then have t: "tile_range (a + x_size x) b xs" "x_addr x = a" "0 < x_size x" by auto
  note ih = Cons.IH [OF t(1)]
  have "a + x_size x \<le> b" using tile_range_le [OF t(1)] .
  then show ?case using ih t(2,3) by (auto simp del: tile_range.simps)
qed simp

lemma box_place [simp]:
  "x_addr (box input addr n base kind title name detail ow) = addr"
  "x_size (box input addr n base kind title name detail ow) = n"
  by (simp_all add: box_def Let_def)

lemma padding_tiles: "gap \<le> to \<Longrightarrow> tile_range (R + gap) (R + to) (padding input base R gap to)"
  by (auto simp: padding_def)

lemma item_box_place [simp]:
  "x_addr (item_box input base R item) = R + it_offset item"
  "x_size (item_box input base R item) = it_width item"
  by (auto simp: item_box_def Let_def split: option.splits prod.splits)

lemma saved_box_place [simp]:
  "x_addr (saved_fp_box input row base) = r_record row" "x_size (saved_fp_box input row base) = 8"
  "x_addr (saved_lr_box input row base) = r_record row + 8" "x_size (saved_lr_box input row base) = 8"
  by (simp_all add: saved_fp_box_def saved_lr_box_def Let_def)

text \<open>Items in order, apart, and inside the frame.\<close>

fun placed :: "int \<Rightarrow> int \<Rightarrow> Item list \<Rightarrow> bool" where
  "placed tp gap [] \<longleftrightarrow> gap \<le> tp"
| "placed tp gap (item # rest) \<longleftrightarrow>
     gap \<le> it_offset item \<and> 0 < it_width item \<and> placed tp (it_offset item + it_width item) rest"

lemma item_boxes_tiles:
  "placed tp gap items \<Longrightarrow> tile_range (R + gap) (R + tp) (item_boxes input base R tp gap items)"
proof (induction items arbitrary: gap)
  case (Cons item rest)
  have "tile_range (R + gap) (R + it_offset item) (padding input base R gap (it_offset item))"
    using Cons.prems by (intro padding_tiles) simp
  moreover have "tile_range (R + it_offset item) (R + tp)
      (item_box input base R item # item_boxes input base R tp (it_offset item + it_width item) rest)"
    using Cons by (simp add: add.assoc)
  ultimately show ?case by (simp add: tile_range_append)
qed (simp add: padding_tiles)

lemma keep_items_placed:
  "list_all (\<lambda>i. 0 < it_width i) items \<Longrightarrow> e \<le> tp \<Longrightarrow> placed tp e (keep_items tp e items)"
  by (induction items arbitrary: e) auto

definition widths_ok :: "FunctionLayout \<Rightarrow> bool" where
  "widths_ok f \<longleftrightarrow> list_all (\<lambda>s. 0 < sl_width s) (f_slots f) \<and> list_all (\<lambda>a. 0 < ar_width a) (f_arrays f)"

definition layout_ok :: "FrameLayout option \<Rightarrow> bool" where
  "layout_ok layout \<longleftrightarrow> (case layout of None \<Rightarrow> True | Some l \<Rightarrow> list_all widths_ok (l_functions l))"

lemma array_items_width: "0 < ar_width a \<Longrightarrow> list_all (\<lambda>i. 0 < it_width i) (array_items offsets tp a)"
  by (auto simp: array_items_def Let_def list_all_iff)

lemma itemsOf_placed:
  assumes "\<And>f. fn = Some f \<Longrightarrow> widths_ok f" "16 \<le> tp"
  shows "placed tp 16 (itemsOf fn tp)"
proof (cases fn)
  case None
  then show ?thesis using assms(2) by (simp add: itemsOf_def)
next
  case (Some f)
  have s: "0 < it_width (slot_item s)" if "0 < sl_width s" for s
    using that by (simp add: slot_item_def Let_def)
  have "widths_ok f" using assms(1) Some by simp
  then have "list_all (\<lambda>i. 0 < it_width i)
      (concat (map (array_items offsets tp) (f_arrays f)) @ map slot_item (f_slots f))" for offsets
    using array_items_width s by (fastforce simp: widths_ok_def list_all_iff)
  then have "list_all (\<lambda>i. 0 < it_width i)
      (sort_key it_offset (concat (map (array_items offsets tp) (f_arrays f)) @ map slot_item (f_slots f)))" for offsets
    by (simp add: list_all_iff)
  then show ?thesis using assms(2) by (simp add: itemsOf_def Some Let_def keep_items_placed)
qed

lemma fnAt_ok:
  assumes "layout_ok layout" "fnAt layout entry = Some f"
  shows "widths_ok f"
  using assms by (auto simp: layout_ok_def fnAt_def list_all_iff find_Some_iff split: option.splits)

lemma frame_boxes_tiles:
  assumes "layout_ok (i_layout input)" "r_lo row \<le> r_spEntry row"
  shows "tile_range (r_lo row) (r_spEntry row) (frame_boxes input row)"
proof (cases "has_record row")
  case False
  then show ?thesis using assms(2) by (simp add: frame_boxes_def Let_def)
next
  case True
  let ?R = "r_record row" and ?base = "frame_base input row"
  let ?tp = "r_spEntry row - ?R"
  have R: "r_lo row \<le> ?R" "16 \<le> ?tp" using True by (auto simp: has_record_def Let_def)
  have "placed ?tp 16 (itemsOf (fnAt (i_layout input) (r_entry row)) ?tp)"
    using R(2) fnAt_ok [OF assms(1)] by (intro itemsOf_placed)
  from item_boxes_tiles [OF this, of ?R]
  have "tile_range (?R + 16) (r_spEntry row)
      (item_boxes input ?base ?R ?tp 16 (itemsOf (fnAt (i_layout input) (r_entry row)) ?tp))" by simp
  moreover have "tile_range (r_lo row) (?R + 16)
      ((if ?R > r_lo row then [box input (r_lo row) (?R - r_lo row) ?base BReserved ''reserved'' None
          (plural (?R - r_lo row) ''byte'') False] else [])
       @ [saved_fp_box input row ?base, saved_lr_box input row ?base])"
    using R(1) by auto
  ultimately have "tile_range (r_lo row) (r_spEntry row)
      (((if ?R > r_lo row then [box input (r_lo row) (?R - r_lo row) ?base BReserved ''reserved'' None
          (plural (?R - r_lo row) ''byte'') False] else [])
       @ [saved_fp_box input row ?base, saved_lr_box input row ?base])
       @ item_boxes input ?base ?R ?tp 16 (itemsOf (fnAt (i_layout input) (r_entry row)) ?tp))"
    by (rule tile_range_append [rotated])
  then show ?thesis using True by (simp only: frame_boxes_def Let_def append_assoc if_False not_True_eq_False)
qed

subsection \<open>Where an address lands\<close>

definition frame_hits :: "int \<Rightarrow> DrawnFrame \<Rightarrow> bool" where
  "frame_hits addr f \<longleftrightarrow> (\<exists>b \<in> set (d_boxes f). x_addr b \<le> addr \<and> addr < x_addr b + x_size b)"

lemma slot_in_None: "slot_in fs addr = None \<longleftrightarrow> list_all (\<lambda>f. \<not> frame_hits addr f) fs"
  by (induction fs)
    (auto simp: frame_hits_def find_None_iff Let_def split: option.splits dest: find_Some_iff [THEN iffD1])

subsection \<open>The ranges read\<close>

abbreviation in_span :: "int \<Rightarrow> int \<times> int \<Rightarrow> bool" where
  "in_span a s \<equiv> fst s \<le> a \<and> a < snd s"

lemma merge_spans_start:
  "sorted (map fst (s # rest)) \<Longrightarrow> m \<in> set (merge_spans s rest) \<Longrightarrow> fst s \<le> fst m"
proof (induction s rest rule: merge_spans.induct)
  case (2 l h lo hi rest)
  then show ?case by (auto split: if_splits)
qed simp

lemma merge_spans_spec:
  assumes "sorted (map fst (s # rest))" "list_all (\<lambda>s. fst s < snd s) (s # rest)"
  shows "sorted_wrt (\<lambda>p q. snd p < fst q) (merge_spans s rest) \<and>
    list_all (\<lambda>s. fst s < snd s) (merge_spans s rest) \<and>
    ((\<exists>m \<in> set (merge_spans s rest). in_span a m) \<longleftrightarrow> (\<exists>m \<in> set (s # rest). in_span a m))"
  using assms
proof (induction s rest rule: merge_spans.induct)
  case (2 l h lo hi rest)
  show ?case
  proof (cases "lo \<le> h")
    case True
    then show ?thesis using 2 by (auto simp: max_def)
  next
    case False
    have "fst m \<ge> lo" if "m \<in> set (merge_spans (lo, hi) rest)" for m
      using merge_spans_start [OF _ that] "2.prems" by simp
    then show ?thesis using False 2 by force
  qed
qed simp
subsection \<open>Encoding, as the machine sends it\<close>

definition encode_hit :: "FrameHit option \<Rightarrow> int list" where
  "encode_hit h =
     (case h of None \<Rightarrow> [0, 0, -1, -1]
      | Some x \<Rightarrow> [h_step x, h_pc x, case_option (-1) (\<lambda>e. e) (h_element x),
                   case_option (-1) (\<lambda>e. e) (h_arrayName x)])"

definition hit_ok :: "FrameHit option \<Rightarrow> bool" where
  "hit_ok h \<longleftrightarrow>
     (case h of None \<Rightarrow> True
      | Some x \<Rightarrow> h_step x \<noteq> 0 \<and> case_option True (\<lambda>e. 0 \<le> e) (h_element x) \<and>
                  case_option True (\<lambda>e. 0 \<le> e) (h_arrayName x))"

definition encode_row :: "FrameRow \<Rightarrow> int list" where
  "encode_row r =
     [r_index r, r_entry r, r_callPc r, r_retAddr r, r_spEntry r, r_lo r, r_fpEntry r, r_record r,
      r_state r, r_flags r] @ encode_hit (r_fpHit r) @ encode_hit (r_lrHit r)"

definition encode_bad :: "BadReturn option \<Rightarrow> int list \<times> int list" where
  "encode_bad b =
     (case b of None \<Rightarrow> ([0, 0, 0], [0, 0, 0, 0, 0, 0, 0])
      | Some x \<Rightarrow> ([br_step x, br_pc x, br_target x],
          [bc_index (br_call x), bc_entry (br_call x), bc_retAddr (br_call x), bc_flags (br_call x),
           bc_lastRet (br_call x)] @ take 2 (encode_hit (bc_lrHit (br_call x)))))"

definition encode_frames :: "FramesSnapshot \<Rightarrow> int list" where
  "encode_frames s =
     [s_step s, s_uncounted s, s_hidden s, s_hiddenEntry s, if s_chainOk s then 1 else 0]
     @ fst (encode_bad (s_badReturn s))
     @ [int (length (s_frames s)), int (length (s_leftovers s))]
     @ snd (encode_bad (s_badReturn s))
     @ concat (map encode_row (s_frames s))
     @ concat (map (\<lambda>(r, p). [r, p]) (s_leftovers s))"

definition bad_ok :: "BadReturn option \<Rightarrow> bool" where
  "bad_ok b \<longleftrightarrow>
     (case b of None \<Rightarrow> True
      | Some x \<Rightarrow> br_step x \<noteq> 0 \<and>
          (case bc_lrHit (br_call x) of None \<Rightarrow> True
           | Some h \<Rightarrow> h_step h \<noteq> 0 \<and> h_element h = None \<and> h_arrayName h = None))"

definition snapshot_ok :: "FramesSnapshot \<Rightarrow> bool" where
  "snapshot_ok s \<longleftrightarrow>
     list_all (\<lambda>r. hit_ok (r_fpHit r) \<and> hit_ok (r_lrHit r)) (s_frames s) \<and> bad_ok (s_badReturn s)"

lemma num_append: "num (xs @ ys) i = (if i < length xs then num xs i else num ys (i - length xs))"
  by (cases "i < length xs") (auto simp: num_def nth_opt_conv nth_append)

lemma num_Cons: "num (x # xs) i = (if i = 0 then x else num xs (i - 1))"
  by (simp add: num_def nth_opt_conv nth_Cons split: nat.splits)

lemma num_concat:
  assumes "\<forall>x \<in> set xss. length x = n" "i < length xss" "k < n"
  shows "num (concat xss @ ys) (i * n + k) = num (xss ! i) k"
  using assms
proof (induction xss arbitrary: i)
  case (Cons x xss)
  show ?case
  proof (cases i)
    case (Suc j)
    have "n + (j * n + k) - length x = j * n + k" using Cons.prems by simp
    then show ?thesis using Cons Suc by (simp add: num_append)
  qed (use Cons in \<open>simp add: num_append\<close>)
qed simp

lemma length_encode_hit: "length (encode_hit h) = 4"
  by (simp add: encode_hit_def split: option.splits)

lemma length_encode_row: "length (encode_row r) = 18"
  by (simp add: encode_row_def length_encode_hit)

lemma hit_encode:
  assumes "hit_ok h"
  shows "hit (num (encode_hit h) 0) (num (encode_hit h) 1) (num (encode_hit h) 2) (num (encode_hit h) 3) = h"
  using assms
  by (cases h) (auto simp: encode_hit_def hit_def hit_ok_def num_Cons split: option.splits)

lemma decode_encode_row:
  assumes "hit_ok (r_fpHit r)" "hit_ok (r_lrHit r)" "\<And>k. k < 18 \<Longrightarrow> num n (i + k) = num (encode_row r) k"
  shows "decode_row n i = r"
proof -
  have c: "num n i = r_index r" "num n (i + 1) = r_entry r" "num n (i + 2) = r_callPc r"
    "num n (i + 3) = r_retAddr r" "num n (i + 4) = r_spEntry r" "num n (i + 5) = r_lo r"
    "num n (i + 6) = r_fpEntry r" "num n (i + 7) = r_record r" "num n (i + 8) = r_state r"
    "num n (i + 9) = r_flags r"
    using assms(3) [of 0] assms(3) [of 1] assms(3) [of 2] assms(3) [of 3] assms(3) [of 4] assms(3) [of 5]
      assms(3) [of 6] assms(3) [of 7] assms(3) [of 8] assms(3) [of 9]
    by (simp_all add: encode_row_def num_Cons)
  have f: "num n (i + 10) = num (encode_hit (r_fpHit r)) 0" "num n (i + 11) = num (encode_hit (r_fpHit r)) 1"
    "num n (i + 12) = num (encode_hit (r_fpHit r)) 2" "num n (i + 13) = num (encode_hit (r_fpHit r)) 3"
    "num n (i + 14) = num (encode_hit (r_lrHit r)) 0" "num n (i + 15) = num (encode_hit (r_lrHit r)) 1"
    "num n (i + 16) = num (encode_hit (r_lrHit r)) 2" "num n (i + 17) = num (encode_hit (r_lrHit r)) 3"
    using assms(3) [of 10] assms(3) [of 11] assms(3) [of 12] assms(3) [of 13] assms(3) [of 14]
      assms(3) [of 15] assms(3) [of 16] assms(3) [of 17]
    by (simp_all add: encode_row_def num_Cons num_append length_encode_hit)
  show ?thesis
    unfolding decode_row_def c f hit_encode [OF assms(1)] hit_encode [OF assms(2)] by simp
qed

lemma length_encode_bad: "length (fst (encode_bad b)) = 3" "length (snd (encode_bad b)) = 7"
  by (simp_all add: encode_bad_def length_encode_hit split: option.splits)
definition frames_header :: "FramesSnapshot \<Rightarrow> int list" where
  "frames_header s =
     [s_step s, s_uncounted s, s_hidden s, s_hiddenEntry s, if s_chainOk s then 1 else 0]
     @ fst (encode_bad (s_badReturn s))
     @ [int (length (s_frames s)), int (length (s_leftovers s))]
     @ snd (encode_bad (s_badReturn s))"

lemma length_frames_header: "length (frames_header s) = 17"
  by (simp add: frames_header_def length_encode_bad)

lemma frames_header_reads:
  "num (frames_header s) 0 = s_step s" "num (frames_header s) 1 = s_uncounted s"
  "num (frames_header s) 2 = s_hidden s" "num (frames_header s) 3 = s_hiddenEntry s"
  "num (frames_header s) 4 = (if s_chainOk s then 1 else 0)"
  "num (frames_header s) 8 = int (length (s_frames s))"
  "num (frames_header s) 9 = int (length (s_leftovers s))"
  "k < 3 \<Longrightarrow> num (frames_header s) (5 + k) = num (fst (encode_bad (s_badReturn s))) k"
  "k < 7 \<Longrightarrow> num (frames_header s) (10 + k) = num (snd (encode_bad (s_badReturn s))) k"
  by (simp_all add: frames_header_def num_Cons num_append length_encode_bad)

lemma decode_encode_bad:
  assumes "bad_ok (s_badReturn s)" "\<And>k. k < 17 \<Longrightarrow> num n k = num (frames_header s) k"
  shows "decode_bad_return n = s_badReturn s"
proof -
  have n: "num n 5 = num (fst (encode_bad (s_badReturn s))) 0" "num n 6 = num (fst (encode_bad (s_badReturn s))) 1"
    "num n 7 = num (fst (encode_bad (s_badReturn s))) 2"
    "num n 10 = num (snd (encode_bad (s_badReturn s))) 0" "num n 11 = num (snd (encode_bad (s_badReturn s))) 1"
    "num n 12 = num (snd (encode_bad (s_badReturn s))) 2" "num n 13 = num (snd (encode_bad (s_badReturn s))) 3"
    "num n 14 = num (snd (encode_bad (s_badReturn s))) 4" "num n 15 = num (snd (encode_bad (s_badReturn s))) 5"
    "num n 16 = num (snd (encode_bad (s_badReturn s))) 6"
    using assms(2) frames_header_reads(8) [of 0 s] frames_header_reads(8) [of 1 s] frames_header_reads(8) [of 2 s]
      frames_header_reads(9) [of 0 s] frames_header_reads(9) [of 1 s] frames_header_reads(9) [of 2 s]
      frames_header_reads(9) [of 3 s] frames_header_reads(9) [of 4 s] frames_header_reads(9) [of 5 s]
      frames_header_reads(9) [of 6 s]
    by simp_all
  show ?thesis
  proof (cases "s_badReturn s")
    case None
    then show ?thesis by (simp add: decode_bad_return_def n encode_bad_def num_Cons)
  next
    case (Some b)
    have "hit (num (take 2 (encode_hit (bc_lrHit (br_call b)))) 0)
           (num (take 2 (encode_hit (bc_lrHit (br_call b)))) 1) (-1) (-1) = bc_lrHit (br_call b)"
      using assms(1)
      by (cases "bc_lrHit (br_call b)") (auto simp: Some bad_ok_def encode_hit_def hit_def num_Cons)
    then show ?thesis
      using assms(1) by (simp add: decode_bad_return_def n encode_bad_def Some num_Cons bad_ok_def)
  qed
qed

lemma decode_encode_frames:
  assumes "snapshot_ok s"
  shows "decodeFrames (encode_frames s @ rest) = Some s"
proof -
  let ?rows = "concat (map encode_row (s_frames s))"
  let ?lefts = "concat (map (\<lambda>(r, p). [r, p]) (s_leftovers s))"
  let ?n = "frames_header s @ ?rows @ ?lefts @ rest"
  let ?c = "length (s_frames s)" and ?l = "length (s_leftovers s)"
  have n: "encode_frames s @ rest = ?n" by (simp add: encode_frames_def frames_header_def)
  have hd: "num ?n k = num (frames_header s) k" if "k < 17" for k
    using that by (simp add: num_append length_frames_header)
  have lr: "length ?rows = ?c * 18" by (induction "s_frames s") (auto simp: length_concat length_encode_row comp_def sum_list_triv)
  have ll: "length ?lefts = ?l * 2" by (simp add: length_concat comp_def case_prod_unfold sum_list_triv)
  have row: "decode_row ?n (17 + i * 18) = s_frames s ! i" if "i < ?c" for i
  proof (rule decode_encode_row)
    show "hit_ok (r_fpHit (s_frames s ! i))" "hit_ok (r_lrHit (s_frames s ! i))"
      using assms that by (auto simp: snapshot_ok_def list_all_length)
    show "num ?n (17 + i * 18 + k) = num (encode_row (s_frames s ! i)) k" if k: "k < 18" for k
    proof -
      have "num ?n (17 + i * 18 + k) = num (?rows @ ?lefts @ rest) (i * 18 + k)"
        by (simp add: num_append [of "frames_header s"] length_frames_header)
      also have "\<dots> = num (map encode_row (s_frames s) ! i) k"
        using \<open>i < ?c\<close> k by (intro num_concat) (auto simp: length_encode_row)
      finally show ?thesis using \<open>i < ?c\<close> by simp
    qed
  qed
  have left: "num ?n (17 + ?c * 18 + k * 2 + j) = num ((\<lambda>(r, p). [r, p]) (s_leftovers s ! k)) j"
    if "k < ?l" "j < 2" for k j
  proof -
    have "num ?n (17 + ?c * 18 + k * 2 + j) = num (?lefts @ rest) (k * 2 + j)"
      by (simp add: num_append [of "frames_header s"] num_append [of ?rows] length_frames_header lr)
    also have "\<dots> = num (map (\<lambda>(r, p). [r, p]) (s_leftovers s) ! k) j"
      using that by (intro num_concat) auto
    finally show ?thesis using that by simp
  qed
  have lefts: "map (\<lambda>k. (num ?n (17 + ?c * 18 + k * 2), num ?n (17 + ?c * 18 + k * 2 + 1))) [0 ..< ?l] = s_leftovers s"
    using left [where j = 0] left [where j = 1]
    by (intro nth_equalityI) (auto simp: num_Cons case_prod_unfold)
  have rows: "map (\<lambda>i. decode_row ?n (17 + i * 18)) [0 ..< ?c] = s_frames s"
    by (intro nth_equalityI) (auto simp: row)
  have bad: "decode_bad_return ?n = s_badReturn s"
    using assms hd by (intro decode_encode_bad) (auto simp: snapshot_ok_def)
  have h: "num ?n 0 = s_step s" "num ?n 1 = s_uncounted s" "num ?n 2 = s_hidden s" "num ?n 3 = s_hiddenEntry s"
    "num ?n 4 = (if s_chainOk s then 1 else 0)" "num ?n 8 = int ?c" "num ?n 9 = int ?l"
    using hd [of 0] hd [of 1] hd [of 2] hd [of 3] hd [of 4] hd [of 8] hd [of 9] frames_header_reads(1-7) [of s]
    by simp_all
  have len: "length ?n = 17 + ?c * 18 + ?l * 2 + length rest"
    by (simp add: length_frames_header lr ll)
  show ?thesis
    unfolding n decodeFrames_def Let_def h nat_int FRAMES_HEADER_def FRAME_ROW_def rows lefts bad len by simp
qed
subsection \<open>Properties\<close>

text \<open>C3: the boxes drawn for a frame, read from the low end up, tile the bytes the frame
  owns: the first starts at \<open>lo\<close>, each next one where the last ended, none is empty, and
  the last ends at \<open>spEntry\<close>, whatever the state of the frame, the layout and the stack
  bytes.\<close>

theorem frame_boxes_tile_the_frame:
  assumes "layout_ok (i_layout input)" "r_lo row \<le> r_spEntry row"
  shows "tile_range (r_lo row) (r_spEntry row) (rev (d_boxes (drawFrame input is_innermost row)))"
  using frame_boxes_tiles [OF assms] by (simp add: drawFrame_def Let_def)

definition demo_row :: FrameRow where
  "demo_row =
     \<lparr>r_index = 0, r_entry = 0x400000, r_callPc = 0, r_retAddr = 0, r_spEntry = 0x8000, r_lo = 0x7FD0,
      r_fpEntry = 0, r_record = 0x7FD0, r_state = 0, r_flags = 0, r_fpHit = None, r_lrHit = None\<rparr>"

definition demo_snapshot :: FramesSnapshot where
  "demo_snapshot =
     \<lparr>s_step = 5, s_uncounted = 0, s_hidden = 0, s_hiddenEntry = 0, s_chainOk = True, s_badReturn = None,
      s_frames = [demo_row], s_leftovers = [(19, 0x400010)]\<rparr>"

definition demo_layout :: FrameLayout where
  "demo_layout =
     \<lparr>l_names = [''a_s''],
      l_functions = [\<lparr>f_entry = 0x400000, f_end = 0x400040, f_name = Some ''main'', f_frameBytes = 48,
        f_makesRecord = True,
        f_slots = [\<lparr>sl_offset = 24, sl_width = 4, sl_float = False, sl_name = Some ''a_s'', sl_field = None\<rparr>],
        f_arrays = []\<rparr>]\<rparr>"

definition demo_input :: DrawInput where
  "demo_input =
     \<lparr>i_snapshot = demo_snapshot, i_layout = Some demo_layout, i_sp = 0x7FD0, i_fp = 0x7FD0, i_pc = 0x400008,
      i_memory = [], i_written = [], i_regions = [], i_lineLabel = (\<lambda>_. None)\<rparr>"

theorem frame_boxes_tile_the_frame_witness:
  "tile_range 0x7FD0 0x8000 (rev (d_boxes (drawFrame demo_input True demo_row)))"
proof -
  have l: "layout_ok (i_layout demo_input)"
    by (simp add: demo_input_def demo_layout_def layout_ok_def widths_ok_def)
  have r: "r_lo demo_row \<le> r_spEntry demo_row" by (simp add: demo_row_def)
  show ?thesis using frame_boxes_tile_the_frame [OF l r, of True] by (simp add: demo_row_def)
qed

text \<open>\<open>slotAt\<close> answers null exactly for an address outside every drawn frame: every
  byte of a drawn frame has a box to point into.\<close>

theorem slotAt_outside:
  assumes "layout_ok (i_layout input)"
    and "list_all (\<lambda>row. r_lo row \<le> r_spEntry row) (s_frames (i_snapshot input))"
  shows "slotAt (drawFrames input) addr = None \<longleftrightarrow>
    list_all (\<lambda>row. \<not> (r_lo row \<le> addr \<and> addr < r_spEntry row)) (s_frames (i_snapshot input))"
proof -
  let ?rows = "s_frames (i_snapshot input)"
  have t: "frame_hits addr (drawFrame input im (?rows ! k)) \<longleftrightarrow>
      r_lo (?rows ! k) \<le> addr \<and> addr < r_spEntry (?rows ! k)" if "k < length ?rows" for im k
    using tile_range_cover [OF frame_boxes_tiles [OF assms(1)]] that assms(2)
    by (simp add: frame_hits_def drawFrame_def Let_def list_all_length)
  show ?thesis
    by (simp add: slotAt_def slot_in_None drawFrames_def Let_def list_all_length t)
qed

theorem slotAt_outside_witness: "slotAt (drawFrames demo_input) 0x7FEA \<noteq> None"
proof -
  have l: "layout_ok (i_layout demo_input)"
    by (simp add: demo_input_def demo_layout_def layout_ok_def widths_ok_def)
  have r: "list_all (\<lambda>row. r_lo row \<le> r_spEntry row) (s_frames (i_snapshot demo_input))"
    by (simp add: demo_input_def demo_snapshot_def demo_row_def)
  show ?thesis
    using slotAt_outside [OF l r, of "0x7FEA"] by (simp add: demo_input_def demo_snapshot_def demo_row_def)
qed

text \<open>The ranges asked of the stack are not empty and at most 16 KiB, in ascending order
  with a gap between any two, and every byte of every frame lies in one of them or past
  the 16 KiB cut of the one that starts below it.\<close>

theorem rangesToRead_cover:
  "sorted_wrt (\<lambda>p q. fst p + snd p < fst q) (rangesToRead snapshot) \<and>
   list_all (\<lambda>p. 0 < snd p \<and> snd p \<le> MAX_READ) (rangesToRead snapshot) \<and>
   list_all (\<lambda>f. addr < r_lo f \<or> r_spEntry f \<le> addr \<or>
      list_ex (\<lambda>p. fst p \<le> addr \<and> (addr < fst p + snd p \<or> snd p = MAX_READ)) (rangesToRead snapshot))
     (s_frames snapshot)"
proof (cases "frame_spans snapshot")
  case Nil
  then have "filter (\<lambda>f. r_spEntry f > r_lo f) (s_frames snapshot) = []"
    by (metis (no_types, lifting) frame_spans_def length_0_conv length_map length_sort)
  then show ?thesis
    using Nil by (force simp: rangesToRead_def merged_spans_def filter_empty_conv list_all_iff)
next
  case (Cons s rest)
  have srt: "sorted (map fst (s # rest))"
    unfolding Cons [symmetric] by (simp add: frame_spans_def)
  have pos: "list_all (\<lambda>s. fst s < snd s) (s # rest)"
    unfolding Cons [symmetric] by (auto simp: frame_spans_def list_all_iff)
  note spec = merge_spans_spec [OF srt pos]
  let ?cut = "\<lambda>(lo, hi). (lo, min (hi - lo) MAX_READ)"
  have r: "rangesToRead snapshot = map ?cut (merge_spans s rest)"
    by (simp add: rangesToRead_def merged_spans_def Cons)
  have "sorted_wrt (\<lambda>p q. fst p + snd p < fst q) (rangesToRead snapshot)"
    unfolding r sorted_wrt_map
  proof (rule sorted_wrt_mono_rel)
    show "sorted_wrt (\<lambda>p q. snd p < fst q) (merge_spans s rest)" using spec by blast
  qed (simp add: case_prod_unfold min_def)
  moreover have "list_all (\<lambda>p. 0 < snd p \<and> snd p \<le> MAX_READ) (rangesToRead snapshot)"
    unfolding r list_all_iff using conjunct1 [OF conjunct2 [OF spec]]
    by (auto simp: list_all_iff MAX_READ_def)
  moreover have "list_ex (\<lambda>p. fst p \<le> addr \<and> (addr < fst p + snd p \<or> snd p = MAX_READ)) (rangesToRead snapshot)"
    if f: "f \<in> set (s_frames snapshot)" "r_lo f \<le> addr" "addr < r_spEntry f" for f
  proof -
    have "(r_lo f, r_spEntry f) \<in> set (s # rest)"
      using f unfolding Cons [symmetric] by (auto simp: frame_spans_def)
    then have "\<exists>m \<in> set (s # rest). in_span addr m" using f(2,3) by (intro bexI) simp_all
    then obtain m where m: "m \<in> set (merge_spans s rest)" "in_span addr m" using spec [of addr] by blast
    have "?cut m \<in> set (rangesToRead snapshot)" using m(1) by (simp add: r)
    moreover have "fst (?cut m) \<le> addr \<and> (addr < fst (?cut m) + snd (?cut m) \<or> snd (?cut m) = MAX_READ)"
      using m(2) by (auto simp: case_prod_unfold min_def)
    ultimately show ?thesis unfolding list_ex_iff by blast
  qed
  ultimately show ?thesis unfolding list_all_iff by (meson linorder_not_le)
qed

text \<open>The call stack the machine encodes decodes to itself: every row, every hit, the bad
  return and the leftovers, whatever call-tree numbers follow.\<close>

theorem decodeFrames_encode:
  assumes "snapshot_ok s"
  shows "decodeFrames (encode_frames s @ rest) = Some s"
  by (rule decode_encode_frames [OF assms])

theorem decodeFrames_encode_witness: "decodeFrames (encode_frames demo_snapshot @ [0]) = Some demo_snapshot"
proof -
  have "snapshot_ok demo_snapshot"
    by (simp add: snapshot_ok_def demo_snapshot_def demo_row_def hit_ok_def bad_ok_def)
  then show ?thesis by (rule decodeFrames_encode)
qed

end
