(* ===== verification/RunLoop.thy ===== *)
theory RunLoop
  imports StackFrames
begin

text \<open>
  Running a program in slices.  \<open>web/lib/emulator/run-loop.ts\<close> drives the machine in
  chunks for the two hosts of the emulator, and \<open>web/lib/emulator/headless-run.ts\<close>
  runs a program to its end, or to a pause, for the practice checker.

  The machine is the wasm module, so it is a parameter: a record of the methods the
  loops call, over a world \<open>'w\<close> that holds the machine and everything else the page
  keeps.  A method that only reads is a function of the world; one that changes it
  returns the new world.  An \<open>await\<close> is a function on the world too, since other tasks
  of the page run there.  A count of executed instructions is never negative, so it is
  a \<open>nat\<close>.  A method that throws ends the loop with that exception, which neither file
  catches; those runs are outside the model.
\<close>

subsection \<open>The result of a run (protocol.ts)\<close>

text \<open>The optional flags are read by truth value only, so an absent one is \<open>False\<close>.\<close>

record RunResultPayload =
  rr_pc :: int
  halted :: bool
  steps_executed :: nat
  hit_breakpoint :: bool
  rr_error :: "jstring option"
  error_line :: "int option"
  step_limit_reached :: bool
  cancelled :: bool
  sleep_ms :: "int option"
  reached :: bool
  bad_return :: bool

text \<open>The truth value of a \<open>string | null\<close>: null and the empty string are false.\<close>

definition truthy :: "jstring option \<Rightarrow> bool" where
  "truthy s \<longleftrightarrow> s \<noteq> None \<and> s \<noteq> Some []"

subsection \<open>run-loop.ts\<close>

definition CHUNK_STEPS :: nat where "CHUNK_STEPS = 10000"

definition NO_PROGRESS_ERROR :: jstring where
  "NO_PROGRESS_ERROR = ''the emulator made no progress and was stopped. this is a playground bug: press '' @ [CHR 0x27] @ ''diagnostic bundle'' @ [CHR 0x27] @ '', copy the report, and open an issue with it''"

record 'w RunLoopHost =
  runChunk :: "nat \<Rightarrow> 'w \<Rightarrow> RunResultPayload \<times> 'w"
  isBlocked :: "'w \<Rightarrow> bool"
  isPauseRequested :: "'w \<Rightarrow> bool"
  currentEpoch :: "'w \<Rightarrow> int"
  onChunk :: "'w \<Rightarrow> 'w"
  onHeartbeat :: "'w \<Rightarrow> 'w"

text \<open>The options, and what the page supplies for those left out: \<open>performance.now\<close> and
  one turn of the event loop.  A time is a rational number of milliseconds.\<close>

record 'w RunLoopOptions =
  opt_heartbeatIntervalMs :: "rat option"
  opt_yieldToHost :: "('w \<Rightarrow> 'w) option"
  opt_now :: "('w \<Rightarrow> rat) option"

record 'w Page =
  performance_now :: "'w \<Rightarrow> rat"
  event_loop_turn :: "'w \<Rightarrow> 'w"

text \<open>What the loop keeps constant: the host, the options with their defaults, the epoch at
  the start and the budget.\<close>

record 'w RunLoop =
  l_host :: "'w RunLoopHost"
  l_interval :: rat
  l_yield :: "'w \<Rightarrow> 'w"
  l_now :: "'w \<Rightarrow> rat"
  l_epoch :: int
  l_max :: nat

definition chunk_stops :: "RunResultPayload \<Rightarrow> bool" where
  "chunk_stops chunk \<longleftrightarrow>
     truthy (rr_error chunk) \<or> halted chunk \<or> hit_breakpoint chunk \<or> reached chunk \<or> bad_return chunk"

text \<open>One round of the \<open>while\<close> loop: \<open>Inl\<close> for a \<open>break\<close>, \<open>Inr\<close> for another round, with the
  steps so far, the last heartbeat, the result so far and the world.\<close>

definition chunk_round ::
    "'w RunLoop \<Rightarrow> nat \<Rightarrow> rat \<Rightarrow> 'w \<Rightarrow>
       (nat \<times> RunResultPayload \<times> 'w) + (nat \<times> rat \<times> RunResultPayload \<times> 'w)" where
  "chunk_round l totalSteps lastHeartbeat w =
     (let (chunk, w1) = runChunk (l_host l) (min CHUNK_STEPS (l_max l - totalSteps)) w;
          totalSteps' = totalSteps + steps_executed chunk;
          w2 = onChunk (l_host l) w1 in
      if chunk_stops chunk then Inl (totalSteps', chunk, w2)
      else if sleep_ms chunk \<noteq> None then Inl (totalSteps', chunk, w2)
      else if isBlocked (l_host l) w2 then Inl (totalSteps', chunk, w2)
      else if steps_executed chunk = 0 then
        Inl (totalSteps', chunk\<lparr>rr_error := Some NO_PROGRESS_ERROR\<rparr>, w2)
      else
        let at_time = l_now l w2;
            beat = at_time - lastHeartbeat \<ge> l_interval l;
            w3 = (if beat then onHeartbeat (l_host l) w2 else w2);
            w4 = l_yield l w3 in
        if l_epoch l \<noteq> currentEpoch (l_host l) w4 then
          Inl (totalSteps', chunk\<lparr>cancelled := True\<rparr>, w4)
        else if isPauseRequested (l_host l) w4 then Inl (totalSteps', chunk, w4)
        else Inr (totalSteps', if beat then at_time else lastHeartbeat, chunk, w4))"

lemma chunk_round_progress: "chunk_round l t h w = Inr (t', x) \<Longrightarrow> t < t'"
  by (auto simp: chunk_round_def Let_def split: prod.splits if_splits)

function run_chunks ::
    "'w RunLoop \<Rightarrow> nat \<Rightarrow> rat \<Rightarrow> RunResultPayload \<Rightarrow> 'w \<Rightarrow> nat \<times> RunResultPayload \<times> 'w" where
  "run_chunks l totalSteps lastHeartbeat result w =
     (if totalSteps < l_max l then
        (case chunk_round l totalSteps lastHeartbeat w of
           Inl out \<Rightarrow> out
         | Inr (totalSteps', lastHeartbeat', chunk, w') \<Rightarrow>
             run_chunks l totalSteps' lastHeartbeat' chunk w')
      else (totalSteps, result, w))"
  by pat_completeness auto
termination
  by (relation "measure (\<lambda>(l, totalSteps, _). l_max l - totalSteps)")
    (auto dest: chunk_round_progress)

declare run_chunks.simps [simp del]

definition empty_result :: RunResultPayload where
  "empty_result =
     \<lparr>rr_pc = 0, halted = False, steps_executed = 0, hit_breakpoint = False, rr_error = None,
      error_line = None, step_limit_reached = False, cancelled = False, sleep_ms = None,
      reached = False, bad_return = False\<rparr>"

definition start_loop :: "'w Page \<Rightarrow> 'w RunLoopHost \<Rightarrow> nat \<Rightarrow> 'w RunLoopOptions \<Rightarrow> 'w \<Rightarrow> 'w RunLoop" where
  "start_loop page host maxSteps options w =
     \<lparr>l_host = host,
      l_interval = case_option 0 (\<lambda>v. v) (opt_heartbeatIntervalMs options),
      l_yield = case_option (event_loop_turn page) (\<lambda>f. f) (opt_yieldToHost options),
      l_now = case_option (performance_now page) (\<lambda>f. f) (opt_now options),
      l_epoch = currentEpoch host w, l_max = maxSteps\<rparr>"

definition step_limit :: "'w RunLoopHost \<Rightarrow> nat \<Rightarrow> nat \<Rightarrow> RunResultPayload \<Rightarrow> 'w \<Rightarrow> bool" where
  "step_limit host maxSteps totalSteps result w \<longleftrightarrow>
     totalSteps \<ge> maxSteps \<and> \<not> isPauseRequested host w \<and> \<not> halted result \<and> \<not> hit_breakpoint result \<and>
     \<not> reached result \<and> \<not> bad_return result \<and> \<not> truthy (rr_error result) \<and> sleep_ms result = None \<and>
     \<not> isBlocked host w"

definition runChunked ::
    "'w Page \<Rightarrow> 'w RunLoopHost \<Rightarrow> nat \<Rightarrow> 'w RunLoopOptions \<Rightarrow> 'w \<Rightarrow> RunResultPayload \<times> 'w" where
  "runChunked page host maxSteps options w =
     (let l = start_loop page host maxSteps options w;
          (totalSteps, result, w') = run_chunks l 0 (l_now l w) empty_result w in
      (result\<lparr>steps_executed := totalSteps,
              step_limit_reached := step_limit host maxSteps totalSteps result w'\<rparr>, w'))"

text \<open>One channel serves every yield: a turn of the event loop queues the resolver and a
  message; each message resolves the waiter at the head of the queue.\<close>

record 'a YieldQueue =
  yieldWaiters :: "'a list"
  posted :: nat

definition yield_to_event_loop :: "'a \<Rightarrow> 'a YieldQueue \<Rightarrow> 'a YieldQueue" where
  "yield_to_event_loop resolve q =
     q\<lparr>yieldWaiters := yieldWaiters q @ [resolve], posted := posted q + 1\<rparr>"

definition channel_message :: "'a YieldQueue \<Rightarrow> ('a option \<times> 'a YieldQueue)" where
  "channel_message q =
     (case yieldWaiters q of
        [] \<Rightarrow> (None, q\<lparr>posted := posted q - 1\<rparr>)
      | next # rest \<Rightarrow> (Some next, q\<lparr>yieldWaiters := rest, posted := posted q - 1\<rparr>))"

subsection \<open>What the chunked loop does\<close>

text \<open>A host keeps to its contract when a chunk never runs more than it was asked for.\<close>

definition within_budget :: "'w RunLoopHost \<Rightarrow> bool" where
  "within_budget host \<longleftrightarrow> (\<forall>k w. steps_executed (fst (runChunk host k w)) \<le> k)"

text \<open>Why a run stopped, read off its result and the host.\<close>

definition stop_reported :: "'w RunLoopHost \<Rightarrow> RunResultPayload \<Rightarrow> 'w \<Rightarrow> bool" where
  "stop_reported host r w \<longleftrightarrow>
     chunk_stops r \<or> sleep_ms r \<noteq> None \<or> isBlocked host w \<or> isPauseRequested host w"

lemma truthy_NO_PROGRESS [simp]: "truthy (Some NO_PROGRESS_ERROR)"
  by (simp add: truthy_def NO_PROGRESS_ERROR_def)

lemma chunk_stops_NO_PROGRESS [simp]: "chunk_stops (r\<lparr>rr_error := Some NO_PROGRESS_ERROR\<rparr>)"
  by (simp add: chunk_stops_def)

text \<open>The loop rule: what holds of every exit and is handed back through every further round
  holds of the loop.\<close>

lemma run_chunks_rule:
  assumes exit: "\<And>t r w. l_max l \<le> t \<Longrightarrow> P t w (t, r, w)"
    and break: "\<And>t h w out. t < l_max l \<Longrightarrow> chunk_round l t h w = Inl out \<Longrightarrow> P t w out"
    and again: "\<And>t h w t' h' c w' out. t < l_max l \<Longrightarrow> chunk_round l t h w = Inr (t', h', c, w') \<Longrightarrow>
                  P t' w' out \<Longrightarrow> P t w out"
  shows "P t w (run_chunks l t h r w)"
  using assms
proof (induction l t h r w rule: run_chunks.induct)
  case (1 l t h r w)
  show ?case
  proof (cases "t < l_max l")
    case True
    show ?thesis
    proof (cases "chunk_round l t h w")
      case (Inl out)
      then show ?thesis using "1.prems"(2) True by (simp add: run_chunks.simps)
    next
      case (Inr x)
      obtain t' h' c w' where x: "x = (t', h', c, w')" by (cases x) auto
      have "P t' w' (run_chunks l t' h' c w')"
        using "1.IH" [OF True] Inr x "1.prems" by auto
      then show ?thesis using "1.prems"(3) [OF True] Inr x True by (simp add: run_chunks.simps)
    qed
  qed (use "1.prems"(1) in \<open>simp add: run_chunks.simps\<close>)
qed

lemma run_chunks_reason:
  "case run_chunks l t h r w of
     (t', r', w') \<Rightarrow> l_max l \<le> t' \<or> cancelled r' \<or> stop_reported (l_host l) r' w'"
proof (rule run_chunks_rule [where P = "\<lambda>t w out. case out of (t', r', w') \<Rightarrow>
    l_max l \<le> t' \<or> cancelled r' \<or> stop_reported (l_host l) r' w'"])
  show "case out of (t', r', w') \<Rightarrow> l_max l \<le> t' \<or> cancelled r' \<or> stop_reported (l_host l) r' w'"
    if "chunk_round l t h w = Inl out" for t h w out
    using that by (auto simp: chunk_round_def Let_def stop_reported_def split: prod.splits if_splits)
qed auto

lemma chunk_round_budget:
  assumes "within_budget (l_host l)" "t \<le> l_max l"
  shows "chunk_round l t h w = Inl (t', r', w') \<Longrightarrow> t' \<le> l_max l"
    and "chunk_round l t h w = Inr (t', h', r', w') \<Longrightarrow> t' \<le> l_max l"
proof -
  obtain chunk w1 where c: "runChunk (l_host l) (min CHUNK_STEPS (l_max l - t)) w = (chunk, w1)"
    by fastforce
  have "steps_executed chunk \<le> l_max l - t"
    using assms(1) c unfolding within_budget_def by (metis fst_conv min.bounded_iff)
  then have "t + steps_executed chunk \<le> l_max l" using assms(2) by linarith
  then show "chunk_round l t h w = Inl (t', r', w') \<Longrightarrow> t' \<le> l_max l"
    and "chunk_round l t h w = Inr (t', h', r', w') \<Longrightarrow> t' \<le> l_max l"
    by (auto simp: chunk_round_def Let_def c split: if_splits)
qed

lemma run_chunks_budget:
  assumes "within_budget (l_host l)"
  shows "t \<le> l_max l \<longrightarrow> fst (run_chunks l t h r w) \<le> l_max l"
proof (rule run_chunks_rule [where P = "\<lambda>t w out. t \<le> l_max l \<longrightarrow> fst out \<le> l_max l"])
  show "t \<le> l_max l \<longrightarrow> fst out \<le> l_max l" if "chunk_round l t h w = Inl out" for t h w out
    using that chunk_round_budget(1) [OF assms] by (metis prod.collapse)
  show "t \<le> l_max l \<longrightarrow> fst out \<le> l_max l"
    if "chunk_round l t h w = Inr (t', h', c, w')" "t' \<le> l_max l \<longrightarrow> fst out \<le> l_max l" for t h w t' h' c w' out
    using that chunk_round_budget(2) [OF assms] by blast
qed simp

text \<open>Each chunk but the last executes an instruction, so a counter that \<open>onChunk\<close> advances
  by one, and nothing else moves, grows by at most the budget.\<close>

definition counts_chunks :: "('w \<Rightarrow> nat) \<Rightarrow> 'w RunLoopHost \<Rightarrow> ('w \<Rightarrow> 'w) \<Rightarrow> bool" where
  "counts_chunks frames host yield \<longleftrightarrow>
     (\<forall>w. frames (onChunk host w) = Suc (frames w)) \<and> (\<forall>k w. frames (snd (runChunk host k w)) = frames w) \<and>
     (\<forall>w. frames (onHeartbeat host w) = frames w) \<and> (\<forall>w. frames (yield w) = frames w)"

lemma chunk_round_count:
  assumes "counts_chunks frames (l_host l) (l_yield l)"
  shows "chunk_round l t h w = Inl (t', r', w') \<Longrightarrow> frames w' = Suc (frames w)"
    and "chunk_round l t h w = Inr (t', h', r', w') \<Longrightarrow> frames w' = Suc (frames w)"
proof -
  obtain chunk w1 where c: "runChunk (l_host l) (min CHUNK_STEPS (l_max l - t)) w = (chunk, w1)"
    by fastforce
  have "frames w1 = frames w" using assms c unfolding counts_chunks_def by (metis snd_conv)
  then show "chunk_round l t h w = Inl (t', r', w') \<Longrightarrow> frames w' = Suc (frames w)"
    and "chunk_round l t h w = Inr (t', h', r', w') \<Longrightarrow> frames w' = Suc (frames w)"
    using assms by (auto simp: chunk_round_def Let_def c counts_chunks_def split: if_splits)
qed

lemma run_chunks_count:
  assumes "counts_chunks frames (l_host l) (l_yield l)"
  shows "frames (snd (snd (run_chunks l t h r w))) \<le> frames w + (l_max l - t)"
proof (rule run_chunks_rule [where P = "\<lambda>t w out. frames (snd (snd out)) \<le> frames w + (l_max l - t)"])
  show "frames (snd (snd out)) \<le> frames w + (l_max l - t)"
    if "t < l_max l" "chunk_round l t h w = Inl out" for t h w out
  proof -
    obtain a b c where "out = (a, b, c)" by (cases out) auto
    then show ?thesis using that chunk_round_count(1) [OF assms, of t h w a b c] by simp
  qed
  show "frames (snd (snd out)) \<le> frames w + (l_max l - t)"
    if "t < l_max l" "chunk_round l t h w = Inr (t', h', c, w')"
      "frames (snd (snd out)) \<le> frames w' + (l_max l - t')" for t h w t' h' c w' out
    using that chunk_round_count(2) [OF assms that(2)] chunk_round_progress [OF that(2)] by linarith
qed simp

subsection \<open>A machine that halts after some number of instructions\<close>

text \<open>\<open>runs_to_halt host yield remaining\<close>: undisturbed (nobody pauses, blocks or replaces the machine), a
  chunk runs the instructions it was asked for and stops early only because the program
  halted; \<open>remaining\<close> counts the instructions until then.\<close>

definition quiet_chunk :: "RunResultPayload \<Rightarrow> bool" where
  "quiet_chunk r \<longleftrightarrow> rr_error r = None \<and> \<not> hit_breakpoint r \<and> \<not> reached r \<and> \<not> bad_return r \<and>
     sleep_ms r = None \<and> \<not> cancelled r"

definition runs_to_halt :: "'w RunLoopHost \<Rightarrow> ('w \<Rightarrow> 'w) \<Rightarrow> ('w \<Rightarrow> nat) \<Rightarrow> bool" where
  "runs_to_halt host yield remaining \<longleftrightarrow>
     (\<forall>k w. let (r, w') = runChunk host k w in
        quiet_chunk r \<and> halted r = (remaining w \<le> k) \<and> steps_executed r = min k (remaining w) \<and>
        remaining w' = remaining w - k) \<and>
     (\<forall>w. remaining (onChunk host w) = remaining w \<and> remaining (onHeartbeat host w) = remaining w \<and>
          remaining (yield w) = remaining w) \<and>
     (\<forall>w. \<not> isBlocked host w \<and> \<not> isPauseRequested host w) \<and>
     (\<forall>v w. currentEpoch host v = currentEpoch host w)"

lemma runs_to_halt_chunk:
  assumes "runs_to_halt host yield remaining" "runChunk host k w = (r, w')"
  shows "quiet_chunk r" "halted r = (remaining w \<le> k)" "steps_executed r = min k (remaining w)"
    "remaining w' = remaining w - k"
  using assms unfolding runs_to_halt_def by (metis (mono_tags, lifting) case_prod_conv)+

lemma chunk_round_halting:
  assumes rth: "runs_to_halt (l_host l) (l_yield l) remaining" and epoch: "l_epoch l = currentEpoch (l_host l) w"
    and lt: "t < l_max l"
  shows "(\<exists>c w'. chunk_round l t h w = Inl (t + remaining w, c, w') \<and> halted c \<and> quiet_chunk c \<and>
            remaining w \<le> l_max l - t) \<or>
         (\<exists>t' h' c w'. chunk_round l t h w = Inr (t', h', c, w') \<and> \<not> halted c \<and> quiet_chunk c \<and>
            t' \<le> l_max l \<and> t' + remaining w' = t + remaining w \<and> l_epoch l = currentEpoch (l_host l) w' \<and>
            0 < remaining w')"
proof -
  let ?k = "min CHUNK_STEPS (l_max l - t)"
  obtain c w1 where c: "runChunk (l_host l) ?k w = (c, w1)" by fastforce
  note props = runs_to_halt_chunk [OF rth c]
  have k: "0 < ?k" using lt by (simp add: CHUNK_STEPS_def)
  have stops: "chunk_stops c = halted c"
    using props(1) by (auto simp: chunk_stops_def quiet_chunk_def truthy_def)
  have env: "remaining (onChunk (l_host l) v) = remaining v" "remaining (onHeartbeat (l_host l) v) = remaining v"
    "remaining (l_yield l v) = remaining v" "\<not> isBlocked (l_host l) v" "\<not> isPauseRequested (l_host l) v"
    "currentEpoch (l_host l) v = l_epoch l" for v
    using rth epoch unfolding runs_to_halt_def by metis+
  show ?thesis
  proof (cases "remaining w \<le> ?k")
    case True
    then show ?thesis
      using props stops by (auto simp: chunk_round_def Let_def c)
  next
    case False
    have nh: "\<not> halted c" "steps_executed c = ?k" "remaining w1 = remaining w - ?k" "sleep_ms c = None"
      "\<not> chunk_stops c"
      using False props stops by (auto simp: quiet_chunk_def)
    define beat where "beat = (l_now l (onChunk (l_host l) w1) - h \<ge> l_interval l)"
    define w' where "w' = l_yield l (if beat then onHeartbeat (l_host l) (onChunk (l_host l) w1) else onChunk (l_host l) w1)"
    have "chunk_round l t h w = Inr (t + ?k, if beat then l_now l (onChunk (l_host l) w1) else h, c, w')"
      using nh k env(4-6) by (simp add: chunk_round_def Let_def c beat_def w'_def)
    moreover have "remaining w' = remaining w - ?k" using env(1-3) nh(3) by (simp add: w'_def)
    moreover have "t + ?k \<le> l_max l" using lt by simp
    moreover have "t + ?k + (remaining w - ?k) = t + remaining w" "0 < remaining w - ?k" using False by linarith+
    ultimately show ?thesis using nh(1) props(1) env(6) by metis
  qed
qed

lemma run_chunks_halting:
  assumes rth: "runs_to_halt (l_host l) (l_yield l) remaining"
  shows "l_epoch l = currentEpoch (l_host l) w \<Longrightarrow> t \<le> l_max l \<Longrightarrow> quiet_chunk r \<Longrightarrow> \<not> halted r \<Longrightarrow>
    0 < remaining w \<Longrightarrow>
    \<exists>r' w'. run_chunks l t h r w = (min (l_max l) (t + remaining w), r', w') \<and> quiet_chunk r' \<and>
       halted r' = (t + remaining w \<le> l_max l)"
  using rth
proof (induction l t h r w rule: run_chunks.induct)
  case (1 l t h r w)
  show ?case
  proof (cases "t < l_max l")
    case False
    then show ?thesis using "1.prems" by (auto simp: run_chunks.simps)
  next
    case True
    from chunk_round_halting [OF "1.prems"(6) "1.prems"(1) True, of h] show ?thesis
    proof (elim disjE exE conjE)
      fix c w' assume "chunk_round l t h w = Inl (t + remaining w, c, w')" "halted c" "quiet_chunk c"
        "remaining w \<le> l_max l - t"
      then show ?thesis using True by (auto simp: run_chunks.simps)
    next
      fix t' h' c w' assume a: "chunk_round l t h w = Inr (t', h', c, w')" "\<not> halted c" "quiet_chunk c"
        "t' \<le> l_max l" "t' + remaining w' = t + remaining w" "l_epoch l = currentEpoch (l_host l) w'"
        "0 < remaining w'"
      have "run_chunks l t h r w = run_chunks l t' h' c w'"
        using True a(1) by (subst run_chunks.simps) simp
      then show ?thesis
        using "1.IH" [OF True a(1) refl refl refl a(6) a(4) a(3) a(2) a(7) "1.prems"(6)] a(5) by simp
    qed
  qed
qed

subsection \<open>A concrete host\<close>

text \<open>A host for the witnesses: the world is the number of instructions left before the
  program halts and the number of chunks run.\<close>

definition counter_host :: "(nat \<times> nat) RunLoopHost" where
  "counter_host =
     \<lparr>runChunk = (\<lambda>k (n, f). (empty_result\<lparr>halted := n \<le> k, steps_executed := min k n\<rparr>, (n - k, f))),
      isBlocked = (\<lambda>_. False), isPauseRequested = (\<lambda>_. False), currentEpoch = (\<lambda>_. 0),
      onChunk = (\<lambda>(n, f). (n, Suc f)), onHeartbeat = (\<lambda>w. w)\<rparr>"

definition idle_page :: "'w Page" where
  "idle_page = \<lparr>performance_now = (\<lambda>_. 0), event_loop_turn = (\<lambda>w. w)\<rparr>"

definition no_options :: "'w RunLoopOptions" where
  "no_options = \<lparr>opt_heartbeatIntervalMs = None, opt_yieldToHost = None, opt_now = None\<rparr>"

lemma counter_host_runs_to_halt: "runs_to_halt counter_host (\<lambda>w. w) fst"
  by (auto simp: runs_to_halt_def counter_host_def quiet_chunk_def empty_result_def)

lemma counter_host_counts: "counts_chunks snd counter_host (\<lambda>w. w)" "within_budget counter_host"
  by (auto simp: counts_chunks_def within_budget_def counter_host_def)

lemma start_loop_simps [simp]:
  "l_host (start_loop page host m options w) = host" "l_max (start_loop page host m options w) = m"
  "l_epoch (start_loop page host m options w) = currentEpoch host w"
  "l_yield (start_loop page host m options w) = case_option (event_loop_turn page) (\<lambda>f. f) (opt_yieldToHost options)"
  by (simp_all add: start_loop_def)

lemma quiet_empty_result [simp]: "quiet_chunk empty_result" "\<not> halted empty_result"
  by (simp_all add: quiet_chunk_def empty_result_def)

lemma runChunked_conv:
  "run_chunks (start_loop page host m options w) 0 (l_now (start_loop page host m options w) w) empty_result w = (t, r, w') \<Longrightarrow>
   runChunked page host m options w =
     (r\<lparr>steps_executed := t, step_limit_reached := step_limit host m t r w'\<rparr>, w')"
  by (simp add: runChunked_def Let_def)

subsection \<open>Properties of the run loop\<close>

text \<open>A run ends whatever the machine does.  If the host honours the chunk size it
  executes at most the budget, and it issues at most as many chunks as the budget has
  instructions, since a chunk that executes nothing ends the run.\<close>

theorem runChunked_terminates:
  assumes "counts_chunks frames host (case_option (event_loop_turn page) (\<lambda>f. f) (opt_yieldToHost options))"
    and "within_budget host"
  shows "frames (snd (runChunked page host maxSteps options w)) \<le> frames w + maxSteps \<and>
    steps_executed (fst (runChunked page host maxSteps options w)) \<le> maxSteps"
proof -
  let ?l = "start_loop page host maxSteps options w"
  obtain t r w' where e: "run_chunks ?l 0 (l_now ?l w) empty_result w = (t, r, w')"
    by (metis prod_cases3)
  have "frames w' \<le> frames w + maxSteps"
    using run_chunks_count [of frames ?l 0 "l_now ?l w" empty_result w] assms(1) e by simp
  moreover have "t \<le> maxSteps"
    using run_chunks_budget [of ?l 0 "l_now ?l w" empty_result w] assms(2) e by simp
  ultimately show ?thesis by (simp add: runChunked_conv [OF e])
qed

theorem runChunked_terminates_witness:
  "snd (snd (runChunked idle_page counter_host 20 no_options (50, 0))) \<le> 20 \<and>
   steps_executed (fst (runChunked idle_page counter_host 20 no_options (50, 0))) \<le> 20"
  using runChunked_terminates [of snd counter_host idle_page no_options 20 "(50, 0)"] counter_host_counts
  by (simp add: idle_page_def no_options_def)

text \<open>A result always says why the run stopped.  Unless the run was cancelled, the
  step-limit flag is set exactly when nothing else is reported: no error, halt, breakpoint,
  goal, bad return or sleep in the result, and the host neither blocked nor paused; in that
  case the whole budget was spent.\<close>

theorem runChunked_says_why:
  "case runChunked page host maxSteps options w of (r, w') \<Rightarrow>
     cancelled r \<or>
     (step_limit_reached r = (\<not> stop_reported host r w') \<and> (step_limit_reached r \<longrightarrow> maxSteps \<le> steps_executed r))"
proof -
  let ?l = "start_loop page host maxSteps options w"
  obtain t r w' where e: "run_chunks ?l 0 (l_now ?l w) empty_result w = (t, r, w')"
    by (metis prod_cases3)
  have "maxSteps \<le> t \<or> cancelled r \<or> stop_reported host r w'"
    using run_chunks_reason [of ?l 0 "l_now ?l w" empty_result w] e by simp
  then show ?thesis
    by (auto simp: runChunked_conv [OF e] step_limit_def stop_reported_def chunk_stops_def)
qed

theorem runChunked_says_why_witness:
  "case runChunked idle_page counter_host 20 no_options (50, 0) of (r, w') \<Rightarrow>
     step_limit_reached r \<and> \<not> stop_reported counter_host r w' \<and> 20 \<le> steps_executed r"
proof -
  obtain r w' where e: "run_chunks (start_loop idle_page counter_host 20 no_options (50, 0)) 0
      (l_now (start_loop idle_page counter_host 20 no_options (50, 0)) (50, 0)) empty_result (50, 0) = (20, r, w')"
    "quiet_chunk r" "\<not> halted r"
    using run_chunks_halting [of "start_loop idle_page counter_host 20 no_options (50, 0)" fst "(50, 0)" 0 empty_result]
      counter_host_runs_to_halt by (fastforce simp: idle_page_def no_options_def)
  then have "\<not> stop_reported counter_host r w'" "\<not> cancelled r"
    by (auto simp: stop_reported_def quiet_chunk_def chunk_stops_def truthy_def counter_host_def)
  with runChunked_says_why [where page = idle_page and host = counter_host and maxSteps = 20 and options = no_options and w = "(50, 0)"] show ?thesis
    by (auto simp: runChunked_conv [OF e(1)] stop_reported_def chunk_stops_def)
qed

text \<open>C18: a program that halts after \<open>remaining w\<close> instructions, run undisturbed, is run to
  its end when the budget allows, with the exact count of instructions; otherwise the run
  spends exactly the budget and reports the step limit.\<close>

theorem runChunked_finishes:
  assumes "runs_to_halt host (case_option (event_loop_turn page) (\<lambda>f. f) (opt_yieldToHost options)) remaining"
    and "0 < remaining w"
  shows "case runChunked page host maxSteps options w of (r, w') \<Rightarrow>
     steps_executed r = min maxSteps (remaining w) \<and> halted r = (remaining w \<le> maxSteps) \<and>
     step_limit_reached r = (maxSteps < remaining w) \<and> rr_error r = None"
proof -
  let ?l = "start_loop page host maxSteps options w"
  obtain r w' where e: "run_chunks ?l 0 (l_now ?l w) empty_result w = (min maxSteps (remaining w), r, w')"
    and q: "quiet_chunk r" "halted r = (remaining w \<le> maxSteps)"
    using run_chunks_halting [of ?l remaining w 0 empty_result] assms by fastforce
  have "\<not> isBlocked host w'" "\<not> isPauseRequested host w'"
    using assms(1) unfolding runs_to_halt_def by blast+
  with q show ?thesis
    by (auto simp: runChunked_conv [OF e] step_limit_def quiet_chunk_def truthy_def)
qed

theorem runChunked_finishes_witness:
  "case runChunked idle_page counter_host 100000 no_options (50000, 0) of (r, w') \<Rightarrow>
     steps_executed r = 50000 \<and> halted r \<and> \<not> step_limit_reached r"
  using runChunked_finishes [of counter_host idle_page no_options fst "(50000, 0)" 100000] counter_host_runs_to_halt
  by (auto simp: idle_page_def no_options_def)

end
