(* ===== verification/HeadlessRun.thy ===== *)
theory HeadlessRun
  imports RunLoop FrameViews SourceMap
begin

text \<open>
  \<open>web/lib/emulator/headless-run.ts\<close>: one program run to its end with its input queued
  and closed, as the practice checker runs hidden cases, and one run to the pause of a
  draw-the-frame exercise.  The machine is a parameter, a record of the methods of
  \<open>EmulatorInstance\<close> the file calls.  Registers come as the hex text \<open>formatWord64\<close> makes
  of the number the wasm module holds, and \<open>BigInt\<close> reads that text back.

  The slice loop of \<open>runHeadless\<close> ends only if a slice that reports a halt leaves the machine
  halted, so it is a partial function: not returning is \<open>None\<close>.
\<close>

record AssembleResult =
  as_success :: bool
  as_error :: "jstring option"
  as_error_line :: "int option"

record 'w HeadlessMachine =
  assembleAndLoadWithArgs :: "jstring \<Rightarrow> jstring list \<Rightarrow> 'w \<Rightarrow> AssembleResult \<times> 'w"
  uploadVfsFile :: "jstring \<Rightarrow> nat list \<Rightarrow> 'w \<Rightarrow> 'w"
  pushStdin :: "jstring \<Rightarrow> 'w \<Rightarrow> 'w"
  closeStdin :: "'w \<Rightarrow> 'w"
  runUntilBreak :: "nat \<Rightarrow> 'w \<Rightarrow> RunResultPayload \<times> 'w"
  isHalted :: "'w \<Rightarrow> bool"
  takeStdout :: "'w \<Rightarrow> jstring \<times> 'w"
  getExitCode :: "'w \<Rightarrow> int option"
  get_sp :: "'w \<Rightarrow> int"
  getPc :: "'w \<Rightarrow> int"
  get_register :: "nat \<Rightarrow> 'w \<Rightarrow> int"
  getMemoryRange :: "int \<Rightarrow> nat \<Rightarrow> 'w \<Rightarrow> nat list"
  machine_frames :: "'w \<Rightarrow> int list option"
  frameLayout :: "'w \<Rightarrow> FrameLayoutPayload option"
  getLineMap :: "'w \<Rightarrow> js_number list"
  setBreakpoint :: "int \<Rightarrow> 'w \<Rightarrow> 'w"
  clearAllBreakpoints :: "'w \<Rightarrow> 'w"

text \<open>\<open>getSp\<close> and \<open>getRegister\<close> of \<open>emulator.ts\<close>.\<close>

definition getSp :: "'w HeadlessMachine \<Rightarrow> 'w \<Rightarrow> jstring" where
  "getSp machine w = formatWord64 (get_sp machine w)"

definition getRegister :: "'w HeadlessMachine \<Rightarrow> nat \<Rightarrow> 'w \<Rightarrow> jstring" where
  "getRegister machine index w = formatWord64 (get_register machine index w)"

text \<open>\<open>BigInt\<close> on such a text.\<close>

definition big_of_hex :: "jstring \<Rightarrow> int" where
  "big_of_hex s = int (of_digits 16 (drop 2 s))"

definition HEADLESS_STEP_BUDGET :: nat where "HEADLESS_STEP_BUDGET = 5000000"
definition SLICE_STEPS :: nat where "SLICE_STEPS = 250000"
definition FRAME_GUARD_BYTES :: nat where "FRAME_GUARD_BYTES = 64"

definition sameBytes :: "nat list \<Rightarrow> nat list \<Rightarrow> bool" where
  "sameBytes a b \<longleftrightarrow> length a = length b \<and> list_all (\<lambda>i. a ! i = b ! i) [0 ..< length a]"

text \<open>\<open>TextEncoder\<close> on the code units below 256: one byte below 128, else two.\<close>

definition utf8_char :: "char \<Rightarrow> nat list" where
  "utf8_char c = (if code c < 128 then [code c] else [192 + code c div 64, 128 + code c mod 64])"

definition utf8_encode :: "jstring \<Rightarrow> nat list" where
  "utf8_encode s = concat (map utf8_char s)"

record HiddenRunOutcome =
  assembleError :: "jstring option"
  ho_error :: "jstring option"
  ho_errorLine :: "int option"
  finished :: bool
  ho_stdout :: jstring
  exitCode :: "int option"
  stackBalanced :: "bool option"
  frameIntact :: bool

definition failed_assembly :: "jstring option \<Rightarrow> HiddenRunOutcome" where
  "failed_assembly err =
     \<lparr>assembleError = Some (case_option ''the program did not assemble'' (\<lambda>e. e) err),
      ho_error = None, ho_errorLine = None, finished = False, ho_stdout = [], exitCode = None,
      stackBalanced = None, frameIntact = True\<rparr>"

text \<open>The slice loop: steps so far, the error and its line, and the world.  The second
  parameter is what other tasks do while the run waits for its next turn.\<close>

partial_function (option) run_slices ::
    "'w HeadlessMachine \<Rightarrow> ('w \<Rightarrow> 'w) \<Rightarrow> nat \<Rightarrow> jstring option \<Rightarrow> int option \<Rightarrow> 'w \<Rightarrow>
       (nat \<times> jstring option \<times> int option \<times> 'w) option" where
  "run_slices machine nextTask steps error errorLine w =
     (if \<not> isHalted machine w \<and> error = None \<and> steps < HEADLESS_STEP_BUDGET then
        (let (slice, w1) = runUntilBreak machine (min SLICE_STEPS (HEADLESS_STEP_BUDGET - steps)) w in
         if steps_executed slice = 0 \<and> \<not> halted slice then
           Some (steps, rr_error slice, error_line slice, w1)
         else
           run_slices machine nextTask (steps + steps_executed slice) (rr_error slice) (error_line slice)
             (if \<not> isHalted machine w1 \<and> rr_error slice = None then nextTask w1 else w1))
      else Some (steps, error, errorLine, w))"

declare run_slices.simps [code]

text \<open>What is queued before the run: the files, the input and its end.\<close>

definition queue_input :: "'w HeadlessMachine \<Rightarrow> (jstring \<times> jstring) list \<Rightarrow> jstring option \<Rightarrow> 'w \<Rightarrow> 'w" where
  "queue_input machine files stdin w =
     (let w1 = fold (\<lambda>(name, body). uploadVfsFile machine name (utf8_encode body)) files w;
          w2 = (if truthy stdin then pushStdin machine (the stdin) w1 else w1) in
      closeStdin machine w2)"

definition run_outcome ::
    "'w HeadlessMachine \<Rightarrow> 'w \<Rightarrow> jstring option \<Rightarrow> int option \<Rightarrow> 'w \<Rightarrow> HiddenRunOutcome \<times> 'w" where
  "run_outcome machine entry error line w =
     (let entrySp = big_of_hex (getSp machine entry);
          returnAddress = big_of_hex (getRegister machine 30 entry);
          guardAddress = to_number entrySp;
          guardBefore = getMemoryRange machine guardAddress FRAME_GUARD_BYTES entry;
          fin = isHalted machine w;
          returnedFromMain = (fin \<and> getPc machine w = returnAddress);
          (out, w') = takeStdout machine w in
      (\<lparr>assembleError = None, ho_error = error, ho_errorLine = line, finished = fin, ho_stdout = out,
        exitCode = getExitCode machine w',
        stackBalanced = (if returnedFromMain then Some (big_of_hex (getSp machine w') = entrySp) else None),
        frameIntact = sameBytes guardBefore (getMemoryRange machine guardAddress FRAME_GUARD_BYTES w')\<rparr>, w'))"

definition runHeadless ::
    "'w HeadlessMachine \<Rightarrow> ('w \<Rightarrow> 'w) \<Rightarrow> jstring \<Rightarrow> jstring list \<Rightarrow> jstring option \<Rightarrow> (jstring \<times> jstring) list \<Rightarrow>
       'w \<Rightarrow> (HiddenRunOutcome \<times> 'w) option" where
  "runHeadless machine nextTask source args stdin files w =
     (let (loaded, w1) = assembleAndLoadWithArgs machine source args w in
      if \<not> as_success loaded then Some (failed_assembly (as_error loaded), w1)
      else
        let entry = queue_input machine files stdin w1 in
        case run_slices machine nextTask 0 None None entry of
          None \<Rightarrow> None
        | Some (steps, error, line, w2) \<Rightarrow> Some (run_outcome machine entry error line w2))"

subsection \<open>runToPause\<close>

record PauseAt =
  pause_line :: int
  pause_hit :: nat

datatype pause_round = Stop "PausedMachine option" | Continue nat nat

text \<open>What the machine shows at the pause; \<open>Number\<close> of a register's text rounds it to a double.\<close>

definition read_pause :: "'w HeadlessMachine \<Rightarrow> 'w \<Rightarrow> PausedMachine option" where
  "read_pause machine w =
     (case (machine_frames machine w, frameLayout machine w) of
        (Some fs, Some layout) \<Rightarrow>
          Some \<lparr>pm_frames = fs, pm_layout = layout,
                pm_sp = to_number (big_of_hex (getSp machine w)),
                pm_fp = to_number (big_of_hex (getRegister machine 29 w)),
                pm_pc = getPc machine w\<rparr>
      | _ \<Rightarrow> None)"

text \<open>One round of the loop: a \<open>return\<close>, or the new hits and steps.\<close>

definition pause_slice ::
    "'w HeadlessMachine \<Rightarrow> ('w \<Rightarrow> 'w) \<Rightarrow> int \<Rightarrow> nat \<Rightarrow> nat \<Rightarrow> nat \<Rightarrow> 'w \<Rightarrow> pause_round \<times> 'w" where
  "pause_slice machine nextTask addr wanted hits steps w =
     (let (slice, w1) = runUntilBreak machine (min SLICE_STEPS (HEADLESS_STEP_BUDGET - steps)) w in
      if rr_error slice \<noteq> None \<or> steps_executed slice = 0 then (Stop None, w1)
      else
        let steps' = steps + steps_executed slice;
            here = (hit_breakpoint slice \<and> rr_pc slice = addr);
            hits' = (if here then Suc hits else hits) in
        if here \<and> hits' = wanted then (Stop (read_pause machine w1), w1)
        else (Continue hits' steps', if \<not> hit_breakpoint slice then nextTask w1 else w1))"

lemma pause_slice_progress:
  "pause_slice machine nextTask addr wanted hits steps w = (Continue hits' steps', w') \<Longrightarrow> steps < steps'"
  by (auto simp: pause_slice_def Let_def split: prod.splits if_splits)

function pause_loop ::
    "'w HeadlessMachine \<Rightarrow> ('w \<Rightarrow> 'w) \<Rightarrow> int \<Rightarrow> nat \<Rightarrow> nat \<Rightarrow> nat \<Rightarrow> 'w \<Rightarrow> PausedMachine option \<times> 'w" where
  "pause_loop machine nextTask addr wanted hits steps w =
     (if \<not> isHalted machine w \<and> steps < HEADLESS_STEP_BUDGET then
        (case pause_slice machine nextTask addr wanted hits steps w of
           (Stop p, w') \<Rightarrow> (p, w')
         | (Continue hits' steps', w') \<Rightarrow> pause_loop machine nextTask addr wanted hits' steps' w')
      else (None, w))"
  by pat_completeness auto
termination
  by (relation "measure (\<lambda>(m, n, a, h, hits, steps, w). HEADLESS_STEP_BUDGET - steps)")
    (auto dest: pause_slice_progress [OF sym])

declare pause_loop.simps [simp del]

text \<open>The \<open>finally\<close> clears the breakpoints on every way out of the loop.\<close>

definition runToPause ::
    "'w HeadlessMachine \<Rightarrow> ('w \<Rightarrow> 'w) \<Rightarrow> jstring \<Rightarrow> PauseAt \<Rightarrow> 'w \<Rightarrow> PausedMachine option \<times> 'w" where
  "runToPause machine nextTask source pause w =
     (let (loaded, w1) = assembleAndLoadWithArgs machine source [] w in
      if \<not> as_success loaded then (None, w1)
      else
        let w2 = closeStdin machine w1 in
        case map_of (lineToAddr (parseLineMap (Some (getLineMap machine w2)))) (pause_line pause) of
          None \<Rightarrow> (None, w2)
        | Some addr \<Rightarrow>
            (let (p, w3) = pause_loop machine nextTask addr (pause_hit pause) 0 0 (setBreakpoint machine addr w2) in
             (p, clearAllBreakpoints machine w3)))"

subsection \<open>Headless runs return\<close>

text \<open>The laws of the machine the results rest on: a slice runs at most what it is asked for,
  and a slice that reports a halt leaves the machine halted.\<close>

definition keeps_slice :: "'w HeadlessMachine \<Rightarrow> bool" where
  "keeps_slice machine \<longleftrightarrow> (\<forall>k w. steps_executed (fst (runUntilBreak machine k w)) \<le> k)"

definition halt_is_reported :: "'w HeadlessMachine \<Rightarrow> bool" where
  "halt_is_reported machine \<longleftrightarrow>
     (\<forall>k w. halted (fst (runUntilBreak machine k w)) \<longrightarrow> isHalted machine (snd (runUntilBreak machine k w)))"

text \<open>Why a run may end: the program halted, an error, the budget, or a slice that ran
  nothing.\<close>

definition run_over :: "'w HeadlessMachine \<Rightarrow> nat \<Rightarrow> jstring option \<Rightarrow> 'w \<Rightarrow> bool" where
  "run_over machine steps err w \<longleftrightarrow>
     isHalted machine w \<or> err \<noteq> None \<or> steps = HEADLESS_STEP_BUDGET \<or>
     (\<exists>k v. 0 < k \<and> steps_executed (fst (runUntilBreak machine k v)) = 0 \<and> w = snd (runUntilBreak machine k v))"

lemma run_slices_stop:
  "isHalted machine w \<or> err \<noteq> None \<or> HEADLESS_STEP_BUDGET \<le> steps \<Longrightarrow>
   run_slices machine nextTask steps err line w = Some (steps, err, line, w)"
  by (subst run_slices.simps) auto

lemma run_slices_returns:
  assumes hr: "halt_is_reported machine" and ks: "keeps_slice machine"
  shows "steps \<le> HEADLESS_STEP_BUDGET \<Longrightarrow>
    \<exists>steps' err' line' w'. run_slices machine nextTask steps err line w = Some (steps', err', line', w') \<and>
      steps' \<le> HEADLESS_STEP_BUDGET \<and> run_over machine steps' err' w'"
proof (induction "HEADLESS_STEP_BUDGET - steps" arbitrary: steps err line w rule: less_induct)
  case less
  show ?case
  proof (cases "\<not> isHalted machine w \<and> err = None \<and> steps < HEADLESS_STEP_BUDGET")
    case False
    then show ?thesis using run_slices_stop [of machine w err steps] less.prems
      by (auto simp: run_over_def)
  next
    case True
    let ?k = "min SLICE_STEPS (HEADLESS_STEP_BUDGET - steps)"
    obtain slice w1 where s: "runUntilBreak machine ?k w = (slice, w1)" by fastforce
    have k: "0 < ?k" using True by (simp add: SLICE_STEPS_def)
    have le: "steps + steps_executed slice \<le> HEADLESS_STEP_BUDGET"
      using ks s True unfolding keeps_slice_def
      by (metis add_diff_inverse_nat fst_conv less_imp_le_nat linorder_not_le min.bounded_iff nat_add_left_cancel_le)
    define w2 where "w2 = (if \<not> isHalted machine w1 \<and> rr_error slice = None then nextTask w1 else w1)"
    have unf: "run_slices machine nextTask steps err line w =
        (if steps_executed slice = 0 \<and> \<not> halted slice then Some (steps, rr_error slice, error_line slice, w1)
         else run_slices machine nextTask (steps + steps_executed slice) (rr_error slice) (error_line slice) w2)"
      using True s by (subst run_slices.simps) (simp add: w2_def)
    consider "steps_executed slice = 0" "\<not> halted slice" | "steps_executed slice = 0" "halted slice"
      | "0 < steps_executed slice" by blast
    then show ?thesis
    proof cases
      case 1
      have "run_over machine steps (rr_error slice) w1"
        unfolding run_over_def using k s 1(1) by (metis fst_conv snd_conv)
      then show ?thesis using unf 1 less.prems by simp
    next
      case 2
      then have "isHalted machine w1" using hr s unfolding halt_is_reported_def by (metis fst_conv snd_conv)
      then show ?thesis using unf 2 less.prems run_slices_stop [of machine w1] by (simp add: w2_def run_over_def)
    next
      case 3
      then have "HEADLESS_STEP_BUDGET - (steps + steps_executed slice) < HEADLESS_STEP_BUDGET - steps"
        using True by linarith
      from less.hyps [OF this le, of "rr_error slice" "error_line slice" w2] show ?thesis
        using unf 3 by simp
    qed
  qed
qed

lemma runHeadless_total:
  assumes "halt_is_reported machine" "keeps_slice machine"
  shows "\<exists>out w'. runHeadless machine nextTask source args stdin files w = Some (out, w')"
proof (cases "as_success (fst (assembleAndLoadWithArgs machine source args w))")
  case True
  obtain loaded w1 where a: "assembleAndLoadWithArgs machine source args w = (loaded, w1)" by fastforce
  obtain steps err line v where "run_slices machine nextTask 0 None None (queue_input machine files stdin w1) =
      Some (steps, err, line, v)"
    using run_slices_returns [OF assms, of 0] by fastforce
  then show ?thesis using a True
    by (cases "run_outcome machine (queue_input machine files stdin w1) err line v") (simp add: runHeadless_def)
qed (auto simp: runHeadless_def split: prod.splits)

lemma big_of_formatWord64: "big_of_hex (formatWord64 v) = v mod 2 ^ 64"
  by (simp add: big_of_hex_def formatWord64_def MASK_64_mod to_string_nonneg hex.of_digits_to_string)

subsection \<open>The pause is the one asked for\<close>

text \<open>The slices a run to a pause goes through: from a world, with so many hits of the
  breakpoint, to a world.\<close>

inductive pause_run :: "'w HeadlessMachine \<Rightarrow> ('w \<Rightarrow> 'w) \<Rightarrow> int \<Rightarrow> 'w \<Rightarrow> nat \<Rightarrow> 'w \<Rightarrow> bool"
  for machine :: "'w HeadlessMachine" and nextTask :: "'w \<Rightarrow> 'w" and addr :: int and start :: 'w where
  pr_start: "pause_run machine nextTask addr start 0 start"
| pr_slice: "pause_run machine nextTask addr start hits w \<Longrightarrow> \<not> isHalted machine w \<Longrightarrow>
    runUntilBreak machine k w = (sl, w1) \<Longrightarrow> rr_error sl = None \<Longrightarrow> 0 < steps_executed sl \<Longrightarrow>
    pause_run machine nextTask addr start
      (if hit_breakpoint sl \<and> rr_pc sl = addr then Suc hits else hits)
      (if hit_breakpoint sl then w1 else nextTask w1)"

lemma pause_loop_run:
  "pause_run machine nextTask addr start hits w \<Longrightarrow>
   pause_loop machine nextTask addr wanted hits steps w = (Some p, w') \<Longrightarrow>
   pause_run machine nextTask addr start wanted w' \<and> read_pause machine w' = Some p"
proof (induction machine nextTask addr wanted hits steps w rule: pause_loop.induct)
  case (1 machine nextTask addr wanted hits steps w)
  have go: "\<not> isHalted machine w" "steps < HEADLESS_STEP_BUDGET"
    using "1.prems"(2) by (auto simp: pause_loop.simps split: if_splits)
  let ?k = "min SLICE_STEPS (HEADLESS_STEP_BUDGET - steps)"
  obtain slice w1 where s: "runUntilBreak machine ?k w = (slice, w1)" by fastforce
  obtain x v where ps: "pause_slice machine nextTask addr wanted hits steps w = (x, v)" by fastforce
  show ?case
  proof (cases x)
    case (Stop q)
    then have q: "q = Some p" "v = w'" using "1.prems"(2) go ps by (auto simp: pause_loop.simps)
    then have here: "rr_error slice = None" "0 < steps_executed slice" "hit_breakpoint slice" "rr_pc slice = addr"
      "Suc hits = wanted" "read_pause machine w1 = Some p" "w1 = w'"
      using ps Stop s by (auto simp: pause_slice_def Let_def split: if_splits)
    then show ?thesis using pr_slice [OF "1.prems"(1) go(1) s] by simp
  next
    case (Continue hits' steps')
    then have c: "rr_error slice = None" "0 < steps_executed slice"
      "hits' = (if hit_breakpoint slice \<and> rr_pc slice = addr then Suc hits else hits)"
      "v = (if hit_breakpoint slice then w1 else nextTask w1)"
      using ps s by (auto simp: pause_slice_def Let_def split: if_splits)
    have "pause_run machine nextTask addr start hits' v"
      unfolding c(3,4) using pr_slice [OF "1.prems"(1) go(1) s c(1,2)] .
    moreover have "pause_loop machine nextTask addr wanted hits' steps' v = (Some p, w')"
      using "1.prems"(2) go ps Continue by (subst (asm) pause_loop.simps) simp
    ultimately show ?thesis
      using "1.IH" go ps Continue by auto
  qed
qed

subsection \<open>A concrete machine\<close>

text \<open>A machine for the witnesses: the world counts the instructions run, the program is
  three instructions long, one slice runs one of them, and line 3 is the instruction at 8.\<close>

definition demo_machine :: "nat HeadlessMachine" where
  "demo_machine =
     \<lparr>assembleAndLoadWithArgs = (\<lambda>source args w. (\<lparr>as_success = source \<noteq> [], as_error = None, as_error_line = None\<rparr>, 0)),
      uploadVfsFile = (\<lambda>_ _ w. w), pushStdin = (\<lambda>_ w. w), closeStdin = (\<lambda>w. w),
      runUntilBreak = (\<lambda>k w. let n = min (min k 1) (3 - w) in
         (empty_result\<lparr>rr_pc := 4 * int (w + n), halted := w + n \<ge> 3, steps_executed := n,
                       hit_breakpoint := (w + n = 2)\<rparr>, w + n)),
      isHalted = (\<lambda>w. w \<ge> 3), takeStdout = (\<lambda>w. (''done'', w)), getExitCode = (\<lambda>_. Some 0),
      get_sp = (\<lambda>_. 4096), getPc = (\<lambda>w. 4 * int w), get_register = (\<lambda>_ _. 12),
      getMemoryRange = (\<lambda>_ n _. replicate n 0), machine_frames = (\<lambda>_. Some []),
      frameLayout = (\<lambda>_. Some \<lparr>numbers = [], payload_names = []\<rparr>),
      getLineMap = (\<lambda>_. [Fin 8, Fin 3]), setBreakpoint = (\<lambda>_ w. w), clearAllBreakpoints = (\<lambda>w. w)\<rparr>"

lemma demo_machine_laws: "halt_is_reported demo_machine" "keeps_slice demo_machine"
  by (auto simp: halt_is_reported_def keeps_slice_def demo_machine_def Let_def)

lemma demo_machine_simps:
  "assembleAndLoadWithArgs demo_machine source args w = (\<lparr>as_success = source \<noteq> [], as_error = None, as_error_line = None\<rparr>, 0)"
  "closeStdin demo_machine w = w" "getLineMap demo_machine w = [Fin 8, Fin 3]" "setBreakpoint demo_machine a w = w"
  by (simp_all add: demo_machine_def)

subsection \<open>Properties of headless runs\<close>

text \<open>C31: on a machine whose slices keep to their size and whose halt report is true, a
  headless run of any program returns.  A program that does not assemble is reported as such,
  with nothing run; otherwise the run ended because the program halted, faulted, spent the
  budget or could not move, and the stack is judged only for a program that halted.\<close>

theorem runHeadless_returns:
  assumes "halt_is_reported machine" "keeps_slice machine"
    and "assembleAndLoadWithArgs machine source args w = (loaded, w1)"
  shows "\<exists>out w'. runHeadless machine nextTask source args stdin files w = Some (out, w') \<and>
    (assembleError out = None \<longleftrightarrow> as_success loaded) \<and>
    (\<not> as_success loaded \<longrightarrow> out = failed_assembly (as_error loaded) \<and> w' = w1) \<and>
    (as_success loaded \<longrightarrow> (\<exists>steps v. steps \<le> HEADLESS_STEP_BUDGET \<and> run_over machine steps (ho_error out) v \<and>
       finished out = isHalted machine v \<and> (ho_stdout out, w') = takeStdout machine v \<and>
       (stackBalanced out \<noteq> None \<longrightarrow> finished out)))"
proof (cases "as_success loaded")
  case False
  then show ?thesis using assms(3) by (simp add: runHeadless_def failed_assembly_def)
next
  case True
  obtain steps err line v where r: "run_slices machine nextTask 0 None None (queue_input machine files stdin w1) =
      Some (steps, err, line, v)" "steps \<le> HEADLESS_STEP_BUDGET" "run_over machine steps err v"
    using run_slices_returns [OF assms(1,2), of 0] by fastforce
  obtain out w' where o: "run_outcome machine (queue_input machine files stdin w1) err line v = (out, w')"
    by fastforce
  then have "assembleError out = None" "ho_error out = err" "finished out = isHalted machine v"
    "(ho_stdout out, w') = takeStdout machine v" "stackBalanced out \<noteq> None \<longrightarrow> finished out"
    by (auto simp: run_outcome_def Let_def split: prod.splits if_splits)
  then show ?thesis using True assms(3) r o by (fastforce simp: runHeadless_def Let_def)
qed

theorem runHeadless_returns_witness:
  "\<exists>out w'. runHeadless demo_machine (\<lambda>w. w) ''main:'' [] None [] 0 = Some (out, w') \<and> assembleError out = None"
  using runHeadless_returns [OF demo_machine_laws, of "''main:''" "[]" 0 "\<lparr>as_success = True, as_error = None, as_error_line = None\<rparr>" 0
      "\<lambda>w. w" None "[]"]
  by (auto simp: demo_machine_def)

text \<open>When a run to a pause shows a frame, the machine is stopped on the address of the
  pause's line for exactly the asked-for time, what is shown is read there, and the
  breakpoints are cleared afterwards.\<close>

theorem runToPause_stops_there:
  assumes "runToPause machine nextTask source pause w = (Some p, w')"
  shows "\<exists>loaded w1 addr v. assembleAndLoadWithArgs machine source [] w = (loaded, w1) \<and> as_success loaded \<and>
    map_of (lineToAddr (parseLineMap (Some (getLineMap machine (closeStdin machine w1))))) (pause_line pause) = Some addr \<and>
    pause_run machine nextTask addr (setBreakpoint machine addr (closeStdin machine w1)) (pause_hit pause) v \<and>
    read_pause machine v = Some p \<and> w' = clearAllBreakpoints machine v"
proof -
  obtain loaded w1 where a: "assembleAndLoadWithArgs machine source [] w = (loaded, w1)" by fastforce
  then have ok: "as_success loaded" using assms by (auto simp: runToPause_def split: if_splits)
  then obtain addr where addr:
    "map_of (lineToAddr (parseLineMap (Some (getLineMap machine (closeStdin machine w1))))) (pause_line pause) = Some addr"
    using assms a by (auto simp: runToPause_def Let_def split: option.splits)
  obtain v where v: "pause_loop machine nextTask addr (pause_hit pause) 0 0 (setBreakpoint machine addr (closeStdin machine w1)) = (Some p, v)"
    "w' = clearAllBreakpoints machine v"
    using assms a ok addr by (auto simp: runToPause_def Let_def split: prod.splits)
  from pause_loop_run [OF pr_start v(1)] show ?thesis using a ok addr v(2) by blast
qed

theorem runToPause_stops_there_witness:
  "\<exists>p w' v. runToPause demo_machine (\<lambda>w. w) ''main:'' \<lparr>pause_line = 3, pause_hit = 1\<rparr> 0 = (Some p, w') \<and>
     pause_run demo_machine (\<lambda>w. w) 8 0 1 v \<and> read_pause demo_machine v = Some p"
proof -
  have m: "map_of (lineToAddr (parseLineMap (Some [Fin 8, Fin 3]))) 3 = Some 8"
    by (simp add: parseLineMap_def emptyLineMap_def add_pair_def)
  obtain p where p: "read_pause demo_machine 2 = Some p" by (simp add: read_pause_def demo_machine_def)
  have l: "pause_loop demo_machine (\<lambda>w. w) 8 1 0 0 0 = (Some p, 2)"
    using p
    by (subst pause_loop.simps, subst pause_loop.simps)
      (simp add: pause_slice_def Let_def demo_machine_def HEADLESS_STEP_BUDGET_def SLICE_STEPS_def empty_result_def numeral_2_eq_2)
  have "runToPause demo_machine (\<lambda>w. w) ''main:'' \<lparr>pause_line = 3, pause_hit = 1\<rparr> 0 = (Some p, 2)"
    using l m by (simp add: runToPause_def Let_def demo_machine_def)
  from this runToPause_stops_there [OF this] m show ?thesis by (auto simp: demo_machine_simps)
qed

end
