(* ===== verification/TerminalInput.thy ===== *)
theory TerminalInput
  imports Prelude
begin

text \<open>
  The terminal's input side: the command-line tokenizer of
  \<open>web/lib/playground/args.ts\<close> and the line editor of
  \<open>web/lib/terminal/input-state.ts\<close> (buffer, cursor, history, completion).  Lemmas:
  quoted words read back as themselves, the cursor and the history index never leave
  their ranges whatever is typed, control bytes never enter the buffer, and walking up
  and down the history restores the line being edited.
\<close>

subsection \<open>args.ts\<close>

record ParsedToken =
  tk_text :: jstring
  tk_quoted :: bool

record tok_state =
  ts_out :: "ParsedToken list"
  ts_buf :: jstring
  ts_inQuote :: "char option"
  ts_hasToken :: bool
  ts_quoted :: bool

definition flush :: "tok_state \<Rightarrow> tok_state" where
  "flush st =
     (if ts_hasToken st
      then st\<lparr>ts_out := ts_out st @ [\<lparr>tk_text = ts_buf st, tk_quoted = ts_quoted st\<rparr>],
              ts_buf := [], ts_hasToken := False, ts_quoted := False\<rparr>
      else st)"

abbreviation dquote :: char where "dquote \<equiv> CHR 0x22"
abbreviation squote :: char where "squote \<equiv> CHR 0x27"
abbreviation backslash :: char where "backslash \<equiv> CHR 0x5C"

fun tokenize :: "jstring \<Rightarrow> tok_state \<Rightarrow> tok_state" where
  "tokenize [] st = flush st"
| "tokenize (ch # rest) st =
     (if ch = backslash \<and> rest \<noteq> [] \<and> ts_inQuote st \<noteq> Some squote
      then tokenize (tl rest)
             (st\<lparr>ts_buf := ts_buf st @ [hd rest], ts_hasToken := True, ts_quoted := True\<rparr>)
      else case ts_inQuote st of
        Some q \<Rightarrow>
          if ch = q then tokenize rest (st\<lparr>ts_inQuote := None\<rparr>)
          else tokenize rest (st\<lparr>ts_buf := ts_buf st @ [ch], ts_hasToken := True\<rparr>)
      | None \<Rightarrow>
          if ch = dquote \<or> ch = squote
          then tokenize rest (st\<lparr>ts_inQuote := Some ch, ts_hasToken := True, ts_quoted := True\<rparr>)
          else if is_ws ch then tokenize rest (flush st)
          else tokenize rest (st\<lparr>ts_buf := ts_buf st @ [ch], ts_hasToken := True\<rparr>))"

definition tok_start :: tok_state where
  "tok_start = \<lparr>ts_out = [], ts_buf = [], ts_inQuote = None, ts_hasToken = False, ts_quoted = False\<rparr>"

definition parseArgsDetailed :: "jstring \<Rightarrow> ParsedToken list" where
  "parseArgsDetailed input = ts_out (tokenize input tok_start)"

definition parseArgs :: "jstring \<Rightarrow> jstring list" where
  "parseArgs input = map tk_text (parseArgsDetailed input)"

subsection \<open>input-state.ts: cleaning text\<close>

abbreviation cr :: char where "cr \<equiv> CHR 0x0D"
abbreviation lf :: char where "lf \<equiv> CHR 0x0A"
abbreviation tab :: char where "tab \<equiv> CHR 0x09"
abbreviation esc :: char where "esc \<equiv> CHR 0x1B"

text \<open>\<open>data.split(/\r\n|\r|\n/)\<close>.\<close>

fun split_lines :: "jstring \<Rightarrow> jstring \<Rightarrow> jstring list" where
  "split_lines [] acc = [rev acc]"
| "split_lines (c # s) acc =
     (if c = cr \<and> s \<noteq> [] \<and> hd s = lf then rev acc # split_lines (tl s) []
      else if c = cr \<or> c = lf then rev acc # split_lines s []
      else split_lines s (c # acc))"

definition splitPasteLines :: "jstring \<Rightarrow> jstring list" where
  "splitPasteLines data = split_lines data []"

definition in_range :: "nat \<Rightarrow> nat \<Rightarrow> char \<Rightarrow> bool" where
  "in_range lo hi c \<longleftrightarrow> lo \<le> code c \<and> code c \<le> hi"

text \<open>What follows an ESC in \<open>ESCAPE_SEQUENCES\<close>: the number of characters matched.  The
  classes of a control sequence are disjoint, so the greedy match is the only one.\<close>

definition escape_tail :: "jstring \<Rightarrow> nat option" where
  "escape_tail s =
     (case s of [] \<Rightarrow> None
      | c # r \<Rightarrow>
          if c = CHR ''['' then
            (let params = takeWhile (in_range 0x30 0x3F) r;
                 r1 = dropWhile (in_range 0x30 0x3F) r;
                 inter = takeWhile (in_range 0x20 0x2F) r1;
                 r2 = dropWhile (in_range 0x20 0x2F) r1
             in case r2 of [] \<Rightarrow> None
                | d # _ \<Rightarrow> if in_range 0x40 0x7E d then Some (2 + length params + length inter) else None)
          else if c = CHR ''O'' \<and> (case r of d # _ \<Rightarrow> in_range 0x40 0x7E d | [] \<Rightarrow> False) then Some 2
          else if in_range 0x40 0x5A c \<or> in_range 0x5C 0x5F c then Some 1
          else None)"

function (sequential) stripEscapeSequences :: "jstring \<Rightarrow> jstring" where
  "stripEscapeSequences [] = []"
| "stripEscapeSequences (c # s) =
     (if c = esc then
        (case escape_tail s of Some n \<Rightarrow> stripEscapeSequences (drop n s) | None \<Rightarrow> c # stripEscapeSequences s)
      else c # stripEscapeSequences s)"
  by pat_completeness auto
termination by (relation "measure length") auto

definition is_control :: "char \<Rightarrow> bool" where
  "is_control c \<longleftrightarrow> code c \<le> 0x1F \<or> in_range 0x7F 0x9F c"

definition sanitizeInput :: "jstring \<Rightarrow> jstring" where
  "sanitizeInput text =
     filter (\<lambda>c. \<not> is_control c)
       (map (\<lambda>c. if c = tab then CHR '' '' else c) (stripEscapeSequences text))"

subsection \<open>input-state.ts: the line editor\<close>

record TerminalInputState =
  buffer :: jstring
  cursor :: nat
  history :: "jstring list"
  historyIndex :: int
  pending :: jstring

definition initial_input :: TerminalInputState where
  "initial_input = \<lparr>buffer = [], cursor = 0, history = [], historyIndex = -1, pending = []\<rparr>"

definition handlePrintable :: "jstring \<Rightarrow> TerminalInputState \<Rightarrow> TerminalInputState" where
  "handlePrintable ch st =
     (let clean = sanitizeInput ch in
      if clean = [] then st
      else st\<lparr>buffer := take (cursor st) (buffer st) @ clean @ drop (cursor st) (buffer st),
              cursor := cursor st + length clean,
              historyIndex := -1\<rparr>)"

definition handleBackspace :: "TerminalInputState \<Rightarrow> TerminalInputState" where
  "handleBackspace st =
     (if cursor st = 0 then st
      else st\<lparr>buffer := take (cursor st - 1) (buffer st) @ drop (cursor st) (buffer st),
              cursor := cursor st - 1,
              historyIndex := -1\<rparr>)"

text \<open>Shows the history entry at the index; reading past the list cannot happen, which
  the invariant below says.\<close>

definition show_entry :: "TerminalInputState \<Rightarrow> TerminalInputState" where
  "show_entry st =
     (let b = case_option [] id (nth_opt (history st) (nat (historyIndex st))) in
      st\<lparr>buffer := b, cursor := length b\<rparr>)"

definition handleUp :: "TerminalInputState \<Rightarrow> TerminalInputState" where
  "handleUp st =
     (if history st = [] then st
      else if historyIndex st = -1
      then show_entry (st\<lparr>pending := buffer st, historyIndex := int (length (history st)) - 1\<rparr>)
      else if historyIndex st > 0 then show_entry (st\<lparr>historyIndex := historyIndex st - 1\<rparr>)
      else show_entry st)"

definition handleDown :: "TerminalInputState \<Rightarrow> TerminalInputState" where
  "handleDown st =
     (if historyIndex st = -1 then st
      else if historyIndex st < int (length (history st)) - 1
      then show_entry (st\<lparr>historyIndex := historyIndex st + 1\<rparr>)
      else st\<lparr>historyIndex := -1, buffer := pending st, cursor := length (pending st)\<rparr>)"

text \<open>The buffer cut after its last space.\<close>

definition last_word :: "jstring \<Rightarrow> jstring \<times> jstring" where
  "last_word b =
     (let w = rev (takeWhile (\<lambda>c. c \<noteq> CHR '' '') (rev b)) in (take (length b - length w) b, w))"

definition handleTab :: "jstring list \<Rightarrow> TerminalInputState \<Rightarrow> TerminalInputState \<times> jstring list" where
  "handleTab candidates st =
     (let (before, prefix) = last_word (buffer st) in
      if prefix = [] then (st, [])
      else case filter (starts_with prefix) candidates of
             [] \<Rightarrow> (st, [])
           | [completion] \<Rightarrow>
               (st\<lparr>buffer := before @ completion, cursor := length (before @ completion)\<rparr>, [completion])
           | matches \<Rightarrow> (st, matches))"

definition commit :: "jstring \<Rightarrow> TerminalInputState \<Rightarrow> TerminalInputState" where
  "commit line st =
     (if history st \<noteq> [] \<and> last (history st) = line then st else st\<lparr>history := history st @ [line]\<rparr>)"

definition takeSubmission :: "TerminalInputState \<Rightarrow> TerminalInputState \<times> jstring option" where
  "takeSubmission st =
     (let submitted = buffer st;
          st' = st\<lparr>buffer := [], cursor := 0, historyIndex := -1, pending := []\<rparr> in
      if js_trim submitted = [] then (st', None) else (commit submitted st', Some submitted))"

subsection \<open>Quoted words\<close>

text \<open>A word in single quotes, each single quote in it closed, escaped and reopened.\<close>

fun quote_body :: "jstring \<Rightarrow> jstring" where
  "quote_body [] = []"
| "quote_body (c # s) =
     (if c = squote then [squote, backslash, squote, squote] @ quote_body s else c # quote_body s)"

definition shell_quote :: "jstring \<Rightarrow> jstring" where
  "shell_quote w = squote # quote_body w @ [squote]"

abbreviation in_word :: "ParsedToken list \<Rightarrow> jstring \<Rightarrow> tok_state" where
  "in_word out b \<equiv>
     \<lparr>ts_out = out, ts_buf = b, ts_inQuote = Some squote, ts_hasToken = True, ts_quoted = True\<rparr>"

lemma tokenize_body:
  "tokenize (quote_body w @ squote # rest) (in_word out b) =
   tokenize rest \<lparr>ts_out = out, ts_buf = b @ w, ts_inQuote = None, ts_hasToken = True, ts_quoted = True\<rparr>"
  by (induction w arbitrary: b) auto

abbreviation at_gap :: "ParsedToken list \<Rightarrow> tok_state" where
  "at_gap out \<equiv> \<lparr>ts_out = out, ts_buf = [], ts_inQuote = None, ts_hasToken = False, ts_quoted = False\<rparr>"

lemma space_is_ws: "is_ws (CHR '' '')"
  by (simp add: is_ws_def code_def)

lemma tokenize_words:
  "ts_out (tokenize (js_join '' '' (map shell_quote ws)) (at_gap out)) =
   out @ map (\<lambda>w. \<lparr>tk_text = w, tk_quoted = True\<rparr>) ws"
proof (induction ws arbitrary: out rule: induct_list012)
  case 1
  then show ?case by (simp add: flush_def)
next
  case (2 w)
  then show ?case using tokenize_body [of w "[]" out "[]"] by (simp add: shell_quote_def flush_def)
next
  case (3 w v ws)
  let ?rest = "js_join '' '' (map shell_quote (v # ws))"
  have "tokenize (js_join '' '' (map shell_quote (w # v # ws))) (at_gap out) =
      tokenize (quote_body w @ squote # CHR '' '' # ?rest) (in_word out [])"
    by (simp add: shell_quote_def)
  also have "\<dots> = tokenize ?rest (at_gap (out @ [\<lparr>tk_text = w, tk_quoted = True\<rparr>]))"
    by (subst tokenize_body) (simp add: space_is_ws flush_def)
  finally show ?case using "3.IH"(2) by simp
qed

subsection \<open>The invariant of the line editor\<close>

datatype key = KPrint jstring | KBackspace | KUp | KDown | KTab "jstring list" | KEnter | KCommit jstring

fun press :: "key \<Rightarrow> TerminalInputState \<Rightarrow> TerminalInputState" where
  "press (KPrint ch) st = handlePrintable ch st"
| "press KBackspace st = handleBackspace st"
| "press KUp st = handleUp st"
| "press KDown st = handleDown st"
| "press (KTab candidates) st = fst (handleTab candidates st)"
| "press KEnter st = fst (takeSubmission st)"
| "press (KCommit line) st = commit line st"

definition input_ok :: "TerminalInputState \<Rightarrow> bool" where
  "input_ok st \<longleftrightarrow>
     cursor st \<le> length (buffer st) \<and> -1 \<le> historyIndex st \<and> historyIndex st < int (length (history st))"

lemmas input_defs = handlePrintable_def handleBackspace_def handleUp_def handleDown_def handleTab_def
  takeSubmission_def commit_def show_entry_def Let_def

lemma press_ok: "input_ok st \<Longrightarrow> input_ok (press k st)"
proof (cases k)
  case (KTab cs)
  assume "input_ok st"
  then show ?thesis
    by (cases "last_word (buffer st)"; cases "filter (starts_with (snd (last_word (buffer st)))) cs" rule: remdups_adj.cases)
      (auto simp: KTab input_ok_def input_defs split: list.splits)
qed (auto simp: input_ok_def input_defs)

lemma press_all_ok: "input_ok st \<Longrightarrow> input_ok (fold press ks st)"
  by (induction ks arbitrary: st) (auto intro: press_ok)

subsection \<open>History\<close>

lemma handleUp_n:
  assumes "historyIndex st = -1" "0 < n" "n \<le> length (history st)"
  defines "h \<equiv> history st"
  shows "(handleUp ^^ n) st =
    st\<lparr>pending := buffer st, historyIndex := int (length h) - int n,
       buffer := h ! (length h - n), cursor := length (h ! (length h - n))\<rparr>"
  using assms(2,3)
proof (induction n)
  case (Suc n)
  show ?case
  proof (cases "n = 0")
    case True
    then show ?thesis
      using assms(1) Suc.prems by (auto simp: handleUp_def show_entry_def nth_opt_conv Let_def h_def nat_diff_distrib')
  next
    case False
    have "nat (int (length h) - int n - 1) = length h - Suc n" by simp
    then show ?thesis
      using False Suc by (auto simp: handleUp_def show_entry_def nth_opt_conv Let_def h_def)
  qed
qed simp

lemma handleDown_n:
  assumes "historyIndex st = int (length (history st)) - int n" "0 < n" "n \<le> length (history st)"
  shows "(handleDown ^^ n) st =
    st\<lparr>historyIndex := -1, buffer := pending st, cursor := length (pending st)\<rparr>"
  using assms
proof (induction n arbitrary: st)
  case (Suc n)
  show ?case
  proof (cases "n = 0")
    case True
    then show ?thesis using Suc.prems by (cases "history st") (auto simp: handleDown_def)
  next
    case False
    let ?st = "handleDown st"
    have d: "?st = show_entry (st\<lparr>historyIndex := historyIndex st + 1\<rparr>)"
      using False Suc.prems by (simp add: handleDown_def)
    have "(handleDown ^^ n) ?st =
        ?st\<lparr>historyIndex := -1, buffer := pending ?st, cursor := length (pending ?st)\<rparr>"
      using False Suc.prems by (intro Suc.IH) (auto simp: d show_entry_def Let_def)
    then show ?thesis
      by (simp add: funpow_swap1 d show_entry_def Let_def)
  qed
qed simp

subsection \<open>Properties\<close>

text \<open>Words put in single quotes, with each quote inside them written as
  quote-backslash-quote-quote, and joined by spaces tokenize to exactly those words,
  every one marked as quoted, whatever characters they hold.\<close>

theorem quoted_words_tokenize:
  "parseArgsDetailed (js_join '' '' (map shell_quote ws)) =
   map (\<lambda>w. \<lparr>tk_text = w, tk_quoted = True\<rparr>) ws"
  using tokenize_words [of ws "[]"] by (simp add: parseArgsDetailed_def tok_start_def)

text \<open>Whatever keys are pressed on a fresh line editor, in any order, the cursor stays
  within the buffer and the history index within the history.\<close>

theorem input_state_invariant: "input_ok (fold press ks initial_input)"
  by (rule press_all_ok) (simp add: input_ok_def initial_input_def)

text \<open>Going up \<open>n\<close> entries of the history and down again \<open>n\<close> restores the line that was
  being edited, with the cursor at its end, and leaves the history as it was.\<close>

theorem history_up_down:
  assumes "historyIndex st = -1" "0 < n" "n \<le> length (history st)"
  shows "(handleDown ^^ n) ((handleUp ^^ n) st) =
    st\<lparr>pending := buffer st, cursor := length (buffer st)\<rparr>"
  using assms by (simp add: handleUp_n handleDown_n)

theorem history_up_down_witness:
  "buffer ((handleDown ^^ 2) ((handleUp ^^ 2)
     \<lparr>buffer = ''step'', cursor = 1, history = [''run'', ''regs''], historyIndex = -1, pending = []\<rparr>)) = ''step''"
  using history_up_down [of "\<lparr>buffer = ''step'', cursor = 1, history = [''run'', ''regs''],
    historyIndex = -1, pending = []\<rparr>" 2] by simp

text \<open>Typed or pasted text goes into the buffer at the cursor without its control
  bytes, the rest of the line stays where it was, and the cursor moves past what was
  inserted.\<close>

theorem printable_inserts:
  "list_all (\<lambda>c. \<not> is_control c) (sanitizeInput ch) \<and>
   buffer (handlePrintable ch st) = take (cursor st) (buffer st) @ sanitizeInput ch @ drop (cursor st) (buffer st) \<and>
   cursor (handlePrintable ch st) = cursor st + length (sanitizeInput ch)"
proof -
  have "list_all (\<lambda>c. \<not> is_control c) (sanitizeInput ch)"
    unfolding sanitizeInput_def list_all_iff by auto
  then show ?thesis by (simp add: handlePrintable_def Let_def)
qed

end
