(* ===== verification/Dispatch.thy ===== *)
theory Dispatch
  imports HeadlessRun TerminalInput
begin

text \<open>
  The terminal's commands: \<open>web/lib/terminal/dispatch.ts\<close>.  One command line is parsed and
  run against the playground: files, the m4, gcc and run tools, and the gdb commands.

  The surrounding playground (\<open>DispatchContext\<close>) is a record of functions over a world \<open>'w\<close>:
  a method that only reads is a function of the world, one that acts returns the new world.
  \<open>undefined\<close> is \<open>None\<close>, a \<open>Map\<close> of executables is its get and set.  The one exception the
  file can raise itself is the \<open>RangeError\<close> of \<open>BigInt\<close> on an infinite address; it is the left
  value of a sum.
\<close>

subsection \<open>Results and help tables\<close>

datatype Status = SOk | SErr

record DispatchResult =
  status :: Status
  result_lines :: "jstring list"
  control_clear :: bool
  result_exitCode :: "int option"
  is_table :: bool

datatype thrown = RangeError

definition ok :: "jstring list \<Rightarrow> DispatchResult" where
  "ok ls = \<lparr>status = SOk, result_lines = ls, control_clear = False, result_exitCode = None, is_table = False\<rparr>"

definition err :: "jstring list \<Rightarrow> DispatchResult" where
  "err ls = (ok ls)\<lparr>status := SErr\<rparr>"

text \<open>The pattern of a help row after its indent: a command, two or more white space
  characters, a description; \<open>.\<close> matches no line terminator.\<close>

fun split_row :: "jstring \<Rightarrow> (jstring \<times> jstring) option" where
  "split_row [] = None"
| "split_row (c # cs) =
     (if length (takeWhile is_ws cs) \<ge> 2 \<and> dropWhile is_ws cs \<noteq> [] then Some ([c], dropWhile is_ws cs)
      else map_option (\<lambda>(a, b). (c # a, b)) (split_row cs))"

definition table_row :: "jstring \<Rightarrow> (jstring \<times> jstring \<times> jstring) option" where
  "table_row line =
     (case split_row (dropWhile is_ws line) of
        None \<Rightarrow> None
      | Some (command, description) \<Rightarrow>
          if list_ex is_newline command \<or> list_ex is_newline description then None
          else Some (takeWhile is_ws line, command, description))"

fun wrap_words :: "nat \<Rightarrow> jstring \<Rightarrow> jstring list \<Rightarrow> jstring \<Rightarrow> jstring list" where
  "wrap_words cols pad [] current = [current]"
| "wrap_words cols pad (word # ws) current =
     (if current \<noteq> pad \<and> length current + 1 + length word > cols
      then current # wrap_words cols pad ws (pad @ word)
      else wrap_words cols pad ws (if current = pad then current @ word else current @ '' '' @ word))"

definition fit_line :: "nat \<Rightarrow> jstring \<Rightarrow> jstring list" where
  "fit_line cols line =
     (case table_row line of
        None \<Rightarrow> [line]
      | Some (indent, command, description) \<Rightarrow>
          if length line \<le> cols then [line]
          else (indent @ command) #
            (let pad = indent @ ''    '' in wrap_words cols pad (js_split (CHR '' '') description) pad))"

definition fitTable :: "jstring list \<Rightarrow> nat \<Rightarrow> jstring list" where
  "fitTable ls cols = concat (map (fit_line cols) ls)"

definition HELP_LINES :: "jstring list" where
  "HELP_LINES =
    [''available commands:'',
     ''  m4 prog.asm > prog.s              expand m4 macros, exactly like the course toolchain'',
     ''  gcc prog.s -o prog                assemble a .s file into an executable'',
     ''  ./prog [args]                     run an executable built with gcc'',
     ''  ./program [args]                  run the program in the editor'',
     ''  ./program < file                  read stdin from a file'',
     ''  ./program > file                  save stdout to a file'',
     ''  cat <file>                        print a file'',
     ''  ls                                list files'',
     ''  ls -l                             list files with their sizes in bytes'',
     ''  cp <src> <dst>                    copy a file'',
     ''  rm <file>                         remove a file'',
     ''  mv <old> <new>                    rename a file'',
     ''  upload                            add a file from your computer'',
     ''  clear                             clear the terminal'',
     ''  reset                             reset the machine (your files stay)'',
     ''  gdb help                          list the gdb-lite commands'']"

definition GDB_HELP_LINES :: "jstring list" where
  "GDB_HELP_LINES =
    [''gdb-lite commands:'',
     ''  gdb n | gdb s | gdb si            step one instruction'',
     ''  gdb ni                            step over: run the call on this line in one go'',
     ''  gdb finish                        step out: run until this function returns to its caller'',
     ''  gdb c                             continue until the program ends or hits a breakpoint'',
     ''  gdb b <label>                     set a breakpoint at a label'',
     ''  gdb p $xN                         print register N'' @ [CHR 0x27] @ ''s value in hex'',
     ''  gdb info registers                print every register'',
     ''  gdb x/Ni $pc                      show N instruction words in hex from the current PC'',
     ''  gdb x/Ngx $sp                     show N 8-byte words in hex from $sp, $fp or an address'',
     ''  gdb bt                            the call stack: this function, then each caller'',
     ''  gdb info frame                    this function'' @ [CHR 0x27] @ ''s frame: its bytes, saved fp and lr, locals'']"

subsection \<open>The command line\<close>

record ParsedCommandLine =
  cmd :: jstring
  cmd_args :: "jstring list"
  stdinFrom :: "jstring option"
  stdoutTo :: "jstring option"

fun take_redirects ::
    "ParsedToken list \<Rightarrow> jstring list \<Rightarrow> jstring option \<Rightarrow> jstring option \<Rightarrow>
       jstring list \<times> jstring option \<times> jstring option" where
  "take_redirects [] remaining from to = (remaining, from, to)"
| "take_redirects [t] remaining from to = (remaining @ [tk_text t], from, to)"
| "take_redirects (t # u # ts) remaining from to =
     (if \<not> tk_quoted t \<and> tk_text t = ''<'' then take_redirects ts remaining (Some (tk_text u)) to
      else if \<not> tk_quoted t \<and> tk_text t = ''>'' then take_redirects ts remaining from (Some (tk_text u))
      else take_redirects (u # ts) (remaining @ [tk_text t]) from to)"

definition parseCommandLine :: "jstring \<Rightarrow> ParsedCommandLine" where
  "parseCommandLine line =
     (let trimmed = js_trim line in
      if trimmed = [] then \<lparr>cmd = [], cmd_args = [], stdinFrom = None, stdoutTo = None\<rparr>
      else case take_redirects (parseArgsDetailed trimmed) [] None None of
             (remaining, from, to) \<Rightarrow>
               \<lparr>cmd = (case remaining of [] \<Rightarrow> [] | c # _ \<Rightarrow> c), cmd_args = drop 1 remaining,
                stdinFrom = from, stdoutTo = to\<rparr>)"

subsection \<open>The playground around the terminal\<close>

record ProgramRun =
  run_stdout :: jstring
  run_stderr :: jstring
  run_exitCode :: "int option"

record M4Result =
  m4_success :: bool
  m4_text :: "jstring option"
  m4_error :: "jstring option"
  m4_error_line :: "int option"

record FrameStack =
  fs_snapshot :: FramesSnapshot
  fs_stack :: DrawnStack
  fs_memory :: "StackBytes list"

datatype RunTarget = Over | Out

record 'w DispatchContext =
  listVfs :: "'w \<Rightarrow> jstring list"
  readVfs :: "jstring \<Rightarrow> 'w \<Rightarrow> jstring option"
  writeVfs :: "jstring \<Rightarrow> jstring \<Rightarrow> 'w \<Rightarrow> 'w"
  deleteVfs :: "jstring \<Rightarrow> 'w \<Rightarrow> bool \<times> 'w"
  runProgram :: "jstring list \<Rightarrow> jstring option \<Rightarrow> bool \<Rightarrow> 'w \<Rightarrow> ProgramRun \<times> 'w"
  ctx_step :: "'w \<Rightarrow> 'w"
  ctx_runUntilBreak :: "'w \<Rightarrow> 'w"
  runUntil :: "RunTarget \<Rightarrow> 'w \<Rightarrow> jstring option \<times> 'w"
  frameStack :: "'w \<Rightarrow> FrameStack option"
  ctx_lineLabel :: "int \<Rightarrow> 'w \<Rightarrow> jstring option"
  ctx_setBreakpoint :: "int \<Rightarrow> 'w \<Rightarrow> 'w"
  resolveLabel :: "jstring \<Rightarrow> 'w \<Rightarrow> int option"
  m4Expand :: "jstring \<Rightarrow> 'w \<Rightarrow> M4Result option"
  assembleSource :: "jstring \<Rightarrow> 'w \<Rightarrow> (bool \<times> jstring list) \<times> 'w"
  runSource :: "jstring \<Rightarrow> jstring list \<Rightarrow> jstring option \<Rightarrow> bool \<Rightarrow> 'w \<Rightarrow> ProgramRun \<times> 'w"
  getExecutable :: "jstring \<Rightarrow> 'w \<Rightarrow> jstring option"
  setExecutable :: "jstring \<Rightarrow> jstring \<Rightarrow> 'w \<Rightarrow> 'w"
  readRegister :: "jstring \<Rightarrow> 'w \<Rightarrow> int option"
  readRegisters :: "'w \<Rightarrow> (jstring \<times> int) list"
  readMemory :: "whole_number \<Rightarrow> nat \<Rightarrow> 'w \<Rightarrow> int list"
  pcAddress :: "'w \<Rightarrow> int"
  ctx_reset :: "'w \<Rightarrow> 'w"
  terminalIO :: bool

subsection \<open>The file commands\<close>

text \<open>\<open>!x\<close> of an argument that may be missing: it is missing or empty.\<close>

definition absent :: "jstring option \<Rightarrow> bool" where
  "absent x \<longleftrightarrow> \<not> truthy x"

definition js_insert :: "jstring \<Rightarrow> jstring list \<Rightarrow> jstring list" where
  "js_insert x ys = takeWhile (\<lambda>y. \<not> js_less x y) ys @ x # dropWhile (\<lambda>y. \<not> js_less x y) ys"

definition js_sort :: "jstring list \<Rightarrow> jstring list" where
  "js_sort xs = fold js_insert xs []"

definition no_such_file :: "jstring \<Rightarrow> jstring \<Rightarrow> DispatchResult" where
  "no_such_file who target = err [who @ '': '' @ target @ '': no such file in vfs'']"

definition cmd_ls :: "'w DispatchContext \<Rightarrow> jstring list \<Rightarrow> 'w \<Rightarrow> DispatchResult" where
  "cmd_ls ctx args w =
     (let names = js_sort (listVfs ctx w) in
      if nth_opt args 0 \<noteq> Some ''-l'' then ok names
      else ok (map (\<lambda>n. padStart 6 (CHR '' '') (show_int (int (length (utf8_encode (case_option [] (\<lambda>b. b) (readVfs ctx n w)))))) @
                        '' bytes  '' @ n) names))"

definition cmd_cat :: "'w DispatchContext \<Rightarrow> jstring list \<Rightarrow> 'w \<Rightarrow> DispatchResult" where
  "cmd_cat ctx args w =
     (let target = nth_opt args 0 in
      if absent target then err [''cat: missing operand'']
      else case readVfs ctx (the target) w of
             None \<Rightarrow> no_such_file ''cat'' (the target)
           | Some body \<Rightarrow> ok (js_split (CHR 0x0A) body))"

definition cmd_cp :: "'w DispatchContext \<Rightarrow> jstring list \<Rightarrow> 'w \<Rightarrow> DispatchResult \<times> 'w" where
  "cmd_cp ctx args w =
     (let src = nth_opt args 0; dst = nth_opt args 1 in
      if absent src \<or> absent dst then (err [''cp: usage: cp <src> <dst>''], w)
      else case readVfs ctx (the src) w of
             None \<Rightarrow> (no_such_file ''cp'' (the src), w)
           | Some body \<Rightarrow> (ok [], writeVfs ctx (the dst) body w))"

definition cmd_rm :: "'w DispatchContext \<Rightarrow> jstring list \<Rightarrow> 'w \<Rightarrow> DispatchResult \<times> 'w" where
  "cmd_rm ctx args w =
     (let target = nth_opt args 0 in
      if absent target then (err [''rm: missing operand''], w)
      else let (removed, w') = deleteVfs ctx (the target) w in
           if \<not> removed then (no_such_file ''rm'' (the target), w') else (ok [], w'))"

definition cmd_mv :: "'w DispatchContext \<Rightarrow> jstring list \<Rightarrow> 'w \<Rightarrow> DispatchResult \<times> 'w" where
  "cmd_mv ctx args w =
     (let src = nth_opt args 0; dst = nth_opt args 1 in
      if absent src \<or> absent dst then (err [''mv: usage: mv <old> <new>''], w)
      else if src = dst then
        (err [''mv: '' @ [squote] @ the src @ [squote] @ '' and '' @ [squote] @ the dst @ [squote] @ '' are the same file''], w)
      else case readVfs ctx (the src) w of
             None \<Rightarrow> (no_such_file ''mv'' (the src), w)
           | Some body \<Rightarrow> (ok [], snd (deleteVfs ctx (the src) (writeVfs ctx (the dst) body w))))"

subsection \<open>m4, gcc and running\<close>

definition cmd_m4 :: "'w DispatchContext \<Rightarrow> jstring list \<Rightarrow> jstring option \<Rightarrow> 'w \<Rightarrow> DispatchResult \<times> 'w" where
  "cmd_m4 ctx args to w =
     (let target = nth_opt args 0 in
      if absent target then (err [''m4: usage: m4 <file> [> out.s]''], w)
      else case readVfs ctx (the target) w of
        None \<Rightarrow> (no_such_file ''m4'' (the target), w)
      | Some body \<Rightarrow>
          (case m4Expand ctx body w of
             None \<Rightarrow> (err [''m4: this emulator build predates the standalone m4 pass; rebuild the WASM to enable it''], w)
           | Some r \<Rightarrow>
               if \<not> m4_success r then
                 (err [''m4: '' @ (case m4_error_line r of None \<Rightarrow> [] | Some n \<Rightarrow> the target @ '':'' @ show_int n @ '': '') @
                       case_option ''expansion failed'' (\<lambda>e. e) (m4_error r)], w)
               else
                 let text = case_option [] (\<lambda>t. t) (m4_text r) in
                 if truthy to then (ok [], writeVfs ctx (the to) text w)
                 else (ok (js_split (CHR 0x0A) text), w)))"

text \<open>The arguments of gcc: the input files and the output name.\<close>

fun gcc_args :: "jstring list \<Rightarrow> jstring list \<Rightarrow> jstring \<Rightarrow> jstring list \<times> jstring" where
  "gcc_args [] positional outName = (positional, outName)"
| "gcc_args [a] positional outName =
     (if starts_with ''-'' a then (positional, outName) else (positional @ [a], outName))"
| "gcc_args (a # b # rest) positional outName =
     (if a = ''-o'' then gcc_args rest positional b
      else if starts_with ''-'' a then gcc_args (b # rest) positional outName
      else gcc_args (b # rest) (positional @ [a]) outName)"

definition cmd_gcc :: "'w DispatchContext \<Rightarrow> jstring \<Rightarrow> jstring list \<Rightarrow> 'w \<Rightarrow> DispatchResult \<times> 'w" where
  "cmd_gcc ctx tool args w =
     (let (positional, outName) = gcc_args args [] ''a.out''; src = nth_opt positional 0 in
      if absent src then (err [tool @ '': no input files''], w)
      else if length positional > 1 then (err [tool @ '': one input file at a time in the playground''], w)
      else if ends_with ''.asm'' (the src) then
        (err [tool @ '': '' @ the src @ '': run the m4 pass first, the way the course toolchain does:'',
              ''  m4 '' @ the src @ '' > '' @ take (length (the src) - 4) (the src) @ ''.s''], w)
      else case readVfs ctx (the src) w of
        None \<Rightarrow> (no_such_file tool (the src), w)
      | Some body \<Rightarrow>
          (case assembleSource ctx body w of
             ((success, errors), w') \<Rightarrow>
               if \<not> success then
                 (err (if errors \<noteq> [] then map (\<lambda>e. the src @ '': '' @ e) errors
                       else [tool @ '': '' @ the src @ '': assembly failed'']), w')
               else (ok [], setExecutable ctx outName body w')))"

text \<open>\<open>replace(/\n$/, "")\<close>.\<close>

definition strip_newline :: "jstring \<Rightarrow> jstring" where
  "strip_newline s = (if s \<noteq> [] \<and> last s = CHR 0x0A then butlast s else s)"

definition program_lines :: "jstring option \<Rightarrow> ProgramRun \<Rightarrow> jstring list" where
  "program_lines to r =
     (if \<not> truthy to \<and> run_stdout r \<noteq> [] then js_split (CHR 0x0A) (strip_newline (run_stdout r)) else []) @
     (if run_stderr r \<noteq> [] then map (\<lambda>l. ''stderr: '' @ l) (js_split (CHR 0x0A) (run_stderr r)) else []) @
     [case run_exitCode r of
        Some e \<Rightarrow> ''[exit '' @ show_int e @ '']''
      | None \<Rightarrow> ''[no exit: the program did not finish]'']"

definition cmd_program :: "'w DispatchContext \<Rightarrow> ParsedCommandLine \<Rightarrow> 'w \<Rightarrow> DispatchResult \<times> 'w" where
  "cmd_program ctx p w =
     (let name = (if starts_with ''./'' (cmd p) then drop 2 (cmd p) else cmd p);
          compiled = getExecutable ctx name w;
          isEditorProgram = (name = ''program'' \<and> compiled = None) in
      if \<not> isEditorProgram \<and> compiled = None then
        (err [''./'' @ name @ '': no such executable. Build one first: gcc <file.s> -o '' @ name], w)
      else
        let missing = (truthy (stdinFrom p) \<and> readVfs ctx (the (stdinFrom p)) w = None) in
        if missing then (no_such_file (''./'' @ name) (the (stdinFrom p)), w)
        else
          let stdin = (if truthy (stdinFrom p) then readVfs ctx (the (stdinFrom p)) w else None);
              argv = (''./'' @ name) # cmd_args p;
              io = (\<not> truthy (stdoutTo p) \<and> terminalIO ctx);
              (r, w1) = (case compiled of
                           None \<Rightarrow> runProgram ctx argv stdin io w
                         | Some source \<Rightarrow> runSource ctx source argv stdin io w);
              w2 = (if truthy (stdoutTo p) then writeVfs ctx (the (stdoutTo p)) (run_stdout r) w1 else w1) in
          ((ok (program_lines (stdoutTo p) r))
             \<lparr>status := (if run_exitCode r = Some 0 then SOk else SErr), result_exitCode := run_exitCode r\<rparr>, w2))"

subsection \<open>The gdb commands\<close>

definition NO_FRAMES :: jstring where "NO_FRAMES = ''gdb: no frames: the program has finished''"
definition BT_SHOWN :: int where "BT_SHOWN = 20"
definition MAX_EXAMINE_COUNT :: nat where "MAX_EXAMINE_COUNT = 1024"

text \<open>An entry of the backtrace: its number and text.  \<open>drawFrames\<close> draws one frame per row, so
  every drawn frame has its row.\<close>

definition bt_entry :: "FrameStack \<Rightarrow> 'w DispatchContext \<Rightarrow> 'w \<Rightarrow> nat \<Rightarrow> int \<times> jstring" where
  "bt_entry view ctx w k =
     (let rows = s_frames (fs_snapshot view); row = rows ! k;
          line = (if Suc k = length rows then
                    (if s_uncounted (fs_snapshot view) > 0 then None else ctx_lineLabel ctx (pcAddress ctx w) w)
                  else if r_index (rows ! Suc k) = r_index row + 1 then ctx_lineLabel ctx (r_callPc (rows ! Suc k)) w
                  else None) in
      (k_depth (fs_stack view) - 1 - r_index row,
       d_name (k_frames (fs_stack view) ! k) @ (if truthy line then '' at '' @ the line else [])))"

definition bt_line :: "int \<Rightarrow> int \<Rightarrow> int \<times> jstring \<Rightarrow> jstring list" where
  "bt_line depth shown entry =
     (case entry of (n, text) \<Rightarrow>
        if n < shown \<or> n = depth - 1 then
          (if n = depth - 1 \<and> depth > shown + 1
           then [''... '' @ plural (depth - shown - 1) ''more call'' @ '' ...''] else []) @
          [''#'' @ show_int n @ ''  '' @ text]
        else [])"

definition backtrace :: "FrameStack \<Rightarrow> 'w DispatchContext \<Rightarrow> 'w \<Rightarrow> jstring list" where
  "backtrace view ctx w =
     (let uncounted = s_uncounted (fs_snapshot view);
          entries = map (bt_entry view ctx w) [0 ..< length (k_frames (fs_stack view))];
          shown = uncounted + BT_SHOWN in
      (if uncounted > 0
       then [''(#0 to #'' @ show_int (uncounted - 1) @ '': '' @ plural uncounted ''deeper frame'' @ '', not recorded)'']
       else []) @
      concat (map (bt_line (k_depth (fs_stack view)) shown) (rev entries)))"

text \<open>\<open>memory.find\<close>, then the eight bytes read as a little-endian number, as \<open>wordAt\<close> reads them.\<close>

definition box_line :: "StackBytes list \<Rightarrow> StackBox \<Rightarrow> jstring" where
  "box_line memory bx =
     (let value = (if x_kind bx = BSaved then wordAt memory (x_addr bx) else None);
          detail = (case value of
                      Some v \<Rightarrow> if \<not> starts_with ''0x'' (x_detail bx) then formatWord64 v @ '', '' @ x_detail bx
                                else x_detail bx
                    | None \<Rightarrow> x_detail bx) in
      ''  '' @ padEnd 10 (CHR '' '') (x_offset bx) @ padEnd 20 (CHR '' '') (x_title bx) @ detail)"

definition frameLines :: "FrameStack \<Rightarrow> jstring list" where
  "frameLines view =
     (let row = last (s_frames (fs_snapshot view)); frame = last (k_frames (fs_stack view)) in
      [d_name frame @ '': '' @ show_int (d_bytes frame) @ '' bytes, '' @ formatWord64 (r_lo row) @ '' up to '' @
         formatWord64 (r_spEntry row) @ (if truthy (d_from frame) then '', '' @ the (d_from frame) else [])] @
      (if truthy (d_state frame) then [''  '' @ the (d_state frame)] else []) @
      map (box_line (fs_memory view)) (d_boxes frame))"

text \<open>\<open>x/Ni\<close> and \<open>x/Ngx\<close>: the count, when the format has that suffix.  A count too long for a
  Number is infinite there and above the cap here, refused alike.\<close>

definition examine_count :: "jstring \<Rightarrow> jstring \<Rightarrow> nat option" where
  "examine_count suffix fmt =
     (let digits = takeWhile is_digit (drop 2 fmt) in
      if starts_with ''x/'' fmt \<and> digits \<noteq> [] \<and> dropWhile is_digit (drop 2 fmt) = suffix
      then Some (of_digits 10 digits) else None)"

text \<open>A sum of doubles: the nearest double.  \<open>formatWord64\<close> of a Number converts it to a
  BigInt, which fails on an infinite one.\<close>

definition address_text :: "whole_number \<Rightarrow> nat \<Rightarrow> thrown + jstring" where
  "address_text base off =
     (case base of
        PosInfinity \<Rightarrow> Inl RangeError
      | Whole a \<Rightarrow>
          (case whole_number_of (nat (a + int off)) of
             PosInfinity \<Rightarrow> Inl RangeError
           | Whole v \<Rightarrow> Inr (formatWord64 v)))"

fun collect_lines :: "(thrown + jstring) list \<Rightarrow> thrown + jstring list" where
  "collect_lines [] = Inr []"
| "collect_lines (Inl e # xs) = Inl e"
| "collect_lines (Inr x # xs) = (case collect_lines xs of Inl e \<Rightarrow> Inl e | Inr ys \<Rightarrow> Inr (x # ys))"

definition map_sum_right :: "('a \<Rightarrow> 'b) \<Rightarrow> 'e + 'a \<Rightarrow> 'e + 'b" where
  "map_sum_right f x = (case x of Inl e \<Rightarrow> Inl e | Inr a \<Rightarrow> Inr (f a))"

text \<open>The \<open>i\<close>th 8-byte word, 0 past the end of what was read.\<close>

definition examined_word :: "int list \<Rightarrow> nat \<Rightarrow> jstring" where
  "examined_word bytes i =
     formatWord64 (if i * 8 + 8 \<le> length bytes then littleEndian (js_slice bytes (i * 8) (i * 8 + 8)) else 0)"

text \<open>\<open>i = 0, 2, 4, ...\<close> below the count.\<close>

definition even_indices :: "nat \<Rightarrow> nat list" where
  "even_indices count = map (\<lambda>j. 2 * j) [0 ..< (count + 1) div 2]"

definition examine_place :: "jstring option \<Rightarrow> 'w DispatchContext \<Rightarrow> 'w \<Rightarrow> whole_number option" where
  "examine_place target ctx w =
     (let name = (case target of
                    Some t \<Rightarrow> if starts_with ''$'' t then Some (js_lower (drop 1 t)) else None | None \<Rightarrow> None);
          register = (if name = Some ''fp'' then Some ''x29'' else if name = Some ''lr'' then Some ''x30'' else name) in
      case register of
        None \<Rightarrow> parseAddress (case_option [] (\<lambda>t. t) target)
      | Some r \<Rightarrow> if r = ''pc'' then Some (Whole (pcAddress ctx w))
                 else map_option (\<lambda>v. whole_number_of (nat v)) (readRegister ctx r w))"

definition examineWords :: "nat \<Rightarrow> jstring option \<Rightarrow> 'w DispatchContext \<Rightarrow> 'w \<Rightarrow> thrown + DispatchResult" where
  "examineWords count target ctx w =
     (if count > MAX_EXAMINE_COUNT then
        Inr (err [''gdb: x/Ngx shows at most '' @ show_int (int MAX_EXAMINE_COUNT) @ '' words at a time''])
      else case examine_place target ctx w of
          None \<Rightarrow> Inr (err [''gdb: x/Ngx needs $sp, $fp, a register or an address, e.g. x/4gx $sp''])
        | Some base \<Rightarrow>
            (let bytes = readMemory ctx base (count * 8) w in
             map_sum_right ok
               (collect_lines
                 (map (\<lambda>i. map_sum_right
                            (\<lambda>a. a @ '':  '' @ examined_word bytes i @
                                 (if i + 1 < count then ''  '' @ examined_word bytes (i + 1) else []))
                            (address_text base (i * 8)))
                   (even_indices count)))))"

definition runGdbExamine :: "jstring list \<Rightarrow> 'w DispatchContext \<Rightarrow> 'w \<Rightarrow> thrown + DispatchResult" where
  "runGdbExamine args ctx w =
     (let fmt = args ! 0; target = nth_opt args 1 in
      case examine_count ''gx'' fmt of
        Some n \<Rightarrow> examineWords n target ctx w
      | None \<Rightarrow>
          if absent target \<or> \<not> starts_with ''$'' (the target) then
            Inr (err [''gdb: x needs an address, e.g. x/8i $pc''])
          else
            let count = (case examine_count ''i'' fmt of Some n \<Rightarrow> n | None \<Rightarrow> 4) in
            if count > MAX_EXAMINE_COUNT then
              Inr (err [''gdb: x/Ni shows at most '' @ show_int (int MAX_EXAMINE_COUNT) @ '' instructions at a time''])
            else
              let name = js_lower (drop 1 (the target));
                  base = (if name = ''pc'' then Whole (pcAddress ctx w)
                          else whole_number_of (nat (case_option 0 (\<lambda>v. v) (readRegister ctx name w))));
                  bytes = readMemory ctx base (count * 4) w in
              map_sum_right ok
                (collect_lines
                  (map (\<lambda>i. map_sum_right (\<lambda>a. a @ ''  '' @ formatWord32 (code_word bytes (i * 4))) (address_text base (i * 4)))
                    [0 ..< count])))"

definition runGdb :: "jstring list \<Rightarrow> 'w DispatchContext \<Rightarrow> 'w \<Rightarrow> (thrown + DispatchResult) \<times> 'w" where
  "runGdb args ctx w =
     (let sub = nth_opt args 0; arg1 = nth_opt args 1 in
      if absent sub \<or> sub = Some ''help'' then (Inr ((ok GDB_HELP_LINES)\<lparr>is_table := True\<rparr>), w)
      else if sub \<in> {Some ''n'', Some ''s'', Some ''si''} then (Inr (ok []), ctx_step ctx w)
      else if sub = Some ''ni'' \<or> sub = Some ''finish'' then
        (let (said, w') = runUntil ctx (if sub = Some ''ni'' then Over else Out) w in
         (Inr (ok (if truthy said then [filter (\<lambda>c. c \<noteq> CHR 0x60) (the said)] else [])), w'))
      else if sub = Some ''c'' then (Inr (ok []), ctx_runUntilBreak ctx w)
      else if sub = Some ''b'' then
        (if absent arg1 then (Inr (err [''gdb: b needs a label'']), w)
         else case resolveLabel ctx (the arg1) w of
                None \<Rightarrow> (Inr (err [''gdb: unknown label '' @ [squote] @ the arg1 @ [squote]]), w)
              | Some addr \<Rightarrow>
                  (Inr (ok [''breakpoint set at '' @ formatWord64 addr @ '' ('' @ the arg1 @ '')'']), ctx_setBreakpoint ctx addr w))
      else if sub = Some ''p'' then
        (Inr (case arg1 of
           None \<Rightarrow> err [''gdb: p needs $reg, e.g. p $x0'']
         | Some operand \<Rightarrow>
             if \<not> starts_with ''$'' operand then err [''gdb: p needs $reg, e.g. p $x0'']
             else
               let name = js_lower (drop 1 operand) in
               case readRegister ctx name w of
                 None \<Rightarrow> err [''gdb: unknown register '' @ operand]
               | Some v \<Rightarrow> ok [''$'' @ name @ '' = '' @ formatWord64 v]), w)
      else if sub = Some ''info'' \<and> arg1 = Some ''frame'' then
        (Inr (case frameStack ctx w of
           None \<Rightarrow> err [''gdb: info frame needs an assembled program'']
         | Some view \<Rightarrow> if s_frames (fs_snapshot view) = [] then err [NO_FRAMES] else ok (frameLines view)), w)
      else if sub = Some ''info'' \<and> arg1 = Some ''registers'' then
        (Inr (ok (map (\<lambda>(name, v). padEnd 4 (CHR '' '') name @ '' '' @ formatWord64 v) (readRegisters ctx w))), w)
      else if sub = Some ''x'' \<or> starts_with ''x/'' (the sub) then (runGdbExamine args ctx w, w)
      else if sub = Some ''bt'' then
        (Inr (case frameStack ctx w of
           None \<Rightarrow> err [''gdb: bt needs an assembled program'']
         | Some view \<Rightarrow> if s_frames (fs_snapshot view) = [] then err [NO_FRAMES] else ok (backtrace view ctx w)), w)
      else (Inr (err [''gdb: unknown subcommand '' @ [squote] @ the sub @ [squote]]), w))"

subsection \<open>Dispatch\<close>

definition dispatch_parsed ::
    "ParsedCommandLine \<Rightarrow> 'w DispatchContext \<Rightarrow> 'w \<Rightarrow> (thrown + DispatchResult) \<times> 'w" where
  "dispatch_parsed p ctx w =
     (let done = (\<lambda>(r, w'). (Inr r, w')); c = cmd p; args = cmd_args p in
      if c = [] then (Inr (ok []), w)
      else if c = ''clear'' then (Inr ((ok [])\<lparr>control_clear := True\<rparr>), w)
      else if c = ''help'' then (Inr ((ok HELP_LINES)\<lparr>is_table := True\<rparr>), w)
      else if c = ''ls'' then (Inr (cmd_ls ctx args w), w)
      else if c = ''cat'' then (Inr (cmd_cat ctx args w), w)
      else if c = ''cp'' then done (cmd_cp ctx args w)
      else if c = ''rm'' then done (cmd_rm ctx args w)
      else if c = ''mv'' then done (cmd_mv ctx args w)
      else if c = ''reset'' then (Inr (ok [''reset complete'']), ctx_reset ctx w)
      else if c = ''upload'' then (Inr (ok [''upload: launching host file picker...'']), w)
      else if c = ''m4'' then done (cmd_m4 ctx args (stdoutTo p) w)
      else if c = ''gcc'' \<or> c = ''as'' then done (cmd_gcc ctx c args w)
      else if c = ''./program'' \<or> c = ''program'' \<or> starts_with ''./'' c then done (cmd_program ctx p w)
      else if c = ''gdb'' then runGdb args ctx w
      else (Inr (err [c @ '': command not found. Type '' @ [squote] @ ''help'' @ [squote] @ '' for the list.'']), w))"

definition dispatchCommand :: "jstring \<Rightarrow> 'w DispatchContext \<Rightarrow> 'w \<Rightarrow> (thrown + DispatchResult) \<times> 'w" where
  "dispatchCommand line ctx w = dispatch_parsed (parseCommandLine line) ctx w"

subsection \<open>What the commands do\<close>

text \<open>The file system of the playground, as a map, and the laws of its three operations.\<close>

definition files_of :: "'w DispatchContext \<Rightarrow> 'w \<Rightarrow> jstring \<Rightarrow> jstring option" where
  "files_of ctx w = (\<lambda>q. readVfs ctx q w)"

definition vfs_laws :: "'w DispatchContext \<Rightarrow> bool" where
  "vfs_laws ctx \<longleftrightarrow>
     (\<forall>p body w. files_of ctx (writeVfs ctx p body w) = (files_of ctx w)(p \<mapsto> body)) \<and>
     (\<forall>p w. files_of ctx (snd (deleteVfs ctx p w)) = (files_of ctx w)(p := None)) \<and>
     (\<forall>p w. fst (deleteVfs ctx p w) = (p \<in> dom (files_of ctx w)))"


lemma status_simps [simp]: "status (ok ls) = SOk" "status (err ls) = SErr" "status (no_such_file who t) = SErr"
  by (simp_all add: ok_def err_def no_such_file_def)

lemma nth_opt_Cons_simps [simp]:
  "nth_opt [] n = None" "nth_opt (x # xs) 0 = Some x" "nth_opt (x # y # xs) (Suc 0) = Some y"
  "nth_opt [x] (Suc 0) = None"
  by (simp_all add: nth_opt_conv)

lemma absent_simps [simp]: "absent None" "absent (Some s) = (s = [])"
  by (simp_all add: absent_def truthy_def)






subsection \<open>Examining memory\<close>

lemma collect_lines_length: "collect_lines xs = Inr ys \<Longrightarrow> length ys = length xs"
  by (induction xs arbitrary: ys rule: collect_lines.induct) (auto split: sum.splits)

lemma length_even_indices [simp]: "length (even_indices n) = (n + 1) div 2"
  by (simp add: even_indices_def)

lemma map_sum_right_Inr: "map_sum_right f x = Inr y \<longleftrightarrow> (\<exists>a. x = Inr a \<and> y = f a)"
  by (auto simp: map_sum_right_def split: sum.splits)

text \<open>A context that answers memory reads of more than \<open>n\<close> bytes some other way.\<close>

definition reads_capped :: "nat \<Rightarrow> (whole_number \<Rightarrow> nat \<Rightarrow> 'w \<Rightarrow> int list) \<Rightarrow> 'w DispatchContext \<Rightarrow> 'w DispatchContext" where
  "reads_capped n other ctx =
     ctx\<lparr>readMemory := (\<lambda>a len w. if len \<le> n then readMemory ctx a len w else other a len w)\<rparr>"

lemma reads_capped_simps [simp]:
  "pcAddress (reads_capped n other ctx) = pcAddress ctx" "readRegister (reads_capped n other ctx) = readRegister ctx"
  "len \<le> n \<Longrightarrow> readMemory (reads_capped n other ctx) a len w = readMemory ctx a len w"
  by (simp_all add: reads_capped_def)

lemma examine_place_capped [simp]:
  "examine_place target (reads_capped n other ctx) w = examine_place target ctx w"
  by (simp add: examine_place_def Let_def split: option.split)

lemma examineWords_capped:
  "examineWords count target (reads_capped 8192 other ctx) w = examineWords count target ctx w"
proof (cases "count > MAX_EXAMINE_COUNT")
  case False
  then have "count * 8 \<le> 8192" by (simp add: MAX_EXAMINE_COUNT_def)
  then show ?thesis by (simp add: examineWords_def Let_def split: option.split)
qed (simp add: examineWords_def Let_def split: option.split)

lemma examineWords_lines:
  assumes "examineWords count target ctx w = Inr r" "status r = SOk"
  shows "length (result_lines r) \<le> 512"
  using assms
  by (auto simp: examineWords_def Let_def map_sum_right_Inr MAX_EXAMINE_COUNT_def ok_def
      dest!: collect_lines_length split: if_splits option.splits)

lemma runGdbExamine_capped:
  "runGdbExamine args (reads_capped 8192 other ctx) w = runGdbExamine args ctx w"
proof -
  have "n * 4 \<le> 8192" if "\<not> n > MAX_EXAMINE_COUNT" for n
    using that by (simp add: MAX_EXAMINE_COUNT_def)
  then show ?thesis
    by (auto simp: runGdbExamine_def examineWords_capped Let_def split: option.split)
qed

lemma runGdbExamine_lines:
  assumes "runGdbExamine args ctx w = Inr r" "status r = SOk"
  shows "length (result_lines r) \<le> MAX_EXAMINE_COUNT"
proof (cases "examine_count ''gx'' (args ! 0)")
  case (Some n)
  then show ?thesis
    using assms examineWords_lines [of n "nth_opt args 1" ctx w r]
    by (simp add: runGdbExamine_def MAX_EXAMINE_COUNT_def)
next
  case None
  then show ?thesis
    using assms
    by (auto simp: runGdbExamine_def Let_def map_sum_right_Inr ok_def dest!: collect_lines_length split: if_splits)
qed

subsection \<open>Failing commands\<close>

definition failed :: "thrown + DispatchResult \<Rightarrow> bool" where
  "failed r = (case r of Inl _ \<Rightarrow> True | Inr d \<Rightarrow> status d = SErr)"

text \<open>The commands that hand control to the machine or to the file system before they can
  fail.\<close>

definition acts_first :: "jstring \<Rightarrow> bool" where
  "acts_first c \<longleftrightarrow> c \<in> {''rm'', ''gcc'', ''as'', ''program''} \<or> starts_with ''./'' c"

lemma cmd_failures:
  "cmd_cp ctx args w = (r, w') \<Longrightarrow> status r = SErr \<Longrightarrow> w' = w"
  "cmd_mv ctx args w = (r, w') \<Longrightarrow> status r = SErr \<Longrightarrow> w' = w"
  "cmd_m4 ctx args to w = (r, w') \<Longrightarrow> status r = SErr \<Longrightarrow> w' = w"
  by (auto simp: cmd_cp_def cmd_mv_def cmd_m4_def Let_def split: if_splits option.splits)

lemma runGdb_failure: "runGdb args ctx w = (r, w') \<Longrightarrow> failed r \<Longrightarrow> w' = w"
  by (auto simp: runGdb_def Let_def failed_def split: if_splits option.splits prod.splits)

lemma dispatch_failure:
  assumes d: "dispatch_parsed p ctx w = (r, w')" and "failed r" and "\<not> acts_first (cmd p)"
  shows "w' = w"
proof -
  have via: "w' = w" if "c = cmd_cp ctx args w \<or> c = cmd_mv ctx args w \<or> c = cmd_m4 ctx args to w"
    "(case c of (r, w') \<Rightarrow> (Inr r, w')) = (r, w')" for c :: "DispatchResult \<times> 'a" and args to
    using that assms(2) by (cases c) (auto simp: failed_def dest: cmd_failures [OF sym])
  show ?thesis
    using d assms(2,3) via [of "cmd_cp ctx (cmd_args p) w" "cmd_args p"]
      via [of "cmd_mv ctx (cmd_args p) w" "cmd_args p"] via [of "cmd_m4 ctx (cmd_args p) (stdoutTo p) w" "cmd_args p" "stdoutTo p"]
      runGdb_failure [of "cmd_args p" ctx w r w']
    by (auto simp: dispatch_parsed_def acts_first_def Let_def failed_def split: if_splits)
qed

subsection \<open>Build, then run\<close>

definition exec_laws :: "'w DispatchContext \<Rightarrow> bool" where
  "exec_laws ctx \<longleftrightarrow>
     (\<forall>name body w q. getExecutable ctx q (setExecutable ctx name body w) =
        (if q = name then Some body else getExecutable ctx q w))"

lemma cmd_gcc_success:
  assumes "gcc_args args [] ''a.out'' = ([src], name)" "src \<noteq> []" "\<not> ends_with ''.asm'' src"
    and "readVfs ctx src w = Some body" "assembleSource ctx body w = ((True, es), w1)"
  shows "cmd_gcc ctx tool args w = (ok [], setExecutable ctx name body w1)"
  using assms by (simp add: cmd_gcc_def)

lemma cmd_program_compiled:
  assumes "getExecutable ctx name w = Some body" "\<not> truthy from" "\<not> truthy to"
    and "runSource ctx body ((''./'' @ name) # args) None (terminalIO ctx) w = (r, w')"
  shows "cmd_program ctx \<lparr>cmd = ''./'' @ name, cmd_args = args, stdinFrom = from, stdoutTo = to\<rparr> w =
    ((ok (program_lines to r))\<lparr>status := (if run_exitCode r = Some 0 then SOk else SErr),
                               result_exitCode := run_exitCode r\<rparr>, w')"
  using assms by (simp add: cmd_program_def Let_def)

subsection \<open>A concrete playground\<close>

text \<open>A context for the witnesses: files and executables are two association lists, and no
  program is loaded.\<close>

type_synonym shell = "(jstring \<times> jstring) list \<times> (jstring \<times> jstring) list"

definition shell_context :: "shell DispatchContext" where
  "shell_context =
     \<lparr>listVfs = (\<lambda>w. map fst (fst w)), readVfs = (\<lambda>p w. map_of (fst w) p),
      writeVfs = (\<lambda>p body w. (AList.update p body (fst w), snd w)),
      deleteVfs = (\<lambda>p w. (p \<in> fst ` set (fst w), (AList.delete p (fst w), snd w))),
      runProgram = (\<lambda>argv stdin io w. (\<lparr>run_stdout = [], run_stderr = [], run_exitCode = None\<rparr>, w)),
      ctx_step = (\<lambda>w. w), ctx_runUntilBreak = (\<lambda>w. w), runUntil = (\<lambda>t w. (None, w)), frameStack = (\<lambda>w. None),
      ctx_lineLabel = (\<lambda>a w. None), ctx_setBreakpoint = (\<lambda>a w. w), resolveLabel = (\<lambda>l w. None),
      m4Expand = (\<lambda>s w. None), assembleSource = (\<lambda>s w. ((True, []), w)),
      runSource = (\<lambda>s argv stdin io w. (\<lparr>run_stdout = s, run_stderr = [], run_exitCode = Some 0\<rparr>, w)),
      getExecutable = (\<lambda>n w. map_of (snd w) n),
      setExecutable = (\<lambda>n body w. (fst w, AList.update n body (snd w))),
      readRegister = (\<lambda>n w. Some 4096), readRegisters = (\<lambda>w. []), readMemory = (\<lambda>a n w. replicate n 0),
      pcAddress = (\<lambda>w. 0), ctx_reset = (\<lambda>w. w), terminalIO = False\<rparr>"

lemma shell_context_simps:
  "files_of shell_context w = map_of (fst w)" "readVfs shell_context p w = map_of (fst w) p"
  "writeVfs shell_context p body w = (AList.update p body (fst w), snd w)"
  "deleteVfs shell_context p w = (p \<in> fst ` set (fst w), (AList.delete p (fst w), snd w))"
  "getExecutable shell_context p w = map_of (snd w) p"
  "setExecutable shell_context p body w = (fst w, AList.update p body (snd w))"
  "assembleSource shell_context body w = ((True, []), w)"
  "runSource shell_context body argv stdin io w = (\<lparr>run_stdout = body, run_stderr = [], run_exitCode = Some 0\<rparr>, w)"
  "pcAddress shell_context w = 0" "readMemory shell_context a n w = replicate n 0"
  by (simp_all add: files_of_def shell_context_def)

lemma shell_context_laws: "vfs_laws shell_context" "exec_laws shell_context"
proof -
  have "p \<in> fst ` set xs \<longleftrightarrow> p \<in> dom (map_of xs)" for p :: jstring and xs :: "(jstring \<times> jstring) list"
    by (simp add: dom_map_of_conv_image_fst)
  then show "vfs_laws shell_context"
    by (simp add: vfs_laws_def shell_context_simps update_conv' delete_conv')
  show "exec_laws shell_context"
    by (simp add: exec_laws_def shell_context_simps update_conv')
qed

subsection \<open>Properties of the terminal\<close>



text \<open>A command that fails, by an error or by an exception, changes nothing, unless it is
  one that acts before it can fail (\<open>rm\<close>, \<open>gcc\<close>, \<open>as\<close> and running a program).\<close>

theorem failed_command_changes_nothing:
  assumes "dispatchCommand line ctx w = (r, w')" "failed r" "\<not> acts_first (cmd (parseCommandLine line))"
  shows "w' = w"
  using dispatch_failure [of "parseCommandLine line" ctx w r w'] assms by (simp add: dispatchCommand_def)

theorem failed_command_changes_nothing_witness:
  "snd (dispatchCommand ''cp nope b'' shell_context ([(''a'', ''text'')], [])) = ([(''a'', ''text'')], [])"
proof -
  have p: "parseCommandLine ''cp nope b'' = \<lparr>cmd = ''cp'', cmd_args = [''nope'', ''b''], stdinFrom = None, stdoutTo = None\<rparr>"
    by code_simp
  have d: "failed (fst (dispatchCommand ''cp nope b'' shell_context ([(''a'', ''text'')], [])))"
    "\<not> acts_first (cmd (parseCommandLine ''cp nope b''))"
    by (simp_all add: dispatchCommand_def dispatch_parsed_def p cmd_cp_def shell_context_simps acts_first_def failed_def)
  show ?thesis
    by (rule failed_command_changes_nothing [OF _ d(1) d(2)]) simp
qed

text \<open>Examining memory is bounded whatever count is typed: a successful \<open>gdb x\<close> prints at most
  1024 lines, and no reading of more than 8192 bytes can affect any answer.\<close>

theorem examine_is_bounded:
  "runGdbExamine args (reads_capped 8192 other ctx) w = runGdbExamine args ctx w \<and>
   (\<forall>r. runGdbExamine args ctx w = Inr r \<and> status r = SOk \<longrightarrow> length (result_lines r) \<le> MAX_EXAMINE_COUNT)"
  by (auto simp: runGdbExamine_capped dest: runGdbExamine_lines)

theorem examine_is_bounded_witness:
  "\<exists>r. runGdbExamine [''x/1i'', ''$pc''] shell_context ([], []) = Inr r \<and> status r = SOk \<and>
     length (result_lines r) \<le> MAX_EXAMINE_COUNT"
proof -
  have f: "examine_count ''gx'' ''x/1i'' = None" "examine_count ''i'' ''x/1i'' = Some 1" "js_lower ''pc'' = ''pc''"
    by code_simp+
  have "address_text (Whole 0) 0 = Inr (formatWord64 0)" by (simp add: address_text_def whole_number_of_def)
  then have "case runGdbExamine [''x/1i'', ''$pc''] shell_context ([], []) of Inl _ \<Rightarrow> False | Inr r \<Rightarrow> status r = SOk"
    by (simp add: runGdbExamine_def f MAX_EXAMINE_COUNT_def shell_context_simps map_sum_right_def)
  then show ?thesis
    using examine_is_bounded [of "[''x/1i'', ''$pc'']" "\<lambda>_ _ _. []" shell_context "([], [])"]
    by (auto split: sum.splits)
qed

text \<open>What \<open>gcc\<close> builds is what \<open>./name\<close> runs: after a successful build, running the
  output name runs the text the source file had when it was built, with the program's name as
  the first argument, even when the name is that of the editor's program.\<close>

theorem build_then_run:
  assumes "exec_laws ctx" "cmd (parseCommandLine build) = ''gcc''"
    and "gcc_args (cmd_args (parseCommandLine build)) [] ''a.out'' = ([src], name)" "src \<noteq> []"
    and "\<not> ends_with ''.asm'' src" "readVfs ctx src w = Some body" "assembleSource ctx body w = ((True, es), w1)"
    and "parseCommandLine run = \<lparr>cmd = ''./'' @ name, cmd_args = args, stdinFrom = None, stdoutTo = None\<rparr>"
    and "runSource ctx body ((''./'' @ name) # args) None (terminalIO ctx) (setExecutable ctx name body w1) = (out, w2)"
  shows "dispatchCommand build ctx w = (Inr (ok []), setExecutable ctx name body w1) \<and>
    dispatchCommand run ctx (setExecutable ctx name body w1) =
      (Inr ((ok (program_lines None out))\<lparr>status := (if run_exitCode out = Some 0 then SOk else SErr),
                                          result_exitCode := run_exitCode out\<rparr>), w2)"
proof -
  have "cmd_gcc ctx ''gcc'' (cmd_args (parseCommandLine build)) w = (ok [], setExecutable ctx name body w1)"
    by (rule cmd_gcc_success [OF assms(3-7)])
  moreover have "getExecutable ctx name (setExecutable ctx name body w1) = Some body"
    using assms(1) by (simp add: exec_laws_def)
  note cmd_program_compiled [OF this _ _ assms(9), of None None]
  ultimately show ?thesis
    using assms(2,8) by (simp add: dispatchCommand_def dispatch_parsed_def truthy_def)
qed

theorem build_then_run_witness:
  "fst (dispatchCommand ''./program'' shell_context
     (snd (dispatchCommand ''gcc p.s -o program'' shell_context ([(''p.s'', ''hi'')], [])))) =
   Inr ((ok [''hi'', ''[exit 0]''])\<lparr>result_exitCode := Some 0\<rparr>)"
proof -
  let ?w = "([(''p.s'', ''hi'')], []) :: shell"
  have p: "parseCommandLine ''gcc p.s -o program'' =
      \<lparr>cmd = ''gcc'', cmd_args = [''p.s'', ''-o'', ''program''], stdinFrom = None, stdoutTo = None\<rparr>"
    "parseCommandLine ''./program'' = \<lparr>cmd = ''./program'', cmd_args = [], stdinFrom = None, stdoutTo = None\<rparr>"
    by code_simp+
  have l: "program_lines None \<lparr>run_stdout = ''hi'', run_stderr = [], run_exitCode = Some 0\<rparr> = [''hi'', ''[exit 0]'']"
    by code_simp
  show ?thesis
    using build_then_run [OF shell_context_laws(2), of "''gcc p.s -o program''" "''p.s''" "''program''" ?w "''hi''" "[]" ?w
        "''./program''" "[]"] p l
    by (simp add: ends_with_def ok_def shell_context_simps)
qed

end
