(* ===== verification/FileMap.thy ===== *)
theory FileMap
  imports SourceMap StackFrames
begin

text \<open>
  \<open>web/lib/playground/file-map.ts\<close>: main.asm and the extra files joined into the one text
  the assembler sees, and the line numbers of that text mapped back to the files.  The
  index of the owning file is an \<open>int\<close>, -1 for main.asm.  A \<open>Set\<close> of lines is the list of
  its members in insertion order, a \<open>Map\<close> an association list.
\<close>

record SourceFile =
  sf_name :: jstring
  sf_body :: jstring

definition MAIN_FILE :: int where "MAIN_FILE = -1"

record Workspace =
  ws_main :: jstring
  ws_extras :: "SourceFile list"

record FileLocation =
  fl_file :: int
  fl_name :: jstring
  fl_line :: int

abbreviation NL :: char where "NL \<equiv> CHR 0x0A"

definition boundaryComment :: "jstring \<Rightarrow> jstring" where
  "boundaryComment name = ''// ---- '' @ name @ '' ----''"

definition combineSources :: "jstring \<Rightarrow> SourceFile list \<Rightarrow> jstring" where
  "combineSources main extras =
     (if extras = [] then main
      else js_join [NL] (main # concat (map (\<lambda>f. [boundaryComment (sf_name f), sf_body f]) extras)))"

definition countLines :: "jstring \<Rightarrow> int" where
  "countLines text = fold (\<lambda>c n. if code c = 10 then n + 1 else n) text 1"

definition main_names :: "jstring \<Rightarrow> bool" where
  "main_names s \<longleftrightarrow> js_lower s = ''main.asm'' \<or> js_lower s = ''main.s''"

definition MAX_FILE_NAME_CHARS :: nat where "MAX_FILE_NAME_CHARS = 64"

definition file_name_shape :: "jstring \<Rightarrow> bool" where
  "file_name_shape s \<longleftrightarrow>
     s \<noteq> [] \<and> (is_alpha (hd s) \<or> is_digit (hd s)) \<and>
     list_all (\<lambda>c. is_alpha c \<or> is_digit c \<or> c \<in> set ''._-'') (tl s)"

definition fileNameShapeError :: "jstring \<Rightarrow> jstring option" where
  "fileNameShapeError name =
     (let trimmed = js_trim name in
      if length trimmed = 0 then Some ''file name cannot be empty''
      else if length trimmed > MAX_FILE_NAME_CHARS then
        Some (''file name is too long (max '' @ show_int (int MAX_FILE_NAME_CHARS) @ '' characters)'')
      else if \<not> file_name_shape trimmed then
        Some ''file names may use letters, digits, dot, dash, and underscore only''
      else None)"

definition validateFileName :: "jstring \<Rightarrow> SourceFile list \<Rightarrow> nat option \<Rightarrow> jstring option" where
  "validateFileName name files exceptIndex =
     (let trimmed = js_trim name in
      case fileNameShapeError trimmed of
        Some shape \<Rightarrow> Some shape
      | None \<Rightarrow>
          if main_names trimmed then
            Some (''main.asm is the editor'' @ [CHR 0x27] @ ''s own buffer; pick another name'')
          else if list_ex (\<lambda>i. Some i \<noteq> exceptIndex \<and> sf_name (files ! i) = trimmed) [0 ..< length files]
          then Some (''a file named '' @ trimmed @ '' is already open'')
          else None)"

text \<open>\<open>Math.max(1, Math.min(n, lines))\<close>.\<close>

definition clamp_line :: "int \<Rightarrow> int \<Rightarrow> int" where
  "clamp_line n lines = max 1 (min n lines)"

fun resolve_extras :: "int \<Rightarrow> nat \<Rightarrow> SourceFile list \<Rightarrow> FileLocation" where
  "resolve_extras remaining i [] = \<lparr>fl_file = MAIN_FILE, fl_name = ''main.asm'', fl_line = 1\<rparr>"
| "resolve_extras remaining i (f # fs) =
     (let rest = remaining - 1; bodyLines = countLines (sf_body f) in
      if rest \<le> bodyLines \<or> fs = [] then
        \<lparr>fl_file = int i, fl_name = sf_name f, fl_line = clamp_line rest bodyLines\<rparr>
      else resolve_extras (rest - bodyLines) (Suc i) fs)"

definition resolveLine :: "int \<Rightarrow> jstring \<Rightarrow> SourceFile list \<Rightarrow> FileLocation" where
  "resolveLine combinedLine main extras =
     (let mainLines = countLines main in
      if combinedLine \<le> mainLines \<or> extras = [] then
        \<lparr>fl_file = MAIN_FILE, fl_name = ''main.asm'', fl_line = clamp_line combinedLine mainLines\<rparr>
      else resolve_extras (combinedLine - mainLines) 0 extras)"

definition combinedLineFor :: "int \<Rightarrow> int \<Rightarrow> jstring \<Rightarrow> SourceFile list \<Rightarrow> int" where
  "combinedLineFor file line main extras =
     (if file = MAIN_FILE then line
      else fold (\<lambda>f base. base + (1 + countLines (sf_body f))) (take (nat file) extras) (countLines main) + 1 + line)"

text \<open>A diagnostic is its line and the rest of it.\<close>

definition diagnosticsForFile :: "(int \<times> 'a) list \<Rightarrow> jstring \<Rightarrow> SourceFile list \<Rightarrow> int \<Rightarrow> (int \<times> 'a) list" where
  "diagnosticsForFile items main extras activeFile =
     List.map_filter
       (\<lambda>(line, item).
          if line \<le> 0 then (if activeFile = MAIN_FILE then Some (line, item) else None)
          else
            let loc = resolveLine line main extras in
            if fl_file loc = activeFile then Some (fl_line loc, item) else None)
       items"

definition set_add :: "'a \<Rightarrow> 'a list \<Rightarrow> 'a list" where
  "set_add x xs = (if x \<in> set xs then xs else xs @ [x])"

definition breakpointsForFile :: "int list \<Rightarrow> jstring \<Rightarrow> SourceFile list \<Rightarrow> int \<Rightarrow> int list" where
  "breakpointsForFile stored main extras activeFile =
     fold (\<lambda>line acc. let loc = resolveLine line main extras in
             if fl_file loc = activeFile then set_add (fl_line loc) acc else acc) stored []"

definition workspaceShape :: "jstring \<Rightarrow> SourceFile list \<Rightarrow> jstring" where
  "workspaceShape main extras =
     show_int (countLines main) @ ''|'' @ js_join '','' (map (\<lambda>f. show_int (countLines (sf_body f))) extras)"

definition remap_target :: "int \<Rightarrow> Workspace \<Rightarrow> Workspace \<Rightarrow> int option" where
  "remap_target line from to =
     (let loc = resolveLine line (ws_main from) (ws_extras from);
          owner = (if fl_file loc = MAIN_FILE then Some (ws_main to)
                   else map_option sf_body (nth_int (ws_extras to) (fl_file loc))) in
      map_option (\<lambda>body. combinedLineFor (fl_file loc) (min (fl_line loc) (countLines body)) (ws_main to) (ws_extras to))
        owner)"

definition planBreakpointRemap :: "int list \<Rightarrow> Workspace \<Rightarrow> Workspace \<Rightarrow> (int \<times> int option) list option" where
  "planBreakpointRemap stored from to =
     (if stored = [] then None
      else
        let (moved, changed) =
              fold (\<lambda>line (moved, changed).
                      let target = remap_target line from to in
                      (AList.update line target moved, changed \<or> target \<noteq> Some line)) stored ([], False) in
        if changed then Some moved else None)"

definition sameWorkspace :: "Workspace \<Rightarrow> Workspace \<Rightarrow> bool" where
  "sameWorkspace a b \<longleftrightarrow>
     ws_main a = ws_main b \<and> length (ws_extras a) = length (ws_extras b) \<and>
     list_all (\<lambda>i. sf_name (ws_extras a ! i) = sf_name (ws_extras b ! i) \<and>
                   sf_body (ws_extras a ! i) = sf_body (ws_extras b ! i)) [0 ..< length (ws_extras a)]"

text \<open>The byte order mark lies above the characters of the model, so it has no case here.  A line
  starts after a line feed or a carriage return.\<close>

definition definesMain :: "jstring \<Rightarrow> bool" where
  "definesMain body \<longleftrightarrow>
     list_ex (\<lambda>line. let s = dropWhile (\<lambda>c. c = CHR 0x20 \<or> c = CHR 0x09) line in
                starts_with ''main'' s \<and>
                starts_with '':'' (dropWhile (\<lambda>c. c = CHR 0x20 \<or> c = CHR 0x09) (drop 4 s)))
       (concat (map (js_split (CHR 0x0D)) (js_split NL body)))"

text \<open>\<open>replace\<close> of the first match of \<open>first appears on line (\d+)\<close>.\<close>

fun relocate_first :: "(int \<Rightarrow> jstring) \<Rightarrow> jstring \<Rightarrow> jstring" where
  "relocate_first where_at [] = []"
| "relocate_first where_at (c # cs) =
     (let pre = ''first appears on line ''; rest = drop (length pre) (c # cs); digits = takeWhile is_digit rest in
      if starts_with pre (c # cs) \<and> digits \<noteq> [] then
        ''first appears on '' @ where_at (int (of_digits 10 digits)) @ dropWhile is_digit rest
      else c # relocate_first where_at cs)"

definition where_text :: "jstring \<Rightarrow> SourceFile list \<Rightarrow> int \<Rightarrow> jstring" where
  "where_text main extras line =
     (let loc = resolveLine line main extras in
      if extras = [] then ''line '' @ show_int (fl_line loc)
      else fl_name loc @ '' line '' @ show_int (fl_line loc))"

definition errorWithLocation ::
    "jstring option \<Rightarrow> (int \<times> jstring) option \<Rightarrow> jstring \<Rightarrow> SourceFile list \<Rightarrow> jstring option" where
  "errorWithLocation error first_error main extras =
     (case (error, first_error) of
        (Some e, Some (line, message)) \<Rightarrow>
          if e = [] \<or> line \<le> 0 then error
          else if e \<noteq> message \<and> e \<noteq> ''line '' @ show_int line @ '': '' @ message then error
          else Some (where_text main extras line @ '': '' @ relocate_first (where_text main extras) message)
      | _ \<Rightarrow> error)"

subsection \<open>Lines of the joined text\<close>

text \<open>The lines of a text, and of a file with its marker.\<close>

abbreviation lines_of :: "jstring \<Rightarrow> jstring list" where
  "lines_of s \<equiv> js_split NL s"

definition file_block :: "SourceFile \<Rightarrow> jstring list" where
  "file_block f = boundaryComment (sf_name f) # lines_of (sf_body f)"

definition file_text :: "Workspace \<Rightarrow> int \<Rightarrow> (jstring \<times> jstring) option" where
  "file_text ws file =
     (if file = MAIN_FILE then Some (''main.asm'', ws_main ws)
      else map_option (\<lambda>f. (sf_name f, sf_body f)) (nth_int (ws_extras ws) file))"

lemma code_NL: "code c = 10 \<longleftrightarrow> c = NL"
proof
  assume "code c = 10"
  then have "c = char_of (10 :: nat)" unfolding code_def by (metis char_of_char)
  then show "c = NL" by (simp add: char_of_def bit_Suc_0_iff)
qed (simp add: code_def)

lemma lines_append: "lines_of (w @ NL # s) = lines_of w @ lines_of s"
  by (induction w) (auto split: list.splits)

lemma countLines_lines: "countLines s = int (length (lines_of s))"
proof -
  have "fold (\<lambda>c n. if code c = 10 then n + 1 else n) s k = k + int (count_list s NL)" for k
    by (induction s arbitrary: k) (auto simp: code_NL)
  then show ?thesis by (simp add: countLines_def length_js_split)
qed

lemma countLines_pos: "1 \<le> countLines s"
  by (simp add: countLines_lines Suc_le_eq)

lemma lines_combine:
  assumes "list_all (\<lambda>f. NL \<notin> set (sf_name f)) extras"
  shows "lines_of (combineSources main extras) = lines_of main @ concat (map file_block extras)"
proof -
  have nb: "NL \<notin> set (boundaryComment (sf_name f))" if "f \<in> set extras" for f
    using assms that by (auto simp: boundaryComment_def list_all_iff)
  have j: "lines_of (js_join [NL] (w # ws)) = lines_of w @ concat (map lines_of ws)" for w ws
    by (induction ws arbitrary: w) (auto simp: lines_append)
  have c: "concat (map lines_of (concat (map (\<lambda>f. [boundaryComment (sf_name f), sf_body f]) fs))) =
      concat (map file_block fs)" if "set fs \<subseteq> set extras" for fs
    using that by (induction fs) (auto simp: file_block_def js_split_no_sep nb)
  show ?thesis by (simp add: combineSources_def j c)
qed

lemma fold_base:
  "fold (\<lambda>f base. base + (1 + countLines (sf_body f))) fs k = k + int (length (concat (map file_block fs)))"
  by (induction fs arbitrary: k) (auto simp: countLines_lines file_block_def)

lemma nth_concat_block:
  "i < length fs \<Longrightarrow> j < length (g (fs ! i)) \<Longrightarrow>
     concat (map g fs) ! (length (concat (map g (take i fs))) + j) = g (fs ! i) ! j \<and>
     length (concat (map g (take i fs))) + j < length (concat (map g fs))"
proof (induction fs arbitrary: i)
  case (Cons f fs)
  then show ?case by (cases i) (auto simp: nth_append)
qed simp

lemma resolve_extras_block:
  "k < length fs \<Longrightarrow> 1 \<le> l \<Longrightarrow> l \<le> countLines (sf_body (fs ! k)) \<Longrightarrow>
     resolve_extras (int (length (concat (map file_block (take k fs)))) + 1 + l) i fs =
       \<lparr>fl_file = int (i + k), fl_name = sf_name (fs ! k), fl_line = l\<rparr>"
proof (induction fs arbitrary: k i)
  case (Cons f fs)
  show ?case
  proof (cases k)
    case 0
    then show ?thesis using Cons.prems by (simp add: clamp_line_def)
  next
    case (Suc m)
    then have "fs \<noteq> []" using Cons.prems(1) by auto
    moreover have "countLines (sf_body f) < int (length (lines_of (sf_body f))) +
        int (length (concat (map file_block (take m fs)))) + 1 + l"
      using Cons.prems(2) by (simp add: countLines_lines)
    ultimately show ?thesis
      using Suc Cons.prems Cons.IH [of m "Suc i"]
      by (simp add: file_block_def countLines_lines algebra_simps)
  qed
qed simp

lemma combined_line:
  assumes names: "list_all (\<lambda>f. NL \<notin> set (sf_name f)) extras"
    and owner: "file_text \<lparr>ws_main = main, ws_extras = extras\<rparr> file = Some (name, body)"
    and l: "1 \<le> l" "l \<le> countLines body"
  shows "resolveLine (combinedLineFor file l main extras) main extras =
      \<lparr>fl_file = file, fl_name = name, fl_line = l\<rparr>"
    and "nth_int (lines_of (combineSources main extras)) (combinedLineFor file l main extras - 1) =
      nth_int (lines_of body) (l - 1)"
proof -
  show "resolveLine (combinedLineFor file l main extras) main extras =
      \<lparr>fl_file = file, fl_name = name, fl_line = l\<rparr>"
  proof (cases "file = MAIN_FILE")
    case True
    then show ?thesis using owner l
      by (auto simp: file_text_def resolveLine_def combinedLineFor_def Let_def clamp_line_def)
  next
    case False
    then have f: "0 \<le> file" "nat file < length extras" "extras \<noteq> []" "sf_name (extras ! nat file) = name"
      "sf_body (extras ! nat file) = body"
      using owner by (auto simp: file_text_def nth_int_def split: if_splits)
    then show ?thesis
      using resolve_extras_block [of "nat file" extras l 0] l False
      by (simp add: resolveLine_def combinedLineFor_def fold_base algebra_simps)
  qed
  show "nth_int (lines_of (combineSources main extras)) (combinedLineFor file l main extras - 1) =
      nth_int (lines_of body) (l - 1)"
  proof (cases "file = MAIN_FILE")
    case True
    then show ?thesis using owner l names
      by (auto simp: file_text_def combinedLineFor_def lines_combine nth_int_def nth_opt_conv countLines_lines nth_append)
  next
    case False
    then have f: "0 \<le> file" "nat file < length extras" "sf_body (extras ! nat file) = body"
      using owner by (auto simp: file_text_def nth_int_def split: if_splits)
    define n where "n = length (concat (map file_block (take (nat file) extras)))"
    have len: "nat l < length (file_block (extras ! nat file))"
      using l f by (simp add: file_block_def countLines_lines)
    have idx: "nat (combinedLineFor file l main extras - 1) = length (lines_of main) + (n + nat l)"
      using False l unfolding combinedLineFor_def fold_base n_def [symmetric]
      by (simp add: countLines_lines nat_add_distrib)
    have "file_block (extras ! nat file) ! nat l = lines_of body ! nat (l - 1)"
      using l f by (simp add: file_block_def nth_Cons' nat_diff_distrib)
    note blk = nth_concat_block [OF f(2), of "nat l" file_block, OF len, folded n_def] this
    have "0 \<le> combinedLineFor file l main extras - 1"
      unfolding combinedLineFor_def fold_base using False l by (simp add: countLines_lines)
    then show ?thesis
      using blk l f(3) by (simp add: nth_int_def nth_opt_conv lines_combine [OF names] idx countLines_lines)
  qed
qed

lemma file_text_parts [simp]: "file_text \<lparr>ws_main = ws_main ws, ws_extras = ws_extras ws\<rparr> = file_text ws"
  by (simp add: file_text_def fun_eq_iff)

subsection \<open>Names\<close>

definition good_name :: "jstring \<Rightarrow> bool" where
  "good_name name \<longleftrightarrow> fileNameShapeError name = None \<and> js_trim name = name"

lemma good_name_chars:
  assumes "good_name name"
  shows "NL \<notin> set name" "CHR ''/'' \<notin> set name" "length name \<le> 64" "name \<noteq> []"
proof -
  have s: "file_name_shape name" "length name \<le> 64" "name \<noteq> []"
    using assms by (auto simp: good_name_def fileNameShapeError_def Let_def MAX_FILE_NAME_CHARS_def split: if_splits)
  then show "length name \<le> 64" "name \<noteq> []" by auto
  have "is_alpha c \<or> is_digit c \<or> c \<in> set ''._-''" if "c \<in> set name" for c
    using s that by (cases name) (auto simp: file_name_shape_def list_all_iff)
  moreover have "\<not> is_alpha NL" "\<not> is_digit NL" "\<not> is_alpha (CHR ''/'')" "\<not> is_digit (CHR ''/'')"
    by (simp_all add: is_alpha_def is_upper_def is_lower_def is_digit_def code_def)
  ultimately show "NL \<notin> set name" "CHR ''/'' \<notin> set name" by auto
qed

lemma validateFileName_good:
  assumes "validateFileName name files except = None"
  shows "good_name (js_trim name)" "\<not> main_names (js_trim name)"
    "i < length files \<Longrightarrow> Some i \<noteq> except \<Longrightarrow> sf_name (files ! i) \<noteq> js_trim name"
  using assms
  by (auto simp: validateFileName_def good_name_def Let_def list_ex_iff split: option.splits if_splits)

subsection \<open>Moving breakpoints\<close>

lemma remap_target_place:
  assumes from_file: "file_text from file = Some (name, body)" "1 \<le> l" "l \<le> countLines body"
    and names: "list_all (\<lambda>f. good_name (sf_name f)) (ws_extras from)" "list_all (\<lambda>f. good_name (sf_name f)) (ws_extras to)"
  shows "case file_text to file of
      None \<Rightarrow> remap_target (combinedLineFor file l (ws_main from) (ws_extras from)) from to = None
    | Some (name', body') \<Rightarrow>
        \<exists>t. remap_target (combinedLineFor file l (ws_main from) (ws_extras from)) from to = Some t \<and>
          resolveLine t (ws_main to) (ws_extras to) =
            \<lparr>fl_file = file, fl_name = name', fl_line = min l (countLines body')\<rparr>"
proof -
  have nn: "list_all (\<lambda>f. NL \<notin> set (sf_name f)) (ws_extras from)" "list_all (\<lambda>f. NL \<notin> set (sf_name f)) (ws_extras to)"
    using names good_name_chars(1) by (auto simp: list_all_iff)
  have loc: "resolveLine (combinedLineFor file l (ws_main from) (ws_extras from)) (ws_main from) (ws_extras from) =
      \<lparr>fl_file = file, fl_name = name, fl_line = l\<rparr>"
    using combined_line(1) [OF nn(1), of "ws_main from" "file" name body l] from_file by simp
  have owner: "(if file = MAIN_FILE then Some (ws_main to) else map_option sf_body (nth_int (ws_extras to) file)) =
      map_option snd (file_text to file)"
    by (simp add: file_text_def option.map_comp comp_def)
  have rt: "remap_target (combinedLineFor file l (ws_main from) (ws_extras from)) from to =
      map_option (\<lambda>b. combinedLineFor file (min l (countLines b)) (ws_main to) (ws_extras to))
        (map_option snd (file_text to file))"
    unfolding remap_target_def loc Let_def FileLocation.simps owner ..
  have pos: "1 \<le> min l (countLines b)" for b using from_file(2) countLines_pos by simp
  show ?thesis
    using combined_line(1) [OF nn(2), of "ws_main to" "file" _ _ "min l (countLines _)", OF _ pos]
    by (auto simp: rt split: option.splits)
qed

lemma remap_fold:
  "fold (\<lambda>line (moved, changed). let target = f line in
       (AList.update line target moved, changed \<or> target \<noteq> Some line)) stored (m, b) =
   (fold (\<lambda>line. AList.update line (f line)) stored m, b \<or> (\<exists>line \<in> set stored. f line \<noteq> Some line))"
  by (induction stored arbitrary: m b) (auto simp: Let_def)

lemma map_of_fold_update:
  "map_of (fold (\<lambda>line. AList.update line (f line)) stored m) x =
     (if x \<in> set stored then Some (f x) else map_of m x)"
  by (induction stored arbitrary: m) (auto simp: update_conv')

lemma planBreakpointRemap_conv:
  "planBreakpointRemap stored from to =
     (if \<exists>line \<in> set stored. remap_target line from to \<noteq> Some line
      then Some (fold (\<lambda>line. AList.update line (remap_target line from to)) stored []) else None)"
  by (auto simp: planBreakpointRemap_def remap_fold)

subsection \<open>Properties of the file map\<close>

text \<open>C19: the line numbers of the joined text and of the files agree.  For files with
  accepted names, the combined line of a line of a file holds that line's text, and resolves
  back to the same file, name and line.\<close>

theorem combined_lines:
  assumes "list_all (\<lambda>f. good_name (sf_name f)) (ws_extras ws)"
    and "file_text ws file = Some (name, body)" "1 \<le> l" "l \<le> countLines body"
  shows "resolveLine (combinedLineFor file l (ws_main ws) (ws_extras ws)) (ws_main ws) (ws_extras ws) =
      \<lparr>fl_file = file, fl_name = name, fl_line = l\<rparr> \<and>
    nth_int (lines_of (combineSources (ws_main ws) (ws_extras ws))) (combinedLineFor file l (ws_main ws) (ws_extras ws) - 1) =
      nth_int (lines_of body) (l - 1)"
proof -
  have "list_all (\<lambda>f. NL \<notin> set (sf_name f)) (ws_extras ws)"
    using assms(1) good_name_chars(1) by (auto simp: list_all_iff)
  with combined_line [of "ws_extras ws" "ws_main ws" "file" name body l] assms(2-) show ?thesis by simp
qed

definition demo_workspace :: Workspace where
  "demo_workspace = \<lparr>ws_main = ''a'' @ [NL] @ ''b'', ws_extras = [\<lparr>sf_name = ''q.s'', sf_body = ''c'' @ [NL] @ ''d''\<rparr>]\<rparr>"

theorem combined_lines_witness:
  "resolveLine (combinedLineFor 0 2 (ws_main demo_workspace) (ws_extras demo_workspace))
     (ws_main demo_workspace) (ws_extras demo_workspace) = \<lparr>fl_file = 0, fl_name = ''q.s'', fl_line = 2\<rparr>"
proof -
  have "list_all (\<lambda>f. good_name (sf_name f)) (ws_extras demo_workspace)" by code_simp
  moreover have "file_text demo_workspace 0 = Some (''q.s'', ''c'' @ [NL] @ ''d'')" by code_simp
  moreover have "2 \<le> countLines (''c'' @ [NL] @ ''d'')" by code_simp
  ultimately show ?thesis using combined_lines [of demo_workspace 0 "''q.s''" "''c'' @ [NL] @ ''d''" 2] by simp
qed

text \<open>When the workspace changes shape, a breakpoint on a line of a file moves to the
  same line of that file (to its last line when the file is now shorter), and is dropped when
  the file is gone; no plan is made exactly when every breakpoint stays where it is.\<close>

theorem breakpoints_follow_their_file:
  assumes "list_all (\<lambda>f. good_name (sf_name f)) (ws_extras from)" "list_all (\<lambda>f. good_name (sf_name f)) (ws_extras to)"
    and "file_text from file = Some (name, body)" "1 \<le> l" "l \<le> countLines body"
    and "combinedLineFor file l (ws_main from) (ws_extras from) \<in> set stored"
  shows "case planBreakpointRemap stored from to of
      None \<Rightarrow> \<forall>line \<in> set stored. remap_target line from to = Some line
    | Some moved \<Rightarrow>
       (case file_text to file of
          None \<Rightarrow> map_of moved (combinedLineFor file l (ws_main from) (ws_extras from)) = Some None
        | Some (name', body') \<Rightarrow>
            \<exists>t. map_of moved (combinedLineFor file l (ws_main from) (ws_extras from)) = Some (Some t) \<and>
              resolveLine t (ws_main to) (ws_extras to) =
                \<lparr>fl_file = file, fl_name = name', fl_line = min l (countLines body')\<rparr>)"
  using remap_target_place [OF assms(3-5,1,2)] assms(6)
  by (auto simp: planBreakpointRemap_conv map_of_fold_update split: option.splits)

theorem breakpoints_follow_their_file_witness:
  "\<exists>moved t. planBreakpointRemap [5] demo_workspace (demo_workspace\<lparr>ws_main := ''a''\<rparr>) = Some moved \<and>
     map_of moved 5 = Some (Some t) \<and>
     resolveLine t ''a'' (ws_extras demo_workspace) = \<lparr>fl_file = 0, fl_name = ''q.s'', fl_line = 2\<rparr>"
proof -
  let ?to = "demo_workspace\<lparr>ws_main := ''a''\<rparr>"
  have n: "list_all (\<lambda>f. good_name (sf_name f)) (ws_extras demo_workspace)"
    "list_all (\<lambda>f. good_name (sf_name f)) (ws_extras ?to)" by code_simp+
  have f: "file_text demo_workspace 0 = Some (''q.s'', ''c'' @ [NL] @ ''d'')"
    "file_text ?to 0 = Some (''q.s'', ''c'' @ [NL] @ ''d'')" by code_simp+
  have c: "2 \<le> countLines (''c'' @ [NL] @ ''d'')" "min 2 (countLines (''c'' @ [NL] @ ''d'')) = 2" by code_simp+
  have l: "combinedLineFor 0 2 (ws_main demo_workspace) (ws_extras demo_workspace) = 5" by code_simp
  have "planBreakpointRemap [5] demo_workspace ?to \<noteq> None" by code_simp
  then obtain moved where "planBreakpointRemap [5] demo_workspace ?to = Some moved" by blast
  with breakpoints_follow_their_file [OF n f(1) _ c(1), of "[5]"] f(2) c(2) l show ?thesis by simp
qed

end
