(* ===== verification/WatchExpr.thy ===== *)
theory WatchExpr
  imports FrameViews SourceMap
begin

unbundle bit_operations_syntax

text \<open>
  Watch expressions: \<open>web/lib/emulator/watch-expr.ts\<close>.  A watch names a register, a memory cell
  through a register or an array element, and is evaluated against the machine, whose reads are
  parameters (\<open>EvalContext\<close>).  A memory read is bytes, a fault or pending.  Element sizes of data
  labels are read from the source text.
\<close>

datatype MemRead = Bytes int | Unmapped | MPending

datatype LabelAddress = Address int | APending | NoLabel

datatype ElementSize = Size nat | SizeError jstring

record EvalContext =
  ec_readRegister :: "jstring \<Rightarrow> int option"
  ec_readMemory :: "int \<Rightarrow> nat \<Rightarrow> MemRead"
  resolveSlotOffset :: "jstring \<Rightarrow> int option"
  resolveLabelAddress :: "jstring \<Rightarrow> LabelAddress"
  ec_labelElementSize :: "(jstring \<Rightarrow> ElementSize) option"

datatype EvalOutcome = EvalOk int nat jstring | EvalError jstring | EvalPending

definition regName :: "jstring \<Rightarrow> jstring option" where
  "regName s =
     (let t = js_lower (js_trim s) in
      if t \<in> {''sp'', ''fp'', ''lr'', ''xzr'', ''wzr''} then Some t
      else if t \<noteq> [] \<and> hd t \<in> {CHR ''x'', CHR ''w''} \<and> tl t \<noteq> [] \<and> list_all is_digit (tl t) then Some t
      else None)"

definition regWidth :: "jstring \<Rightarrow> nat" where
  "regWidth name = (if starts_with ''w'' name then 4 else 8)"

definition sizeFor :: "jstring \<Rightarrow> int \<Rightarrow> int" where
  "sizeFor name v = (if starts_with ''w'' name then v AND 0xFFFFFFFF else v)"

definition toHex :: "int \<Rightarrow> nat \<Rightarrow> jstring" where
  "toHex v n = ''0x'' @ padStart (n * 2) (CHR ''0'') (to_string 16 (v AND (push_bit (n * 8) 1 - 1)))"

definition readAt :: "EvalContext \<Rightarrow> int \<Rightarrow> nat \<Rightarrow> EvalOutcome" where
  "readAt ctx addr n =
     (case ec_readMemory ctx addr n of
        Unmapped \<Rightarrow> EvalError (''fault reading '' @ toHex addr 8)
      | MPending \<Rightarrow> EvalPending
      | Bytes v \<Rightarrow> EvalOk v n (toHex v n))"

definition parseOffset :: "jstring \<Rightarrow> EvalContext \<Rightarrow> int option" where
  "parseOffset s ctx =
     (let t = js_trim s in
      if starts_with ''0x'' t \<or> starts_with ''0X'' t then
        (if digits_only 16 (drop 2 t) then Some (int (of_digits 16 (drop 2 t))) else None)
      else if digits_only 10 (if starts_with ''-'' t then drop 1 t else t) then
        Some (if starts_with ''-'' t then - int (of_digits 10 (drop 1 t)) else int (of_digits 10 t))
      else case Option.bind (regName t) (ec_readRegister ctx) of
             Some v \<Rightarrow> Some v
           | None \<Rightarrow> resolveSlotOffset ctx t)"

text \<open>\<open>ARRAY_FORM\<close>: a name, then an index between brackets that holds no closing bracket.\<close>

definition ARRAY_FORM :: "jstring \<Rightarrow> (jstring \<times> jstring) option" where
  "ARRAY_FORM s =
     (let name = takeWhile is_word_char s; rest = dropWhile is_word_char s; index = butlast (tl rest) in
      if name \<noteq> [] \<and> is_ident_start (hd name) \<and> starts_with ''['' rest \<and> ends_with '']'' rest \<and>
         length rest \<ge> 3 \<and> CHR '']'' \<notin> set index
      then Some (name, index) else None)"

definition watchLabelName :: "jstring \<Rightarrow> jstring option" where
  "watchLabelName expr = map_option fst (ARRAY_FORM (js_trim expr))"

definition eval_array :: "EvalContext \<Rightarrow> jstring \<Rightarrow> jstring \<Rightarrow> EvalOutcome" where
  "eval_array ctx name index =
     (case parseOffset index ctx of
        None \<Rightarrow> EvalError (''unknown index '' @ index)
      | Some idx \<Rightarrow>
          (case resolveLabelAddress ctx name of
             APending \<Rightarrow> EvalPending
           | Address label \<Rightarrow>
               (case (case ec_labelElementSize ctx of None \<Rightarrow> SizeError ''no source to read'' | Some f \<Rightarrow> f name) of
                  SizeError e \<Rightarrow> EvalError (''can'' @ [CHR 0x27] @ ''t tell the element size of '' @ name @ '': '' @ e)
                | Size n \<Rightarrow> readAt ctx (label + idx * int n) n)
           | NoLabel \<Rightarrow>
               (case resolveSlotOffset ctx name of
                  Some slot \<Rightarrow>
                    (case ec_readRegister ctx ''fp'' of
                       None \<Rightarrow> EvalError ''fp is not available''
                     | Some fp \<Rightarrow> readAt ctx (fp + slot + idx * 8) 8)
                | None \<Rightarrow> EvalError (''unknown symbol '' @ name))))"

definition eval_bracket :: "EvalContext \<Rightarrow> jstring \<Rightarrow> EvalOutcome" where
  "eval_bracket ctx body =
     (let parts = map js_trim (js_split (CHR '','') body) in
      if length parts \<noteq> 2 then EvalError ''expected [reg, offset]''
      else case ec_readRegister ctx (js_lower (parts ! 0)) of
        None \<Rightarrow> EvalError (''unknown register '' @ parts ! 0)
      | Some regVal \<Rightarrow>
          (case parseOffset (parts ! 1) ctx of
             None \<Rightarrow> EvalError (''unknown offset '' @ parts ! 1)
           | Some offset \<Rightarrow> readAt ctx (regVal + offset) 8))"

definition eval_register :: "EvalContext \<Rightarrow> jstring \<Rightarrow> EvalOutcome" where
  "eval_register ctx reg =
     (case ec_readRegister ctx reg of
        None \<Rightarrow> EvalError (''unknown register '' @ reg)
      | Some v \<Rightarrow> EvalOk (sizeFor reg v) (regWidth reg) (toHex (sizeFor reg v) (regWidth reg)))"

function evaluateWatch :: "jstring \<Rightarrow> EvalContext \<Rightarrow> EvalOutcome" where
  "evaluateWatch expr ctx =
     (let trimmed = js_trim expr in
      if length trimmed = 0 then EvalError ''empty expression''
      else case regName trimmed of
        Some reg \<Rightarrow> eval_register ctx reg
      | None \<Rightarrow>
          if starts_with ''*'' trimmed then
            (case evaluateWatch (js_trim (drop 1 trimmed)) ctx of
               EvalOk addr n shown \<Rightarrow> readAt ctx addr n
             | other \<Rightarrow> other)
          else if starts_with ''['' trimmed \<and> ends_with '']'' trimmed then eval_bracket ctx (butlast (tl trimmed))
          else case ARRAY_FORM trimmed of
            Some (name, index) \<Rightarrow> eval_array ctx name (js_trim index)
          | None \<Rightarrow> EvalError ''unsupported expression'')"
  by pat_completeness auto
termination
proof (relation "measure (\<lambda>(expr, ctx). length expr)")
  fix expr trimmed :: jstring and ctx :: EvalContext
  assume t: "trimmed = js_trim expr" "length trimmed \<noteq> 0"
  have "length (js_trim (drop 1 trimmed)) \<le> length trimmed - 1" using length_js_trim [of "drop 1 trimmed"] by simp
  moreover have "length trimmed \<le> length expr" using t(1) length_js_trim by simp
  ultimately show "((js_trim (drop 1 trimmed), ctx), expr, ctx) \<in> measure (\<lambda>(expr, ctx). length expr)"
    using t(2) by (cases trimmed) auto
qed simp

declare evaluateWatch.simps [simp del]

subsection \<open>Element sizes\<close>

definition DATA_SIZES :: "(jstring \<times> nat) list" where
  "DATA_SIZES =
     [(''.byte'', 1), (''.1byte'', 1), (''.hword'', 2), (''.short'', 2), (''.2byte'', 2),
      (''.word'', 4), (''.int'', 4), (''.long'', 4), (''.4byte'', 4), (''.single'', 4), (''.float'', 4),
      (''.dword'', 8), (''.quad'', 8), (''.xword'', 8), (''.8byte'', 8), (''.double'', 8)]"

definition UNSIZED_DATA :: "jstring list" where
  "UNSIZED_DATA = [''.ascii'', ''.asciz'', ''.string'', ''.skip'', ''.space'', ''.zero'', ''.fill'']"

definition is_label_start :: "char \<Rightarrow> bool" where
  "is_label_start c \<longleftrightarrow> is_alpha c \<or> c \<in> set ''_.$''"

definition is_label_char :: "char \<Rightarrow> bool" where
  "is_label_char c \<longleftrightarrow> is_word_char c \<or> c \<in> set ''.$''"

text \<open>\<open>LEADING_LABEL\<close>: the label and what follows its colon.\<close>

definition LEADING_LABEL :: "jstring \<Rightarrow> (jstring \<times> jstring) option" where
  "LEADING_LABEL line =
     (let s = dropWhile is_ws line;
          run = (if s \<noteq> [] \<and> is_label_start (hd s) then takeWhile is_label_char s else takeWhile is_digit s);
          rest = dropWhile is_ws (drop (length run) s) in
      if run \<noteq> [] \<and> starts_with '':'' rest then Some (run, drop 1 rest) else None)"

lemma LEADING_LABEL_shorter: "LEADING_LABEL s = Some (l, rest) \<Longrightarrow> length rest < length s"
proof -
  assume a: "LEADING_LABEL s = Some (l, rest)"
  define r where "r = dropWhile is_ws (drop (length l) (dropWhile is_ws s))"
  have "starts_with '':'' r" "rest = drop 1 r"
    using a unfolding r_def by (auto simp only: LEADING_LABEL_def Let_def option.inject prod.inject split: if_splits)
  moreover from this(1) have "r \<noteq> []" by (cases r) auto
  moreover have "length r \<le> length s"
    unfolding r_def using length_dropWhile_le [of is_ws s] length_dropWhile_le [of is_ws "drop (length l) (dropWhile is_ws s)"]
    by simp
  ultimately show ?thesis by (cases r) auto
qed

function peel_labels :: "jstring \<Rightarrow> jstring list \<times> jstring" where
  "peel_labels rest =
     (case LEADING_LABEL rest of
        None \<Rightarrow> ([], rest)
      | Some (l, rest') \<Rightarrow> (case peel_labels rest' of (ls, r) \<Rightarrow> (l # ls, r)))"
  by pat_completeness auto
termination
  by (relation "measure length") (auto dest: LEADING_LABEL_shorter)

declare peel_labels.simps [simp del]

text \<open>\<open>define\(\s*`?name'?\s*,\<close> anywhere in the source.\<close>

definition defines_here :: "jstring \<Rightarrow> jstring \<Rightarrow> bool" where
  "defines_here name s \<longleftrightarrow>
     starts_with ''define('' s \<and>
     (let s1 = dropWhile is_ws (drop 7 s);
          s2 = (if starts_with [CHR 0x60] s1 then drop 1 s1 else s1) in
      starts_with name s2 \<and>
      (let s3 = drop (length name) s2;
           s4 = (if starts_with [CHR 0x27] s3 then drop 1 s3 else s3) in
       starts_with '','' (dropWhile is_ws s4)))"

fun m4_defines :: "jstring \<Rightarrow> jstring \<Rightarrow> bool" where
  "m4_defines name [] = False"
| "m4_defines name (c # cs) = (defines_here name (c # cs) \<or> m4_defines name cs)"

text \<open>What follows the first \<open>*/\<close>.\<close>

fun after_close :: "jstring \<Rightarrow> jstring option" where
  "after_close [] = None"
| "after_close (c # cs) = (if starts_with ''*/'' (c # cs) then Some (drop 1 cs) else after_close cs)"

lemma after_close_shorter: "after_close s = Some r \<Longrightarrow> length r < length s"
  by (induction s) (auto split: if_splits)

text \<open>\<open>replace(/\/\*[\s\S]*?\*\//g, " ")\<close>: an unclosed comment stays.\<close>

function strip_blocks :: "jstring \<Rightarrow> jstring" where
  "strip_blocks [] = []"
| "strip_blocks (c # cs) =
     (if starts_with ''/*'' (c # cs) then
        (case after_close (drop 1 cs) of Some r \<Rightarrow> CHR '' '' # strip_blocks r | None \<Rightarrow> c # strip_blocks cs)
      else c # strip_blocks cs)"
  by pat_completeness auto
termination
  by (relation "measure length") (auto dest!: after_close_shorter)

definition statements_of :: "jstring \<Rightarrow> jstring list" where
  "statements_of source =
     concat (map (\<lambda>line. js_split (CHR '';'') (cut_from ''//'' line)) (js_split (CHR 0x0A) (strip_blocks source)))"

datatype phase = Before | InBlock | After

record scan =
  sc_state :: phase
  sc_defined :: nat
  sc_unsized :: bool
  sc_sizes :: "nat list"

text \<open>One statement; \<open>None\<close> when the label appears a second time.\<close>

definition scan_statement :: "jstring \<Rightarrow> jstring \<Rightarrow> scan \<Rightarrow> scan option" where
  "scan_statement name statement st =
     (let (labels, rest) = peel_labels statement;
          here = (name \<in> set labels);
          defined' = (if here then sc_defined st + 1 else sc_defined st) in
      if here \<and> defined' > 1 then None
      else
        let st1 = st\<lparr>sc_defined := defined',
                     sc_state := (if sc_state st = Before \<and> here then InBlock
                                  else if sc_state st = InBlock \<and> labels \<noteq> [] \<and> (sc_sizes st \<noteq> [] \<or> sc_unsized st)
                                  then After else sc_state st)\<rparr> in
        if sc_state st1 \<noteq> InBlock then Some st1
        else
          let directive = js_lower (takeWhile (\<lambda>c. \<not> is_ws c) (js_trim rest)) in
          if directive = [] then Some st1
          else case map_of DATA_SIZES directive of
                 Some n \<Rightarrow> Some (st1\<lparr>sc_sizes := (if n \<in> set (sc_sizes st1) then sc_sizes st1 else sc_sizes st1 @ [n])\<rparr>)
               | None \<Rightarrow>
                   if directive \<in> set UNSIZED_DATA then Some (st1\<lparr>sc_unsized := True\<rparr>)
                   else Some (st1\<lparr>sc_state := After\<rparr>))"

fun scan_statements :: "jstring \<Rightarrow> jstring list \<Rightarrow> scan \<Rightarrow> scan option" where
  "scan_statements name [] st = Some st"
| "scan_statements name (s # ss) st = Option.bind (scan_statement name s st) (scan_statements name ss)"

definition scan_start :: scan where
  "scan_start = \<lparr>sc_state = Before, sc_defined = 0, sc_unsized = False, sc_sizes = []\<rparr>"

definition labelElementSize :: "jstring \<Rightarrow> jstring \<Rightarrow> ElementSize" where
  "labelElementSize source name =
     (if m4_defines name source then SizeError ''m4 defines it''
      else case scan_statements name (statements_of source) scan_start of
        None \<Rightarrow> SizeError ''its label appears twice''
      | Some st \<Rightarrow>
          if sc_defined st = 0 then SizeError ''its label is not in the source''
          else if length (sc_sizes st) = 0 then SizeError ''no .byte, .hword, .word or .dword after its label''
          else if length (sc_sizes st) > 1 \<or> sc_unsized st then SizeError ''its label mixes data sizes''
          else Size (sc_sizes st ! 0))"

subsection \<open>Results are well formed\<close>

text \<open>A machine that keeps to its word: a read of \<open>n\<close> bytes is below \<open>2 ^ (8 * n)\<close>, a register holds
  64 bits, and element sizes come from the source.\<close>

definition sane_context :: "jstring \<Rightarrow> EvalContext \<Rightarrow> bool" where
  "sane_context source ctx \<longleftrightarrow>
     (\<forall>a n v. ec_readMemory ctx a n = Bytes v \<longrightarrow> 0 \<le> v \<and> v < 2 ^ (8 * n)) \<and>
     (\<forall>r v. ec_readRegister ctx r = Some v \<longrightarrow> 0 \<le> v \<and> v < 2 ^ 64) \<and>
     (ec_labelElementSize ctx = None \<or> ec_labelElementSize ctx = Some (labelElementSize source))"

definition well_formed :: "EvalOutcome \<Rightarrow> bool" where
  "well_formed r =
     (case r of
        EvalOk v n shown \<Rightarrow>
          n \<in> {1, 2, 4, 8} \<and> 0 \<le> v \<and> v < 2 ^ (8 * n) \<and> length shown = 2 + 2 * n \<and>
          starts_with ''0x'' shown \<and> int (of_digits 16 (drop 2 shown)) = v
      | _ \<Rightarrow> True)"

lemma well_formed_simps [simp]: "well_formed (EvalError e)" "well_formed EvalPending"
  by (simp_all add: well_formed_def)

lemma toHex_id:
  assumes "0 \<le> v" "v < 2 ^ (8 * n)" "0 < n"
  shows "length (toHex v n) = 2 + 2 * n" "starts_with ''0x'' (toHex v n)"
    "int (of_digits 16 (drop 2 (toHex v n))) = v"
proof -
  have "v AND (push_bit (n * 8) 1 - 1) = take_bit (n * 8) v"
    by (simp add: push_bit_eq_mult take_bit_eq_mask mask_eq_exp_minus_1)
  also have "\<dots> = v" using assms by (simp add: take_bit_int_eq_self_iff mult.commute)
  finally have t: "toHex v n = ''0x'' @ padStart (n * 2) (CHR ''0'') (nat_to_string 16 (nat v))"
    using assms by (simp add: toHex_def to_string_nonneg)
  have "nat v < 16 ^ (n * 2)"
  proof -
    have "(2 :: int) ^ (8 * n) = (2 ^ 4) ^ (n * 2)" unfolding power_mult [symmetric] by (simp add: mult.commute)
    then have "(2 :: int) ^ (8 * n) = 16 ^ (n * 2)" by simp
    then show ?thesis using assms by (simp add: nat_less_iff)
  qed
  then have "length (nat_to_string 16 (nat v)) \<le> n * 2"
    using hex.to_string_length_le [of "nat v" "n * 2"] assms(3) by simp
  then show "length (toHex v n) = 2 + 2 * n" by (simp add: t)
  show "starts_with ''0x'' (toHex v n)" by (simp add: t)
  show "int (of_digits 16 (drop 2 (toHex v n))) = v" using assms by (simp add: t hex.of_digits_to_string)
qed

lemma readAt_well_formed:
  assumes "sane_context source ctx" "n \<in> {1, 2, 4, 8}"
  shows "well_formed (readAt ctx a n)"
proof (cases "ec_readMemory ctx a n")
  case (Bytes v)
  then have v: "0 \<le> v" "v < 2 ^ (8 * n)" using assms(1) unfolding sane_context_def by blast+
  have "0 < n" using assms(2) by auto
  from toHex_id [OF v this] v assms(2) Bytes show ?thesis by (simp add: readAt_def well_formed_def del: One_nat_def)
qed (simp_all add: readAt_def)

lemma eval_register_well_formed:
  assumes "sane_context source ctx"
  shows "well_formed (eval_register ctx r)"
proof (cases "ec_readRegister ctx r")
  case (Some v)
  then have v: "0 \<le> v" "v < 2 ^ 64" using assms by (auto simp: sane_context_def)
  have m: "v AND 0xFFFFFFFF = take_bit 32 v" by (simp add: take_bit_eq_mask mask_eq_exp_minus_1)
  have w: "0 \<le> take_bit 32 v" "take_bit 32 v < 2 ^ (8 * 4)"
    using take_bit_int_less_exp [of 32 v] by simp_all
  show ?thesis
  proof (cases "starts_with ''w'' r")
    case True
    then show ?thesis using Some toHex_id [OF w] w
      by (simp add: eval_register_def sizeFor_def regWidth_def well_formed_def m)
  next
    case False
    then show ?thesis using Some toHex_id [of v 8] v
      by (simp add: eval_register_def sizeFor_def regWidth_def well_formed_def)
  qed
qed (simp add: eval_register_def)

lemma DATA_SIZES_sizes: "map_of DATA_SIZES d = Some n \<Longrightarrow> n \<in> {1, 2, 4, 8}"
  by (drule map_of_SomeD) (auto simp: DATA_SIZES_def)

lemma scan_sizes:
  "scan_statements name ss st = Some st' \<Longrightarrow> set (sc_sizes st) \<subseteq> {1, 2, 4, 8} \<Longrightarrow> set (sc_sizes st') \<subseteq> {1, 2, 4, 8}"
proof (induction ss arbitrary: st)
  case (Cons s ss)
  obtain st1 where s1: "scan_statement name s st = Some st1" "scan_statements name ss st1 = Some st'"
    using Cons.prems(1) by (auto simp: bind_eq_Some_conv)
  have "set (sc_sizes st1) \<subseteq> {1, 2, 4, 8}"
    using s1(1) Cons.prems(2)
    by (auto simp: scan_statement_def Let_def simp del: One_nat_def dest: DATA_SIZES_sizes
        split: prod.splits if_splits option.splits)
  then show ?case using Cons.IH s1(2) by blast
qed simp

lemma labelElementSize_sizes:
  assumes "labelElementSize source name = Size n"
  shows "n \<in> {1, 2, 4, 8}"
proof -
  obtain st where st: "scan_statements name (statements_of source) scan_start = Some st" "sc_sizes st \<noteq> []"
    "n = sc_sizes st ! 0"
    using assms by (auto simp: labelElementSize_def split: if_splits option.splits)
  have "set (sc_sizes st) \<subseteq> {1, 2, 4, 8}" by (rule scan_sizes [OF st(1)]) (simp add: scan_start_def)
  then show ?thesis using st(2,3) by (metis length_greater_0_conv nth_mem subsetD)
qed

lemma eval_array_well_formed:
  assumes "sane_context source ctx"
  shows "well_formed (eval_array ctx name index)"
proof -
  have "well_formed (readAt ctx a n)" if "ec_labelElementSize ctx = Some f" "f name = Size n" for f a n
    using readAt_well_formed [OF assms] labelElementSize_sizes [of source name n] that assms
    by (simp add: sane_context_def)
  moreover have "well_formed (readAt ctx a 8)" for a using readAt_well_formed [OF assms, of 8] by simp
  ultimately show ?thesis
    by (auto simp: eval_array_def split: option.splits LabelAddress.splits ElementSize.splits)
qed

lemma eval_bracket_well_formed:
  assumes "sane_context source ctx"
  shows "well_formed (eval_bracket ctx body)"
  using readAt_well_formed [OF assms, of 8]
  by (auto simp: eval_bracket_def Let_def split: option.splits)

lemma evaluateWatch_well_formed_lemma:
  "sane_context source ctx \<Longrightarrow> well_formed (evaluateWatch expr ctx)"
proof (induction expr ctx rule: evaluateWatch.induct)
  case (1 expr ctx)
  have deref: "well_formed (case r of EvalOk addr n shown \<Rightarrow> readAt ctx addr n | other \<Rightarrow> other)"
    if "well_formed r" for r
    using that readAt_well_formed [OF "1.prems"]
    by (cases r) (auto simp: well_formed_def [of "EvalOk _ _ _"] simp del: One_nat_def)
  show ?case
    using "1.IH" "1.prems" deref eval_register_well_formed [OF "1.prems"] eval_array_well_formed [OF "1.prems"]
      eval_bracket_well_formed [OF "1.prems"]
    by (subst evaluateWatch.simps) (simp add: Let_def split: option.splits)
qed

subsection \<open>Two ways to write one read\<close>

definition is_reg_char :: "char \<Rightarrow> bool" where
  "is_reg_char c \<longleftrightarrow> is_lower c \<or> is_digit c"

lemma regName_chars:
  assumes "regName r = Some r"
  shows "r \<noteq> []" "list_all is_reg_char r"
proof -
  have "r \<in> {''sp'', ''fp'', ''lr'', ''xzr'', ''wzr''} \<or>
      (r \<noteq> [] \<and> hd r \<in> {CHR ''x'', CHR ''w''} \<and> list_all is_digit (tl r))"
    using assms by (auto simp: regName_def Let_def split: if_splits)
  moreover have "list_all is_reg_char s" if "s \<in> {''sp'', ''fp'', ''lr'', ''xzr'', ''wzr''}" for s
    using that by (auto simp: is_reg_char_def is_lower_def code_def)
  moreover have "list_all is_reg_char s" if "s \<noteq> []" "hd s \<in> {CHR ''x'', CHR ''w''}" "list_all is_digit (tl s)" for s
    using that by (cases s) (auto simp: is_reg_char_def is_lower_def code_def list_all_iff)
  ultimately show "r \<noteq> []" "list_all is_reg_char r" by auto
qed

lemma is_reg_char_plain:
  "is_reg_char c \<Longrightarrow> \<not> is_ws c" "is_reg_char c \<Longrightarrow> c \<noteq> CHR '',''" "is_reg_char c \<Longrightarrow> lower_char c = c"
  by (auto simp: is_reg_char_def is_lower_def is_digit_def is_ws_def lower_char_def is_upper_def code_def)

lemma reg_text:
  assumes "list_all is_reg_char r"
  shows "js_trim r = r" "js_lower r = r" "CHR '','' \<notin> set r"
proof -
  have c: "is_reg_char c" if "c \<in> set r" for c using assms that by (simp add: list_all_iff)
  show "js_trim r = r" by (rule js_trim_no_ws) (use c is_reg_char_plain(1) in blast)
  show "js_lower r = r" unfolding js_lower_def by (rule map_idI) (use c is_reg_char_plain(3) in blast)
  show "CHR '','' \<notin> set r" using c is_reg_char_plain(2) by blast
qed

text \<open>A text whose first character is not a letter of a register name is not one.\<close>

lemma regName_None:
  assumes "js_trim s = s" "s \<noteq> []" "lower_char (hd s) \<notin> {CHR ''s'', CHR ''f'', CHR ''l'', CHR ''x'', CHR ''w''}"
  shows "regName s = None"
  using assms by (cases s) (auto simp: regName_def js_lower_def Let_def)

lemma trim_bounds:
  assumes "s \<noteq> []" "\<not> is_ws (hd s)" "\<not> is_ws (last s)"
  shows "js_trim s = s"
  using assms js_trim_id by blast

lemma evaluateWatch_register:
  assumes "regName r = Some r"
  shows "evaluateWatch r ctx = eval_register ctx r"
  using regName_chars [OF assms] reg_text(1) [OF regName_chars(2) [OF assms]] assms
  by (subst evaluateWatch.simps) simp

lemma not_ws [simp]: "\<not> is_ws (CHR ''*'')" "\<not> is_ws (CHR ''['')" "\<not> is_ws (CHR '']'')" "\<not> is_ws (CHR ''0'')" "is_ws (CHR '' '')"
  by (simp_all add: is_ws_def code_def)

lemma lower_marks [simp]: "lower_char (CHR ''*'') = CHR ''*''" "lower_char (CHR ''['') = CHR ''[''"
  by (simp_all add: lower_char_def is_upper_def code_def)

lemma evaluateWatch_star:
  assumes "regName r = Some r"
  shows "evaluateWatch (''*'' @ r) ctx =
    (case eval_register ctx r of EvalOk addr n shown \<Rightarrow> readAt ctx addr n | other \<Rightarrow> other)"
proof -
  note c = regName_chars [OF assms]
  have "\<not> is_ws (last r)" using c is_reg_char_plain(1) by (simp add: list_all_iff)
  then have t: "js_trim (CHR ''*'' # r) = CHR ''*'' # r" by (intro trim_bounds) (simp_all add: c(1))
  have n: "regName (CHR ''*'' # r) = None" by (rule regName_None) (simp_all add: t)
  show ?thesis
    using t n reg_text(1) [OF c(2)] evaluateWatch_register [OF assms]
    by (subst evaluateWatch.simps) simp
qed

lemma evaluateWatch_bracket:
  assumes "body \<noteq> []"
  shows "evaluateWatch (''['' @ body @ '']'') ctx = eval_bracket ctx body"
proof -
  let ?s = "CHR ''['' # body @ '']''"
  have t: "js_trim ?s = ?s" by (rule trim_bounds) simp_all
  have n: "regName ?s = None" by (rule regName_None) (simp_all add: t)
  have e: "ends_with '']'' ?s" by (simp add: ends_with_iff)
  show ?thesis using t n e by (subst evaluateWatch.simps) (simp add: Let_def)
qed

lemma split_two:
  assumes "CHR '','' \<notin> set a" "CHR '','' \<notin> set b"
  shows "js_split (CHR '','') (a @ '','' @ b) = [a, b]"
  using js_split_append [OF assms(1), of b] js_split_no_sep [OF assms(2)] by simp

lemma deref_is_bracket_zero:
  assumes "regName r = Some r" "regWidth r = 8"
  shows "evaluateWatch (''*'' @ r) ctx = evaluateWatch (''['' @ r @ '', 0]'') ctx"
proof -
  note c = regName_chars [OF assms(1)]
  note rt = reg_text [OF c(2)]
  have z: "js_trim '' 0'' = ''0''" by (simp add: js_trim_def)
  have p: "parseOffset ''0'' ctx = Some 0"
    by (simp add: parseOffset_def js_trim_def digits_only_def is_digit_in_def digit_val_def of_digits_def code_def)
  have "js_split (CHR '','') (r @ '', 0'') = [r, '' 0'']" using split_two [OF rt(3), of "'' 0''"] by simp
  then have "eval_bracket ctx (r @ '', 0'') =
      (case ec_readRegister ctx r of None \<Rightarrow> EvalError (''unknown register '' @ r) | Some v \<Rightarrow> readAt ctx v 8)"
    using rt z p by (simp add: eval_bracket_def Let_def split: option.splits)
  moreover have "evaluateWatch (''['' @ r @ '', 0]'') ctx = eval_bracket ctx (r @ '', 0'')"
    using evaluateWatch_bracket [of "r @ '', 0''" ctx] by simp
  ultimately show ?thesis
    using evaluateWatch_star [OF assms(1), of ctx] assms(2)
    by (simp add: eval_register_def sizeFor_def regWidth_def split: option.splits if_splits)
qed

text \<open>A name of the source that is not a register's.\<close>

definition slot_name :: "jstring \<Rightarrow> bool" where
  "slot_name name \<longleftrightarrow>
     name \<noteq> [] \<and> is_ident_start (hd name) \<and> list_all is_word_char name \<and> regName name = None"

lemma word_char_plain:
  "is_word_char c \<Longrightarrow> \<not> is_ws c" "is_word_char c \<Longrightarrow> c \<noteq> CHR '',''" "is_word_char c \<Longrightarrow> c \<noteq> CHR ''*''"
  "is_word_char c \<Longrightarrow> c \<noteq> CHR ''[''" "\<not> is_word_char (CHR ''['')"
  by (auto simp: is_word_char_def is_alpha_def is_upper_def is_lower_def is_digit_def is_ws_def code_def)

lemma ident_start_not_digit: "is_ident_start c \<Longrightarrow> \<not> is_digit_in 10 c \<and> c \<noteq> CHR ''-'' \<and> c \<noteq> CHR ''0''"
  by (auto simp: is_ident_start_def is_alpha_def is_upper_def is_lower_def is_digit_in_10 is_digit_def code_def)

lemma slot_name_text:
  assumes "slot_name name"
  shows "js_trim name = name" "CHR '','' \<notin> set name" "js_trim ('' '' @ name) = name"
proof -
  have c: "is_word_char c" if "c \<in> set name" for c using assms that by (simp add: slot_name_def list_all_iff)
  show t: "js_trim name = name" by (rule js_trim_no_ws) (use c word_char_plain(1) in blast)
  show "CHR '','' \<notin> set name" using c word_char_plain(2) by blast
  show "js_trim ('' '' @ name) = name" using t by (simp add: js_trim_def)
qed

lemma slot_offset:
  assumes "slot_name name"
  shows "parseOffset name ctx = resolveSlotOffset ctx name"
proof -
  obtain c cs where n: "name = c # cs" "is_ident_start c" using assms by (cases name) (auto simp: slot_name_def)
  have "\<not> digits_only 10 name" using n ident_start_not_digit by (simp add: digits_only_def)
  then show ?thesis
    using slot_name_text(1) [OF assms] assms ident_start_not_digit [OF n(2)] n(1)
    by (auto simp: parseOffset_def slot_name_def Let_def)
qed

lemma array_of_slot:
  assumes "slot_name name" "regName (name @ ''[0]'') = None"
  shows "evaluateWatch (name @ ''[0]'') ctx = eval_array ctx name ''0''"
proof -
  let ?s = "name @ ''[0]''"
  have c: "is_word_char c" if "c \<in> set name" for c using assms(1) that by (simp add: slot_name_def list_all_iff)
  have ne: "name \<noteq> []" "is_word_char (hd name)" using assms(1) c by (auto simp: slot_name_def)
  have t: "js_trim ?s = ?s"
    by (rule trim_bounds) (use ne word_char_plain(1) in simp_all)
  have tw: "takeWhile is_word_char ?s = name" "dropWhile is_word_char ?s = ''[0]''"
    using c word_char_plain(5) by (auto simp: takeWhile_append dropWhile_append list_all_iff)
  have a: "ARRAY_FORM ?s = Some (name, ''0'')"
    using assms(1) tw by (simp add: ARRAY_FORM_def slot_name_def ends_with_def)
  have st: "\<not> starts_with ''*'' ?s" "\<not> starts_with ''['' ?s"
    using ne word_char_plain(3,4) by (cases name; auto)+
  have z: "js_trim ''0'' = ''0''" by (simp add: js_trim_def)
  show ?thesis using t assms(2) st a z by (subst evaluateWatch.simps) simp
qed

lemma regName_bracket: "regName (name @ ''[0]'') = None" if "slot_name name"
proof -
  let ?s = "name @ ''[0]''"
  have ne: "name \<noteq> []" "\<not> is_ws (hd name)" using that word_char_plain(1) by (auto simp: slot_name_def list_all_iff)
  have t: "js_trim ?s = ?s" by (rule trim_bounds) (use ne in simp_all)
  have l: "CHR ''['' \<in> set (js_lower ?s)" by (simp add: js_lower_def)
  then have "js_lower ?s \<notin> {''sp'', ''fp'', ''lr'', ''xzr'', ''wzr''}" by auto
  moreover have "\<not> list_all is_digit (tl (js_lower ?s))"
    using ne(1) by (cases name) (auto simp: js_lower_def list_all_iff is_digit_def code_def)
  ultimately show ?thesis by (simp add: regName_def t Let_def)
qed

lemma slot_array_is_bracket:
  assumes "slot_name name" "resolveLabelAddress ctx name = NoLabel" "resolveSlotOffset ctx name = Some slot"
    and "ec_readRegister ctx ''fp'' = Some fp"
  shows "evaluateWatch (name @ ''[0]'') ctx = evaluateWatch (''[fp, '' @ name @ '']'') ctx"
proof -
  have p: "parseOffset ''0'' ctx = Some 0"
    by (simp add: parseOffset_def js_trim_def digits_only_def is_digit_in_def digit_val_def of_digits_def code_def)
  have "evaluateWatch (name @ ''[0]'') ctx = readAt ctx (fp + slot) 8"
    using array_of_slot [OF assms(1) regName_bracket [OF assms(1)]] p assms(2-) by (simp add: eval_array_def)
  moreover have "js_split (CHR '','') (''fp, '' @ name) = [''fp'', '' '' @ name]"
    using split_two [of "''fp''" "'' '' @ name"] slot_name_text(2) [OF assms(1)] by simp
  then have "eval_bracket ctx (''fp, '' @ name) = readAt ctx (fp + slot) 8"
    using slot_name_text(3) [OF assms(1)] slot_offset [OF assms(1)] assms(3,4) reg_text [of "''fp''"]
    by (simp add: eval_bracket_def Let_def is_reg_char_def is_lower_def code_def)
  ultimately show ?thesis using evaluateWatch_bracket [of "''fp, '' @ name" ctx] by simp
qed

subsection \<open>A concrete context\<close>

definition demo_watch :: EvalContext where
  "demo_watch =
     \<lparr>ec_readRegister = (\<lambda>r. if r = ''x0'' \<or> r = ''fp'' then Some 4096 else None), ec_readMemory = (\<lambda>a n. if n = 0 then Unmapped else Bytes 7),
      resolveSlotOffset = (\<lambda>s. if s = ''a_s'' then Some 16 else None), resolveLabelAddress = (\<lambda>_. NoLabel),
      ec_labelElementSize = None\<rparr>"

lemma demo_watch_sane: "sane_context source demo_watch"
proof -
  have "(7 :: int) < 2 ^ (8 * n)" if "0 < n" for n :: nat
  proof -
    have "(2 :: int) ^ 3 < 2 ^ (8 * n)" using that by (intro power_strict_increasing) simp_all
    then show ?thesis by simp
  qed
  then show ?thesis
    by (simp add: sane_context_def demo_watch_def)
qed

subsection \<open>Properties of watch expressions\<close>

text \<open>Every value a watch shows is well formed, whatever is typed: it is 1, 2, 4 or 8 bytes
  wide, fits that width, and the text shown is \<open>0x\<close> with exactly two digits per byte that read back
  to the value.\<close>

theorem evaluateWatch_well_formed:
  assumes "sane_context source ctx"
  shows "well_formed (evaluateWatch expr ctx)"
  using evaluateWatch_well_formed_lemma [OF assms] .

theorem evaluateWatch_well_formed_witness:
  "\<exists>v n shown. evaluateWatch ''x0'' demo_watch = EvalOk v n shown \<and> length shown = 2 + 2 * n"
proof -
  have "regName ''x0'' = Some ''x0''" by code_simp
  from evaluateWatch_register [OF this, of demo_watch]
  have "\<exists>v n shown. evaluateWatch ''x0'' demo_watch = EvalOk v n shown" by (simp add: eval_register_def demo_watch_def)
  then show ?thesis
    using evaluateWatch_well_formed [OF demo_watch_sane, of "''x0''"] by (auto simp: well_formed_def)
qed

text \<open>The ways to write one read agree: \<open>*xN\<close> is \<open>[xN, 0]\<close> for every 64-bit register, errors
  included, and \<open>name[0]\<close> is \<open>[fp, name]\<close> for a frame slot.\<close>

theorem watch_notations_agree:
  assumes "regName r = Some r" "regWidth r = 8"
    and "slot_name name" "resolveLabelAddress ctx name = NoLabel" "resolveSlotOffset ctx name = Some slot"
    and "ec_readRegister ctx ''fp'' = Some fp"
  shows "evaluateWatch (''*'' @ r) ctx = evaluateWatch (''['' @ r @ '', 0]'') ctx \<and>
    evaluateWatch (name @ ''[0]'') ctx = evaluateWatch (''[fp, '' @ name @ '']'') ctx"
  using deref_is_bracket_zero [OF assms(1,2)] slot_array_is_bracket [OF assms(3-)] by blast

theorem watch_notations_agree_witness:
  "evaluateWatch ''*x0'' demo_watch = evaluateWatch ''[x0, 0]'' demo_watch \<and>
   evaluateWatch ''a_s[0]'' demo_watch = evaluateWatch ''[fp, a_s]'' demo_watch"
proof -
  have "regName ''x0'' = Some ''x0''" "regWidth ''x0'' = 8" "slot_name ''a_s''" by code_simp+
  from watch_notations_agree [OF this, of demo_watch 16 4096] show ?thesis
    by (simp add: demo_watch_def)
qed

end
