(* ===== verification/Json.thy ===== *)
theory Json
  imports HeadlessRun
begin

text \<open>
  What the two validators of untrusted JSON share: JSON values, the tests the sources make on
  them (\<open>typeof\<close>, \<open>Array.isArray\<close>, \<open>Number.isInteger\<close>), validation of the entries of a list in
  order, and the size caps of \<open>web/lib/playground/upload-guard.ts\<close>.

  A Number that JSON gives is a rational (an overflowing literal, which is infinite, is left
  out).  A validator returns \<open>Inl\<close> of its message or \<open>Inr\<close> of the typed value.  The locale
  \<open>validator\<close> is the contract of a validator of list entries: what it accepts is well formed.
\<close>

datatype json = JNull | JBool bool | JNum rat | JStr jstring | JArr "json list" | JObj "(jstring \<times> json) list"

type_synonym 'a checked = "jstring + 'a"

subsection \<open>Reading values\<close>

text \<open>A missing key reads as \<open>undefined\<close>, here \<open>None\<close>.\<close>

fun as_string :: "json option \<Rightarrow> jstring option" where
  "as_string (Some (JStr s)) = Some s"
| "as_string _ = None"

fun as_array :: "json option \<Rightarrow> json list option" where
  "as_array (Some (JArr xs)) = Some xs"
| "as_array _ = None"

fun as_object :: "json option \<Rightarrow> (jstring \<times> json) list option" where
  "as_object (Some (JObj kvs)) = Some kvs"
| "as_object _ = None"

fun as_bool :: "json option \<Rightarrow> bool option" where
  "as_bool (Some (JBool b)) = Some b"
| "as_bool _ = None"

definition whole :: "rat \<Rightarrow> int option" where
  "whole r = (if of_int \<lfloor>r\<rfloor> = r then Some \<lfloor>r\<rfloor> else None)"

text \<open>\<open>typeof x === "number" && Number.isInteger(x)\<close>.\<close>

fun as_integer :: "json option \<Rightarrow> int option" where
  "as_integer (Some (JNum r)) = whole r"
| "as_integer _ = None"

text \<open>\<open>number | string\<close>.\<close>

datatype number_or_string = NumberValue rat | StringValue jstring

fun as_number_or_string :: "json option \<Rightarrow> number_or_string option" where
  "as_number_or_string (Some (JNum r)) = Some (NumberValue r)"
| "as_number_or_string (Some (JStr s)) = Some (StringValue s)"
| "as_number_or_string _ = None"

definition filled :: "jstring \<Rightarrow> bool" where
  "filled s \<longleftrightarrow> length (js_trim s) > 0"

subsection \<open>Checks in order\<close>

definition andThen :: "'e + 'a \<Rightarrow> ('a \<Rightarrow> 'e + 'b) \<Rightarrow> 'e + 'b" where
  "andThen x f = (case x of Inl e \<Rightarrow> Inl e | Inr a \<Rightarrow> f a)"

definition require :: "'a option \<Rightarrow> jstring \<Rightarrow> 'a checked" where
  "require x msg = (case x of None \<Rightarrow> Inl msg | Some a \<Rightarrow> Inr a)"

definition check :: "bool \<Rightarrow> jstring \<Rightarrow> unit checked" where
  "check c msg = (if c then Inr () else Inl msg)"

text \<open>A field that may be left out.\<close>

definition optional :: "json option \<Rightarrow> (json option \<Rightarrow> 'a option) \<Rightarrow> jstring \<Rightarrow> 'a option checked" where
  "optional field read msg =
     (case field of None \<Rightarrow> Inr None
      | Some v \<Rightarrow> (case read (Some v) of None \<Rightarrow> Inl msg | Some a \<Rightarrow> Inr (Some a)))"

text \<open>Entries in order, with their index; the first failure is the answer.\<close>

fun validate_all :: "(json \<Rightarrow> nat \<Rightarrow> 'a checked) \<Rightarrow> nat \<Rightarrow> json list \<Rightarrow> 'a list checked" where
  "validate_all v i [] = Inr []"
| "validate_all v i (x # xs) =
     (case v x i of Inl e \<Rightarrow> Inl e
      | Inr a \<Rightarrow> (case validate_all v (Suc i) xs of Inl e \<Rightarrow> Inl e | Inr as \<Rightarrow> Inr (a # as)))"

fun all_strings :: "(jstring \<Rightarrow> bool) \<Rightarrow> json list \<Rightarrow> jstring list option" where
  "all_strings P [] = Some []"
| "all_strings P (JStr s # xs) = (if P s then map_option ((#) s) (all_strings P xs) else None)"
| "all_strings P (_ # xs) = None"

text \<open>\<open>name[index]\<close>.\<close>

definition tag :: "jstring \<Rightarrow> nat \<Rightarrow> jstring \<Rightarrow> jstring" where
  "tag name i rest = name @ ''['' @ show_int (int i) @ '']'' @ rest"

lemma andThen_Inr [simp]: "andThen x f = Inr y \<longleftrightarrow> (\<exists>a. x = Inr a \<and> f a = Inr y)"
  by (auto simp: andThen_def split: sum.splits)

lemma require_Inr [simp]: "require x msg = Inr a \<longleftrightarrow> x = Some a"
  by (auto simp: require_def split: option.splits)

lemma check_Inr [simp]: "check c msg = Inr u \<longleftrightarrow> c"
  by (auto simp: check_def)

lemma optional_Inr [simp]:
  "optional field read msg = Inr r \<longleftrightarrow>
     (field = None \<and> r = None) \<or> (\<exists>a. field \<noteq> None \<and> read field = Some a \<and> r = Some a)"
  by (auto simp: optional_def split: option.splits)

lemma andThen_simps [simp]: "andThen (Inr a) f = f a" "andThen (Inl e) f = Inl e"
  by (simp_all add: andThen_def)

lemma all_strings_Some:
  "all_strings P xs = Some ss \<Longrightarrow> list_all P ss \<and> xs = map JStr ss"
  by (induction P xs arbitrary: ss rule: all_strings.induct) (auto split: if_splits)

lemma all_strings_map: "list_all P ss \<Longrightarrow> all_strings P (map JStr ss) = Some ss"
  by (induction ss) auto

text \<open>The contract of a validator of entries: what it accepts is well formed.\<close>

locale validator =
  fixes v :: "json \<Rightarrow> nat \<Rightarrow> jstring + 'a" and good :: "'a \<Rightarrow> bool"
  assumes accepts_good: "v raw i = Inr a \<Longrightarrow> good a"
begin

lemma all_good: "validate_all v i xs = Inr as \<Longrightarrow> list_all good as \<and> length as = length xs"
  by (induction xs arbitrary: i as) (auto split: sum.splits dest: accepts_good)

lemma all_accepted: "validate_all v i xs = Inr as \<Longrightarrow> k < length xs \<Longrightarrow> v (xs ! k) (i + k) = Inr (as ! k)"
proof (induction xs arbitrary: i as k)
  case (Cons x xs)
  then show ?case by (cases k) (fastforce split: sum.splits)+
qed simp

end

text \<open>
  The same with a writer: every well-formed value is accepted again from its JSON, so the well-formed
  values are exactly the ones the validator can return.
\<close>

locale exact_validator = validator +
  fixes print :: "'a \<Rightarrow> json"
  assumes accepts_printed: "good a \<Longrightarrow> v (print a) i = Inr a"
begin

lemma all_printed: "list_all good as \<Longrightarrow> validate_all v i (map print as) = Inr as"
  by (induction as arbitrary: i) (auto simp: accepts_printed)

end

subsection \<open>Writing values\<close>

definition int_json :: "int \<Rightarrow> json" where
  "int_json n = JNum (of_int n)"

fun number_or_string_json :: "number_or_string \<Rightarrow> json" where
  "number_or_string_json (NumberValue r) = JNum r"
| "number_or_string_json (StringValue s) = JStr s"

text \<open>A field that is written only when it is present.\<close>

definition opt_field :: "jstring \<Rightarrow> ('a \<Rightarrow> json) \<Rightarrow> 'a option \<Rightarrow> (jstring \<times> json) list" where
  "opt_field key f x = (case x of None \<Rightarrow> [] | Some a \<Rightarrow> [(key, f a)])"

lemma map_of_opt_field [simp]:
  "k \<noteq> key \<Longrightarrow> map_of (opt_field key f x @ rest) k = map_of rest k"
  "map_of rest key = None \<Longrightarrow> map_of (opt_field key f x @ rest) key = map_option f x"
  by (cases x; simp add: opt_field_def)+

lemma map_of_opt_field_single [simp]:
  "map_of (opt_field key f x) k = (if k = key then map_option f x else None)"
  by (cases x) (auto simp: opt_field_def)

lemma as_integer_int_json [simp]: "as_integer (Some (int_json n)) = Some n"
  by (simp add: int_json_def whole_def)

lemma as_number_or_string_json [simp]: "as_number_or_string (Some (number_or_string_json x)) = Some x"
  by (cases x) auto

lemma optional_printed [simp]:
  "(\<And>a. x = Some a \<Longrightarrow> read (Some (f a)) = Some a) \<Longrightarrow> optional (map_option f x) read msg = Inr x"
  by (cases x) (auto simp: optional_def)

lemma require_simps [simp]: "require (Some a) msg = Inr a" "require None msg = Inl msg"
  by (simp_all add: require_def)

lemma check_simps [simp]: "check True msg = Inr ()" "check False msg = Inl msg"
  by (simp_all add: check_def)

subsection \<open>upload-guard.ts\<close>

definition MAX_SOURCE_BYTES :: nat where "MAX_SOURCE_BYTES = 1 * 1024 * 1024"
definition MAX_VFS_BYTES :: nat where "MAX_VFS_BYTES = 4 * 1024 * 1024"
definition MAX_ARGS_CHARS :: nat where "MAX_ARGS_CHARS = 1000"
definition MAX_STDIN_BYTES :: nat where "MAX_STDIN_BYTES = 100 * 1024"
definition MAX_BOOKMARK_JSON_BYTES :: nat where "MAX_BOOKMARK_JSON_BYTES = 1 * 1024 * 1024"
definition MAX_WORKSPACE_FILES :: nat where "MAX_WORKSPACE_FILES = 32"
definition MAX_BUNDLE_DECOMPRESSED_BYTES :: nat where "MAX_BUNDLE_DECOMPRESSED_BYTES = 1 * 1024 * 1024"
definition MAX_SHARE_DECOMPRESSED_BYTES :: nat where "MAX_SHARE_DECOMPRESSED_BYTES = 1 * 1024 * 1024"
definition MAX_SHARE_HASH_BYTES :: nat where "MAX_SHARE_HASH_BYTES = 16 * 1024"

definition byteLength :: "jstring \<Rightarrow> nat" where
  "byteLength text = length (utf8_encode text)"

text \<open>\<open>(cap / unit).toFixed(0)\<close>: the nearest whole number, halves up.\<close>

definition to_fixed_0 :: "nat \<Rightarrow> nat \<Rightarrow> jstring" where
  "to_fixed_0 cap u = show_int (int ((2 * cap + u) div (2 * u)))"

definition checkUploadSize :: "nat \<Rightarrow> nat \<Rightarrow> jstring \<Rightarrow> jstring option" where
  "checkUploadSize bytes cap label =
     (if bytes \<le> cap then None
      else Some (label @ '' too large: the limit is '' @ to_fixed_0 cap (1024 * 1024) @ '' MiB''))"

definition validateSource :: "jstring \<Rightarrow> jstring option" where
  "validateSource text =
     (if byteLength text \<le> MAX_SOURCE_BYTES then None
      else Some (''source too large: the limit is '' @ to_fixed_0 MAX_SOURCE_BYTES (1024 * 1024) @ '' MiB''))"

definition validateArgs :: "jstring \<Rightarrow> jstring option" where
  "validateArgs text =
     (if length text \<le> MAX_ARGS_CHARS then None
      else Some (''arguments too long (max '' @ show_int (int MAX_ARGS_CHARS) @ '' characters)''))"

definition validateStdin :: "jstring \<Rightarrow> jstring option" where
  "validateStdin text =
     (if byteLength text \<le> MAX_STDIN_BYTES then None
      else Some (''stdin too large: the limit is '' @ to_fixed_0 MAX_STDIN_BYTES 1024 @ '' KiB''))"

end
