(* ===== verification/LessonSchema.thy ===== *)
theory LessonSchema
  imports Json
begin

text \<open>
  The lesson validator: \<open>web/lib/content/lesson-schema.ts\<close>.  A lesson file is untrusted JSON;
  \<open>validateLesson\<close> checks it field by field and builds a lesson from the checked fields only.
\<close>

datatype CodeLanguage = Asm | C | Text

datatype CalloutVariant = Note | Warning | Pitfall | Prereq

record ExpectedOutput =
  eo_stdout :: jstring
  eo_exitCode :: "int option"

datatype LessonBlock =
    Prose jstring
  | Code CodeLanguage jstring
  | Callout CalloutVariant jstring
  | Editor jstring "jstring option" "jstring option" "ExpectedOutput option"

record Lesson =
  le_title :: jstring
  le_slug :: jstring
  le_order :: number_or_string
  le_lastUpdated :: "jstring option"
  le_summary :: "jstring option"
  le_tags :: "jstring list option"
  le_body :: "LessonBlock list"

text \<open>\<open>SLUG_PATTERN\<close>: words of lower-case letters and digits joined by single dashes.\<close>

definition slug_char :: "char \<Rightarrow> bool" where
  "slug_char c \<longleftrightarrow> is_lower c \<or> is_digit c"

definition SLUG_PATTERN :: "jstring \<Rightarrow> bool" where
  "SLUG_PATTERN s \<longleftrightarrow> list_all (\<lambda>w. w \<noteq> [] \<and> list_all slug_char w) (js_split (CHR ''-'') s)"

text \<open>A date \<open>Date.parse\<close> reads and \<open>toISOString\<close> prints back: one of the Gregorian calendar.\<close>

definition leap_year :: "nat \<Rightarrow> bool" where
  "leap_year y \<longleftrightarrow> y mod 4 = 0 \<and> (y mod 100 \<noteq> 0 \<or> y mod 400 = 0)"

definition days_in_month :: "nat \<Rightarrow> nat \<Rightarrow> nat" where
  "days_in_month y m = (if m = 2 then (if leap_year y then 29 else 28) else if m \<in> {4, 6, 9, 11} then 30 else 31)"

definition calendar_date :: "jstring \<Rightarrow> bool" where
  "calendar_date s \<longleftrightarrow>
     (case js_split (CHR ''-'') s of
        [y, m, d] \<Rightarrow>
          length y = 4 \<and> length m = 2 \<and> length d = 2 \<and> list_all is_digit (y @ m @ d) \<and>
          (let year = of_digits 10 y; month = of_digits 10 m; day = of_digits 10 d in
           1 \<le> month \<and> month \<le> 12 \<and> 1 \<le> day \<and> day \<le> days_in_month year month)
      | _ \<Rightarrow> False)"

definition isCalendarDate :: "json option \<Rightarrow> jstring option" where
  "isCalendarDate value =
     (case as_string value of Some s \<Rightarrow> if calendar_date s then Some s else None | None \<Rightarrow> None)"

definition exit_status :: "json option \<Rightarrow> int option" where
  "exit_status field = (case as_integer field of Some c \<Rightarrow> if c < 0 \<or> c > 255 then None else Some c | None \<Rightarrow> None)"

definition validateExpectedOutput :: "json option \<Rightarrow> ExpectedOutput checked" where
  "validateExpectedOutput raw =
     andThen (require (as_object raw) ''must be an object with a stdout string'') (\<lambda>obj.
     andThen (require (as_string (map_of obj ''stdout'')) ''stdout must be a string'') (\<lambda>out.
     andThen (optional (map_of obj ''exitCode'') exit_status ''exitCode must be an integer from 0 to 255 when present'') (\<lambda>code.
     Inr \<lparr>eo_stdout = out, eo_exitCode = code\<rparr>)))"

definition code_language :: "json option \<Rightarrow> CodeLanguage option" where
  "code_language v =
     (if v = Some (JStr ''asm'') then Some Asm else if v = Some (JStr ''c'') then Some C
      else if v = Some (JStr ''text'') then Some Text else None)"

definition callout_variant :: "json option \<Rightarrow> CalloutVariant option" where
  "callout_variant v =
     (if v = Some (JStr ''note'') then Some Note else if v = Some (JStr ''warning'') then Some Warning
      else if v = Some (JStr ''pitfall'') then Some Pitfall else if v = Some (JStr ''prereq'') then Some Prereq
      else None)"

text \<open>The expected output of an editor; its message is prefixed with where it stands.\<close>

definition editor_output :: "nat \<Rightarrow> json option \<Rightarrow> ExpectedOutput option checked" where
  "editor_output index field =
     (case field of
        None \<Rightarrow> Inr None
      | Some _ \<Rightarrow>
          (case validateExpectedOutput field of
             Inl e \<Rightarrow> Inl (tag ''body'' index ('' (editor): expectedOutput '' @ e))
           | Inr out \<Rightarrow> Inr (Some out)))"

definition validateBlock :: "json \<Rightarrow> nat \<Rightarrow> LessonBlock checked" where
  "validateBlock raw index =
     andThen (require (as_object (Some raw)) (tag ''body'' index '': expected a block object'')) (\<lambda>b.
     andThen (require (as_string (map_of b ''type'')) (tag ''body'' index '': missing block type'')) (\<lambda>type.
     if type = ''prose'' then
       andThen (require (as_string (map_of b ''markdown'')) (tag ''body'' index '' (prose): markdown must be a string'')) (\<lambda>md.
       Inr (Prose md))
     else if type = ''code'' then
       andThen (require (code_language (map_of b ''language'')) (tag ''body'' index '' (code): language must be one of asm|c|text'')) (\<lambda>lang.
       andThen (require (as_string (map_of b ''source'')) (tag ''body'' index '' (code): source must be a string'')) (\<lambda>src.
       Inr (Code lang src)))
     else if type = ''callout'' then
       andThen (require (callout_variant (map_of b ''variant''))
                 (tag ''body'' index '' (callout): variant must be one of note|warning|pitfall|prereq'')) (\<lambda>var.
       andThen (require (as_string (map_of b ''markdown'')) (tag ''body'' index '' (callout): markdown must be a string'')) (\<lambda>md.
       Inr (Callout var md)))
     else if type = ''editor'' then
       andThen (require (as_string (map_of b ''starter'')) (tag ''body'' index '' (editor): starter must be a string'')) (\<lambda>starter.
       andThen (optional (map_of b ''args'') as_string (tag ''body'' index '' (editor): args must be a string when present'')) (\<lambda>args.
       andThen (optional (map_of b ''stdin'') as_string (tag ''body'' index '' (editor): stdin must be a string when present'')) (\<lambda>stdin.
       andThen (editor_output index (map_of b ''expectedOutput'')) (\<lambda>expected.
       Inr (Editor starter args stdin expected)))))
     else Inl (tag ''body'' index ('': unknown block type '' @ [CHR 0x22] @ type @ [CHR 0x22]))))"

definition filled_string :: "json option \<Rightarrow> jstring option" where
  "filled_string v = (case as_string v of Some s \<Rightarrow> if filled s then Some s else None | None \<Rightarrow> None)"

definition slug_string :: "json option \<Rightarrow> jstring option" where
  "slug_string v = (case as_string v of Some s \<Rightarrow> if SLUG_PATTERN s then Some s else None | None \<Rightarrow> None)"

definition string_list :: "json option \<Rightarrow> jstring list option" where
  "string_list v = Option.bind (as_array v) (all_strings (\<lambda>_. True))"

definition validateLesson :: "json option \<Rightarrow> Lesson checked" where
  "validateLesson data =
     andThen (require (as_object data) ''lesson: expected an object'') (\<lambda>obj.
     andThen (require (filled_string (map_of obj ''title'')) ''title: expected a non-empty string'') (\<lambda>title.
     andThen (require (slug_string (map_of obj ''slug'')) ''slug: expected url-safe kebab-case'') (\<lambda>slug.
     andThen (require (as_number_or_string (map_of obj ''order'')) ''order: expected a number or string'') (\<lambda>order.
     andThen (optional (map_of obj ''lastUpdated'') isCalendarDate ''lastUpdated: expected a YYYY-MM-DD date when present'') (\<lambda>lastUpdated.
     andThen (optional (map_of obj ''summary'') as_string ''summary: expected a string when present'') (\<lambda>summary.
     andThen (optional (map_of obj ''tags'') string_list ''tags: expected an array of strings when present'') (\<lambda>tags.
     andThen (require (as_array (map_of obj ''body'')) ''body: expected an array of blocks'') (\<lambda>raw_body.
     andThen (check (raw_body \<noteq> []) ''body: expected at least one block'') (\<lambda>_.
     andThen (validate_all validateBlock 0 raw_body) (\<lambda>body.
     Inr \<lparr>le_title = title, le_slug = slug, le_order = order, le_lastUpdated = lastUpdated, le_summary = summary,
          le_tags = tags, le_body = body\<rparr>))))))))))"

subsection \<open>What is accepted\<close>

definition output_ok :: "ExpectedOutput \<Rightarrow> bool" where
  "output_ok e \<longleftrightarrow> (case eo_exitCode e of None \<Rightarrow> True | Some c \<Rightarrow> 0 \<le> c \<and> c \<le> 255)"

fun block_ok :: "LessonBlock \<Rightarrow> bool" where
  "block_ok (Editor _ _ _ (Some e)) = output_ok e"
| "block_ok _ = True"

definition lesson_ok :: "Lesson \<Rightarrow> bool" where
  "lesson_ok l \<longleftrightarrow>
     filled (le_title l) \<and> SLUG_PATTERN (le_slug l) \<and> (\<forall>d. le_lastUpdated l = Some d \<longrightarrow> calendar_date d) \<and>
     le_body l \<noteq> [] \<and> list_all block_ok (le_body l)"

lemma exit_status_Some: "exit_status v = Some c \<Longrightarrow> 0 \<le> c \<and> c \<le> 255"
  by (auto simp: exit_status_def split: option.splits if_splits)

lemma validateExpectedOutput_ok: "validateExpectedOutput v = Inr e \<Longrightarrow> output_ok e"
  by (auto simp: validateExpectedOutput_def output_ok_def dest!: exit_status_Some)

lemma editor_output_ok: "editor_output i v = Inr (Some e) \<Longrightarrow> output_ok e"
  by (auto simp: editor_output_def split: option.splits sum.splits dest: validateExpectedOutput_ok)

lemma Editor_ok: "block_ok (Editor s a i e) \<longleftrightarrow> (\<forall>out. e = Some out \<longrightarrow> output_ok out)"
  by (cases e) auto

lemma validateBlock_ok: "validateBlock raw i = Inr b \<Longrightarrow> block_ok b"
  by (auto simp: validateBlock_def Editor_ok split: if_splits dest!: editor_output_ok)

subsection \<open>Written lessons are accepted\<close>

definition CodeLanguage_json :: "CodeLanguage \<Rightarrow> json" where
  "CodeLanguage_json l = JStr (case l of Asm \<Rightarrow> ''asm'' | C \<Rightarrow> ''c'' | Text \<Rightarrow> ''text'')"

definition CalloutVariant_json :: "CalloutVariant \<Rightarrow> json" where
  "CalloutVariant_json v =
     JStr (case v of Note \<Rightarrow> ''note'' | Warning \<Rightarrow> ''warning'' | Pitfall \<Rightarrow> ''pitfall'' | Prereq \<Rightarrow> ''prereq'')"

definition ExpectedOutput_json :: "ExpectedOutput \<Rightarrow> json" where
  "ExpectedOutput_json e = JObj ((''stdout'', JStr (eo_stdout e)) # opt_field ''exitCode'' int_json (eo_exitCode e))"

fun LessonBlock_json :: "LessonBlock \<Rightarrow> json" where
  "LessonBlock_json (Prose md) = JObj [(''type'', JStr ''prose''), (''markdown'', JStr md)]"
| "LessonBlock_json (Code lang src) =
     JObj [(''type'', JStr ''code''), (''language'', CodeLanguage_json lang), (''source'', JStr src)]"
| "LessonBlock_json (Callout var md) =
     JObj [(''type'', JStr ''callout''), (''variant'', CalloutVariant_json var), (''markdown'', JStr md)]"
| "LessonBlock_json (Editor starter args stdin expected) =
     JObj ([(''type'', JStr ''editor''), (''starter'', JStr starter)] @ opt_field ''args'' JStr args @
       opt_field ''stdin'' JStr stdin @ opt_field ''expectedOutput'' ExpectedOutput_json expected)"

definition Lesson_json :: "Lesson \<Rightarrow> json" where
  "Lesson_json l =
     JObj ([(''title'', JStr (le_title l)), (''slug'', JStr (le_slug l)), (''order'', number_or_string_json (le_order l)),
       (''body'', JArr (map LessonBlock_json (le_body l)))] @ opt_field ''lastUpdated'' JStr (le_lastUpdated l) @
       opt_field ''summary'' JStr (le_summary l) @ opt_field ''tags'' (\<lambda>ts. JArr (map JStr ts)) (le_tags l))"

lemma exit_status_int_json [simp]: "0 \<le> c \<Longrightarrow> c \<le> 255 \<Longrightarrow> exit_status (Some (int_json c)) = Some c"
  by (simp add: exit_status_def)

lemma validateExpectedOutput_printed: "output_ok e \<Longrightarrow> validateExpectedOutput (Some (ExpectedOutput_json e)) = Inr e"
  by (cases "eo_exitCode e") (simp_all add: validateExpectedOutput_def ExpectedOutput_json_def output_ok_def)

lemma code_language_printed [simp]: "code_language (Some (CodeLanguage_json l)) = Some l"
  by (cases l) (simp_all add: code_language_def CodeLanguage_json_def)

lemma callout_variant_printed [simp]: "callout_variant (Some (CalloutVariant_json v)) = Some v"
  by (cases v) (simp_all add: callout_variant_def CalloutVariant_json_def)

lemma editor_output_printed:
  "(\<And>e. x = Some e \<Longrightarrow> output_ok e) \<Longrightarrow> editor_output i (map_option ExpectedOutput_json x) = Inr x"
  by (cases x) (simp_all add: editor_output_def validateExpectedOutput_printed)

lemma validateBlock_printed: "block_ok b \<Longrightarrow> validateBlock (LessonBlock_json b) i = Inr b"
  by (cases b) (simp_all add: validateBlock_def editor_output_printed Editor_ok del: andThen_Inr optional_Inr map_of_append)

interpretation blocks: exact_validator validateBlock block_ok LessonBlock_json
  by unfold_locales (rule validateBlock_ok, assumption, rule validateBlock_printed)

lemma readers_printed [simp]:
  "filled s \<Longrightarrow> filled_string (Some (JStr s)) = Some s" "SLUG_PATTERN s \<Longrightarrow> slug_string (Some (JStr s)) = Some s"
  "calendar_date s \<Longrightarrow> isCalendarDate (Some (JStr s)) = Some s"
  "string_list (Some (JArr (map JStr ts))) = Some ts"
  by (simp_all add: filled_string_def slug_string_def isCalendarDate_def string_list_def all_strings_map list_all_iff)

lemma field_readers:
  "filled_string v = Some s \<Longrightarrow> v = Some (JStr s) \<and> filled s"
  "slug_string v = Some s \<Longrightarrow> v = Some (JStr s) \<and> SLUG_PATTERN s"
  "isCalendarDate v = Some s \<Longrightarrow> v = Some (JStr s) \<and> calendar_date s"
  by (cases v rule: as_string.cases; auto simp: filled_string_def slug_string_def isCalendarDate_def split: if_splits)+

lemma validateLesson_lesson_ok:
  assumes "validateLesson data = Inr l"
  shows "lesson_ok l"
  using assms
  by (auto simp: validateLesson_def lesson_ok_def dest: field_readers dest!: blocks.all_good)

lemma validateLesson_printed: "lesson_ok l \<Longrightarrow> validateLesson (Some (Lesson_json l)) = Inr l"
  by (simp add: validateLesson_def Lesson_json_def lesson_ok_def blocks.all_printed del: andThen_Inr optional_Inr map_of_append)

text \<open>The lessons \<open>validateLesson\<close> can return, over all untrusted JSON values, are exactly the
  well-formed ones: a title and a kebab-case slug, a date of the calendar, at least one block, and
  in every editor an expected exit status between 0 and 255.  Nothing malformed gets through, and
  every well-formed lesson is accepted as it is when it is written out as JSON.\<close>

theorem validateLesson_accepts_exactly: "(\<exists>data. validateLesson data = Inr l) \<longleftrightarrow> lesson_ok l"
  using validateLesson_lesson_ok validateLesson_printed by blast

end
