(* ===== verification/ExerciseSchema.thy ===== *)
theory ExerciseSchema
  imports LessonSchema WatchExpr
begin

text \<open>
  The exercise validator: \<open>web/lib/content/exercise-schema.ts\<close>.  \<open>validateExercise\<close> checks an
  untrusted exercise file field by field, in the order of the source, and builds an exercise from
  the checked fields only.  Whether a text compiles as a regular expression is a parameter.
\<close>

subsection \<open>The shapes\<close>

datatype ResultAssertion =
    RegisterIs jstring int
  | ExitIs int
  | StdoutIs jstring
  | StdoutMatches jstring

datatype StructuralKind =
    UsesInstruction jstring
  | ForbidsInstruction "jstring list"
  | ForbidsLiteral number_or_string

record StructuralAssertion =
  st_kind :: StructuralKind
  st_in :: "jstring option"

record HiddenCase =
  hc_stdout :: jstring
  hc_exitCode :: int
  hc_args :: "jstring option"
  hc_stdin :: "jstring option"
  hc_edge :: "bool option"

datatype ExerciseVariant = VWrite | VIdentifyBug | VQuiz | VPrediction | VBlanks | VFrame

datatype ExerciseDifficulty = Intro | Core | Challenge

record Acceptance =
  ac_results :: "ResultAssertion list"
  ac_structural :: "StructuralAssertion list option"

record QuizQuestion =
  qq_question :: jstring
  qq_options :: "jstring list"
  qq_correctAnswer :: int
  qq_explanation :: jstring
  qq_hint :: "jstring option"

record PredictionQuestion =
  pq_code :: jstring
  pq_question :: jstring
  pq_answer :: jstring
  pq_explanation :: jstring
  pq_hint :: "jstring option"

record BlanksQuestion =
  bq_prompt :: jstring
  bq_code :: jstring
  bq_blanks :: "jstring list"
  bq_explanation :: jstring
  bq_hint :: "jstring option"

record BaseExercise =
  be_title :: jstring
  be_slug :: jstring
  be_order :: number_or_string
  be_lastUpdated :: "jstring option"
  be_topic :: "jstring option"
  be_difficulty :: "ExerciseDifficulty option"
  be_prompt :: jstring

record WriteFields =
  wf_starter :: jstring
  wf_acceptance :: Acceptance
  wf_args :: "jstring option"
  wf_stdin :: "jstring option"
  wf_hiddenCases :: "HiddenCase list option"

record FramePause =
  fp_line :: int
  fp_hit :: int

record FrameSlotQuestion =
  fsq_name :: jstring
  fsq_hint :: jstring

record FrameFields =
  ff_program :: jstring
  ff_pause :: FramePause
  ff_slots :: "FrameSlotQuestion list"
  ff_hint_size :: jstring
  ff_hint_savedFp :: jstring
  ff_hint_savedLr :: jstring

datatype Exercise =
    WriteExercise BaseExercise ExerciseVariant WriteFields
  | QuizExercise BaseExercise "QuizQuestion list"
  | PredictionExercise BaseExercise "PredictionQuestion list"
  | BlanksExercise BaseExercise "BlanksQuestion list"
  | FrameExercise BaseExercise FrameFields

subsection \<open>Patterns\<close>

definition REGISTER_PATTERN :: "jstring \<Rightarrow> bool" where
  "REGISTER_PATTERN s \<longleftrightarrow>
     s = ''sp'' \<or>
     (starts_with ''x'' s \<and>
      (case tl s of
         [d] \<Rightarrow> is_digit d
       | [t, d] \<Rightarrow> (t \<in> set ''12'' \<and> is_digit d) \<or> (t = CHR ''3'' \<and> d = CHR ''0'')
       | _ \<Rightarrow> False))"

definition LABEL_PATTERN :: "jstring \<Rightarrow> bool" where
  "LABEL_PATTERN s \<longleftrightarrow> s \<noteq> [] \<and> is_label_start (hd s) \<and> list_all is_label_char (tl s)"

definition MAX_EXIT_STATUS :: int where "MAX_EXIT_STATUS = 255"

definition SLOT_NAME_PATTERN :: "jstring \<Rightarrow> bool" where
  "SLOT_NAME_PATTERN s \<longleftrightarrow>
     s \<noteq> [] \<and> is_label_start (hd s) \<and>
     (let rest = dropWhile is_label_char s; digits = butlast (tl rest) in
      rest = [] \<or>
      (starts_with ''['' rest \<and> ends_with '']'' rest \<and> length rest \<ge> 2 \<and>
       1 \<le> length digits \<and> length digits \<le> 4 \<and> list_all is_digit digits))"

definition MAX_FRAME_SLOTS :: nat where "MAX_FRAME_SLOTS = 16"
definition MAX_PAUSE_HIT :: int where "MAX_PAUSE_HIT = 1000"

subsection \<open>Assertions and hidden cases\<close>

definition quoted :: "jstring \<Rightarrow> jstring" where
  "quoted s = [CHR 0x22] @ s @ [CHR 0x22]"

definition register_name :: "json option \<Rightarrow> jstring option" where
  "register_name v = (case as_string v of Some s \<Rightarrow> if REGISTER_PATTERN s then Some s else None | None \<Rightarrow> None)"

definition validateResultAssertion :: "(jstring \<Rightarrow> bool) \<Rightarrow> json \<Rightarrow> nat \<Rightarrow> ResultAssertion checked" where
  "validateResultAssertion valid_regex raw index =
     (let at_index = tag ''acceptance.results'' index in
      andThen (require (as_object (Some raw)) (at_index '': expected an assertion object'')) (\<lambda>a.
      andThen (require (as_string (map_of a ''kind'')) (at_index '': missing assertion kind'')) (\<lambda>kind.
      if kind = ''register'' then
        andThen (require (register_name (map_of a ''reg'')) (at_index '' (register): reg must be x0-x30 or sp'')) (\<lambda>reg.
        andThen (require (as_integer (map_of a ''equals'')) (at_index '' (register): equals must be an integer'')) (\<lambda>n.
        Inr (RegisterIs reg n)))
      else if kind = ''exit'' then
        andThen (require (as_integer (map_of a ''equals'')) (at_index '' (exit): equals must be an integer'')) (\<lambda>n.
        Inr (ExitIs n))
      else if kind = ''stdout'' then
        andThen (check ((map_of a ''equals'' \<noteq> None) \<noteq> (map_of a ''matches'' \<noteq> None))
                  (at_index '' (stdout): expected exactly one of equals or matches'')) (\<lambda>_.
        if map_of a ''equals'' \<noteq> None then
          andThen (require (as_string (map_of a ''equals'')) (at_index '' (stdout): equals must be a string'')) (\<lambda>s.
          Inr (StdoutIs s))
        else
          andThen (require (as_string (map_of a ''matches'')) (at_index '' (stdout): matches must be a string'')) (\<lambda>s.
          andThen (check (valid_regex s) (at_index '' (stdout): matches must be a valid regular expression'')) (\<lambda>_.
          Inr (StdoutMatches s))))
      else Inl (at_index ('': unknown assertion kind '' @ quoted kind)))))"

definition label_name :: "json option \<Rightarrow> jstring option" where
  "label_name v = (case as_string v of Some s \<Rightarrow> if LABEL_PATTERN s then Some s else None | None \<Rightarrow> None)"

definition filled_list :: "nat \<Rightarrow> json option \<Rightarrow> jstring list option" where
  "filled_list least v =
     (case as_array v of
        Some xs \<Rightarrow> if length xs < least then None else all_strings filled xs | None \<Rightarrow> None)"

definition validateStructuralAssertion :: "json \<Rightarrow> nat \<Rightarrow> StructuralAssertion checked" where
  "validateStructuralAssertion raw index =
     (let at_index = tag ''acceptance.structural'' index in
      andThen (require (as_object (Some raw)) (at_index '': expected an assertion object'')) (\<lambda>a.
      andThen (require (as_string (map_of a ''kind'')) (at_index '': missing assertion kind'')) (\<lambda>kind.
      andThen (optional (map_of a ''in'') label_name (at_index '': in must be a label name when present'')) (\<lambda>scope.
      if kind = ''uses-instruction'' then
        andThen (require (filled_string (map_of a ''mnemonic''))
                  (at_index '' (uses-instruction): mnemonic must be a non-empty string'')) (\<lambda>m.
        Inr \<lparr>st_kind = UsesInstruction m, st_in = scope\<rparr>)
      else if kind = ''forbids-instruction'' then
        andThen (require (filled_list 1 (map_of a ''mnemonics''))
                  (at_index '' (forbids-instruction): mnemonics must be a non-empty list of strings'')) (\<lambda>ms.
        Inr \<lparr>st_kind = ForbidsInstruction ms, st_in = scope\<rparr>)
      else if kind = ''forbids-literal'' then
        andThen (require (as_number_or_string (map_of a ''value''))
                  (at_index '' (forbids-literal): value must be a number or string'')) (\<lambda>v.
        Inr \<lparr>st_kind = ForbidsLiteral v, st_in = scope\<rparr>)
      else Inl (at_index ('': unknown assertion kind '' @ quoted kind))))))"

definition capped_string :: "(jstring \<Rightarrow> jstring option) \<Rightarrow> json option \<Rightarrow> jstring option" where
  "capped_string cap v = (case as_string v of Some s \<Rightarrow> if cap s = None then Some s else None | None \<Rightarrow> None)"

definition validateHiddenCase :: "json \<Rightarrow> nat \<Rightarrow> HiddenCase checked" where
  "validateHiddenCase raw index =
     (let at_index = tag ''hiddenCases'' index in
      andThen (require (as_object (Some raw)) (at_index '': expected a case object'')) (\<lambda>c.
      andThen (require (as_string (map_of c ''stdout'')) (at_index '': stdout must be a string'')) (\<lambda>out.
      andThen (require (exit_status (map_of c ''exitCode'')) (at_index '': exitCode must be an integer from 0 to 255'')) (\<lambda>exit.
      andThen (optional (map_of c ''args'') (capped_string validateArgs) (at_index '': args must be a string within the args cap'')) (\<lambda>args.
      andThen (optional (map_of c ''stdin'') (capped_string validateStdin) (at_index '': stdin must be a string within the stdin cap'')) (\<lambda>stdin.
      andThen (optional (map_of c ''edge'') as_bool (at_index '': edge must be true or false when present'')) (\<lambda>edge.
      Inr \<lparr>hc_stdout = out, hc_exitCode = exit, hc_args = args, hc_stdin = stdin, hc_edge = edge\<rparr>)))))))"

subsection \<open>Questions\<close>

definition option_index :: "nat \<Rightarrow> json option \<Rightarrow> int option" where
  "option_index n v = (case as_integer v of Some k \<Rightarrow> if k < 0 \<or> k \<ge> int n then None else Some k | None \<Rightarrow> None)"

definition validateQuizQuestion :: "json \<Rightarrow> nat \<Rightarrow> QuizQuestion checked" where
  "validateQuizQuestion raw index =
     (let at_index = tag ''questions'' index in
      andThen (require (as_object (Some raw)) (at_index '': expected a question object'')) (\<lambda>q.
      andThen (require (filled_string (map_of q ''question'')) (at_index '': question must be a non-empty string'')) (\<lambda>question.
      andThen (require (filled_list 2 (map_of q ''options'')) (at_index '': options must be at least two non-empty strings'')) (\<lambda>options.
      andThen (require (option_index (length options) (map_of q ''correctAnswer'')) (at_index '': correctAnswer must be an index into options'')) (\<lambda>answer.
      andThen (require (filled_string (map_of q ''explanation'')) (at_index '': explanation must be a non-empty string'')) (\<lambda>explanation.
      andThen (optional (map_of q ''hint'') as_string (at_index '': hint must be a string when present'')) (\<lambda>hint.
      Inr \<lparr>qq_question = question, qq_options = options, qq_correctAnswer = answer, qq_explanation = explanation, qq_hint = hint\<rparr>)))))))"

definition validatePredictionQuestion :: "json \<Rightarrow> nat \<Rightarrow> PredictionQuestion checked" where
  "validatePredictionQuestion raw index =
     (let at_index = tag ''predictions'' index in
      andThen (require (as_object (Some raw)) (at_index '': expected a question object'')) (\<lambda>q.
      andThen (require (filled_string (map_of q ''code'')) (at_index '': code must be a non-empty string'')) (\<lambda>cd.
      andThen (require (filled_string (map_of q ''question'')) (at_index '': question must be a non-empty string'')) (\<lambda>question.
      andThen (require (filled_string (map_of q ''answer'')) (at_index '': answer must be a non-empty string'')) (\<lambda>answer.
      andThen (require (filled_string (map_of q ''explanation'')) (at_index '': explanation must be a non-empty string'')) (\<lambda>explanation.
      andThen (optional (map_of q ''hint'') as_string (at_index '': hint must be a string when present'')) (\<lambda>hint.
      Inr \<lparr>pq_code = cd, pq_question = question, pq_answer = answer, pq_explanation = explanation, pq_hint = hint\<rparr>)))))))"

text \<open>The pieces of \<open>split("___")\<close>, less one: the markers, from the left without overlap.\<close>

function count_markers :: "jstring \<Rightarrow> nat" where
  "count_markers s =
     (if s = [] then 0
      else if starts_with ''___'' s then Suc (count_markers (drop 3 s))
      else count_markers (tl s))"
  by pat_completeness auto
termination by (relation "measure length") (auto simp: starts_with_iff)

declare count_markers.simps [simp del]

definition one_marker :: "json option \<Rightarrow> jstring option" where
  "one_marker v =
     (case as_string v of Some s \<Rightarrow> if count_markers s + 1 = 2 then Some s else None | None \<Rightarrow> None)"

definition validateBlanksQuestion :: "json \<Rightarrow> nat \<Rightarrow> BlanksQuestion checked" where
  "validateBlanksQuestion raw index =
     (let at_index = tag ''blanks'' index in
      andThen (require (as_object (Some raw)) (at_index '': expected a question object'')) (\<lambda>q.
      andThen (require (filled_string (map_of q ''prompt'')) (at_index '': prompt must be a non-empty string'')) (\<lambda>prompt.
      andThen (require (one_marker (map_of q ''code'')) (at_index '': code must be a string with exactly one ___ marker'')) (\<lambda>cd.
      andThen (require (filled_list 1 (map_of q ''blanks'')) (at_index '': blanks must be at least one non-empty accepted string'')) (\<lambda>blanks.
      andThen (require (filled_string (map_of q ''explanation'')) (at_index '': explanation must be a non-empty string'')) (\<lambda>explanation.
      andThen (optional (map_of q ''hint'') as_string (at_index '': hint must be a string when present'')) (\<lambda>hint.
      Inr \<lparr>bq_prompt = prompt, bq_code = cd, bq_blanks = blanks, bq_explanation = explanation, bq_hint = hint\<rparr>)))))))"

subsection \<open>Frame exercises\<close>

definition bounded_integer :: "int \<Rightarrow> int \<Rightarrow> json option \<Rightarrow> int option" where
  "bounded_integer lo hi v = (case as_integer v of Some n \<Rightarrow> if n < lo \<or> n > hi then None else Some n | None \<Rightarrow> None)"

definition program_text :: "json option \<Rightarrow> jstring option" where
  "program_text v =
     (case filled_string v of Some s \<Rightarrow> if validateSource s = None then Some s else None | None \<Rightarrow> None)"

definition slot_text :: "json option \<Rightarrow> jstring option" where
  "slot_text v = (case as_string v of Some s \<Rightarrow> if SLOT_NAME_PATTERN s then Some s else None | None \<Rightarrow> None)"

text \<open>The slots in order; an entry that is no object has neither name nor hint.\<close>

fun validate_slots :: "nat \<Rightarrow> json list \<Rightarrow> FrameSlotQuestion list \<Rightarrow> FrameSlotQuestion list checked" where
  "validate_slots i [] seen = Inr seen"
| "validate_slots i (raw # rest) seen =
     (let slot = case_option [] (\<lambda>kvs. kvs) (as_object (Some raw)) in
      andThen (require (slot_text (map_of slot ''name'')) (tag ''slots'' i '': name must be a slot name such as count_s or rect_s.width'')) (\<lambda>name.
      andThen (check (\<not> list_ex (\<lambda>s. fsq_name s = name) seen) (tag ''slots'' i ('': '' @ name @ '' is asked for twice''))) (\<lambda>_.
      andThen (require (filled_string (map_of slot ''hint'')) (tag ''slots'' i '': hint must be a non-empty string'')) (\<lambda>hint.
      validate_slots (Suc i) rest (seen @ [\<lparr>fsq_name = name, fsq_hint = hint\<rparr>])))))"

definition slot_array :: "json option \<Rightarrow> json list option" where
  "slot_array v =
     (case as_array v of Some xs \<Rightarrow> if xs = [] \<or> length xs > MAX_FRAME_SLOTS then None else Some xs | None \<Rightarrow> None)"

definition validateFrameFields :: "(jstring \<times> json) list \<Rightarrow> FrameFields checked" where
  "validateFrameFields obj =
     andThen (require (program_text (map_of obj ''program'')) ''program: expected a non-empty program within the source cap'') (\<lambda>program.
     andThen (require (as_object (map_of obj ''pause'')) ''pause: expected an object with line and hit'') (\<lambda>pause.
     andThen (require (bounded_integer 1 (int (length (js_split (CHR 0x0A) program))) (map_of pause ''line''))
               ''pause.line: expected the number of a line in program'') (\<lambda>line.
     andThen (require (bounded_integer 1 MAX_PAUSE_HIT (map_of pause ''hit''))
               (''pause.hit: expected an integer from 1 to '' @ show_int MAX_PAUSE_HIT)) (\<lambda>hits.
     andThen (require (slot_array (map_of obj ''slots'')) (''slots: expected 1 to '' @ show_int (int MAX_FRAME_SLOTS) @ '' slots'')) (\<lambda>raw_slots.
     andThen (validate_slots 0 raw_slots []) (\<lambda>slots.
     andThen (require (as_object (map_of obj ''hints'')) ''hints: expected an object with size, savedFp and savedLr'') (\<lambda>hints.
     case (filled_string (map_of hints ''size''), filled_string (map_of hints ''savedFp''), filled_string (map_of hints ''savedLr'')) of
       (Some hsize, Some hfp, Some hlr) \<Rightarrow>
         Inr \<lparr>ff_program = program, ff_pause = \<lparr>fp_line = line, fp_hit = hits\<rparr>, ff_slots = slots,
              ff_hint_size = hsize, ff_hint_savedFp = hfp, ff_hint_savedLr = hlr\<rparr>
     | _ \<Rightarrow> Inl ''hints: size, savedFp and savedLr must be non-empty strings'')))))))"

subsection \<open>validateExercise\<close>

definition difficulty_of :: "json option \<Rightarrow> ExerciseDifficulty option" where
  "difficulty_of v =
     (if v = Some (JStr ''intro'') then Some Intro else if v = Some (JStr ''core'') then Some Core
      else if v = Some (JStr ''challenge'') then Some Challenge else None)"

definition variant_of :: "json option \<Rightarrow> ExerciseVariant option" where
  "variant_of v =
     (if v = Some (JStr ''write'') then Some VWrite else if v = Some (JStr ''identify-bug'') then Some VIdentifyBug
      else if v = Some (JStr ''quiz'') then Some VQuiz else if v = Some (JStr ''prediction'') then Some VPrediction
      else if v = Some (JStr ''blanks'') then Some VBlanks else if v = Some (JStr ''frame'') then Some VFrame
      else None)"

definition nonempty_array :: "json option \<Rightarrow> json list option" where
  "nonempty_array v = (case as_array v of Some xs \<Rightarrow> if xs = [] then None else Some xs | None \<Rightarrow> None)"

definition optional_list ::
    "json option \<Rightarrow> (json \<Rightarrow> nat \<Rightarrow> 'a checked) \<Rightarrow> jstring \<Rightarrow> 'a list option checked" where
  "optional_list field v msg =
     andThen (optional field as_array msg) (\<lambda>raw.
     case raw of None \<Rightarrow> Inr None | Some xs \<Rightarrow> andThen (validate_all v 0 xs) (\<lambda>as. Inr (Some as)))"

definition validateWriteFields :: "(jstring \<Rightarrow> bool) \<Rightarrow> (jstring \<times> json) list \<Rightarrow> WriteFields checked" where
  "validateWriteFields valid_regex obj =
     andThen (require (as_string (map_of obj ''starter'')) ''starter: expected a string for coding exercises'') (\<lambda>starter.
     andThen (require (as_object (map_of obj ''acceptance'')) ''acceptance: expected an object for coding exercises'') (\<lambda>acc.
     andThen (require (nonempty_array (map_of acc ''results'')) ''acceptance.results: expected an array with at least one assertion'') (\<lambda>raw_results.
     andThen (validate_all (validateResultAssertion valid_regex) 0 raw_results) (\<lambda>results.
     andThen (optional_list (map_of acc ''structural'') validateStructuralAssertion ''acceptance.structural: expected an array when present'') (\<lambda>structural.
     andThen (optional (map_of obj ''args'') as_string ''args: expected a string when present'') (\<lambda>args.
     andThen (optional (map_of obj ''stdin'') as_string ''stdin: expected a string when present'') (\<lambda>stdin.
     andThen (optional_list (map_of obj ''hiddenCases'') validateHiddenCase ''hiddenCases: expected an array when present'') (\<lambda>hidden.
     Inr \<lparr>wf_starter = starter, wf_acceptance = \<lparr>ac_results = results, ac_structural = structural\<rparr>, wf_args = args,
          wf_stdin = stdin, wf_hiddenCases = hidden\<rparr>))))))))"

definition validate_questions ::
    "(jstring \<times> json) list \<Rightarrow> jstring \<Rightarrow> (json \<Rightarrow> nat \<Rightarrow> 'a checked) \<Rightarrow> jstring \<Rightarrow> 'a list checked" where
  "validate_questions obj key v msg =
     andThen (require (nonempty_array (map_of obj key)) msg) (\<lambda>raw. validate_all v 0 raw)"

definition validateVariant ::
    "(jstring \<Rightarrow> bool) \<Rightarrow> (jstring \<times> json) list \<Rightarrow> BaseExercise \<Rightarrow> ExerciseVariant \<Rightarrow> Exercise checked" where
  "validateVariant valid_regex obj base variant =
     (case variant of
        VQuiz \<Rightarrow>
          andThen (validate_questions obj ''questions'' validateQuizQuestion
                    ''questions: expected at least one question for the quiz variant'') (\<lambda>qs. Inr (QuizExercise base qs))
      | VPrediction \<Rightarrow>
          andThen (validate_questions obj ''predictions'' validatePredictionQuestion
                    ''predictions: expected at least one question for the prediction variant'') (\<lambda>qs. Inr (PredictionExercise base qs))
      | VBlanks \<Rightarrow>
          andThen (validate_questions obj ''blanks'' validateBlanksQuestion
                    ''blanks: expected at least one question for the blanks variant'') (\<lambda>qs. Inr (BlanksExercise base qs))
      | VFrame \<Rightarrow> andThen (validateFrameFields obj) (\<lambda>f. Inr (FrameExercise base f))
      | _ \<Rightarrow> andThen (validateWriteFields valid_regex obj) (\<lambda>f. Inr (WriteExercise base variant f)))"

definition validateExercise :: "(jstring \<Rightarrow> bool) \<Rightarrow> json option \<Rightarrow> Exercise checked" where
  "validateExercise valid_regex data =
     andThen (require (as_object data) ''exercise: expected an object'') (\<lambda>obj.
     andThen (require (filled_string (map_of obj ''title'')) ''title: expected a non-empty string'') (\<lambda>title.
     andThen (require (slug_string (map_of obj ''slug'')) ''slug: expected url-safe kebab-case'') (\<lambda>slug.
     andThen (require (as_number_or_string (map_of obj ''order'')) ''order: expected a number or string'') (\<lambda>order.
     andThen (require (filled_string (map_of obj ''prompt'')) ''prompt: expected a non-empty string'') (\<lambda>prompt.
     andThen (optional (map_of obj ''lastUpdated'') isCalendarDate ''lastUpdated: expected a YYYY-MM-DD date when present'') (\<lambda>lastUpdated.
     andThen (optional (map_of obj ''topic'') as_string ''topic: expected a string when present'') (\<lambda>topic.
     andThen (optional (map_of obj ''difficulty'') difficulty_of ''difficulty: expected one of intro|core|challenge'') (\<lambda>difficulty.
     andThen (optional (map_of obj ''variant'') variant_of
               ''variant: expected one of write|identify-bug|quiz|prediction|blanks|frame'') (\<lambda>variant.
     validateVariant valid_regex obj
       \<lparr>be_title = title, be_slug = slug, be_order = order, be_lastUpdated = lastUpdated, be_topic = topic,
        be_difficulty = difficulty, be_prompt = prompt\<rparr>
       (case_option VWrite (\<lambda>v. v) variant))))))))))"

subsection \<open>What is accepted\<close>

fun result_ok :: "(jstring \<Rightarrow> bool) \<Rightarrow> ResultAssertion \<Rightarrow> bool" where
  "result_ok valid_regex (RegisterIs reg n) = REGISTER_PATTERN reg"
| "result_ok valid_regex (StdoutMatches s) = valid_regex s"
| "result_ok valid_regex _ = True"

fun kind_ok :: "StructuralKind \<Rightarrow> bool" where
  "kind_ok (UsesInstruction m) = filled m"
| "kind_ok (ForbidsInstruction ms) = (ms \<noteq> [] \<and> list_all filled ms)"
| "kind_ok (ForbidsLiteral _) = True"

definition structural_ok :: "StructuralAssertion \<Rightarrow> bool" where
  "structural_ok a \<longleftrightarrow> kind_ok (st_kind a) \<and> (\<forall>l. st_in a = Some l \<longrightarrow> LABEL_PATTERN l)"

definition hidden_ok :: "HiddenCase \<Rightarrow> bool" where
  "hidden_ok c \<longleftrightarrow>
     0 \<le> hc_exitCode c \<and> hc_exitCode c \<le> MAX_EXIT_STATUS \<and>
     (\<forall>a. hc_args c = Some a \<longrightarrow> length a \<le> MAX_ARGS_CHARS) \<and>
     (\<forall>s. hc_stdin c = Some s \<longrightarrow> byteLength s \<le> MAX_STDIN_BYTES)"

definition quiz_ok :: "QuizQuestion \<Rightarrow> bool" where
  "quiz_ok q \<longleftrightarrow>
     2 \<le> length (qq_options q) \<and> list_all filled (qq_options q) \<and> filled (qq_question q) \<and> filled (qq_explanation q) \<and>
     0 \<le> qq_correctAnswer q \<and> qq_correctAnswer q < int (length (qq_options q))"

definition prediction_ok :: "PredictionQuestion \<Rightarrow> bool" where
  "prediction_ok q \<longleftrightarrow> filled (pq_code q) \<and> filled (pq_question q) \<and> filled (pq_answer q) \<and> filled (pq_explanation q)"

definition blanks_ok :: "BlanksQuestion \<Rightarrow> bool" where
  "blanks_ok q \<longleftrightarrow>
     count_markers (bq_code q) = 1 \<and> bq_blanks q \<noteq> [] \<and> list_all filled (bq_blanks q) \<and> filled (bq_prompt q) \<and>
     filled (bq_explanation q)"

definition frame_ok :: "FrameFields \<Rightarrow> bool" where
  "frame_ok f \<longleftrightarrow>
     filled (ff_program f) \<and> byteLength (ff_program f) \<le> MAX_SOURCE_BYTES \<and>
     1 \<le> fp_line (ff_pause f) \<and> fp_line (ff_pause f) \<le> int (length (js_split (CHR 0x0A) (ff_program f))) \<and>
     1 \<le> fp_hit (ff_pause f) \<and> fp_hit (ff_pause f) \<le> MAX_PAUSE_HIT \<and>
     ff_slots f \<noteq> [] \<and> length (ff_slots f) \<le> MAX_FRAME_SLOTS \<and> distinct (map fsq_name (ff_slots f)) \<and>
     list_all (\<lambda>s. SLOT_NAME_PATTERN (fsq_name s) \<and> filled (fsq_hint s)) (ff_slots f) \<and>
     filled (ff_hint_size f) \<and> filled (ff_hint_savedFp f) \<and> filled (ff_hint_savedLr f)"

definition write_ok :: "(jstring \<Rightarrow> bool) \<Rightarrow> WriteFields \<Rightarrow> bool" where
  "write_ok valid_regex f \<longleftrightarrow>
     ac_results (wf_acceptance f) \<noteq> [] \<and> list_all (result_ok valid_regex) (ac_results (wf_acceptance f)) \<and>
     (\<forall>xs. ac_structural (wf_acceptance f) = Some xs \<longrightarrow> list_all structural_ok xs) \<and>
     (\<forall>xs. wf_hiddenCases f = Some xs \<longrightarrow> list_all hidden_ok xs)"

definition base_ok :: "BaseExercise \<Rightarrow> bool" where
  "base_ok b \<longleftrightarrow>
     filled (be_title b) \<and> SLUG_PATTERN (be_slug b) \<and> filled (be_prompt b) \<and>
     (\<forall>d. be_lastUpdated b = Some d \<longrightarrow> calendar_date d)"

fun exercise_ok :: "(jstring \<Rightarrow> bool) \<Rightarrow> Exercise \<Rightarrow> bool" where
  "exercise_ok vr (WriteExercise b v f) = (base_ok b \<and> v \<in> {VWrite, VIdentifyBug} \<and> write_ok vr f)"
| "exercise_ok vr (QuizExercise b qs) = (base_ok b \<and> qs \<noteq> [] \<and> list_all quiz_ok qs)"
| "exercise_ok vr (PredictionExercise b qs) = (base_ok b \<and> qs \<noteq> [] \<and> list_all prediction_ok qs)"
| "exercise_ok vr (BlanksExercise b qs) = (base_ok b \<and> qs \<noteq> [] \<and> list_all blanks_ok qs)"
| "exercise_ok vr (FrameExercise b f) = (base_ok b \<and> frame_ok f)"

subsection \<open>Accepted values are well formed\<close>

lemma exercise_readers:
  "register_name v = Some s \<Longrightarrow> REGISTER_PATTERN s" "label_name v = Some s \<Longrightarrow> LABEL_PATTERN s"
  "slot_text v = Some s \<Longrightarrow> SLOT_NAME_PATTERN s" "one_marker v = Some s \<Longrightarrow> count_markers s = 1"
  "capped_string cap v = Some s \<Longrightarrow> cap s = None" "program_text v = Some s \<Longrightarrow> filled s \<and> validateSource s = None"
  "option_index n v = Some k \<Longrightarrow> 0 \<le> k \<and> k < int n" "bounded_integer lo hi v = Some k \<Longrightarrow> lo \<le> k \<and> k \<le> hi"
  "filled_string v = Some s \<Longrightarrow> filled s"
  "slot_array v = Some xs \<Longrightarrow> xs \<noteq> [] \<and> length xs \<le> MAX_FRAME_SLOTS"
  "nonempty_array v = Some xs \<Longrightarrow> xs \<noteq> []"
  by (auto simp: register_name_def label_name_def slot_text_def one_marker_def capped_string_def program_text_def
      option_index_def bounded_integer_def filled_string_def slot_array_def nonempty_array_def
      split: option.splits if_splits)

lemma filled_list_Some: "filled_list n v = Some ss \<Longrightarrow> n \<le> length ss \<and> list_all filled ss"
  by (auto simp: filled_list_def split: option.splits if_splits dest!: all_strings_Some)

lemma cap_None:
  "validateArgs s = None \<longleftrightarrow> length s \<le> MAX_ARGS_CHARS" "validateStdin s = None \<longleftrightarrow> byteLength s \<le> MAX_STDIN_BYTES"
  "validateSource s = None \<longleftrightarrow> byteLength s \<le> MAX_SOURCE_BYTES"
  by (auto simp: validateArgs_def validateStdin_def validateSource_def)

lemma validateResultAssertion_ok: "validateResultAssertion vr raw i = Inr a \<Longrightarrow> result_ok vr a"
  by (auto simp: validateResultAssertion_def Let_def split: if_splits dest: exercise_readers)

lemma validateStructuralAssertion_ok: "validateStructuralAssertion raw i = Inr a \<Longrightarrow> structural_ok a"
  by (auto simp: validateStructuralAssertion_def structural_ok_def Let_def split: if_splits
      dest: exercise_readers dest!: filled_list_Some)

lemma validateHiddenCase_ok: "validateHiddenCase raw i = Inr c \<Longrightarrow> hidden_ok c"
  by (auto simp: validateHiddenCase_def hidden_ok_def Let_def MAX_EXIT_STATUS_def cap_None [symmetric]
      dest: exercise_readers dest!: exit_status_Some)

lemma validateQuizQuestion_ok: "validateQuizQuestion raw i = Inr q \<Longrightarrow> quiz_ok q"
  by (auto simp: validateQuizQuestion_def quiz_ok_def Let_def dest: exercise_readers filled_list_Some)

lemma validatePredictionQuestion_ok: "validatePredictionQuestion raw i = Inr q \<Longrightarrow> prediction_ok q"
  by (auto simp: validatePredictionQuestion_def prediction_ok_def Let_def dest: exercise_readers)

lemma validateBlanksQuestion_ok: "validateBlanksQuestion raw i = Inr q \<Longrightarrow> blanks_ok q"
  by (auto simp: validateBlanksQuestion_def blanks_ok_def Let_def dest: exercise_readers dest!: filled_list_Some)

subsection \<open>Written exercises are accepted\<close>

fun ResultAssertion_json :: "ResultAssertion \<Rightarrow> json" where
  "ResultAssertion_json (RegisterIs reg n) = JObj [(''kind'', JStr ''register''), (''reg'', JStr reg), (''equals'', int_json n)]"
| "ResultAssertion_json (ExitIs n) = JObj [(''kind'', JStr ''exit''), (''equals'', int_json n)]"
| "ResultAssertion_json (StdoutIs s) = JObj [(''kind'', JStr ''stdout''), (''equals'', JStr s)]"
| "ResultAssertion_json (StdoutMatches s) = JObj [(''kind'', JStr ''stdout''), (''matches'', JStr s)]"

definition strings_json :: "jstring list \<Rightarrow> json" where
  "strings_json ss = JArr (map JStr ss)"

fun StructuralKind_fields :: "StructuralKind \<Rightarrow> (jstring \<times> json) list" where
  "StructuralKind_fields (UsesInstruction m) = [(''kind'', JStr ''uses-instruction''), (''mnemonic'', JStr m)]"
| "StructuralKind_fields (ForbidsInstruction ms) = [(''kind'', JStr ''forbids-instruction''), (''mnemonics'', strings_json ms)]"
| "StructuralKind_fields (ForbidsLiteral x) = [(''kind'', JStr ''forbids-literal''), (''value'', number_or_string_json x)]"

definition StructuralAssertion_json :: "StructuralAssertion \<Rightarrow> json" where
  "StructuralAssertion_json a = JObj (StructuralKind_fields (st_kind a) @ opt_field ''in'' JStr (st_in a))"

definition HiddenCase_json :: "HiddenCase \<Rightarrow> json" where
  "HiddenCase_json c =
     JObj ([(''stdout'', JStr (hc_stdout c)), (''exitCode'', int_json (hc_exitCode c))] @ opt_field ''args'' JStr (hc_args c) @
       opt_field ''stdin'' JStr (hc_stdin c) @ opt_field ''edge'' JBool (hc_edge c))"

definition QuizQuestion_json :: "QuizQuestion \<Rightarrow> json" where
  "QuizQuestion_json q =
     JObj ([(''question'', JStr (qq_question q)), (''options'', strings_json (qq_options q)),
       (''correctAnswer'', int_json (qq_correctAnswer q)), (''explanation'', JStr (qq_explanation q))] @
       opt_field ''hint'' JStr (qq_hint q))"

definition PredictionQuestion_json :: "PredictionQuestion \<Rightarrow> json" where
  "PredictionQuestion_json q =
     JObj ([(''code'', JStr (pq_code q)), (''question'', JStr (pq_question q)), (''answer'', JStr (pq_answer q)),
       (''explanation'', JStr (pq_explanation q))] @ opt_field ''hint'' JStr (pq_hint q))"

definition BlanksQuestion_json :: "BlanksQuestion \<Rightarrow> json" where
  "BlanksQuestion_json q =
     JObj ([(''prompt'', JStr (bq_prompt q)), (''code'', JStr (bq_code q)), (''blanks'', strings_json (bq_blanks q)),
       (''explanation'', JStr (bq_explanation q))] @ opt_field ''hint'' JStr (bq_hint q))"

definition FrameSlotQuestion_json :: "FrameSlotQuestion \<Rightarrow> json" where
  "FrameSlotQuestion_json s = JObj [(''name'', JStr (fsq_name s)), (''hint'', JStr (fsq_hint s))]"

lemma exercise_readers_printed [simp]:
  "REGISTER_PATTERN s \<Longrightarrow> register_name (Some (JStr s)) = Some s" "LABEL_PATTERN s \<Longrightarrow> label_name (Some (JStr s)) = Some s"
  "SLOT_NAME_PATTERN s \<Longrightarrow> slot_text (Some (JStr s)) = Some s" "count_markers s = 1 \<Longrightarrow> one_marker (Some (JStr s)) = Some s"
  "cap s = None \<Longrightarrow> capped_string cap (Some (JStr s)) = Some s"
  "filled s \<Longrightarrow> byteLength s \<le> MAX_SOURCE_BYTES \<Longrightarrow> program_text (Some (JStr s)) = Some s"
  "0 \<le> k \<Longrightarrow> k < int n \<Longrightarrow> option_index n (Some (int_json k)) = Some k"
  "lo \<le> k \<Longrightarrow> k \<le> hi \<Longrightarrow> bounded_integer lo hi (Some (int_json k)) = Some k"
  "n \<le> length ss \<Longrightarrow> list_all filled ss \<Longrightarrow> filled_list n (Some (strings_json ss)) = Some ss"
  "xs \<noteq> [] \<Longrightarrow> length xs \<le> MAX_FRAME_SLOTS \<Longrightarrow> slot_array (Some (JArr xs)) = Some xs"
  "xs \<noteq> [] \<Longrightarrow> nonempty_array (Some (JArr xs)) = Some xs"
  by (auto simp: register_name_def label_name_def slot_text_def one_marker_def capped_string_def program_text_def
      option_index_def bounded_integer_def slot_array_def nonempty_array_def filled_list_def strings_json_def
      all_strings_map cap_None)

lemma validateResultAssertion_printed: "result_ok vr a \<Longrightarrow> validateResultAssertion vr (ResultAssertion_json a) i = Inr a"
  by (cases a) (simp_all add: validateResultAssertion_def)

lemma validateStructuralAssertion_printed:
  "structural_ok a \<Longrightarrow> validateStructuralAssertion (StructuralAssertion_json a) i = Inr a"
  by (cases "st_kind a")
    (simp_all add: validateStructuralAssertion_def StructuralAssertion_json_def structural_ok_def Suc_leI
      del: andThen_Inr optional_Inr map_of_append)

lemma validateHiddenCase_printed: "hidden_ok c \<Longrightarrow> validateHiddenCase (HiddenCase_json c) i = Inr c"
  by (simp add: validateHiddenCase_def HiddenCase_json_def hidden_ok_def MAX_EXIT_STATUS_def cap_None
      del: andThen_Inr optional_Inr map_of_append)

lemma validateQuizQuestion_printed: "quiz_ok q \<Longrightarrow> validateQuizQuestion (QuizQuestion_json q) i = Inr q"
  by (simp add: validateQuizQuestion_def QuizQuestion_json_def quiz_ok_def del: andThen_Inr optional_Inr map_of_append)

lemma validatePredictionQuestion_printed:
  "prediction_ok q \<Longrightarrow> validatePredictionQuestion (PredictionQuestion_json q) i = Inr q"
  by (simp add: validatePredictionQuestion_def PredictionQuestion_json_def prediction_ok_def
      del: andThen_Inr optional_Inr map_of_append)

lemma validateBlanksQuestion_printed: "blanks_ok q \<Longrightarrow> validateBlanksQuestion (BlanksQuestion_json q) i = Inr q"
  by (simp add: validateBlanksQuestion_def BlanksQuestion_json_def blanks_ok_def Suc_leI
      del: andThen_Inr optional_Inr map_of_append)

interpretation results: exact_validator "validateResultAssertion vr" "result_ok vr" ResultAssertion_json for vr
  by unfold_locales (rule validateResultAssertion_ok, assumption, rule validateResultAssertion_printed)

interpretation structurals: exact_validator validateStructuralAssertion structural_ok StructuralAssertion_json
  by unfold_locales (rule validateStructuralAssertion_ok, assumption, rule validateStructuralAssertion_printed)

interpretation hidden_cases: exact_validator validateHiddenCase hidden_ok HiddenCase_json
  by unfold_locales (rule validateHiddenCase_ok, assumption, rule validateHiddenCase_printed)

interpretation quizzes: exact_validator validateQuizQuestion quiz_ok QuizQuestion_json
  by unfold_locales (rule validateQuizQuestion_ok, assumption, rule validateQuizQuestion_printed)

interpretation predictions: exact_validator validatePredictionQuestion prediction_ok PredictionQuestion_json
  by unfold_locales (rule validatePredictionQuestion_ok, assumption, rule validatePredictionQuestion_printed)

interpretation blanks: exact_validator validateBlanksQuestion blanks_ok BlanksQuestion_json
  by unfold_locales (rule validateBlanksQuestion_ok, assumption, rule validateBlanksQuestion_printed)

lemma validate_slots_ok:
  "validate_slots i raws seen = Inr slots \<Longrightarrow>
   distinct (map fsq_name seen) \<Longrightarrow> list_all (\<lambda>s. SLOT_NAME_PATTERN (fsq_name s) \<and> filled (fsq_hint s)) seen \<Longrightarrow>
   distinct (map fsq_name slots) \<and> list_all (\<lambda>s. SLOT_NAME_PATTERN (fsq_name s) \<and> filled (fsq_hint s)) slots \<and>
   length slots = length seen + length raws"
proof (induction i raws seen rule: validate_slots.induct)
  case (2 i raw rest seen)
  obtain name hint where n: "slot_text (map_of (case_option [] (\<lambda>kvs. kvs) (as_object (Some raw))) ''name'') = Some name"
    "\<not> list_ex (\<lambda>s. fsq_name s = name) seen"
    "filled_string (map_of (case_option [] (\<lambda>kvs. kvs) (as_object (Some raw))) ''hint'') = Some hint"
    "validate_slots (Suc i) rest (seen @ [\<lparr>fsq_name = name, fsq_hint = hint\<rparr>]) = Inr slots"
    using "2.prems"(1) by (auto simp: Let_def)
  have "distinct (map fsq_name (seen @ [\<lparr>fsq_name = name, fsq_hint = hint\<rparr>]))"
    using "2.prems"(2) n(2) by (auto simp: list_ex_iff)
  moreover have "list_all (\<lambda>s. SLOT_NAME_PATTERN (fsq_name s) \<and> filled (fsq_hint s)) (seen @ [\<lparr>fsq_name = name, fsq_hint = hint\<rparr>])"
    using "2.prems"(3) exercise_readers(3) [OF n(1)] exercise_readers(9) [OF n(3)] by simp
  ultimately show ?case using "2.IH" [OF refl n(4)] by simp
qed simp

lemma frame_hints_Inr:
  "(case a of None \<Rightarrow> Inl e | Some x \<Rightarrow> (case b of None \<Rightarrow> Inl e | Some y \<Rightarrow> (case c of None \<Rightarrow> Inl e | Some z \<Rightarrow> Inr (g x y z)))) = Inr f \<longleftrightarrow>
   (\<exists>x y z. a = Some x \<and> b = Some y \<and> c = Some z \<and> f = g x y z)"
  by (cases a; cases b; cases c) auto

lemma validateFrameFields_ok:
  assumes "validateFrameFields obj = Inr f"
  shows "frame_ok f"
proof -
  obtain program pause line hits raw_slots slots hints hsize hfp hlr where f:
    "program_text (map_of obj ''program'') = Some program"
    "bounded_integer 1 (int (length (js_split (CHR 0x0A) program))) (map_of pause ''line'') = Some line"
    "bounded_integer 1 MAX_PAUSE_HIT (map_of pause ''hit'') = Some hits"
    "slot_array (map_of obj ''slots'') = Some raw_slots" "validate_slots 0 raw_slots [] = Inr slots"
    "filled_string (map_of hints ''size'') = Some hsize" "filled_string (map_of hints ''savedFp'') = Some hfp"
    "filled_string (map_of hints ''savedLr'') = Some hlr"
    "f = \<lparr>ff_program = program, ff_pause = \<lparr>fp_line = line, fp_hit = hits\<rparr>, ff_slots = slots,
          ff_hint_size = hsize, ff_hint_savedFp = hfp, ff_hint_savedLr = hlr\<rparr>"
    using assms by (auto simp: validateFrameFields_def frame_hints_Inr)
  have s: "distinct (map fsq_name slots)" "list_all (\<lambda>s. SLOT_NAME_PATTERN (fsq_name s) \<and> filled (fsq_hint s)) slots"
    "length slots = length raw_slots"
    using validate_slots_ok [OF f(5)] by simp_all
  show ?thesis
    using exercise_readers(6) [OF f(1)] exercise_readers(8) [OF f(2)] exercise_readers(8) [OF f(3)]
      exercise_readers(10) [OF f(4)] exercise_readers(9) [OF f(6)] exercise_readers(9) [OF f(7)]
      exercise_readers(9) [OF f(8)] s
    by (auto simp: frame_ok_def f(9) cap_None)
qed

lemma optional_list_ok:
  assumes "optional_list field v msg = Inr (Some as)" "\<And>i xs as. validate_all v i xs = Inr as \<Longrightarrow> list_all P as"
  shows "list_all P as"
  using assms by (auto simp: optional_list_def split: option.splits)

lemma validateWriteFields_ok:
  assumes "validateWriteFields vr obj = Inr f"
  shows "write_ok vr f"
proof -
  obtain acc raw_results results structural hidden where f:
    "nonempty_array (map_of acc ''results'') = Some raw_results"
    "validate_all (validateResultAssertion vr) 0 raw_results = Inr results"
    "optional_list (map_of acc ''structural'') validateStructuralAssertion ''acceptance.structural: expected an array when present'' = Inr structural"
    "optional_list (map_of obj ''hiddenCases'') validateHiddenCase ''hiddenCases: expected an array when present'' = Inr hidden"
    "wf_acceptance f = \<lparr>ac_results = results, ac_structural = structural\<rparr>" "wf_hiddenCases f = hidden"
    using assms by (auto simp: validateWriteFields_def)
  show ?thesis
    using exercise_readers(11) [OF f(1)] results.all_good [OF f(2)] f
      optional_list_ok [of _ validateStructuralAssertion _ _ structural_ok] structurals.all_good
      optional_list_ok [of _ validateHiddenCase _ _ hidden_ok] hidden_cases.all_good
    by (auto simp: write_ok_def)
qed

lemma validate_questions_ok:
  assumes "validate_questions obj key v msg = Inr qs"
    and "\<And>i xs as. validate_all v i xs = Inr as \<Longrightarrow> list_all P as \<and> length as = length xs"
  shows "qs \<noteq> [] \<and> list_all P qs"
proof -
  obtain raw where r: "raw \<noteq> []" "validate_all v 0 raw = Inr qs"
    using assms(1) exercise_readers(11) by (auto simp: validate_questions_def)
  show ?thesis using assms(2) [OF r(2)] r(1) by auto
qed

lemma validateVariant_ok:
  assumes "validateVariant vr obj base variant = Inr e" "base_ok base"
  shows "exercise_ok vr e"
  using assms
    validate_questions_ok [of obj _ validateQuizQuestion _ _ quiz_ok, OF _ quizzes.all_good]
    validate_questions_ok [of obj _ validatePredictionQuestion _ _ prediction_ok, OF _ predictions.all_good]
    validate_questions_ok [of obj _ validateBlanksQuestion _ _ blanks_ok, OF _ blanks.all_good]
    validateFrameFields_ok validateWriteFields_ok
  by (cases variant) (auto simp: validateVariant_def)

lemma validateExercise_ok:
  assumes "validateExercise vr data = Inr e"
  shows "exercise_ok vr e"
proof -
  obtain obj base variant where v: "validateVariant vr obj base variant = Inr e" "base_ok base"
    using assms by (auto simp: validateExercise_def base_ok_def dest!: field_readers)
  then show ?thesis by (rule validateVariant_ok)
qed

subsection \<open>Every well-formed exercise is accepted\<close>

lemma validate_slots_printed:
  "distinct (map fsq_name (seen @ slots)) \<Longrightarrow>
   list_all (\<lambda>s. SLOT_NAME_PATTERN (fsq_name s) \<and> filled (fsq_hint s)) slots \<Longrightarrow>
   validate_slots i (map FrameSlotQuestion_json slots) seen = Inr (seen @ slots)"
proof (induction slots arbitrary: i seen)
  case (Cons s slots)
  have "\<not> list_ex (\<lambda>t. fsq_name t = fsq_name s) seen"
    using Cons.prems(1) unfolding list_ex_iff by (metis (no_types, lifting) distinct_append distinct.simps(2) image_eqI list.set_map map_append list.simps(9) disjoint_iff list.set_intros(1))
  moreover have "validate_slots (Suc i) (map FrameSlotQuestion_json slots) (seen @ [s]) = Inr ((seen @ [s]) @ slots)"
    using Cons.prems by (intro Cons.IH) auto
  moreover have again: "\<lparr>fsq_name = fsq_name s, fsq_hint = fsq_hint s\<rparr> = s" by simp
  ultimately show ?case
    using Cons.prems(2) by (simp add: FrameSlotQuestion_json_def [of s] again del: andThen_Inr optional_Inr)
qed simp

definition FrameFields_fields :: "FrameFields \<Rightarrow> (jstring \<times> json) list" where
  "FrameFields_fields f =
     [(''program'', JStr (ff_program f)),
      (''pause'', JObj [(''line'', int_json (fp_line (ff_pause f))), (''hit'', int_json (fp_hit (ff_pause f)))]),
      (''slots'', JArr (map FrameSlotQuestion_json (ff_slots f))),
      (''hints'', JObj [(''size'', JStr (ff_hint_size f)), (''savedFp'', JStr (ff_hint_savedFp f)), (''savedLr'', JStr (ff_hint_savedLr f))])]"

lemma validateFrameFields_printed:
  assumes "frame_ok f"
    and "\<And>k. k \<in> {''program'', ''pause'', ''slots'', ''hints''} \<Longrightarrow> map_of obj k = map_of (FrameFields_fields f) k"
  shows "validateFrameFields obj = Inr f"
  using assms(1) validate_slots_printed [of "[]" "ff_slots f" 0]
  by (simp add: validateFrameFields_def assms(2) FrameFields_fields_def frame_ok_def
      del: andThen_Inr optional_Inr)

definition WriteFields_fields :: "WriteFields \<Rightarrow> (jstring \<times> json) list" where
  "WriteFields_fields f =
     [(''starter'', JStr (wf_starter f)),
      (''acceptance'', JObj ((''results'', JArr (map ResultAssertion_json (ac_results (wf_acceptance f)))) #
        opt_field ''structural'' (\<lambda>xs. JArr (map StructuralAssertion_json xs)) (ac_structural (wf_acceptance f))))] @
     opt_field ''args'' JStr (wf_args f) @ opt_field ''stdin'' JStr (wf_stdin f) @
     opt_field ''hiddenCases'' (\<lambda>xs. JArr (map HiddenCase_json xs)) (wf_hiddenCases f)"

lemma optional_list_printed:
  "(\<And>as. x = Some as \<Longrightarrow> validate_all v 0 (map p as) = Inr as) \<Longrightarrow>
   optional_list (map_option (\<lambda>xs. JArr (map p xs)) x) v msg = Inr x"
  by (cases x) (simp_all add: optional_list_def optional_def)

lemma validateWriteFields_printed:
  assumes "write_ok vr f"
    and "\<And>k. k \<in> {''starter'', ''acceptance'', ''args'', ''stdin'', ''hiddenCases''} \<Longrightarrow> map_of obj k = map_of (WriteFields_fields f) k"
  shows "validateWriteFields vr obj = Inr f"
  using assms(1)
  by (simp add: validateWriteFields_def assms(2) WriteFields_fields_def write_ok_def results.all_printed
      optional_list_printed structurals.all_printed hidden_cases.all_printed
      del: andThen_Inr optional_Inr map_of_append)

definition ExerciseVariant_json :: "ExerciseVariant \<Rightarrow> json" where
  "ExerciseVariant_json v =
     JStr (case v of VWrite \<Rightarrow> ''write'' | VIdentifyBug \<Rightarrow> ''identify-bug'' | VQuiz \<Rightarrow> ''quiz''
           | VPrediction \<Rightarrow> ''prediction'' | VBlanks \<Rightarrow> ''blanks'' | VFrame \<Rightarrow> ''frame'')"

definition ExerciseDifficulty_json :: "ExerciseDifficulty \<Rightarrow> json" where
  "ExerciseDifficulty_json d = JStr (case d of Intro \<Rightarrow> ''intro'' | Core \<Rightarrow> ''core'' | Challenge \<Rightarrow> ''challenge'')"

definition BaseExercise_fields :: "BaseExercise \<Rightarrow> ExerciseVariant \<Rightarrow> (jstring \<times> json) list" where
  "BaseExercise_fields b v =
     [(''title'', JStr (be_title b)), (''slug'', JStr (be_slug b)), (''order'', number_or_string_json (be_order b)),
      (''prompt'', JStr (be_prompt b)), (''variant'', ExerciseVariant_json v)] @
     opt_field ''lastUpdated'' JStr (be_lastUpdated b) @ opt_field ''topic'' JStr (be_topic b) @
     opt_field ''difficulty'' ExerciseDifficulty_json (be_difficulty b)"

fun exercise_parts :: "Exercise \<Rightarrow> BaseExercise \<times> ExerciseVariant \<times> (jstring \<times> json) list" where
  "exercise_parts (WriteExercise b v f) = (b, v, WriteFields_fields f)"
| "exercise_parts (QuizExercise b qs) = (b, VQuiz, [(''questions'', JArr (map QuizQuestion_json qs))])"
| "exercise_parts (PredictionExercise b qs) = (b, VPrediction, [(''predictions'', JArr (map PredictionQuestion_json qs))])"
| "exercise_parts (BlanksExercise b qs) = (b, VBlanks, [(''blanks'', JArr (map BlanksQuestion_json qs))])"
| "exercise_parts (FrameExercise b f) = (b, VFrame, FrameFields_fields f)"

definition Exercise_json :: "Exercise \<Rightarrow> json" where
  "Exercise_json e = (case exercise_parts e of (b, v, fs) \<Rightarrow> JObj (fs @ BaseExercise_fields b v))"

lemma choices_printed [simp]:
  "variant_of (Some (ExerciseVariant_json v)) = Some v" "difficulty_of (Some (ExerciseDifficulty_json d)) = Some d"
  by (cases v; simp add: variant_of_def ExerciseVariant_json_def)
    (cases d; simp add: difficulty_of_def ExerciseDifficulty_json_def)

text \<open>The keys of the two parts are apart.\<close>

definition base_keys :: "jstring list" where
  "base_keys = [''title'', ''slug'', ''order'', ''prompt'', ''variant'', ''lastUpdated'', ''topic'', ''difficulty'']"

lemma exercise_parts_keys: "exercise_parts e = (b, v, fs) \<Longrightarrow> k \<in> set base_keys \<Longrightarrow> map_of fs k = None"
  by (cases e) (auto simp: base_keys_def WriteFields_fields_def FrameFields_fields_def simp del: map_of_append)

lemma optional_present: "read (Some x) = Some a \<Longrightarrow> optional (Some x) read msg = Inr (Some a)"
  by (simp add: optional_def)

lemma validateExercise_base:
  assumes "base_ok b" and k: "\<And>k. k \<in> set base_keys \<Longrightarrow> map_of obj k = map_of (BaseExercise_fields b v) k"
  shows "validateExercise vr (Some (JObj obj)) = validateVariant vr obj b v"
  using assms(1)
  by (cases b) (simp add: validateExercise_def k base_keys_def BaseExercise_fields_def base_ok_def optional_present
      del: andThen_Inr optional_Inr map_of_append)

lemma validate_questions_printed:
  "map_of obj key = Some (JArr (map p qs)) \<Longrightarrow> qs \<noteq> [] \<Longrightarrow> validate_all v 0 (map p qs) = Inr qs \<Longrightarrow>
   validate_questions obj key v msg = Inr qs"
  by (simp add: validate_questions_def)

lemma validateVariant_printed:
  assumes "exercise_ok vr e" "exercise_parts e = (b, v, fs)"
    and k: "\<And>k. k \<notin> set base_keys \<Longrightarrow> map_of obj k = map_of fs k"
  shows "validateVariant vr obj b v = Inr e"
proof (cases e)
  case (WriteExercise b' v' f)
  then have "validateWriteFields vr obj = Inr f"
    using assms(1,2) by (intro validateWriteFields_printed) (auto simp: k base_keys_def)
  then show ?thesis using WriteExercise assms(1,2) by (auto simp: validateVariant_def)
next
  case (FrameExercise b' f)
  then have "validateFrameFields obj = Inr f"
    using assms(1,2) by (intro validateFrameFields_printed) (auto simp: k base_keys_def)
  then show ?thesis using FrameExercise assms(1,2) by (auto simp: validateVariant_def)
next
  case (QuizExercise b' qs)
  then show ?thesis using assms(1,2)
    by (auto simp: validateVariant_def k base_keys_def quizzes.all_printed intro!: validate_questions_printed)
next
  case (PredictionExercise b' qs)
  then show ?thesis using assms(1,2)
    by (auto simp: validateVariant_def k base_keys_def predictions.all_printed intro!: validate_questions_printed)
next
  case (BlanksExercise b' qs)
  then show ?thesis using assms(1,2)
    by (auto simp: validateVariant_def k base_keys_def blanks.all_printed intro!: validate_questions_printed)
qed

lemma exercise_parts_base: "exercise_ok vr e \<Longrightarrow> exercise_parts e = (b, v, fs) \<Longrightarrow> base_ok b"
  by (cases e) auto

lemma BaseExercise_fields_keys: "k \<notin> set base_keys \<Longrightarrow> map_of (BaseExercise_fields b v) k = None"
  by (auto simp: base_keys_def BaseExercise_fields_def simp del: map_of_append)

lemma validateExercise_printed:
  assumes "exercise_ok vr e"
  shows "validateExercise vr (Some (Exercise_json e)) = Inr e"
proof -
  obtain b v fs where p: "exercise_parts e = (b, v, fs)" by (cases "exercise_parts e") auto
  let ?obj = "fs @ BaseExercise_fields b v"
  have "validateExercise vr (Some (JObj ?obj)) = validateVariant vr ?obj b v"
    by (rule validateExercise_base [OF exercise_parts_base [OF assms p]])
      (simp add: map_add_def exercise_parts_keys [OF p])
  also have "\<dots> = Inr e"
    by (rule validateVariant_printed [OF assms p]) (simp add: map_add_def BaseExercise_fields_keys split: option.split)
  finally show ?thesis by (simp add: Exercise_json_def p)
qed

text \<open>C30: for a given engine of regular expressions, the exercises \<open>validateExercise\<close> can return,
  over all untrusted JSON values, are exactly the well-formed ones: a coding exercise with at least
  one assertion, register names x0 to x30 or sp, compilable patterns, hidden cases within the caps
  of the args box and the console; questions whose right answer is one of the options; code with
  exactly one blank marker; a frame exercise that pauses on a line of its own program and asks for
  up to sixteen slots, no name twice.  Every well-formed exercise is accepted as it is when it is
  written out as JSON.\<close>

theorem validateExercise_accepts_exactly:
  "(\<exists>data. validateExercise valid_regex data = Inr e) \<longleftrightarrow> exercise_ok valid_regex e"
  using validateExercise_ok validateExercise_printed by blast

end
