(* ===== verification/ExerciseChecker.thy ===== *)
theory ExerciseChecker
  imports ExerciseSchema TerminalInput
begin

text \<open>
  The exercise grader: \<open>web/lib/content/exercise-checker.ts\<close>, and the run of the hidden cases in
  \<open>ExerciseView.tsx\<close>.  Result assertions read a snapshot of the machine, structural ones the source
  without its comments, and a hidden case the outcome of a headless run.

  Parameters: \<open>regex\<close>, the engine of regular expressions (\<open>None\<close> for a pattern that does not
  compile), and \<open>show_number\<close>, the text of a Number that is no integer up to 2^53.  Regular
  expressions that the source itself writes are spelled out as scans.
\<close>

subsection \<open>Snapshots and results\<close>

record CheckerSnapshot =
  cs_registers :: "jstring list"
  cs_sp :: jstring
  cs_exitCode :: "int option"
  cs_stdout :: jstring

record ResultCheck =
  rc_assertion :: ResultAssertion
  rc_pass :: bool
  rc_expected :: jstring
  rc_actual :: jstring

record StructuralCheck =
  sk_assertion :: StructuralAssertion
  sk_pass :: bool
  sk_found :: "jstring option"
  sk_scopeMissing :: bool

record CheckResult =
  cr_pass :: bool
  cr_results :: "ResultCheck list"
  cr_structural :: "StructuralCheck list"
  cr_summary :: jstring

definition MAX_DISPLAY :: nat where "MAX_DISPLAY = 200"

definition NO_EXIT :: jstring where "NO_EXIT = ''none (the program did not finish)''"

subsection \<open>Comments, strings and labels\<close>

abbreviation dquote :: char where "dquote \<equiv> CHR 0x22"
abbreviation backslash :: char where "backslash \<equiv> CHR 0x5C"

text \<open>What follows a string literal, from behind its opening quote and from the quote.\<close>

fun literal_rest :: "jstring \<Rightarrow> jstring option" where
  "literal_rest [] = None"
| "literal_rest (c # cs) =
     (if c = dquote then Some cs
      else if c = newline then None
      else if c = backslash then
        (case cs of [] \<Rightarrow> None | d # ds \<Rightarrow> if is_newline d then None else literal_rest ds)
      else literal_rest cs)"

definition STRING_LITERAL :: "jstring \<Rightarrow> jstring option" where
  "STRING_LITERAL s = (if s \<noteq> [] \<and> hd s = dquote then literal_rest (tl s) else None)"

lemma literal_rest_shorter: "literal_rest s = Some r \<Longrightarrow> length r < length s"
  by (induction s rule: literal_rest.induct) (auto split: if_splits list.splits)

lemma STRING_LITERAL_shorter: "STRING_LITERAL s = Some r \<Longrightarrow> length r < length s"
  by (cases s) (auto simp: STRING_LITERAL_def dest!: literal_rest_shorter split: if_splits)

text \<open>The piece at the head of a text: what is kept of it and what follows it.\<close>

definition next_piece :: "jstring \<Rightarrow> jstring \<times> jstring" where
  "next_piece s =
     (case STRING_LITERAL s of
        Some r \<Rightarrow> (take (length s - length r) s, r)
      | None \<Rightarrow>
          if starts_with ''/*'' s \<and> after_close (drop 2 s) \<noteq> None then ('' '', the (after_close (drop 2 s)))
          else if starts_with ''//'' s then ([], dropWhile (\<lambda>c. c \<noteq> newline) s)
          else ([hd s], tl s))"

lemma next_piece_shorter: "next_piece (c # cs) = (out, rest) \<Longrightarrow> length rest < Suc (length cs)"
proof -
  assume np: "next_piece (c # cs) = (out, rest)"
  have d: "length (dropWhile (\<lambda>c. c \<noteq> newline) (c # cs)) < Suc (length cs)" if "c = CHR ''/''"
    using that length_dropWhile_le [of "\<lambda>c. c \<noteq> newline" cs] by (simp add: le_imp_less_Suc)
  have a: "length r < Suc (length cs)" if "after_close (drop (Suc 0) cs) = Some r" for r
    using after_close_shorter [OF that] by simp
  show ?thesis
    using np d a by (auto simp: next_piece_def dest: STRING_LITERAL_shorter split: option.splits if_splits)
qed

function stripComments :: "jstring \<Rightarrow> jstring" where
  "stripComments [] = []"
| "stripComments (c # cs) = (case next_piece (c # cs) of (out, rest) \<Rightarrow> out @ stripComments rest)"
  by pat_completeness auto
termination by (relation "measure length") (auto dest!: next_piece_shorter [OF sym])

text \<open>\<open>replace(new RegExp(STRING_LITERAL, "g"), '""')\<close>.\<close>

function empty_literals :: "jstring \<Rightarrow> jstring" where
  "empty_literals [] = []"
| "empty_literals (c # cs) =
     (case STRING_LITERAL (c # cs) of
        Some r \<Rightarrow> dquote # dquote # empty_literals r | None \<Rightarrow> c # empty_literals cs)"
  by pat_completeness auto
termination by (relation "measure length") (auto dest!: STRING_LITERAL_shorter)

text \<open>A label and its colon at the head of a text: the name and what follows.\<close>

definition label_colon :: "jstring \<Rightarrow> (jstring \<times> jstring) option" where
  "label_colon s =
     (let name = takeWhile is_label_char s; rest = drop (length name) s in
      if s \<noteq> [] \<and> is_label_start (hd s) \<and> starts_with '':'' rest then Some (name, tl rest) else None)"

definition is_blank :: "char \<Rightarrow> bool" where
  "is_blank c \<longleftrightarrow> c = CHR '' '' \<or> c = CHR 0x09"

lemma label_colon_shorter: "label_colon s = Some (name, r) \<Longrightarrow> length r < length s"
  by (auto simp: label_colon_def Let_def split: if_splits)

text \<open>The label definition at the start of each line dropped, its indentation kept; the flag says
  whether the text starts a line.\<close>

function drop_labels :: "bool \<Rightarrow> jstring \<Rightarrow> jstring" where
  "drop_labels start [] = []"
| "drop_labels start (c # cs) =
     (case if start then label_colon (dropWhile is_blank (c # cs)) else None of
        Some (name, rest) \<Rightarrow> takeWhile is_blank (c # cs) @ drop_labels False rest
      | None \<Rightarrow> c # drop_labels (is_newline c) cs)"
  by pat_completeness auto
termination
proof (relation "measure (\<lambda>(start, s). length s)")
  fix start c cs p name rest
  assume "(if start then label_colon (dropWhile is_blank (c # cs)) else None) = Some p" "(name, rest) = p"
  then have "length rest < length (dropWhile is_blank (c # cs))"
    by (auto dest!: label_colon_shorter split: if_splits)
  also have "\<dots> \<le> length (c # cs)" by (rule length_dropWhile_le)
  finally show "((False, rest), start, c # cs) \<in> measure (\<lambda>(start, s). length s)" by simp
qed auto

definition instructionText :: "jstring \<Rightarrow> jstring" where
  "instructionText text = drop_labels True (empty_literals text)"

subsection \<open>Standalone tokens\<close>

text \<open>\<open>[\w.]\<close>, and the lookahead that no such character follows.\<close>

definition is_token_char :: "char \<Rightarrow> bool" where
  "is_token_char c \<longleftrightarrow> is_word_char c \<or> c = CHR ''.''"

definition token_ends :: "jstring \<Rightarrow> bool" where
  "token_ends r \<longleftrightarrow> r = [] \<or> \<not> is_token_char (hd r)"

definition token_at :: "jstring \<Rightarrow> jstring \<Rightarrow> bool" where
  "token_at token s \<longleftrightarrow> starts_with (js_lower token) (js_lower s) \<and> token_ends (drop (length token) s)"

text \<open>\<open>(?:^|[^\w.])\<close> before what \<open>P\<close> looks for.\<close>

fun bounded_match :: "bool \<Rightarrow> (jstring \<Rightarrow> bool) \<Rightarrow> jstring \<Rightarrow> bool" where
  "bounded_match ok P [] = (ok \<and> P [])"
| "bounded_match ok P (c # cs) = ((ok \<and> P (c # cs)) \<or> bounded_match (\<not> is_token_char c) P cs)"

definition standaloneTokenRegex :: "jstring \<Rightarrow> jstring \<Rightarrow> bool" where
  "standaloneTokenRegex token text = bounded_match True (token_at token) text"

text \<open>\<open>0x0*\<close> and the digits: some number of the leading zeros, then the digits as a token.\<close>

definition hex_at :: "jstring \<Rightarrow> jstring \<Rightarrow> bool" where
  "hex_at digits s \<longleftrightarrow>
     starts_with ''0x'' (js_lower s) \<and>
     list_ex (\<lambda>k. token_at digits (drop (2 + k) s)) [0 ..< Suc (length (takeWhile (\<lambda>c. c = CHR ''0'') (drop 2 s)))]"

subsection \<open>Feedback\<close>

definition json_char :: "char \<Rightarrow> jstring" where
  "json_char c =
     (if c = dquote then [backslash, dquote] else if c = backslash then [backslash, backslash]
      else if code c = 8 then [backslash, CHR ''b''] else if code c = 9 then [backslash, CHR ''t'']
      else if code c = 10 then [backslash, CHR ''n''] else if code c = 12 then [backslash, CHR ''f'']
      else if code c = 13 then [backslash, CHR ''r'']
      else if code c < 32 then backslash # CHR ''u'' # padStart 4 (CHR ''0'') (nat_to_string 16 (code c))
      else [c])"

definition json_stringify :: "jstring \<Rightarrow> jstring" where
  "json_stringify s = dquote # concat (map json_char s) @ [dquote]"

definition display :: "jstring \<Rightarrow> jstring" where
  "display value =
     json_stringify (if length value > MAX_DISPLAY then js_slice value 0 MAX_DISPLAY @ ''...'' else value)"

definition number_text :: "(rat \<Rightarrow> jstring) \<Rightarrow> rat \<Rightarrow> jstring" where
  "number_text show_number r =
     (case whole r of Some n \<Rightarrow> if \<bar>n\<bar> \<le> 2 ^ 53 then show_int n else show_number r | None \<Rightarrow> show_number r)"

subsection \<open>Result assertions\<close>

text \<open>\<open>BigInt(text)\<close>; \<open>None\<close> where it throws.\<close>

definition digits_value :: "nat \<Rightarrow> jstring \<Rightarrow> int option" where
  "digits_value b s = (if digits_only b s then Some (int (of_digits b s)) else None)"

definition BigInt :: "jstring \<Rightarrow> int option" where
  "BigInt text =
     (let s = js_trim text; p = js_lower (take 2 s) in
      if s = [] then Some 0
      else if p = ''0x'' then digits_value 16 (drop 2 s)
      else if p = ''0o'' then digits_value 8 (drop 2 s)
      else if p = ''0b'' then digits_value 2 (drop 2 s)
      else if hd s = CHR ''-'' then map_option uminus (digits_value 10 (tl s))
      else if hd s = CHR ''+'' then digits_value 10 (tl s)
      else digits_value 10 s)"

definition reg_text :: "CheckerSnapshot \<Rightarrow> jstring \<Rightarrow> jstring option" where
  "reg_text snapshot reg =
     (if reg = ''sp'' then Some (cs_sp snapshot)
      else if starts_with ''x'' reg \<and> tl reg \<noteq> [] \<and> list_all is_digit (tl reg) then
        let index = of_digits 10 (tl reg) in
        if index \<le> 30 then nth_opt (cs_registers snapshot) index else None
      else None)"

definition parseReg64 :: "CheckerSnapshot \<Rightarrow> jstring \<Rightarrow> int option" where
  "parseReg64 snapshot reg = Option.bind (reg_text snapshot reg) BigInt"

definition asUintN64 :: "int \<Rightarrow> int" where
  "asUintN64 v = v mod 2 ^ 64"

definition asIntN64 :: "int \<Rightarrow> int" where
  "asIntN64 v = (let u = v mod 2 ^ 64 in if u \<ge> 2 ^ 63 then u - 2 ^ 64 else u)"

definition evaluateResult ::
    "(jstring \<Rightarrow> (jstring \<Rightarrow> bool) option) \<Rightarrow> (rat \<Rightarrow> jstring) \<Rightarrow> ResultAssertion \<Rightarrow> CheckerSnapshot \<Rightarrow> ResultCheck" where
  "evaluateResult regex show_number assertion snapshot =
     (case assertion of
        RegisterIs reg equals \<Rightarrow>
          let expected = number_text show_number (of_int equals) in
          (case parseReg64 snapshot reg of
             None \<Rightarrow> \<lparr>rc_assertion = assertion, rc_pass = False, rc_expected = expected, rc_actual = ''unavailable''\<rparr>
           | Some value \<Rightarrow>
               \<lparr>rc_assertion = assertion, rc_pass = (asUintN64 value = asUintN64 equals), rc_expected = expected,
                rc_actual = show_int (asIntN64 value)\<rparr>)
      | ExitIs equals \<Rightarrow>
          \<lparr>rc_assertion = assertion, rc_pass = (cs_exitCode snapshot = Some equals),
           rc_expected = number_text show_number (of_int equals),
           rc_actual = (case cs_exitCode snapshot of None \<Rightarrow> NO_EXIT | Some c \<Rightarrow> show_int c)\<rparr>
      | StdoutIs equals \<Rightarrow>
          \<lparr>rc_assertion = assertion, rc_pass = (cs_stdout snapshot = equals), rc_expected = display equals,
           rc_actual = display (cs_stdout snapshot)\<rparr>
      | StdoutMatches pattern \<Rightarrow>
          (case regex pattern of
             None \<Rightarrow> \<lparr>rc_assertion = assertion, rc_pass = False, rc_expected = ''/'' @ pattern @ ''/'',
                      rc_actual = ''(invalid pattern)''\<rparr>
           | Some matches \<Rightarrow>
               \<lparr>rc_assertion = assertion, rc_pass = matches (cs_stdout snapshot), rc_expected = ''/'' @ pattern @ ''/'',
                rc_actual = display (cs_stdout snapshot)\<rparr>))"

subsection \<open>Functions of the source\<close>

definition LABEL_LINE :: "jstring \<Rightarrow> jstring option" where
  "LABEL_LINE line = map_option fst (label_colon (dropWhile is_ws line))"

text \<open>\<open>\s+([A-Za-z_.$][\w.$]*)\<close> at the head of a text: the name and how many characters match.\<close>

definition spaced_name :: "jstring \<Rightarrow> (jstring \<times> nat) option" where
  "spaced_name s =
     (let t = dropWhile is_ws s; name = takeWhile is_label_char t in
      if s \<noteq> [] \<and> is_ws (hd s) \<and> t \<noteq> [] \<and> is_label_start (hd t) then Some (name, length s - length t + length name)
      else None)"

text \<open>A keyword, in either case, and a name: the name and the length of the match.\<close>

definition keyword_name :: "jstring \<Rightarrow> jstring \<Rightarrow> (jstring \<times> nat) option" where
  "keyword_name word s =
     (if starts_with word (js_lower s) then map_option (\<lambda>(name, n). (name, length word + n)) (spaced_name (drop (length word) s))
      else None)"

text \<open>\<open>\bbl\s+...\<close>: the character before, if any, is no word character.\<close>

definition bl_target :: "char option \<Rightarrow> jstring \<Rightarrow> (jstring \<times> nat) option" where
  "bl_target prev s = (if (case prev of None \<Rightarrow> True | Some c \<Rightarrow> \<not> is_word_char c) then keyword_name ''bl'' s else None)"

definition global_name :: "char option \<Rightarrow> jstring \<Rightarrow> (jstring \<times> nat) option" where
  "global_name prev s = (case keyword_name ''.global'' s of Some m \<Rightarrow> Some m | None \<Rightarrow> keyword_name ''.globl'' s)"

text \<open>\<open>matchAll\<close>: the matches from the left, each search going on behind the last one.\<close>

function match_all :: "(char option \<Rightarrow> jstring \<Rightarrow> (jstring \<times> nat) option) \<Rightarrow> char option \<Rightarrow> jstring \<Rightarrow> jstring list" where
  "match_all m prev [] = []"
| "match_all m prev (c # cs) =
     (case m prev (c # cs) of
        Some (name, n) \<Rightarrow> name # match_all m (Some (last (take (max n 1) (c # cs)))) (drop (n - 1) cs)
      | None \<Rightarrow> match_all m (Some c) cs)"
  by pat_completeness auto
termination by (relation "measure (\<lambda>(m, prev, s). length s)") auto

definition functionEntries :: "jstring \<Rightarrow> jstring list" where
  "functionEntries stripped =
     [''main'', ''_start''] @ match_all bl_target None stripped @ match_all global_name None stripped"

definition functionBody :: "jstring \<Rightarrow> jstring \<Rightarrow> jstring option" where
  "functionBody stripped label =
     (let lines = js_split newline stripped in
      case find_index (\<lambda>line. LABEL_LINE line = Some label) lines of
        None \<Rightarrow> None
      | Some start \<Rightarrow>
          let entries = functionEntries stripped;
              next = (\<lambda>line. case LABEL_LINE line of
                        None \<Rightarrow> False | Some name \<Rightarrow> name \<noteq> label \<and> name \<in> set entries);
              stop = (case find_index next (drop (start + 1) lines) of
                        None \<Rightarrow> length lines | Some k \<Rightarrow> start + 1 + k) in
          Some (js_join [newline] (js_slice lines start stop)))"

subsection \<open>Structural assertions\<close>

text \<open>\<open>replace(/[class]+/g, " ")\<close>.\<close>

fun collapse :: "(char \<Rightarrow> bool) \<Rightarrow> jstring \<Rightarrow> jstring" where
  "collapse P [] = []"
| "collapse P (c # cs) =
     (if P c then (if cs \<noteq> [] \<and> P (hd cs) then collapse P cs else CHR '' '' # collapse P cs)
      else c # collapse P cs)"

definition hasInstruction :: "jstring \<Rightarrow> jstring \<Rightarrow> bool" where
  "hasInstruction text mnemonic =
     standaloneTokenRegex (collapse is_ws (js_trim mnemonic)) (collapse is_blank (instructionText text))"

definition literal_present :: "(rat \<Rightarrow> jstring) \<Rightarrow> rat \<Rightarrow> jstring \<Rightarrow> bool" where
  "literal_present show_number value scope =
     (standaloneTokenRegex (number_text show_number value) scope \<or>
      (case whole value of
         Some n \<Rightarrow> n \<ge> 0 \<and> bounded_match True (hex_at (to_string 16 n)) scope
       | None \<Rightarrow> False))"

definition evaluateStructural :: "(rat \<Rightarrow> jstring) \<Rightarrow> StructuralAssertion \<Rightarrow> jstring \<Rightarrow> StructuralCheck" where
  "evaluateStructural show_number assertion strippedSource =
     (case (case st_in assertion of None \<Rightarrow> Some strippedSource | Some label \<Rightarrow> functionBody strippedSource label) of
        None \<Rightarrow> \<lparr>sk_assertion = assertion, sk_pass = False, sk_found = None, sk_scopeMissing = True\<rparr>
      | Some scope \<Rightarrow>
          (case st_kind assertion of
             UsesInstruction mnemonic \<Rightarrow>
               \<lparr>sk_assertion = assertion, sk_pass = hasInstruction scope mnemonic, sk_found = None, sk_scopeMissing = False\<rparr>
           | ForbidsInstruction mnemonics \<Rightarrow>
               let found = find (hasInstruction scope) mnemonics in
               \<lparr>sk_assertion = assertion, sk_pass = (found = None), sk_found = found, sk_scopeMissing = False\<rparr>
           | ForbidsLiteral (NumberValue value) \<Rightarrow>
               \<lparr>sk_assertion = assertion, sk_pass = (\<not> literal_present show_number value scope), sk_found = None,
                sk_scopeMissing = False\<rparr>
           | ForbidsLiteral (StringValue value) \<Rightarrow>
               \<lparr>sk_assertion = assertion, sk_pass = (\<not> js_includes scope value), sk_found = None, sk_scopeMissing = False\<rparr>))"

subsection \<open>Hidden cases\<close>

datatype HiddenMiss = MissAssemble | MissFault | MissUnfinished | MissStdout | MissExit | MissStack | MissFrame

record HiddenCaseCheck =
  hk_pass :: bool
  hk_miss :: "HiddenMiss option"
  hk_detail :: jstring

definition missed :: "HiddenMiss \<Rightarrow> jstring \<Rightarrow> HiddenCaseCheck" where
  "missed miss detail = \<lparr>hk_pass = False, hk_miss = Some miss, hk_detail = detail\<rparr>"

definition checkHiddenCase :: "HiddenCase \<Rightarrow> HiddenRunOutcome \<Rightarrow> HiddenCaseCheck" where
  "checkHiddenCase testCase outcome =
     (if assembleError outcome \<noteq> None then missed MissAssemble (the (assembleError outcome))
      else if ho_error outcome \<noteq> None then missed MissFault (the (ho_error outcome))
      else if \<not> finished outcome then missed MissUnfinished []
      else if ho_stdout outcome \<noteq> hc_stdout testCase then missed MissStdout (display (ho_stdout outcome))
      else if exitCode outcome \<noteq> Some (hc_exitCode testCase) then
        missed MissExit (case exitCode outcome of None \<Rightarrow> NO_EXIT | Some c \<Rightarrow> show_int c)
      else if stackBalanced outcome = Some False then missed MissStack []
      else if \<not> frameIntact outcome then missed MissFrame []
      else \<lparr>hk_pass = True, hk_miss = None, hk_detail = []\<rparr>)"

text \<open>\<open>runHiddenCases\<close> of \<open>ExerciseView.tsx\<close>: one machine for all the cases, one after the other.\<close>

fun runHiddenCases ::
    "'w HeadlessMachine \<Rightarrow> ('w \<Rightarrow> 'w) \<Rightarrow> jstring \<Rightarrow> HiddenCase list \<Rightarrow> 'w \<Rightarrow> (HiddenCaseCheck list \<times> 'w) option" where
  "runHiddenCases machine nextTask source [] w = Some ([], w)"
| "runHiddenCases machine nextTask source (testCase # rest) w =
     (case runHeadless machine nextTask source (parseArgs (case_option [] (\<lambda>a. a) (hc_args testCase))) (hc_stdin testCase) [] w of
        None \<Rightarrow> None
      | Some (outcome, w1) \<Rightarrow>
          (case runHiddenCases machine nextTask source rest w1 of
             None \<Rightarrow> None
           | Some (checks, w2) \<Rightarrow> Some (checkHiddenCase testCase outcome # checks, w2)))"

subsection \<open>checkExercise\<close>

definition checkExercise ::
    "(jstring \<Rightarrow> (jstring \<Rightarrow> bool) option) \<Rightarrow> (rat \<Rightarrow> jstring) \<Rightarrow> Acceptance \<Rightarrow> CheckerSnapshot \<Rightarrow> jstring \<Rightarrow> CheckResult" where
  "checkExercise regex show_number acceptance snapshot source =
     (let results = map (\<lambda>a. evaluateResult regex show_number a snapshot) (ac_results acceptance);
          stripped = stripComments source;
          structural = map (\<lambda>a. evaluateStructural show_number a stripped)
                         (case ac_structural acceptance of None \<Rightarrow> [] | Some as \<Rightarrow> as);
          total = length results + length structural;
          failed = length (filter (\<lambda>c. \<not> rc_pass c) results) + length (filter (\<lambda>c. \<not> sk_pass c) structural);
          pass = (failed = 0) in
      \<lparr>cr_pass = pass, cr_results = results, cr_structural = structural,
       cr_summary = (if pass then ''all checks passed''
                     else show_int (int (total - failed)) @ '' of '' @ show_int (int total) @ '' checks passing'')\<rparr>)"

subsection \<open>Tokens, declaratively\<close>

definition occurs_as_token :: "jstring \<Rightarrow> jstring \<Rightarrow> bool" where
  "occurs_as_token token text \<longleftrightarrow>
     (\<exists>pre t post. text = pre @ t @ post \<and> js_lower t = js_lower token \<and>
        (pre = [] \<or> \<not> is_token_char (last pre)) \<and> (post = [] \<or> \<not> is_token_char (hd post)))"

lemma bounded_match_iff:
  "bounded_match ok P s \<longleftrightarrow> (ok \<and> P s) \<or> (\<exists>pre c post. s = pre @ c # post \<and> \<not> is_token_char c \<and> P post)"
proof (induction s arbitrary: ok)
  case (Cons d s)
  have "(\<exists>pre c post. d # s = pre @ c # post \<and> \<not> is_token_char c \<and> P post) \<longleftrightarrow>
      (\<not> is_token_char d \<and> P s) \<or> (\<exists>pre c post. s = pre @ c # post \<and> \<not> is_token_char c \<and> P post)"
    by (auto simp: Cons_eq_append_conv)
  then show ?case using Cons.IH [of "\<not> is_token_char d"] by auto
qed simp

lemma token_at_iff: "token_at token s \<longleftrightarrow> (\<exists>t post. s = t @ post \<and> js_lower t = js_lower token \<and> token_ends post)"
proof
  assume a: "token_at token s"
  then obtain r where r: "js_lower s = js_lower token @ r" by (auto simp: token_at_def starts_with_iff)
  then have "take (length token) (js_lower s) = js_lower token" by (simp add: js_lower_def)
  then have "js_lower (take (length token) s) = js_lower token" by (simp add: js_lower_def take_map)
  then show "\<exists>t post. s = t @ post \<and> js_lower t = js_lower token \<and> token_ends post"
    using a by (metis append_take_drop_id token_at_def)
next
  assume "\<exists>t post. s = t @ post \<and> js_lower t = js_lower token \<and> token_ends post"
  then obtain t post where t: "s = t @ post" "js_lower t = js_lower token" "token_ends post" by blast
  then have "length t = length token" by (metis js_lower_def length_map)
  then show "token_at token s"
    using t starts_with_append [of "js_lower token" "js_lower post"]
    by (simp add: token_at_def) (simp add: js_lower_def)
qed

lemma standaloneTokenRegex_iff: "standaloneTokenRegex token text \<longleftrightarrow> occurs_as_token token text"
proof
  assume "standaloneTokenRegex token text"
  then consider "token_at token text"
    | pre c post where "text = pre @ c # post" "\<not> is_token_char c" "token_at token post"
    by (auto simp: standaloneTokenRegex_def bounded_match_iff)
  then show "occurs_as_token token text"
  proof cases
    case 1
    then obtain t r where "text = [] @ t @ r \<and> js_lower t = js_lower token \<and> (r = [] \<or> \<not> is_token_char (hd r))"
      by (auto simp: token_at_iff token_ends_def)
    then show ?thesis unfolding occurs_as_token_def by blast
  next
    case 2
    then obtain t r where "post = t @ r" "js_lower t = js_lower token" "token_ends r" by (auto simp: token_at_iff)
    then have "text = (pre @ [c]) @ t @ r \<and> js_lower t = js_lower token \<and>
        (pre @ [c] = [] \<or> \<not> is_token_char (last (pre @ [c]))) \<and> (r = [] \<or> \<not> is_token_char (hd r))"
      using 2 by (simp add: token_ends_def)
    then show ?thesis unfolding occurs_as_token_def by blast
  qed
next
  assume "occurs_as_token token text"
  then obtain pre t post where o: "text = pre @ t @ post" "js_lower t = js_lower token"
    "pre = [] \<or> \<not> is_token_char (last pre)" "token_ends post"
    by (auto simp: occurs_as_token_def token_ends_def)
  then have at: "token_at token (t @ post)" by (auto simp: token_at_iff)
  show "standaloneTokenRegex token text"
  proof (cases pre rule: rev_cases)
    case Nil
    then show ?thesis using o at by (simp add: standaloneTokenRegex_def bounded_match_iff)
  next
    case (snoc p c)
    then have "text = p @ c # t @ post" "\<not> is_token_char c" using o by auto
    then show ?thesis using at unfolding standaloneTokenRegex_def bounded_match_iff by blast
  qed
qed

subsection \<open>Registers\<close>

lemma BigInt_formatWord64: "BigInt (formatWord64 v) = Some (v mod 2 ^ 64)"
proof -
  let ?d = "padStart 16 (CHR ''0'') (nat_to_string 16 (nat (v mod 2 ^ 64)))"
  have f: "formatWord64 v = ''0x'' @ ?d" by (simp add: formatWord64_def MASK_64_mod to_string_nonneg)
  have d: "digits_only 16 ?d" by (rule hex.digits_only_padded)
  have "js_trim (''0x'' @ ?d) = ''0x'' @ ?d" by (rule trim_hex_text [OF d])
  then show ?thesis
    using d by (simp add: BigInt_def f digits_value_def hex.of_digits_to_string js_lower_def lower_char_def is_upper_def code_def)
qed

lemma is_digit_val:
  assumes "is_digit c"
  obtains d where "digit_val c = Some d" "d \<le> 9"
proof -
  obtain d where "digit_val c = Some d" "d < 10"
    using assms by (auto simp: is_digit_in_10 [symmetric] is_digit_in_def split: option.splits)
  then show thesis using that by simp
qed

lemma REGISTER_PATTERN_cases:
  assumes "REGISTER_PATTERN reg" "reg \<noteq> ''sp''"
  shows "starts_with ''x'' reg \<and> tl reg \<noteq> [] \<and> list_all is_digit (tl reg) \<and> of_digits 10 (tl reg) \<le> 30"
proof -
  have x: "starts_with ''x'' reg" using assms by (simp add: REGISTER_PATTERN_def)
  consider d where "tl reg = [d]" "is_digit d"
    | t d where "tl reg = [t, d]" "t = CHR ''1'' \<or> t = CHR ''2''" "is_digit d"
    | "tl reg = ''30''"
    using assms unfolding REGISTER_PATTERN_def by (auto split: list.splits)
  then show ?thesis
  proof cases
    case 1
    then show ?thesis using x by (auto simp: of_digits_def elim!: is_digit_val)
  next
    case 2
    have t: "is_digit t" "digit_val t = Some 1 \<or> digit_val t = Some 2"
      using 2 by (auto simp: is_digit_def digit_val_def code_def)
    show ?thesis using 2 t x by (auto simp: of_digits_def elim!: is_digit_val)
  next
    case 3
    then show ?thesis using x by (simp add: of_digits_def is_digit_def digit_val_def code_def)
  qed
qed

text \<open>The snapshot of a machine whose registers hold the given values.\<close>

definition snapshot_of :: "int list \<Rightarrow> int \<Rightarrow> int option \<Rightarrow> jstring \<Rightarrow> CheckerSnapshot" where
  "snapshot_of regs sp exit out =
     \<lparr>cs_registers = map formatWord64 regs, cs_sp = formatWord64 sp, cs_exitCode = exit, cs_stdout = out\<rparr>"

definition register_value :: "int list \<Rightarrow> int \<Rightarrow> jstring \<Rightarrow> int" where
  "register_value regs sp reg = (if reg = ''sp'' then sp else regs ! of_digits 10 (tl reg))"

lemma parseReg64_snapshot:
  assumes "REGISTER_PATTERN reg" "length regs = 31"
  shows "parseReg64 (snapshot_of regs sp exit out) reg = Some (register_value regs sp reg mod 2 ^ 64)"
proof (cases "reg = ''sp''")
  case False
  note r = REGISTER_PATTERN_cases [OF assms(1) False]
  show ?thesis
    using r False assms(2)
    by (simp add: parseReg64_def reg_text_def snapshot_of_def register_value_def BigInt_formatWord64 nth_opt_conv)
qed (simp add: parseReg64_def reg_text_def snapshot_of_def register_value_def BigInt_formatWord64)

subsection \<open>What passing means\<close>

fun result_holds :: "(jstring \<Rightarrow> (jstring \<Rightarrow> bool) option) \<Rightarrow> int list \<Rightarrow> int \<Rightarrow> int option \<Rightarrow> jstring \<Rightarrow> ResultAssertion \<Rightarrow> bool" where
  "result_holds regex regs sp exit out (RegisterIs reg n) = (register_value regs sp reg mod 2 ^ 64 = n mod 2 ^ 64)"
| "result_holds regex regs sp exit out (ExitIs n) = (exit = Some n)"
| "result_holds regex regs sp exit out (StdoutIs s) = (out = s)"
| "result_holds regex regs sp exit out (StdoutMatches p) = (\<exists>matches. regex p = Some matches \<and> matches out)"

definition scope_of :: "jstring option \<Rightarrow> jstring \<Rightarrow> jstring option" where
  "scope_of label stripped = (case label of None \<Rightarrow> Some stripped | Some l \<Rightarrow> functionBody stripped l)"

definition instruction_in :: "jstring \<Rightarrow> jstring \<Rightarrow> bool" where
  "instruction_in scope mnemonic \<longleftrightarrow>
     occurs_as_token (collapse is_ws (js_trim mnemonic)) (collapse is_blank (instructionText scope))"

fun kind_holds :: "(rat \<Rightarrow> jstring) \<Rightarrow> jstring \<Rightarrow> StructuralKind \<Rightarrow> bool" where
  "kind_holds show_number scope (UsesInstruction m) = instruction_in scope m"
| "kind_holds show_number scope (ForbidsInstruction ms) = (\<forall>m \<in> set ms. \<not> instruction_in scope m)"
| "kind_holds show_number scope (ForbidsLiteral (NumberValue v)) =
     (\<not> occurs_as_token (number_text show_number v) scope \<and>
      (\<forall>n k. v = of_int n \<and> 0 \<le> n \<longrightarrow>
         \<not> occurs_as_token (''0x'' @ replicate k (CHR ''0'') @ to_string 16 n) scope))"
| "kind_holds show_number scope (ForbidsLiteral (StringValue s)) = (\<nexists>pre post. scope = pre @ s @ post)"

definition structural_holds :: "(rat \<Rightarrow> jstring) \<Rightarrow> jstring \<Rightarrow> StructuralAssertion \<Rightarrow> bool" where
  "structural_holds show_number stripped a \<longleftrightarrow>
     (\<exists>scope. scope_of (st_in a) stripped = Some scope \<and> kind_holds show_number scope (st_kind a))"

lemma evaluateResult_pass:
  assumes "result_ok (\<lambda>p. regex p \<noteq> None) a" "length regs = 31"
  shows "rc_pass (evaluateResult regex show_number a (snapshot_of regs sp exit out)) \<longleftrightarrow> result_holds regex regs sp exit out a"
proof (cases a)
  case (RegisterIs reg n)
  then have "parseReg64 (snapshot_of regs sp exit out) reg = Some (register_value regs sp reg mod 2 ^ 64)"
    using assms by (intro parseReg64_snapshot) auto
  then show ?thesis using RegisterIs by (simp add: evaluateResult_def asUintN64_def)
qed (use assms in \<open>auto simp: evaluateResult_def snapshot_of_def\<close>)

lemma hasInstruction_iff: "hasInstruction scope m \<longleftrightarrow> instruction_in scope m"
  by (simp add: hasInstruction_def instruction_in_def standaloneTokenRegex_iff)

lemma whole_eq: "whole v = Some n \<longleftrightarrow> v = of_int n"
  by (auto simp: whole_def)

lemma token_at_append: "token_at (u @ v) s \<longleftrightarrow> (\<exists>a b. s = a @ b \<and> js_lower a = js_lower u \<and> token_at v b)"
proof
  assume "token_at (u @ v) s"
  then obtain t post where t: "s = t @ post" "map lower_char t = map lower_char u @ map lower_char v" "token_ends post"
    by (auto simp: token_at_iff js_lower_def)
  then obtain a b where ab: "t = a @ b" "map lower_char a = map lower_char u" "map lower_char b = map lower_char v"
    by (auto simp: map_eq_append_conv)
  then have "s = a @ (b @ post) \<and> js_lower a = js_lower u \<and> token_at v (b @ post)"
    using t by (auto simp: js_lower_def token_at_iff)
  then show "\<exists>a b. s = a @ b \<and> js_lower a = js_lower u \<and> token_at v b" by blast
next
  assume "\<exists>a b. s = a @ b \<and> js_lower a = js_lower u \<and> token_at v b"
  then obtain a t post where "s = a @ t @ post" "js_lower a = js_lower u" "js_lower t = js_lower v" "token_ends post"
    by (auto simp: token_at_iff)
  then have "s = (a @ t) @ post \<and> js_lower (a @ t) = js_lower (u @ v) \<and> token_ends post"
    by (simp add: js_lower_def)
  then show "token_at (u @ v) s" unfolding token_at_iff by blast
qed

lemma lower_char_zero: "lower_char c = CHR ''0'' \<longleftrightarrow> c = CHR ''0''"
proof
  assume l: "lower_char c = CHR ''0''"
  show "c = CHR ''0''"
  proof (cases "is_upper c \<or> (192 \<le> code c \<and> code c \<le> 222 \<and> code c \<noteq> 215)")
    case True
    then have "code c + 32 < 256" "65 \<le> code c" by (auto simp: is_upper_def)
    moreover have "char_of (code c + 32) = CHR ''0''" using l True by (simp only: lower_char_def if_True)
    then have "of_char (char_of (code c + 32)) = (48 :: nat)" by simp
    then have "(code c + 32) mod 256 = 48" by (simp only: of_char_of)
    ultimately show ?thesis by simp
  next
    case False
    then show ?thesis using l unfolding lower_char_def by (simp only: if_False)
  qed
qed (simp add: lower_char_def is_upper_def code_def)

lemma js_lower_zeros: "js_lower a = js_lower (replicate k (CHR ''0'')) \<longleftrightarrow> a = replicate k (CHR ''0'')"
proof (induction k arbitrary: a)
  case (Suc k)
  then show ?case by (cases a) (auto simp: js_lower_def lower_char_zero lower_char_zero [THEN iffD2, OF refl])
qed (simp add: js_lower_def)

lemma token_at_zeros: "token_at (replicate k (CHR ''0'') @ d) b \<longleftrightarrow> (\<exists>r. b = replicate k (CHR ''0'') @ r \<and> token_at d r)"
  unfolding token_at_append js_lower_zeros by blast

lemma leading_zeros:
  "(\<exists>r. b = replicate k (CHR ''0'') @ r \<and> P r) \<longleftrightarrow> k \<le> length (takeWhile (\<lambda>c. c = CHR ''0'') b) \<and> P (drop k b)"
proof (induction k arbitrary: b)
  case (Suc k)
  then show ?case by (cases b) auto
qed simp

lemma hex_at_iff: "hex_at digits s \<longleftrightarrow> (\<exists>k. token_at (''0x'' @ replicate k (CHR ''0'') @ digits) s)"
proof -
  have p: "js_lower ''0x'' = ''0x''" by (simp add: js_lower_def lower_char_def is_upper_def code_def)
  have split2: "(\<exists>a b. s = a @ b \<and> js_lower a = ''0x'' \<and> Q b) \<longleftrightarrow> starts_with ''0x'' (js_lower s) \<and> Q (drop 2 s)" for Q
  proof
    assume "\<exists>a b. s = a @ b \<and> js_lower a = ''0x'' \<and> Q b"
    then obtain a b where a: "s = a @ b" "js_lower a = ''0x''" "Q b" by blast
    then have "length a = 2" by (metis js_lower_def length_map length_Cons list.size(3) numeral_2_eq_2)
    then show "starts_with ''0x'' (js_lower s) \<and> Q (drop 2 s)"
      using a starts_with_append [of "''0x''" "js_lower b"] by (simp add: js_lower_def)
  next
    assume r: "starts_with ''0x'' (js_lower s) \<and> Q (drop 2 s)"
    then have "js_lower (take 2 s) = ''0x''"
      by (auto simp: starts_with_iff js_lower_def take_map [symmetric])
    then show "\<exists>a b. s = a @ b \<and> js_lower a = ''0x'' \<and> Q b" using r by (metis append_take_drop_id)
  qed
  show ?thesis
    unfolding token_at_append [of "''0x''"] p split2 token_at_zeros leading_zeros hex_at_def
    unfolding list_ex_iff drop_drop
    by (auto simp: less_Suc_eq_le add.commute simp del: upt_Suc)
qed

lemma bounded_hex_iff:
  "bounded_match True (hex_at digits) scope \<longleftrightarrow> (\<exists>k. occurs_as_token (''0x'' @ replicate k (CHR ''0'') @ digits) scope)"
  unfolding standaloneTokenRegex_iff [symmetric] standaloneTokenRegex_def bounded_match_iff hex_at_iff by blast

lemma literal_present_iff:
  "literal_present show_number v scope \<longleftrightarrow>
     \<not> kind_holds show_number scope (ForbidsLiteral (NumberValue v))"
proof (cases "whole v")
  case None
  then have "v \<noteq> of_int n" for n using whole_eq [of v n] by simp
  then show ?thesis using None by (simp add: literal_present_def standaloneTokenRegex_iff)
next
  case (Some n)
  then have v: "v = of_int n" using whole_eq [of v n] by simp
  then show ?thesis using Some by (auto simp: literal_present_def standaloneTokenRegex_iff bounded_hex_iff)
qed

lemma evaluateStructural_pass: "sk_pass (evaluateStructural show_number a stripped) \<longleftrightarrow> structural_holds show_number stripped a"
proof -
  have f: "find (hasInstruction scope) ms = None \<longleftrightarrow> (\<forall>m \<in> set ms. \<not> instruction_in scope m)" for scope ms
    by (auto simp: find_None_iff hasInstruction_iff)
  show ?thesis
    by (auto simp: evaluateStructural_def structural_holds_def scope_of_def f hasInstruction_iff literal_present_iff
        js_includes_iff Let_def simp del: kind_holds.simps(3) split: option.splits StructuralKind.splits number_or_string.splits)
qed

subsection \<open>Comments do not count\<close>

text \<open>A text that ends between two pieces: no literal, comment or slash is left open.\<close>

definition closed_piece :: "jstring \<Rightarrow> bool" where
  "closed_piece s \<longleftrightarrow>
     STRING_LITERAL s \<noteq> None \<or>
     (starts_with ''/*'' s \<and> after_close (drop 2 s) \<noteq> None) \<or>
     (starts_with ''//'' s \<and> newline \<in> set s) \<or>
     (hd s \<noteq> dquote \<and> hd s \<noteq> CHR ''/'') \<or>
     (hd s = CHR ''/'' \<and> tl s \<noteq> [] \<and> hd (tl s) \<noteq> CHR ''/'' \<and> hd (tl s) \<noteq> CHR ''*'')"

function closed_text :: "jstring \<Rightarrow> bool" where
  "closed_text [] = True"
| "closed_text (c # cs) = (closed_piece (c # cs) \<and> closed_text (snd (next_piece (c # cs))))"
  by pat_completeness auto
termination
  by (relation "measure length") (auto intro: next_piece_shorter [OF surjective_pairing])

lemma literal_rest_append: "literal_rest s = Some r \<Longrightarrow> literal_rest (s @ b) = Some (r @ b)"
  by (induction s rule: literal_rest.induct) (auto split: if_splits list.splits)

lemma STRING_LITERAL_append: "STRING_LITERAL s = Some r \<Longrightarrow> STRING_LITERAL (s @ b) = Some (r @ b)"
  by (cases s) (auto simp: STRING_LITERAL_def literal_rest_append split: if_splits)

lemma after_close_append: "after_close s = Some r \<Longrightarrow> after_close (s @ b) = Some (r @ b)"
proof (induction s)
  case (Cons c cs)
  show ?case
  proof (cases cs)
    case Nil
    then show ?thesis using Cons by simp
  next
    case (Cons d ds)
    then show ?thesis using Cons.prems Cons.IH by (auto split: if_splits)
  qed
qed simp

lemma next_piece_plain:
  "STRING_LITERAL s = None \<Longrightarrow> \<not> (starts_with ''/*'' s \<and> after_close (drop 2 s) \<noteq> None) \<Longrightarrow> \<not> starts_with ''//'' s \<Longrightarrow>
   next_piece s = ([hd s], tl s)"
  unfolding next_piece_def by (simp only: option.case if_False)

lemma next_piece_append:
  assumes "s \<noteq> []" "closed_piece s" "next_piece s = (out, rest)"
  shows "next_piece (s @ b) = (out, rest @ b)"
proof (cases "STRING_LITERAL s")
  case (Some r)
  have "length r < length s" using STRING_LITERAL_shorter [OF Some] .
  then show ?thesis using assms(3) Some STRING_LITERAL_append [OF Some] by (auto simp: next_piece_def)
next
  case None
  then have q: "hd s = dquote \<Longrightarrow> False"
    using assms(1,2) by (cases s) (auto simp: closed_piece_def)
  then have n: "STRING_LITERAL (s @ b) = None" using assms(1) by (auto simp: STRING_LITERAL_def)
  obtain c cs where s: "s = c # cs" using assms(1) by (cases s) auto
  show ?thesis
  proof (cases "starts_with ''/*'' s \<and> after_close (drop 2 s) \<noteq> None")
    case True
    then obtain r where "after_close (drop 2 s) = Some r" "length s \<ge> 2" by (auto simp: starts_with_iff)
    moreover have "starts_with ''/*'' (s @ b)" using True by (auto simp: starts_with_iff)
    ultimately show ?thesis using assms(3) None n after_close_append [of "drop 2 s"] True by (auto simp: next_piece_def)
  next
    case False
    show ?thesis
    proof (cases "starts_with ''//'' s")
      case True
      then have nl: "newline \<in> set s" using False None q s assms(2) by (cases cs) (auto simp: closed_piece_def)
      have "starts_with ''//'' (s @ b)" "\<not> starts_with ''/*'' (s @ b)" using True by (auto simp: starts_with_iff)
      moreover have "dropWhile (\<lambda>c. c \<noteq> newline) (s @ b) = dropWhile (\<lambda>c. c \<noteq> newline) s @ b"
        using nl by (intro dropWhile_append1) auto
      ultimately show ?thesis using assms(3) None n True False by (auto simp: next_piece_def split: if_splits)
    next
      case no: False
      then have "c \<noteq> CHR ''/'' \<or> (\<exists>d ds. cs = d # ds \<and> d \<noteq> CHR ''/'' \<and> d \<noteq> CHR ''*'')"
        using assms(2) None False s by (cases cs) (auto simp: closed_piece_def)
      then have "\<not> starts_with ''//'' (s @ b)" "\<not> starts_with ''/*'' (s @ b)" using s by auto
      then have "next_piece (s @ b) = ([hd s], tl s @ b)" using next_piece_plain [OF n] s by (metis append_Cons list.sel)
      moreover have "next_piece s = ([hd s], tl s)" using next_piece_plain [OF None _ no] False by blast
      ultimately show ?thesis using assms(3) by simp
    qed
  qed
qed

lemma stripComments_append: "closed_text a \<Longrightarrow> stripComments (a @ b) = stripComments a @ stripComments b"
proof (induction a rule: closed_text.induct)
  case (2 c cs)
  obtain out rest where p: "next_piece (c # cs) = (out, rest)" by fastforce
  have "next_piece (c # cs @ b) = (out, rest @ b)"
    using next_piece_append [of "c # cs" out rest b] "2.prems" p by simp
  then show ?case using "2.IH" "2.prems" p by simp
qed simp

lemma after_close_body: "\<not> js_includes d ''*/'' \<Longrightarrow> after_close (d @ ''*/'' @ b) = Some b"
proof (induction d)
  case (Cons c d)
  then have n: "\<not> starts_with ''*/'' (c # d @ ''*/'' @ b)" by (cases d) auto
  have "after_close (c # d @ ''*/'' @ b) = after_close (d @ ''*/'' @ b)" by (simp only: after_close.simps n if_False)
  then show ?case using Cons by simp
qed simp

lemma stripComments_line: "newline \<notin> set c \<Longrightarrow> stripComments (''//'' @ c @ newline # b) = stripComments (newline # b)"
proof -
  assume "newline \<notin> set c"
  then have "dropWhile (\<lambda>c. c \<noteq> newline) (''//'' @ c @ newline # b) = newline # b"
    by (induction c) auto
  then have "next_piece (''//'' @ c @ newline # b) = ([], newline # b)"
    by (simp add: next_piece_def STRING_LITERAL_def)
  then show ?thesis by simp
qed

lemma stripComments_block: "\<not> js_includes d ''*/'' \<Longrightarrow> stripComments (''/*'' @ d @ ''*/'' @ b) = stripComments ('' '' @ b)"
proof -
  assume "\<not> js_includes d ''*/''"
  then have "next_piece (''/*'' @ d @ ''*/'' @ b) = ('' '', b)"
    by (simp add: next_piece_def STRING_LITERAL_def after_close_body [simplified])
  moreover have "next_piece ('' '' @ b) = ('' '', b)" by (simp add: next_piece_def STRING_LITERAL_def)
  ultimately show ?thesis by simp
qed

definition demo_write :: WriteFields where
  "demo_write =
     \<lparr>wf_starter = [], wf_acceptance = \<lparr>ac_results = [RegisterIs ''x0'' (- 1), ExitIs 3],
        ac_structural = Some [\<lparr>st_kind = ForbidsLiteral (StringValue ''mul''), st_in = None\<rparr>]\<rparr>,
      wf_args = None, wf_stdin = None, wf_hiddenCases = None\<rparr>"

lemma checkExercise_cong:
  "stripComments s = stripComments t \<Longrightarrow> checkExercise regex show_number acc snap s = checkExercise regex show_number acc snap t"
  by (simp add: checkExercise_def)

text \<open>The text of a comment never changes a verdict.  Behind any text that leaves no string,
  comment or slash open, a line comment may be deleted and a block comment replaced by a blank
  without changing anything \<open>checkExercise\<close> reports: a mnemonic, number or string that stands only
  in a comment neither counts nor trips a ban.\<close>

theorem comments_do_not_count:
  assumes "closed_text a"
  shows "(newline \<notin> set c \<longrightarrow>
      checkExercise regex show_number acc snap (a @ ''//'' @ c @ newline # b) =
      checkExercise regex show_number acc snap (a @ newline # b)) \<and>
    (\<not> js_includes d ''*/'' \<longrightarrow>
      checkExercise regex show_number acc snap (a @ ''/*'' @ d @ ''*/'' @ b) =
      checkExercise regex show_number acc snap (a @ '' '' @ b))"
  by (intro conjI impI checkExercise_cong)
    (simp_all only: stripComments_append [OF assms] stripComments_line stripComments_block not_False_eq_True)

theorem comments_do_not_count_witness:
  "closed_text ''mov x0, 1'' \<and>
   checkExercise (\<lambda>_. None) (\<lambda>_. []) (wf_acceptance demo_write) (snapshot_of [] 0 None []) (''mov x0, 1'' @ ''//'' @ '' mul'' @ newline # ''ret'') =
   checkExercise (\<lambda>_. None) (\<lambda>_. []) (wf_acceptance demo_write) (snapshot_of [] 0 None []) (''mov x0, 1'' @ newline # ''ret'')"
proof -
  have "closed_text ''mov x0, 1''"
    by (simp add: closed_piece_def next_piece_def STRING_LITERAL_def)
  then show ?thesis using comments_do_not_count [of "''mov x0, 1''" "'' mul''"] by simp
qed

text \<open>C16: for a validated coding exercise and the snapshot of a machine with the given register
  values, \<open>checkExercise\<close> passes exactly when every assertion holds: registers modulo 2^64 (so -1
  is the all-ones word), the exit code, the output, and in the named function (or the whole
  source) the asked-for instruction as a whole token, none of the forbidden ones, and no forbidden
  number in decimal or in hexadecimal with any leading zeros.\<close>

theorem checkExercise_passes_iff:
  assumes "write_ok (\<lambda>p. regex p \<noteq> None) f" "length regs = 31"
  shows "cr_pass (checkExercise regex show_number (wf_acceptance f) (snapshot_of regs sp exit out) source) \<longleftrightarrow>
    (\<forall>a \<in> set (ac_results (wf_acceptance f)). result_holds regex regs sp exit out a) \<and>
    (\<forall>as. ac_structural (wf_acceptance f) = Some as \<longrightarrow>
       (\<forall>a \<in> set as. structural_holds show_number (stripComments source) a))"
proof -
  have r: "rc_pass (evaluateResult regex show_number a (snapshot_of regs sp exit out)) \<longleftrightarrow> result_holds regex regs sp exit out a"
    if "a \<in> set (ac_results (wf_acceptance f))" for a
    using assms that by (intro evaluateResult_pass) (auto simp: write_ok_def list_all_iff)
  show ?thesis
    by (cases "ac_structural (wf_acceptance f)") (auto simp: checkExercise_def Let_def filter_empty_conv r evaluateStructural_pass split: option.split)
qed

theorem checkExercise_passes_iff_witness:
  "cr_pass (checkExercise (\<lambda>_. None) (\<lambda>_. []) (wf_acceptance demo_write)
     (snapshot_of (replicate 31 (2 ^ 64 - 1)) 0 (Some 3) []) ''ret // mul'')"
proof -
  have ok: "write_ok (\<lambda>p. (\<lambda>_. None) p \<noteq> (None :: (jstring \<Rightarrow> bool) option)) demo_write"
    by (simp add: write_ok_def demo_write_def REGISTER_PATTERN_def structural_ok_def is_digit_def code_def)
  have strip: "stripComments ''ret // mul'' = ''ret ''"
    by (simp add: next_piece_def STRING_LITERAL_def)
  have "\<not> js_includes ''ret '' ''mul''" by simp
  then have lit: "structural_holds (\<lambda>_. []) ''ret '' \<lparr>st_kind = ForbidsLiteral (StringValue ''mul''), st_in = None\<rparr>"
    by (simp add: structural_holds_def scope_of_def js_includes_iff)
  show ?thesis
    using checkExercise_passes_iff [OF ok, of "replicate 31 (2 ^ 64 - 1)" "\<lambda>_. []" 0 "Some 3" "[]" "''ret // mul''"] strip lit
    by (simp add: demo_write_def register_value_def of_digits_def)
qed

subsection \<open>Hidden cases tell nothing\<close>

text \<open>What a miss may say: a function of the run alone.\<close>

fun miss_detail :: "HiddenMiss option \<Rightarrow> HiddenRunOutcome \<Rightarrow> jstring" where
  "miss_detail (Some MissAssemble) outcome = the (assembleError outcome)"
| "miss_detail (Some MissFault) outcome = the (ho_error outcome)"
| "miss_detail (Some MissStdout) outcome = display (ho_stdout outcome)"
| "miss_detail (Some MissExit) outcome = (case exitCode outcome of None \<Rightarrow> NO_EXIT | Some c \<Rightarrow> show_int c)"
| "miss_detail _ outcome = []"

definition meets :: "HiddenCase \<Rightarrow> HiddenRunOutcome \<Rightarrow> bool" where
  "meets testCase outcome \<longleftrightarrow>
     assembleError outcome = None \<and> ho_error outcome = None \<and> finished outcome \<and>
     ho_stdout outcome = hc_stdout testCase \<and> exitCode outcome = Some (hc_exitCode testCase) \<and>
     stackBalanced outcome \<noteq> Some False \<and> frameIntact outcome"

lemma checkHiddenCase_pass: "hk_pass (checkHiddenCase testCase outcome) \<longleftrightarrow> meets testCase outcome"
  by (auto simp: checkHiddenCase_def meets_def missed_def)

lemma checkHiddenCase_detail:
  "hk_detail (checkHiddenCase testCase outcome) = miss_detail (hk_miss (checkHiddenCase testCase outcome)) outcome"
  by (auto simp: checkHiddenCase_def missed_def)

lemma checkHiddenCase_miss: "hk_miss (checkHiddenCase testCase outcome) = None \<longleftrightarrow> hk_pass (checkHiddenCase testCase outcome)"
  by (auto simp: checkHiddenCase_def missed_def)

text \<open>The runs of the cases, one after the other on the same machine.\<close>

inductive case_runs ::
    "'w HeadlessMachine \<Rightarrow> ('w \<Rightarrow> 'w) \<Rightarrow> jstring \<Rightarrow> 'w \<Rightarrow> HiddenCase list \<Rightarrow> HiddenRunOutcome list \<Rightarrow> 'w \<Rightarrow> bool"
  for machine :: "'w HeadlessMachine" and nextTask :: "'w \<Rightarrow> 'w" and source :: jstring where
  no_case: "case_runs machine nextTask source w [] [] w"
| one_case: "runHeadless machine nextTask source (parseArgs (case_option [] (\<lambda>a. a) (hc_args c))) (hc_stdin c) [] w = Some (out, w1) \<Longrightarrow>
    case_runs machine nextTask source w1 cs outs w2 \<Longrightarrow>
    case_runs machine nextTask source w (c # cs) (out # outs) w2"

lemma runHiddenCases_runs:
  assumes "halt_is_reported machine" "keeps_slice machine"
  shows "\<exists>outs w'. runHiddenCases machine nextTask source cases w = Some (map2 checkHiddenCase cases outs, w') \<and>
    case_runs machine nextTask source w cases outs w' \<and> length outs = length cases"
proof (induction cases arbitrary: w)
  case (Cons c cases)
  obtain out w1 where r: "runHeadless machine nextTask source (parseArgs (case_option [] (\<lambda>a. a) (hc_args c))) (hc_stdin c) [] w = Some (out, w1)"
    using runHeadless_total [OF assms] by blast
  obtain outs w' where i: "runHiddenCases machine nextTask source cases w1 = Some (map2 checkHiddenCase cases outs, w')"
    "case_runs machine nextTask source w1 cases outs w'" "length outs = length cases"
    using Cons.IH by blast
  have "runHiddenCases machine nextTask source (c # cases) w = Some (map2 checkHiddenCase (c # cases) (out # outs), w')"
    using r i(1) by simp
  moreover have "case_runs machine nextTask source w (c # cases) (out # outs) w'" using r i(2) by (rule one_case)
  ultimately show ?case using i(3) by (metis length_Cons)
qed (auto intro: no_case)

text \<open>C17: on a machine whose slices keep their size and whose halt report is true, grading the
  hidden cases returns one verdict per case, from one headless run each.  A case passes exactly
  when its run assembled, did not fault, finished, printed and exited as the case says, left the
  stack balanced and its caller's frame alone; and what is shown of a failed case depends on the
  kind of miss and on the student's own run only, never on the expected values.\<close>

theorem hidden_cases_graded:
  assumes "halt_is_reported machine" "keeps_slice machine"
  shows "\<exists>checks outs w'. runHiddenCases machine nextTask source cases w = Some (checks, w') \<and>
    case_runs machine nextTask source w cases outs w' \<and> length checks = length cases \<and> length outs = length cases \<and>
    (\<forall>i < length cases. (hk_pass (checks ! i) \<longleftrightarrow> meets (cases ! i) (outs ! i)) \<and>
       (hk_miss (checks ! i) = None \<longleftrightarrow> hk_pass (checks ! i)) \<and>
       hk_detail (checks ! i) = miss_detail (hk_miss (checks ! i)) (outs ! i))"
proof -
  obtain outs w' where "runHiddenCases machine nextTask source cases w = Some (map2 checkHiddenCase cases outs, w')"
    "case_runs machine nextTask source w cases outs w'" "length outs = length cases"
    using runHiddenCases_runs [OF assms] by blast
  then show ?thesis
    by (intro exI [of _ "map2 checkHiddenCase cases outs"] exI [of _ outs] exI [of _ w'])
      (simp add: checkHiddenCase_pass checkHiddenCase_miss checkHiddenCase_detail)
qed

theorem hidden_cases_graded_witness:
  "\<exists>checks w'. runHiddenCases demo_machine (\<lambda>w. w) ''main:''
     [\<lparr>hc_stdout = ''hi'', hc_exitCode = 0, hc_args = None, hc_stdin = None, hc_edge = None\<rparr>] 0 = Some (checks, w') \<and>
     length checks = 1"
  using hidden_cases_graded [OF demo_machine_laws, of "\<lambda>w. w" "''main:''"
      "[\<lparr>hc_stdout = ''hi'', hc_exitCode = 0, hc_args = None, hc_stdin = None, hc_edge = None\<rparr>]" 0]
  by auto

end
