(* ===== verification/JsonText.thy ===== *)
theory JsonText
  imports ExerciseChecker
begin

text \<open>
  \<open>JSON.stringify\<close> and \<open>JSON.parse\<close>, through which everything the page saves, shares, exports and
  imports passes, on the JSON values of theory \<open>Json\<close>.

  The text of a Number that is no integer up to 2^53, and the Number such a text denotes, are
  the parameters \<open>show_number\<close> and \<open>read_number\<close>; an escape for a code unit above 255 is refused,
  since it denotes no character of the model.  An object keeps its keys the way JavaScript does:
  a repeated key keeps its place and takes the last value, and keys that are array indices come
  first, in ascending order.  The parser recurses on fuel; \<open>fuel_irrelevant\<close> shows that twice the length
  of the text is enough, so \<open>None\<close> always means that \<open>JSON.parse\<close> throws.
\<close>

subsection \<open>Objects\<close>

fun put_key :: "jstring \<Rightarrow> json \<Rightarrow> (jstring \<times> json) list \<Rightarrow> (jstring \<times> json) list" where
  "put_key k v [] = [(k, v)]"
| "put_key k v ((k', v') # kvs) = (if k = k' then (k, v) # kvs else (k', v') # put_key k v kvs)"

text \<open>A canonical numeric string below 2^32 - 1.\<close>

definition index_key :: "jstring \<Rightarrow> bool" where
  "index_key k \<longleftrightarrow> digits_only 10 k \<and> nat_to_string 10 (of_digits 10 k) = k \<and> of_digits 10 k < 2 ^ 32 - 1"

definition own_order :: "(jstring \<times> json) list \<Rightarrow> (jstring \<times> json) list" where
  "own_order kvs =
     sort_key (\<lambda>(k, v). of_digits 10 k) (filter (\<lambda>(k, v). index_key k) kvs) @ filter (\<lambda>(k, v). \<not> index_key k) kvs"

definition object_of :: "(jstring \<times> json) list \<Rightarrow> (jstring \<times> json) list" where
  "object_of kvs = own_order (fold (\<lambda>(k, v). put_key k v) kvs [])"

subsection \<open>Writing\<close>

fun json_text :: "(rat \<Rightarrow> jstring) \<Rightarrow> json \<Rightarrow> jstring" where
  "json_text sn JNull = ''null''"
| "json_text sn (JBool b) = (if b then ''true'' else ''false'')"
| "json_text sn (JNum r) = number_text sn r"
| "json_text sn (JStr s) = json_stringify s"
| "json_text sn (JArr xs) = ''['' @ js_join '','' (map (json_text sn) xs) @ '']''"
| "json_text sn (JObj kvs) =
     ''{'' @ js_join '','' (map (\<lambda>kv. json_stringify (fst kv) @ '':'' @ json_text sn (snd kv)) kvs) @ ''}''"

subsection \<open>Reading\<close>

definition json_ws :: "char \<Rightarrow> bool" where
  "json_ws c \<longleftrightarrow> code c \<in> {9, 10, 13, 32}"

abbreviation skip_ws :: "jstring \<Rightarrow> jstring" where
  "skip_ws \<equiv> dropWhile json_ws"

definition escaped :: "char \<Rightarrow> char option" where
  "escaped c =
     (if c = dquote \<or> c = backslash \<or> c = CHR ''/'' then Some c
      else if c = CHR ''b'' then Some (char_of (8 :: nat)) else if c = CHR ''t'' then Some (char_of (9 :: nat))
      else if c = CHR ''n'' then Some (char_of (10 :: nat)) else if c = CHR ''f'' then Some (char_of (12 :: nat))
      else if c = CHR ''r'' then Some (char_of (13 :: nat)) else None)"

text \<open>One character of a string literal and what follows it.\<close>

definition literal_char :: "jstring \<Rightarrow> (char \<times> jstring) option" where
  "literal_char s =
     (case s of [] \<Rightarrow> None
      | c # cs \<Rightarrow>
          if c = backslash then
            (case cs of [] \<Rightarrow> None
             | e # r \<Rightarrow>
                 if e = CHR ''u'' then
                   if length r \<ge> 4 \<and> list_all (is_digit_in 16) (take 4 r) \<and> of_digits 16 (take 4 r) < 256
                   then Some (char_of (of_digits 16 (take 4 r)), drop 4 r) else None
                 else map_option (\<lambda>x. (x, r)) (escaped e))
          else if c = dquote \<or> code c < 32 then None else Some (c, cs))"

lemma literal_char_shorter: "literal_char s = Some (c, r) \<Longrightarrow> length r < length s"
  by (auto simp: literal_char_def split: list.splits if_splits)

function read_string :: "jstring \<Rightarrow> (jstring \<times> jstring) option" where
  "read_string s =
     (if s \<noteq> [] \<and> hd s = dquote then Some ([], tl s)
      else case literal_char s of None \<Rightarrow> None
           | Some (c, r) \<Rightarrow> map_option (\<lambda>(t, r'). (c # t, r')) (read_string r))"
  by pat_completeness auto
termination by (relation "measure length") (auto dest: literal_char_shorter)

declare read_string.simps [simp del]

definition number_char :: "char \<Rightarrow> bool" where
  "number_char c \<longleftrightarrow> is_digit c \<or> c \<in> {CHR ''-'', CHR ''+'', CHR ''.'', CHR ''e'', CHR ''E''}"

text \<open>\<open>-?(0|[1-9][0-9]*)(\.[0-9]+)?([eE][+-]?[0-9]+)?\<close>.\<close>

definition whole_part :: "jstring \<Rightarrow> bool" where
  "whole_part s \<longleftrightarrow> digits_only 10 s \<and> (s = ''0'' \<or> hd s \<noteq> CHR ''0'')"

definition exponent_part :: "jstring \<Rightarrow> bool" where
  "exponent_part s \<longleftrightarrow>
     s = [] \<or> (hd s \<in> {CHR ''e'', CHR ''E''} \<and>
       digits_only 10 (if tl s \<noteq> [] \<and> hd (tl s) \<in> {CHR ''+'', CHR ''-''} then tl (tl s) else tl s))"

definition unsigned_literal :: "jstring \<Rightarrow> bool" where
  "unsigned_literal s \<longleftrightarrow>
     (let w = takeWhile is_digit s; r = dropWhile is_digit s in
      whole_part w \<and>
      (if r \<noteq> [] \<and> hd r = CHR ''.'' then takeWhile is_digit (tl r) \<noteq> [] \<and> exponent_part (dropWhile is_digit (tl r))
       else exponent_part r))"

definition magnitude :: "jstring \<Rightarrow> jstring" where
  "magnitude s = (if s \<noteq> [] \<and> hd s = CHR ''-'' then tl s else s)"

definition number_value :: "(jstring \<Rightarrow> rat) \<Rightarrow> jstring \<Rightarrow> rat" where
  "number_value rn s =
     (let m = magnitude s in
      if digits_only 10 m \<and> of_digits 10 m \<le> 2 ^ 53 then of_int ((if m = s then 1 else - 1) * int (of_digits 10 m))
      else rn s)"

definition read_number :: "(jstring \<Rightarrow> rat) \<Rightarrow> jstring \<Rightarrow> (json \<times> jstring) option" where
  "read_number rn s =
     (let t = takeWhile number_char s in
      if unsigned_literal (magnitude t) then Some (JNum (number_value rn t), dropWhile number_char s) else None)"

definition read_word :: "jstring \<Rightarrow> json \<Rightarrow> jstring \<Rightarrow> (json \<times> jstring) option" where
  "read_word w v s = (if starts_with w s then Some (v, drop (length w) s) else None)"

fun read_value :: "(jstring \<Rightarrow> rat) \<Rightarrow> nat \<Rightarrow> jstring \<Rightarrow> (json \<times> jstring) option"
and read_elements :: "(jstring \<Rightarrow> rat) \<Rightarrow> nat \<Rightarrow> jstring \<Rightarrow> (json list \<times> jstring) option"
and read_members :: "(jstring \<Rightarrow> rat) \<Rightarrow> nat \<Rightarrow> jstring \<Rightarrow> ((jstring \<times> json) list \<times> jstring) option" where
  "read_value rn 0 s = None"
| "read_value rn (Suc k) s =
     (case skip_ws s of [] \<Rightarrow> None
      | c # cs \<Rightarrow>
          if c = CHR ''{'' then
            (if skip_ws cs \<noteq> [] \<and> hd (skip_ws cs) = CHR ''}'' then Some (JObj [], tl (skip_ws cs))
             else map_option (\<lambda>(kvs, r). (JObj (object_of kvs), r)) (read_members rn k cs))
          else if c = CHR ''['' then
            (if skip_ws cs \<noteq> [] \<and> hd (skip_ws cs) = CHR '']'' then Some (JArr [], tl (skip_ws cs))
             else map_option (\<lambda>(xs, r). (JArr xs, r)) (read_elements rn k cs))
          else if c = dquote then map_option (\<lambda>(t, r). (JStr t, r)) (read_string cs)
          else if c = CHR ''t'' then read_word ''true'' (JBool True) (c # cs)
          else if c = CHR ''f'' then read_word ''false'' (JBool False) (c # cs)
          else if c = CHR ''n'' then read_word ''null'' JNull (c # cs)
          else read_number rn (c # cs))"
| "read_elements rn 0 s = None"
| "read_elements rn (Suc k) s =
     (case read_value rn k s of None \<Rightarrow> None
      | Some (v, r) \<Rightarrow>
          (case skip_ws r of [] \<Rightarrow> None
           | c # cs \<Rightarrow>
               if c = CHR '','' then map_option (\<lambda>(vs, r'). (v # vs, r')) (read_elements rn k cs)
               else if c = CHR '']'' then Some ([v], cs) else None))"
| "read_members rn 0 s = None"
| "read_members rn (Suc k) s =
     (case skip_ws s of [] \<Rightarrow> None
      | q # qs \<Rightarrow>
          if q \<noteq> dquote then None
          else (case read_string qs of None \<Rightarrow> None
          | Some (key, r) \<Rightarrow>
              if skip_ws r = [] \<or> hd (skip_ws r) \<noteq> CHR '':'' then None
              else (case read_value rn k (tl (skip_ws r)) of None \<Rightarrow> None
              | Some (v, r') \<Rightarrow>
                  (case skip_ws r' of [] \<Rightarrow> None
                   | c # cs \<Rightarrow>
                       if c = CHR '','' then map_option (\<lambda>(kvs, r''). ((key, v) # kvs, r'')) (read_members rn k cs)
                       else if c = CHR ''}'' then Some ([(key, v)], cs) else None))))"

definition json_parse :: "(jstring \<Rightarrow> rat) \<Rightarrow> jstring \<Rightarrow> json option" where
  "json_parse rn s =
     (case read_value rn (Suc (2 * length s)) s of None \<Rightarrow> None
      | Some (v, r) \<Rightarrow> if skip_ws r = [] then Some v else None)"

subsection \<open>The fuel is enough\<close>

lemma read_string_shorter: "read_string s = Some (t, r) \<Longrightarrow> length r < length s"
proof (induction s arbitrary: t r rule: read_string.induct)
  case (1 s)
  show ?case
  proof (cases "s \<noteq> [] \<and> hd s = dquote")
    case True
    then show ?thesis using 1(2) unfolding read_string.simps [of s] by (cases s) auto
  next
    case False
    then obtain c r0 t0 where l: "literal_char s = Some (c, r0)" "read_string r0 = Some (t0, r)"
      using 1(2) unfolding read_string.simps [of s] by (auto split: option.splits)
    then show ?thesis using 1(1) [OF False l(1) refl l(2)] literal_char_shorter [OF l(1)] by simp
  qed
qed

lemma length_skip_ws: "length (skip_ws s) \<le> length s"
  by (rule length_dropWhile_le)

lemma skip_ws_Cons: "skip_ws s = c # cs \<Longrightarrow> length cs < length s"
  using length_skip_ws [of s] by simp

lemma skip_ws_tl: "skip_ws s \<noteq> [] \<Longrightarrow> length (tl (skip_ws s)) < length s"
  using length_skip_ws [of s] by (cases "skip_ws s") auto

lemma read_number_shorter: "read_number rn (c # cs) = Some (v, r) \<Longrightarrow> length r < length (c # cs)"
proof -
  assume r: "read_number rn (c # cs) = Some (v, r)"
  then have "takeWhile number_char (c # cs) \<noteq> []"
    by (auto simp: read_number_def Let_def unsigned_literal_def whole_part_def digits_only_def magnitude_def split: if_splits)
  then have "number_char c" by (auto split: if_splits)
  then show ?thesis using r length_dropWhile_le [of number_char cs] by (auto simp: read_number_def Let_def split: if_splits)
qed

lemma read_word_shorter: "w \<noteq> [] \<Longrightarrow> read_word w x s = Some (v, r) \<Longrightarrow> length r < length s"
  by (cases s; cases w) (auto simp: read_word_def split: if_splits)

lemma read_shorter:
  "read_value rn k s = Some (v, r) \<Longrightarrow> length r < length s"
  "read_elements rn k s = Some (vs, r) \<Longrightarrow> length r < length s"
  "read_members rn k s = Some (kvs, r) \<Longrightarrow> length r < length s"
proof (induction k arbitrary: s v r vs kvs)
  case (Suc k)
  { case 1
    obtain c cs where s: "skip_ws s = c # cs" using 1 by (auto split: list.splits)
    have l: "length cs < length s" using skip_ws_Cons [OF s] .
    consider (obj) "c = CHR ''{''" | (arr) "c = CHR ''[''" | (str) "c = dquote" | (word) "c \<in> {CHR ''t'', CHR ''f'', CHR ''n''}"
      | (num) "c \<notin> {CHR ''{'', CHR ''['', dquote, CHR ''t'', CHR ''f'', CHR ''n''}" by blast
    then show ?case
    proof cases
      case obj
      then show ?thesis using 1 s l Suc.IH(3) [of cs] skip_ws_tl [of cs] by (fastforce split: if_splits)
    next
      case arr
      then show ?thesis using 1 s l Suc.IH(2) [of cs] skip_ws_tl [of cs] by (fastforce split: if_splits)
    next
      case str
      then show ?thesis using 1 s l read_string_shorter [of cs] by fastforce
    next
      case word
      then have "read_word ''true'' (JBool True) (c # cs) = Some (v, r) \<or> read_word ''false'' (JBool False) (c # cs) = Some (v, r) \<or>
          read_word ''null'' JNull (c # cs) = Some (v, r)"
        using 1 s by auto
      then have "length r < length (c # cs)" by (elim disjE) (erule read_word_shorter [rotated], simp)+
      then show ?thesis using l by simp
    next
      case num
      then have "read_number rn (c # cs) = Some (v, r)" using 1 s by simp
      from read_number_shorter [OF this] show ?thesis using l by simp
    qed
  next
    case 2
    then show ?case
      using Suc.IH(1) [of s] Suc.IH(2) skip_ws_Cons
      by (fastforce split: option.splits list.splits if_splits prod.splits)
  next
    case 3
    then obtain q qs key r1 v r2 c cs where m: "skip_ws s = q # qs" "read_string qs = Some (key, r1)" "skip_ws r1 \<noteq> []"
        "read_value rn k (tl (skip_ws r1)) = Some (v, r2)" "skip_ws r2 = c # cs"
        "(\<exists>kvs'. read_members rn k cs = Some (kvs', r)) \<or> r = cs"
      by (auto split: option.splits list.splits if_splits prod.splits)
    have "length cs < length s"
      using skip_ws_Cons [OF m(1)] read_string_shorter [OF m(2)] skip_ws_tl [OF m(3)] Suc.IH(1) [OF m(4)] skip_ws_Cons [OF m(5)]
      by linarith
    then show ?case using m(6) Suc.IH(3) [of cs] by auto
  }
qed auto

declare dropWhile_eq_Nil_conv [simp del]
declare read_value.simps(2) [simp del] read_elements.simps(2) [simp del] read_members.simps(2) [simp del]

lemma fuel_step:
  "2 * length s < k \<Longrightarrow> read_value rn (Suc k) s = read_value rn k s"
  "2 * length s + 1 < k \<Longrightarrow> read_elements rn (Suc k) s = read_elements rn k s"
  "2 * length s + 1 < k \<Longrightarrow> read_members rn (Suc k) s = read_members rn k s"
proof (induction k arbitrary: s)
  case (Suc k)
  { case 1
    show ?case
    proof (cases "skip_ws s")
      case (Cons c cs)
      have "read_members rn (Suc k) cs = read_members rn k cs" "read_elements rn (Suc k) cs = read_elements rn k cs"
        using skip_ws_Cons [OF Cons] 1 Suc.IH(2,3) [of cs] by simp_all
      then show ?thesis using Cons by (simp add: read_value.simps(2))
    qed (simp add: read_value.simps(2))
  next
    case 2
    have v: "read_value rn (Suc k) s = read_value rn k s" using 2 Suc.IH(1) [of s] by simp
    show ?case
    proof (cases "read_value rn k s")
      case (Some p)
      obtain v' r where p: "p = (v', r)" by fastforce
      show ?thesis
      proof (cases "skip_ws r")
        case (Cons c cs)
        have "read_elements rn (Suc k) cs = read_elements rn k cs"
          using read_shorter(1) [OF Some [unfolded p]] skip_ws_Cons [OF Cons] 2 Suc.IH(2) [of cs] by simp
        then show ?thesis using v Some p Cons by (simp add: read_elements.simps(2))
      qed (use v Some p in \<open>simp add: read_elements.simps(2)\<close>)
    qed (use v in \<open>simp add: read_elements.simps(2)\<close>)
  next
    case 3
    show ?case
    proof (cases "skip_ws s")
      case s: (Cons q qs)
      show ?thesis
      proof (cases "read_string qs")
        case (Some p)
        obtain key r where p: "read_string qs = Some (key, r)" using Some by (cases p) auto
        show ?thesis
        proof (cases "skip_ws r")
          case r: (Cons d ds)
          have l: "length ds < length s" using skip_ws_Cons [OF s] read_string_shorter [OF p] skip_ws_Cons [OF r] by simp
          have v: "read_value rn (Suc k) ds = read_value rn k ds" using l 3 Suc.IH(1) [of ds] by simp
          have m: "read_members rn (Suc k) cs = read_members rn k cs"
            if "read_value rn k ds = Some (v, r')" "skip_ws r' = c # cs" for v r' c cs
            using l read_shorter(1) [OF that(1)] skip_ws_Cons [OF that(2)] 3 Suc.IH(3) [of cs] by simp
          show ?thesis using s p r v m
            by (simp add: read_members.simps(2) split: option.split prod.split list.split)
        qed (use s p in \<open>simp add: read_members.simps(2)\<close>)
      qed (use s in \<open>simp add: read_members.simps(2)\<close>)
    qed (simp add: read_members.simps(2))
  }
qed simp_all

theorem fuel_irrelevant: "2 * length s < k \<Longrightarrow> read_value rn k s = read_value rn (Suc (2 * length s)) s"
proof (induction k)
  case (Suc k)
  then show ?case using fuel_step(1) [of s k rn] by (cases "2 * length s < k") (auto simp del: read_value.simps simp: less_Suc_eq)
qed simp

subsection \<open>What is written reads back\<close>

text \<open>Values whose numbers are integers up to 2^53 and whose objects list their keys the way an object does.\<close>

fun plain :: "json \<Rightarrow> bool" where
  "plain (JNum r) \<longleftrightarrow> (\<exists>n. r = of_int n \<and> \<bar>n\<bar> \<le> 2 ^ 53)"
| "plain (JArr xs) \<longleftrightarrow> (\<forall>x \<in> set xs. plain x)"
| "plain (JObj kvs) \<longleftrightarrow> object_of kvs = kvs \<and> (\<forall>kv \<in> set kvs. plain (snd kv))"
| "plain _ \<longleftrightarrow> True"

definition ends_token :: "jstring \<Rightarrow> bool" where
  "ends_token s \<longleftrightarrow> s = [] \<or> hd s \<in> {CHR '','', CHR '']'', CHR ''}''}"

lemma hex4_code: "code c < 32 \<Longrightarrow> of_digits 16 (padStart 4 (CHR ''0'') (nat_to_string 16 (code c))) = code c"
  by (simp add: hex.of_digits_to_string)

lemma code_eq: "code c = n \<Longrightarrow> c = char_of n"
  by (auto simp: code_def)

lemma char_of_code [simp]: "char_of (code c) = c"
  by (simp add: code_def)

lemma hex4_ok:
  assumes "code c < 32"
  shows "length (padStart 4 (CHR ''0'') (nat_to_string 16 (code c))) = 4"
    "list_all (is_digit_in 16) (padStart 4 (CHR ''0'') (nat_to_string 16 (code c)))"
proof -
  have "length (nat_to_string 16 (code c)) \<le> 2" using assms by (intro hex.to_string_length_le) auto
  then show "length (padStart 4 (CHR ''0'') (nat_to_string 16 (code c))) = 4" by (simp add: padStart_def)
  show "list_all (is_digit_in 16) (padStart 4 (CHR ''0'') (nat_to_string 16 (code c)))"
    using hex.digits_are_digits [of "code c"] by (auto simp: padStart_def list_all_iff zero_is_digit)
qed

lemma literal_char_json_char: "literal_char (json_char c @ s) = Some (c, s)"
proof (cases "c = dquote \<or> c = backslash \<or> code c \<in> {8, 9, 10, 12, 13}")
  case True
  then have "c = dquote \<or> c = backslash \<or> c = char_of (8 :: nat) \<or> c = char_of (9 :: nat) \<or> c = char_of (10 :: nat) \<or>
      c = char_of (12 :: nat) \<or> c = char_of (13 :: nat)"
    by (auto dest: code_eq)
  then show ?thesis by (elim disjE) (simp_all add: json_char_def literal_char_def escaped_def code_def)
next
  case False
  show ?thesis
  proof (cases "code c < 32")
    case True
    then show ?thesis using False hex4_ok [OF True] hex4_code [OF True]
      by (simp add: json_char_def literal_char_def)
  qed (use False in \<open>simp add: json_char_def literal_char_def\<close>)
qed

lemma json_char_first: "json_char c \<noteq> [] \<and> hd (json_char c) \<noteq> dquote"
  by (simp add: json_char_def)

lemma read_string_stringify: "read_string (concat (map json_char s) @ dquote # r) = Some (s, r)"
proof (induction s)
  case Nil
  then show ?case by (subst read_string.simps) simp
next
  case (Cons c s)
  have "hd (json_char c @ concat (map json_char s) @ dquote # r) \<noteq> dquote" using json_char_first [of c] by simp
  then show ?case using Cons by (subst read_string.simps) (simp add: literal_char_json_char)
qed

lemma nat_text_first: "0 < n \<Longrightarrow> hd (nat_to_string 10 n) \<noteq> CHR ''0''"
proof (induction n rule: less_induct)
  case (less n)
  show ?case
  proof (cases "n < 10")
    case True
    then have "nat_to_string 10 n = [digit_char n]" by (subst nat_to_string.simps) simp
    moreover have "digit_char n \<noteq> digit_char 0"
      using digit_val_char [of n] digit_val_char [of 0] True less.prems by fastforce
    ultimately show ?thesis by (simp add: digit_char_01)
  next
    case False
    then have "nat_to_string 10 n = nat_to_string 10 (n div 10) @ [digit_char (n mod 10)]" by (subst nat_to_string.simps) simp
    then show ?thesis using less.IH [of "n div 10"] False by (simp add: hd_append)
  qed
qed

lemma nat_text_digits: "list_all is_digit (nat_to_string 10 n)"
  using dec.digits_are_digits [of n] by (simp add: list_all_iff is_digit_in_10)

lemma nat_text_literal: "unsigned_literal (nat_to_string 10 n)"
proof -
  have t: "takeWhile is_digit (nat_to_string 10 n) = nat_to_string 10 n" "dropWhile is_digit (nat_to_string 10 n) = []"
    using nat_text_digits [of n] by (simp_all add: list_all_iff takeWhile_eq_all_conv dropWhile_eq_Nil_conv)
  moreover have "whole_part (nat_to_string 10 n)"
    using dec.digits_only_to_string [of n] nat_text_first [of n]
    by (cases "n = 0") (simp_all add: whole_part_def nat_to_string.simps [of 10 0] digit_char_01)
  ultimately show ?thesis unfolding unsigned_literal_def t Let_def by (simp add: exponent_part_def)
qed

lemma nat_text_not_minus: "hd (nat_to_string 10 n) \<noteq> CHR ''-''"
proof -
  have "is_digit (hd (nat_to_string 10 n))" using nat_text_digits [of n] by (simp add: list_all_iff)
  then show ?thesis by (auto simp: is_digit_def code_def)
qed

lemma magnitude_show_int: "magnitude (show_int n) = nat_to_string 10 (nat \<bar>n\<bar>)"
  using nat_text_not_minus [of "nat n"] by (simp add: show_int_def to_string_def magnitude_def)

lemma number_value_show_int: "\<bar>n\<bar> \<le> 2 ^ 53 \<Longrightarrow> number_value rn (show_int n) = of_int n"
proof -
  assume n: "\<bar>n\<bar> \<le> 2 ^ 53"
  have "nat \<bar>n\<bar> \<le> 2 ^ 53" using n by (simp add: nat_le_iff)
  moreover have "magnitude (show_int n) = show_int n \<longleftrightarrow> 0 \<le> n"
    unfolding magnitude_show_int by (auto simp: show_int_def to_string_def)
  ultimately show ?thesis
    by (simp add: number_value_def Let_def magnitude_show_int dec.of_digits_to_string dec.digits_only_to_string)
qed

lemma show_int_number_chars: "list_all number_char (show_int n)"
  using nat_text_digits [of "nat n"] nat_text_digits [of "nat (- n)"]
  by (auto simp: show_int_def to_string_def number_char_def list_all_iff)

lemma read_number_show_int:
  assumes "\<bar>n\<bar> \<le> 2 ^ 53" "ends_token rest"
  shows "read_number rn (show_int n @ rest) = Some (JNum (of_int n), rest)"
proof -
  have r: "takeWhile number_char rest = []" "dropWhile number_char rest = rest"
    using assms(2) by (cases rest; auto simp: ends_token_def number_char_def is_digit_def code_def)+
  have all: "x \<in> set (show_int n) \<Longrightarrow> number_char x" for x using show_int_number_chars [of n] by (simp add: list_all_iff)
  have "takeWhile number_char (show_int n @ rest) = show_int n" "dropWhile number_char (show_int n @ rest) = rest"
    using takeWhile_append2 [of "show_int n" number_char rest] dropWhile_append2 [of "show_int n" number_char rest] all r
    by auto
  then show ?thesis unfolding read_number_def Let_def magnitude_show_int
    by (simp add: nat_text_literal number_value_show_int [OF assms(1)] magnitude_show_int)
qed

lemma number_text_plain: "\<bar>n\<bar> \<le> 2 ^ 53 \<Longrightarrow> number_text sn (of_int n) = show_int n"
  by (simp add: number_text_def whole_def)

lemma show_int_first: "show_int n \<noteq> [] \<and> (is_digit (hd (show_int n)) \<or> hd (show_int n) = CHR ''-'')"
  using nat_text_digits [of "nat n"] by (auto simp: show_int_def to_string_def list_all_iff)

text \<open>The character a value starts with decides how it is read.\<close>

lemma text_first:
  assumes "plain v"
  shows "json_text sn v \<noteq> [] \<and> \<not> json_ws (hd (json_text sn v)) \<and> hd (json_text sn v) \<notin> {CHR '']'', CHR ''}''}"
proof (cases v)
  case (JNum r)
  then obtain n where n: "json_text sn v = show_int n" using assms number_text_plain by auto
  show ?thesis unfolding n using show_int_first [of n] by (auto simp: json_ws_def is_digit_def code_def)
qed (auto simp: json_ws_def code_def json_stringify_def)

lemma skip_ws_id: "s \<noteq> [] \<Longrightarrow> \<not> json_ws (hd s) \<Longrightarrow> skip_ws s = s"
  by (cases s) auto

lemma skip_ws_text: "plain v \<Longrightarrow> skip_ws (json_text sn v @ r) = json_text sn v @ r"
  using text_first [of v sn] by (intro skip_ws_id) auto

lemma not_json_ws [simp]:
  "\<not> json_ws (CHR '','')" "\<not> json_ws (CHR '']'')" "\<not> json_ws (CHR ''}'')" "\<not> json_ws (CHR '':'')" "\<not> json_ws dquote"
  "\<not> json_ws (CHR ''{'')" "\<not> json_ws (CHR ''['')"
  by (simp_all add: json_ws_def code_def)

definition reads_back :: "(rat \<Rightarrow> jstring) \<Rightarrow> (jstring \<Rightarrow> rat) \<Rightarrow> json \<Rightarrow> bool" where
  "reads_back sn rn v \<longleftrightarrow>
     (\<forall>k rest. ends_token rest \<longrightarrow> 2 * length (json_text sn v @ rest) < k \<longrightarrow> read_value rn k (json_text sn v @ rest) = Some (v, rest))"

lemma reads_backD:
  "reads_back sn rn v \<Longrightarrow> ends_token rest \<Longrightarrow> 2 * length (json_text sn v @ rest) < k \<Longrightarrow>
   read_value rn k (json_text sn v @ rest) = Some (v, rest)"
  unfolding reads_back_def by blast

abbreviation member_text :: "(rat \<Rightarrow> jstring) \<Rightarrow> jstring \<times> json \<Rightarrow> jstring" where
  "member_text sn kv \<equiv> json_stringify (fst kv) @ '':'' @ json_text sn (snd kv)"

lemma read_elements_back:
  assumes "\<forall>x \<in> set xs. reads_back sn rn x" "xs \<noteq> []"
    and "2 * length (js_join '','' (map (json_text sn) xs) @ CHR '']'' # rest) + 1 < k"
  shows "read_elements rn k (js_join '','' (map (json_text sn) xs) @ CHR '']'' # rest) = Some (xs, rest)"
  using assms(2,1,3)
proof (induction xs arbitrary: k rule: list_nonempty_induct)
  case (single x)
  then obtain k' where k: "k = Suc k'" by (cases k) auto
  have "read_value rn k' (json_text sn x @ CHR '']'' # rest) = Some (x, CHR '']'' # rest)"
    using single k by (intro reads_backD) (auto simp: ends_token_def)
  then show ?case by (simp add: k read_elements.simps(2))
next
  case (cons x xs)
  then obtain k' where k: "k = Suc k'" by (cases k) auto
  let ?r = "js_join '','' (map (json_text sn) xs) @ CHR '']'' # rest"
  have j: "js_join '','' (map (json_text sn) (x # xs)) @ CHR '']'' # rest = json_text sn x @ CHR '','' # ?r"
    using cons.hyps by (cases xs) auto
  have l: "2 * length (json_text sn x @ CHR '','' # ?r) < k'" "2 * length ?r + 1 < k'"
    using cons.prems(2) unfolding j k by simp_all
  have "read_value rn k' (json_text sn x @ CHR '','' # ?r) = Some (x, CHR '','' # ?r)"
    using cons.prems(1) l(1) by (intro reads_backD) (auto simp: ends_token_def)
  moreover have "read_elements rn k' ?r = Some (xs, rest)" using cons.prems(1) l(2) by (intro cons.IH) auto
  ultimately show ?case unfolding j by (simp add: k read_elements.simps(2))
qed

lemma read_member_back:
  assumes "reads_back sn rn (snd kv)" "ends_token rest" "2 * length (member_text sn kv @ rest) < Suc k"
  shows "read_members rn (Suc k) (member_text sn kv @ rest) =
    (case rest of [] \<Rightarrow> None
     | c # cs \<Rightarrow> if c = CHR '','' then map_option (\<lambda>(kvs, r). (kv # kvs, r)) (read_members rn k cs)
                 else if c = CHR ''}'' then Some ([kv], cs) else None)"
proof -
  have "read_value rn k (json_text sn (snd kv) @ rest) = Some (snd kv, rest)"
    using assms by (intro reads_backD) (auto simp: json_stringify_def)
  moreover have "skip_ws rest = rest" using assms(2) by (cases rest) (auto simp: ends_token_def)
  ultimately show ?thesis
    using read_string_stringify [of "fst kv" "CHR '':'' # json_text sn (snd kv) @ rest"]
    by (simp add: read_members.simps(2) json_stringify_def split: list.split)
qed

lemma read_members_back:
  assumes "\<forall>kv \<in> set kvs. reads_back sn rn (snd kv)" "kvs \<noteq> []"
    and "2 * length (js_join '','' (map (member_text sn) kvs) @ CHR ''}'' # rest) + 1 < k"
  shows "read_members rn k (js_join '','' (map (member_text sn) kvs) @ CHR ''}'' # rest) = Some (kvs, rest)"
  using assms(2,1,3)
proof (induction kvs arbitrary: k rule: list_nonempty_induct)
  case (single kv)
  then obtain k' where k: "k = Suc k'" by (cases k) auto
  have "read_members rn (Suc k') (member_text sn kv @ CHR ''}'' # rest) = Some ([kv], rest)"
    using single k by (subst read_member_back) (auto simp: ends_token_def)
  then show ?case using k by simp
next
  case (cons kv kvs)
  then obtain k' where k: "k = Suc k'" by (cases k) auto
  let ?r = "js_join '','' (map (member_text sn) kvs) @ CHR ''}'' # rest"
  have j: "js_join '','' (map (member_text sn) (kv # kvs)) @ CHR ''}'' # rest = member_text sn kv @ CHR '','' # ?r"
    using cons.hyps by (cases kvs) auto
  have l: "2 * length (member_text sn kv @ CHR '','' # ?r) < Suc k'" "2 * length ?r + 1 < k'"
    using cons.prems(2) unfolding j k by simp_all
  have "read_members rn k' ?r = Some (kvs, rest)" using cons.prems(1) l(2) by (intro cons.IH) auto
  then show ?case unfolding j k
    using cons.prems(1) l(1) by (subst read_member_back) (auto simp: ends_token_def)
qed

lemma plain_reads_back: "plain v \<Longrightarrow> reads_back sn rn v"
proof (induction v)
  case (JNum r)
  then obtain n where n: "r = of_int n" "\<bar>n\<bar> \<le> 2 ^ 53" by auto
  show ?case unfolding reads_back_def
  proof (intro allI impI)
    fix k rest assume e: "ends_token rest" and l: "2 * length (json_text sn (JNum r) @ rest) < k"
    obtain k' where k: "k = Suc k'" using l by (cases k) auto
    have t: "json_text sn (JNum r) = show_int n" using n by (simp add: number_text_plain)
    obtain c cs where c: "show_int n @ rest = c # cs" "is_digit c \<or> c = CHR ''-''"
      using show_int_first [of n] by (cases "show_int n") auto
    have "\<not> json_ws c" "c \<notin> {CHR ''{'', CHR ''['', dquote, CHR ''t'', CHR ''f'', CHR ''n''}"
      using c(2) by (auto simp: json_ws_def is_digit_def code_def)
    then show "read_value rn k (json_text sn (JNum r) @ rest) = Some (JNum r, rest)"
      unfolding t c(1) k using read_number_show_int [OF n(2) e, of rn] c(1) n(1) by (simp add: read_value.simps(2))
  qed
next
  case (JBool b)
  have "read_value rn (Suc k) (json_text sn (JBool b) @ rest) = Some (JBool b, rest)" for k rest
    by (cases b) (simp_all add: read_value.simps(2) read_word_def json_ws_def code_def)
  then show ?case unfolding reads_back_def by (metis less_natE)
next
  case (JStr s)
  show ?case unfolding reads_back_def
    using read_string_stringify [of s] by (auto simp: gr0_conv_Suc read_value.simps(2) json_stringify_def elim!: less_natE)
next
  case (JArr xs)
  then have xs: "\<forall>x \<in> set xs. reads_back sn rn x" by simp
  show ?case unfolding reads_back_def
  proof (intro allI impI)
    fix k rest assume l: "2 * length (json_text sn (JArr xs) @ rest) < k"
    obtain k' where k: "k = Suc k'" using l by (cases k) auto
    show "read_value rn k (json_text sn (JArr xs) @ rest) = Some (JArr xs, rest)"
    proof (cases xs)
      case (Cons x ys)
      let ?t = "js_join '','' (map (json_text sn) xs) @ CHR '']'' # rest"
      have x: "json_text sn x \<noteq> []" "\<not> json_ws (hd (json_text sn x))" "hd (json_text sn x) \<noteq> CHR '']''"
        using text_first [of x sn] JArr.prems Cons by auto
      have h: "?t \<noteq> []" "hd ?t = hd (json_text sn x)" using x(1) Cons by (cases ys; simp add: hd_append)+
      have "skip_ws ?t = ?t" using h x(2) by (intro skip_ws_id) auto
      moreover have "read_elements rn k' ?t = Some (xs, rest)" using xs Cons l k by (intro read_elements_back) auto
      ultimately show ?thesis using h(2) x(3) by (simp add: k read_value.simps(2))
    qed (simp add: k read_value.simps(2))
  qed
next
  case (JObj kvs)
  then have kvs: "\<forall>kv \<in> set kvs. reads_back sn rn (snd kv)" "object_of kvs = kvs" by auto
  show ?case unfolding reads_back_def
  proof (intro allI impI)
    fix k rest assume l: "2 * length (json_text sn (JObj kvs) @ rest) < k"
    obtain k' where k: "k = Suc k'" using l by (cases k) auto
    show "read_value rn k (json_text sn (JObj kvs) @ rest) = Some (JObj kvs, rest)"
    proof (cases kvs)
      case (Cons x ys)
      let ?t = "js_join '','' (map (member_text sn) kvs) @ CHR ''}'' # rest"
      have h: "?t \<noteq> []" "hd ?t = dquote" using Cons by (cases ys; simp add: json_stringify_def)+
      have "skip_ws ?t = ?t" using h by (intro skip_ws_id) auto
      moreover have "read_members rn k' ?t = Some (kvs, rest)" using kvs(1) Cons l k by (intro read_members_back) auto
      ultimately show ?thesis using h(2) kvs(2) by (simp add: k read_value.simps(2))
    qed (simp add: k read_value.simps(2))
  qed
qed (auto simp: reads_back_def read_value.simps(2) read_word_def json_ws_def code_def elim!: less_natE)

text \<open>\<open>JSON.parse\<close> undoes \<open>JSON.stringify\<close> on every value whose numbers are integers up to 2^53,
  at any depth and with any characters in its strings and keys.\<close>

theorem parse_stringify:
  assumes "plain v"
  shows "json_parse rn (json_text sn v) = Some v"
  using reads_backD [OF plain_reads_back [OF assms], of "[]" sn "Suc (2 * length (json_text sn v))" rn]
  by (simp add: json_parse_def ends_token_def)

definition demo_json :: json where
  "demo_json = JObj [(''a'', JArr [JNum 1, JNum (- 20), JStr [dquote, CHR 0x0A]]), (''b'', JObj []), ([], JNull)]"

lemma plain_demo_json: "plain demo_json"
proof -
  have "\<exists>n. (1 :: rat) = of_int n \<and> \<bar>n\<bar> \<le> 2 ^ 53" by (rule exI [of _ 1]) simp
  moreover have "\<exists>n. (- 20 :: rat) = of_int n \<and> \<bar>n\<bar> \<le> 2 ^ 53" by (rule exI [of _ "- 20"]) simp
  moreover have "\<not> index_key ''a''" "\<not> index_key ''b''" "\<not> index_key []"
    by (simp_all add: index_key_def digits_only_def is_digit_in_def digit_val_def code_def)
  ultimately show ?thesis by (simp add: demo_json_def object_of_def own_order_def)
qed

theorem parse_stringify_witness:
  "json_parse (\<lambda>_. 0) (json_text (\<lambda>_. []) demo_json) = Some demo_json"
  by (rule parse_stringify) (rule plain_demo_json)

end
