(* ===== verification/SavedWork.thy ===== *)
theory SavedWork
  imports JsonText "HOL-Library.AList" "HOL-Library.Multiset"
begin

text \<open>
  What the page keeps in the browser: \<open>web/lib/playground/safe-storage.ts\<close>, \<open>named-saves.ts\<close>,
  \<open>exercise-answers.ts\<close>, \<open>solved-state.ts\<close> and the recent programs of \<open>auto-save.ts\<close>.

  The store is a list of keys and texts with what the browser decides: whether there is a window,
  whether storage may be touched at all, and which writes it accepts.  A stored bookmark is kept as
  the JSON object it is, since the code writes back the keys it does not know.  The locale
  \<open>stored_value\<close> is the contract of a value kept under a key as JSON text; the stores interpret it.
\<close>

subsection \<open>safe-storage.ts\<close>

record storage =
  st_window :: bool
  st_usable :: bool
  st_accepts :: "(jstring \<times> jstring) list \<Rightarrow> jstring \<Rightarrow> jstring \<Rightarrow> bool"
  st_items :: "(jstring \<times> jstring) list"
  st_events :: "jstring list"

definition safeGetItem :: "storage \<Rightarrow> jstring \<Rightarrow> jstring option" where
  "safeGetItem st key = (if st_window st \<and> st_usable st then map_of (st_items st) key else None)"

definition safeSetItem :: "jstring \<Rightarrow> jstring \<Rightarrow> storage \<Rightarrow> bool \<times> storage" where
  "safeSetItem key v st =
     (if st_window st \<and> st_usable st \<and> st_accepts st (st_items st) key v
      then (True, st\<lparr>st_items := AList.update key v (st_items st)\<rparr>) else (False, st))"

definition safeRemoveItem :: "jstring \<Rightarrow> storage \<Rightarrow> storage" where
  "safeRemoveItem key st =
     (if st_window st \<and> st_usable st then st\<lparr>st_items := AList.delete key (st_items st)\<rparr> else st)"

definition safeKeys :: "storage \<Rightarrow> jstring list" where
  "safeKeys st = (if st_window st \<and> st_usable st then map fst (st_items st) else [])"

definition announce :: "jstring \<Rightarrow> storage \<Rightarrow> storage" where
  "announce event st = st\<lparr>st_events := st_events st @ [event]\<rparr>"

text \<open>\<open>if (!raw) ...; try { JSON.parse(raw) } catch ...\<close>, with \<open>None\<close> where there is nothing to read.\<close>

definition stored_json :: "(jstring \<Rightarrow> rat) \<Rightarrow> storage \<Rightarrow> jstring \<Rightarrow> json option" where
  "stored_json rn st key =
     (case safeGetItem st key of None \<Rightarrow> None
      | Some raw \<Rightarrow> if raw = [] then None else json_parse rn raw)"

subsection \<open>named-saves.ts\<close>

record NamedSave =
  ns_name :: jstring
  ns_source :: jstring
  ns_args :: "jstring option"
  ns_stdin :: "jstring option"
  ns_stepCount :: nat
  ns_savedAt :: jstring

definition save_json :: "NamedSave \<Rightarrow> json" where
  "save_json s =
     JObj ([(''name'', JStr (ns_name s)), (''source'', JStr (ns_source s))] @ opt_field ''args'' JStr (ns_args s) @
           opt_field ''stdin'' JStr (ns_stdin s) @
           [(''stepCount'', int_json (int (ns_stepCount s))), (''savedAt'', JStr (ns_savedAt s))])"

definition SAVES_KEY :: jstring where "SAVES_KEY = ''aarch64-playground:named-saves''"
definition SAVES_CHANGED_EVENT :: jstring where "SAVES_CHANGED_EVENT = ''aarch64-playground:named-saves-changed''"

fun member :: "json \<Rightarrow> jstring \<Rightarrow> json option" where
  "member (JObj kvs) k = map_of kvs k"
| "member _ k = None"

definition optional_string :: "json option \<Rightarrow> bool" where
  "optional_string v \<longleftrightarrow> v = None \<or> as_string v \<noteq> None"

definition isValidSave :: "json \<Rightarrow> bool" where
  "isValidSave v \<longleftrightarrow>
     (case as_string (member v ''name'') of None \<Rightarrow> False | Some name \<Rightarrow> length name > 0) \<and>
     as_string (member v ''source'') \<noteq> None \<and>
     (case as_integer (member v ''stepCount'') of None \<Rightarrow> False | Some n \<Rightarrow> n \<ge> 0 \<and> n \<le> 10000000) \<and>
     optional_string (member v ''args'') \<and> optional_string (member v ''stdin'') \<and>
     as_string (member v ''savedAt'') \<noteq> None"

definition save_name :: "json \<Rightarrow> jstring" where
  "save_name v = the (as_string (member v ''name''))"

definition readAll :: "(jstring \<Rightarrow> rat) \<Rightarrow> storage \<Rightarrow> json list" where
  "readAll rn st = (case as_array (stored_json rn st SAVES_KEY) of None \<Rightarrow> [] | Some xs \<Rightarrow> filter isValidSave xs)"

definition writeAll :: "(rat \<Rightarrow> jstring) \<Rightarrow> json list \<Rightarrow> storage \<Rightarrow> bool \<times> storage" where
  "writeAll sn saves st =
     (case safeSetItem SAVES_KEY (json_text sn (JArr saves)) st of
        (False, st') \<Rightarrow> (False, st')
      | (True, st') \<Rightarrow> (True, announce SAVES_CHANGED_EVENT st'))"

definition getSave :: "(jstring \<Rightarrow> rat) \<Rightarrow> storage \<Rightarrow> jstring \<Rightarrow> json option" where
  "getSave rn st name = find (\<lambda>s. save_name s = name) (readAll rn st)"

definition putSave :: "(rat \<Rightarrow> jstring) \<Rightarrow> (jstring \<Rightarrow> rat) \<Rightarrow> json \<Rightarrow> storage \<Rightarrow> bool \<times> storage" where
  "putSave sn rn save st =
     (let all = readAll rn st in
      case find_index (\<lambda>s. save_name s = save_name save) all of
        Some idx \<Rightarrow> writeAll sn (all[idx := save]) st
      | None \<Rightarrow> writeAll sn (all @ [save]) st)"

definition removeSave :: "(rat \<Rightarrow> jstring) \<Rightarrow> (jstring \<Rightarrow> rat) \<Rightarrow> jstring \<Rightarrow> storage \<Rightarrow> bool \<times> storage" where
  "removeSave sn rn name st = writeAll sn (filter (\<lambda>s. save_name s \<noteq> name) (readAll rn st)) st"

definition clearSaves :: "(rat \<Rightarrow> jstring) \<Rightarrow> storage \<Rightarrow> bool \<times> storage" where
  "clearSaves sn = writeAll sn []"

definition exportBundle :: "(jstring \<Rightarrow> rat) \<Rightarrow> storage \<Rightarrow> json" where
  "exportBundle rn st = JObj [(''version'', int_json 1), (''saves'', JArr (readAll rn st))]"

datatype ImportResult = NotABundle | Imported nat nat bool

definition merge_save :: "json \<Rightarrow> json list \<times> nat \<times> nat \<Rightarrow> json list \<times> nat \<times> nat" where
  "merge_save candidate acc =
     (case acc of (existing, added, skipped) \<Rightarrow>
        if \<not> isValidSave candidate \<or> save_name candidate \<in> save_name ` set existing then (existing, added, skipped + 1)
        else (existing @ [candidate], added + 1, skipped))"

definition importBundle :: "(rat \<Rightarrow> jstring) \<Rightarrow> (jstring \<Rightarrow> rat) \<Rightarrow> json \<Rightarrow> storage \<Rightarrow> ImportResult \<times> storage" where
  "importBundle sn rn bundle st =
     (case (member bundle ''version'', as_array (member bundle ''saves'')) of
        (Some (JNum r), Some incoming) \<Rightarrow>
          if r \<noteq> 1 then (NotABundle, st)
          else
            (case fold merge_save incoming (readAll rn st, 0, 0) of (existing, added, skipped) \<Rightarrow>
               if added > 0 then (case writeAll sn existing st of (stored, st') \<Rightarrow> (Imported added skipped stored, st'))
               else (Imported added skipped True, st))
      | _ \<Rightarrow> (NotABundle, st))"

subsection \<open>exercise-answers.ts\<close>

definition ANSWER_PREFIX :: jstring where "ANSWER_PREFIX = ''aarch64-playground:practice:answer:''"
definition MAX_ANSWER_CHARS :: nat where "MAX_ANSWER_CHARS = 64 * 1024"

datatype AnswerBody =
    WriteAnswer jstring
  | QuizAnswer "int option list" "int list option"
  | BlanksAnswer "jstring list" "int list option"
  | PredictAnswer "jstring list" "int list option"

record StoredAnswer =
  sa_updatedAt :: rat
  sa_body :: AnswerBody

definition keyFor :: "jstring \<Rightarrow> jstring" where
  "keyFor slug = ANSWER_PREFIX @ slug"

fun collect :: "('a \<Rightarrow> 'b option) \<Rightarrow> 'a list \<Rightarrow> 'b list option" where
  "collect f [] = Some []"
| "collect f (x # xs) =
     (case f x of None \<Rightarrow> None | Some y \<Rightarrow> map_option ((#) y) (collect f xs))"

text \<open>\<open>isStringArray\<close>, \<open>isIndexArray\<close> and \<open>isChoiceArray\<close>, with the typed list they let through.\<close>

definition isStringArray :: "json option \<Rightarrow> jstring list option" where
  "isStringArray v = (case as_array v of None \<Rightarrow> None | Some xs \<Rightarrow> collect (\<lambda>x. as_string (Some x)) xs)"

definition isIndexArray :: "json option \<Rightarrow> int list option" where
  "isIndexArray v =
     (case as_array v of None \<Rightarrow> None
      | Some xs \<Rightarrow> collect (\<lambda>x. case as_integer (Some x) of None \<Rightarrow> None | Some n \<Rightarrow> if n \<ge> 0 then Some n else None) xs)"

definition isChoiceArray :: "json option \<Rightarrow> int option list option" where
  "isChoiceArray v =
     (case as_array v of None \<Rightarrow> None
      | Some xs \<Rightarrow> collect (\<lambda>x. if x = JNull then Some None else map_option Some (as_integer (Some x))) xs)"

fun as_number :: "json option \<Rightarrow> rat option" where
  "as_number (Some (JNum r)) = Some r"
| "as_number _ = None"

definition validateAnswer :: "json \<Rightarrow> StoredAnswer option" where
  "validateAnswer raw =
     (if as_number (member raw ''version'') \<noteq> Some 1 then None
      else case as_number (member raw ''updatedAt'') of None \<Rightarrow> None
      | Some updatedAt \<Rightarrow>
          let graded = isIndexArray (member raw ''graded'');
              stamp = \<lambda>body. \<lparr>sa_updatedAt = updatedAt, sa_body = body\<rparr>;
              kind = as_string (member raw ''kind'') in
          if kind = Some ''write'' then map_option (\<lambda>s. stamp (WriteAnswer s)) (as_string (member raw ''source''))
          else if kind = Some ''quiz'' then map_option (\<lambda>a. stamp (QuizAnswer a graded)) (isChoiceArray (member raw ''answers''))
          else if kind = Some ''blanks'' then map_option (\<lambda>a. stamp (BlanksAnswer a graded)) (isStringArray (member raw ''answers''))
          else if kind = Some ''predict'' then map_option (\<lambda>a. stamp (PredictAnswer a graded)) (isStringArray (member raw ''answers''))
          else None)"

definition graded_field :: "int list option \<Rightarrow> (jstring \<times> json) list" where
  "graded_field g = opt_field ''graded'' (\<lambda>ns. JArr (map int_json ns)) g"

fun body_fields :: "AnswerBody \<Rightarrow> (jstring \<times> json) list" where
  "body_fields (WriteAnswer s) = [(''kind'', JStr ''write''), (''source'', JStr s)]"
| "body_fields (QuizAnswer a g) =
     [(''kind'', JStr ''quiz''), (''answers'', JArr (map (case_option JNull int_json) a))] @ graded_field g"
| "body_fields (BlanksAnswer a g) = [(''kind'', JStr ''blanks''), (''answers'', JArr (map JStr a))] @ graded_field g"
| "body_fields (PredictAnswer a g) = [(''kind'', JStr ''predict''), (''answers'', JArr (map JStr a))] @ graded_field g"

definition answer_json :: "StoredAnswer \<Rightarrow> json" where
  "answer_json a = JObj ([(''version'', int_json 1), (''updatedAt'', JNum (sa_updatedAt a))] @ body_fields (sa_body a))"

definition readAnswer :: "(jstring \<Rightarrow> rat) \<Rightarrow> storage \<Rightarrow> jstring \<Rightarrow> StoredAnswer option" where
  "readAnswer rn st slug = (case stored_json rn st (keyFor slug) of None \<Rightarrow> None | Some v \<Rightarrow> validateAnswer v)"

definition putAnswer :: "(rat \<Rightarrow> jstring) \<Rightarrow> jstring \<Rightarrow> json \<Rightarrow> storage \<Rightarrow> bool \<times> storage" where
  "putAnswer sn slug answer st =
     (let serialized = json_text sn answer in
      if length serialized > MAX_ANSWER_CHARS then (False, st) else safeSetItem (keyFor slug) serialized st)"

text \<open>\<open>{...body, version: 1, updatedAt: Date.now()}\<close> puts the body first.\<close>

definition saveAnswer :: "(rat \<Rightarrow> jstring) \<Rightarrow> int \<Rightarrow> jstring \<Rightarrow> AnswerBody \<Rightarrow> storage \<Rightarrow> bool \<times> storage" where
  "saveAnswer sn date_now slug body =
     putAnswer sn slug (JObj (body_fields body @ [(''version'', int_json 1), (''updatedAt'', int_json date_now)]))"

definition clearAnswer :: "jstring \<Rightarrow> storage \<Rightarrow> storage" where
  "clearAnswer slug = safeRemoveItem (keyFor slug)"

text \<open>An assignment to the key \<open>__proto__\<close> makes no entry.\<close>

definition answer_at :: "(jstring \<Rightarrow> rat) \<Rightarrow> storage \<Rightarrow> jstring \<Rightarrow> (jstring \<times> StoredAnswer) list" where
  "answer_at rn st key =
     (if \<not> starts_with ANSWER_PREFIX key then []
      else let slug = drop (length ANSWER_PREFIX) key in
        if slug = [] \<or> slug = ''__proto__'' then []
        else case readAnswer rn st slug of None \<Rightarrow> [] | Some a \<Rightarrow> [(slug, a)])"

definition readAllAnswers :: "(jstring \<Rightarrow> rat) \<Rightarrow> storage \<Rightarrow> (jstring \<times> StoredAnswer) list" where
  "readAllAnswers rn st = concat (map (answer_at rn st) (safeKeys st))"

subsection \<open>solved-state.ts\<close>

definition SOLVED_KEY :: jstring where "SOLVED_KEY = ''aarch64-playground:practice:solved''"
definition SOLVED_EVENT :: jstring where "SOLVED_EVENT = ''aarch64-playground:practice:solved''"
definition MAX_BUNDLE_ENTRIES :: nat where "MAX_BUNDLE_ENTRIES = 256"
definition MAX_SLUG_CHARS :: nat where "MAX_SLUG_CHARS = 64"

definition getSolvedSlugs :: "(jstring \<Rightarrow> rat) \<Rightarrow> storage \<Rightarrow> jstring list" where
  "getSolvedSlugs rn st = (case isStringArray (stored_json rn st SOLVED_KEY) of None \<Rightarrow> [] | Some ss \<Rightarrow> ss)"


definition writeSolved :: "(rat \<Rightarrow> jstring) \<Rightarrow> jstring list \<Rightarrow> storage \<Rightarrow> storage" where
  "writeSolved sn slugs st =
     (let st' = snd (safeSetItem SOLVED_KEY (json_text sn (JArr (map JStr slugs))) st) in
      if st_window st' then announce SOLVED_EVENT st' else st')"

definition markSolved :: "(rat \<Rightarrow> jstring) \<Rightarrow> (jstring \<Rightarrow> rat) \<Rightarrow> jstring \<Rightarrow> storage \<Rightarrow> storage" where
  "markSolved sn rn slug st =
     (let current = getSolvedSlugs rn st in if slug \<in> set current then st else writeSolved sn (current @ [slug]) st)"

datatype ProgressImportResult = ProgressImported nat nat nat | ProgressRefused jstring

definition buildProgressBundle :: "(jstring \<Rightarrow> rat) \<Rightarrow> storage \<Rightarrow> json" where
  "buildProgressBundle rn st =
     JObj [(''version'', int_json 1), (''solved'', JArr (map JStr (getSolvedSlugs rn st))),
           (''answers'', JObj (object_of (map (\<lambda>(slug, a). (slug, answer_json a)) (readAllAnswers rn st))))]"

definition merge_answer ::
    "(rat \<Rightarrow> jstring) \<Rightarrow> (jstring \<Rightarrow> rat) \<Rightarrow> jstring \<times> json \<Rightarrow> nat \<times> storage \<Rightarrow> nat \<times> storage" where
  "merge_answer sn rn kv acc =
     (case (kv, acc) of ((slug, entry), (added, st)) \<Rightarrow>
        if length slug = 0 \<or> length slug > MAX_SLUG_CHARS then (added, st)
        else case validateAnswer entry of None \<Rightarrow> (added, st)
        | Some answer \<Rightarrow>
            if length (json_text sn (answer_json answer)) > MAX_ANSWER_CHARS then (added, st)
            else if (case readAnswer rn st slug of None \<Rightarrow> False | Some local \<Rightarrow> sa_updatedAt local \<ge> sa_updatedAt answer)
            then (added, st)
            else (case putAnswer sn slug (answer_json answer) st of
                    (True, st') \<Rightarrow> (added + 1, st') | (False, st') \<Rightarrow> (added, st')))"

definition mergeAnswers :: "(rat \<Rightarrow> jstring) \<Rightarrow> (jstring \<Rightarrow> rat) \<Rightarrow> (jstring \<times> json) list \<Rightarrow> storage \<Rightarrow> nat \<times> storage" where
  "mergeAnswers sn rn raw st = fold (merge_answer sn rn) raw (0, st)"

definition import_slug :: "json \<Rightarrow> nat \<Rightarrow> jstring checked" where
  "import_slug entry i =
     (case as_string (Some entry) of None \<Rightarrow> Inl ''that progress file has an entry that is not a name''
      | Some s \<Rightarrow>
          let slug = js_trim s in
          if length slug = 0 then Inl ''that progress file has an empty entry''
          else if length slug > MAX_SLUG_CHARS then
            Inl (''that progress file has an entry longer than '' @ show_int (int MAX_SLUG_CHARS) @ '' characters'')
          else Inr slug)"

definition add_solved :: "jstring \<Rightarrow> jstring list \<Rightarrow> jstring list" where
  "add_solved slug merged = (if slug \<in> set merged then merged else merged @ [slug])"

definition too_many :: jstring where
  "too_many = ''that progress file lists too many exercises (max '' @ show_int (int MAX_BUNDLE_ENTRIES) @ '')''"

definition importProgressBundle ::
    "(rat \<Rightarrow> jstring) \<Rightarrow> (jstring \<Rightarrow> rat) \<Rightarrow> json \<Rightarrow> storage \<Rightarrow> ProgressImportResult \<times> storage" where
  "importProgressBundle sn rn raw st =
     (case as_object (Some raw) of
        None \<Rightarrow> (ProgressRefused ''that file is not a progress export'', st)
      | Some b \<Rightarrow>
          if as_number (map_of b ''version'') \<noteq> Some 1 then (ProgressRefused ''that progress file has an unrecognized version'', st)
          else case as_array (map_of b ''solved'') of
            None \<Rightarrow> (ProgressRefused ''that progress file has no list of solved exercises'', st)
          | Some solved \<Rightarrow>
              if length solved > MAX_BUNDLE_ENTRIES then (ProgressRefused too_many, st)
              else case validate_all import_slug 0 solved of
                Inl e \<Rightarrow> (ProgressRefused e, st)
              | Inr incoming \<Rightarrow>
                  (case (case map_of b ''answers'' of
                           None \<Rightarrow> Inr []
                         | Some v \<Rightarrow> (case as_object (Some v) of
                                       None \<Rightarrow> Inl ''that progress file has a malformed answers section''
                                     | Some answers \<Rightarrow> if length answers > MAX_BUNDLE_ENTRIES then Inl too_many else Inr answers)) of
                     Inl e \<Rightarrow> (ProgressRefused e, st)
                   | Inr answers \<Rightarrow>
                       let current = getSolvedSlugs rn st;
                           merged = fold add_solved incoming current;
                           added = length merged - length current;
                           st1 = (if added > 0 then writeSolved sn merged st else st) in
                       (case mergeAnswers sn rn answers st1 of
                          (answersAdded, st2) \<Rightarrow> (ProgressImported added (length merged) answersAdded, st2))))"

subsection \<open>auto-save.ts\<close>

definition KEY_CURRENT :: jstring where "KEY_CURRENT = ''aarch64-playground:auto-save:current''"
definition KEY_RECENT :: jstring where "KEY_RECENT = ''aarch64-playground:auto-save:recent''"
definition MAX_RECENT :: nat where "MAX_RECENT = 10"

text \<open>\<open>h | 0\<close> and \<open>h >>> 0\<close> as the same 32-bit word, read as signed and unsigned.\<close>

definition hash_step :: "char \<Rightarrow> 32 word \<Rightarrow> 32 word" where
  "hash_step c h = word_of_int (sint (push_bit 5 h) + sint h + int (code c))"

definition hashString :: "jstring \<Rightarrow> jstring" where
  "hashString s = nat_to_string 16 (unat (fold hash_step s 5381))"

definition loadAutoSavedBuffer :: "storage \<Rightarrow> jstring option" where
  "loadAutoSavedBuffer st = safeGetItem st KEY_CURRENT"

definition recent_entry :: "jstring \<Rightarrow> jstring \<Rightarrow> jstring \<Rightarrow> int \<Rightarrow> json" where
  "recent_entry i name body savedAt =
     JObj [(''id'', JStr i), (''name'', JStr name), (''body'', JStr body), (''savedAt'', int_json savedAt)]"

definition isValidRecent :: "json \<Rightarrow> bool" where
  "isValidRecent v \<longleftrightarrow>
     as_string (member v ''id'') \<noteq> None \<and> as_string (member v ''name'') \<noteq> None \<and> as_string (member v ''body'') \<noteq> None \<and>
     as_number (member v ''savedAt'') \<noteq> None"

definition recent_id :: "json \<Rightarrow> jstring" where
  "recent_id v = the (as_string (member v ''id''))"

definition loadRecentInitial :: "(jstring \<Rightarrow> rat) \<Rightarrow> storage \<Rightarrow> json list" where
  "loadRecentInitial rn st =
     (case as_array (stored_json rn st KEY_RECENT) of None \<Rightarrow> []
      | Some xs \<Rightarrow> take MAX_RECENT (filter isValidRecent xs))"

definition push_recent ::
    "(rat \<Rightarrow> jstring) \<Rightarrow> int \<Rightarrow> jstring \<Rightarrow> jstring \<Rightarrow> json list \<Rightarrow> storage \<Rightarrow> json list \<times> storage" where
  "push_recent sn date_now name body prev st =
     (let i = hashString body;
          filtered = filter (\<lambda>e. recent_id e \<noteq> i) prev;
          entries = take MAX_RECENT (recent_entry i name body date_now # filtered) in
      (entries, snd (safeSetItem KEY_RECENT (json_text sn (JArr entries)) st)))"

definition clear_recent :: "storage \<Rightarrow> json list \<times> storage" where
  "clear_recent st = ([], snd (safeSetItem KEY_RECENT ''[]'' st))"

subsection \<open>A value under a key\<close>

lemma safeSetItem_True:
  assumes "safeSetItem key v st = (True, st')"
  shows "safeGetItem st' key = Some v" "k \<noteq> key \<Longrightarrow> safeGetItem st' k = safeGetItem st k"
  using assms by (auto simp: safeSetItem_def safeGetItem_def update_conv split: if_splits)

lemma safeSetItem_False: "safeSetItem key v st = (False, st') \<Longrightarrow> st' = st"
  by (auto simp: safeSetItem_def split: if_splits)

lemma safeSetItem_other: "k \<noteq> key \<Longrightarrow> safeGetItem (snd (safeSetItem key v st)) k = safeGetItem st k"
  by (auto simp: safeSetItem_def safeGetItem_def update_conv)

lemma safeGetItem_announce [simp]: "safeGetItem (announce e st) k = safeGetItem st k"
  by (simp add: announce_def safeGetItem_def)

lemma stored_json_announce [simp]: "stored_json rn (announce e st) k = stored_json rn st k"
  by (simp add: stored_json_def)

lemma stored_json_cong: "safeGetItem st' k = safeGetItem st k \<Longrightarrow> stored_json rn st' k = stored_json rn st k"
  by (simp add: stored_json_def)

lemma stored_json_set:
  "safeSetItem key (json_text sn v) st = (True, st') \<Longrightarrow> plain v \<Longrightarrow> stored_json rn st' key = Some v"
  using text_first [of v sn] by (simp add: stored_json_def safeSetItem_True parse_stringify)

locale stored_value =
  fixes print :: "'a \<Rightarrow> json" and load :: "json option \<Rightarrow> 'b" and view :: "'a \<Rightarrow> 'b" and good :: "'a \<Rightarrow> bool"
  assumes plain_print: "good a \<Longrightarrow> plain (print a)"
    and load_print: "good a \<Longrightarrow> load (Some (print a)) = view a"
begin

lemma written_loads:
  "good a \<Longrightarrow> safeSetItem key (json_text sn (print a)) st = (True, st') \<Longrightarrow> load (stored_json rn st' key) = view a"
  by (simp add: stored_json_set plain_print load_print)

lemma others_kept:
  "safeSetItem key v st = (landed, st') \<Longrightarrow> k \<noteq> key \<Longrightarrow> load (stored_json rn st' k) = load (stored_json rn st k)"
  using safeSetItem_other [of k key v st] by (auto intro: stored_json_cong arg_cong [of _ _ load])

end

text \<open>Objects written with keys that are no indices and do not repeat keep their order.\<close>

lemma put_key_new: "k \<notin> fst ` set kvs \<Longrightarrow> put_key k v kvs = kvs @ [(k, v)]"
  by (induction kvs) auto

lemma fold_put_key_distinct:
  "distinct (map fst (acc @ kvs)) \<Longrightarrow> fold (\<lambda>(k, v). put_key k v) kvs acc = acc @ kvs"
proof (induction kvs arbitrary: acc)
  case (Cons kv kvs)
  obtain k v where kv: "kv = (k, v)" by fastforce
  have "put_key k v acc = acc @ [(k, v)]" using Cons.prems kv by (intro put_key_new) auto
  then show ?case using Cons.IH [of "acc @ [(k, v)]"] Cons.prems kv by simp
qed simp

lemma object_of_distinct:
  assumes "distinct (map fst kvs)" "\<forall>kv \<in> set kvs. \<not> index_key (fst kv)"
  shows "object_of kvs = kvs"
proof -
  have "filter (\<lambda>(k, v). index_key k) kvs = []" "filter (\<lambda>(k, v). \<not> index_key k) kvs = kvs"
    using assms(2) by (auto simp: filter_empty_conv intro!: filter_True)
  then show ?thesis using fold_put_key_distinct [of "[]" kvs] assms(1) by (simp add: object_of_def own_order_def)
qed

lemma not_index_key: "k \<noteq> [] \<Longrightarrow> \<not> is_digit (hd k) \<Longrightarrow> \<not> index_key k"
  by (cases k) (auto simp: index_key_def digits_only_def is_digit_in_10)

lemma not_digits [simp]:
  "\<not> is_digit (CHR ''n'')" "\<not> is_digit (CHR ''s'')" "\<not> is_digit (CHR ''a'')" "\<not> is_digit (CHR ''v'')" "\<not> is_digit (CHR ''u'')"
  "\<not> is_digit (CHR ''k'')" "\<not> is_digit (CHR ''g'')" "\<not> is_digit (CHR ''i'')" "\<not> is_digit (CHR ''b'')" "\<not> is_digit (CHR ''f'')"
  "\<not> is_digit (CHR ''c'')" "\<not> is_digit (CHR ''h'')" "\<not> is_digit (CHR ''l'')" "\<not> is_digit (CHR ''e'')"
  by (simp_all add: is_digit_def code_def)

lemma plain_int_json [simp]: "plain (int_json n) \<longleftrightarrow> \<bar>n\<bar> \<le> 2 ^ 53"
  by (auto simp: int_json_def)

subsection \<open>Bookmarks as a map\<close>

definition load_saves :: "json option \<Rightarrow> json list" where
  "load_saves v = (case as_array v of None \<Rightarrow> [] | Some xs \<Rightarrow> filter isValidSave xs)"

definition saves_good :: "json list \<Rightarrow> bool" where
  "saves_good xs \<longleftrightarrow> (\<forall>x \<in> set xs. isValidSave x \<and> plain x)"

lemma readAll_load: "readAll rn st = load_saves (stored_json rn st SAVES_KEY)"
  by (simp add: readAll_def load_saves_def)

interpretation saves: stored_value JArr load_saves "\<lambda>xs. xs" saves_good
  by unfold_locales (auto simp: saves_good_def load_saves_def intro!: filter_True)

lemma writeAll_readAll:
  assumes "writeAll sn xs st = (landed, st')" "saves_good xs"
  shows "readAll rn st' = (if landed then xs else readAll rn st)"
proof -
  obtain b st1 where w: "safeSetItem SAVES_KEY (json_text sn (JArr xs)) st = (b, st1)" by fastforce
  show ?thesis
  proof (cases b)
    case True
    have "landed" "st' = announce SAVES_CHANGED_EVENT st1" using assms(1) w True by (simp_all add: writeAll_def)
    moreover have "safeSetItem SAVES_KEY (json_text sn (JArr xs)) st = (True, st1)" using w True by simp
    ultimately show ?thesis using saves.written_loads [OF assms(2)] by (simp add: readAll_load)
  next
    case False
    then show ?thesis using assms(1) w safeSetItem_False [of SAVES_KEY _ st st1] by (auto simp: writeAll_def)
  qed
qed

lemma find_append_cases: "find P (xs @ ys) = (case find P xs of None \<Rightarrow> find P ys | Some x \<Rightarrow> Some x)"
  by (induction xs) auto

abbreviation named :: "jstring \<Rightarrow> json list \<Rightarrow> json option" where
  "named n \<equiv> find (\<lambda>s. save_name s = n)"

lemma named_replace:
  "find_index (\<lambda>s. save_name s = save_name x) xs = Some i \<Longrightarrow>
   named n (xs[i := x]) = (if n = save_name x then Some x else named n xs)"
  by (induction xs arbitrary: i) (auto split: if_splits)

lemma named_filter: "named n (filter (\<lambda>s. save_name s \<noteq> m) xs) = (if n = m then None else named n xs)"
  by (induction xs) auto

lemma find_index_find: "find_index P xs = None \<Longrightarrow> find P xs = None"
  by (induction xs) (auto split: if_splits)

text \<open>The operations of the bookmark panel, and what they do to the map from names to bookmarks.\<close>

datatype bookmark_op = Put NamedSave | Remove jstring | Clear | Import json

fun run_op :: "(rat \<Rightarrow> jstring) \<Rightarrow> (jstring \<Rightarrow> rat) \<Rightarrow> bookmark_op \<Rightarrow> storage \<Rightarrow> bool \<times> storage" where
  "run_op sn rn (Put s) st = putSave sn rn (save_json s) st"
| "run_op sn rn (Remove n) st = removeSave sn rn n st"
| "run_op sn rn Clear st = clearSaves sn st"
| "run_op sn rn (Import b) st =
     (case importBundle sn rn b st of (Imported added skipped stored, st') \<Rightarrow> (stored, st') | (NotABundle, st') \<Rightarrow> (False, st'))"

definition bundle_saves :: "json \<Rightarrow> json list" where
  "bundle_saves b = (case as_array (member b ''saves'') of None \<Rightarrow> [] | Some xs \<Rightarrow> filter isValidSave xs)"

fun spec_op :: "bookmark_op \<Rightarrow> (jstring \<Rightarrow> json option) \<Rightarrow> jstring \<Rightarrow> json option" where
  "spec_op (Put s) m = m(ns_name s := Some (save_json s))"
| "spec_op (Remove n) m = m(n := None)"
| "spec_op Clear m = Map.empty"
| "spec_op (Import b) m = (\<lambda>n. case m n of Some s \<Rightarrow> Some s | None \<Rightarrow> named n (bundle_saves b))"

fun op_ok :: "bookmark_op \<Rightarrow> bool" where
  "op_ok (Put s) \<longleftrightarrow> ns_name s \<noteq> [] \<and> ns_stepCount s \<le> 10000000"
| "op_ok (Import b) \<longleftrightarrow> plain b"
| "op_ok _ \<longleftrightarrow> True"

lemma save_json_ok:
  assumes "ns_name s \<noteq> []" "ns_stepCount s \<le> 10000000"
  shows "isValidSave (save_json s)" "plain (save_json s)" "save_name (save_json s) = ns_name s"
proof -
  show "isValidSave (save_json s)" using assms
    by (simp add: isValidSave_def save_json_def optional_string_def opt_field_def split: option.splits)
  show "save_name (save_json s) = ns_name s" by (simp add: save_name_def save_json_def)
  have "object_of ([(''name'', JStr (ns_name s)), (''source'', JStr (ns_source s))] @ opt_field ''args'' JStr (ns_args s) @
      opt_field ''stdin'' JStr (ns_stdin s) @ [(''stepCount'', int_json (int (ns_stepCount s))), (''savedAt'', JStr (ns_savedAt s))]) =
     [(''name'', JStr (ns_name s)), (''source'', JStr (ns_source s))] @ opt_field ''args'' JStr (ns_args s) @
      opt_field ''stdin'' JStr (ns_stdin s) @ [(''stepCount'', int_json (int (ns_stepCount s))), (''savedAt'', JStr (ns_savedAt s))]"
    by (rule object_of_distinct) (auto simp: opt_field_def not_index_key split: option.splits)
  then show "plain (save_json s)" using assms(2)
    by (auto simp: save_json_def opt_field_def split: option.splits)
qed

lemma fold_merge_save:
  assumes "fold merge_save inc (ex, a, k) = (ex', a', k')"
  shows "length ex' = length ex + (a' - a) \<and> a \<le> a' \<and>
    named n ex' = (case named n ex of Some s \<Rightarrow> Some s | None \<Rightarrow> named n (filter isValidSave inc)) \<and>
    set ex' \<subseteq> set ex \<union> set (filter isValidSave inc)"
  using assms
proof (induction inc arbitrary: ex a k)
  case (Cons c inc)
  obtain ex1 a1 k1 where m: "merge_save c (ex, a, k) = (ex1, a1, k1)" by (cases "merge_save c (ex, a, k)") auto
  have rest: "fold merge_save inc (ex1, a1, k1) = (ex', a', k')" using Cons.prems m by simp
  have step: "(ex1 = ex \<and> a1 = a \<and> (\<not> isValidSave c \<or> save_name c \<in> save_name ` set ex)) \<or>
      (ex1 = ex @ [c] \<and> a1 = a + 1 \<and> isValidSave c \<and> save_name c \<notin> save_name ` set ex)"
    using m by (auto simp: merge_save_def split: if_splits)
  have seen: "named n ex \<noteq> None" if "save_name c = n" "save_name c \<in> save_name ` set ex"
    using that by (auto simp: find_None_iff)
  have unseen: "named n ex = None" if "save_name c = n" "save_name c \<notin> save_name ` set ex"
    using that unfolding find_None_iff by (metis imageI)
  have "named n ex' = (case named n ex of Some s \<Rightarrow> Some s | None \<Rightarrow> named n (filter isValidSave (c # inc)))"
    using Cons.IH [OF rest] step seen unseen by (auto simp: find_append_cases split: option.splits)
  then show ?case using Cons.IH [OF rest] step by auto
qed (auto split: option.splits)

lemma plain_member: "plain b \<Longrightarrow> member b k = Some v \<Longrightarrow> plain v"
  by (cases b) (fastforce dest: map_of_SomeD)+

lemma bundle_saves_good: "plain b \<Longrightarrow> saves_good (bundle_saves b)"
proof -
  assume b: "plain b"
  have "plain v" if "as_array (member b ''saves'') = Some xs" "v \<in> set xs" for xs v
    using that plain_member [OF b, of "''saves''"] by (cases "(member b ''saves'')" rule: as_array.cases) auto
  then show ?thesis by (cases "as_array (member b ''saves'')") (auto simp: saves_good_def bundle_saves_def)
qed

lemma import_cases:
  assumes "importBundle sn rn b st = (res, st')" "plain b" "saves_good (readAll rn st)"
  shows "(res = NotABundle \<and> st' = st) \<or>
    (\<exists>added skipped ex stored. res = Imported added skipped stored \<and> saves_good ex \<and>
      (\<forall>n. named n ex = (case getSave rn st n of Some s \<Rightarrow> Some s | None \<Rightarrow> named n (bundle_saves b))) \<and>
      ((writeAll sn ex st = (stored, st')) \<or> (stored \<and> st' = st \<and> ex = readAll rn st)))"
proof (cases "\<exists>inc. member b ''version'' = Some (JNum 1) \<and> as_array (member b ''saves'') = Some inc")
  case False
  then show ?thesis using assms(1)
    by (auto simp: importBundle_def split: option.splits json.splits if_splits)
next
  case True
  then obtain inc where inc: "member b ''version'' = Some (JNum 1)" "as_array (member b ''saves'') = Some inc" by blast
  obtain ex added skipped where f: "fold merge_save inc (readAll rn st, 0, 0) = (ex, added, skipped)"
    using prod_cases3 by blast
  have bs: "bundle_saves b = filter isValidSave inc" using inc by (simp add: bundle_saves_def)
  have n: "named n ex = (case getSave rn st n of Some s \<Rightarrow> Some s | None \<Rightarrow> named n (bundle_saves b))" for n
    unfolding bs getSave_def using fold_merge_save [OF f, of n] by blast
  have g: "saves_good ex" using fold_merge_save [OF f] bundle_saves_good [OF assms(2)] assms(3) bs by (auto simp: saves_good_def)
  show ?thesis
  proof (cases "added > 0")
    case True
    obtain stored st1 where w: "writeAll sn ex st = (stored, st1)" by fastforce
    have "res = Imported added skipped stored" "st' = st1" using assms(1) inc f True w by (simp_all add: importBundle_def)
    then show ?thesis using n g w by blast
  next
    case False
    then have r: "res = Imported added skipped True" "st' = st" using assms(1) inc f by (simp_all add: importBundle_def)
    have "fold merge_save xs (ex0, a, k) = (ex1, a, k1) \<Longrightarrow> ex1 = ex0" for xs ex0 a k ex1 k1
    proof (induction xs arbitrary: k)
      case (Cons x xs)
      show ?case
      proof (cases "\<not> isValidSave x \<or> save_name x \<in> save_name ` set ex0")
        case True
        then have "merge_save x (ex0, a, k) = (ex0, a, k + 1)" by (auto simp: merge_save_def)
        then show ?thesis using Cons by simp
      next
        case False
        then have "merge_save x (ex0, a, k) = (ex0 @ [x], a + 1, k)" by (auto simp: merge_save_def)
        then have "fold merge_save xs (ex0 @ [x], a + 1, k) = (ex1, a, k1)" using Cons.prems by simp
        from fold_merge_save [OF this] show ?thesis by auto
      qed
    qed simp
    then have "ex = readAll rn st" using f False by auto
    then show ?thesis using n g r by blast
  qed
qed

text \<open>C21: the bookmarks in the browser implement a map from names to bookmarks: saving enters the
  bookmark under its name, removing deletes the name, clearing empties the map, and importing a file
  adds the valid bookmarks whose names are free, the first of each name, and replaces none.  This
  holds through the JSON text in storage, and an operation whose write the browser refuses leaves the
  map as it was.\<close>

theorem bookmarks_refine_map:
  assumes "op_ok op" "saves_good (readAll rn st)" "run_op sn rn op st = (landed, st')"
  shows "getSave rn st' = (if landed then spec_op op (getSave rn st) else getSave rn st) \<and> saves_good (readAll rn st')"
proof (cases op)
  case (Put s)
  let ?x = "save_json s" and ?all = "readAll rn st"
  have x: "isValidSave ?x" "plain ?x" "save_name ?x = ns_name s" using save_json_ok assms(1) Put by auto
  define ys where "ys = (case find_index (\<lambda>s'. save_name s' = save_name ?x) ?all of Some i \<Rightarrow> ?all[i := ?x] | None \<Rightarrow> ?all @ [?x])"
  have w: "writeAll sn ys st = (landed, st')" using assms(3) Put by (simp add: putSave_def ys_def Let_def split: option.splits)
  have g: "saves_good ys" using assms(2) x set_update_subset_insert [of ?all _ ?x]
    by (fastforce simp: saves_good_def ys_def split: option.splits)
  have "named n ys = (if n = ns_name s then Some ?x else named n ?all)" for n
    using x(3) named_replace [of ?x ?all] find_index_find [of _ ?all]
    by (auto simp: ys_def find_append_cases split: option.splits)
  then show ?thesis using writeAll_readAll [OF w g, of rn] g assms(2) Put
    by (auto simp: getSave_def fun_eq_iff)
next
  case (Remove n)
  have g: "saves_good (filter (\<lambda>s. save_name s \<noteq> n) (readAll rn st))" using assms(2) by (simp add: saves_good_def)
  then show ?thesis using writeAll_readAll [OF _ g, of sn st landed st' rn] assms Remove
    by (auto simp: removeSave_def getSave_def fun_eq_iff named_filter)
next
  case Clear
  have "saves_good []" by (simp add: saves_good_def)
  then show ?thesis using writeAll_readAll [of sn "[]" st landed st' rn] assms Clear
    by (auto simp: clearSaves_def getSave_def fun_eq_iff)
next
  case (Import b)
  obtain res where i: "importBundle sn rn b st = (res, st')" "landed = (case res of Imported a k stored \<Rightarrow> stored | NotABundle \<Rightarrow> False)"
    using assms(3) Import by (auto split: prod.splits ImportResult.splits)
  from import_cases [OF i(1) _ assms(2)] assms(1) Import show ?thesis
    using i(2) writeAll_readAll assms(2) by (auto simp: getSave_def fun_eq_iff split: if_splits)
qed

definition fresh_storage :: storage where
  "fresh_storage = \<lparr>st_window = True, st_usable = True, st_accepts = \<lambda>_ _ _. True, st_items = [], st_events = []\<rparr>"

lemma readAll_fresh [simp]: "readAll rn fresh_storage = []"
  by (simp add: readAll_def stored_json_def safeGetItem_def fresh_storage_def)

definition demo_save :: NamedSave where
  "demo_save = \<lparr>ns_name = ''loop'', ns_source = ''ret'', ns_args = None, ns_stdin = Some [], ns_stepCount = 3, ns_savedAt = ''2024''\<rparr>"

theorem bookmarks_refine_map_witness:
  "\<exists>st'. run_op (\<lambda>_. []) (\<lambda>_. 0) (Put demo_save) fresh_storage = (True, st') \<and>
     getSave (\<lambda>_. 0) st' ''loop'' = Some (save_json demo_save)"
proof -
  obtain st' where r: "run_op (\<lambda>_. []) (\<lambda>_. 0) (Put demo_save) fresh_storage = (True, st')"
    by (simp add: putSave_def Let_def writeAll_def safeSetItem_def fresh_storage_def [symmetric])
      (simp add: fresh_storage_def)
  then show ?thesis
    using bookmarks_refine_map [of "Put demo_save" "\<lambda>_. 0" fresh_storage "\<lambda>_. []" True st']
    by (simp add: demo_save_def saves_good_def)
qed

subsection \<open>Answers\<close>

definition list_index_ok :: "int list option \<Rightarrow> bool" where
  "list_index_ok g \<longleftrightarrow> (\<forall>ns. g = Some ns \<longrightarrow> (\<forall>n \<in> set ns. 0 \<le> n))"

fun body_ok :: "AnswerBody \<Rightarrow> bool" where
  "body_ok (WriteAnswer _) \<longleftrightarrow> True"
| "body_ok (QuizAnswer _ g) \<longleftrightarrow> list_index_ok g"
| "body_ok (BlanksAnswer _ g) \<longleftrightarrow> list_index_ok g"
| "body_ok (PredictAnswer _ g) \<longleftrightarrow> list_index_ok g"

lemma collect_map: "(\<And>a. a \<in> set as \<Longrightarrow> f (g a) = Some a) \<Longrightarrow> collect f (map g as) = Some as"
  by (induction as) auto

lemma collect_Some: "collect f xs = Some ys \<Longrightarrow> list_all2 (\<lambda>x y. f x = Some y) xs ys"
  by (induction xs arbitrary: ys) (auto split: option.splits)

lemma isStringArray_print [simp]: "isStringArray (Some (JArr (map JStr ss))) = Some ss"
  by (simp add: isStringArray_def collect_map)

lemma isIndexArray_print: "list_index_ok g \<Longrightarrow> isIndexArray (map_option (\<lambda>ns. JArr (map int_json ns)) g) = g"
  by (cases g) (auto simp: isIndexArray_def list_index_ok_def intro!: collect_map)

lemma isChoiceArray_print [simp]: "isChoiceArray (Some (JArr (map (case_option JNull int_json) a))) = Some a"
  by (auto simp: isChoiceArray_def int_json_def whole_def intro!: collect_map split: option.splits)

lemma isIndexArray_ok:
  assumes "isIndexArray v = Some ns" "n \<in> set ns"
  shows "0 \<le> n"
proof -
  obtain xs where "collect (\<lambda>x. case as_integer (Some x) of None \<Rightarrow> None | Some n \<Rightarrow> if n \<ge> 0 then Some n else None) xs = Some ns"
    using assms(1) by (auto simp: isIndexArray_def split: option.splits)
  from collect_Some [OF this] assms(2) show ?thesis
    by (auto simp: list_all2_conv_all_nth in_set_conv_nth split: option.splits if_splits)
qed

lemma validateAnswer_ok: "validateAnswer v = Some a \<Longrightarrow> body_ok (sa_body a)"
  by (auto simp: validateAnswer_def Let_def list_index_ok_def isIndexArray_ok split: option.splits if_splits)

lemma validateAnswer_answer_json: "body_ok (sa_body a) \<Longrightarrow> validateAnswer (answer_json a) = Some a"
  by (cases a; cases "sa_body a")
    (auto simp: validateAnswer_def answer_json_def int_json_def graded_field_def isIndexArray_print Let_def)

lemma plain_integer: "plain x \<Longrightarrow> as_integer (Some x) = Some n \<Longrightarrow> \<bar>n\<bar> \<le> 2 ^ 53"
  by (cases x) (auto simp: whole_def)

lemma plain_array: "(\<forall>w. v = Some w \<longrightarrow> plain w) \<Longrightarrow> as_array v = Some xs \<Longrightarrow> x \<in> set xs \<Longrightarrow> plain x"
  by (cases v rule: as_array.cases) auto

lemma collect_source: "collect f xs = Some ys \<Longrightarrow> y \<in> set ys \<Longrightarrow> \<exists>x \<in> set xs. f x = Some y"
  by (induction xs arbitrary: ys) (auto split: option.splits)

lemma isIndexArray_small:
  "isIndexArray v = Some ns \<Longrightarrow> (\<forall>w. v = Some w \<longrightarrow> plain w) \<Longrightarrow> n \<in> set ns \<Longrightarrow> \<bar>n\<bar> \<le> 2 ^ 53"
  by (cases "as_array v")
    (auto simp: isIndexArray_def dest!: collect_source plain_array split: option.splits if_splits dest: plain_integer)

lemma isChoiceArray_small:
  "isChoiceArray v = Some ns \<Longrightarrow> (\<forall>w. v = Some w \<longrightarrow> plain w) \<Longrightarrow> Some n \<in> set ns \<Longrightarrow> \<bar>n\<bar> \<le> 2 ^ 53"
  by (cases "as_array v")
    (auto simp: isChoiceArray_def dest!: collect_source plain_array split: option.splits if_splits dest: plain_integer)

fun body_small :: "AnswerBody \<Rightarrow> bool" where
  "body_small (WriteAnswer _) \<longleftrightarrow> True"
| "body_small (QuizAnswer a g) \<longleftrightarrow>
     (\<forall>n. Some n \<in> set a \<longrightarrow> \<bar>n\<bar> \<le> 2 ^ 53) \<and> (\<forall>ns. g = Some ns \<longrightarrow> (\<forall>n \<in> set ns. \<bar>n\<bar> \<le> 2 ^ 53))"
| "body_small (BlanksAnswer _ g) \<longleftrightarrow> (\<forall>ns. g = Some ns \<longrightarrow> (\<forall>n \<in> set ns. \<bar>n\<bar> \<le> 2 ^ 53))"
| "body_small (PredictAnswer _ g) \<longleftrightarrow> (\<forall>ns. g = Some ns \<longrightarrow> (\<forall>n \<in> set ns. \<bar>n\<bar> \<le> 2 ^ 53))"

lemma plain_answer:
  assumes "body_small (sa_body a)" "plain (JNum (sa_updatedAt a))"
  shows "plain (answer_json a)"
proof -
  let ?kvs = "[(''version'', int_json 1), (''updatedAt'', JNum (sa_updatedAt a))] @ body_fields (sa_body a)"
  have "object_of ?kvs = ?kvs"
    by (rule object_of_distinct; cases "sa_body a") (auto simp: graded_field_def opt_field_def not_index_key split: option.splits)
  moreover have "\<forall>kv \<in> set ?kvs. plain (snd kv)"
    using assms by (cases "sa_body a") (auto simp: graded_field_def opt_field_def split: option.splits)
  ultimately show ?thesis by (simp only: answer_json_def plain.simps)
qed

lemma plain_answer_json:
  assumes "validateAnswer v = Some a" "plain v"
  shows "plain (answer_json a)"
proof (rule plain_answer)
  have m: "\<forall>w. member v k = Some w \<longrightarrow> plain w" for k using plain_member [OF assms(2)] by blast
  have "as_number (member v ''updatedAt'') = Some (sa_updatedAt a)"
    using assms(1) by (auto simp: validateAnswer_def Let_def split: option.splits if_splits)
  then show "plain (JNum (sa_updatedAt a))" using m [of "''updatedAt''"] by (cases "member v ''updatedAt''" rule: as_number.cases) auto
  show "body_small (sa_body a)"
    using assms(1) isIndexArray_small [OF _ m] isChoiceArray_small [OF _ m]
    by (auto simp: validateAnswer_def Let_def split: option.splits if_splits)
qed

definition load_answer :: "json option \<Rightarrow> StoredAnswer option" where
  "load_answer v = (case v of None \<Rightarrow> None | Some v \<Rightarrow> validateAnswer v)"

definition answer_good :: "StoredAnswer \<Rightarrow> bool" where
  "answer_good a \<longleftrightarrow> body_ok (sa_body a) \<and> plain (answer_json a)"

interpretation answers: stored_value answer_json load_answer Some answer_good
  by unfold_locales (auto simp: answer_good_def load_answer_def validateAnswer_answer_json)

lemma readAnswer_load: "readAnswer rn st slug = load_answer (stored_json rn st (keyFor slug))"
  by (simp add: readAnswer_def load_answer_def)

lemma validated_good: "validateAnswer v = Some a \<Longrightarrow> plain v \<Longrightarrow> answer_good a"
  by (simp add: answer_good_def validateAnswer_ok plain_answer_json)

lemma keyFor_inj [simp]: "keyFor a = keyFor b \<longleftrightarrow> a = b"
  by (simp add: keyFor_def)

lemma keyFor_not_solved [simp]: "keyFor slug \<noteq> SOLVED_KEY" "SOLVED_KEY \<noteq> keyFor slug"
  by (simp_all add: keyFor_def ANSWER_PREFIX_def SOLVED_KEY_def)

lemma putAnswer_reads:
  assumes "putAnswer sn slug (answer_json a) st = (landed, st')" "answer_good a"
  shows "readAnswer rn st' slug' = (if landed \<and> slug' = slug then Some a else readAnswer rn st slug')"
    "k \<notin> range keyFor \<Longrightarrow> safeGetItem st' k = safeGetItem st k"
proof -
  consider (put) "landed" "safeSetItem (keyFor slug) (json_text sn (answer_json a)) st = (True, st')" | (not) "\<not> landed" "st' = st"
    using assms(1) safeSetItem_False [of "keyFor slug" _ st st'] by (cases landed) (auto simp: putAnswer_def Let_def split: if_splits)
  note c = this
  from c show "readAnswer rn st' slug' = (if landed \<and> slug' = slug then Some a else readAnswer rn st slug')"
  proof cases
    case put
    then show ?thesis using answers.written_loads [OF assms(2) put(2), of rn] answers.others_kept [OF put(2), of "keyFor slug'" rn]
      by (auto simp: readAnswer_load)
  qed simp
  from c show "safeGetItem st' k = safeGetItem st k" if "k \<notin> range keyFor"
  proof cases
    case put
    then show ?thesis using safeSetItem_True(2) [OF put(2)] that by blast
  qed simp
qed

subsection \<open>Importing progress\<close>

text \<open>What one slug's answer may become: it stays, or a strictly newer one of the file takes its place.\<close>

definition only_newer :: "(jstring \<times> json) list \<Rightarrow> jstring \<Rightarrow> StoredAnswer option \<Rightarrow> StoredAnswer option \<Rightarrow> bool" where
  "only_newer raw slug old new \<longleftrightarrow>
     new = old \<or>
     (\<exists>entry a. (slug, entry) \<in> set raw \<and> validateAnswer entry = Some a \<and> new = Some a \<and>
        (\<forall>local. old = Some local \<longrightarrow> sa_updatedAt local < sa_updatedAt a))"

lemma merge_answer_step:
  assumes "merge_answer sn rn (slug, entry) (n, st) = (n', st')" "plain entry"
  shows "only_newer [(slug, entry)] s (readAnswer rn st s) (readAnswer rn st' s)"
    "k \<notin> range keyFor \<Longrightarrow> safeGetItem st' k = safeGetItem st k"
proof -
  have "st' = st \<or> (\<exists>a landed. validateAnswer entry = Some a \<and> putAnswer sn slug (answer_json a) st = (landed, st') \<and>
      (\<forall>local. readAnswer rn st slug = Some local \<longrightarrow> sa_updatedAt local < sa_updatedAt a))"
    using assms(1) by (auto simp: merge_answer_def not_le split: if_splits option.splits prod.splits bool.splits)
  then show "only_newer [(slug, entry)] s (readAnswer rn st s) (readAnswer rn st' s)"
    "k \<notin> range keyFor \<Longrightarrow> safeGetItem st' k = safeGetItem st k"
    using putAnswer_reads [OF _ validated_good [OF _ assms(2)]] by (auto simp: only_newer_def split: if_splits)
qed

lemma only_newer_trans:
  "only_newer xs s a b \<Longrightarrow> only_newer ys s b c \<Longrightarrow> only_newer (xs @ ys) s a c"
  by (auto simp: only_newer_def) (metis order_less_trans)+

lemma mergeAnswers_only_newer:
  assumes "fold (merge_answer sn rn) raw (n, st) = (n', st')" "\<forall>kv \<in> set raw. plain (snd kv)"
  shows "only_newer raw s (readAnswer rn st s) (readAnswer rn st' s) \<and>
    (\<forall>k. k \<notin> range keyFor \<longrightarrow> safeGetItem st' k = safeGetItem st k)"
  using assms
proof (induction raw arbitrary: n st)
  case (Cons kv raw)
  obtain slug entry where kv: "kv = (slug, entry)" by fastforce
  obtain n1 st1 where m: "merge_answer sn rn (slug, entry) (n, st) = (n1, st1)" by fastforce
  have r: "fold (merge_answer sn rn) raw (n1, st1) = (n', st')" using Cons.prems(1) kv m by simp
  have p: "plain entry" using Cons.prems(2) kv by simp
  have "only_newer ([(slug, entry)] @ raw) s (readAnswer rn st s) (readAnswer rn st' s)"
    using only_newer_trans merge_answer_step(1) [OF m p] Cons.IH [OF r] Cons.prems(2) by (meson list.set_intros(2))
  then show ?case using merge_answer_step(2) [OF m p] Cons.IH [OF r] Cons.prems(2) kv by auto
qed (simp add: only_newer_def)

definition load_solved :: "json option \<Rightarrow> jstring list" where
  "load_solved v = (case isStringArray v of None \<Rightarrow> [] | Some ss \<Rightarrow> ss)"

interpretation solved: stored_value "\<lambda>ss. JArr (map JStr ss)" load_solved "\<lambda>ss. ss" "\<lambda>_. True"
  by unfold_locales (auto simp: load_solved_def)

lemma getSolvedSlugs_load: "getSolvedSlugs rn st = load_solved (stored_json rn st SOLVED_KEY)"
  by (simp add: getSolvedSlugs_def load_solved_def)

lemma writeSolved_reads:
  shows "getSolvedSlugs rn (writeSolved sn ss st) \<in> {ss, getSolvedSlugs rn st}"
    "readAnswer rn (writeSolved sn ss st) slug = readAnswer rn st slug"
proof -
  obtain b st1 where w: "safeSetItem SOLVED_KEY (json_text sn (JArr (map JStr ss))) st = (b, st1)" by fastforce
  have g: "safeGetItem (writeSolved sn ss st) k = safeGetItem st1 k" for k using w by (simp add: writeSolved_def Let_def)
  then have j: "stored_json rn (writeSolved sn ss st) k = stored_json rn st1 k" for k by (rule stored_json_cong)
  show "getSolvedSlugs rn (writeSolved sn ss st) \<in> {ss, getSolvedSlugs rn st}"
    using w solved.written_loads [where a = ss and st = st and st' = st1 and rn = rn] safeSetItem_False [of SOLVED_KEY _ st st1]
    by (cases b) (auto simp: getSolvedSlugs_load j)
  show "readAnswer rn (writeSolved sn ss st) slug = readAnswer rn st slug"
    using answers.others_kept [OF w, of "keyFor slug" rn] by (simp add: readAnswer_load j)
qed

lemma fold_add_solved: "set (fold add_solved inc cur) = set cur \<union> set inc"
  by (induction inc arbitrary: cur) (auto simp: add_solved_def)





lemma SOLVED_KEY_no_answer: "SOLVED_KEY \<notin> range keyFor"
  by auto





subsection \<open>Moving to another browser\<close>

lemma readAnswer_key: "readAnswer rn st slug = Some a \<Longrightarrow> keyFor slug \<in> set (safeKeys st)"
  by (auto simp: readAnswer_def stored_json_def safeGetItem_def safeKeys_def split: option.splits if_splits
      dest!: map_of_SomeD intro: rev_image_eqI)

lemma key_slug: "starts_with ANSWER_PREFIX key \<longleftrightarrow> (\<exists>slug. key = keyFor slug)"
  by (simp add: starts_with_iff keyFor_def)

lemma drop_keyFor [simp]: "drop (length ANSWER_PREFIX) (keyFor slug) = slug"
  by (simp add: keyFor_def)

lemma length_keyFor [simp]: "length (keyFor slug) \<le> length ANSWER_PREFIX \<longleftrightarrow> slug = []"
  by (simp add: keyFor_def)

lemma answer_at_iff:
  "(slug, a) \<in> set (answer_at rn st key) \<longleftrightarrow>
     key = keyFor slug \<and> slug \<noteq> [] \<and> slug \<noteq> ''__proto__'' \<and> readAnswer rn st slug = Some a"
  by (auto simp: answer_at_def key_slug Let_def split: option.splits if_splits)

lemma readAllAnswers_iff:
  "(slug, a) \<in> set (readAllAnswers rn st) \<longleftrightarrow> slug \<noteq> [] \<and> slug \<noteq> ''__proto__'' \<and> readAnswer rn st slug = Some a"
  using readAnswer_key [of rn st slug a] by (auto simp: readAllAnswers_def answer_at_iff)

lemma distinct_readAllAnswers:
  assumes "distinct (map fst (st_items st))"
  shows "distinct (map fst (readAllAnswers rn st))"
proof -
  have d: "distinct (map fst (answer_at rn st key))" for key by (simp add: answer_at_def Let_def split: option.split)
  have "distinct (map fst (concat (map (answer_at rn st) keys)))" if "distinct keys" for keys
    using that
  proof (induction keys)
    case (Cons key keys)
    have "fst ` set (answer_at rn st key) \<inter> fst ` set (concat (map (answer_at rn st) keys)) = {}"
      using Cons.prems by (auto simp: answer_at_iff)
    then show ?case using Cons d [of key] by simp
  qed simp
  moreover have "distinct (safeKeys st)" using assms by (simp add: safeKeys_def)
  ultimately show ?thesis by (simp add: readAllAnswers_def)
qed

lemma mset_split_filter: "mset (filter P xs) + mset (filter (\<lambda>x. \<not> P x) xs) = mset xs"
  by (induction xs) auto

lemma set_object_of:
  assumes "distinct (map fst kvs)"
  shows "set (object_of kvs) = set kvs" "distinct (map fst (object_of kvs))" "length (object_of kvs) = length kvs"
proof -
  have e: "(\<lambda>x. \<not> (case x of (k, v) \<Rightarrow> index_key k)) = (\<lambda>(k, v :: json). \<not> index_key k)" by auto
  have m: "mset (object_of kvs) = mset kvs"
    using fold_put_key_distinct [of "[]" kvs] assms mset_split_filter [of "\<lambda>(k, v). index_key k" kvs, unfolded e]
    by (simp add: object_of_def own_order_def del: mset_filter)
  then show "set (object_of kvs) = set kvs" "length (object_of kvs) = length kvs"
    by (auto dest: mset_eq_setD mset_eq_length)
  have "mset (map fst (object_of kvs)) = mset (map fst kvs)" using m by simp
  then show "distinct (map fst (object_of kvs))" using assms by (metis mset_eq_imp_distinct_iff)
qed

definition open_store :: "storage \<Rightarrow> bool" where
  "open_store st \<longleftrightarrow> st_window st \<and> st_usable st \<and> (\<forall>items k v. st_accepts st items k v)"

definition storable :: "(rat \<Rightarrow> jstring) \<Rightarrow> jstring \<times> json \<Rightarrow> bool" where
  "storable sn kv \<longleftrightarrow>
     fst kv \<noteq> [] \<and> length (fst kv) \<le> MAX_SLUG_CHARS \<and>
     (\<exists>a. snd kv = answer_json a \<and> answer_good a \<and> length (json_text sn (answer_json a)) \<le> MAX_ANSWER_CHARS)"

lemma open_store_set: "open_store st \<Longrightarrow> \<exists>st'. safeSetItem k v st = (True, st') \<and> open_store st'"
  by (auto simp: open_store_def safeSetItem_def)

lemma merge_answer_lands:
  assumes "open_store st" "storable sn (slug, answer_json a)" "answer_good a" "readAnswer rn st slug = None"
  shows "\<exists>st'. merge_answer sn rn (slug, answer_json a) (n, st) = (n + 1, st') \<and> open_store st' \<and>
    (\<forall>s. readAnswer rn st' s = (if s = slug then Some a else readAnswer rn st s))"
proof -
  have v: "validateAnswer (answer_json a) = Some a" using assms(3) by (simp add: answer_good_def validateAnswer_answer_json)
  have l: "length (json_text sn (answer_json a)) \<le> MAX_ANSWER_CHARS"
    using assms(2) v validateAnswer_answer_json by (auto simp: storable_def answer_good_def)
  obtain st' where s: "safeSetItem (keyFor slug) (json_text sn (answer_json a)) st = (True, st')" "open_store st'"
    using open_store_set [OF assms(1)] by blast
  then have p: "putAnswer sn slug (answer_json a) st = (True, st')" using l by (simp add: putAnswer_def)
  have "merge_answer sn rn (slug, answer_json a) (n, st) = (n + 1, st')"
    using assms(2,4) v l p by (simp add: merge_answer_def storable_def)
  then show ?thesis using putAnswer_reads(1) [OF p assms(3), of rn] s(2) by auto
qed

lemma merge_all_lands:
  assumes "open_store st" "\<forall>kv \<in> set kvs. storable sn kv \<and> readAnswer rn st (fst kv) = None" "distinct (map fst kvs)"
  shows "\<exists>k st'. fold (merge_answer sn rn) kvs (n, st) = (k, st') \<and>
    (\<forall>s. readAnswer rn st' s = (case map_of kvs s of Some e \<Rightarrow> validateAnswer e | None \<Rightarrow> readAnswer rn st s))"
  using assms
proof (induction kvs arbitrary: n st)
  case (Cons x kvs)
  obtain slug a where x: "x = (slug, answer_json a)" "answer_good a" using Cons.prems(2) by (cases x) (auto simp: storable_def)
  have h: "storable sn (slug, answer_json a)" "readAnswer rn st slug = None" using Cons.prems(2) x by auto
  obtain st1 where s1: "merge_answer sn rn (slug, answer_json a) (n, st) = (n + 1, st1)" "open_store st1"
      "\<And>s. readAnswer rn st1 s = (if s = slug then Some a else readAnswer rn st s)"
    using merge_answer_lands [OF Cons.prems(1) h(1) x(2) h(2)] by blast
  have new: "slug \<notin> fst ` set kvs" using Cons.prems(3) x by simp
  then have "\<forall>kv \<in> set kvs. storable sn kv \<and> readAnswer rn st1 (fst kv) = None"
    using Cons.prems(2) s1(3) by (metis imageI list.set_intros(2))
  then obtain k st' where r: "fold (merge_answer sn rn) kvs (n + 1, st1) = (k, st')"
      "\<And>s. readAnswer rn st' s = (case map_of kvs s of Some e \<Rightarrow> validateAnswer e | None \<Rightarrow> readAnswer rn st1 s)"
    using Cons.IH [OF s1(2)] Cons.prems(3) by (metis distinct.simps(2) list.simps(9))
  have v: "validateAnswer (answer_json a) = Some a" using x(2) by (simp add: answer_good_def validateAnswer_answer_json)
  have none: "map_of kvs slug = None" using new by (simp add: map_of_eq_None_iff)
  have "readAnswer rn st' s = (case map_of (x # kvs) s of Some e \<Rightarrow> validateAnswer e | None \<Rightarrow> readAnswer rn st s)" for s
    using none v by (cases "s = slug") (simp_all add: r(2) s1(3) x(1) split: option.split)
  then show ?case using r(1) s1(1) x(1) by auto
qed simp

text \<open>What an export needs so that the import takes all of it.\<close>

definition exportable :: "(rat \<Rightarrow> jstring) \<Rightarrow> (jstring \<Rightarrow> rat) \<Rightarrow> storage \<Rightarrow> bool" where
  "exportable sn rn st \<longleftrightarrow>
     distinct (map fst (st_items st)) \<and> length (getSolvedSlugs rn st) \<le> MAX_BUNDLE_ENTRIES \<and>
     length (readAllAnswers rn st) \<le> MAX_BUNDLE_ENTRIES \<and>
     (\<forall>slug \<in> set (getSolvedSlugs rn st). js_trim slug = slug \<and> slug \<noteq> [] \<and> length slug \<le> MAX_SLUG_CHARS) \<and>
     (\<forall>x \<in> set (readAllAnswers rn st). length (fst x) \<le> MAX_SLUG_CHARS \<and> answer_good (snd x) \<and>
        length (json_text sn (answer_json (snd x))) \<le> MAX_ANSWER_CHARS)"

lemma validate_slugs:
  "\<forall>slug \<in> set slugs. js_trim slug = slug \<and> slug \<noteq> [] \<and> length slug \<le> MAX_SLUG_CHARS \<Longrightarrow>
   validate_all import_slug i (map JStr slugs) = Inr slugs"
  by (induction slugs arbitrary: i) (auto simp: import_slug_def Let_def)

lemma fold_add_solved_Nil: "fold add_solved inc [] = [] \<longleftrightarrow> inc = []"
  using fold_add_solved [of inc "[]"] by auto

lemma writeSolved_lands: "open_store st \<Longrightarrow> getSolvedSlugs rn (writeSolved sn ss st) = ss"
proof -
  assume "open_store st"
  then obtain st1 where w: "safeSetItem SOLVED_KEY (json_text sn (JArr (map JStr ss))) st = (True, st1)"
    using open_store_set by blast
  have "safeGetItem (writeSolved sn ss st) k = safeGetItem st1 k" for k using w by (simp add: writeSolved_def Let_def)
  from stored_json_cong [OF this] show ?thesis
    using solved.written_loads [OF TrueI w, of rn] by (simp add: getSolvedSlugs_load)
qed

lemma open_store_writeSolved: "open_store st \<Longrightarrow> open_store (writeSolved sn ss st)"
  by (auto simp: open_store_def writeSolved_def safeSetItem_def announce_def Let_def)

lemma fresh_reads [simp]: "open_store fresh_storage" "readAnswer rn fresh_storage slug = None" "getSolvedSlugs rn fresh_storage = []"
  by (simp_all add: open_store_def fresh_storage_def readAnswer_def getSolvedSlugs_def isStringArray_def stored_json_def safeGetItem_def)

text \<open>Exporting the progress of one browser and importing the file in a fresh one gives the fresh
  one exactly the solved exercises and the saved answers of the first, when the export is within the
  caps of the import (except for an answer stored under the name \<open>__proto__\<close>, which an export never
  holds).\<close>

theorem progress_moves:
  assumes "exportable sn rn st"
  shows "\<exists>a t k st'. importProgressBundle sn rn (buildProgressBundle rn st) fresh_storage = (ProgressImported a t k, st') \<and>
    set (getSolvedSlugs rn st') = set (getSolvedSlugs rn st) \<and>
    (\<forall>slug. slug \<noteq> [] \<and> slug \<noteq> ''__proto__'' \<longrightarrow> readAnswer rn st' slug = readAnswer rn st slug)"
proof -
  let ?slugs = "getSolvedSlugs rn st" and ?all = "readAllAnswers rn st"
  let ?m = "map (\<lambda>(slug, a). (slug, answer_json a)) ?all"
  define kvs where "kvs = object_of ?m"
  have "distinct (map fst ?all)" using distinct_readAllAnswers assms by (simp add: exportable_def)
  then have "distinct (map fst ?m)" by (simp add: comp_def case_prod_beta)
  note kv = set_object_of [OF this, folded kvs_def]
  define merged where "merged = fold add_solved ?slugs []"
  define st1 where "st1 = (if length merged > 0 then writeSolved sn merged fresh_storage else fresh_storage)"
  have st1: "open_store st1" "getSolvedSlugs rn st1 = merged" "readAnswer rn st1 slug = None" for slug
    using fold_add_solved_Nil [of ?slugs] writeSolved_reads(2) [of rn sn merged fresh_storage slug]
    by (auto simp: st1_def writeSolved_lands open_store_writeSolved merged_def)
  have "\<forall>x \<in> set kvs. storable sn x \<and> readAnswer rn st1 (fst x) = None"
    using kv(1) assms st1(3) readAllAnswers_iff [of _ _ rn st] by (fastforce simp: storable_def exportable_def)
  then obtain k st' where m: "fold (merge_answer sn rn) kvs (0, st1) = (k, st')"
    and r: "\<And>s. readAnswer rn st' s = (case map_of kvs s of Some e \<Rightarrow> validateAnswer e | None \<Rightarrow> readAnswer rn st1 s)"
    using merge_all_lands [OF st1(1) _ kv(2), of sn rn 0] by blast
  have good: "answer_good a" if "(slug, a) \<in> set ?all" for slug a using that assms by (fastforce simp: exportable_def)
  then have "\<forall>x \<in> set kvs. plain (snd x)" using kv(1) by (auto simp: answer_good_def)
  from mergeAnswers_only_newer [OF m this] have "getSolvedSlugs rn st' = merged"
    using st1(2) SOLVED_KEY_no_answer stored_json_cong [of st' SOLVED_KEY st1 rn] by (simp add: getSolvedSlugs_load)
  then have solved: "set (getSolvedSlugs rn st') = set ?slugs" by (simp add: merged_def fold_add_solved)
  have answers: "readAnswer rn st' slug = readAnswer rn st slug" if slug: "slug \<noteq> []" "slug \<noteq> ''__proto__''" for slug
  proof (cases "readAnswer rn st slug")
    case None
    then have "slug \<notin> fst ` set kvs" using kv(1) by (auto simp: readAllAnswers_iff)
    then show ?thesis using r [of slug] st1(3) None by (simp add: map_of_eq_None_iff [THEN iffD2])
  next
    case (Some a)
    then have all: "(slug, a) \<in> set ?all" using slug by (simp add: readAllAnswers_iff)
    then have "(slug, answer_json a) \<in> set kvs" using kv(1) by force
    then have "map_of kvs slug = Some (answer_json a)" using kv(2) by simp
    then show ?thesis using r [of slug] Some good [OF all] by (simp add: answer_good_def validateAnswer_answer_json)
  qed
  have "importProgressBundle sn rn (buildProgressBundle rn st) fresh_storage = (ProgressImported (length merged) (length merged) k, st')"
    using assms m kv(3) validate_slugs [of ?slugs 0]
    by (simp add: importProgressBundle_def buildProgressBundle_def exportable_def int_json_def mergeAnswers_def Let_def
        flip: merged_def kvs_def) (auto simp: st1_def split: if_splits)
  then show ?thesis using solved answers by blast
qed

definition solved_storage :: storage where
  "solved_storage = writeSolved (\<lambda>_. []) [''loops''] fresh_storage"

lemma solved_storage_exportable: "exportable (\<lambda>_. []) rn solved_storage"
proof -
  have s: "getSolvedSlugs rn solved_storage = [''loops'']" by (simp add: solved_storage_def writeSolved_lands)
  have "readAllAnswers rn solved_storage = []"
    using readAllAnswers_iff [of _ _ rn solved_storage] writeSolved_reads(2) [of rn "\<lambda>_. []" "[''loops'']" fresh_storage]
    by (cases "readAllAnswers rn solved_storage") (auto simp: solved_storage_def)
  moreover have "distinct (map fst (st_items solved_storage))"
    by (simp add: solved_storage_def writeSolved_def safeSetItem_def fresh_storage_def announce_def Let_def)
  moreover have "js_trim ''loops'' = ''loops''" by (simp add: js_trim_def is_ws_def code_def)
  ultimately show ?thesis by (simp add: exportable_def s MAX_BUNDLE_ENTRIES_def MAX_SLUG_CHARS_def)
qed

theorem progress_moves_witness:
  "\<exists>a t k st'. importProgressBundle (\<lambda>_. []) (\<lambda>_. 0) (buildProgressBundle (\<lambda>_. 0) solved_storage) fresh_storage =
     (ProgressImported a t k, st') \<and> set (getSolvedSlugs (\<lambda>_. 0) st') = {''loops''}"
  using progress_moves [OF solved_storage_exportable, of "\<lambda>_. 0"] by (auto simp: solved_storage_def writeSolved_lands)

subsection \<open>Recent programs\<close>

definition recents_ok :: "json list \<Rightarrow> bool" where
  "recents_ok es \<longleftrightarrow> length es \<le> MAX_RECENT \<and> distinct (map recent_id es) \<and> (\<forall>e \<in> set es. isValidRecent e)"

lemma recent_entry_ok: "isValidRecent (recent_entry i n b t)" "recent_id (recent_entry i n b t) = i"
  by (simp_all add: isValidRecent_def recent_entry_def recent_id_def int_json_def)

text \<open>The list is bounded and holds a content hash once; the program just pushed is first, and every
  other entry that stays keeps its place among the others.\<close>

lemma push_recent_ok:
  assumes "recents_ok es" "push_recent sn t name body es st = (es', st')"
  shows "recents_ok es' \<and> hd es' = recent_entry (hashString body) name body t \<and>
    (\<exists>k. tl es' = take k (filter (\<lambda>e. recent_id e \<noteq> hashString body) es))"
proof -
  let ?f = "filter (\<lambda>e. recent_id e \<noteq> hashString body) es"
  have e: "es' = recent_entry (hashString body) name body t # take 9 ?f"
    using assms(2) by (simp add: push_recent_def Let_def MAX_RECENT_def)
  have "distinct (map recent_id (take 9 ?f))"
    using assms(1) by (simp add: recents_ok_def distinct_map_filter distinct_take flip: take_map)
  then show ?thesis using assms(1) e
    by (auto simp: recents_ok_def recent_entry_ok MAX_RECENT_def dest!: in_set_takeD)
qed

lemma hash_step_eq: "hash_step c h = 33 * h + of_nat (code c)"
proof -
  have "push_bit 5 h = 32 * h" by (simp add: push_bit_eq_mult)
  then show ?thesis by (simp add: hash_step_def)
qed

text \<open>The list of recent programs is keyed by a hash of the text, and different programs can have
  the same hash: pushing a program in which \<open>ab\<close> is replaced by \<open>bA\<close> drops the other from the list.\<close>

theorem recents_lose_colliding_program:
  assumes "push_recent sn t n (p @ ''ab'' @ q) es st = (es1, st1)" "push_recent sn t' n' (p @ ''bA'' @ q) es1 st1 = (es2, st2)"
  shows "recent_entry (hashString (p @ ''ab'' @ q)) n (p @ ''ab'' @ q) t \<in> set es1 \<and>
    (\<forall>m u. recent_entry (hashString (p @ ''ab'' @ q)) m (p @ ''ab'' @ q) u \<notin> set es2)"
proof -
  have "hash_step (CHR ''b'') (hash_step (CHR ''a'') h) = hash_step (CHR ''A'') (hash_step (CHR ''b'') h)" for h
    by (simp add: hash_step_eq code_def)
  then have h: "hashString (p @ ''ab'' @ q) = hashString (p @ ''bA'' @ q)" by (simp add: hashString_def)
  have e1: "es1 = take MAX_RECENT (recent_entry (hashString (p @ ''ab'' @ q)) n (p @ ''ab'' @ q) t #
      filter (\<lambda>e. recent_id e \<noteq> hashString (p @ ''ab'' @ q)) es)"
    using assms(1) unfolding push_recent_def Let_def by simp
  have e2: "es2 = take MAX_RECENT (recent_entry (hashString (p @ ''bA'' @ q)) n' (p @ ''bA'' @ q) t' #
      filter (\<lambda>e. recent_id e \<noteq> hashString (p @ ''bA'' @ q)) es1)"
    using assms(2) unfolding push_recent_def Let_def by simp
  have ne: "recent_entry i m (p @ ''ab'' @ q) u \<noteq> recent_entry i n' (p @ ''bA'' @ q) t'" for i m u
    by (simp add: recent_entry_def)
  have "recent_entry (hashString (p @ ''ab'' @ q)) m (p @ ''ab'' @ q) u \<notin> set es2" for m u
    unfolding e2 h using ne by (auto simp: recent_entry_ok dest!: in_set_takeD)
  moreover have "recent_entry (hashString (p @ ''ab'' @ q)) n (p @ ''ab'' @ q) t \<in> set es1"
    unfolding e1 by (simp add: MAX_RECENT_def)
  ultimately show ?thesis by blast
qed

theorem recents_lose_colliding_program_witness:
  "\<exists>es1 st1 es2 st2. push_recent (\<lambda>_. []) 1 ''one'' ''ab'' [] fresh_storage = (es1, st1) \<and>
     push_recent (\<lambda>_. []) 2 ''two'' ''bA'' es1 st1 = (es2, st2) \<and>
     recent_entry (hashString ''ab'') ''one'' ''ab'' 1 \<in> set es1 - set es2"
proof -
  obtain es1 st1 where 1: "push_recent (\<lambda>_. []) 1 ''one'' ''ab'' [] fresh_storage = (es1, st1)" by fastforce
  obtain es2 st2 where 2: "push_recent (\<lambda>_. []) 2 ''two'' ''bA'' es1 st1 = (es2, st2)" by fastforce
  show ?thesis using recents_lose_colliding_program [of "\<lambda>_. []" 1 "''one''" "[]" "[]" "[]" fresh_storage es1 st1 2 "''two''" es2 st2] 1 2
    by (intro exI conjI) (assumption, assumption, simp)
qed

end
