(* ===== verification/ProgramChecks.thy ===== *)
theory ProgramChecks
  imports ExerciseChecker FileMap
begin

text \<open>
  A program's own test cases: \<open>web/lib/playground/program-checks.ts\<close> (the untrusted list of checks,
  the comparison of outputs, the verdict on a run) and \<open>check-runner.ts\<close> (the workspace assembled
  once as the gate, then one headless run per check).  The staged files of a working set are an
  association list in their order.
\<close>

subsection \<open>Checks\<close>

record ProgramCheck =
  pc_name :: jstring
  pc_stdin :: jstring
  pc_args :: jstring
  pc_stdout :: jstring
  pc_exitCode :: "int option"

definition MAX_CHECKS :: nat where "MAX_CHECKS = 32"

definition MAX_NAME_CHARS :: nat where "MAX_NAME_CHARS = 100"

definition isExitStatus :: "json option \<Rightarrow> bool" where
  "isExitStatus value = (case as_integer value of None \<Rightarrow> False | Some n \<Rightarrow> n \<ge> 0 \<and> n \<le> 255)"

definition exitStatus :: "int option \<Rightarrow> int option" where
  "exitStatus raw = map_option (\<lambda>c. c AND 0xff) raw"

definition string_within :: "(jstring \<Rightarrow> bool) \<Rightarrow> json option \<Rightarrow> bool" where
  "string_within P v = (case as_string v of None \<Rightarrow> False | Some s \<Rightarrow> P s)"

definition isCheck :: "json \<Rightarrow> bool" where
  "isCheck value =
     (case as_object (Some value) of
        None \<Rightarrow> False
      | Some c \<Rightarrow>
          string_within (\<lambda>s. length s \<le> MAX_NAME_CHARS) (map_of c ''name'') \<and>
          string_within (\<lambda>s. validateStdin s = None) (map_of c ''stdin'') \<and>
          string_within (\<lambda>s. validateArgs s = None) (map_of c ''args'') \<and>
          string_within (\<lambda>s. validateStdin s = None) (map_of c ''stdout'') \<and>
          (map_of c ''exitCode'' = None \<or> isExitStatus (map_of c ''exitCode'')))"

text \<open>The copy of an entry that passed \<open>isCheck\<close>, field by field.\<close>

definition copy_check :: "json \<Rightarrow> ProgramCheck" where
  "copy_check value =
     (let c = the (as_object (Some value)) in
      \<lparr>pc_name = the (as_string (map_of c ''name'')), pc_stdin = the (as_string (map_of c ''stdin'')),
       pc_args = the (as_string (map_of c ''args'')), pc_stdout = the (as_string (map_of c ''stdout'')),
       pc_exitCode = (if map_of c ''exitCode'' = None then None else as_integer (map_of c ''exitCode''))\<rparr>)"

definition parseChecks :: "json option \<Rightarrow> ProgramCheck list option" where
  "parseChecks value =
     (case as_array value of
        None \<Rightarrow> None
      | Some xs \<Rightarrow> if length xs > MAX_CHECKS \<or> \<not> list_all isCheck xs then None else Some (map copy_check xs))"

subsection \<open>Comparing outputs\<close>

definition loosen_line :: "jstring \<Rightarrow> jstring" where
  "loosen_line line = rev (dropWhile is_blank (rev line))"

definition loosen :: "jstring \<Rightarrow> jstring list" where
  "loosen text = rev (dropWhile (\<lambda>l. l = []) (rev (map loosen_line (js_split newline text))))"

record OutputDifference =
  od_line :: nat
  od_column :: nat
  od_expected :: "jstring option"
  od_actual :: "jstring option"

datatype OutputMatch = Exact | TrailingWhitespace | Different OutputDifference

text \<open>\<open>while (column < a.length && a[column] === b[column]) column++\<close>.\<close>

fun common_columns :: "jstring \<Rightarrow> jstring \<Rightarrow> nat" where
  "common_columns (x # xs) (y # ys) = (if x = y then Suc (common_columns xs ys) else 0)"
| "common_columns _ _ = 0"

text \<open>The loop over the lines, from line index \<open>i\<close>; a line past an end is \<open>undefined\<close>.\<close>

fun first_difference :: "nat \<Rightarrow> jstring list \<Rightarrow> jstring list \<Rightarrow> OutputDifference option" where
  "first_difference i [] [] = None"
| "first_difference i (w # want) (g # got) =
     (if w \<noteq> g then Some \<lparr>od_line = i + 1, od_column = common_columns w g, od_expected = Some w, od_actual = Some g\<rparr>
      else first_difference (Suc i) want got)"
| "first_difference i (w # want) [] =
     Some \<lparr>od_line = i + 1, od_column = common_columns w [], od_expected = Some w, od_actual = None\<rparr>"
| "first_difference i [] (g # got) =
     Some \<lparr>od_line = i + 1, od_column = common_columns [] g, od_expected = None, od_actual = Some g\<rparr>"

definition compareOutput :: "jstring \<Rightarrow> jstring \<Rightarrow> OutputMatch" where
  "compareOutput expected actual =
     (if expected = actual then Exact
      else case first_difference 0 (loosen expected) (loosen actual) of
             Some d \<Rightarrow> Different d | None \<Rightarrow> TrailingWhitespace)"

subsection \<open>Grading\<close>

datatype CheckMiss = CmFault | CmStepLimit | CmStdout | CmExit

record CheckVerdict =
  cv_pass :: bool
  cv_miss :: "CheckMiss option"
  cv_error :: "jstring option"
  cv_exitCode :: "int option"
  cv_loose :: bool
  cv_difference :: "OutputDifference option"

definition gradeCheck :: "ProgramCheck \<Rightarrow> HiddenRunOutcome \<Rightarrow> CheckVerdict" where
  "gradeCheck chk outcome =
     (let match = compareOutput (pc_stdout chk) (ho_stdout outcome);
          difference = (case match of Different d \<Rightarrow> Some d | _ \<Rightarrow> None);
          error = (case assembleError outcome of Some e \<Rightarrow> Some e | None \<Rightarrow> ho_error outcome);
          status = exitStatus (exitCode outcome);
          miss = (if error \<noteq> None then Some CmFault
                  else if \<not> finished outcome then Some CmStepLimit
                  else if difference \<noteq> None then Some CmStdout
                  else if pc_exitCode chk \<noteq> None \<and> status \<noteq> pc_exitCode chk then Some CmExit
                  else None) in
      \<lparr>cv_pass = (miss = None), cv_miss = miss, cv_error = error, cv_exitCode = status,
       cv_loose = (miss = None \<and> match = TrailingWhitespace), cv_difference = difference\<rparr>)"

subsection \<open>Running\<close>

datatype ChecksRun = ChecksAssembleError jstring | ChecksRan "HiddenRunOutcome list"

definition located :: "Workspace \<Rightarrow> jstring \<Rightarrow> int option \<Rightarrow> jstring" where
  "located workspace error line =
     (case errorWithLocation (Some error) (map_option (\<lambda>l. (l, error)) line) (ws_main workspace) (ws_extras workspace) of
        Some e \<Rightarrow> e | None \<Rightarrow> error)"

definition relocate :: "Workspace \<Rightarrow> HiddenRunOutcome \<Rightarrow> HiddenRunOutcome" where
  "relocate workspace run =
     (case ho_error run of None \<Rightarrow> run | Some e \<Rightarrow> run\<lparr>ho_error := Some (located workspace e (ho_errorLine run))\<rparr>)"

fun run_each ::
    "'w HeadlessMachine \<Rightarrow> ('w \<Rightarrow> 'w) \<Rightarrow> Workspace \<Rightarrow> (jstring \<times> jstring) list \<Rightarrow> ProgramCheck list \<Rightarrow> 'w \<Rightarrow>
       (HiddenRunOutcome list \<times> 'w) option" where
  "run_each machine nextTask workspace files [] w = Some ([], w)"
| "run_each machine nextTask workspace files (c # cs) w =
     (case runHeadless machine nextTask (combineSources (ws_main workspace) (ws_extras workspace))
             (parseArgs (pc_args c)) (Some (pc_stdin c)) files w of
        None \<Rightarrow> None
      | Some (run, w1) \<Rightarrow>
          (case run_each machine nextTask workspace files cs w1 of
             None \<Rightarrow> None | Some (outcomes, w2) \<Rightarrow> Some (relocate workspace run # outcomes, w2)))"

definition runChecks ::
    "'w HeadlessMachine \<Rightarrow> ('w \<Rightarrow> 'w) \<Rightarrow> Workspace \<Rightarrow> ProgramCheck list \<Rightarrow> (jstring \<times> jstring) list \<Rightarrow> 'w \<Rightarrow>
       (ChecksRun \<times> 'w) option" where
  "runChecks machine nextTask workspace checks files w =
     (case assembleAndLoadWithArgs machine (combineSources (ws_main workspace) (ws_extras workspace)) [] w of
        (built, w1) \<Rightarrow>
          if \<not> as_success built then
            Some (ChecksAssembleError (located workspace
              (case as_error built of Some e \<Rightarrow> e | None \<Rightarrow> ''the program did not assemble'') (as_error_line built)), w1)
          else map_option (\<lambda>(outcomes, w2). (ChecksRan outcomes, w2)) (run_each machine nextTask workspace files checks w1))"

subsection \<open>The first difference\<close>

definition parts_at :: "nat \<Rightarrow> jstring \<Rightarrow> jstring \<Rightarrow> bool" where
  "parts_at n a b \<longleftrightarrow> n \<le> length a \<and> n \<le> length b \<and> take n a = take n b \<and>
     (n < length a \<longrightarrow> n < length b \<longrightarrow> a ! n \<noteq> b ! n)"

definition differs_first :: "OutputDifference \<Rightarrow> jstring list \<Rightarrow> jstring list \<Rightarrow> bool" where
  "differs_first d want got \<longleftrightarrow>
     (\<exists>k \<le> min (length want) (length got). od_line d = Suc k \<and> take k want = take k got \<and>
        od_expected d = nth_opt want k \<and> od_actual d = nth_opt got k \<and> od_expected d \<noteq> od_actual d \<and>
        parts_at (od_column d) (case_option [] (\<lambda>s. s) (od_expected d)) (case_option [] (\<lambda>s. s) (od_actual d)))"

lemma common_columns_parts: "parts_at (common_columns a b) a b"
  by (induction a b rule: common_columns.induct) (auto simp: parts_at_def)

lemma first_difference_None: "first_difference i want got = None \<longleftrightarrow> want = got"
  by (induction i want got rule: first_difference.induct) auto

lemma first_difference_Some:
  "first_difference i want got = Some d \<Longrightarrow> \<exists>k. od_line d = i + Suc k \<and> differs_first (d\<lparr>od_line := Suc k\<rparr>) want got"
proof (induction i want got rule: first_difference.induct)
  case (2 i w want g got)
  show ?case
  proof (cases "w = g")
    case True
    then obtain k where "od_line d = Suc i + Suc k" "differs_first (d\<lparr>od_line := Suc k\<rparr>) want got"
      using 2 by auto
    then have "od_line d = i + Suc (Suc k) \<and> differs_first (d\<lparr>od_line := Suc (Suc k)\<rparr>) (w # want) (g # got)"
      using True by (auto simp: differs_first_def intro!: exI [of _ "Suc k"])
    then show ?thesis by blast
  next
    case False
    then show ?thesis using 2 by (auto simp: differs_first_def common_columns_parts intro!: exI [of _ 0])
  qed
qed (auto simp: differs_first_def parts_at_def intro!: exI [of _ 0])

lemma compareOutput_cases:
  "compareOutput expected actual = Exact \<longleftrightarrow> expected = actual"
  "compareOutput expected actual = TrailingWhitespace \<longleftrightarrow> expected \<noteq> actual \<and> loosen expected = loosen actual"
  "compareOutput expected actual = Different d \<Longrightarrow>
     loosen expected \<noteq> loosen actual \<and> differs_first d (loosen expected) (loosen actual)"
proof -
  show "compareOutput expected actual = Exact \<longleftrightarrow> expected = actual"
    by (auto simp: compareOutput_def split: option.splits)
  show "compareOutput expected actual = TrailingWhitespace \<longleftrightarrow> expected \<noteq> actual \<and> loosen expected = loosen actual"
    using first_difference_None [of 0 "loosen expected" "loosen actual"] by (auto simp: compareOutput_def split: option.splits)
  assume d: "compareOutput expected actual = Different d"
  then have f: "first_difference 0 (loosen expected) (loosen actual) = Some d"
    by (auto simp: compareOutput_def split: option.splits if_splits)
  then obtain k where k: "od_line d = Suc k" "differs_first (d\<lparr>od_line := Suc k\<rparr>) (loosen expected) (loosen actual)"
    using first_difference_Some by force
  have "d\<lparr>od_line := Suc k\<rparr> = d" using k(1) by (cases d) simp
  then show "loosen expected \<noteq> loosen actual \<and> differs_first d (loosen expected) (loosen actual)"
    using k(2) f first_difference_None [of 0 "loosen expected" "loosen actual"] by auto
qed

subsection \<open>What is ignored\<close>

lemma js_split_snoc:
  "js_split sep (s @ [c]) =
     (if c = sep then js_split sep s @ [[]] else butlast (js_split sep s) @ [last (js_split sep s) @ [c]])"
proof (induction s)
  case (Cons d s)
  obtain w ws where "js_split sep s = w # ws" by (cases "js_split sep s") auto
  then show ?case using Cons by (cases ws) auto
qed simp

lemma loosen_snoc:
  assumes "is_blank c \<or> c = newline"
  shows "loosen (s @ [c]) = loosen s"
proof (cases "c = newline")
  case True
  then show ?thesis by (simp add: loosen_def js_split_snoc loosen_line_def)
next
  case False
  then have b: "is_blank c" using assms by simp
  have l: "loosen_line (l @ [c]) = loosen_line l" for l using b by (simp add: loosen_line_def)
  have "map loosen_line (butlast xs @ [last xs @ [c]]) = map loosen_line xs" if "xs \<noteq> []" for xs
    using that l by (metis append_butlast_last_id list.simps(8,9) map_append)
  then show ?thesis using False by (simp add: loosen_def js_split_snoc)
qed

lemma loosen_trailing: "list_all (\<lambda>c. is_blank c \<or> c = newline) t \<Longrightarrow> loosen (s @ t) = loosen s"
proof (induction t arbitrary: s)
  case (Cons c t)
  then show ?case using Cons.IH [of "s @ [c]"] loosen_snoc [of c s] by simp
qed simp

text \<open>Outputs are compared as documented.  \<open>compareOutput\<close> says exact when the texts are equal,
  trailing-whitespace when they are not but their loosened lines are, and otherwise reports the
  first line where the loosened outputs part (the lines before it agree, a line missing on one
  side is null) and the column where that line parts.  Blanks and newlines at the very end of an
  output never make a difference.\<close>

theorem compareOutput_reports_first_difference:
  "(case compareOutput expected actual of
      Exact \<Rightarrow> expected = actual
    | TrailingWhitespace \<Rightarrow> expected \<noteq> actual \<and> loosen expected = loosen actual
    | Different d \<Rightarrow> loosen expected \<noteq> loosen actual \<and> differs_first d (loosen expected) (loosen actual)) \<and>
   (list_all (\<lambda>c. is_blank c \<or> c = newline) t \<longrightarrow>
      compareOutput (s @ t) s \<in> {Exact, TrailingWhitespace} \<and> compareOutput s (s @ t) \<in> {Exact, TrailingWhitespace})"
proof (intro conjI impI)
  show "case compareOutput expected actual of
      Exact \<Rightarrow> expected = actual
    | TrailingWhitespace \<Rightarrow> expected \<noteq> actual \<and> loosen expected = loosen actual
    | Different d \<Rightarrow> loosen expected \<noteq> loosen actual \<and> differs_first d (loosen expected) (loosen actual)"
    using compareOutput_cases [of expected actual] by (auto split: OutputMatch.split)
  assume "list_all (\<lambda>c. is_blank c \<or> c = newline) t"
  then have l: "loosen (s @ t) = loosen s" by (rule loosen_trailing)
  show "compareOutput (s @ t) s \<in> {Exact, TrailingWhitespace}" "compareOutput s (s @ t) \<in> {Exact, TrailingWhitespace}"
    using l compareOutput_cases(3) [of "s @ t" s] compareOutput_cases(3) [of s "s @ t"]
    by (metis (full_types) OutputMatch.exhaust insertCI)+
qed

theorem compareOutput_reports_first_difference_witness:
  "compareOutput (''ok'' @ '' '' @ [newline]) ''ok'' \<in> {Exact, TrailingWhitespace}"
  using compareOutput_reports_first_difference [of "[]" "[]" "'' '' @ [newline]" "''ok''"] by (simp add: is_blank_def)

subsection \<open>Grading runs\<close>

definition check_met :: "ProgramCheck \<Rightarrow> HiddenRunOutcome \<Rightarrow> bool" where
  "check_met chk outcome \<longleftrightarrow>
     assembleError outcome = None \<and> ho_error outcome = None \<and> finished outcome \<and>
     loosen (pc_stdout chk) = loosen (ho_stdout outcome) \<and>
     (\<forall>n. pc_exitCode chk = Some n \<longrightarrow> (\<exists>c. exitCode outcome = Some c \<and> c mod 256 = n))"

lemma low_byte: "c AND 0xff = c mod 256" for c :: int
  using mask_mod [of c 8] by simp

lemma no_difference: "(\<forall>d. compareOutput a b \<noteq> Different d) \<longleftrightarrow> loosen a = loosen b"
  using compareOutput_cases [of a b] by (cases "compareOutput a b") auto

lemma gradeCheck_pass: "cv_pass (gradeCheck chk outcome) \<longleftrightarrow> check_met chk outcome"
proof -
  have d: "(case compareOutput a b of Different d \<Rightarrow> Some d | _ \<Rightarrow> None) = None \<longleftrightarrow> loosen a = loosen b" for a b
    using no_difference [of a b] by (cases "compareOutput a b") auto
  have e: "\<not> (pc_exitCode chk \<noteq> None \<and> exitStatus (exitCode outcome) \<noteq> pc_exitCode chk) \<longleftrightarrow>
      (\<forall>n. pc_exitCode chk = Some n \<longrightarrow> (\<exists>c. exitCode outcome = Some c \<and> c mod 256 = n))"
    by (cases "exitCode outcome"; cases "pc_exitCode chk") (auto simp: exitStatus_def low_byte)
  show ?thesis
    unfolding gradeCheck_def check_met_def Let_def e [symmetric] d [symmetric]
    by (auto split: option.split)
qed

lemma run_each_returns:
  assumes "halt_is_reported machine" "keeps_slice machine"
  shows "\<exists>outs w'. run_each machine nextTask workspace files checks w = Some (outs, w') \<and> length outs = length checks"
proof (induction checks arbitrary: w)
  case (Cons c cs)
  obtain run w1 where "runHeadless machine nextTask (combineSources (ws_main workspace) (ws_extras workspace))
      (parseArgs (pc_args c)) (Some (pc_stdin c)) files w = Some (run, w1)"
    using runHeadless_total [OF assms] by blast
  moreover obtain outs w' where "run_each machine nextTask workspace files cs w1 = Some (outs, w')" "length outs = length cs"
    using Cons.IH by blast
  ultimately show ?case by simp
qed simp

text \<open>On a machine whose slices keep their size and whose halt report is true, running the
  checks of a workspace returns.  When the combined source does not assemble nothing is run;
  otherwise there is one outcome per check, and a check passes exactly when its run assembled,
  did not fault, finished, printed the expected output up to trailing blanks, and, where an exit
  status is asked for, exited with a code whose low byte it is.\<close>

theorem checks_are_graded:
  assumes "halt_is_reported machine" "keeps_slice machine"
  shows "\<exists>run w'. runChecks machine nextTask workspace checks files w = Some (run, w') \<and>
    (let built = fst (assembleAndLoadWithArgs machine (combineSources (ws_main workspace) (ws_extras workspace)) [] w) in
     (case run of
        ChecksAssembleError message \<Rightarrow> \<not> as_success built
      | ChecksRan outs \<Rightarrow> as_success built \<and> length outs = length checks \<and>
          (\<forall>i < length checks. cv_pass (gradeCheck (checks ! i) (outs ! i)) \<longleftrightarrow> check_met (checks ! i) (outs ! i))))"
proof -
  obtain built w1 where a: "assembleAndLoadWithArgs machine (combineSources (ws_main workspace) (ws_extras workspace)) [] w = (built, w1)"
    by fastforce
  obtain outs w' where r: "run_each machine nextTask workspace files checks w1 = Some (outs, w')" "length outs = length checks"
    using run_each_returns [OF assms] by blast
  show ?thesis
    using a r by (cases "as_success built") (simp_all add: runChecks_def gradeCheck_pass)
qed

definition demo_check :: ProgramCheck where
  "demo_check = \<lparr>pc_name = ''one'', pc_stdin = [], pc_args = [], pc_stdout = ''done'', pc_exitCode = Some 0\<rparr>"

theorem checks_are_graded_witness:
  "\<exists>run w'. runChecks demo_machine (\<lambda>w. w) \<lparr>ws_main = ''main:'', ws_extras = []\<rparr> [demo_check] [] 0 = Some (run, w')"
  using checks_are_graded [OF demo_machine_laws, of "\<lambda>w. w" "\<lparr>ws_main = ''main:'', ws_extras = []\<rparr>" "[demo_check]" "[]" 0]
  by blast

subsection \<open>Exit codes are read in two ways\<close>

definition ended_with :: "jstring \<Rightarrow> int \<Rightarrow> HiddenRunOutcome" where
  "ended_with out c =
     \<lparr>assembleError = None, ho_error = None, ho_errorLine = None, finished = True, ho_stdout = out,
      exitCode = Some c, stackBalanced = Some True, frameIntact = True\<rparr>"

text \<open>Exit codes are read in two ways.  A check of the playground compares the low byte of the
  exit code, a hidden case the code itself: for the same run, a check that asks for status n passes
  for every code whose low byte is n, a hidden case only for n itself, so that a main that returns
  -1, which a shell reports as status 255, passes the one and fails the other.\<close>

theorem exit_code_readings_differ:
  "cv_pass (gradeCheck \<lparr>pc_name = name, pc_stdin = stdin, pc_args = args, pc_stdout = out, pc_exitCode = Some n\<rparr> (ended_with out c)) =
     (c mod 256 = n) \<and>
   hk_pass (checkHiddenCase \<lparr>hc_stdout = out, hc_exitCode = n, hc_args = a, hc_stdin = i, hc_edge = e\<rparr> (ended_with out c)) =
     (c = n)"
  by (simp add: ended_with_def gradeCheck_pass check_met_def checkHiddenCase_pass meets_def)

subsection \<open>Untrusted checks\<close>

definition check_ok :: "ProgramCheck \<Rightarrow> bool" where
  "check_ok c \<longleftrightarrow>
     length (pc_name c) \<le> MAX_NAME_CHARS \<and> byteLength (pc_stdin c) \<le> MAX_STDIN_BYTES \<and>
     length (pc_args c) \<le> MAX_ARGS_CHARS \<and> byteLength (pc_stdout c) \<le> MAX_STDIN_BYTES \<and>
     (\<forall>n. pc_exitCode c = Some n \<longrightarrow> 0 \<le> n \<and> n \<le> 255)"

definition ProgramCheck_json :: "ProgramCheck \<Rightarrow> json" where
  "ProgramCheck_json c =
     JObj ([(''name'', JStr (pc_name c)), (''stdin'', JStr (pc_stdin c)), (''args'', JStr (pc_args c)),
       (''stdout'', JStr (pc_stdout c))] @ opt_field ''exitCode'' int_json (pc_exitCode c))"

lemma string_within_Some: "string_within P v \<longleftrightarrow> (\<exists>s. v = Some (JStr s) \<and> P s)"
  by (cases v rule: as_string.cases) (auto simp: string_within_def)

lemma copy_check_ok: "isCheck x \<Longrightarrow> check_ok (copy_check x)"
  by (cases x) (auto simp: isCheck_def copy_check_def check_ok_def string_within_Some cap_None isExitStatus_def Let_def split: option.splits)

lemma isCheck_printed: "check_ok c \<Longrightarrow> isCheck (ProgramCheck_json c)"
  by (cases "pc_exitCode c")
    (simp_all add: isCheck_def ProgramCheck_json_def check_ok_def string_within_Some cap_None isExitStatus_def opt_field_def)

lemma copy_check_printed: "copy_check (ProgramCheck_json c) = c"
  by (cases c; cases "pc_exitCode c") (simp_all add: copy_check_def ProgramCheck_json_def opt_field_def Let_def)

text \<open>The check lists that can come out of an untrusted value are exactly the lists of at most
  32 checks within the caps: a link can carry no other, and a list within the caps comes back
  unchanged from its JSON.\<close>

theorem parseChecks_accepts_exactly:
  "(\<exists>value. parseChecks value = Some cs) \<longleftrightarrow> length cs \<le> MAX_CHECKS \<and> list_all check_ok cs"
proof
  assume "\<exists>value. parseChecks value = Some cs"
  then obtain v xs where "as_array v = Some xs" "parseChecks v = Some cs"
    by (auto simp: parseChecks_def split: option.splits)
  then have "length xs \<le> MAX_CHECKS" "list_all isCheck xs" "cs = map copy_check xs"
    by (auto simp: parseChecks_def split: if_splits)
  then show "length cs \<le> MAX_CHECKS \<and> list_all check_ok cs" by (auto simp: list_all_iff intro: copy_check_ok)
next
  assume ok: "length cs \<le> MAX_CHECKS \<and> list_all check_ok cs"
  have "map copy_check (map ProgramCheck_json cs) = cs" by (simp add: copy_check_printed map_idI)
  then have "parseChecks (Some (JArr (map ProgramCheck_json cs))) = Some cs"
    using ok by (simp add: parseChecks_def list_all_iff isCheck_printed)
  then show "\<exists>value. parseChecks value = Some cs" ..
qed

end
