(* ===== verification/ShareLinks.thy ===== *)
theory ShareLinks
  imports SavedWork ProgramChecks
begin

text \<open>
  Share links and workspace bundles: \<open>web/lib/playground/share.ts\<close> and \<open>workspace-bundle.ts\<close>.

  The compressor of the package lz-string is a pair of parameters: \<open>compress\<close>, and \<open>decompress\<close>,
  which is \<open>None\<close> where \<open>safeDecompress\<close> is null.  The round trip relies on the law that the second
  undoes the first.
\<close>

subsection \<open>share.ts\<close>

record ShareState =
  sh_source :: jstring
  sh_files :: "SourceFile list option"
  sh_args :: "jstring option"
  sh_stdin :: "jstring option"
  sh_cursor :: "(rat \<times> rat) option"
  sh_checks :: "ProgramCheck list option"

definition PREFIX_V2 :: jstring where "PREFIX_V2 = ''p2=''"
definition PREFIX_V1 :: jstring where "PREFIX_V1 = ''p=''"
definition MAX_SHARE_FILES :: nat where "MAX_SHARE_FILES = 16"

datatype ShareReadResult = ShareNone | ShareOk ShareState | ShareCorrupt | ShareTooLarge

definition checksum_step :: "char \<Rightarrow> 32 word \<Rightarrow> 32 word" where
  "checksum_step c h = word_of_int (sint (push_bit 5 h) + uint h + int (code c))"

definition sourceChecksum :: "jstring \<Rightarrow> jstring" where
  "sourceChecksum source = nat_to_string 16 (unat (fold checksum_step source 5381))"

definition SourceFile_json :: "SourceFile \<Rightarrow> json" where
  "SourceFile_json f = JObj [(''name'', JStr (sf_name f)), (''body'', JStr (sf_body f))]"

definition cursor_json :: "rat \<times> rat \<Rightarrow> json" where
  "cursor_json c = JObj [(''line'', JNum (fst c)), (''column'', JNum (snd c))]"

text \<open>\<open>{ ...state, h: sourceChecksum(state.source) }\<close>.\<close>

definition share_json :: "ShareState \<Rightarrow> json" where
  "share_json s =
     JObj ([(''source'', JStr (sh_source s))] @ opt_field ''files'' (\<lambda>fs. JArr (map SourceFile_json fs)) (sh_files s) @
           opt_field ''args'' JStr (sh_args s) @ opt_field ''stdin'' JStr (sh_stdin s) @
           opt_field ''cursor'' cursor_json (sh_cursor s) @
           opt_field ''checks'' (\<lambda>cs. JArr (map ProgramCheck_json cs)) (sh_checks s) @
           [(''h'', JStr (sourceChecksum (sh_source s)))])"

definition buildShareHash :: "(rat \<Rightarrow> jstring) \<Rightarrow> (jstring \<Rightarrow> jstring) \<Rightarrow> ShareState \<Rightarrow> jstring" where
  "buildShareHash sn compress s = ''#'' @ PREFIX_V2 @ compress (json_text sn (share_json s))"

definition trim_hash :: "jstring \<Rightarrow> jstring" where
  "trim_hash hash = (if starts_with ''#'' hash then drop 1 hash else hash)"

definition shareHashSize :: "jstring \<Rightarrow> nat \<times> nat" where
  "shareHashSize hash =
     (let trimmed = trim_hash hash;
          payload = (if starts_with PREFIX_V2 trimmed then drop (length PREFIX_V2) trimmed
                     else if starts_with PREFIX_V1 trimmed then drop (length PREFIX_V1) trimmed else trimmed) in
      (length payload, MAX_SHARE_HASH_BYTES))"

definition share_file :: "json \<Rightarrow> SourceFile option" where
  "share_file f =
     (case (as_string (member f ''name''), as_string (member f ''body'')) of
        (Some name, Some body) \<Rightarrow> Some \<lparr>sf_name = js_trim name, sf_body = body\<rparr>
      | _ \<Rightarrow> None)"

text \<open>\<open>None\<close> for the link that is refused; an array of another shape is only dropped.\<close>

definition share_files :: "json option \<Rightarrow> SourceFile list option option" where
  "share_files v =
     (case as_array v of None \<Rightarrow> Some None
      | Some xs \<Rightarrow>
          if length xs > MAX_SHARE_FILES then Some None
          else case collect share_file xs of None \<Rightarrow> Some None
          | Some files \<Rightarrow>
              if list_ex (\<lambda>i. validateFileName (sf_name (files ! i)) files (Some i) \<noteq> None) [0 ..< length files] then None
              else Some (Some files))"

definition share_cursor :: "json option \<Rightarrow> (rat \<times> rat) option" where
  "share_cursor v =
     (case v of None \<Rightarrow> None
      | Some c \<Rightarrow>
          (case (as_number (member c ''line''), as_number (member c ''column'')) of
             (Some l, Some k) \<Rightarrow> Some (l, k) | _ \<Rightarrow> None))"

definition share_checks :: "json option \<Rightarrow> ProgramCheck list option" where
  "share_checks v = (case parseChecks v of Some cs \<Rightarrow> if cs = [] then None else Some cs | None \<Rightarrow> None)"

definition read_payload :: "json \<Rightarrow> ShareReadResult" where
  "read_payload v =
     (case as_string (member v ''source'') of None \<Rightarrow> ShareCorrupt
      | Some source \<Rightarrow>
          if (case as_string (member v ''h'') of None \<Rightarrow> False | Some h \<Rightarrow> h \<noteq> sourceChecksum source) then ShareCorrupt
          else case share_files (member v ''files'') of None \<Rightarrow> ShareCorrupt
          | Some files \<Rightarrow>
              ShareOk \<lparr>sh_source = source, sh_files = files, sh_args = as_string (member v ''args''),
                       sh_stdin = as_string (member v ''stdin''), sh_cursor = share_cursor (member v ''cursor''),
                       sh_checks = share_checks (member v ''checks'')\<rparr>)"

definition readShareHash :: "(jstring \<Rightarrow> rat) \<Rightarrow> (jstring \<Rightarrow> jstring option) \<Rightarrow> jstring \<Rightarrow> ShareReadResult" where
  "readShareHash rn decompress hash =
     (let trimmed = trim_hash hash in
      if starts_with PREFIX_V2 trimmed then
        let compressed = drop (length PREFIX_V2) trimmed in
        if length compressed > MAX_SHARE_HASH_BYTES then ShareTooLarge
        else case decompress compressed of None \<Rightarrow> ShareCorrupt
        | Some decoded \<Rightarrow>
            if decoded = [] then ShareCorrupt
            else if length decoded > MAX_SHARE_DECOMPRESSED_BYTES then ShareTooLarge
            else (case json_parse rn decoded of None \<Rightarrow> ShareCorrupt | Some v \<Rightarrow> read_payload v)
      else if starts_with PREFIX_V1 trimmed then
        let compressed = drop (length PREFIX_V1) trimmed in
        if length compressed > MAX_SHARE_HASH_BYTES then ShareTooLarge
        else case decompress compressed of None \<Rightarrow> ShareCorrupt
        | Some decoded \<Rightarrow>
            if decoded = [] then ShareCorrupt
            else if length decoded > MAX_SHARE_DECOMPRESSED_BYTES then ShareTooLarge
            else ShareOk \<lparr>sh_source = decoded, sh_files = None, sh_args = None, sh_stdin = None, sh_cursor = None, sh_checks = None\<rparr>
      else ShareNone)"

subsection \<open>workspace-bundle.ts\<close>

definition bundle_file :: "json \<Rightarrow> nat \<Rightarrow> SourceFile checked" where
  "bundle_file entry i =
     (case (as_string (member entry ''name''), as_string (member entry ''body'')) of
        (Some name, Some body) \<Rightarrow>
          (case fileNameShapeError name of Some e \<Rightarrow> Inl e
           | None \<Rightarrow>
               (case validateSource body of Some e \<Rightarrow> Inl (name @ '': '' @ e)
                | None \<Rightarrow> Inr \<lparr>sf_name = js_trim name, sf_body = body\<rparr>))
      | _ \<Rightarrow> Inl ''that workspace bundle has a malformed file'')"

definition readWorkspaceBundle :: "(jstring \<Rightarrow> rat) \<Rightarrow> jstring \<Rightarrow> SourceFile list checked" where
  "readWorkspaceBundle rn raw =
     (case json_parse rn raw of
        Some (JObj b) \<Rightarrow>
          (case (as_number (map_of b ''version''), as_array (map_of b ''files'')) of
             (Some r, Some files) \<Rightarrow>
               if r \<noteq> 1 then Inl ''that .json file is not a workspace bundle''
               else if length files = 0 then Inl ''that workspace bundle has no files''
               else if length files > MAX_WORKSPACE_FILES then
                 Inl (''that workspace bundle has too many files (max '' @ show_int (int MAX_WORKSPACE_FILES) @ '')'')
               else validate_all bundle_file 0 files
           | _ \<Rightarrow> Inl ''that .json file is not a workspace bundle'')
      | _ \<Rightarrow> Inl ''that .json file is not a workspace bundle'')"

subsection \<open>Links\<close>

lemma sourceChecksum_hashString: "sourceChecksum s = hashString s"
proof -
  have "checksum_step = hash_step"
    by (simp add: fun_eq_iff checksum_step_def hash_step_eq push_bit_eq_mult)
  then show ?thesis by (simp add: sourceChecksum_def hashString_def)
qed

definition files_ok :: "SourceFile list \<Rightarrow> bool" where
  "files_ok fs \<longleftrightarrow>
     length fs \<le> MAX_SHARE_FILES \<and>
     (\<forall>i < length fs. js_trim (sf_name (fs ! i)) = sf_name (fs ! i) \<and> validateFileName (sf_name (fs ! i)) fs (Some i) = None)"

definition checks_ok :: "ProgramCheck list \<Rightarrow> bool" where
  "checks_ok cs \<longleftrightarrow> cs \<noteq> [] \<and> length cs \<le> MAX_CHECKS \<and> list_all check_ok cs"

definition share_ok :: "ShareState \<Rightarrow> bool" where
  "share_ok s \<longleftrightarrow> pred_option files_ok (sh_files s) \<and> pred_option checks_ok (sh_checks s)"

text \<open>A cursor is a pair of integers up to 2^53.\<close>

definition cursor_ok :: "ShareState \<Rightarrow> bool" where
  "cursor_ok s \<longleftrightarrow> (\<forall>l c. sh_cursor s = Some (l, c) \<longrightarrow> plain (JNum l) \<and> plain (JNum c))"

lemma share_file_Some: "share_file x = Some f \<Longrightarrow> js_trim (sf_name f) = sf_name f"
  by (auto simp: share_file_def split: option.splits)

lemma share_files_ok: "share_files v = Some (Some fs) \<Longrightarrow> files_ok fs"
proof -
  assume v: "share_files v = Some (Some fs)"
  then obtain xs where xs: "as_array v = Some xs" "length xs \<le> MAX_SHARE_FILES" "collect share_file xs = Some fs"
      "\<not> list_ex (\<lambda>i. validateFileName (sf_name (fs ! i)) fs (Some i) \<noteq> None) [0 ..< length fs]"
    by (auto simp: share_files_def split: option.splits if_splits)
  have "list_all2 (\<lambda>x y. share_file x = Some y) xs fs" using collect_Some [OF xs(3)] .
  then show ?thesis using xs(2,4) share_file_Some
    by (auto simp: files_ok_def list_all2_conv_all_nth list_ex_iff)
qed

lemma share_checks_ok: "share_checks v = Some cs \<Longrightarrow> checks_ok cs"
  using copy_check_ok
  by (auto simp: share_checks_def parseChecks_def checks_ok_def list_all_iff split: option.splits if_splits)

text \<open>Whatever hash a link carries, when it opens, its files are at most sixteen, with trimmed,
  well-shaped names that differ from each other and from the main file, its checks are within their
  caps, and if its payload has a checksum it is that of the source it shows.\<close>

theorem opened_link_is_well_formed:
  assumes "readShareHash rn decompress hash = ShareOk s"
  shows "share_ok s \<and>
    (\<forall>v h. trim_hash hash = PREFIX_V2 @ drop (length PREFIX_V2) (trim_hash hash) \<and>
       Option.bind (decompress (drop (length PREFIX_V2) (trim_hash hash))) (json_parse rn) = Some v \<and>
       as_string (member v ''h'') = Some h \<longrightarrow> h = sourceChecksum (sh_source s))"
proof -
  have payload: "share_ok s \<and> (\<forall>h. as_string (member v ''h'') = Some h \<longrightarrow> h = sourceChecksum (sh_source s))"
    if "read_payload v = ShareOk s" for v
    using that share_files_ok share_checks_ok
    by (auto simp: read_payload_def share_ok_def option.pred_set split: option.splits if_splits)
  show ?thesis
  proof (cases "starts_with PREFIX_V2 (trim_hash hash)")
    case True
    then obtain decoded v where d: "decompress (drop (length PREFIX_V2) (trim_hash hash)) = Some decoded"
        "json_parse rn decoded = Some v" "read_payload v = ShareOk s"
      using assms by (auto simp: readShareHash_def Let_def split: option.splits if_splits)
    then show ?thesis using payload [OF d(3)] by simp
  next
    case False
    then have "share_ok s" using assms
      by (auto simp: readShareHash_def Let_def share_ok_def split: option.splits if_splits)
    moreover have "\<not> (trim_hash hash = PREFIX_V2 @ drop (length PREFIX_V2) (trim_hash hash))"
      using False starts_with_append by metis
    ultimately show ?thesis by blast
  qed
qed

definition demo_share :: ShareState where
  "demo_share = \<lparr>sh_source = ''ret'', sh_files = None, sh_args = Some ''-x'', sh_stdin = None, sh_cursor = Some (3, 1), sh_checks = None\<rparr>"

text \<open>The JSON of a state is plain and reads back.\<close>

lemma plain_file [simp]: "plain (SourceFile_json f)"
proof -
  have "object_of [(''name'', JStr (sf_name f)), (''body'', JStr (sf_body f))] = [(''name'', JStr (sf_name f)), (''body'', JStr (sf_body f))]"
    by (rule object_of_distinct) (auto simp: not_index_key)
  then show ?thesis by (simp add: SourceFile_json_def)
qed

lemma plain_opt_field: "kv \<in> set (opt_field k f x) \<Longrightarrow> (\<And>a. x = Some a \<Longrightarrow> plain (f a)) \<Longrightarrow> plain (snd kv)"
  by (cases x) (auto simp: opt_field_def)

lemma plain_check: "check_ok c \<Longrightarrow> plain (ProgramCheck_json c)"
proof -
  assume c: "check_ok c"
  let ?kvs = "[(''name'', JStr (pc_name c)), (''stdin'', JStr (pc_stdin c)), (''args'', JStr (pc_args c)),
       (''stdout'', JStr (pc_stdout c))] @ opt_field ''exitCode'' int_json (pc_exitCode c)"
  have "object_of ?kvs = ?kvs"
    by (rule object_of_distinct) (auto simp: not_index_key opt_field_def split: option.splits)
  moreover have "\<forall>kv \<in> set ?kvs. plain (snd kv)" using c by (auto simp: check_ok_def elim!: plain_opt_field)
  ultimately show ?thesis by (simp only: ProgramCheck_json_def plain.simps)
qed

lemma plain_cursor: "plain (JNum l) \<Longrightarrow> plain (JNum k) \<Longrightarrow> plain (cursor_json (l, k))"
proof -
  have "object_of [(''line'', JNum l), (''column'', JNum k)] = [(''line'', JNum l), (''column'', JNum k)]"
    by (rule object_of_distinct) (auto simp: not_index_key)
  then show "plain (JNum l) \<Longrightarrow> plain (JNum k) \<Longrightarrow> plain (cursor_json (l, k))" by (simp add: cursor_json_def)
qed

lemma plain_share:
  assumes "share_ok s" "cursor_ok s"
  shows "plain (share_json s)"
proof -
  let ?kvs = "[(''source'', JStr (sh_source s))] @ opt_field ''files'' (\<lambda>fs. JArr (map SourceFile_json fs)) (sh_files s) @
           opt_field ''args'' JStr (sh_args s) @ opt_field ''stdin'' JStr (sh_stdin s) @
           opt_field ''cursor'' cursor_json (sh_cursor s) @
           opt_field ''checks'' (\<lambda>cs. JArr (map ProgramCheck_json cs)) (sh_checks s) @
           [(''h'', JStr (sourceChecksum (sh_source s)))]"
  have "distinct (map fst ?kvs)" by (simp add: opt_field_def split: option.split)
  moreover have "\<forall>kv \<in> set ?kvs. \<not> index_key (fst kv)" by (auto simp: opt_field_def not_index_key split: option.splits)
  ultimately have "object_of ?kvs = ?kvs" by (rule object_of_distinct)
  moreover have "\<forall>kv \<in> set ?kvs. plain (snd kv)"
  proof -
    have "plain (cursor_json c)" if "sh_cursor s = Some c" for c
      using that assms(2) plain_cursor [of "fst c" "snd c"] by (cases c) (simp add: cursor_ok_def)
    moreover have "plain (JArr (map ProgramCheck_json cs))" if "sh_checks s = Some cs" for cs
      using that assms(1) plain_check by (auto simp: share_ok_def checks_ok_def list_all_iff)
    ultimately show ?thesis by (auto elim!: plain_opt_field)
  qed
  ultimately show ?thesis by (simp only: share_json_def plain.simps)
qed

lemma share_file_printed: "js_trim (sf_name f) = sf_name f \<Longrightarrow> share_file (SourceFile_json f) = Some f"
  by (cases f) (simp add: share_file_def SourceFile_json_def)

lemma share_files_printed:
  assumes "files_ok fs"
  shows "share_files (Some (JArr (map SourceFile_json fs))) = Some (Some fs)"
proof -
  have "collect share_file (map SourceFile_json fs) = Some fs"
    using assms by (intro collect_map share_file_printed) (auto simp: files_ok_def in_set_conv_nth)
  then show ?thesis using assms by (auto simp: share_files_def files_ok_def list_ex_iff)
qed

lemma share_checks_printed: "checks_ok cs \<Longrightarrow> share_checks (Some (JArr (map ProgramCheck_json cs))) = Some cs"
  by (auto simp: checks_ok_def share_checks_def parseChecks_def list_all_iff isCheck_printed copy_check_printed map_idI)

lemma share_cursor_printed [simp]: "share_cursor (map_option cursor_json c) = c"
  by (cases c) (auto simp: share_cursor_def cursor_json_def)

lemma as_string_printed [simp]: "as_string (map_option JStr a) = a"
  by (cases a) auto

lemma member_share:
  "member (share_json s) ''source'' = Some (JStr (sh_source s))"
  "member (share_json s) ''files'' = map_option (\<lambda>fs. JArr (map SourceFile_json fs)) (sh_files s)"
  "member (share_json s) ''args'' = map_option JStr (sh_args s)" "member (share_json s) ''stdin'' = map_option JStr (sh_stdin s)"
  "member (share_json s) ''cursor'' = map_option cursor_json (sh_cursor s)"
  "member (share_json s) ''checks'' = map_option (\<lambda>cs. JArr (map ProgramCheck_json cs)) (sh_checks s)"
  "member (share_json s) ''h'' = Some (JStr (sourceChecksum (sh_source s)))"
  by (simp_all add: share_json_def del: map_of_append)

lemma read_payload_printed: "share_ok s \<Longrightarrow> read_payload (share_json s) = ShareOk s"
  using share_files_printed share_checks_printed
  by (cases s; cases "sh_files s"; cases "sh_checks s")
    (auto simp: read_payload_def member_share share_ok_def share_files_def share_checks_def parseChecks_def)

text \<open>C25: a link that is built from a state whose files and checks are within the rules, and that is
  not too long, opens as exactly that state: source, files, arguments, input, cursor and checks.\<close>

theorem share_link_round_trip:
  assumes lz: "\<And>text. decompress (compress text) = Some text"
    and "share_ok s" "cursor_ok s"
    and "length (compress (json_text sn (share_json s))) \<le> MAX_SHARE_HASH_BYTES"
    and "length (json_text sn (share_json s)) \<le> MAX_SHARE_DECOMPRESSED_BYTES"
  shows "readShareHash rn decompress (buildShareHash sn compress s) = ShareOk s"
proof -
  let ?text = "json_text sn (share_json s)"
  have t: "trim_hash (buildShareHash sn compress s) = PREFIX_V2 @ compress ?text" by (simp add: trim_hash_def buildShareHash_def)
  have "?text \<noteq> []" using text_first [OF plain_share [OF assms(2,3)]] by blast
  then show ?thesis unfolding readShareHash_def t Let_def
    using assms parse_stringify [OF plain_share [OF assms(2,3)], of rn sn] by (simp add: read_payload_printed)
qed

lemma length_json_char: "length (json_char c) \<le> 6"
  using hex4_ok(1) [of c] by (simp add: json_char_def)

lemma length_stringify: "length (json_stringify s) \<le> 6 * length s + 2"
proof -
  have "length (concat (map json_char s)) \<le> 6 * length s"
  proof (induction s)
    case (Cons c s)
    then show ?case using length_json_char [of c] by simp
  qed simp
  then show ?thesis by (simp add: json_stringify_def)
qed

lemma length_checksum: "length (sourceChecksum s) \<le> 8"
  unfolding sourceChecksum_def by (rule hex.to_string_length_le) (use unsigned_less [of "fold checksum_step s 5381", where ?'a = nat] in simp_all)

lemma demo_share_size: "length (json_text (\<lambda>_. []) (share_json demo_share)) \<le> 400"
proof -
  have "number_text (\<lambda>_. []) 3 = show_int 3" "number_text (\<lambda>_. []) 1 = show_int 1"
    using number_text_plain [of 3 "\<lambda>_. []"] number_text_plain [of 1 "\<lambda>_. []"] by simp_all
  moreover have "length (show_int 3) = 1" "length (show_int 1) = 1" by (simp_all add: show_int_def to_string_def nat_to_string.simps)
  ultimately show ?thesis
    using length_stringify [of "sourceChecksum ''ret''"] length_checksum [of "''ret''"] length_stringify [of "''source''"]
      length_stringify [of "''ret''"] length_stringify [of "''args''"] length_stringify [of "''-x''"] length_stringify [of "''cursor''"]
      length_stringify [of "''line''"] length_stringify [of "''column''"] length_stringify [of "''h''"]
    by (simp add: demo_share_def share_json_def opt_field_def cursor_json_def)
qed

lemma demo_share_ok: "share_ok demo_share" "cursor_ok demo_share"
proof -
  have "plain (JNum 3)" "plain (JNum 1)" using plain_int_json [of 3] plain_int_json [of 1] by (simp_all add: int_json_def)
  then show "share_ok demo_share" "cursor_ok demo_share" by (simp_all add: demo_share_def share_ok_def cursor_ok_def)
qed

theorem share_link_round_trip_witness:
  "readShareHash (\<lambda>_. 0) Some (buildShareHash (\<lambda>_. []) (\<lambda>t. t) demo_share) = ShareOk demo_share"
  using demo_share_size
  by (intro share_link_round_trip demo_share_ok) (simp_all add: MAX_SHARE_HASH_BYTES_def MAX_SHARE_DECOMPRESSED_BYTES_def)

theorem opened_link_is_well_formed_witness:
  "readShareHash (\<lambda>_. 0) Some ''#p=ret'' = ShareOk (demo_share\<lparr>sh_args := None, sh_cursor := None\<rparr>) \<and>
   share_ok (demo_share\<lparr>sh_args := None, sh_cursor := None\<rparr>)"
proof -
  have r: "readShareHash (\<lambda>_. 0) Some ''#p=ret'' = ShareOk (demo_share\<lparr>sh_args := None, sh_cursor := None\<rparr>)"
    by (simp add: readShareHash_def trim_hash_def PREFIX_V2_def PREFIX_V1_def MAX_SHARE_HASH_BYTES_def
        MAX_SHARE_DECOMPRESSED_BYTES_def demo_share_def)
  then show ?thesis using opened_link_is_well_formed [OF r] by blast
qed

subsection \<open>Workspace bundles\<close>

definition bundle_file_ok :: "SourceFile \<Rightarrow> bool" where
  "bundle_file_ok f \<longleftrightarrow>
     js_trim (sf_name f) = sf_name f \<and> fileNameShapeError (sf_name f) = None \<and> validateSource (sf_body f) = None"

lemma fileNameShapeError_trim [simp]: "fileNameShapeError (js_trim s) = fileNameShapeError s"
  by (simp add: fileNameShapeError_def)

interpretation workspace_files: exact_validator bundle_file bundle_file_ok SourceFile_json
proof
  fix raw i f assume "bundle_file raw i = Inr f"
  then show "bundle_file_ok f" by (auto simp: bundle_file_def bundle_file_ok_def split: option.splits)
next
  fix f i assume "bundle_file_ok f"
  then show "bundle_file (SourceFile_json f) i = Inr f" by (cases f) (auto simp: bundle_file_def bundle_file_ok_def SourceFile_json_def)
qed

definition bundle_json :: "SourceFile list \<Rightarrow> json" where
  "bundle_json fs = JObj [(''version'', int_json 1), (''files'', JArr (map SourceFile_json fs))]"

lemma plain_bundle: "plain (bundle_json fs)"
proof -
  have "object_of [(''version'', int_json 1), (''files'', JArr (map SourceFile_json fs))] =
      [(''version'', int_json 1), (''files'', JArr (map SourceFile_json fs))]"
    by (rule object_of_distinct) (auto simp: not_index_key)
  then show ?thesis by (simp add: bundle_json_def)
qed

text \<open>C40: the workspaces that a bundle file can bring in, over all texts of untrusted files, are exactly
  the lists of one to 32 files with trimmed, well-shaped names and bodies within the size cap; such a
  list is brought in again unchanged from its own JSON.\<close>

theorem readWorkspaceBundle_accepts_exactly:
  "(\<exists>raw. readWorkspaceBundle rn raw = Inr fs) \<longleftrightarrow>
     0 < length fs \<and> length fs \<le> MAX_WORKSPACE_FILES \<and> list_all bundle_file_ok fs"
proof
  assume "\<exists>raw. readWorkspaceBundle rn raw = Inr fs"
  then obtain raw where r: "readWorkspaceBundle rn raw = Inr fs" by blast
  then obtain b where b: "json_parse rn raw = Some (JObj b)"
    by (cases "json_parse rn raw"; cases "the (json_parse rn raw)") (simp_all add: readWorkspaceBundle_def)
  then obtain ver xs where "as_number (map_of b ''version'') = Some ver" "as_array (map_of b ''files'') = Some xs"
    using r by (cases "as_number (map_of b ''version'')"; cases "as_array (map_of b ''files'')") (simp_all add: readWorkspaceBundle_def)
  then have "0 < length xs" "length xs \<le> MAX_WORKSPACE_FILES" "validate_all bundle_file 0 xs = Inr fs"
    using r b by (simp_all add: readWorkspaceBundle_def split: if_splits)
  then show "0 < length fs \<and> length fs \<le> MAX_WORKSPACE_FILES \<and> list_all bundle_file_ok fs"
    using workspace_files.all_good by fastforce
next
  assume fs: "0 < length fs \<and> length fs \<le> MAX_WORKSPACE_FILES \<and> list_all bundle_file_ok fs"
  have "json_parse rn (json_text (\<lambda>_. []) (bundle_json fs)) = Some (bundle_json fs)" by (rule parse_stringify [OF plain_bundle])
  then have "readWorkspaceBundle rn (json_text (\<lambda>_. []) (bundle_json fs)) = Inr fs"
    using fs workspace_files.all_printed [of fs 0] by (simp add: readWorkspaceBundle_def bundle_json_def int_json_def)
  then show "\<exists>raw. readWorkspaceBundle rn raw = Inr fs" ..
qed

end
