(* ===== verification/Protocol.thy ===== *)
theory Protocol
  imports RunLoop RegisterText Json
begin

text \<open>
  The messages between the page and the emulator worker: \<open>web/lib/worker/protocol.ts\<close>.  A request
  and its id are sent as a pair; a reply echoes the id; a heartbeat carries none.  Lint warnings and
  the m4 result, which the worker only passes on, are JSON values.
\<close>

record RunGoal =
  rg_depth :: "int option"
  rg_pc :: "int option"

datatype Request =
    RInit
  | RAssemble jstring "jstring list"
  | RStep
  | RStepBack
  | RRunUntilBreak nat "RunGoal option"
  | RPause
  | RReset
  | RPushStdin jstring bool
  | RCloseStdin
  | RSetSnapshotsPaused bool
  | RTakeStdout
  | RTakeStderr
  | RGetMemory int int
  | RIsRangeMapped int int
  | RGetSnapshot
  | RSetBreakpoint int
  | RClearBreakpoint int
  | RClearAllBreakpoints
  | RSaveState jstring
  | RLoadState jstring
  | RDeleteState jstring
  | RListStates
  | RUploadVfsFile jstring "nat list"
  | RListVfsFiles
  | RReadVfsFile jstring
  | RDeleteVfsFile jstring
  | RResolveLabel jstring
  | RM4Expand jstring
  | RLint jstring
  | RClearConsole
  | RCodeBase
  | RLineMap
  | RMemoryMap
  | RFrameLayout

record AssembleResultPayload =
  ap_success :: bool
  ap_error :: "jstring option"
  ap_error_line :: "int option"
  ap_instruction_count :: nat

record StepResultPayload =
  sp_pc :: int
  sp_halted :: bool
  sp_error :: "jstring option"
  sp_error_line :: "int option"
  sp_outcome :: jstring
  sp_exitCode :: "int option"

record ExternalCall =
  xc_name :: jstring
  xc_callSitePc :: int
  xc_callSiteLine :: "int option"

record StateSnapshot =
  ss_frame :: nat
  ss_registers :: "jstring list"
  ss_fpRegisters :: "jstring list"
  ss_vectorRegisters :: "jstring list"
  ss_sp :: jstring
  ss_pc :: jstring
  ss_nzcv :: int
  ss_changedRegs :: "nat list"
  ss_changedFpRegs :: "nat list"
  ss_halted :: bool
  ss_blocked :: bool
  ss_exitCode :: "int option"
  ss_canStepBack :: bool
  ss_stdoutDelta :: jstring
  ss_stderrDelta :: jstring
  ss_stdoutSeen :: "int option"
  ss_stderrSeen :: "int option"
  ss_vfsFiles :: "jstring list"
  ss_savedStates :: "jstring list"
  ss_wantsTerminal :: bool
  ss_externalCall :: "ExternalCall option"
  ss_clobberNotes :: "int list option"
  ss_frames :: "int list option"
  ss_callCard :: "int list option"
  ss_dirtyAddrs :: "int list"

definition emptyStateSnapshot :: "nat \<Rightarrow> StateSnapshot" where
  "emptyStateSnapshot frame =
     \<lparr>ss_frame = frame, ss_registers = replicate 31 ''0x0000000000000000'', ss_fpRegisters = [], ss_vectorRegisters = [],
      ss_sp = ''0x0000000080000000'', ss_pc = ''0x0000000000400000'', ss_nzcv = 0, ss_changedRegs = [], ss_changedFpRegs = [],
      ss_halted = False, ss_blocked = False, ss_exitCode = None, ss_canStepBack = False, ss_stdoutDelta = [],
      ss_stderrDelta = [], ss_stdoutSeen = None, ss_stderrSeen = None, ss_vfsFiles = [], ss_savedStates = [],
      ss_wantsTerminal = False, ss_externalCall = None, ss_clobberNotes = None, ss_frames = None, ss_callCard = None,
      ss_dirtyAddrs = []\<rparr>"

text \<open>The values of ok replies.\<close>

datatype Value =
    VNull
  | VSnapshot StateSnapshot
  | VAssemble AssembleResultPayload StateSnapshot
  | VStep StepResultPayload StateSnapshot
  | VRun RunResultPayload StateSnapshot
  | VOk bool StateSnapshot
  | VRemoved bool StateSnapshot
  | VBool bool
  | VString jstring
  | VStrings "jstring list"
  | VBytes "nat list"
  | VNumber "int option"
  | VNumbers "int list"
  | VJson json
  | VRegions "MemoryRegion list"
  | VLayout "FrameLayoutPayload option"

datatype WorkerMessage =
    OkResponse nat Value
  | ErrorResponse nat jstring
  | Heartbeat StateSnapshot

text \<open>The snapshot a value carries: as its \<open>snapshot\<close> field, or by being one.\<close>

fun value_snapshot :: "Value \<Rightarrow> StateSnapshot option" where
  "value_snapshot (VSnapshot s) = Some s"
| "value_snapshot (VAssemble _ s) = Some s"
| "value_snapshot (VStep _ s) = Some s"
| "value_snapshot (VRun _ s) = Some s"
| "value_snapshot (VOk _ s) = Some s"
| "value_snapshot (VRemoved _ s) = Some s"
| "value_snapshot _ = None"

end
