(* ===== verification/Worker.thy ===== *)
theory Worker
  imports Protocol "HOL-Library.Multiset"
begin

text \<open>
  The worker that owns the emulator: \<open>web/lib/worker/emulator.worker.ts\<close> and \<open>dead-instance.ts\<close>.

  The wasm module is a parameter: a record of the methods of \<open>Emulator\<close> on an instance of type
  \<open>'e\<close>, each of which may throw and may change the instance; a method an older build lacks is
  \<open>None\<close>.  Instances live in a store, since a run that is under way keeps the instance it started
  with while the variable \<open>emulator\<close> may come to hold another one.  Handlers are asynchronous: one
  runs until its \<open>await\<close>, which is the state of a task, and the steps of the worker interleave
  the tasks in any order.
\<close>

subsection \<open>Exceptions and effects\<close>

record Thrown =
  th_runtimeError :: bool
  th_message :: jstring

definition isDeadInstance :: "Thrown \<Rightarrow> bool" where
  "isDeadInstance e \<longleftrightarrow>
     th_runtimeError e \<or>
     js_includes (th_message e) ''recursive use of an object'' \<or>
     js_includes (th_message e) ''already borrowed'' \<or>
     js_includes (th_message e) ''null pointer passed to rust'' \<or>
     js_includes (th_message e) ''unreachable executed''"

type_synonym ('s, 'a) act = "'s \<Rightarrow> (Thrown + 'a) \<times> 's"

definition ret :: "'a \<Rightarrow> ('s, 'a) act" where
  "ret a s = (Inr a, s)"

definition throw :: "Thrown \<Rightarrow> ('s, 'a) act" where
  "throw e s = (Inl e, s)"

definition bind :: "('s, 'a) act \<Rightarrow> ('a \<Rightarrow> ('s, 'b) act) \<Rightarrow> ('s, 'b) act" where
  "bind m k s = (case m s of (Inl e, s') \<Rightarrow> (Inl e, s') | (Inr a, s') \<Rightarrow> k a s')"

definition gets :: "('s \<Rightarrow> 'a) \<Rightarrow> ('s, 'a) act" where
  "gets f s = (Inr (f s), s)"

definition modify :: "('s \<Rightarrow> 's) \<Rightarrow> ('s, unit) act" where
  "modify f s = (Inr (), f s)"

subsection \<open>The emulator's exports\<close>

record RawStep =
  rs_pc :: int
  rs_halted :: bool
  rs_error :: "jstring option"
  rs_error_line :: "int option"
  rs_outcome :: "jstring option"
  rs_exit_code :: "int option"

record RawRun =
  rn_pc :: int
  rn_halted :: bool
  rn_steps_executed :: nat
  rn_hit_breakpoint :: bool
  rn_error :: "jstring option"
  rn_error_line :: "int option"
  rn_sleep_ms :: "int option"
  rn_reached :: bool
  rn_bad_return :: bool

record AllRegisters =
  ar_gpr :: "jstring list"
  ar_sp :: jstring
  ar_pc :: jstring
  ar_nzcv :: int

record RawHostCall =
  hx_name :: jstring
  hx_call_site_pc :: int
  hx_call_site_line :: "int option"

record 'e Emulator =
  em_assemble_and_load :: "jstring \<Rightarrow> ('e, AssembleResultPayload) act"
  em_assemble_and_load_with_args :: "jstring \<Rightarrow> jstring list \<Rightarrow> ('e, AssembleResultPayload) act"
  em_step :: "('e, RawStep) act"
  em_step_back :: "('e, RawStep) act"
  em_run_until_break :: "nat \<Rightarrow> ('e, RawRun) act"
  em_run_to :: "nat \<Rightarrow> int \<Rightarrow> int \<Rightarrow> ('e, RawRun) act"
  em_is_blocked :: "('e, bool) act"
  em_is_halted :: "('e, bool) act"
  em_reset :: "('e, unit) act"
  em_push_stdin :: "jstring \<Rightarrow> ('e, unit) act"
  em_push_stdin_interactive :: "(jstring \<Rightarrow> ('e, unit) act) option"
  em_lint_source :: "(jstring \<Rightarrow> ('e, json) act) option"
  em_is_range_mapped :: "(int \<Rightarrow> int \<Rightarrow> ('e, bool) act) option"
  em_clear_all_breakpoints :: "('e, unit) act option"
  em_close_stdin :: "('e, unit) act option"
  em_set_snapshots_paused :: "(bool \<Rightarrow> ('e, unit) act) option"
  em_take_stdout :: "('e, jstring) act"
  em_take_stderr :: "('e, jstring) act"
  em_get_memory_range :: "int \<Rightarrow> int \<Rightarrow> ('e, nat list) act"
  em_set_breakpoint :: "int \<Rightarrow> ('e, unit) act"
  em_clear_breakpoint :: "int \<Rightarrow> ('e, unit) act"
  em_save_state :: "jstring \<Rightarrow> ('e, unit) act"
  em_load_state :: "jstring \<Rightarrow> ('e, bool) act"
  em_delete_state :: "jstring \<Rightarrow> ('e, bool) act"
  em_list_states :: "('e, jstring list) act"
  em_upload_vfs_file :: "jstring \<Rightarrow> nat list \<Rightarrow> ('e, unit) act"
  em_list_vfs_files :: "('e, jstring list) act"
  em_read_vfs_file :: "jstring \<Rightarrow> ('e, nat list) act"
  em_delete_vfs_file :: "jstring \<Rightarrow> ('e, bool) act"
  em_m4_expand :: "(jstring \<Rightarrow> ('e, json) act) option"
  em_resolve_label :: "jstring \<Rightarrow> ('e, int option) act"
  em_clear_console :: "('e, unit) act"
  em_code_base :: "('e, int) act"
  em_get_line_map :: "('e, int list) act"
  em_frames :: "('e, int list) act option"
  em_frame_layout :: "('e, int list) act option"
  em_frame_names :: "('e, jstring list) act option"
  em_last_call :: "('e, int list) act option"
  em_get_all_registers :: "('e, AllRegisters) act"
  em_get_changed_registers :: "('e, nat list) act"
  em_get_fp_registers :: "('e, jstring list) act option"
  em_get_changed_fp_registers :: "('e, nat list) act option"
  em_get_vector_registers :: "('e, jstring list) act option"
  em_wants_terminal :: "('e, bool) act option"
  em_hostCallContext :: "('e, RawHostCall option) act option"
  em_stdout_seen :: "('e, int) act option"
  em_stderr_seen :: "('e, int) act option"
  em_take_clobber_notes :: "('e, int list) act option"
  em_get_exit_code :: "('e, int option) act"
  em_can_step_back :: "('e, bool) act"
  em_take_dirty_addrs :: "('e, int list) act"

text \<open>The module's other export, read for the address bands.\<close>

record 'e Wasm =
  wa_emulator :: "'e Emulator"
  wa_memoryMap :: "(Thrown + raw_region option list option) option"

subsection \<open>The worker's variables\<close>

datatype promise = Pending | Fulfilled | RejectedWith Thrown

record 'e core =
  c_instances :: "'e list"
  c_promises :: "promise list"
  c_emulator :: "nat option"
  c_regions :: "MemoryRegion list option"
  c_frame :: nat
  c_pauseRequested :: bool
  c_runEpoch :: int
  c_wasmReady :: "nat option"

definition worker_start :: "'e core" where
  "worker_start =
     \<lparr>c_instances = [], c_promises = [], c_emulator = None, c_regions = None, c_frame = 0, c_pauseRequested = False,
      c_runEpoch = 0, c_wasmReady = None\<rparr>"

text \<open>A method called on an instance of the store.\<close>

definition invoke :: "nat \<Rightarrow> ('e, 'a) act \<Rightarrow> ('e core, 'a) act" where
  "invoke i f c = (case f (c_instances c ! i) of (r, e) \<Rightarrow> (r, c\<lparr>c_instances := (c_instances c)[i := e]\<rparr>))"

text \<open>\<open>method?.() ?? d\<close>.\<close>

definition invoke_opt :: "nat \<Rightarrow> ('e, 'a) act option \<Rightarrow> 'a \<Rightarrow> ('e core, 'a) act" where
  "invoke_opt i f d = (case f of None \<Rightarrow> ret d | Some g \<Rightarrow> invoke i g)"

definition invoke_maybe :: "nat \<Rightarrow> ('e, 'a) act option \<Rightarrow> ('e core, 'a option) act" where
  "invoke_maybe i f = (case f of None \<Rightarrow> ret None | Some g \<Rightarrow> bind (invoke i g) (\<lambda>a. ret (Some a)))"

definition require_emulator :: "('e core, nat) act" where
  "require_emulator c =
     (case c_emulator c of
        None \<Rightarrow> (Inl \<lparr>th_runtimeError = False, th_message = ''emulator not initialized; send `init` first''\<rparr>, c)
      | Some i \<Rightarrow> (Inr i, c))"

definition bumpFrame :: "('e core, unit) act" where
  "bumpFrame c = (Inr (), c\<lparr>c_frame := c_frame c + 1\<rparr>)"

definition readMemoryMap :: "'e Wasm \<Rightarrow> ('e core, MemoryRegion list) act" where
  "readMemoryMap wasm c =
     (case c_regions c of
        Some rs \<Rightarrow> (Inr rs, c)
      | None \<Rightarrow>
          (case wa_memoryMap wasm of
             None \<Rightarrow> (Inr [], c\<lparr>c_regions := Some []\<rparr>)
           | Some (Inl e) \<Rightarrow> (Inl e, c)
           | Some (Inr raw) \<Rightarrow> (Inr (normalizeMemoryMap raw), c\<lparr>c_regions := Some (normalizeMemoryMap raw)\<rparr>)))"

definition readExternalCall :: "'e Emulator \<Rightarrow> nat \<Rightarrow> ('e core, ExternalCall option) act" where
  "readExternalCall em i =
     (case em_hostCallContext em of
        None \<Rightarrow> ret None
      | Some probe \<Rightarrow>
          bind (invoke i probe) (\<lambda>raw.
          ret (map_option (\<lambda>r. \<lparr>xc_name = hx_name r, xc_callSitePc = to_number (hx_call_site_pc r),
                                 xc_callSiteLine = hx_call_site_line r\<rparr>) raw)))"

definition nonempty :: "'a list option \<Rightarrow> 'a list option" where
  "nonempty x = (if x = Some [] then None else x)"

definition live_snapshot :: "'e Emulator \<Rightarrow> nat \<Rightarrow> ('e core, StateSnapshot) act" where
  "live_snapshot em i =
     bind (invoke i (em_get_all_registers em)) (\<lambda>regs.
     bind (invoke i (em_get_changed_registers em)) (\<lambda>changed.
     bind (invoke_opt i (em_get_fp_registers em) []) (\<lambda>fpRegisters.
     bind (invoke_opt i (em_get_changed_fp_registers em) []) (\<lambda>changedFp.
     bind (invoke_opt i (em_get_vector_registers em) []) (\<lambda>vectorRegisters.
     bind (invoke_opt i (em_wants_terminal em) False) (\<lambda>wantsTerminal.
     bind (readExternalCall em i) (\<lambda>externalCall.
     bind (invoke i (em_take_stdout em)) (\<lambda>stdoutDelta.
     bind (invoke i (em_take_stderr em)) (\<lambda>stderrDelta.
     bind (invoke_maybe i (em_stdout_seen em)) (\<lambda>stdoutSeen.
     bind (invoke_maybe i (em_stderr_seen em)) (\<lambda>stderrSeen.
     bind (invoke_maybe i (em_take_clobber_notes em)) (\<lambda>clobberNotes.
     bind (invoke_maybe i (em_frames em)) (\<lambda>frames.
     bind (invoke_maybe i (em_last_call em)) (\<lambda>callCard.
     bind (invoke i (em_get_exit_code em)) (\<lambda>exit.
     bind (invoke i (em_is_halted em)) (\<lambda>isHalted.
     bind (invoke i (em_is_blocked em)) (\<lambda>isBlocked.
     bind (invoke i (em_can_step_back em)) (\<lambda>canStepBack.
     bind (invoke i (em_list_vfs_files em)) (\<lambda>vfsFiles.
     bind (invoke i (em_list_states em)) (\<lambda>savedStates.
     bind (invoke i (em_take_dirty_addrs em)) (\<lambda>dirty.
          bind (gets c_frame) (\<lambda>frame.
     ret \<lparr>ss_frame = frame, ss_registers = ar_gpr regs, ss_fpRegisters = fpRegisters,
               ss_vectorRegisters = vectorRegisters, ss_sp = ar_sp regs, ss_pc = ar_pc regs, ss_nzcv = ar_nzcv regs,
               ss_changedRegs = changed, ss_changedFpRegs = changedFp, ss_halted = isHalted, ss_blocked = isBlocked,
               ss_exitCode = map_option to_number exit, ss_canStepBack = canStepBack, ss_stdoutDelta = stdoutDelta,
               ss_stderrDelta = stderrDelta, ss_stdoutSeen = stdoutSeen, ss_stderrSeen = stderrSeen,
               ss_vfsFiles = vfsFiles, ss_savedStates = savedStates, ss_wantsTerminal = wantsTerminal,
               ss_externalCall = externalCall, ss_clobberNotes = nonempty clobberNotes, ss_frames = frames,
               ss_callCard = nonempty callCard, ss_dirtyAddrs = map to_number dirty\<rparr>))))))))))))))))))))))"

definition snapshot :: "'e Emulator \<Rightarrow> ('e core, StateSnapshot) act" where
  "snapshot em c =
     (case c_emulator c of
        None \<Rightarrow> (Inr (emptyStateSnapshot (c_frame c)), c)
      | Some i \<Rightarrow> live_snapshot em i c)"

subsection \<open>Requests on the emulator\<close>

definition step_result :: "bool \<Rightarrow> RawStep \<Rightarrow> StepResultPayload" where
  "step_result with_line raw =
     \<lparr>sp_pc = to_number (rs_pc raw), sp_halted = rs_halted raw, sp_error = rs_error raw,
      sp_error_line = (if with_line then rs_error_line raw else None),
      sp_outcome = (case rs_outcome raw of None \<Rightarrow> ''advance'' | Some s \<Rightarrow> s),
      sp_exitCode = map_option to_number (rs_exit_code raw)\<rparr>"

definition with_snapshot :: "'e Emulator \<Rightarrow> (StateSnapshot \<Rightarrow> Value) \<Rightarrow> ('e core, Value) act" where
  "with_snapshot em f = bind (snapshot em) (\<lambda>s. ret (f s))"

definition bumped :: "'e Emulator \<Rightarrow> (StateSnapshot \<Rightarrow> Value) \<Rightarrow> ('e core, Value) act" where
  "bumped em f = bind bumpFrame (\<lambda>_. with_snapshot em f)"

text \<open>What a handler does once the module is there, for every kind but the run; the kinds that
  do not wait for the module are handled in \<open>receive\<close> below.\<close>

definition handle :: "'e Wasm \<Rightarrow> Request \<Rightarrow> nat \<Rightarrow> ('e core, Value) act" where
  "handle wasm req emu =
     (let em = wa_emulator wasm in
      case req of
        RAssemble source args \<Rightarrow>
          bind (invoke emu (if args \<noteq> [] then em_assemble_and_load_with_args em source args else em_assemble_and_load em source))
            (\<lambda>result. bumped em (VAssemble result))
      | RStep \<Rightarrow> bind (invoke emu (em_step em)) (\<lambda>raw. bumped em (VStep (step_result True raw)))
      | RStepBack \<Rightarrow> bind (invoke emu (em_step_back em)) (\<lambda>raw. bumped em (VStep (step_result False raw)))
      | RReset \<Rightarrow> bind (invoke emu (em_reset em)) (\<lambda>_. bumped em VSnapshot)
      | RPushStdin text interactive \<Rightarrow>
          bind (invoke emu (case em_push_stdin_interactive em of
                              Some push \<Rightarrow> if interactive then push text else em_push_stdin em text
                            | None \<Rightarrow> em_push_stdin em text))
            (\<lambda>_. bumped em VSnapshot)
      | RLint source \<Rightarrow>
          bind (invoke_opt emu (map_option (\<lambda>f. f source) (em_lint_source em)) (JArr [])) (\<lambda>ws. ret (VJson ws))
      | RIsRangeMapped addr len \<Rightarrow>
          bind (invoke_opt emu (map_option (\<lambda>f. f addr len) (em_is_range_mapped em)) True) (\<lambda>b. ret (VBool b))
      | RClearAllBreakpoints \<Rightarrow> bind (invoke_opt emu (em_clear_all_breakpoints em) ()) (\<lambda>_. ret VNull)
      | RCloseStdin \<Rightarrow> bind (invoke_opt emu (em_close_stdin em) ()) (\<lambda>_. bumped em VSnapshot)
      | RSetSnapshotsPaused paused \<Rightarrow>
          bind (invoke_opt emu (map_option (\<lambda>f. f paused) (em_set_snapshots_paused em)) ()) (\<lambda>_. ret VNull)
      | RTakeStdout \<Rightarrow> bind (invoke emu (em_take_stdout em)) (\<lambda>s. ret (VString s))
      | RTakeStderr \<Rightarrow> bind (invoke emu (em_take_stderr em)) (\<lambda>s. ret (VString s))
      | RGetMemory addr len \<Rightarrow> bind (invoke emu (em_get_memory_range em addr len)) (\<lambda>bytes. ret (VBytes bytes))
      | RSetBreakpoint addr \<Rightarrow> bind (invoke emu (em_set_breakpoint em addr)) (\<lambda>_. ret VNull)
      | RClearBreakpoint addr \<Rightarrow> bind (invoke emu (em_clear_breakpoint em addr)) (\<lambda>_. ret VNull)
      | RSaveState name \<Rightarrow> bind (invoke emu (em_save_state em name)) (\<lambda>_. with_snapshot em VSnapshot)
      | RLoadState name \<Rightarrow> bind (invoke emu (em_load_state em name)) (\<lambda>b. bumped em (VOk b))
      | RDeleteState name \<Rightarrow> bind (invoke emu (em_delete_state em name)) (\<lambda>b. with_snapshot em (VOk b))
      | RListStates \<Rightarrow> bind (invoke emu (em_list_states em)) (\<lambda>ss. ret (VStrings ss))
      | RUploadVfsFile path data \<Rightarrow> bind (invoke emu (em_upload_vfs_file em path data)) (\<lambda>_. with_snapshot em VSnapshot)
      | RListVfsFiles \<Rightarrow> bind (invoke emu (em_list_vfs_files em)) (\<lambda>ss. ret (VStrings ss))
      | RReadVfsFile path \<Rightarrow> bind (invoke emu (em_read_vfs_file em path)) (\<lambda>bytes. ret (VBytes bytes))
      | RDeleteVfsFile path \<Rightarrow> bind (invoke emu (em_delete_vfs_file em path)) (\<lambda>b. bumped em (VRemoved b))
      | RM4Expand source \<Rightarrow>
          bind (invoke_opt emu (map_option (\<lambda>f. f source) (em_m4_expand em)) JNull) (\<lambda>v. ret (VJson v))
      | RResolveLabel name \<Rightarrow>
          bind (invoke emu (em_resolve_label em name)) (\<lambda>addr. ret (VNumber (map_option to_number addr)))
      | RClearConsole \<Rightarrow> bind (invoke emu (em_clear_console em)) (\<lambda>_. with_snapshot em VSnapshot)
      | RCodeBase \<Rightarrow> bind (invoke emu (em_code_base em)) (\<lambda>n. ret (VNumber (Some (to_number n))))
      | RLineMap \<Rightarrow> bind (invoke emu (em_get_line_map em)) (\<lambda>ns. ret (VNumbers ns))
      | RFrameLayout \<Rightarrow>
          bind (invoke_maybe emu (em_frame_layout em)) (\<lambda>ns.
          bind (invoke_maybe emu (em_frame_names em)) (\<lambda>names.
          ret (VLayout (readFrameLayout \<lparr>ex_frames = None, ex_frame_layout = ns, ex_frame_names = names\<rparr>))))
      | _ \<Rightarrow> ret VNull)"

text \<open>\<open>memoryMap\<close> alone needs no emulator after the wait.\<close>

definition handle_ready :: "'e Wasm \<Rightarrow> Request \<Rightarrow> ('e core, Value) act" where
  "handle_ready wasm req =
     (if req = RMemoryMap then bind (readMemoryMap wasm) (\<lambda>rs. ret (VRegions rs))
      else bind require_emulator (handle wasm req))"

subsection \<open>The run\<close>

definition HEARTBEAT_INTERVAL_MS :: rat where "HEARTBEAT_INTERVAL_MS = 50"

text \<open>A run between two chunks: the instance and the goal it captured, and the variables of
  \<open>runChunked\<close>.\<close>

record RunState =
  ru_emu :: nat
  ru_epoch :: int
  ru_max :: nat
  ru_until :: "RunGoal option"
  ru_total :: nat
  ru_lastHeartbeat :: rat
  ru_result :: RunResultPayload

definition run_result :: "RawRun \<Rightarrow> RunResultPayload" where
  "run_result raw =
     \<lparr>rr_pc = to_number (rn_pc raw), halted = rn_halted raw, steps_executed = rn_steps_executed raw,
      hit_breakpoint = rn_hit_breakpoint raw, rr_error = rn_error raw, error_line = rn_error_line raw,
      step_limit_reached = False, cancelled = False, sleep_ms = rn_sleep_ms raw, reached = rn_reached raw,
      bad_return = rn_bad_return raw\<rparr>"

definition worker_chunk :: "'e Emulator \<Rightarrow> RunState \<Rightarrow> nat \<Rightarrow> ('e core, RunResultPayload) act" where
  "worker_chunk em ru steps =
     bind (invoke (ru_emu ru)
            (case ru_until ru of
               Some goal \<Rightarrow> em_run_to em steps (case_option (- 1) (\<lambda>d. d) (rg_depth goal)) (case_option (- 1) (\<lambda>p. p) (rg_pc goal))
             | None \<Rightarrow> em_run_until_break em steps))
       (\<lambda>raw. ret (run_result raw))"

datatype round = Finished RunState | Yielded RunState

text \<open>One round of the loop up to its \<open>await\<close>, with the heartbeat it posts, at the time \<open>at_time\<close>.\<close>

definition run_round :: "'e Emulator \<Rightarrow> rat \<Rightarrow> RunState \<Rightarrow> ('e core, round \<times> StateSnapshot option) act" where
  "run_round em at_time ru =
     bind (worker_chunk em ru (min CHUNK_STEPS (ru_max ru - ru_total ru))) (\<lambda>chunk.
     let ru' = ru\<lparr>ru_total := ru_total ru + steps_executed chunk, ru_result := chunk\<rparr> in
     bind bumpFrame (\<lambda>_.
     if chunk_stops chunk \<or> sleep_ms chunk \<noteq> None then ret (Finished ru', None)
     else bind (invoke (ru_emu ru) (em_is_blocked em)) (\<lambda>isBlocked.
       if isBlocked then ret (Finished ru', None)
       else if steps_executed chunk = 0 then
         ret (Finished (ru'\<lparr>ru_result := chunk\<lparr>rr_error := Some NO_PROGRESS_ERROR\<rparr>\<rparr>), None)
       else if at_time - ru_lastHeartbeat ru \<ge> HEARTBEAT_INTERVAL_MS then
         bind (snapshot em) (\<lambda>s. ret (Yielded (ru'\<lparr>ru_lastHeartbeat := at_time\<rparr>), Some s))
       else ret (Yielded ru', None))))"

definition enter_loop :: "'e Emulator \<Rightarrow> rat \<Rightarrow> RunState \<Rightarrow> ('e core, round \<times> StateSnapshot option) act" where
  "enter_loop em at_time ru = (if ru_total ru < ru_max ru then run_round em at_time ru else ret (Finished ru, None))"

definition start_run :: "'e Emulator \<Rightarrow> nat \<Rightarrow> RunGoal option \<Rightarrow> rat \<Rightarrow> rat \<Rightarrow> ('e core, round \<times> StateSnapshot option) act" where
  "start_run em maxSteps until start_time at_time =
     bind require_emulator (\<lambda>emu.
     bind (modify (\<lambda>c. c\<lparr>c_pauseRequested := False\<rparr>)) (\<lambda>_.
     bind (gets c_runEpoch) (\<lambda>epoch.
     enter_loop em at_time
       \<lparr>ru_emu = emu, ru_epoch = epoch, ru_max = maxSteps, ru_until = until, ru_total = 0,
        ru_lastHeartbeat = start_time, ru_result = empty_result\<rparr>)))"

definition after_yield :: "'e Emulator \<Rightarrow> rat \<Rightarrow> RunState \<Rightarrow> ('e core, round \<times> StateSnapshot option) act" where
  "after_yield em at_time ru =
     bind (gets (\<lambda>c. (c_runEpoch c, c_pauseRequested c))) (\<lambda>(epoch, pauseRequested).
     if ru_epoch ru \<noteq> epoch then ret (Finished (ru\<lparr>ru_result := (ru_result ru)\<lparr>cancelled := True\<rparr>\<rparr>), None)
     else if pauseRequested then ret (Finished ru, None)
     else enter_loop em at_time ru)"

definition finish_run :: "'e Emulator \<Rightarrow> RunState \<Rightarrow> ('e core, Value) act" where
  "finish_run em ru =
     bind (gets c_pauseRequested) (\<lambda>pauseRequested.
     let r = ru_result ru in
     bind (if ru_total ru \<ge> ru_max ru \<and> \<not> pauseRequested \<and> \<not> halted r \<and> \<not> hit_breakpoint r \<and> \<not> reached r \<and>
              \<not> bad_return r \<and> \<not> truthy (rr_error r) \<and> sleep_ms r = None
           then bind (invoke (ru_emu ru) (em_is_blocked em)) (\<lambda>b. ret (\<not> b)) else ret False) (\<lambda>limit.
     with_snapshot em (VRun (r\<lparr>steps_executed := ru_total ru, step_limit_reached := limit\<rparr>))))"

subsection \<open>Tasks\<close>

datatype task = AwaitWasm nat Request nat | AtYield nat RunState

fun task_id :: "task \<Rightarrow> nat" where
  "task_id (AwaitWasm n _ _) = n"
| "task_id (AtYield n _) = n"

record 'e worker =
  wk_core :: "'e core"
  wk_tasks :: "task list"
  wk_out :: "WorkerMessage list"

text \<open>The \<open>catch\<close> of the handler, and the reply of a handler that ran to its end.\<close>

definition caught :: "Thrown \<Rightarrow> 'e core \<Rightarrow> 'e core" where
  "caught e c = (if isDeadInstance e then c\<lparr>c_emulator := None, c_wasmReady := None\<rparr> else c)"

fun reply :: "nat \<Rightarrow> (Thrown + Value) \<times> 'e core \<Rightarrow> WorkerMessage \<times> 'e core" where
  "reply n (Inr v, c) = (OkResponse n v, c)"
| "reply n (Inl e, c) = (ErrorResponse n (th_message e), caught e c)"

text \<open>\<open>ensureWasm\<close>: the promise under way, or a new one.\<close>

definition ensureWasm :: "'e core \<Rightarrow> nat \<times> 'e core" where
  "ensureWasm c =
     (case c_wasmReady c of
        Some p \<Rightarrow> (p, c)
      | None \<Rightarrow> (length (c_promises c),
                 c\<lparr>c_promises := c_promises c @ [Pending], c_wasmReady := Some (length (c_promises c))\<rparr>))"

fun bumps_epoch :: "Request \<Rightarrow> bool" where
  "bumps_epoch (RAssemble _ _) = True"
| "bumps_epoch RStepBack = True"
| "bumps_epoch RReset = True"
| "bumps_epoch (RLoadState _) = True"
| "bumps_epoch _ = False"

text \<open>A message arrives: the handler up to its first \<open>await\<close>.\<close>

definition receive :: "'e Wasm \<Rightarrow> nat \<Rightarrow> Request \<Rightarrow> 'e worker \<Rightarrow> 'e worker" where
  "receive wasm n req w =
     (if req = RInit \<or> req = RGetSnapshot then
        (case reply n (with_snapshot (wa_emulator wasm) VSnapshot (wk_core w)) of
           (m, c) \<Rightarrow> w\<lparr>wk_core := c, wk_out := wk_out w @ [m]\<rparr>)
      else if req = RPause then
        w\<lparr>wk_core := (wk_core w)\<lparr>c_pauseRequested := True\<rparr>, wk_out := wk_out w @ [OkResponse n VNull]\<rparr>
      else
        let c = wk_core w;
            c1 = (if bumps_epoch req then c\<lparr>c_runEpoch := c_runEpoch c + 1\<rparr> else c);
            (p, c2) = ensureWasm c1 in
        w\<lparr>wk_core := c2, wk_tasks := wk_tasks w @ [AwaitWasm n req p]\<rparr>)"

text \<open>A run goes on until its next \<open>await\<close> or its end.\<close>

definition run_on ::
    "'e Emulator \<Rightarrow> nat \<Rightarrow> ('e core, round \<times> StateSnapshot option) act \<Rightarrow> 'e core \<Rightarrow>
       WorkerMessage list \<times> task option \<times> 'e core" where
  "run_on em n m c =
     (case m c of
        (Inl e, c1) \<Rightarrow> (case reply n (Inl e, c1) of (r, c2) \<Rightarrow> ([r], None, c2))
      | (Inr (Yielded ru, beat), c1) \<Rightarrow> (map Heartbeat (case_option [] (\<lambda>s. [s]) beat), Some (AtYield n ru), c1)
      | (Inr (Finished ru, beat), c1) \<Rightarrow>
          (case reply n (finish_run em ru c1) of
             (r, c2) \<Rightarrow> (map Heartbeat (case_option [] (\<lambda>s. [s]) beat) @ [r], None, c2)))"

text \<open>A task goes on; \<open>None\<close> while the module is not there yet.\<close>

definition resume :: "'e Wasm \<Rightarrow> rat \<Rightarrow> rat \<Rightarrow> task \<Rightarrow> 'e core \<Rightarrow> (WorkerMessage list \<times> task option \<times> 'e core) option" where
  "resume wasm start_time at_time t c =
     (let em = wa_emulator wasm in
      case t of
        AwaitWasm n req p \<Rightarrow>
          (case c_promises c ! p of
             Pending \<Rightarrow> None
           | RejectedWith e \<Rightarrow> (case reply n (Inl e, c) of (r, c1) \<Rightarrow> Some ([r], None, c1))
           | Fulfilled \<Rightarrow>
               (case req of
                  RRunUntilBreak maxSteps until \<Rightarrow> Some (run_on em n (start_run em maxSteps until start_time at_time) c)
                | _ \<Rightarrow> (case reply n (handle_ready wasm req c) of (r, c1) \<Rightarrow> Some ([r], None, c1))))
      | AtYield n ru \<Rightarrow> Some (run_on em n (after_yield em at_time ru) c))"

subsection \<open>The worker's own steps\<close>

definition settle_promise :: "nat \<Rightarrow> Thrown + 'e \<Rightarrow> 'e core \<Rightarrow> 'e core" where
  "settle_promise p outcome c =
     (case outcome of
        Inr e \<Rightarrow> c\<lparr>c_promises := (c_promises c)[p := Fulfilled], c_instances := c_instances c @ [e],
                   c_emulator := Some (length (c_instances c))\<rparr>
      | Inl e \<Rightarrow> c\<lparr>c_promises := (c_promises c)[p := RejectedWith e], c_wasmReady := None\<rparr>)"

inductive worker_step :: "'e Wasm \<Rightarrow> 'e worker \<Rightarrow> 'e worker \<Rightarrow> bool" for wasm :: "'e Wasm" where
  settles: "p < length (c_promises (wk_core w)) \<Longrightarrow> c_promises (wk_core w) ! p = Pending \<Longrightarrow>
    worker_step wasm w (w\<lparr>wk_core := settle_promise p outcome (wk_core w)\<rparr>)"
| resumes: "i < length (wk_tasks w) \<Longrightarrow>
    resume wasm start_time at_time (wk_tasks w ! i) (wk_core w) = Some (out, next, c) \<Longrightarrow>
    worker_step wasm w (w\<lparr>wk_core := c, wk_out := wk_out w @ out,
      wk_tasks := take i (wk_tasks w) @ case_option [] (\<lambda>t. [t]) next @ drop (Suc i) (wk_tasks w)\<rparr>)"

inductive_cases worker_stepE: "worker_step wasm w w'"

subsection \<open>What the handlers keep\<close>

text \<open>No method and no handler adds an instance or a promise or changes the variables that only
  the worker's own steps change; the frame counter only grows.\<close>

definition stable :: "'e core \<Rightarrow> 'e core \<Rightarrow> bool" where
  "stable c c' \<longleftrightarrow>
     length (c_instances c') = length (c_instances c) \<and> c_promises c' = c_promises c \<and> c_emulator c' = c_emulator c \<and>
     c_wasmReady c' = c_wasmReady c \<and> c_runEpoch c' = c_runEpoch c \<and> c_frame c \<le> c_frame c'"

definition keeps :: "('e core, 'a) act \<Rightarrow> bool" where
  "keeps m \<longleftrightarrow> (\<forall>c r c'. m c = (r, c') \<longrightarrow> stable c c')"

named_theorems keeps_intros \<open>acts that keep the worker's own variables\<close>

lemma stable_refl [simp]: "stable c c"
  by (simp add: stable_def)

lemma stable_trans: "stable a b \<Longrightarrow> stable b c \<Longrightarrow> stable a c"
  by (auto simp: stable_def)

lemma keepsD: "keeps m \<Longrightarrow> m c = (r, c') \<Longrightarrow> stable c c'"
  by (simp add: keeps_def)

lemma keeps_ret [keeps_intros]: "keeps (ret a)"
  by (simp add: keeps_def ret_def)

lemma keeps_bind [keeps_intros]:
  assumes "keeps m" "\<And>a. keeps (k a)"
  shows "keeps (bind m k)"
  using keepsD [OF assms(1)] keepsD [OF assms(2)] stable_trans
  by (fastforce simp: keeps_def bind_def split: prod.splits sum.splits)

lemma keeps_invoke [keeps_intros]: "keeps (invoke i f)"
  by (auto simp: keeps_def invoke_def stable_def split: prod.splits)

lemma keeps_invoke_opt [keeps_intros]: "keeps (invoke_opt i f d)"
  by (cases f) (auto simp: invoke_opt_def intro: keeps_intros)

lemma keeps_invoke_maybe [keeps_intros]: "keeps (invoke_maybe i f)"
  by (cases f) (auto simp: invoke_maybe_def intro!: keeps_intros)

lemma keeps_simple [keeps_intros]:
  "keeps require_emulator" "keeps bumpFrame" "keeps (gets f)" "keeps (modify (\<lambda>c. c\<lparr>c_pauseRequested := b\<rparr>))"
  by (auto simp: keeps_def require_emulator_def bumpFrame_def gets_def modify_def stable_def split: option.splits)

lemma keeps_readMemoryMap [keeps_intros]: "keeps (readMemoryMap wasm)"
  by (auto simp: keeps_def readMemoryMap_def stable_def split: option.splits sum.splits)

lemma keeps_readExternalCall [keeps_intros]: "keeps (readExternalCall em i)"
  by (cases "em_hostCallContext em") (auto simp: readExternalCall_def intro!: keeps_intros)

lemma keeps_live_snapshot [keeps_intros]: "keeps (live_snapshot em i)"
  unfolding live_snapshot_def by (intro keeps_intros)

lemma keeps_snapshot [keeps_intros]: "keeps (snapshot em)"
  using keeps_live_snapshot [of em] by (auto simp: keeps_def snapshot_def split: option.splits)

lemma keeps_with_snapshot [keeps_intros]: "keeps (with_snapshot em f)" "keeps (bumped em f)"
  unfolding bumped_def with_snapshot_def by (intro keeps_intros)+

lemma keeps_handle [keeps_intros]: "keeps (handle wasm req emu)"
  unfolding handle_def Let_def by (cases req) (simp_all add: keeps_intros)

lemma keeps_handle_ready [keeps_intros]: "keeps (handle_ready wasm req)"
  unfolding handle_ready_def by (cases "req = RMemoryMap"; simp; intro keeps_intros)

lemma keeps_worker_chunk [keeps_intros]: "keeps (worker_chunk em ru k)"
  unfolding worker_chunk_def by (intro keeps_intros)

lemma keeps_if [keeps_intros]: "(b \<Longrightarrow> keeps m) \<Longrightarrow> (\<not> b \<Longrightarrow> keeps m') \<Longrightarrow> keeps (if b then m else m')"
  by simp

lemma keeps_run_round [keeps_intros]: "keeps (run_round em t ru)"
  unfolding run_round_def Let_def by (intro keeps_intros)

lemma keeps_enter_loop [keeps_intros]: "keeps (enter_loop em t ru)"
  unfolding enter_loop_def by (intro keeps_intros)

lemma keeps_runs [keeps_intros]:
  "keeps (start_run em n until t0 t)" "keeps (after_yield em t ru)" "keeps (finish_run em ru)"
  unfolding start_run_def after_yield_def finish_run_def Let_def
  by (simp_all add: keeps_intros case_prod_beta)

subsection \<open>Frames of snapshots\<close>

definition ends :: "('e core, 'a) act \<Rightarrow> ('a \<Rightarrow> 'e core \<Rightarrow> bool) \<Rightarrow> bool" where
  "ends m Q \<longleftrightarrow> (\<forall>c a c'. m c = (Inr a, c') \<longrightarrow> Q a c')"

named_theorems ends_intros \<open>what holds of an act's answer\<close>

lemma endsD: "ends m Q \<Longrightarrow> m c = (Inr a, c') \<Longrightarrow> Q a c'"
  by (simp add: ends_def)

lemma ends_bind [ends_intros]: "(\<And>a. ends (k a) Q) \<Longrightarrow> ends (bind m k) Q"
  unfolding ends_def bind_def by (auto split: prod.splits sum.splits)

lemma ends_ret_plain: "(\<And>c. Q a c) \<Longrightarrow> ends (ret a) Q"
  by (simp add: ends_def ret_def)

lemma ends_gets_ret: "(\<And>c. Q (g (f c)) c) \<Longrightarrow> ends (bind (gets f) (\<lambda>a. ret (g a))) Q"
  by (auto simp: ends_def bind_def gets_def ret_def)

lemma ends_live_snapshot: "ends (live_snapshot em i) (\<lambda>s c. ss_frame s = c_frame c)"
  unfolding live_snapshot_def
  by (rule ends_gets_ret ends_bind)+ simp

lemma ends_snapshot: "ends (snapshot em) (\<lambda>s c. ss_frame s = c_frame c)"
  using ends_live_snapshot [of em] by (auto simp: ends_def snapshot_def emptyStateSnapshot_def split: option.splits)

text \<open>A value that carries a snapshot carries the current frame.\<close>

definition current :: "Value \<Rightarrow> 'e core \<Rightarrow> bool" where
  "current v c \<longleftrightarrow> (\<forall>s. value_snapshot v = Some s \<longrightarrow> ss_frame s = c_frame c)"

lemma ends_with_snapshot [ends_intros]:
  assumes "\<And>s. value_snapshot (f s) = Some s"
  shows "ends (with_snapshot em f) current" "ends (bumped em f) current"
proof -
  show w: "ends (with_snapshot em f) current"
    using endsD [OF ends_snapshot] assms
    by (fastforce simp: with_snapshot_def ends_def bind_def ret_def current_def split: prod.splits sum.splits)
  show "ends (bumped em f) current" unfolding bumped_def by (rule ends_bind) (rule w)
qed

lemma ends_plain [ends_intros]: "value_snapshot v = None \<Longrightarrow> ends (ret v) current"
  by (simp add: ends_def ret_def current_def)

lemma ends_handle_ready: "ends (handle_ready wasm req) current"
  unfolding handle_ready_def handle_def Let_def
  by (cases req) (auto intro!: ends_intros)

lemma ends_finish_run: "ends (finish_run em ru) current"
  unfolding finish_run_def Let_def by (intro ends_intros) simp

subsection \<open>One reply per request\<close>

fun reply_id :: "WorkerMessage \<Rightarrow> nat list" where
  "reply_id (OkResponse n _) = [n]"
| "reply_id (ErrorResponse n _) = [n]"
| "reply_id (Heartbeat _) = []"

definition reply_ids :: "WorkerMessage list \<Rightarrow> nat list" where
  "reply_ids ms = concat (map reply_id ms)"

fun message_snapshot :: "WorkerMessage \<Rightarrow> StateSnapshot option" where
  "message_snapshot (OkResponse _ v) = value_snapshot v"
| "message_snapshot (ErrorResponse _ _) = None"
| "message_snapshot (Heartbeat s) = Some s"

lemma reply_ids_simps [simp]:
  "reply_ids [] = []" "reply_ids (m # ms) = reply_id m @ reply_ids ms" "reply_ids (a @ b) = reply_ids a @ reply_ids b"
  "reply_ids (map Heartbeat ss) = []"
  by (simp_all add: reply_ids_def concat_eq_Nil_conv)

lemma reply_reply_id: "reply n r = (m, c) \<Longrightarrow> reply_id m = [n]"
  by (cases "(n, r)" rule: reply.cases) auto

abbreviation tasks_of :: "task option \<Rightarrow> task list" where
  "tasks_of t \<equiv> case_option [] (\<lambda>t. [t]) t"

lemma run_on_one_reply:
  "run_on em n m c = (out, nxt, c') \<Longrightarrow> reply_ids out @ map task_id (tasks_of nxt) = [n]"
  by (auto simp: run_on_def reply_reply_id split: prod.splits sum.splits round.splits)

lemma resume_one_reply:
  assumes "resume wasm t0 t tk c = Some (out, nxt, c')"
  shows "reply_ids out @ map task_id (tasks_of nxt) = [task_id tk]"
proof (cases tk)
  case (AwaitWasm n req p)
  show ?thesis
  proof (cases req)
    case (RRunUntilBreak k until)
    then show ?thesis using assms AwaitWasm
      by (auto simp: resume_def Let_def reply_reply_id run_on_one_reply split: promise.splits prod.splits)
  qed (use assms AwaitWasm in \<open>auto simp: resume_def Let_def reply_reply_id split: promise.splits prod.splits\<close>)
next
  case (AtYield n ru)
  then show ?thesis using assms by (auto simp: resume_def Let_def run_on_one_reply)
qed

subsection \<open>Rounds of a run\<close>

definition good_round :: "RunState \<Rightarrow> round \<times> StateSnapshot option \<Rightarrow> 'e core \<Rightarrow> bool" where
  "good_round ru p c \<longleftrightarrow>
     (case p of
        (Finished ru', beat) \<Rightarrow> beat = None
      | (Yielded ru', beat) \<Rightarrow>
          ru_emu ru' = ru_emu ru \<and> ru_epoch ru' = ru_epoch ru \<and> ru_max ru' = ru_max ru \<and>
          ru_total ru < ru_total ru' \<and> ru_total ru < ru_max ru \<and>
          (\<forall>s. beat = Some s \<longrightarrow> ss_frame s = c_frame c))"

lemma ends_beat:
  assumes "ru_emu ru' = ru_emu ru" "ru_epoch ru' = ru_epoch ru" "ru_max ru' = ru_max ru" "ru_total ru < ru_total ru'" "ru_total ru < ru_max ru"
  shows "ends (bind (snapshot em) (\<lambda>s. ret (Yielded ru', Some s))) (good_round ru)"
  using endsD [OF ends_snapshot] assms
  by (fastforce simp: ends_def bind_def ret_def good_round_def split: prod.splits sum.splits)

lemma ends_enter_loop: "ends (enter_loop em t ru) (good_round ru)"
proof (cases "ru_total ru < ru_max ru")
  case True
  have "ends (run_round em t ru) (good_round ru)"
    unfolding run_round_def Let_def
  proof (rule ends_bind, rule ends_bind, goal_cases)
    case (1 chunk u)
    let ?ru' = "ru\<lparr>ru_total := ru_total ru + steps_executed chunk, ru_result := chunk\<rparr>"
    have fin: "ends (ret (Finished r, None)) (good_round ru)" for r
      by (rule ends_ret_plain) (simp add: good_round_def)
    have beat: "ends (bind (snapshot em) (\<lambda>s. ret (Yielded (?ru'\<lparr>ru_lastHeartbeat := t\<rparr>), Some s))) (good_round ru)"
      if "steps_executed chunk \<noteq> 0"
      using that True by (intro ends_beat) auto
    have yield: "ends (ret (Yielded ?ru', None)) (good_round ru)" if "steps_executed chunk \<noteq> 0"
      using that True by (intro ends_ret_plain) (simp add: good_round_def)
    show ?case
      using fin beat yield by (auto intro!: ends_bind simp: fin)
  qed
  then show ?thesis using True by (simp add: enter_loop_def)
next
  case False
  then show ?thesis by (auto simp: enter_loop_def good_round_def intro!: ends_ret_plain)
qed

lemma ends_after_yield: "ends (after_yield em t ru) (good_round ru)"
  unfolding after_yield_def
  by (rule ends_bind) (auto simp: good_round_def intro!: ends_ret_plain ends_enter_loop)

lemma start_run_round:
  assumes "c_emulator c = Some i"
  obtains ru where "ru_max ru = k" "ru_total ru = 0" "ru_emu ru = i" "ru_epoch ru = c_runEpoch c"
    "\<And>p c'. start_run em k until t0 t c = (Inr p, c') \<Longrightarrow> good_round ru p c'"
proof
  let ?ru = "\<lparr>ru_emu = i, ru_epoch = c_runEpoch c, ru_max = k, ru_until = until, ru_total = 0, ru_lastHeartbeat = t0,
     ru_result = empty_result\<rparr>"
  show "ru_max ?ru = k" "ru_total ?ru = 0" "ru_emu ?ru = i" "ru_epoch ?ru = c_runEpoch c" by simp_all
  have "start_run em k until t0 t c = enter_loop em t ?ru (c\<lparr>c_pauseRequested := False\<rparr>)"
    using assms by (simp add: start_run_def bind_def require_emulator_def modify_def gets_def)
  then show "good_round ?ru p c'" if "start_run em k until t0 t c = (Inr p, c')" for p c'
    using endsD [OF ends_enter_loop] that by metis
qed

subsection \<open>What a task does to the worker\<close>

definition advances :: "'e core \<Rightarrow> 'e core \<Rightarrow> bool" where
  "advances c c' \<longleftrightarrow>
     length (c_instances c') = length (c_instances c) \<and> c_promises c' = c_promises c \<and> c_runEpoch c' = c_runEpoch c \<and>
     c_frame c \<le> c_frame c' \<and>
     ((c_emulator c' = c_emulator c \<and> c_wasmReady c' = c_wasmReady c) \<or> (c_emulator c' = None \<and> c_wasmReady c' = None))"

lemma advances_refl [simp]: "advances c c"
  by (simp add: advances_def)

lemma stable_advances: "stable a b \<Longrightarrow> advances b c \<Longrightarrow> advances a c"
  by (auto simp: stable_def advances_def)

lemma stable_imp_advances: "stable a b \<Longrightarrow> advances a b"
  by (auto simp: stable_def advances_def)

lemma reply_advances: "reply n (r, c) = (m, c') \<Longrightarrow> advances c c' \<and> c_frame c' = c_frame c"
  by (cases r) (auto simp: advances_def caught_def split: if_splits)

definition frames_of :: "WorkerMessage list \<Rightarrow> nat list" where
  "frames_of ms = map ss_frame (List.map_filter message_snapshot ms)"

lemma frames_of_simps [simp]:
  "frames_of [] = []" "frames_of (a @ b) = frames_of a @ frames_of b"
  "frames_of [m] = (case message_snapshot m of None \<Rightarrow> [] | Some s \<Rightarrow> [ss_frame s])"
  by (simp_all add: frames_of_def List.map_filter_def split: option.split)

definition frames_within :: "nat \<Rightarrow> WorkerMessage list \<Rightarrow> nat \<Rightarrow> bool" where
  "frames_within a ms b \<longleftrightarrow> sorted (frames_of ms) \<and> (\<forall>f \<in> set (frames_of ms). a \<le> f \<and> f \<le> b)"

lemma handler_reply:
  assumes "keeps m" "ends m current" "reply n (m c) = (msg, c')"
  shows "advances c c' \<and> frames_within (c_frame c) [msg] (c_frame c')"
proof -
  obtain r c1 where m: "m c = (r, c1)" by fastforce
  have s: "stable c c1" using keepsD [OF assms(1) m] .
  have a: "advances c1 c'" "c_frame c' = c_frame c1" using reply_advances [of n r c1 msg c'] assms(3) m by simp_all
  have "frames_within (c_frame c) [msg] (c_frame c')"
  proof (cases r)
    case (Inr v)
    then have cur: "current v c1" using endsD [OF assms(2)] m by simp
    have msg: "msg = OkResponse n v" "c' = c1" using assms(3) m Inr by auto
    have "c_frame c \<le> c_frame c1" using s by (simp add: stable_def)
    then show ?thesis using cur by (cases "value_snapshot v") (simp_all add: msg frames_within_def current_def)
  qed (use assms(3) m in \<open>auto simp: frames_within_def\<close>)
  then show ?thesis using stable_advances [OF s a(1)] by simp
qed

text \<open>The cost of a task: more than the tasks and messages any further step can make of it.\<close>

fun request_cost :: "Request \<Rightarrow> nat" where
  "request_cost (RRunUntilBreak k _) = 2 * k + 4"
| "request_cost _ = 2"

fun task_cost :: "task \<Rightarrow> nat" where
  "task_cost (AwaitWasm _ req _) = request_cost req"
| "task_cost (AtYield _ ru) = 2 * (ru_max ru - ru_total ru) + 2"

definition tasks_cost :: "task list \<Rightarrow> nat" where
  "tasks_cost ts = sum_list (map task_cost ts)"

lemma tasks_cost_simps [simp]:
  "tasks_cost [] = 0" "tasks_cost (t # ts) = task_cost t + tasks_cost ts" "tasks_cost (a @ b) = tasks_cost a + tasks_cost b"
  by (simp_all add: tasks_cost_def)

lemma request_cost_pos: "2 \<le> request_cost req"
  by (cases req) auto

text \<open>The run of one round, put together: from a loop act whose answers are good rounds.\<close>

definition run_step_ok :: "'e core \<Rightarrow> RunState \<Rightarrow> nat \<Rightarrow> WorkerMessage list \<times> task option \<times> 'e core \<Rightarrow> bool" where
  "run_step_ok c ru n p \<longleftrightarrow>
     (case p of (out, nxt, c') \<Rightarrow>
        advances c c' \<and> frames_within (c_frame c) out (c_frame c') \<and>
        (case nxt of None \<Rightarrow> length out = 1
         | Some tk \<Rightarrow> \<exists>ru'. tk = AtYield n ru' \<and> ru_emu ru' = ru_emu ru \<and> ru_epoch ru' = ru_epoch ru \<and> ru_max ru' = ru_max ru \<and>
             ru_total ru < ru_total ru' \<and> ru_total ru < ru_max ru \<and> length out \<le> 1))"

lemma frames_within_None [simp]: "frames_within a [] b"
  by (simp add: frames_within_def)

lemma run_on_ok:
  assumes k: "keeps m" and g: "\<And>p c1. m c = (Inr p, c1) \<Longrightarrow> good_round ru p c1"
  shows "run_step_ok c ru n (run_on em n m c)"
proof -
  obtain r c1 where m: "m c = (r, c1)" by fastforce
  have s: "stable c c1" using keepsD [OF k m] .
  show ?thesis
  proof (cases r)
    case (Inl e)
    obtain msg c2 where r: "reply n (Inl e, c1) = (msg, c2)" by fastforce
    then have "frames_within (c_frame c) [msg] (c_frame c2)" by (auto simp: frames_within_def)
    moreover have "run_on em n m c = ([msg], None, c2)" unfolding run_on_def m Inl using r by simp
    ultimately show ?thesis using stable_advances [OF s] reply_advances [OF r] by (simp add: run_step_ok_def)
  next
    case (Inr p)
    obtain rd beat where p: "p = (rd, beat)" by fastforce
    have g': "good_round ru (rd, beat) c1" using g m Inr p by simp
    show ?thesis
    proof (cases rd)
      case (Finished ru')
      obtain msg c2 where r: "reply n (finish_run em ru' c1) = (msg, c2)" by fastforce
      have h: "advances c1 c2 \<and> frames_within (c_frame c1) [msg] (c_frame c2)"
        using handler_reply [OF keeps_runs(3) ends_finish_run r] .
      have b: "beat = None" using g' Finished by (simp add: good_round_def)
      have "frames_within (c_frame c) [msg] (c_frame c2)"
        using h s by (auto simp: frames_within_def stable_def)
      moreover have "run_on em n m c = ([msg], None, c2)" unfolding run_on_def m Inr p Finished using r b by simp
      ultimately show ?thesis using stable_advances [OF s] h by (simp add: run_step_ok_def)
    next
      case (Yielded ru')
      have "run_on em n m c = (map Heartbeat (case_option [] (\<lambda>s. [s]) beat), Some (AtYield n ru'), c1)"
        unfolding run_on_def m Inr p Yielded by simp
      moreover have "frames_within (c_frame c) (map Heartbeat (case_option [] (\<lambda>s. [s]) beat)) (c_frame c1)"
        using g' Yielded s by (cases beat) (auto simp: frames_within_def good_round_def stable_def)
      moreover have "length (map Heartbeat (case_option [] (\<lambda>s. [s]) beat)) \<le> 1" by (cases beat) auto
      ultimately show ?thesis using g' Yielded stable_imp_advances [OF s]
        by (simp add: run_step_ok_def good_round_def)
    qed
  qed
qed

text \<open>The indices the worker holds are those of promises and instances it made.\<close>

definition core_ok :: "'e core \<Rightarrow> bool" where
  "core_ok c \<longleftrightarrow>
     (\<forall>i. c_emulator c = Some i \<longrightarrow> i < length (c_instances c)) \<and>
     (\<forall>p. c_wasmReady c = Some p \<longrightarrow> p < length (c_promises c))"

fun task_ok :: "'e core \<Rightarrow> task \<Rightarrow> bool" where
  "task_ok c (AwaitWasm _ _ p) \<longleftrightarrow> p < length (c_promises c)"
| "task_ok c (AtYield _ ru) \<longleftrightarrow> ru_emu ru < length (c_instances c) \<and> ru_epoch ru \<le> c_runEpoch c"

definition resume_ok :: "'e core \<Rightarrow> task \<Rightarrow> WorkerMessage list \<times> task option \<times> 'e core \<Rightarrow> bool" where
  "resume_ok c tk p \<longleftrightarrow>
     (case p of (out, nxt, c') \<Rightarrow>
        advances c c' \<and> frames_within (c_frame c) out (c_frame c') \<and>
        length out + tasks_cost (tasks_of nxt) < task_cost tk \<and> (\<forall>t \<in> set (tasks_of nxt). task_ok c' t))"

lemma resume_ok_of_run:
  assumes "run_step_ok c ru n p" "2 * (ru_max ru - ru_total ru) + 2 \<le> task_cost tk" "ru_emu ru < length (c_instances c)" "ru_epoch ru \<le> c_runEpoch c"
  shows "resume_ok c tk p"
proof -
  obtain out nxt c' where p: "p = (out, nxt, c')" using prod_cases3 by blast
  show ?thesis
  proof (cases nxt)
    case None
    then show ?thesis using assms(1,2) p by (simp add: run_step_ok_def resume_ok_def)
  next
    case (Some t)
    then obtain ru' where t: "t = AtYield n ru'" "ru_emu ru' = ru_emu ru \<and> ru_epoch ru' = ru_epoch ru" "ru_max ru' = ru_max ru"
        "ru_total ru < ru_total ru'" "ru_total ru < ru_max ru" "length out \<le> 1"
        and a: "advances c c'" "frames_within (c_frame c) out (c_frame c')"
      using assms(1) p by (auto simp: run_step_ok_def)
    have "length out + task_cost t < task_cost tk" using t assms(2) by simp
    moreover have "task_ok c' t" using t(1,2) assms(3,4) a(1) by (simp add: advances_def)
    ultimately show ?thesis using a p Some by (simp add: resume_ok_def)
  qed
qed

lemma resume_ok_of_reply:
  assumes "advances c c'" "frames_within (c_frame c) [m] (c_frame c')"
  shows "resume_ok c (AwaitWasm n req p) ([m], None, c')"
  using assms request_cost_pos [of req] by (simp add: resume_ok_def)

lemma start_run_on_ok:
  assumes "core_ok c"
  shows "resume_ok c (AwaitWasm n (RRunUntilBreak k until) p) (run_on em n (start_run em k until t0 t) c)"
proof (cases "c_emulator c")
  case None
  let ?e = "\<lparr>th_runtimeError = False, th_message = ''emulator not initialized; send `init` first''\<rparr>"
  have "start_run em k until t0 t c = (Inl ?e, c)"
    using None by (simp add: start_run_def bind_def require_emulator_def)
  then have "run_on em n (start_run em k until t0 t) c = ([ErrorResponse n (th_message ?e)], None, caught ?e c)"
    by (simp add: run_on_def)
  moreover have "advances c (caught ?e c)" by (simp add: caught_def advances_def)
  ultimately show ?thesis using resume_ok_of_reply [of c "caught ?e c" "ErrorResponse n (th_message ?e)"]
    by (simp add: frames_within_def)
next
  case (Some i)
  then obtain ru where ru: "ru_max ru = k" "ru_total ru = 0" "ru_emu ru = i" "ru_epoch ru = c_runEpoch c"
    "\<And>p c'. start_run em k until t0 t c = (Inr p, c') \<Longrightarrow> good_round ru p c'"
    using start_run_round by metis
  have "run_step_ok c ru n (run_on em n (start_run em k until t0 t) c)"
    using run_on_ok [OF keeps_runs(1)] ru(5) by blast
  then show ?thesis using ru assms Some by (intro resume_ok_of_run) (auto simp: core_ok_def)
qed

lemma resume_resume_ok:
  assumes "resume wasm t0 t tk c = Some p" "core_ok c" "task_ok c tk"
  shows "resume_ok c tk p"
proof (cases tk)
  case (AtYield n ru)
  have "run_step_ok c ru n (run_on (wa_emulator wasm) n (after_yield (wa_emulator wasm) t ru) c)"
    by (rule run_on_ok [OF keeps_runs(2)]) (rule endsD [OF ends_after_yield])
  moreover have "p = run_on (wa_emulator wasm) n (after_yield (wa_emulator wasm) t ru) c"
    using assms(1) AtYield by (simp add: resume_def Let_def)
  ultimately show ?thesis using resume_ok_of_run [of c ru n p tk] assms(3) AtYield by simp
next
  case (AwaitWasm n req q)
  consider (rejected) e where "c_promises c ! q = RejectedWith e"
    | (run) k until where "c_promises c ! q = Fulfilled" "req = RRunUntilBreak k until"
    | (other) "c_promises c ! q = Fulfilled" "\<And>k until. req \<noteq> RRunUntilBreak k until"
    using assms(1) AwaitWasm by (cases "c_promises c ! q"; auto simp: resume_def)
  then show ?thesis
  proof cases
    case rejected
    then have "p = ([ErrorResponse n (th_message e)], None, caught e c)" using assms(1) AwaitWasm by (simp add: resume_def)
    moreover have "advances c (caught e c)" by (simp add: caught_def advances_def)
    ultimately show ?thesis using resume_ok_of_reply [of c "caught e c"] AwaitWasm by (simp add: frames_within_def caught_def)
  next
    case run
    then show ?thesis using assms(1,2) AwaitWasm start_run_on_ok by (auto simp: resume_def Let_def)
  next
    case other
    obtain m c' where r: "reply n (handle_ready wasm req c) = (m, c')" by fastforce
    have "p = ([m], None, c')" using assms(1) AwaitWasm other(1) other(2) r by (cases req) (auto simp: resume_def)
    then show ?thesis using handler_reply [OF keeps_handle_ready ends_handle_ready r] resume_ok_of_reply AwaitWasm by blast
  qed
qed

subsection \<open>The worker as a whole\<close>

definition worker_ok :: "nat \<Rightarrow> 'e worker \<Rightarrow> bool" where
  "worker_ok a w \<longleftrightarrow>
     core_ok (wk_core w) \<and> (\<forall>t \<in> set (wk_tasks w). task_ok (wk_core w) t) \<and>
     a \<le> c_frame (wk_core w) \<and> frames_within a (wk_out w) (c_frame (wk_core w))"

text \<open>The ids that have a reply in the queue or a task that owes one.\<close>

definition owed :: "'e worker \<Rightarrow> nat multiset" where
  "owed w = mset (reply_ids (wk_out w)) + mset (map task_id (wk_tasks w))"

definition pending_promises :: "'e core \<Rightarrow> nat" where
  "pending_promises c = length (filter (\<lambda>p. p = Pending) (c_promises c))"

definition worker_cost :: "'e worker \<Rightarrow> nat" where
  "worker_cost w = tasks_cost (wk_tasks w) + pending_promises (wk_core w) + length (wk_out w)"

lemma core_ok_advances: "core_ok c \<Longrightarrow> advances c c' \<Longrightarrow> core_ok c'"
  by (auto simp: core_ok_def advances_def)

lemma task_ok_advances: "task_ok c t \<Longrightarrow> advances c c' \<Longrightarrow> task_ok c' t"
  by (cases t) (auto simp: advances_def)

lemma frames_within_append:
  "frames_within a ms b \<Longrightarrow> frames_within b ms' b' \<Longrightarrow> b \<le> b' \<Longrightarrow> a \<le> b \<Longrightarrow> frames_within a (ms @ ms') b'"
  by (fastforce simp: frames_within_def sorted_append)

lemma mset_replace_nth:
  "i < length xs \<Longrightarrow> mset (take i xs @ ys @ drop (Suc i) xs) + {#xs ! i#} = mset xs + mset ys"
  using arg_cong [OF id_take_nth_drop, of i xs mset] by simp

lemma settle_promise_cost:
  assumes "p < length (c_promises c)" "c_promises c ! p = Pending"
  shows "pending_promises (settle_promise p r c) < pending_promises c"
proof -
  have "length (filter (\<lambda>x. x = Pending) (xs[p := v])) < length (filter (\<lambda>x. x = Pending) xs)"
    if "p < length xs" "xs ! p = Pending" "v \<noteq> Pending" for xs v
    using that by (induction xs arbitrary: p) (auto simp: nth_Cons split: nat.splits)
  then show ?thesis using assms by (simp add: pending_promises_def settle_promise_def split: sum.split)
qed

lemma settle_promise_ok:
  assumes "core_ok c"
  shows "core_ok (settle_promise p r c)" "task_ok c t \<Longrightarrow> task_ok (settle_promise p r c) t"
    "c_frame (settle_promise p r c) = c_frame c"
  using assms by (cases t; auto simp: core_ok_def settle_promise_def split: sum.splits)+

text \<open>A step of the worker answers no request twice, forgets none, and costs.\<close>

lemma worker_step_owed: "worker_step wasm w w' \<Longrightarrow> owed w' = owed w"
proof (induction rule: worker_step.induct)
  case (resumes i w t0 t out nxt c)
  have "mset (map task_id (wk_tasks w)) + mset (map task_id (tasks_of nxt)) =
    mset (take i (map task_id (wk_tasks w)) @ map task_id (tasks_of nxt) @ drop (Suc i) (map task_id (wk_tasks w))) +
    {#task_id (wk_tasks w ! i)#}"
    using mset_replace_nth [of i "map task_id (wk_tasks w)" "map task_id (tasks_of nxt)"] resumes.hyps(1) by simp
  moreover have "mset (reply_ids out) + mset (map task_id (tasks_of nxt)) = {#task_id (wk_tasks w ! i)#}"
    using arg_cong [OF resume_one_reply [OF resumes.hyps(2)], of mset] by simp
  ultimately show ?case by (simp add: owed_def take_map drop_map)
qed (simp add: owed_def)

lemma worker_step_ok:
  assumes "worker_step wasm w w'" "worker_ok a w"
  shows "worker_ok a w' \<and> worker_cost w' < worker_cost w \<and> c_frame (wk_core w) \<le> c_frame (wk_core w')"
  using assms
proof (induction rule: worker_step.induct)
  case (settles p w outcome)
  then show ?case
    using settle_promise_cost [OF settles.hyps, of outcome] settle_promise_ok [where c = "wk_core w" and p = p and r = outcome]
    by (simp add: worker_ok_def worker_cost_def)
next
  case (resumes i w t0 t out nxt c)
  let ?tk = "wk_tasks w ! i"
  have ok: "core_ok (wk_core w)" "task_ok (wk_core w) ?tk" using resumes by (auto simp: worker_ok_def)
  then have r: "advances (wk_core w) c" "frames_within (c_frame (wk_core w)) out (c_frame c)"
      "length out + tasks_cost (tasks_of nxt) < task_cost ?tk" "\<forall>t \<in> set (tasks_of nxt). task_ok c t"
    using resume_resume_ok [OF resumes.hyps(2)] by (simp_all add: resume_ok_def)
  have "tasks_cost (wk_tasks w) = tasks_cost (take i (wk_tasks w)) + task_cost ?tk + tasks_cost (drop (Suc i) (wk_tasks w))"
    using arg_cong [OF id_take_nth_drop [OF resumes.hyps(1)], of tasks_cost] by simp
  moreover have "\<forall>t \<in> set (wk_tasks w). task_ok c t"
    using resumes.prems task_ok_advances [OF _ r(1)] by (simp add: worker_ok_def)
  ultimately show ?case
    using r resumes.prems core_ok_advances [OF ok(1) r(1)]
    by (auto simp: worker_ok_def worker_cost_def pending_promises_def advances_def frames_within_append
        dest: in_set_takeD in_set_dropD)
qed

lemma ensureWasm_ok:
  assumes "ensureWasm c = (p, c')"
  shows "core_ok c \<Longrightarrow> core_ok c' \<and> p < length (c_promises c')" "c_frame c' = c_frame c"
    "pending_promises c' \<le> Suc (pending_promises c)" "c_emulator c' = c_emulator c" "task_ok c t \<Longrightarrow> task_ok c' t"
  using assms
  by (cases t; auto simp: ensureWasm_def core_ok_def pending_promises_def split: option.splits)+

lemma receive_ok:
  assumes "worker_ok a w"
  shows "worker_ok a (receive wasm n req w)"
    "worker_cost (receive wasm n req w) < worker_cost w + request_cost req + 2"
    "owed (receive wasm n req w) = owed w + {#n#}"
    "c_frame (wk_core w) \<le> c_frame (wk_core (receive wasm n req w))"
proof -
  let ?w = "receive wasm n req w" and ?c = "wk_core w"
  have c: "core_ok ?c" "\<forall>t \<in> set (wk_tasks w). task_ok ?c t" "a \<le> c_frame ?c" "frames_within a (wk_out w) (c_frame ?c)"
    using assms by (auto simp: worker_ok_def)
  have "worker_ok a ?w \<and> worker_cost ?w < worker_cost w + request_cost req + 2 \<and> owed ?w = owed w + {#n#} \<and>
    c_frame ?c \<le> c_frame (wk_core ?w)"
  proof (cases "req = RInit \<or> req = RGetSnapshot")
    case True
    obtain m c' where r: "reply n (with_snapshot (wa_emulator wasm) VSnapshot ?c) = (m, c')" by fastforce
    have h: "advances ?c c'" "frames_within (c_frame ?c) [m] (c_frame c')"
      using handler_reply [OF keeps_with_snapshot(1) ends_with_snapshot(1) r] by simp_all
    have "?w = w\<lparr>wk_core := c', wk_out := wk_out w @ [m]\<rparr>" using True r by (simp add: receive_def)
    then show ?thesis
      using h c core_ok_advances [OF c(1) h(1)] task_ok_advances [OF _ h(1)] reply_reply_id [OF r] request_cost_pos [of req]
      by (simp add: worker_ok_def worker_cost_def owed_def pending_promises_def advances_def frames_within_append)
  next
    case False
    show ?thesis
    proof (cases "req = RPause")
      case True
      have "core_ok (?c\<lparr>c_pauseRequested := True\<rparr>)" using c(1) by (simp add: core_ok_def)
      moreover have "task_ok (?c\<lparr>c_pauseRequested := True\<rparr>) t = task_ok ?c t" for t by (cases t) auto
      moreover have "frames_within a (wk_out w @ [OkResponse n VNull]) (c_frame ?c)"
        using c(3,4) by (simp add: frames_within_def)
      ultimately show ?thesis using True c(2,3)
        by (simp add: receive_def worker_ok_def worker_cost_def owed_def pending_promises_def)
    next
      case nothere: False
      let ?c1 = "if bumps_epoch req then ?c\<lparr>c_runEpoch := c_runEpoch ?c + 1\<rparr> else ?c"
      obtain p c2 where e: "ensureWasm ?c1 = (p, c2)" by fastforce
      have w: "?w = w\<lparr>wk_core := c2, wk_tasks := wk_tasks w @ [AwaitWasm n req p]\<rparr>"
        using False nothere e by (simp add: receive_def Let_def)
      have c1: "core_ok ?c1" "task_ok ?c t \<Longrightarrow> task_ok ?c1 t" "pending_promises ?c1 = pending_promises ?c"
        "c_frame ?c1 = c_frame ?c" for t
        using c(1) by (cases t; simp add: core_ok_def pending_promises_def)+
      show ?thesis unfolding w
        using ensureWasm_ok [OF e] c c1 by (simp add: worker_ok_def worker_cost_def owed_def)
    qed
  qed
  then show "worker_ok a ?w" "worker_cost ?w < worker_cost w + request_cost req + 2" "owed ?w = owed w + {#n#}"
    "c_frame ?c \<le> c_frame (wk_core ?w)" by simp_all
qed

text \<open>A worker with a task left can step: the module's promise can settle, and any other task can go on.\<close>

lemma worker_not_stuck:
  assumes "worker_ok a w" "wk_tasks w \<noteq> []"
  shows "\<exists>w'. worker_step wasm w w'"
proof -
  let ?tk = "wk_tasks w ! 0"
  have ok: "task_ok (wk_core w) ?tk" using assms by (auto simp: worker_ok_def)
  show ?thesis
  proof (cases "resume wasm 0 0 ?tk (wk_core w)")
    case None
    then obtain n req p where p: "?tk = AwaitWasm n req p" "c_promises (wk_core w) ! p = Pending"
      by (cases ?tk) (auto simp: resume_def Let_def split: promise.splits Request.splits prod.splits)
    then show ?thesis using ok worker_step.settles by fastforce
  next
    case (Some q)
    then show ?thesis using assms(2) worker_step.resumes [of 0 w wasm 0 0] by (cases q) fastforce
  qed
qed

text \<open>A machine that counts its steps, for concrete runs.\<close>

definition counter_emulator :: "nat Emulator" where
  "counter_emulator =
     \<lparr>em_assemble_and_load = \<lambda>_. ret \<lparr>ap_success = True, ap_error = None, ap_error_line = None, ap_instruction_count = 0\<rparr>,
      em_assemble_and_load_with_args = \<lambda>_ _. ret \<lparr>ap_success = True, ap_error = None, ap_error_line = None, ap_instruction_count = 0\<rparr>,
      em_step = \<lambda>n. (Inr \<lparr>rs_pc = int n, rs_halted = False, rs_error = None, rs_error_line = None, rs_outcome = None, rs_exit_code = None\<rparr>, n + 1),
      em_step_back = \<lambda>n. (Inr \<lparr>rs_pc = int n, rs_halted = False, rs_error = None, rs_error_line = None, rs_outcome = None, rs_exit_code = None\<rparr>, n - 1),
      em_run_until_break = \<lambda>k n. (Inr \<lparr>rn_pc = int n, rn_halted = False, rn_steps_executed = k, rn_hit_breakpoint = False, rn_error = None,
      rn_error_line = None, rn_sleep_ms = None, rn_reached = False, rn_bad_return = False\<rparr>, n + k),
      em_run_to = \<lambda>k d p n. (Inr \<lparr>rn_pc = int n, rn_halted = False, rn_steps_executed = k, rn_hit_breakpoint = False, rn_error = None,
      rn_error_line = None, rn_sleep_ms = None, rn_reached = True, rn_bad_return = False\<rparr>, n + k),
      em_is_blocked = ret False, em_is_halted = ret False, em_reset = ret (), em_push_stdin = \<lambda>_. ret (),
      em_push_stdin_interactive = None, em_lint_source = None, em_is_range_mapped = None,
      em_clear_all_breakpoints = None, em_close_stdin = None, em_set_snapshots_paused = None,
      em_take_stdout = ret [], em_take_stderr = ret [], em_get_memory_range = \<lambda>_ _. ret [],
      em_set_breakpoint = \<lambda>_. ret (), em_clear_breakpoint = \<lambda>_. ret (),
      em_save_state = \<lambda>_. ret (), em_load_state = \<lambda>_. ret False,
      em_delete_state = \<lambda>_. ret False, em_list_states = ret [], em_upload_vfs_file = \<lambda>_ _. ret (),
      em_list_vfs_files = ret [], em_read_vfs_file = \<lambda>_. ret [], em_delete_vfs_file = \<lambda>_. ret False,
      em_m4_expand = None, em_resolve_label = \<lambda>_. ret None, em_clear_console = ret (), em_code_base = ret 0,
      em_get_line_map = ret [], em_frames = None, em_frame_layout = None, em_frame_names = None, em_last_call = None,
      em_get_all_registers = ret \<lparr>ar_gpr = [], ar_sp = [], ar_pc = [], ar_nzcv = 0\<rparr>,
      em_get_changed_registers = ret [], em_get_fp_registers = None, em_get_changed_fp_registers = None,
      em_get_vector_registers = None, em_wants_terminal = None, em_hostCallContext = None, em_stdout_seen = None,
      em_stderr_seen = None, em_take_clobber_notes = None, em_get_exit_code = ret None, em_can_step_back = ret False,
      em_take_dirty_addrs = ret []\<rparr>"

definition counter_wasm :: "nat Wasm" where
  "counter_wasm = \<lparr>wa_emulator = counter_emulator, wa_memoryMap = None\<rparr>"

subsection \<open>Overtaken runs and trapped machines\<close>

definition swap_runs :: "'e Wasm \<Rightarrow> (nat \<Rightarrow> ('e, RawRun) act) \<Rightarrow> (nat \<Rightarrow> int \<Rightarrow> int \<Rightarrow> ('e, RawRun) act) \<Rightarrow> 'e Wasm" where
  "swap_runs wasm f g = wasm\<lparr>wa_emulator := (wa_emulator wasm)\<lparr>em_run_until_break := f, em_run_to := g\<rparr>\<rparr>"

lemma snapshot_swap: "snapshot (wa_emulator (swap_runs wasm f g)) = snapshot (wa_emulator wasm)"
  by (simp add: fun_eq_iff snapshot_def live_snapshot_def readExternalCall_def swap_runs_def split: option.split)

lemma finish_run_swap: "finish_run (wa_emulator (swap_runs wasm f g)) ru = finish_run (wa_emulator wasm) ru"
proof -
  have "em_is_blocked (wa_emulator (swap_runs wasm f g)) = em_is_blocked (wa_emulator wasm)" by (simp add: swap_runs_def)
  then show ?thesis unfolding finish_run_def with_snapshot_def snapshot_swap by (rule ssubst) (rule refl)
qed

lemma stale_run_finishes:
  assumes "ru_epoch ru \<noteq> c_runEpoch c"
  shows "resume wasm t0 t (AtYield n ru) c =
    (case reply n (finish_run (wa_emulator wasm) (ru\<lparr>ru_result := (ru_result ru)\<lparr>cancelled := True\<rparr>\<rparr>) c) of
       (r, c') \<Rightarrow> Some ([r], None, c'))"
  using assms by (simp add: resume_def run_on_def after_yield_def bind_def gets_def ret_def split: prod.split)

lemma finish_run_value:
  "finish_run em ru c = (Inr v, c') \<Longrightarrow> \<exists>r s. v = VRun r s \<and> cancelled r = cancelled (ru_result ru)"
  by (auto simp: finish_run_def with_snapshot_def bind_def ret_def gets_def Let_def split: prod.splits sum.splits if_splits)

lemma receive_epoch:
  "c_runEpoch (wk_core (receive wasm n req w)) = c_runEpoch (wk_core w) + (if bumps_epoch req then 1 else 0)"
proof -
  obtain m c' where r: "reply n (with_snapshot (wa_emulator wasm) VSnapshot (wk_core w)) = (m, c')" by fastforce
  have "c_runEpoch c' = c_runEpoch (wk_core w)"
    using handler_reply [OF keeps_with_snapshot(1) ends_with_snapshot(1) r] by (simp add: advances_def)
  then show ?thesis using r by (auto simp: receive_def Let_def ensureWasm_def split: option.split)
qed

lemma worker_step_epoch: 
  assumes "worker_step wasm w w'" "worker_ok a w"
  shows "c_runEpoch (wk_core w') = c_runEpoch (wk_core w)"
  using assms
proof (induction rule: worker_step.induct)
  case (settles p w outcome)
  then show ?case by (simp add: settle_promise_def split: sum.split)
next
  case (resumes i w t0 t out nxt c)
  then show ?case using resume_resume_ok [OF resumes.hyps(2)] by (auto simp: worker_ok_def resume_ok_def advances_def)
qed

text \<open>When a handler's call traps and leaves the instance dead, the request is answered with the
  error, and the next request that needs the module waits for a new load: once that is there, the
  variable \<open>emulator\<close> holds the new instance and not the dead one.\<close>

theorem trap_then_fresh_machine:
  assumes "c_promises c ! p = Fulfilled" "\<And>k until. req \<noteq> RRunUntilBreak k until"
    and "handle_ready wasm req c = (Inl e, c1)" "isDeadInstance e"
    and "req' \<notin> {RInit, RGetSnapshot, RPause}"
    and "c2 = c1\<lparr>c_emulator := None, c_wasmReady := None\<rparr>"
    and "w2 = receive wasm m req' \<lparr>wk_core = c2, wk_tasks = ts, wk_out = out\<rparr>"
    and "c3 = settle_promise (length (c_promises c)) (Inr fresh) (wk_core w2)"
  shows "resume wasm t0 t (AwaitWasm n req p) c = Some ([ErrorResponse n (th_message e)], None, c2) \<and>
    wk_tasks w2 = ts @ [AwaitWasm m req' (length (c_promises c))] \<and>
    c_promises (wk_core w2) ! length (c_promises c) = Pending \<and> c_promises c3 ! length (c_promises c) = Fulfilled \<and>
    c_emulator c3 = Some (length (c_instances c)) \<and> c_instances c3 ! length (c_instances c) = fresh"
proof -
  have s: "length (c_instances c1) = length (c_instances c)" "c_promises c1 = c_promises c"
    using keepsD [OF keeps_handle_ready assms(3)] by (simp_all add: stable_def)
  have "resume wasm t0 t (AwaitWasm n req p) c = Some ([ErrorResponse n (th_message e)], None, c2)"
    using assms(1-4,6) by (cases req) (auto simp: resume_def caught_def)
  moreover have w: "wk_tasks w2 = ts @ [AwaitWasm m req' (length (c_promises c))]"
    "c_promises (wk_core w2) = c_promises c @ [Pending]" "c_instances (wk_core w2) = c_instances c1"
    using assms(5) s by (auto simp: assms(6,7) receive_def Let_def ensureWasm_def)
  ultimately show ?thesis using s by (simp add: assms(8) settle_promise_def list_update_append nth_append)
qed

definition trap :: Thrown where
  "trap = \<lparr>th_runtimeError = True, th_message = ''unreachable executed''\<rparr>"

definition trapping_wasm :: "nat Wasm" where
  "trapping_wasm = \<lparr>wa_emulator = counter_emulator\<lparr>em_step := throw trap, em_run_until_break := \<lambda>_. throw trap\<rparr>, wa_memoryMap = None\<rparr>"

definition loaded_core :: "nat core" where
  "loaded_core = worker_start\<lparr>c_instances := [0], c_promises := [Fulfilled], c_emulator := Some 0, c_wasmReady := Some 0\<rparr>"

theorem trap_then_fresh_machine_witness:
  "resume trapping_wasm 0 0 (AwaitWasm 1 RStep 0) loaded_core =
     Some ([ErrorResponse 1 ''unreachable executed''], None, loaded_core\<lparr>c_emulator := None, c_wasmReady := None\<rparr>)"
  using trap_then_fresh_machine [of loaded_core 0 RStep trapping_wasm trap loaded_core RReset,
      OF _ _ _ _ _ refl refl refl, where n = 1 and ?t0.0 = 0 and t = 0]
  by (simp add: loaded_core_def trap_def isDeadInstance_def handle_ready_def require_emulator_def bind_def
      handle_def trapping_wasm_def invoke_def throw_def)

text \<open>C35: a run that is still under way on an instance the worker has already replaced, with no
  message in between that cancels runs, traps on the dead instance and takes the replacement with
  it: the worker is left with no emulator.\<close>

theorem late_trap_drops_new_machine:
  assumes "ru_epoch ru = c_runEpoch c" "\<not> c_pauseRequested c" "ru_total ru < ru_max ru"
    and "worker_chunk (wa_emulator wasm) ru (min CHUNK_STEPS (ru_max ru - ru_total ru)) c = (Inl e, c1)"
    and "isDeadInstance e" "c_emulator c = Some j" "j \<noteq> ru_emu ru"
  shows "resume wasm t0 t (AtYield n ru) c =
      Some ([ErrorResponse n (th_message e)], None, c1\<lparr>c_emulator := None, c_wasmReady := None\<rparr>) \<and>
    c_emulator c1 = Some j"
proof -
  have "c_emulator c1 = Some j" using keepsD [OF keeps_worker_chunk assms(4)] assms(6) by (simp add: stable_def)
  then show ?thesis using assms(1-5)
    by (simp add: resume_def run_on_def after_yield_def bind_def gets_def enter_loop_def run_round_def caught_def)
qed

definition stale_run :: RunState where
  "stale_run = \<lparr>ru_emu = 0, ru_epoch = 0, ru_max = 10, ru_until = None, ru_total = 1, ru_lastHeartbeat = 0, ru_result = empty_result\<rparr>"

theorem late_trap_drops_new_machine_witness:
  "resume trapping_wasm 0 0 (AtYield 1 stale_run) (loaded_core\<lparr>c_instances := [0, 0], c_emulator := Some 1\<rparr>) =
     Some ([ErrorResponse 1 ''unreachable executed''], None,
       loaded_core\<lparr>c_instances := [0, 0], c_emulator := None, c_wasmReady := None\<rparr>)"
  using late_trap_drops_new_machine [of stale_run "loaded_core\<lparr>c_instances := [0, 0], c_emulator := Some 1\<rparr>" trapping_wasm trap
      "loaded_core\<lparr>c_instances := [0, 0], c_emulator := Some 1\<rparr>" 1, where n = 1 and ?t0.0 = 0 and t = 0]
  by (simp add: loaded_core_def worker_start_def stale_run_def trap_def isDeadInstance_def bind_def worker_chunk_def
      trapping_wasm_def invoke_def throw_def)

end
