(* ===== verification/WorkerClient.thy ===== *)
theory WorkerClient
  imports Worker
begin

text \<open>
  The page's side of the emulator worker, \<open>web/lib/worker/client.ts\<close>, and the two sides put
  together.

  A call of the client takes the next id, enters a slot in \<open>pending\<close> and posts the request.  The
  model keeps what the outside sees as logs: how each promise settled, and which listener was
  called with which snapshot.  Listeners are named by numbers, and their bodies, which the client
  does not read, return without calling back into it.  The system joins a client to a worker by
  two first-in first-out queues, which is what \<open>postMessage\<close> gives.
\<close>

subsection \<open>The client\<close>

datatype outcome = Resolved Value | Rejected jstring

record client =
  cl_nextId :: nat
  cl_pending :: "nat list"
  cl_listeners :: "nat list"
  cl_settled :: "(nat \<times> outcome) list"
  cl_notified :: "(nat \<times> StateSnapshot) list"

definition client_new :: client where
  "client_new = \<lparr>cl_nextId = 1, cl_pending = [], cl_listeners = [], cl_settled = [], cl_notified = []\<rparr>"

definition send :: "client \<Rightarrow> Request \<Rightarrow> (nat \<times> Request) \<times> client" where
  "send cl req =
     ((cl_nextId cl, req), cl\<lparr>cl_nextId := cl_nextId cl + 1, cl_pending := cl_pending cl @ [cl_nextId cl]\<rparr>)"

definition notify :: "StateSnapshot \<Rightarrow> client \<Rightarrow> client" where
  "notify snap cl = cl\<lparr>cl_notified := cl_notified cl @ map (\<lambda>l. (l, snap)) (cl_listeners cl)\<rparr>"

definition settle :: "nat \<Rightarrow> outcome \<Rightarrow> client \<Rightarrow> client" where
  "settle n r cl = cl\<lparr>cl_settled := cl_settled cl @ [(n, r)]\<rparr>"

definition reject_all :: "jstring \<Rightarrow> client \<Rightarrow> client" where
  "reject_all message cl =
     cl\<lparr>cl_settled := cl_settled cl @ map (\<lambda>n. (n, Rejected message)) (cl_pending cl), cl_pending := []\<rparr>"

fun on_message :: "WorkerMessage \<Rightarrow> client \<Rightarrow> client" where
  "on_message (Heartbeat snap) cl = notify snap cl"
| "on_message (OkResponse n v) cl =
     (if n \<in> set (cl_pending cl) then
        let cl1 = cl\<lparr>cl_pending := removeAll n (cl_pending cl)\<rparr>;
            cl2 = (case value_snapshot v of Some snap \<Rightarrow> notify snap cl1 | None \<Rightarrow> cl1) in
        settle n (Resolved v) cl2
      else cl)"
| "on_message (ErrorResponse n message) cl =
     (if n \<in> set (cl_pending cl) then settle n (Rejected message) (cl\<lparr>cl_pending := removeAll n (cl_pending cl)\<rparr>)
      else cl)"

definition on_error :: "jstring \<Rightarrow> client \<Rightarrow> client" where
  "on_error message = reject_all (if message = [] then ''worker error'' else message)"

definition onSnapshot :: "nat \<Rightarrow> client \<Rightarrow> client" where
  "onSnapshot l cl = cl\<lparr>cl_listeners := (if l \<in> set (cl_listeners cl) then cl_listeners cl else cl_listeners cl @ [l])\<rparr>"

definition unsubscribe :: "nat \<Rightarrow> client \<Rightarrow> client" where
  "unsubscribe l cl = cl\<lparr>cl_listeners := removeAll l (cl_listeners cl)\<rparr>"

definition terminate :: "client \<Rightarrow> client" where
  "terminate cl = (reject_all ''worker terminated'' cl)\<lparr>cl_listeners := []\<rparr>"

subsection \<open>The client and its worker\<close>

record 'e system =
  sy_client :: client
  sy_requests :: "(nat \<times> Request) list"
  sy_worker :: "'e worker"
  sy_alive :: bool

definition system_new :: "'e system" where
  "system_new =
     \<lparr>sy_client = client_new, sy_requests = [], sy_worker = \<lparr>wk_core = worker_start, wk_tasks = [], wk_out = []\<rparr>,
      sy_alive = True\<rparr>"

text \<open>The steps no caller takes: the worker receives a message, runs, and its messages arrive.\<close>

inductive internal :: "'e Wasm \<Rightarrow> 'e system \<Rightarrow> 'e system \<Rightarrow> bool" for wasm :: "'e Wasm" where
  deliver_request: "sy_alive s \<Longrightarrow> sy_requests s = (n, req) # rest \<Longrightarrow>
    internal wasm s (s\<lparr>sy_requests := rest, sy_worker := receive wasm n req (sy_worker s)\<rparr>)"
| worker_runs: "sy_alive s \<Longrightarrow> worker_step wasm (sy_worker s) w \<Longrightarrow> internal wasm s (s\<lparr>sy_worker := w\<rparr>)"
| deliver_reply: "sy_alive s \<Longrightarrow> wk_out (sy_worker s) = m # rest \<Longrightarrow>
    internal wasm s (s\<lparr>sy_client := on_message m (sy_client s), sy_worker := (sy_worker s)\<lparr>wk_out := rest\<rparr>\<rparr>)"

text \<open>With the steps of the page: calls, subscriptions, the worker's error event, the end.  A message
  posted to a terminated worker is dropped.\<close>

inductive sys_step :: "'e Wasm \<Rightarrow> 'e system \<Rightarrow> 'e system \<Rightarrow> bool" for wasm :: "'e Wasm" where
  goes_on: "internal wasm s s' \<Longrightarrow> sys_step wasm s s'"
| calls: "send (sy_client s) req = (msg, cl) \<Longrightarrow>
    sys_step wasm s (s\<lparr>sy_client := cl, sy_requests := (if sy_alive s then sy_requests s @ [msg] else sy_requests s)\<rparr>)"
| errs: "sy_alive s \<Longrightarrow> sys_step wasm s (s\<lparr>sy_client := on_error message (sy_client s)\<rparr>)"
| subscribes: "sys_step wasm s (s\<lparr>sy_client := onSnapshot l (sy_client s)\<rparr>)"
| unsubscribes: "sys_step wasm s (s\<lparr>sy_client := unsubscribe l (sy_client s)\<rparr>)"
| terminates: "sys_step wasm s (s\<lparr>sy_client := terminate (sy_client s), sy_alive := False\<rparr>)"

inductive reachable :: "'e Wasm \<Rightarrow> 'e system \<Rightarrow> bool" for wasm :: "'e Wasm" where
  start: "reachable wasm system_new"
| next_step: "reachable wasm s \<Longrightarrow> sys_step wasm s s' \<Longrightarrow> reachable wasm s'"

subsection \<open>Slots and settled promises\<close>

definition settled_ids :: "client \<Rightarrow> nat list" where
  "settled_ids cl = map fst (cl_settled cl)"

definition client_ok :: "client \<Rightarrow> bool" where
  "client_ok cl \<longleftrightarrow>
     distinct (cl_pending cl @ settled_ids cl) \<and> set (cl_pending cl @ settled_ids cl) = {1..<cl_nextId cl} \<and>
     0 < cl_nextId cl"

lemma client_ok_new: "client_ok client_new"
  by (simp add: client_ok_def client_new_def settled_ids_def)

lemma notify_simps [simp]:
  "cl_pending (notify s cl) = cl_pending cl" "settled_ids (notify s cl) = settled_ids cl" "cl_nextId (notify s cl) = cl_nextId cl"
  by (simp_all add: notify_def settled_ids_def)

lemma client_ok_listeners [simp]:
  "client_ok (cl\<lparr>cl_listeners := ls\<rparr>) = client_ok cl" "client_ok (cl\<lparr>cl_notified := ns\<rparr>) = client_ok cl"
  by (simp_all add: client_ok_def settled_ids_def)

lemma client_ok_notify [simp]: "client_ok (notify s cl) = client_ok cl"
  by (simp add: notify_def)

lemma client_ok_settle:
  "client_ok cl \<Longrightarrow> n \<in> set (cl_pending cl) \<Longrightarrow> client_ok (settle n r (cl\<lparr>cl_pending := removeAll n (cl_pending cl)\<rparr>))"
  by (auto simp: client_ok_def settle_def settled_ids_def distinct_removeAll)

lemma settle_notify: "settle n r (notify s cl) = notify s (settle n r cl)"
  by (simp add: settle_def notify_def)

lemma client_ok_on_message: "client_ok cl \<Longrightarrow> client_ok (on_message m cl)"
  by (cases m) (auto simp: client_ok_settle settle_notify Let_def split: option.split)

lemma client_ok_reject_all:
  assumes "client_ok cl"
  shows "client_ok (reject_all e cl)"
proof -
  have "cl_pending (reject_all e cl) @ settled_ids (reject_all e cl) = settled_ids cl @ cl_pending cl"
    by (simp add: reject_all_def settled_ids_def comp_def)
  moreover have "distinct (settled_ids cl @ cl_pending cl)" "set (settled_ids cl @ cl_pending cl) = {1..<cl_nextId cl}"
    using assms by (simp_all add: client_ok_def Int_commute Un_commute)
  ultimately show ?thesis using assms unfolding client_ok_def by (simp add: reject_all_def)
qed

lemma client_ok_send:
  assumes "client_ok cl" "send cl req = (m, cl')"
  shows "client_ok cl'"
proof -
  have new: "cl_pending cl' = cl_pending cl @ [cl_nextId cl]" "settled_ids cl' = settled_ids cl" "cl_nextId cl' = Suc (cl_nextId cl)"
    using assms(2) by (auto simp: send_def settled_ids_def)
  have "cl_nextId cl \<notin> set (cl_pending cl @ settled_ids cl)" using assms(1) by (simp add: client_ok_def)
  moreover have "{1..<Suc (cl_nextId cl)} = insert (cl_nextId cl) {1..<cl_nextId cl}"
    using assms(1) by (auto simp: client_ok_def)
  ultimately show ?thesis using assms(1) by (simp add: client_ok_def new)
qed

subsection \<open>Frames the listeners saw\<close>

definition seen :: "client \<Rightarrow> nat list" where
  "seen cl = map (\<lambda>(l, s). ss_frame s) (cl_notified cl)"

definition last_seen :: "client \<Rightarrow> nat" where
  "last_seen cl = last (0 # seen cl)"

lemma seen_same [simp]:
  "seen (cl\<lparr>cl_pending := ps\<rparr>) = seen cl" "seen (settle n r cl) = seen cl" "seen (reject_all e cl) = seen cl"
  "seen (cl\<lparr>cl_listeners := ls\<rparr>) = seen cl" "seen (onSnapshot l cl) = seen cl" "seen (unsubscribe l cl) = seen cl"
  by (simp_all add: seen_def settle_def reject_all_def onSnapshot_def unsubscribe_def)

lemma seen_send: "send cl req = (m, cl') \<Longrightarrow> seen cl' = seen cl"
  by (auto simp: send_def seen_def)

lemma seen_notify: "seen (notify s cl) = seen cl @ replicate (length (cl_listeners cl)) (ss_frame s)"
  by (simp add: seen_def notify_def comp_def map_replicate_const)

lemma last_seen_notify:
  "last_seen (notify s cl) = (if cl_listeners cl = [] then last_seen cl else ss_frame s)"
  by (simp add: last_seen_def seen_notify)

lemma sorted_snoc_replicate:
  "sorted xs \<Longrightarrow> last (0 # xs) \<le> (f :: nat) \<Longrightarrow> sorted (xs @ replicate k f)"
  by (induction xs rule: rev_induct) (auto simp: sorted_append)

lemma seen_on_message:
  assumes "sorted (seen cl)" "frames_within (last_seen cl) (m # ms) b" "last_seen cl \<le> b"
  shows "sorted (seen (on_message m cl)) \<and> frames_within (last_seen (on_message m cl)) ms b \<and>
    last_seen (on_message m cl) \<le> b"
proof -
  have split: "frames_of (m # ms) = frames_of [m] @ frames_of ms" using frames_of_simps(2) [of "[m]" ms] by simp
  have ms: "frames_within (last_seen cl) ms b" using assms(2) by (simp add: frames_within_def split sorted_append)
  have quiet: ?thesis if "seen (on_message m cl) = seen cl"
    using that assms(1,3) ms by (simp add: last_seen_def)
  have heard: ?thesis if "message_snapshot m = Some s" and n: "seen (on_message m cl) = seen (notify s cl)" for s
  proof -
    have f: "last_seen cl \<le> ss_frame s" "ss_frame s \<le> b" "\<forall>g \<in> set (frames_of ms). ss_frame s \<le> g"
      using assms(2) that(1) by (simp_all add: frames_within_def split sorted_append)
    have l: "last_seen (on_message m cl) = last_seen (notify s cl)" by (simp add: last_seen_def n)
    show ?thesis
      using sorted_snoc_replicate [OF assms(1), of "ss_frame s"] f ms assms(1,3)
      by (simp add: n l seen_notify last_seen_notify frames_within_def) (simp add: last_seen_def)
  qed
  show ?thesis
  proof (cases "\<exists>s. message_snapshot m = Some s \<and> seen (on_message m cl) = seen (notify s cl)")
    case False
    then have "seen (on_message m cl) = seen cl"
      by (cases m) (auto simp: seen_notify Let_def split: option.splits)
    then show ?thesis by (rule quiet)
  qed (use heard in blast)
qed

subsection \<open>The invariant of the system\<close>

definition in_flight :: "'e system \<Rightarrow> nat multiset" where
  "in_flight s = mset (map fst (sy_requests s)) + owed (sy_worker s)"

definition system_ok :: "'e system \<Rightarrow> bool" where
  "system_ok s \<longleftrightarrow>
     client_ok (sy_client s) \<and> sorted (seen (sy_client s)) \<and>
     (sy_alive s \<longrightarrow> worker_ok (last_seen (sy_client s)) (sy_worker s) \<and> set (cl_pending (sy_client s)) \<subseteq> set_mset (in_flight s))"

definition system_cost :: "'e system \<Rightarrow> nat" where
  "system_cost s = sum_list (map (\<lambda>(n, req). request_cost req + 2) (sy_requests s)) + worker_cost (sy_worker s)"

lemma system_ok_new: "system_ok system_new"
  by (simp add: system_ok_def system_new_def worker_ok_def core_ok_def worker_start_def seen_def last_seen_def client_new_def
      client_ok_new [unfolded client_new_def, simplified])

lemma pending_on_message:
  "set (cl_pending (on_message m cl)) = set (cl_pending cl) - set (reply_id m)"
  by (cases m) (auto simp: settle_notify settle_def Let_def split: option.split)

lemma worker_ok_pop:
  "worker_ok a w \<Longrightarrow> wk_out w = m # ms \<Longrightarrow> a' \<le> c_frame (wk_core w) \<Longrightarrow> frames_within a' ms (c_frame (wk_core w)) \<Longrightarrow>
   worker_ok a' (w\<lparr>wk_out := ms\<rparr>)"
  by (simp add: worker_ok_def)

lemma internal_ok:
  assumes "internal wasm s s'" "system_ok s"
  shows "system_ok s' \<and> system_cost s' < system_cost s \<and> sy_alive s' = sy_alive s"
  using assms
proof (induction rule: internal.induct)
  case (deliver_request s n req rest)
  then have w: "worker_ok (last_seen (sy_client s)) (sy_worker s)" by (simp add: system_ok_def)
  show ?case using receive_ok [OF w, where wasm = wasm and n = n and req = req] deliver_request
    by (simp add: system_ok_def system_cost_def in_flight_def)
next
  case (worker_runs s w)
  then have "worker_ok (last_seen (sy_client s)) (sy_worker s)" by (simp add: system_ok_def)
  then show ?case
    using worker_step_ok [OF worker_runs.hyps(2)] worker_step_owed [OF worker_runs.hyps(2)] worker_runs.prems worker_runs.hyps(1)
    by (simp add: system_ok_def system_cost_def in_flight_def)
next
  case (deliver_reply s m ms)
  let ?w = "sy_worker s" and ?cl = "sy_client s"
  have ok: "worker_ok (last_seen ?cl) ?w" "client_ok ?cl" "sorted (seen ?cl)" "set (cl_pending ?cl) \<subseteq> set_mset (in_flight s)"
    using deliver_reply by (auto simp: system_ok_def)
  have f: "frames_within (last_seen ?cl) (m # ms) (c_frame (wk_core ?w))" "last_seen ?cl \<le> c_frame (wk_core ?w)"
    using ok(1) deliver_reply.hyps(2) by (simp_all add: worker_ok_def)
  have "worker_ok (last_seen (on_message m ?cl)) (?w\<lparr>wk_out := ms\<rparr>)"
    using worker_ok_pop [OF ok(1) deliver_reply.hyps(2)] seen_on_message [OF ok(3) f] by blast
  moreover have "owed ?w = mset (reply_id m) + owed (?w\<lparr>wk_out := ms\<rparr>)"
    using deliver_reply.hyps(2) by (simp add: owed_def)
  then have "set (cl_pending (on_message m ?cl)) \<subseteq> set_mset (mset (map fst (sy_requests s)) + owed (?w\<lparr>wk_out := ms\<rparr>))"
    using ok(4) by (auto simp: pending_on_message in_flight_def)
  ultimately show ?case
    using client_ok_on_message [OF ok(2)] seen_on_message [OF ok(3) f] deliver_reply.hyps
    by (simp add: system_ok_def system_cost_def in_flight_def worker_cost_def)
qed

lemma last_seen_cong: "seen cl' = seen cl \<Longrightarrow> last_seen cl' = last_seen cl"
  by (simp add: last_seen_def)

lemma sys_step_ok:
  assumes "sys_step wasm s s'" "system_ok s"
  shows "system_ok s'"
  using assms
proof (induction rule: sys_step.induct)
  case (goes_on s s')
  then show ?case using internal_ok by blast
next
  case (calls s req msg cl)
  have "cl_pending cl = cl_pending (sy_client s) @ [fst msg]" using calls.hyps by (auto simp: send_def)
  then show ?case
    using calls client_ok_send [OF _ calls.hyps] seen_send [OF calls.hyps] last_seen_cong [OF seen_send [OF calls.hyps]]
    by (auto simp: system_ok_def in_flight_def)
next
  case (errs s message)
  then show ?case
    using client_ok_reject_all last_seen_cong [OF seen_same(3)]
    by (simp add: system_ok_def in_flight_def on_error_def) (simp add: reject_all_def)
next
  case (subscribes s l)
  then show ?case using last_seen_cong [OF seen_same(5)]
    by (simp add: system_ok_def in_flight_def) (simp add: onSnapshot_def)
next
  case (unsubscribes s l)
  then show ?case using last_seen_cong [OF seen_same(6)]
    by (simp add: system_ok_def in_flight_def) (simp add: unsubscribe_def)
next
  case (terminates s)
  then show ?case using client_ok_reject_all by (simp add: system_ok_def terminate_def)
qed

lemma reachable_ok: "reachable wasm s \<Longrightarrow> system_ok s"
  by (induction rule: reachable.induct) (auto intro: system_ok_new sys_step_ok)

subsection \<open>Every call is answered\<close>

text \<open>\<open>P\<close> holds on every maximal run of \<open>R\<close> from a state, after finitely many steps.\<close>

inductive inevitably :: "('s \<Rightarrow> 's \<Rightarrow> bool) \<Rightarrow> ('s \<Rightarrow> bool) \<Rightarrow> 's \<Rightarrow> bool" for R P where
  now: "P s \<Longrightarrow> inevitably R P s"
| later: "R s s1 \<Longrightarrow> (\<forall>s'. R s s' \<longrightarrow> inevitably R P s') \<Longrightarrow> inevitably R P s"

locale progress =
  fixes R :: "'s \<Rightarrow> 's \<Rightarrow> bool" and I P :: "'s \<Rightarrow> bool" and cost :: "'s \<Rightarrow> nat"
  assumes kept: "I s \<Longrightarrow> R s s' \<Longrightarrow> I s'"
    and cheaper: "I s \<Longrightarrow> R s s' \<Longrightarrow> cost s' < cost s"
    and not_stuck: "I s \<Longrightarrow> \<not> P s \<Longrightarrow> \<exists>s'. R s s'"
begin

lemma inevitable: "I s \<Longrightarrow> inevitably R P s"
proof (induction s rule: measure_induct_rule [of cost])
  case (less s)
  then show ?case using kept cheaper not_stuck by (cases "P s") (blast intro: inevitably.intros)+
qed

lemma run_length: "I s \<Longrightarrow> (R ^^ k) s s' \<Longrightarrow> I s' \<and> k + cost s' \<le> cost s"
proof (induction k arbitrary: s')
  case (Suc k)
  then obtain t where "(R ^^ k) s t" "R t s'" by auto
  then show ?case using Suc.IH [of t] Suc.prems(1) kept [of t s'] cheaper [of t s'] by auto
qed simp

end

lemma internal_not_stuck:
  assumes "system_ok s" "sy_alive s" "cl_pending (sy_client s) \<noteq> []"
  shows "\<exists>s'. internal wasm s s'"
proof (cases "sy_requests s")
  case (Cons m rest)
  then show ?thesis using assms(2) internal.deliver_request [of s "fst m" "snd m" rest wasm] by auto
next
  case Nil
  then have owed: "owed (sy_worker s) \<noteq> {#}" using assms by (auto simp: system_ok_def in_flight_def)
  show ?thesis
  proof (cases "wk_out (sy_worker s)")
    case (Cons m rest)
    then show ?thesis using assms(2) internal.deliver_reply by metis
  next
    case Nil
    then have "wk_tasks (sy_worker s) \<noteq> []" using owed by (auto simp: owed_def)
    moreover have "worker_ok (last_seen (sy_client s)) (sy_worker s)" using assms by (simp add: system_ok_def)
    ultimately show ?thesis using worker_not_stuck assms(2) internal.worker_runs by metis
  qed
qed

lemma internal_settled:
  assumes "internal wasm s s'"
  shows "cl_nextId (sy_client s') = cl_nextId (sy_client s)"
  using assms
proof (induction rule: internal.induct)
  case (deliver_reply s m rest)
  then show ?case by (cases m) (auto simp: settle_notify settle_def Let_def split: option.split)
qed simp_all

definition owes :: "nat \<Rightarrow> 'e system \<Rightarrow> bool" where
  "owes n s \<longleftrightarrow> system_ok s \<and> sy_alive s \<and> 0 < n \<and> n < cl_nextId (sy_client s)"

lemma progress_system:
  "progress (internal wasm) (owes n) (\<lambda>s. n \<in> set (settled_ids (sy_client s))) system_cost"
proof
  fix s s' :: "'a system"
  assume s: "owes n s"
  show "owes n s'" if "internal wasm s s'"
    using s internal_ok [OF that] internal_settled [OF that] by (simp add: owes_def)
  show "system_cost s' < system_cost s" if "internal wasm s s'"
    using s internal_ok [OF that] by (simp add: owes_def)
  assume "n \<notin> set (settled_ids (sy_client s))"
  then have "n \<in> set (cl_pending (sy_client s))" using s by (auto simp: owes_def system_ok_def client_ok_def)
  then have "cl_pending (sy_client s) \<noteq> []" by auto
  then show "\<exists>s'. internal wasm s s'" using s internal_not_stuck [of s wasm] by (simp add: owes_def)
qed

interpretation calls: progress "internal wasm" "owes n" "\<lambda>s. n \<in> set (settled_ids (sy_client s))" system_cost for wasm n
  by (rule progress_system)

interpretation idle: progress "internal wasm" "\<lambda>s. system_ok s \<and> sy_alive s" "\<lambda>s. cl_pending (sy_client s) = []" system_cost for wasm
  by unfold_locales (use internal_ok internal_not_stuck in blast)+

lemma client_ok_range: "client_ok cl \<Longrightarrow> n \<in> set (cl_pending cl) \<Longrightarrow> 0 < n \<and> n < cl_nextId cl"
proof -
  assume "client_ok cl" "n \<in> set (cl_pending cl)"
  then have "n \<in> set (cl_pending cl @ settled_ids cl)" and all: "set (cl_pending cl @ settled_ids cl) = {1..<cl_nextId cl}"
    unfolding client_ok_def by auto
  then show ?thesis unfolding all by simp
qed

lemma owes_reachable:
  assumes "reachable wasm s" "sy_alive s" "n \<in> set (cl_pending (sy_client s))"
  shows "owes n s"
  using reachable_ok [OF assms(1)] assms(2,3) client_ok_range by (auto simp: owes_def system_ok_def)

subsection \<open>What the page can rely on\<close>

text \<open>C5: in every reachable state of the page and its worker, whatever was sent, delivered, run,
  failed, subscribed or terminated in whatever order, the ids given out so far are split between the
  slots still pending and the promises already settled, no promise was settled twice, and while the
  worker lives every pending slot has its request, its task or its reply on the way.\<close>

theorem every_call_has_one_fate:
  assumes "reachable wasm s"
  shows "distinct (settled_ids (sy_client s)) \<and>
    set (cl_pending (sy_client s)) \<inter> set (settled_ids (sy_client s)) = {} \<and>
    set (cl_pending (sy_client s)) \<union> set (settled_ids (sy_client s)) = {1..<cl_nextId (sy_client s)} \<and>
    (sy_alive s \<longrightarrow> set (cl_pending (sy_client s)) \<subseteq> set_mset (in_flight s))"
  using reachable_ok [OF assms] by (simp add: system_ok_def client_ok_def)

definition calling :: "Request \<Rightarrow> 'e system" where
  "calling req = system_new\<lparr>sy_client := snd (send client_new req), sy_requests := [(1, req)]\<rparr>"

lemma reachable_calling: "reachable wasm (calling req)"
proof -
  have "sys_step wasm system_new (calling req)"
    using sys_step.calls [of system_new req "(1, req)" "snd (send client_new req)" wasm]
    by (simp add: calling_def system_new_def send_def client_new_def)
  then show ?thesis using reachable.intros by blast
qed

theorem every_call_has_one_fate_witness:
  "set (cl_pending (sy_client (calling RStep :: nat system))) \<subseteq> set_mset (in_flight (calling RStep :: nat system)) \<and>
   cl_nextId (sy_client (calling RStep :: nat system)) = 2"
  using every_call_has_one_fate [OF reachable_calling [of counter_wasm RStep]]
  by (simp add: calling_def system_new_def send_def client_new_def)

text \<open>C4: while the worker lives, a pending call settles on every run of the system, after finitely
  many steps and whatever the order in which the worker's tasks go on, the module's loads succeed or
  fail, and messages arrive; the page need do nothing.\<close>

theorem call_inevitably_settles:
  assumes "reachable wasm s" "sy_alive s" "n \<in> set (cl_pending (sy_client s))"
  shows "inevitably (internal wasm) (\<lambda>s'. n \<in> set (settled_ids (sy_client s'))) s"
  by (rule calls.inevitable) (rule owes_reachable [OF assms])

theorem call_inevitably_settles_witness:
  "inevitably (internal counter_wasm) (\<lambda>s'. 1 \<in> set (settled_ids (sy_client s'))) (calling (RRunUntilBreak 100000 None))"
  by (rule call_inevitably_settles [OF reachable_calling])
    (simp_all add: calling_def system_new_def send_def client_new_def)

text \<open>From a reachable state, the steps the system takes by itself are at most as many as its
  cost: twice the step budget of the runs asked for and a constant for every other request, task,
  load and message.\<close>

theorem internal_steps_bounded:
  assumes "reachable wasm s" "sy_alive s" "(internal wasm ^^ k) s s'"
  shows "k \<le> system_cost s"
proof -
  have "system_ok s \<and> sy_alive s" using reachable_ok [OF assms(1)] assms(2) by simp
  from idle.run_length [OF this assms(3)] show ?thesis by simp
qed

theorem internal_steps_bounded_witness:
  "\<exists>s'. (internal counter_wasm ^^ 1) (calling RPause) s' \<and> 1 \<le> system_cost (calling RPause :: nat system)"
proof -
  have "internal counter_wasm (calling RPause) ((calling RPause)\<lparr>sy_requests := [],
      sy_worker := receive counter_wasm 1 RPause (sy_worker (calling RPause))\<rparr>)"
    by (rule internal.deliver_request) (simp_all add: calling_def system_new_def)
  moreover from this have "(internal counter_wasm ^^ 1) (calling RPause) ((calling RPause)\<lparr>sy_requests := [],
      sy_worker := receive counter_wasm 1 RPause (sy_worker (calling RPause))\<rparr>)" by auto
  moreover have "sy_alive (calling RPause :: nat system)" by (simp add: calling_def system_new_def)
  ultimately show ?thesis using internal_steps_bounded [OF reachable_calling] by blast
qed



text \<open>C6: a run that waits at its yield when an assemble, a reset, a step back or a load of a saved
  state arrives executes no further chunk, whenever it goes on: what it then does is the same
  whatever the machine's run methods are, it ends there with its one reply, and unless a read of the
  machine fails that reply says that it was cancelled.\<close>

theorem overtaken_run_executes_no_chunk:
  assumes "reachable wasm s" "sy_alive s" "AtYield n ru \<in> set (wk_tasks (sy_worker s))" "bumps_epoch req"
    and "c_runEpoch (wk_core (receive wasm m req (sy_worker s))) \<le> c_runEpoch c"
  shows "\<exists>msg c'. resume wasm t0 t (AtYield n ru) c = Some ([msg], None, c') \<and>
    resume (swap_runs wasm f g) t0 t (AtYield n ru) c = Some ([msg], None, c') \<and>
    ((\<exists>r snap. msg = OkResponse n (VRun r snap) \<and> cancelled r) \<or> (\<exists>e. msg = ErrorResponse n e))"
proof -
  let ?ru = "ru\<lparr>ru_result := (ru_result ru)\<lparr>cancelled := True\<rparr>\<rparr>"
  have "task_ok (wk_core (sy_worker s)) (AtYield n ru)"
    using reachable_ok [OF assms(1)] assms(2,3) by (auto simp: system_ok_def worker_ok_def)
  then have stale: "ru_epoch ru \<noteq> c_runEpoch c" using assms(4,5) by (simp add: receive_epoch)
  obtain msg c' where r: "reply n (finish_run (wa_emulator wasm) ?ru c) = (msg, c')" by fastforce
  obtain v c1 where v: "finish_run (wa_emulator wasm) ?ru c = (v, c1)" by fastforce
  have "(\<exists>r snap. msg = OkResponse n (VRun r snap) \<and> cancelled r) \<or> (\<exists>e. msg = ErrorResponse n e)"
  proof (cases v)
    case (Inr a)
    then show ?thesis using finish_run_value [of "wa_emulator wasm" ?ru c a c1] r v by auto
  qed (use r v in auto)
  then show ?thesis using r stale_run_finishes [OF stale] by (simp add: finish_run_swap)
qed

definition yielded_run :: RunState where
  "yielded_run =
     \<lparr>ru_emu = 0, ru_epoch = 0, ru_max = 100000, ru_until = None, ru_total = CHUNK_STEPS, ru_lastHeartbeat = 0,
      ru_result = empty_result\<lparr>rr_pc := to_number 0, steps_executed := CHUNK_STEPS\<rparr>\<rparr>"

lemma reachable_yielded_run:
  "\<exists>s. reachable counter_wasm s \<and> sy_alive s \<and> AtYield 1 yielded_run \<in> set (wk_tasks (sy_worker s)) \<and>
     c_runEpoch (wk_core (sy_worker s)) = 0"
proof -
  let ?req = "RRunUntilBreak 100000 None"
  let ?s1 = "calling ?req :: nat system"
  let ?c2 = "worker_start\<lparr>c_promises := [Pending], c_wasmReady := Some 0\<rparr> :: nat core"
  let ?s2 = "?s1\<lparr>sy_requests := [], sy_worker := \<lparr>wk_core = ?c2, wk_tasks = [AwaitWasm 1 ?req 0], wk_out = []\<rparr>\<rparr>"
  let ?c3 = "loaded_core"
  let ?s3 = "?s2\<lparr>sy_worker := (sy_worker ?s2)\<lparr>wk_core := loaded_core\<rparr>\<rparr>"
  let ?c4 = "loaded_core\<lparr>c_instances := [CHUNK_STEPS], c_frame := 1\<rparr>"
  let ?s4 = "?s3\<lparr>sy_worker := \<lparr>wk_core = ?c4, wk_tasks = [AtYield 1 yielded_run], wk_out = []\<rparr>\<rparr>"
  have "internal counter_wasm ?s1 ?s2"
    using internal.deliver_request [of ?s1 1 ?req "[]" counter_wasm]
    by (simp add: calling_def system_new_def receive_def ensureWasm_def worker_start_def)
  then have "reachable counter_wasm ?s2" using reachable_calling sys_step.goes_on reachable.next_step by blast
  moreover have "internal counter_wasm ?s2 ?s3"
    using worker_step.settles [of 0 "sy_worker ?s2" counter_wasm "Inr 0"] internal.worker_runs [of ?s2 counter_wasm]
    by (simp add: calling_def system_new_def settle_promise_def loaded_core_def worker_start_def)
  ultimately have "reachable counter_wasm ?s3" using sys_step.goes_on reachable.next_step by blast
  moreover have "resume counter_wasm 0 0 (AwaitWasm 1 ?req 0) loaded_core = Some ([], Some (AtYield 1 yielded_run), ?c4)"
    by (simp add: resume_def run_on_def start_run_def bind_def require_emulator_def modify_def gets_def enter_loop_def
        run_round_def worker_chunk_def invoke_def ret_def bumpFrame_def loaded_core_def worker_start_def counter_wasm_def
        counter_emulator_def run_result_def chunk_stops_def CHUNK_STEPS_def HEARTBEAT_INTERVAL_MS_def yielded_run_def
        empty_result_def truthy_def Let_def)
  then have "internal counter_wasm ?s3 ?s4"
    using worker_step.resumes [of 0 "sy_worker ?s3" counter_wasm 0 0] internal.worker_runs [of ?s3 counter_wasm]
    by (simp add: calling_def system_new_def)
  ultimately have "reachable counter_wasm ?s4" using sys_step.goes_on reachable.next_step by blast
  then show ?thesis by (intro exI [of _ ?s4]) (simp add: calling_def system_new_def loaded_core_def worker_start_def)
qed

theorem overtaken_run_executes_no_chunk_witness:
  "\<exists>s :: nat system. AtYield 1 yielded_run \<in> set (wk_tasks (sy_worker s)) \<and>
     (\<exists>msg c'. resume counter_wasm 0 0 (AtYield 1 yielded_run) (wk_core (receive counter_wasm 2 RReset (sy_worker s))) =
       Some ([msg], None, c'))"
proof -
  obtain s where s: "reachable counter_wasm s" "sy_alive s" "AtYield 1 yielded_run \<in> set (wk_tasks (sy_worker s))"
    using reachable_yielded_run by blast
  show ?thesis using overtaken_run_executes_no_chunk [OF s, where req = RReset and m = 2 and
        c = "wk_core (receive counter_wasm 2 RReset (sy_worker s))" and ?t0.0 = 0 and t = 0] s(3) by fastforce
qed

end
