(* ===== verification/AsmFormatter.thy ===== *)
theory AsmFormatter
  imports Radix
begin

text \<open>
  The source formatter: \<open>web/lib/asm/asm-formatter.ts\<close>.  The regular expressions of the source are
  spelled out as scans.  A set of names is a list.
\<close>

abbreviation nl :: char where "nl \<equiv> CHR 0x0A"
abbreviation bslash :: char where "bslash \<equiv> CHR 0x5C"
abbreviation quote :: char where "quote \<equiv> CHR 0x22"

definition INSTRUCTION_INDENT :: jstring where "INSTRUCTION_INDENT = ''        ''"
definition MNEMONIC_WIDTH :: nat where "MNEMONIC_WIDTH = 8"
definition COMMENT_COLUMN :: nat where "COMMENT_COLUMN = 40"

subsection \<open>Comments\<close>

fun split_comment :: "bool \<Rightarrow> jstring \<Rightarrow> jstring \<times> jstring option" where
  "split_comment inString [] = ([], None)"
| "split_comment inString [c] =
     (if c = CHR '';'' \<and> \<not> inString then ([], Some [c]) else ([c], None))"
| "split_comment inString (c # d # cs) =
     (if c = bslash \<and> inString then apfst (\<lambda>t. c # d # t) (split_comment inString cs)
      else if c = quote then apfst ((#) c) (split_comment (\<not> inString) (d # cs))
      else if inString then apfst ((#) c) (split_comment inString (d # cs))
      else if c = CHR ''/'' \<and> d = CHR ''/'' then ([], Some (c # d # cs))
      else if c = CHR '';'' then ([], Some (c # d # cs))
      else apfst ((#) c) (split_comment inString (d # cs)))"

definition splitOffComment :: "jstring \<Rightarrow> jstring \<times> jstring option" where
  "splitOffComment line = split_comment False line"

subsection \<open>Shapes of code\<close>

datatype CodeShape =
    Blank
  | Directive jstring
  | LabelOnly jstring
  | LabelRest "jstring list" jstring
  | Define jstring
  | Assignment jstring
  | Instruction jstring jstring

abbreviation skip_space :: "jstring \<Rightarrow> jstring" where
  "skip_space \<equiv> dropWhile is_ws"

definition next_is :: "char \<Rightarrow> jstring \<Rightarrow> bool" where
  "next_is c s \<longleftrightarrow> s \<noteq> [] \<and> hd s = c"

definition label_start :: "char \<Rightarrow> bool" where
  "label_start c \<longleftrightarrow> is_alpha c \<or> c \<in> set ''_.$''"

definition label_char :: "char \<Rightarrow> bool" where
  "label_char c \<longleftrightarrow> is_word_char c \<or> c \<in> set ''.$''"

definition name_start :: "char \<Rightarrow> bool" where
  "name_start c \<longleftrightarrow> is_alpha c \<or> c = CHR ''_''"

text \<open>\<open>([A-Za-z_.$][\w.$]*)\s*:\s*\<close> at the start of a text.\<close>

definition label_prefix :: "jstring \<Rightarrow> (jstring \<times> jstring) option" where
  "label_prefix s =
     (if s \<noteq> [] \<and> label_start (hd s) \<and> next_is (CHR '':'') (skip_space (dropWhile label_char s))
      then Some (takeWhile label_char s, skip_space (tl (skip_space (dropWhile label_char s)))) else None)"

lemma label_prefix_shorter: "label_prefix s = Some (l, r) \<Longrightarrow> length r < length s"
proof -
  assume "label_prefix s = Some (l, r)"
  then have t: "skip_space (dropWhile label_char s) \<noteq> []" and r: "r = skip_space (tl (skip_space (dropWhile label_char s)))"
    by (auto simp: label_prefix_def next_is_def split: if_splits)
  have "length (skip_space (dropWhile label_char s)) \<le> length s"
    using length_dropWhile_le [of is_ws "dropWhile label_char s"] length_dropWhile_le [of label_char s] by linarith
  then show ?thesis
    using t r length_dropWhile_le [of is_ws "tl (skip_space (dropWhile label_char s))"]
    by (cases "skip_space (dropWhile label_char s)") auto
qed

function peel_labels :: "jstring \<Rightarrow> jstring list \<times> jstring" where
  "peel_labels s =
     (if next_is (CHR ''.'') s then ([], s)
      else case label_prefix s of None \<Rightarrow> ([], s) | Some (l, r) \<Rightarrow> apfst ((#) l) (peel_labels r))"
  by pat_completeness auto
termination by (relation "measure length") (auto dest: label_prefix_shorter)

declare peel_labels.simps [simp del]

text \<open>\<open>/^define\s*\(/i\<close>.\<close>

definition define_start :: "jstring \<Rightarrow> bool" where
  "define_start s \<longleftrightarrow> js_lower (take 6 s) = ''define'' \<and> next_is (CHR ''('') (skip_space (drop 6 s))"

text \<open>\<open>/^[A-Za-z_][\w]*\s*=\s*[^=]/\<close>; the blanks after the equals sign may be the last character.\<close>

definition assignment_start :: "jstring \<Rightarrow> bool" where
  "assignment_start s \<longleftrightarrow>
     s \<noteq> [] \<and> name_start (hd s) \<and>
     (let r = skip_space (dropWhile is_word_char s) in next_is (CHR ''='') r \<and> tl r \<noteq> [] \<and> hd (tl r) \<noteq> CHR ''='')"

definition not_ws :: "char \<Rightarrow> bool" where
  "not_ws c \<longleftrightarrow> \<not> is_ws c"

definition classifyCode :: "jstring \<Rightarrow> CodeShape" where
  "classifyCode src =
     (let trimmed = js_trim src in
      if trimmed = [] then Blank
      else if next_is (CHR ''.'') trimmed then Directive trimmed
      else if define_start trimmed then Define trimmed
      else if assignment_start trimmed \<and> last trimmed \<noteq> CHR '':'' then Assignment trimmed
      else case peel_labels trimmed of
        ([], _) \<Rightarrow> Instruction (js_lower (takeWhile not_ws trimmed)) (js_trim (drop 1 (dropWhile not_ws trimmed)))
      | (labels, rest) \<Rightarrow>
          if rest = [] \<and> length labels = 1 then LabelOnly (hd labels) else LabelRest labels rest)"

subsection \<open>Registers\<close>

definition numbered :: "char \<Rightarrow> nat \<Rightarrow> jstring list" where
  "numbered c n = map (\<lambda>i. c # nat_to_string 10 i) [0 ..< n]"

definition register_names :: "jstring list" where
  "register_names =
     numbered (CHR ''X'') 31 @ numbered (CHR ''W'') 31 @ [''SP'', ''XZR'', ''WZR'', ''FP'', ''LR''] @ numbered (CHR ''D'') 32"

text \<open>A match of the expression, between word boundaries, is a whole run of word characters.\<close>

definition lower_word :: "jstring list \<Rightarrow> jstring \<Rightarrow> jstring" where
  "lower_word defined w = (if w \<in> set register_names \<and> w \<notin> set defined then js_lower w else w)"

function lowercaseRegisters :: "jstring list \<Rightarrow> jstring \<Rightarrow> jstring" where
  "lowercaseRegisters defined [] = []"
| "lowercaseRegisters defined (c # cs) =
     (if is_word_char c
      then lower_word defined (takeWhile is_word_char (c # cs)) @ lowercaseRegisters defined (dropWhile is_word_char cs)
      else c # lowercaseRegisters defined cs)"
  by pat_completeness auto
termination by (relation "measure (\<lambda>(d, s). length s)") (auto simp: less_Suc_eq_le length_dropWhile_le)

subsection \<open>Names the source defines\<close>

definition label_name :: "jstring \<Rightarrow> jstring list" where
  "label_name line = (case label_prefix line of Some (l, _) \<Rightarrow> [l] | None \<Rightarrow> [])"

text \<open>\<open>/^define\s*\(\s*`?([A-Za-z_]\w*)'?\s*,/i\<close>.\<close>

definition define_name :: "jstring \<Rightarrow> jstring list" where
  "define_name line =
     (if \<not> define_start line then []
      else let r = skip_space (tl (skip_space (drop 6 line)));
               r1 = (if next_is (CHR 0x60) r then tl r else r);
               name = takeWhile is_word_char r1;
               r2 = dropWhile is_word_char r1;
               r3 = (if next_is (CHR 0x27) r2 then tl r2 else r2) in
        if r1 \<noteq> [] \<and> name_start (hd r1) \<and> next_is (CHR '','') (skip_space r3) then [name] else [])"

definition assign_name :: "jstring \<Rightarrow> jstring list" where
  "assign_name line = (if assignment_start line then [takeWhile is_word_char line] else [])"

text \<open>\<open>/^([A-Za-z_]\w*)\s+\.req\b/i\<close>.\<close>

definition req_name :: "jstring \<Rightarrow> jstring list" where
  "req_name line =
     (let r = dropWhile is_word_char line; q = skip_space r in
      if line \<noteq> [] \<and> name_start (hd line) \<and> r \<noteq> q \<and> js_lower (take 4 q) = ''.req'' \<and>
         (drop 4 q = [] \<or> \<not> is_word_char (hd (drop 4 q)))
      then [takeWhile is_word_char line] else [])"

definition line_names :: "jstring \<Rightarrow> jstring list" where
  "line_names raw = (let line = js_trim raw in label_name line @ define_name line @ assign_name line @ req_name line)"

definition collectDefinedSymbols :: "jstring \<Rightarrow> jstring list" where
  "collectDefinedSymbols source = concat (map line_names (js_split nl source))"

subsection \<open>Layout\<close>

definition formatInstruction :: "jstring \<Rightarrow> jstring \<Rightarrow> jstring list \<Rightarrow> jstring" where
  "formatInstruction mnemonic operands defined =
     (let padded = padEnd MNEMONIC_WIDTH (CHR '' '') mnemonic;
          normalisedOps = lowercaseRegisters defined operands in
      INSTRUCTION_INDENT @ (if normalisedOps \<noteq> [] then padded @ normalisedOps else mnemonic))"

definition attachComment :: "jstring \<Rightarrow> jstring option \<Rightarrow> jstring" where
  "attachComment src comment =
     (case comment of None \<Rightarrow> src
      | Some c \<Rightarrow>
          if src = [] then js_trim c
          else src @ replicate (max COMMENT_COLUMN (length src + 1) - length src) (CHR '' '') @ js_trim c)"

definition label_head :: "jstring \<Rightarrow> jstring \<Rightarrow> jstring" where
  "label_head label tail =
     (if starts_with INSTRUCTION_INDENT tail then label @ '':'' @ drop (length INSTRUCTION_INDENT - 1) tail
      else if tail \<noteq> [] then label @ '':    '' @ tail else label @ '':'')"

lemma peel_labels_shorter: "peel_labels s = (l # ls, r) \<Longrightarrow> length r < length s"
proof (induction s arbitrary: l ls r rule: peel_labels.induct)
  case (1 s)
  then obtain l' r' where p: "\<not> next_is (CHR ''.'') s" "label_prefix s = Some (l', r')" "peel_labels r' = (ls, r)"
    by (cases "peel_labels (snd (the (label_prefix s)))")
      (auto simp: peel_labels.simps [of s] split: if_splits option.splits prod.splits)
  show ?case
  proof (cases ls)
    case Nil
    then have "r = r'" using p(3)
      by (cases "peel_labels (snd (the (label_prefix r')))")
        (auto simp: peel_labels.simps [of r'] split: if_splits option.splits prod.splits)
    then show ?thesis using label_prefix_shorter [OF p(2)] by simp
  next
    case (Cons k ks)
    then show ?thesis using 1(1) [OF p(1) p(2) refl, of k ks r] p(3) label_prefix_shorter [OF p(2)] by simp
  qed
qed

lemma classify_rest_shorter: "classifyCode src = LabelRest ls rest \<Longrightarrow> length rest < length src"
proof -
  assume "classifyCode src = LabelRest ls rest"
  then obtain l ls' where "peel_labels (js_trim src) = (l # ls', rest)"
    by (auto simp: classifyCode_def Let_def split: if_splits prod.splits list.splits)
  from peel_labels_shorter [OF this] show ?thesis using length_js_trim [of src] by simp
qed

function formatShape :: "CodeShape \<Rightarrow> jstring list \<Rightarrow> jstring" where
  "formatShape Blank defined = []"
| "formatShape (Directive t) defined = t"
| "formatShape (Define t) defined = t"
| "formatShape (Assignment t) defined = t"
| "formatShape (LabelOnly l) defined = l @ '':''"
| "formatShape (LabelRest labels rest) defined =
     concat (map (\<lambda>l. l @ '':    '') (butlast labels)) @
     label_head (last labels) (if rest \<noteq> [] then formatShape (classifyCode rest) defined else [])"
| "formatShape (Instruction m ops) defined = formatInstruction m ops defined"
  by pat_completeness auto
termination
proof (relation "measure (\<lambda>(s, d). case s of LabelRest ls rest \<Rightarrow> Suc (length rest) | _ \<Rightarrow> 0)")
qed (auto split: CodeShape.split dest: classify_rest_shorter)

definition formatLine :: "jstring list \<Rightarrow> jstring \<Rightarrow> jstring" where
  "formatLine symbols raw =
     (if js_trim raw = [] then []
      else case splitOffComment raw of (src, comment) \<Rightarrow>
        (case classifyCode src of
           Blank \<Rightarrow> (case comment of None \<Rightarrow> [] | Some c \<Rightarrow> c)
         | cls \<Rightarrow> attachComment (formatShape cls symbols) comment))"

definition formatAsm :: "jstring \<Rightarrow> jstring list option \<Rightarrow> jstring" where
  "formatAsm source defined =
     (let symbols = (case defined of None \<Rightarrow> collectDefinedSymbols source | Some d \<Rightarrow> d) in
      js_join [nl] (map (formatLine symbols) (js_split nl source)))"

subsection \<open>Lines stay lines\<close>

lemma lower_char_nl [simp]: "lower_char c = nl \<longleftrightarrow> c = nl"
proof
  assume "lower_char c = nl"
  then show "c = nl"
  proof (cases "is_upper c \<or> (192 \<le> code c \<and> code c \<le> 222 \<and> code c \<noteq> 215)")
    case True
    then have "code (lower_char c) = code c + 32" by (auto simp: lower_char_def is_upper_def code_def of_char_mod_256)
    then show ?thesis using \<open>lower_char c = nl\<close> by (simp add: code_def)
  qed (simp add: lower_char_def)
qed (simp add: lower_char_def is_upper_def code_def)

lemma nl_js_lower [simp]: "nl \<in> set (js_lower s) \<longleftrightarrow> nl \<in> set s"
  by (simp add: js_lower_def image_iff) (metis lower_char_nl)

lemma nl_trim: "nl \<in> set (js_trim s) \<Longrightarrow> nl \<in> set s"
  using set_js_trim by blast

lemma nl_lowercaseRegisters: "nl \<in> set (lowercaseRegisters d s) \<Longrightarrow> nl \<in> set s"
proof (induction d s rule: lowercaseRegisters.induct)
  case (2 d c cs)
  then show ?case
    by (auto simp: lower_word_def split: if_splits dest: set_takeWhileD set_dropWhileD)
qed simp

lemma apfst_eq: "apfst f p = (a, k) \<longleftrightarrow> (\<exists>x. p = (x, k) \<and> a = f x)"
  by (cases p) auto

lemma split_comment_parts: "split_comment b s = (a, k) \<Longrightarrow> s = a @ (case k of None \<Rightarrow> [] | Some c \<Rightarrow> c)"
  by (induction b s arbitrary: a k rule: split_comment.induct) (auto simp: apfst_eq split: if_splits)

lemma nl_peel: "peel_labels s = (ls, r) \<Longrightarrow> nl \<in> set r \<union> \<Union> (set ` set ls) \<Longrightarrow> nl \<in> set s"
proof (induction s arbitrary: ls r rule: peel_labels.induct)
  case (1 s)
  show ?case
  proof (cases "next_is (CHR ''.'') s \<or> label_prefix s = None")
    case True
    then have "peel_labels s = ([], s)" by (subst peel_labels.simps) auto
    then show ?thesis using 1(2,3) by auto
  next
    case False
    then obtain l r' where p: "\<not> next_is (CHR ''.'') s" "label_prefix s = Some (l, r')" by auto
    obtain ls' r2 where q: "peel_labels r' = (ls', r2)" by fastforce
    have ls: "ls = l # ls'" "r = r2" using 1(2) p q by (auto simp: peel_labels.simps [of s])
    have sub: "set (dropWhile P xs) \<subseteq> set xs" "set (tl xs) \<subseteq> set xs" for P and xs :: jstring
      by (auto dest: set_dropWhileD list.set_sel(2) [rotated]) (metis list.sel(2) list.set_sel(2))
    have l: "l = takeWhile label_char s" "r' = skip_space (tl (skip_space (dropWhile label_char s)))"
      using p(2) by (auto simp: label_prefix_def split: if_splits)
    have "set l \<subseteq> set s" "set r' \<subseteq> set s"
      unfolding l using sub by (auto dest: set_takeWhileD) (meson subsetD)+
    then show ?thesis using 1(1) [OF p(1) p(2) refl q] 1(3) ls by auto
  qed
qed

fun shape_chars :: "CodeShape \<Rightarrow> char set" where
  "shape_chars Blank = {}"
| "shape_chars (Directive t) = set t"
| "shape_chars (Define t) = set t"
| "shape_chars (Assignment t) = set t"
| "shape_chars (LabelOnly l) = set l"
| "shape_chars (LabelRest ls r) = set r \<union> \<Union> (set ` set ls)"
| "shape_chars (Instruction m ops) = set m \<union> set ops"

lemma nl_classify:
  assumes "nl \<notin> set src"
  shows "nl \<notin> shape_chars (classifyCode src)"
proof -
  have t: "nl \<notin> set (js_trim src)" using assms nl_trim by blast
  obtain ls r where p: "peel_labels (js_trim src) = (ls, r)" by fastforce
  have ls: "nl \<notin> set r" "\<forall>l \<in> set ls. nl \<notin> set l" using nl_peel [OF p] t by auto
  have i: "nl \<notin> set (takeWhile not_ws (js_trim src))" "nl \<notin> set (js_trim (drop 1 (dropWhile not_ws (js_trim src))))"
    using t by (auto dest: set_takeWhileD dest!: nl_trim in_set_dropD set_dropWhileD)
  show ?thesis using t ls i p by (cases ls) (auto simp: classifyCode_def Let_def)
qed

lemma classify_labels: "classifyCode src = LabelRest ls r \<Longrightarrow> ls \<noteq> []"
  by (auto simp: classifyCode_def Let_def split: if_splits prod.splits list.splits)

lemma nl_formatShape:
  "nl \<notin> shape_chars cls \<Longrightarrow> (\<And>r. cls \<noteq> LabelRest [] r) \<Longrightarrow> nl \<notin> set (formatShape cls d)"
proof (induction cls d rule: formatShape.induct)
  case (6 labels rest d)
  let ?tail = "if rest \<noteq> [] then formatShape (classifyCode rest) d else []"
  have r: "nl \<notin> set rest" "\<forall>l \<in> set labels. nl \<notin> set l" using 6(2) by auto
  have "nl \<notin> set ?tail" using 6(1) nl_classify [OF r(1)] classify_labels by auto
  then have "nl \<notin> set (label_head l ?tail)" if "nl \<notin> set l" for l
    using that by (auto simp: label_head_def dest: in_set_dropD)
  moreover have "labels \<noteq> []" using 6(3) by auto
  ultimately have "nl \<notin> set (label_head (last labels) ?tail)" using r(2) by simp
  moreover have "nl \<notin> set (concat (map (\<lambda>l. l @ '':    '') (butlast labels)))" using r(2) by (auto dest: in_set_butlastD)
  ultimately show ?case by simp
next
  case (7 m ops d)
  then show ?case
    by (auto simp: formatInstruction_def INSTRUCTION_INDENT_def padEnd_def Let_def dest: nl_lowercaseRegisters)
qed simp_all

lemma nl_formatLine:
  assumes "nl \<notin> set raw"
  shows "nl \<notin> set (formatLine d raw)"
proof -
  obtain src comment where s: "splitOffComment raw = (src, comment)" by fastforce
  then have parts: "nl \<notin> set src" "\<And>c. comment = Some c \<Longrightarrow> nl \<notin> set c"
    using split_comment_parts [of False raw src comment] assms by (auto simp: splitOffComment_def split: option.splits)
  have f: "nl \<notin> set (formatShape (classifyCode src) d)" using nl_formatShape nl_classify parts(1) classify_labels by blast
  then have "nl \<notin> set (attachComment (formatShape (classifyCode src) d) comment)"
    using parts(2) by (cases comment) (auto simp: attachComment_def dest: nl_trim)
  then show ?thesis using s parts(2) by (auto simp: formatLine_def split: CodeShape.splits option.splits)
qed

text \<open>Formatting keeps every line on its own line: the formatted source has as many lines as the
  source, and its line \<open>i\<close> is the layout of line \<open>i\<close>, so that breakpoints and error lines still fit.\<close>

theorem formatting_keeps_lines:
  "js_split nl (formatAsm source defined) =
     map (formatLine (case defined of None \<Rightarrow> collectDefinedSymbols source | Some d \<Rightarrow> d)) (js_split nl source)"
proof -
  have "nl \<notin> set w" if "w \<in> set (js_split nl source)" for w using that by (rule js_split_parts)
  then show ?thesis unfolding formatAsm_def Let_def
    by (intro js_split_join) (auto simp: nl_formatLine)
qed

lemma register_names_upper: "w \<in> set register_names \<Longrightarrow> is_upper (hd w)"
  by (auto simp: register_names_def numbered_def is_upper_def code_def)

lemma lower_word_lower: "\<not> is_upper (hd w) \<Longrightarrow> lower_word d w = w"
  using register_names_upper by (auto simp: lower_word_def)

lemma formatAsm_line: "nl \<notin> set s \<Longrightarrow> formatAsm s None = formatLine (collectDefinedSymbols s) s"
  by (simp add: formatAsm_def js_split_no_sep)

lemmas char_classes = is_ws_def is_word_char_def is_alpha_def is_upper_def is_lower_def is_digit_def code_def

lemmas run_format = formatLine_def splitOffComment_def js_trim_def classifyCode_def next_is_def define_start_def
  js_lower_def lower_char_def assignment_start_def name_start_def peel_labels.simps label_prefix_def label_start_def
  label_char_def not_ws_def formatInstruction_def INSTRUCTION_INDENT_def MNEMONIC_WIDTH_def padEnd_def attachComment_def
  lower_word_lower char_classes

lemma glued_req: "formatLine d ''loop_count .req x19'' = ''        loop_count.req x19''"
  by (simp add: run_format)

lemma glued_mnemonic:
  "formatLine d ''sqrdmulh v0, v1'' = ''        sqrdmulhv0, v1''" "formatLine d ''        sqrdmulhv0, v1'' = ''        sqrdmulhv0,v1''"
  by (simp_all add: run_format)

lemma char_s: "char_of (115 :: nat) = CHR ''s''"
proof -
  have "char_of (of_char (CHR ''s'') :: nat) = CHR ''s''" by (rule char_of_char)
  then show ?thesis by simp
qed

lemma renamed_alias: "formatLine d ''Sum .req d19'' = ''        sum     .req d19''"
  by (simp add: run_format replicate_small char_s)

lemma register_names_known: "''Sum'' \<notin> set register_names"
  by (auto simp: register_names_def numbered_def)

lemma kept_use: "formatLine d ''fmov d0, Sum'' = ''        fmov    d0, Sum''"
proof -
  have "lower_word d ''Sum'' = ''Sum''" using register_names_known by (simp add: lower_word_def)
  then show ?thesis by (simp add: run_format replicate_small char_s)
qed

text \<open>A first word of eight characters or more loses the blank after it, so that the line changes its
  meaning: a register alias of ten letters runs into its directive, a long mnemonic into its first
  operand, and formatting again changes the line once more.  An alias with a capital is renamed where
  it is defined and not where it is used.\<close>

theorem long_first_word_is_glued:
  "formatAsm ''loop_count .req x19'' None = ''        loop_count.req x19'' \<and>
   formatAsm ''sqrdmulh v0, v1'' None = ''        sqrdmulhv0, v1'' \<and>
   formatAsm (formatAsm ''sqrdmulh v0, v1'' None) None = ''        sqrdmulhv0,v1'' \<and>
   formatAsm ''Sum .req d19'' None = ''        sum     .req d19'' \<and> formatAsm ''fmov d0, Sum'' None = ''        fmov    d0, Sum''"
  by (simp add: formatAsm_line glued_req glued_mnemonic renamed_alias kept_use)

subsection \<open>Formatting twice\<close>

lemma code_inject: "code c = code d \<longleftrightarrow> c = d"
  by (simp add: code_def)

lemma code_lower:
  "code (lower_char c) = (if is_upper c \<or> (192 \<le> code c \<and> code c \<le> 222 \<and> code c \<noteq> 215) then code c + 32 else code c)"
  by (auto simp: lower_char_def is_upper_def code_def of_char_mod_256)

lemma lower_char_eq: "code x < 65 \<or> code x = 95 \<Longrightarrow> lower_char c = x \<longleftrightarrow> c = x"
  unfolding code_inject [symmetric] code_lower by (auto simp: is_upper_def)

lemma lower_char_classes [simp]:
  "is_ws (lower_char c) = is_ws c" "is_alpha (lower_char c) = is_alpha c" "is_word_char (lower_char c) = is_word_char c"
  "label_start (lower_char c) = label_start c" "label_char (lower_char c) = label_char c" "name_start (lower_char c) = name_start c"
  "lower_char (lower_char c) = lower_char c"
proof -
  show "is_ws (lower_char c) = is_ws c" by (auto simp: is_ws_def code_lower is_upper_def)
  show a: "is_alpha (lower_char c) = is_alpha c" by (auto simp: is_alpha_def is_upper_def is_lower_def code_lower)
  have d: "is_digit (lower_char c) = is_digit c" by (auto simp: is_digit_def is_upper_def code_lower)
  have e: "lower_char c = CHR ''_'' \<longleftrightarrow> c = CHR ''_''" "lower_char c = CHR ''.'' \<longleftrightarrow> c = CHR ''.''" "lower_char c = CHR ''$'' \<longleftrightarrow> c = CHR ''$''"
    by (simp_all add: lower_char_eq code_def)
  show w: "is_word_char (lower_char c) = is_word_char c" by (simp add: is_word_char_def a d e)
  show "label_start (lower_char c) = label_start c" "label_char (lower_char c) = label_char c" "name_start (lower_char c) = name_start c"
    by (simp_all add: label_start_def label_char_def name_start_def a w e)
  show "lower_char (lower_char c) = lower_char c" unfolding code_inject [symmetric] by (auto simp: code_lower is_upper_def)
qed

lemma js_lower_idem [simp]: "js_lower (js_lower s) = js_lower s"
  by (simp add: js_lower_def)

lemma lowercaseRegisters_first:
  "lowercaseRegisters d s = [] \<longleftrightarrow> s = []"
  "s \<noteq> [] \<Longrightarrow> is_word_char (hd (lowercaseRegisters d s)) = is_word_char (hd s)"
  "\<not> is_word_char x \<Longrightarrow> next_is x (lowercaseRegisters d s) = next_is x s"
proof -
  have w: "w \<noteq> [] \<Longrightarrow> lower_word d w \<noteq> [] \<and> is_word_char (hd (lower_word d w)) = is_word_char (hd w)" for w
    by (cases w) (auto simp: lower_word_def js_lower_def)
  show "lowercaseRegisters d s = [] \<longleftrightarrow> s = []" using w by (cases s) auto
  show f: "s \<noteq> [] \<Longrightarrow> is_word_char (hd (lowercaseRegisters d s)) = is_word_char (hd s)"
    using w by (cases s) (auto simp: hd_append)
  show "\<not> is_word_char x \<Longrightarrow> next_is x (lowercaseRegisters d s) = next_is x s"
  proof -
    assume x: "\<not> is_word_char x"
    show ?thesis
    proof (cases "s \<noteq> [] \<and> is_word_char (hd s)")
      case True
      then have "is_word_char (hd (lowercaseRegisters d s))" using f by blast
      then show ?thesis using True x by (auto simp: next_is_def)
    next
      case False
      then show ?thesis by (cases s) (auto simp: next_is_def)
    qed
  qed
qed

lemma lower_word_idem: "lower_word d (lower_word d w) = lower_word d w"
proof (cases "w \<in> set register_names \<and> w \<notin> set d")
  case True
  then have "is_upper (hd w)" "w \<noteq> []" using register_names_upper by (auto simp: register_names_def numbered_def)
  then have "\<not> is_upper (hd (js_lower w))" by (cases w) (auto simp: js_lower_def is_upper_def code_lower)
  then show ?thesis using True lower_word_lower by (simp add: lower_word_def)
next
  case False
  then have "lower_word d w = w" unfolding lower_word_def by (rule if_not_P)
  then show ?thesis by simp
qed

lemma lower_word_chars: "list_all is_word_char (lower_word d w) = list_all is_word_char w"
  by (simp add: lower_word_def js_lower_def list_all_iff)

lemma lowercaseRegisters_word:
  assumes "w \<noteq> []" "list_all is_word_char w" "s = [] \<or> \<not> is_word_char (hd s)"
  shows "lowercaseRegisters d (w @ s) = lower_word d w @ lowercaseRegisters d s"
proof -
  obtain c cs where w: "w = c # cs" using assms(1) by (cases w) auto
  have "takeWhile is_word_char (w @ s) = w" "dropWhile is_word_char (cs @ s) = s"
    using assms(2,3) w by (cases s; auto simp: list_all_iff takeWhile_append dropWhile_append)+
  then show ?thesis using w assms(2) by simp
qed

lemma lowercaseRegisters_idem: "lowercaseRegisters d (lowercaseRegisters d s) = lowercaseRegisters d s"
proof (induction d s rule: lowercaseRegisters.induct)
  case (2 d c cs)
  show ?case
  proof (cases "is_word_char c")
    case True
    let ?w = "takeWhile is_word_char (c # cs)" and ?s = "dropWhile is_word_char cs"
    have s: "?s = [] \<or> \<not> is_word_char (hd ?s)" using hd_dropWhile by blast
    have "list_all is_word_char ?w" using set_takeWhileD by (force simp: list_all_iff simp del: takeWhile.simps)
    then have "lower_word d ?w \<noteq> []" "list_all is_word_char (lower_word d ?w)"
      using True by (auto simp only: lower_word_chars) (simp add: lower_word_def js_lower_def split: if_splits)
    then have "lowercaseRegisters d (lower_word d ?w @ lowercaseRegisters d ?s) =
        lower_word d (lower_word d ?w) @ lowercaseRegisters d (lowercaseRegisters d ?s)"
      using s lowercaseRegisters_first [where d = d and s = "?s"] by (intro lowercaseRegisters_word) auto
    then show ?thesis using 2(1) True by (simp add: lower_word_idem)
  qed (use 2(2) in simp)
qed simp

text \<open>A line of code as its first word, the blanks after it, and the rest.\<close>

definition pieces :: "jstring \<Rightarrow> jstring \<Rightarrow> jstring \<Rightarrow> jstring \<Rightarrow> bool" where
  "pieces t m w ops \<longleftrightarrow>
     t = m @ w @ ops \<and> m \<noteq> [] \<and> list_all not_ws m \<and> list_all is_ws w \<and> (w = [] \<longleftrightarrow> ops = []) \<and>
     (ops \<noteq> [] \<longrightarrow> \<not> is_ws (hd ops) \<and> \<not> is_ws (last ops))"

lemma pieces_trim: "pieces t m w ops \<Longrightarrow> js_trim (list @ t) = t" if "list_all is_ws list" for list
proof -
  assume p: "pieces t m w ops"
  have d: "dropWhile is_ws (list @ t) = t"
    using that p by (cases m) (auto simp: pieces_def not_ws_def list_all_iff)
  have "t \<noteq> []" "\<not> is_ws (last t)" using p by (auto simp: pieces_def not_ws_def list_all_iff last_append)
  then have "dropWhile is_ws (rev t) = rev t" by (cases t rule: rev_cases) auto
  then show ?thesis unfolding js_trim_def d by simp
qed

lemma pieces_split:
  assumes "pieces t m w ops"
  shows "takeWhile not_ws t = m" "js_trim (drop 1 (dropWhile not_ws t)) = ops"
proof -
  have t: "t = m @ w @ ops" and m: "list_all not_ws m" and w: "list_all is_ws w" and e: "w = [] \<longleftrightarrow> ops = []"
    and o: "ops \<noteq> [] \<Longrightarrow> \<not> is_ws (hd ops) \<and> \<not> is_ws (last ops)"
    using assms by (auto simp: pieces_def)
  have r: "takeWhile not_ws (w @ ops) = []" "dropWhile not_ws (w @ ops) = w @ ops"
    using w e by (cases w; simp add: not_ws_def)+
  show "takeWhile not_ws t = m" unfolding t using m r by (simp add: takeWhile_append list_all_iff)
  have d: "dropWhile not_ws t = w @ ops" unfolding t using m r by (simp add: dropWhile_append list_all_iff)
  show "js_trim (drop 1 (dropWhile not_ws t)) = ops"
  proof (cases "ops = []")
    case True
    then show ?thesis unfolding d using e by simp
  next
    case False
    then obtain c w' where c: "w = c # w'" using e by (cases w) auto
    have "dropWhile is_ws (w' @ ops) = ops" using w c o [OF False] False by (cases ops) (auto simp: dropWhile_append list_all_iff)
    then show ?thesis unfolding d c using o [OF False] False by (cases ops rule: rev_cases) (auto simp: js_trim_def)
  qed
qed

lemma pieces_instruction:
  assumes "classifyCode src = Instruction k ops"
  obtains m w where "pieces (js_trim src) m w ops" "k = js_lower m"
proof -
  let ?t = "js_trim src"
  let ?m = "takeWhile not_ws ?t" and ?r = "dropWhile not_ws ?t"
  have t: "?t \<noteq> []" and k: "k = js_lower ?m" and ops: "ops = js_trim (drop 1 ?r)"
    using assms by (auto simp: classifyCode_def Let_def split: if_splits prod.splits list.splits)
  have ends: "not_ws (hd ?t)" "\<not> is_ws (last ?t)" using hd_js_trim [OF t] last_js_trim [OF t] by (simp_all add: not_ws_def)
  have m: "?m \<noteq> []" "list_all not_ws ?m" using t ends(1) by (cases ?t; simp) (auto simp: list_all_iff dest: set_takeWhileD)
  show thesis
  proof (cases ?r)
    case Nil
    then have "?t = ?m" by (metis append_Nil2 takeWhile_dropWhile_id)
    then have "pieces ?t ?m [] ops" using m ops Nil by (simp add: pieces_def)
    then show thesis using that k by blast
  next
    case (Cons c r)
    have c: "is_ws c" using Cons hd_dropWhile [of not_ws ?t] by (simp add: not_ws_def)
    have tr: "?t = ?m @ c # r" using Cons by (metis takeWhile_dropWhile_id)
    then have "r \<noteq> []" "\<not> is_ws (last r)" using ends(2) c by (metis last_appendR last_ConsL list.distinct(1), metis c ends(2) last_ConsL last_ConsR last_appendR list.distinct(1) tr)
    then have ne: "dropWhile is_ws r \<noteq> []" "\<not> is_ws (last (dropWhile is_ws r))"
      by (metis dropWhile_eq_Nil_conv last_in_set, metis dropWhile_eq_Nil_conv dropWhile_last last_in_set)
    have o: "ops = dropWhile is_ws r" unfolding ops Cons using ne
      by (cases "dropWhile is_ws r" rule: rev_cases) (auto simp: js_trim_def)
    have "pieces ?t ?m (c # takeWhile is_ws r) ops"
      using m c tr ne o hd_dropWhile [of is_ws r] by (auto simp: pieces_def list_all_iff dest: set_takeWhileD)
    then show thesis using that k by blast
  qed
qed

lemma lower_word_last: "w \<noteq> [] \<Longrightarrow> lower_word d w \<noteq> [] \<and> is_word_char (last (lower_word d w)) = is_word_char (last w)"
  by (auto simp: lower_word_def js_lower_def last_map)

lemma lowercaseRegisters_last:
  "s \<noteq> [] \<Longrightarrow> \<not> is_word_char x \<Longrightarrow> last (lowercaseRegisters d s) = x \<longleftrightarrow> last s = x"
proof (induction d s rule: lowercaseRegisters.induct)
  case (2 d c cs)
  show ?case
  proof (cases "is_word_char c")
    case True
    let ?w = "takeWhile is_word_char (c # cs)" and ?s = "dropWhile is_word_char cs"
    have split: "c # cs = ?w @ ?s" using True by simp
    have w: "?w \<noteq> []" "is_word_char (last ?w)" using True by (simp, metis True last_in_set list.distinct(1) set_takeWhileD takeWhile.simps(2))
    show ?thesis
    proof (cases "?s = []")
      case True
      then have "last (c # cs) = last ?w" by (metis append_Nil2 split)
      moreover have "lowercaseRegisters d (c # cs) = lower_word d ?w"
        unfolding lowercaseRegisters.simps(2) using \<open>is_word_char c\<close> True by (simp only: if_True lowercaseRegisters.simps(1) append_Nil2)
      ultimately show ?thesis using w lower_word_last [OF w(1), of d] "2.prems"(2) by metis
    next
      case False
      then have "last (c # cs) = last ?s" by (metis last_appendR split)
      then show ?thesis using False 2(1) [OF True False "2.prems"(2)] True lowercaseRegisters_first(1) [of d ?s] by simp
    qed
  next
    case False
    then show ?thesis using 2(2) [OF False _ "2.prems"(2)] lowercaseRegisters_first(1) [of d cs] by (cases "cs = []") auto
  qed
qed simp

lemma pieces_formatted:
  fixes d :: "jstring list"
  assumes "pieces t m w ops" "ops = [] \<or> length m < MNEMONIC_WIDTH"
  defines "t' \<equiv> js_lower m @ (if ops = [] then [] else replicate (MNEMONIC_WIDTH - length m) (CHR '' '')) @ lowercaseRegisters d ops"
  shows "pieces t' (js_lower m) (if ops = [] then [] else replicate (MNEMONIC_WIDTH - length m) (CHR '' '')) (lowercaseRegisters d ops)"
    "formatInstruction (js_lower m) ops d = INSTRUCTION_INDENT @ t'"
proof -
  let ?o = "lowercaseRegisters d ops"
  have ends: "\<not> is_ws (hd ?o) \<and> \<not> is_ws (last ?o)" if "ops \<noteq> []"
  proof -
    have nw: "is_ws c \<Longrightarrow> \<not> is_word_char c" for c by (auto simp: char_classes)
    have "\<not> is_ws (hd ops)" "\<not> is_ws (last ops)" "?o \<noteq> []" using assms(1) that lowercaseRegisters_first(1) by (auto simp: pieces_def)
    then show ?thesis using lowercaseRegisters_first(3) [OF nw, of "hd ?o" d ops] lowercaseRegisters_last [OF that nw, of "last ?o" d] that
      by (auto simp: next_is_def)
  qed
  have sp: "is_ws (CHR '' '')" by (simp add: char_classes)
  have "list_all not_ws (js_lower m)" using assms(1) by (simp add: pieces_def js_lower_def list_all_iff not_ws_def)
  then show "pieces t' (js_lower m) (if ops = [] then [] else replicate (MNEMONIC_WIDTH - length m) (CHR '' '')) ?o"
    using assms(1,2) ends sp lowercaseRegisters_first(1) [of d ops] by (auto simp: pieces_def t'_def js_lower_def list_all_iff)
  show "formatInstruction (js_lower m) ops d = INSTRUCTION_INDENT @ t'"
    using lowercaseRegisters_first(1) [of d ops] by (auto simp: formatInstruction_def t'_def Let_def padEnd_def js_lower_def)
qed

text \<open>A scan over a class of characters and the blanks after it ends in the rest of the line or within the first word.\<close>

lemma scan_pieces:
  assumes "pieces t m w ops" "\<And>c. is_ws c \<Longrightarrow> \<not> P c"
  shows "skip_space (dropWhile P t) = (if list_all P m then ops else dropWhile P m @ w @ ops)"
proof -
  have t: "t = m @ w @ ops" and m: "list_all not_ws m" and w: "list_all is_ws w" and e: "w = [] \<longleftrightarrow> ops = []"
    and o: "ops \<noteq> [] \<Longrightarrow> \<not> is_ws (hd ops)"
    using assms(1) by (auto simp: pieces_def)
  show ?thesis
  proof (cases "list_all P m")
    case True
    have "dropWhile P (w @ ops) = w @ ops" using w e assms(2) by (cases w) auto
    moreover have "skip_space (w @ ops) = ops" using w o by (cases ops) (auto simp: dropWhile_append list_all_iff)
    ultimately show ?thesis using True t by (simp add: dropWhile_append list_all_iff)
  next
    case False
    then obtain c r where c: "dropWhile P m = c # r" by (cases "dropWhile P m") (auto simp: list_all_iff dropWhile_eq_Nil_conv)
    then have "\<not> is_ws c" using m by (metis list.set_intros(1) list_all_iff not_ws_def set_dropWhileD)
    then show ?thesis using False t c by (auto simp: dropWhile_append list_all_iff)
  qed
qed

lemma dropWhile_lower: "(\<And>c. P (lower_char c) = P c) \<Longrightarrow> dropWhile P (js_lower m) = js_lower (dropWhile P m)"
  by (simp add: js_lower_def dropWhile_map comp_def)

lemma list_all_lower: "(\<And>c. P (lower_char c) = P c) \<Longrightarrow> list_all P (js_lower m) = list_all P m"
  by (simp add: js_lower_def list_all_iff)

lemma next_is_lower: "code x < 65 \<Longrightarrow> s \<noteq> [] \<Longrightarrow> next_is x (js_lower s @ r) = next_is x (s @ r')"
  by (cases s) (auto simp: next_is_def js_lower_def lower_char_eq)

lemma next_is_scan:
  assumes "pieces t m w ops" "pieces t' (js_lower m) w' ops'" "next_is x ops' = next_is x ops" "code x < 65"
    and "\<And>c. is_ws c \<Longrightarrow> \<not> P c" "\<And>c. P (lower_char c) = P c"
  shows "next_is x (skip_space (dropWhile P t')) = next_is x (skip_space (dropWhile P t))"
proof (cases "list_all P m")
  case True
  then show ?thesis using scan_pieces [OF assms(1,5)] scan_pieces [OF assms(2,5)] assms(3) list_all_lower [where P = P, OF assms(6)] by simp
next
  case False
  then have "dropWhile P m \<noteq> []" by (auto simp: list_all_iff dropWhile_eq_Nil_conv)
  then show ?thesis using False scan_pieces [OF assms(1,5)] scan_pieces [OF assms(2,5)] list_all_lower [where P = P, OF assms(6)]
      dropWhile_lower [where P = P, OF assms(6)] next_is_lower [OF assms(4)] by simp
qed

lemma hd_pieces: "pieces t m w ops \<Longrightarrow> hd t = hd m \<and> t \<noteq> []"
  by (auto simp: pieces_def)

lemma label_prefix_pieces:
  assumes "pieces t m w ops" "pieces t' (js_lower m) w' ops'" "next_is (CHR '':'') ops' = next_is (CHR '':'') ops"
  shows "label_prefix t' = None \<longleftrightarrow> label_prefix t = None"
proof -
  have ws: "is_ws c \<Longrightarrow> \<not> label_char c" for c by (auto simp: label_char_def char_classes)
  have "label_start (hd t') = label_start (hd t)"
    using hd_pieces [OF assms(1)] hd_pieces [OF assms(2)] assms(1) by (cases m) (auto simp: pieces_def js_lower_def)
  then show ?thesis using next_is_scan [OF assms(1-3) _ ws] hd_pieces [OF assms(1)] hd_pieces [OF assms(2)]
    by (simp add: label_prefix_def code_def)
qed

lemma assignment_pieces:
  assumes "pieces t m w ops" "pieces t' (js_lower m) w' (lowercaseRegisters d ops)"
  shows "assignment_start t' = assignment_start t"
proof -
  have ws: "is_ws c \<Longrightarrow> \<not> is_word_char c" for c by (auto simp: char_classes)
  have eq: "\<not> is_word_char (CHR ''='')" by (simp add: char_classes)
  have h: "name_start (hd t') = name_start (hd t)" "t \<noteq> []" "t' \<noteq> []"
    using hd_pieces [OF assms(1)] hd_pieces [OF assms(2)] assms(1) by (cases m; auto simp: pieces_def js_lower_def)+
  let ?tail = "\<lambda>r. next_is (CHR ''='') r \<and> tl r \<noteq> [] \<and> hd (tl r) \<noteq> CHR ''=''"
  have "?tail (skip_space (dropWhile is_word_char t')) = ?tail (skip_space (dropWhile is_word_char t))"
  proof (cases "list_all is_word_char m")
    case True
    have "?tail (lowercaseRegisters d ops) = ?tail ops"
    proof (cases "next_is (CHR ''='') ops")
      case True
      then obtain r where r: "ops = CHR ''='' # r" by (cases ops) (auto simp: next_is_def)
      then show ?thesis using eq lowercaseRegisters_first(1) [of d r] lowercaseRegisters_first(3) [OF eq, of d r]
        by (auto simp: next_is_def)
    next
      case False
      then show ?thesis using lowercaseRegisters_first(3) [OF eq] by blast
    qed
    then show ?thesis using True scan_pieces [OF assms(1) ws] scan_pieces [OF assms(2) ws] by (simp add: list_all_lower)
  next
    case False
    then obtain c r where c: "dropWhile is_word_char m = c # r"
      by (cases "dropWhile is_word_char m") (auto simp: list_all_iff dropWhile_eq_Nil_conv)
    have w: "w = [] \<longleftrightarrow> w' = []" "w \<noteq> [] \<Longrightarrow> is_ws (hd w) \<and> is_ws (hd w')" "w = [] \<Longrightarrow> ops = []"
      using assms lowercaseRegisters_first(1) [of d ops] by (auto simp: pieces_def list_all_iff)
    have "hd w \<noteq> CHR ''='' \<and> hd w' \<noteq> CHR ''=''" if "w \<noteq> []" using w(2) [OF that] by (auto simp: char_classes)
    then have "?tail (js_lower (c # r) @ w' @ lowercaseRegisters d ops) = ?tail ((c # r) @ w @ ops)"
      using w by (cases r; cases "w = []") (auto simp: next_is_def js_lower_def lower_char_eq code_def hd_append)
    then show ?thesis using False scan_pieces [OF assms(1) ws] scan_pieces [OF assms(2) ws] c
      by (simp add: list_all_lower dropWhile_lower)
  qed
  then show ?thesis unfolding assignment_start_def Let_def using h by simp
qed

lemma define_pieces:
  assumes "pieces t m w ops"
  shows "define_start t \<longleftrightarrow> js_lower (take 6 m) = ''define'' \<and> next_is (CHR ''('') (drop 6 m @ ops)"
proof (cases "length m < 6")
  case True
  have t: "t = m @ w @ ops" and w: "list_all is_ws w" and e: "w = [] \<longleftrightarrow> ops = []" using assms by (auto simp: pieces_def)
  have "length (js_lower (take 6 m)) < 6" using True by (simp add: js_lower_def)
  then have m: "js_lower (take 6 m) \<noteq> ''define''" by auto
  have "js_lower (take 6 t) \<noteq> ''define''"
  proof (cases w)
    case Nil
    then show ?thesis using t e m by simp
  next
    case (Cons c w')
    have "is_ws c" using w Cons by simp
    moreover have "c \<in> set (take 6 t)" using True t Cons by (cases "6 - length m") auto
    ultimately have "\<exists>x \<in> set (js_lower (take 6 t)). is_ws x" by (auto simp: js_lower_def)
    then show ?thesis by (auto simp: char_classes)
  qed
  then show ?thesis using m by (simp add: define_start_def)
next
  case False
  have t: "t = m @ w @ ops" and m: "list_all not_ws m" and w: "list_all is_ws w" and e: "w = [] \<longleftrightarrow> ops = []"
    and o: "ops \<noteq> [] \<Longrightarrow> \<not> is_ws (hd ops)"
    using assms by (auto simp: pieces_def)
  have "skip_space (drop 6 m @ w @ ops) = drop 6 m @ (if drop 6 m = [] then ops else w @ ops)"
  proof (cases "drop 6 m")
    case Nil
    have "skip_space (w @ ops) = ops" using w o by (cases ops) (auto simp: dropWhile_append list_all_iff)
    then show ?thesis using Nil by simp
  next
    case (Cons c r)
    then have "c \<in> set m" by (metis in_set_dropD list.set_intros(1))
    then show ?thesis using Cons m by (simp add: list_all_iff not_ws_def)
  qed
  then show ?thesis using False t by (cases "drop 6 m") (auto simp: define_start_def next_is_def)
qed

lemma define_pieces_lower:
  assumes "pieces t m w ops" "pieces t' (js_lower m) w' ops'" "next_is (CHR ''('') ops' = next_is (CHR ''('') ops"
  shows "define_start t' = define_start t"
proof -
  have "js_lower (take 6 (js_lower m)) = js_lower (take 6 m)" by (simp add: js_lower_def take_map comp_def)
  moreover have "next_is (CHR ''('') (drop 6 (js_lower m) @ ops') = next_is (CHR ''('') (drop 6 m @ ops)"
    using assms(3) by (cases "drop 6 m") (auto simp: js_lower_def drop_map next_is_def lower_char_eq code_def)
  ultimately show ?thesis using define_pieces [OF assms(1)] define_pieces [OF assms(2)] by simp
qed

lemma no_labels: "fst (peel_labels s) = [] \<longleftrightarrow> next_is (CHR ''.'') s \<or> label_prefix s = None"
  by (subst peel_labels.simps) (auto split: option.splits prod.splits)

lemma no_labels_rest: "fst (peel_labels s) = [] \<Longrightarrow> peel_labels s = ([], s)"
  by (subst peel_labels.simps, subst (asm) peel_labels.simps) (auto split: option.splits prod.splits if_splits)

lemma classify_instruction_iff:
  "classifyCode src = Instruction k ops \<longleftrightarrow>
     (let t = js_trim src in
      t \<noteq> [] \<and> \<not> next_is (CHR ''.'') t \<and> \<not> define_start t \<and> \<not> (assignment_start t \<and> last t \<noteq> CHR '':'') \<and>
      label_prefix t = None \<and> k = js_lower (takeWhile not_ws t) \<and> ops = js_trim (drop 1 (dropWhile not_ws t)))"
  using no_labels [of "js_trim src"]
  by (auto simp: classifyCode_def Let_def split: prod.splits list.splits if_splits)

lemma js_trim_pad: "list_all is_ws pre \<Longrightarrow> list_all is_ws post \<Longrightarrow> js_trim (pre @ s @ post) = js_trim s"
proof -
  assume w: "list_all is_ws pre" "list_all is_ws post"
  have pre: "js_trim (pre @ u) = js_trim u" for u using w(1) by (simp add: js_trim_def dropWhile_append list_all_iff)
  have "js_trim (s @ post) = js_trim s"
  proof (cases "list_all is_ws s")
    case True
    then have "skip_space (s @ post) = []" "skip_space s = []" using w(2) by (auto simp: list_all_iff dropWhile_eq_Nil_conv)
    then show ?thesis by (simp only: js_trim_def)
  next
    case False
    then have "skip_space (s @ post) = skip_space s @ post" by (auto simp: dropWhile_append list_all_iff)
    moreover have "dropWhile is_ws (rev post @ r) = dropWhile is_ws r" for r
      using w(2) by (simp add: dropWhile_append list_all_iff)
    ultimately show ?thesis by (simp only: js_trim_def rev_append)
  qed
  then show ?thesis using pre by simp
qed

lemma indent_blank: "list_all is_ws INSTRUCTION_INDENT"
  by (simp add: INSTRUCTION_INDENT_def char_classes)

lemma last_pieces:
  assumes "pieces t m w ops" "pieces t' (js_lower m) w' (lowercaseRegisters d ops)" 
  shows "last t' = CHR '':'' \<longleftrightarrow> last t = CHR '':''"
proof (cases "ops = []")
  case True
  then have "t = m" "t' = js_lower m" "m \<noteq> []" using assms by (auto simp: pieces_def)
  then show ?thesis by (simp add: js_lower_def last_map lower_char_eq code_def)
next
  case False
  then have "last t = last ops" "last t' = last (lowercaseRegisters d ops)"
    using assms lowercaseRegisters_first(1) [of d ops] by (auto simp: pieces_def)
  then show ?thesis using lowercaseRegisters_last [OF False, of "CHR '':''" d] by (simp add: char_classes)
qed

lemma formatted_instruction:
  assumes "classifyCode src = Instruction k ops" "ops = [] \<or> length k < MNEMONIC_WIDTH"
  obtains m w t' w' where "pieces (js_trim src) m w ops" "k = js_lower m"
    "formatInstruction k ops d = INSTRUCTION_INDENT @ t'" "pieces t' k w' (lowercaseRegisters d ops)"
    "classifyCode t' = Instruction k (lowercaseRegisters d ops)"
proof -
  let ?t = "js_trim src" and ?o = "lowercaseRegisters d ops"
  obtain m w where p: "pieces ?t m w ops" and k: "k = js_lower m" using pieces_instruction [OF assms(1)] .
  then have "ops = [] \<or> length m < MNEMONIC_WIDTH" using assms(2) by (simp add: js_lower_def)
  from pieces_formatted [OF p this, of d] obtain t' w' where
    p': "pieces t' (js_lower m) w' ?o" and f: "formatInstruction k ops d = INSTRUCTION_INDENT @ t'" using k by blast
  have c: "?t \<noteq> []" "\<not> next_is (CHR ''.'') ?t" "\<not> define_start ?t" "\<not> (assignment_start ?t \<and> last ?t \<noteq> CHR '':'')" "label_prefix ?t = None"
    using assms(1) unfolding classify_instruction_iff by (auto simp: Let_def)
  have n: "next_is (CHR '':'') ?o = next_is (CHR '':'') ops" "next_is (CHR ''('') ?o = next_is (CHR ''('') ops"
    by (rule lowercaseRegisters_first(3), simp add: char_classes)+
  have dot: "\<not> next_is (CHR ''.'') t'"
    using c(2) hd_pieces [OF p] hd_pieces [OF p'] p by (cases m) (auto simp: next_is_def pieces_def js_lower_def lower_char_eq code_def)
  have trim: "js_trim t' = t'" using pieces_trim [of "[]", OF _ p'] by simp
  have "classifyCode t' = Instruction k ?o"
    unfolding classify_instruction_iff Let_def trim
    using dot hd_pieces [OF p'] define_pieces_lower [OF p p' n(2)] assignment_pieces [OF p p'] last_pieces [OF p p']
      label_prefix_pieces [OF p p' n(1)] c pieces_split [OF p'] k by simp
  then show thesis using that p k f p' by blast
qed

text \<open>A label as the scan accepts it, and the text a stack of labels is written as.\<close>

definition label_word :: "jstring \<Rightarrow> bool" where
  "label_word l \<longleftrightarrow> l \<noteq> [] \<and> label_start (hd l) \<and> hd l \<noteq> CHR ''.'' \<and> list_all label_char l"

lemma label_char_class: "label_start c \<Longrightarrow> label_char c" "label_char c \<Longrightarrow> \<not> is_ws c \<and> c \<noteq> CHR '':'' \<and> c \<noteq> CHR ''('' \<and> c \<noteq> CHR ''=''"
  by (auto simp: label_start_def label_char_def char_classes)

lemma label_prefix_built:
  assumes "label_word l" "list_all is_ws gap" "u = [] \<or> \<not> is_ws (hd u)"
  shows "label_prefix (l @ CHR '':'' # gap @ u) = Some (l, u)"
proof -
  have l: "list_all label_char l" "l \<noteq> []" using assms(1) by (auto simp: label_word_def)
  have colon: "\<not> label_char (CHR '':'')" "\<not> is_ws (CHR '':'')" by (auto simp: label_char_def char_classes)
  have "takeWhile label_char (l @ CHR '':'' # gap @ u) = l" "dropWhile label_char (l @ CHR '':'' # gap @ u) = CHR '':'' # gap @ u"
    using l colon by (auto simp: takeWhile_append dropWhile_append list_all_iff)
  moreover have "skip_space (gap @ u) = u" using assms(2,3) by (cases u) (auto simp: dropWhile_append list_all_iff)
  ultimately show ?thesis using assms(1) l colon by (simp add: label_prefix_def next_is_def label_word_def)
qed

lemma peel_labels_built:
  assumes "list_all label_word (ls @ [l])" "list_all is_ws gap" "u = [] \<or> \<not> is_ws (hd u)" "peel_labels u = ([], u)"
  shows "peel_labels (concat (map (\<lambda>l. l @ '':    '') ls) @ l @ CHR '':'' # gap @ u) = (ls @ [l], u)"
  using assms(1)
proof (induction ls)
  case Nil
  then show ?case using label_prefix_built [OF _ assms(2,3), of l] assms(4)
    by (subst peel_labels.simps) (simp add: next_is_def label_word_def)
next
  case (Cons k ls)
  let ?r = "concat (map (\<lambda>l. l @ '':    '') ls) @ l @ CHR '':'' # gap @ u"
  have "hd ?r = hd (hd (ls @ [l]))" "?r \<noteq> []" "label_word (hd (ls @ [l]))"
    using Cons.prems by (cases ls; auto simp: label_word_def)+
  then have "\<not> is_ws (hd ?r)" using label_char_class by (auto simp: label_word_def)
  then have "label_prefix (k @ CHR '':'' # ''    '' @ ?r) = Some (k, ?r)"
    using Cons.prems by (intro label_prefix_built) (auto simp: char_classes)
  then show ?case using Cons by (subst peel_labels.simps) (simp add: next_is_def label_word_def)
qed

lemma label_prefix_word:
  assumes "label_prefix s = Some (l, r)" "\<not> next_is (CHR ''.'') s"
  shows "label_word l" "r = [] \<or> \<not> is_ws (hd r)"
proof -
  have s: "s \<noteq> []" "label_start (hd s)" "l = takeWhile label_char s" "r = skip_space (tl (skip_space (dropWhile label_char s)))"
    using assms(1) by (auto simp: label_prefix_def split: if_splits)
  then show "label_word l" using assms(2) label_char_class(1)
    by (cases s) (auto simp: label_word_def next_is_def list_all_iff dest: set_takeWhileD)
  show "r = [] \<or> \<not> is_ws (hd r)" using s(4) hd_dropWhile by blast
qed

lemma peel_labels_words:
  assumes "peel_labels s = (ls, r)"
  shows "list_all label_word ls \<and> peel_labels r = ([], r) \<and> (ls \<noteq> [] \<longrightarrow> r = [] \<or> \<not> is_ws (hd r))"
  using assms
proof (induction s arbitrary: ls r rule: peel_labels.induct)
  case (1 s)
  show ?case
  proof (cases "fst (peel_labels s) = []")
    case True
    then show ?thesis using no_labels_rest [OF True] 1(2) by auto
  next
    case False
    then obtain l r' where p: "\<not> next_is (CHR ''.'') s" "label_prefix s = Some (l, r')" using no_labels by auto
    obtain ls' where q: "peel_labels r' = (ls', r)" "ls = l # ls'" using 1(2) p
      by (subst (asm) peel_labels.simps) (auto simp: apfst_eq split: prod.splits)
    show ?thesis using 1(1) [OF p refl q(1)] label_prefix_word [OF p(2,1)] q no_labels_rest [of r'] by (cases ls') auto
  qed
qed

lemma label_line_class:
  assumes "label_word l"
  shows "\<not> next_is (CHR ''.'') (l @ CHR '':'' # x)" "\<not> define_start (l @ CHR '':'' # x)" "\<not> assignment_start (l @ CHR '':'' # x)"
proof -
  let ?s = "l @ CHR '':'' # x"
  have l: "l \<noteq> []" "list_all label_char l" using assms by (auto simp: label_word_def)
  show "\<not> next_is (CHR ''.'') ?s" using assms by (auto simp: label_word_def next_is_def)
  have stop: "next_is y (skip_space (v @ CHR '':'' # x)) = next_is y (v @ CHR '':'' # x)" if "list_all label_char v" for v y
    using that label_char_class by (cases v) (auto simp: char_classes)
  have other: "\<not> next_is y (v @ CHR '':'' # x)" if "list_all label_char v" "y \<in> {CHR ''('', CHR ''=''}" for v y
    using that label_char_class by (cases v) (auto simp: next_is_def)
  show "\<not> define_start ?s"
  proof (cases "length l < 6")
    case True
    then have "CHR '':'' \<in> set (take 6 ?s)" by (cases "6 - length l") auto
    then have "lower_char (CHR '':'') \<in> set (js_lower (take 6 ?s))" by (auto simp: js_lower_def)
    moreover have "lower_char (CHR '':'') = CHR '':''" by (simp add: lower_char_def char_classes)
    ultimately have "js_lower (take 6 ?s) \<noteq> ''define''" by auto
    then show ?thesis by (simp add: define_start_def)
  next
    case False
    have "list_all label_char (drop 6 l)" using l(2) by (auto simp: list_all_iff dest: in_set_dropD)
    then show ?thesis using False stop other by (simp add: define_start_def)
  qed
  have "\<not> is_word_char (CHR '':'')" by (simp add: char_classes)
  then have "dropWhile is_word_char ?s = dropWhile is_word_char l @ CHR '':'' # x"
    by (auto simp: dropWhile_append dropWhile_eq_Nil_conv)
  moreover have "list_all label_char (dropWhile is_word_char l)" using l(2) by (auto simp: list_all_iff dest: set_dropWhileD)
  ultimately show "\<not> assignment_start ?s" using stop other by (simp add: assignment_start_def Let_def)
qed

text \<open>Reading code character by character: outside a string, after a slash, in a string, after a backslash in it,
  or in a comment.\<close>

datatype quoting = Outside | Slash | Quoted | Escaped | Comment

fun quote_step :: "char \<Rightarrow> quoting \<Rightarrow> quoting" where
  "quote_step c Comment = Comment"
| "quote_step c Escaped = Quoted"
| "quote_step c Quoted = (if c = bslash then Escaped else if c = quote then Outside else Quoted)"
| "quote_step c Slash =
     (if c = quote then Quoted else if c = CHR ''/'' \<or> c = CHR '';'' then Comment else Outside)"
| "quote_step c Outside =
     (if c = quote then Quoted else if c = CHR '';'' then Comment else if c = CHR ''/'' then Slash else Outside)"

abbreviation in_string :: "bool \<Rightarrow> quoting" where
  "in_string b \<equiv> (if b then Quoted else Outside)"

definition comment_text :: "jstring \<Rightarrow> bool" where
  "comment_text c \<longleftrightarrow> starts_with ''//'' c \<or> next_is (CHR '';'') c"

lemma fold_Comment [simp]: "fold quote_step s Comment = Comment"
  by (induction s) auto

lemma slash_step: "d \<noteq> CHR ''/'' \<Longrightarrow> fold quote_step (d # cs) Slash = fold quote_step (d # cs) Outside"
  by simp

lemma split_comment_pair:
  obtains (escape) "b" "c = bslash" "split_comment b (c # d # cs) = apfst (\<lambda>t. c # d # t) (split_comment b cs)"
    | (quotes) "c = quote" "split_comment b (c # d # cs) = apfst ((#) c) (split_comment (\<not> b) (d # cs))"
    | (inside) "b" "c \<noteq> quote" "c \<noteq> bslash" "split_comment b (c # d # cs) = apfst ((#) c) (split_comment b (d # cs))"
    | (comment) "\<not> b" "c = CHR ''/'' \<and> d = CHR ''/'' \<or> c = CHR '';''" "split_comment b (c # d # cs) = ([], Some (c # d # cs))"
    | (slash) "\<not> b" "c = CHR ''/''" "d \<noteq> CHR ''/''" "split_comment b (c # d # cs) = apfst ((#) c) (split_comment b (d # cs))"
    | (plain) "\<not> b" "quote_step c Outside = Outside" "split_comment b (c # d # cs) = apfst ((#) c) (split_comment b (d # cs))"
proof (cases "b")
  case True
  then show thesis using escape quotes inside by (cases "c = bslash"; cases "c = quote") simp_all
next
  case b: False
  show thesis
  proof (cases "c = quote")
    case True
    then show thesis using b quotes by simp
  next
    case q: False
    show thesis
    proof (cases "c = CHR ''/''")
      case True
      then show thesis using b q comment slash by (cases "d = CHR ''/''") simp_all
    next
      case False
      then show thesis using b q comment plain by (cases "c = CHR '';''") simp_all
    qed
  qed
qed

lemma split_comment_none: "fold quote_step s (in_string b) \<noteq> Comment \<Longrightarrow> split_comment b s = (s, None)"
proof (induction s arbitrary: b rule: length_induct)
  case (1 s)
  then have ih: "length t < length s \<Longrightarrow> fold quote_step t (in_string b) \<noteq> Comment \<Longrightarrow> split_comment b t = (t, None)" for t b
    by blast
  consider "s = []" | c where "s = [c]" | c d cs where "s = c # d # cs" by (cases s; cases "tl s") auto
  then show ?case
  proof cases
    case (3 c d cs)
    show ?thesis
    proof (cases rule: split_comment_pair [of b c d cs])
      case escape
      then show ?thesis using ih [of cs b] 1(2) 3 by simp
    next
      case quotes
      then show ?thesis using ih [of "d # cs" "\<not> b"] 1(2) 3 by (cases b) simp_all
    next
      case inside
      then show ?thesis using ih [of "d # cs" b] 1(2) 3 by simp
    next
      case comment
      then show ?thesis using 1(2) 3 by auto
    next
      case slash
      have "fold quote_step (d # cs) Outside \<noteq> Comment" using slash(1,2) slash_step [OF slash(3), of cs] 1(2) 3 by simp
      then show ?thesis using slash ih [of "d # cs" b] 3 by (simp del: fold_simps)
    next
      case plain
      then show ?thesis using ih [of "d # cs" b] 1(2) 3 by simp
    qed
  qed (use 1(2) in \<open>auto split: if_splits\<close>)
qed

lemma split_comment_reads:
  assumes "split_comment b s = (a, k)"
  shows "case k of None \<Rightarrow> fold quote_step a (in_string b) \<noteq> Comment
    | Some c \<Rightarrow> fold quote_step a (in_string b) \<in> {Outside, Slash} \<and> comment_text c"
  using assms
proof (induction s arbitrary: b a k rule: length_induct)
  case (1 s)
  let ?P = "\<lambda>b a k. case k of None \<Rightarrow> fold quote_step a (in_string b) \<noteq> Comment
    | Some c \<Rightarrow> fold quote_step a (in_string b) \<in> {Outside, Slash} \<and> comment_text c"
  have ih: "length t < length s \<Longrightarrow> split_comment b t = (a, k) \<Longrightarrow> ?P b a k" for t b a k using 1(1) by blast
  consider "s = []" | c where "s = [c]" | c d cs where "s = c # d # cs" by (cases s; cases "tl s") auto
  then show ?case
  proof cases
    case 2
    then show ?thesis using 1(2) by (auto simp: comment_text_def next_is_def split: if_splits)
  next
    case (3 c d cs)
    show ?thesis
    proof (cases rule: split_comment_pair [of b c d cs])
      case escape
      then obtain x where "a = c # d # x" "split_comment b cs = (x, k)" using 1(2) 3 by (auto simp: apfst_eq)
      then show ?thesis using ih [of cs b x k] escape(1,2) 3 by (simp split: option.splits)
    next
      case quotes
      then obtain x where "a = c # x" "split_comment (\<not> b) (d # cs) = (x, k)" using 1(2) 3 by (auto simp: apfst_eq)
      then show ?thesis using ih [of "d # cs" "\<not> b" x k] quotes(1) 3 by (cases b) (simp_all split: option.splits)
    next
      case inside
      then obtain x where "a = c # x" "split_comment b (d # cs) = (x, k)" using 1(2) 3 by (auto simp: apfst_eq)
      then show ?thesis using ih [of "d # cs" b x k] inside(1-3) 3 by (simp split: option.splits)
    next
      case comment
      then show ?thesis using 1(2) 3 by (auto simp: comment_text_def next_is_def)
    next
      case slash
      then obtain x where x: "a = c # x" "split_comment b (d # cs) = (x, k)" using 1(2) 3 by (auto simp: apfst_eq)
      then have "d # cs = x @ (case k of None \<Rightarrow> [] | Some c \<Rightarrow> c)" by (intro split_comment_parts)
      then consider "x = []" | y where "x = d # y" by (cases x) auto
      then have "fold quote_step x Slash = (if x = [] then Slash else fold quote_step x Outside)"
        by cases (use slash(3) in simp_all)
      then show ?thesis using ih [of "d # cs" b x k] x slash(1-3) 3 by (auto split: option.splits if_splits)
    next
      case plain
      then obtain x where "a = c # x" "split_comment b (d # cs) = (x, k)" using 1(2) 3 by (auto simp: apfst_eq)
      then show ?thesis using ih [of "d # cs" b x k] plain(1,2) 3 by (simp split: option.splits)
    qed
  qed (use 1(2) in auto)
qed

lemma split_comment_appended:
  assumes "fold quote_step y (in_string b) = Outside" "comment_text c"
  shows "split_comment b (y @ c) = (y, Some c)"
  using assms(1)
proof (induction y arbitrary: b rule: length_induct)
  case (1 y)
  then have ih: "length t < length y \<Longrightarrow> fold quote_step t (in_string b) = Outside \<Longrightarrow> split_comment b (t @ c) = (t, Some c)" for t b
    by blast
  show ?case
  proof (cases y)
    case Nil
    then have b: "\<not> b" using 1(2) by (cases b) simp_all
    have "c = [CHR '';''] \<or> (\<exists>x xs. c = CHR '';'' # x # xs) \<or> (\<exists>xs. c = CHR ''/'' # CHR ''/'' # xs)"
    proof (cases c)
      case (Cons x xs)
      then show ?thesis using assms(2) by (cases xs) (auto simp: comment_text_def next_is_def)
    qed (use assms(2) in \<open>auto simp: comment_text_def next_is_def\<close>)
    then show ?thesis using b Nil by auto
  next
    case e: (Cons e y')
    have "c \<noteq> []" using assms(2) by (auto simp: comment_text_def next_is_def)
    then obtain d cs where d: "y' @ c = d # cs" by (cases "y' @ c") auto
    then have yc: "y @ c = e # d # cs" using e by simp
    show ?thesis
    proof (cases rule: split_comment_pair [of b e d cs])
      case escape
      then obtain z where "y' = d # z" "cs = z @ c" using d e 1(2) by (cases y') auto
      then show ?thesis using ih [of z b] escape 1(2) e yc by simp
    next
      case quotes
      then show ?thesis using ih [of y' "\<not> b"] 1(2) e d yc by (cases b) simp_all
    next
      case inside
      then show ?thesis using ih [of y' b] 1(2) e d yc by simp
    next
      case comment
      then have "fold quote_step y (in_string b) \<noteq> Outside" using d e by (cases y') auto
      then show ?thesis using 1(2) by simp
    next
      case slash
      then obtain z where z: "y' = d # z" using d e 1(2) by (cases y') auto
      have "fold quote_step y' Outside = Outside" using slash(1,2) slash_step [OF slash(3), of z] 1(2) e z by simp
      then show ?thesis using slash ih [of y' b] e d yc by simp
    next
      case plain
      then show ?thesis using ih [of y' b] 1(2) e d yc by simp
    qed
  qed
qed

text \<open>Blanks and the case of letters do not matter to the reading.\<close>

definition after_blank :: "quoting \<Rightarrow> quoting" where
  "after_blank q = (case q of Slash \<Rightarrow> Outside | Escaped \<Rightarrow> Quoted | q \<Rightarrow> q)"

lemma quote_step_blank: "is_ws c \<Longrightarrow> quote_step c q = after_blank q"
  by (cases q) (auto simp: after_blank_def char_classes)

lemma after_blank_idem [simp]: "after_blank (after_blank q) = after_blank q"
  by (cases q) (auto simp: after_blank_def)

lemma fold_blank: "list_all is_ws w \<Longrightarrow> fold quote_step w q = (if w = [] then q else after_blank q)"
  by (induction w arbitrary: q) (auto simp: quote_step_blank)

lemma quote_step_lower: "quote_step (lower_char c) q = quote_step c q"
proof -
  have "lower_char c = bslash \<longleftrightarrow> c = bslash"
    unfolding code_inject [symmetric] code_lower by (auto simp: code_def is_upper_def)
  then show ?thesis by (cases q) (simp_all add: lower_char_eq code_def)
qed

lemma fold_lower: "fold quote_step (js_lower s) q = fold quote_step s q"
  by (induction s arbitrary: q) (simp_all add: js_lower_def quote_step_lower)

lemma fold_lowercaseRegisters: "fold quote_step (lowercaseRegisters d s) q = fold quote_step s q"
proof (induction d s arbitrary: q rule: lowercaseRegisters.induct)
  case (2 d c cs)
  show ?case
  proof (cases "is_word_char c")
    case True
    let ?w = "takeWhile is_word_char (c # cs)"
    have "fold quote_step (lower_word d ?w) q = fold quote_step ?w q" for q by (simp only: lower_word_def fold_lower split: if_split) simp
    moreover have "fold quote_step (c # cs) q = fold quote_step (dropWhile is_word_char cs) (fold quote_step ?w q)"
      using True by (metis comp_apply dropWhile.simps(2) fold_append takeWhile_dropWhile_id)
    ultimately show ?thesis using 2(1) [OF True] True unfolding lowercaseRegisters.simps if_P [OF True] fold_append comp_apply by metis
  qed (use 2(2) in simp)
qed simp

lemma fold_pieces:
  assumes "pieces t m w ops" "pieces t' (js_lower m) w' (lowercaseRegisters d ops)"
  shows "fold quote_step t' q = fold quote_step t q"
  using assms lowercaseRegisters_first(1) [of d ops] by (auto simp: pieces_def fold_lower fold_lowercaseRegisters fold_blank)

lemma fold_label: "label_word l \<Longrightarrow> fold quote_step l Outside = Outside"
proof -
  have "list_all label_char l \<Longrightarrow> fold quote_step l Outside = Outside"
    by (induction l) (auto simp: label_char_def char_classes)
  then show "label_word l \<Longrightarrow> ?thesis" by (simp add: label_word_def)
qed

lemma fold_label_prefix:
  assumes "label_prefix s = Some (l, r)" "\<not> next_is (CHR ''.'') s"
  shows "fold quote_step s Outside = fold quote_step r Outside"
proof -
  let ?a = "dropWhile label_char s"
  let ?b = "skip_space ?a"
  have b: "next_is (CHR '':'') ?b" "l = takeWhile label_char s" "r = skip_space (tl ?b)"
    using assms(1) by (auto simp: label_prefix_def split: if_splits)
  have w: "list_all is_ws (takeWhile is_ws x)" for x by (auto simp: list_all_iff dest: set_takeWhileD)
  have blank: "fold quote_step x Outside = fold quote_step (skip_space x) Outside" for x
  proof -
    have "fold quote_step (takeWhile is_ws x) Outside = Outside" using fold_blank [OF w] by (auto simp: after_blank_def)
    then show ?thesis by (metis comp_apply fold_append takeWhile_dropWhile_id)
  qed
  have "fold quote_step l Outside = Outside" using fold_label [OF label_prefix_word(1) [OF assms]] .
  then have "fold quote_step s Outside = fold quote_step ?a Outside" using b(2) by (metis comp_apply fold_append takeWhile_dropWhile_id)
  also have "\<dots> = fold quote_step ?b Outside" by (rule blank)
  also have "\<dots> = fold quote_step (tl ?b) Outside" using b(1) by (cases ?b) (auto simp: next_is_def)
  also have "\<dots> = fold quote_step r Outside" unfolding b(3) by (rule blank)
  finally show ?thesis .
qed

lemma fold_peel_labels: "peel_labels s = (ls, r) \<Longrightarrow> fold quote_step s Outside = fold quote_step r Outside"
proof (induction s arbitrary: ls r rule: peel_labels.induct)
  case (1 s)
  show ?case
  proof (cases "fst (peel_labels s) = []")
    case True
    then show ?thesis using no_labels_rest [OF True] 1(2) by auto
  next
    case False
    then obtain l r' where p: "\<not> next_is (CHR ''.'') s" "label_prefix s = Some (l, r')" using no_labels by auto
    obtain ls' where "peel_labels r' = (ls', r)" using 1(2) p
      by (subst (asm) peel_labels.simps) (auto simp: apfst_eq split: prod.splits)
    then show ?thesis using 1(1) [OF p refl] fold_label_prefix [OF p(2,1)] by simp
  qed
qed

text \<open>A first word with something after it fits the column of mnemonics.\<close>

definition word_fits :: "CodeShape \<Rightarrow> bool" where
  "word_fits cls = (case cls of Instruction m ops \<Rightarrow> ops = [] \<or> length m < MNEMONIC_WIDTH | _ \<Rightarrow> True)"

definition code_fits :: "jstring \<Rightarrow> bool" where
  "code_fits src = (case classifyCode src of LabelRest ls rest \<Rightarrow> word_fits (classifyCode rest) | cls \<Rightarrow> word_fits cls)"

lemma classify_trim: "classifyCode (js_trim s) = classifyCode s"
  by (simp add: classifyCode_def js_trim_idem)

text \<open>The layout of code without labels, up to its indent.\<close>

definition laid_out :: "jstring list \<Rightarrow> jstring \<Rightarrow> jstring \<Rightarrow> bool" where
  "laid_out d src u \<longleftrightarrow>
     u \<noteq> [] \<and> js_trim u = u \<and> peel_labels u = ([], u) \<and> formatShape (classifyCode u) d = formatShape (classifyCode src) d \<and>
     fold quote_step u Outside = fold quote_step (js_trim src) Outside \<and> formatShape (classifyCode src) d \<in> {u, INSTRUCTION_INDENT @ u}"

lemma plain_layout:
  assumes "js_trim src \<noteq> []" "peel_labels (js_trim src) = ([], js_trim src)" "word_fits (classifyCode src)"
  obtains u where "laid_out d src u"
proof (cases "\<exists>k ops. classifyCode src = Instruction k ops")
  case True
  then obtain k ops where i: "classifyCode src = Instruction k ops" by blast
  then have "ops = [] \<or> length k < MNEMONIC_WIDTH" using assms(3) by (simp add: word_fits_def)
  from formatted_instruction [OF i this, of d] obtain m w t' w' where
    f: "pieces (js_trim src) m w ops" "k = js_lower m" "formatInstruction k ops d = INSTRUCTION_INDENT @ t'"
       "pieces t' k w' (lowercaseRegisters d ops)" "classifyCode t' = Instruction k (lowercaseRegisters d ops)" .
  have t: "js_trim t' = t'" using pieces_trim [of "[]", OF _ f(4)] by simp
  have "label_prefix t' = None" using f(5) t unfolding classify_instruction_iff by (simp add: Let_def)
  then have "peel_labels t' = ([], t')" using no_labels no_labels_rest by blast
  moreover have "formatShape (classifyCode t') d = formatShape (classifyCode src) d"
    using f(5) i by (simp add: formatInstruction_def lowercaseRegisters_idem)
  ultimately show thesis
    using that [of t'] t f i fold_pieces [OF f(1) f(4) [unfolded f(2)]] hd_pieces [OF f(4)] by (simp add: laid_out_def)
next
  case False
  then have "formatShape (classifyCode src) d = js_trim src"
    using assms(1,2) by (auto simp: classifyCode_def Let_def split: if_splits)
  then show thesis using that [of "js_trim src"] assms(1,2) by (simp add: laid_out_def js_trim_idem classify_trim)
qed

lemma peel_labels_suffix: "peel_labels s = (ls, r) \<Longrightarrow> \<exists>p. s = p @ r"
proof (induction s arbitrary: ls r rule: peel_labels.induct)
  case (1 s)
  show ?case
  proof (cases "fst (peel_labels s) = []")
    case True
    then show ?thesis using no_labels_rest [OF True] 1(2) by auto
  next
    case False
    then obtain l r' where p: "\<not> next_is (CHR ''.'') s" "label_prefix s = Some (l, r')" using no_labels by auto
    obtain ls' where "peel_labels r' = (ls', r)" using 1(2) p
      by (subst (asm) peel_labels.simps) (auto simp: apfst_eq split: prod.splits)
    then obtain q where "r' = q @ r" using 1(1) [OF p refl] by blast
    moreover have "r' = skip_space (tl (skip_space (dropWhile label_char s)))"
      using p(2) by (auto simp: label_prefix_def split: if_splits)
    moreover have "x = takeWhile P x @ dropWhile P x" for P and x :: jstring by simp
    moreover have "x = take 1 x @ tl x" for x :: jstring by (cases x) auto
    ultimately have "s = takeWhile label_char s @ takeWhile is_ws (dropWhile label_char s) @ take 1 (skip_space (dropWhile label_char s)) @
        takeWhile is_ws (tl (skip_space (dropWhile label_char s))) @ q @ r" by metis
    then show ?thesis by (metis append.assoc)
  qed
qed

abbreviation label_stack :: "jstring list \<Rightarrow> jstring" where
  "label_stack ls \<equiv> concat (map (\<lambda>l. l @ '':    '') ls)"

lemma classify_labelled:
  assumes "list_all label_word (ls @ [l])" "list_all is_ws gap" "peel_labels u = ([], u)" "js_trim u = u" "u = [] \<longrightarrow> gap = []"
  defines "s \<equiv> label_stack ls @ l @ CHR '':'' # gap @ u"
  shows "classifyCode s = (if u = [] \<and> ls = [] then LabelOnly l else LabelRest (ls @ [l]) u)" "s \<noteq> []" "js_trim s = s"
    "fold quote_step s Outside = fold quote_step u Outside"
proof -
  have ends: "u = [] \<or> \<not> is_ws (hd u) \<and> \<not> is_ws (last u)" using hd_js_trim [of u] last_js_trim [of u] assms(4) by auto
  obtain k x where k: "label_word k" "s = k @ CHR '':'' # x" using assms(1) unfolding s_def by (cases ls) auto
  have hd: "s \<noteq> []" "\<not> is_ws (hd s)" using k label_char_class by (auto simp: label_word_def)
  have "\<not> is_ws (CHR '':'')" by (simp add: char_classes)
  then have "\<not> is_ws (last s)" using ends assms(5) by (auto simp: s_def)
  then show trim: "js_trim s = s" using hd js_trim_id by blast
  show "s \<noteq> []" using hd by simp
  have p: "peel_labels s = (ls @ [l], u)" unfolding s_def using assms(1-3) ends by (intro peel_labels_built) auto
  show "fold quote_step s Outside = fold quote_step u Outside" by (rule fold_peel_labels [OF p])
  show "classifyCode s = (if u = [] \<and> ls = [] then LabelOnly l else LabelRest (ls @ [l]) u)"
    using label_line_class [OF k(1), of x] hd p trim by (cases ls) (simp_all add: classifyCode_def k(2) Let_def)
qed

lemma label_head_layout:
  assumes "u \<noteq> []" "js_trim u = u" "tail \<in> {u, INSTRUCTION_INDENT @ u}"
  obtains gap where "label_head l tail = l @ CHR '':'' # gap @ u" "list_all is_ws gap"
proof -
  have "\<not> is_ws (hd u)" using hd_js_trim [of u] assms by simp
  then have "\<not> starts_with INSTRUCTION_INDENT u" using assms(1) by (cases u) (auto simp: INSTRUCTION_INDENT_def char_classes)
  then show thesis using assms that [of "''    ''"] that [of "'' ''"]
    by (auto simp: label_head_def INSTRUCTION_INDENT_def char_classes)
qed

lemma format_labelled:
  "labels \<noteq> [] \<Longrightarrow> formatShape (if rest = [] \<and> length labels = 1 then LabelOnly (hd labels) else LabelRest labels rest) d =
     label_stack (butlast labels) @ label_head (last labels) (if rest \<noteq> [] then formatShape (classifyCode rest) d else [])"
  by (cases labels) (auto simp: label_head_def INSTRUCTION_INDENT_def)

definition settled :: "jstring list \<Rightarrow> jstring \<Rightarrow> jstring \<Rightarrow> bool" where
  "settled d src f \<longleftrightarrow>
     js_trim f \<noteq> [] \<and> formatShape (classifyCode f) d = f \<and> fold quote_step f Outside = fold quote_step (js_trim src) Outside"

lemma labelled_settled:
  assumes peel: "peel_labels (js_trim src) = (ls @ [l], rest)"
    and cls: "classifyCode src = (if rest = [] \<and> ls = [] then LabelOnly l else LabelRest (ls @ [l]) rest)"
    and fits: "code_fits src"
  shows "settled d src (formatShape (classifyCode src) d)"
proof -
  note words = peel_labels_words [OF peel]
  let ?tail = "if rest \<noteq> [] then formatShape (classifyCode rest) d else []"
  have f: "formatShape (classifyCode src) d = label_stack ls @ label_head l ?tail"
    using format_labelled [of "ls @ [l]" rest d] cls by (cases ls) auto
  show ?thesis
  proof (cases "rest = []")
    case True
    have "formatShape (classifyCode src) d = label_stack ls @ l @ CHR '':'' # [] @ []"
      using f True by (simp add: label_head_def INSTRUCTION_INDENT_def)
    then show ?thesis
      using classify_labelled [of ls l "[]" "[]"] words True cls fold_peel_labels [OF peel]
      by (auto simp: settled_def label_head_def INSTRUCTION_INDENT_def)
  next
    case False
    obtain p where "js_trim src = p @ rest" using peel_labels_suffix [OF peel] by blast
    then have "\<not> is_ws (last rest)" using False last_js_trim [of src] by auto
    then have trim: "js_trim rest = rest" using words False by (intro js_trim_id) auto
    have "word_fits (classifyCode rest)" using fits cls False by (simp add: code_fits_def)
    then obtain u where u: "laid_out d rest u" using plain_layout [of rest d] words trim False by auto
    then obtain gap where gap: "label_head l ?tail = l @ CHR '':'' # gap @ u" "list_all is_ws gap"
      using label_head_layout [of u ?tail l] False by (auto simp: laid_out_def)
    let ?s = "label_stack ls @ l @ CHR '':'' # gap @ u"
    have s: "classifyCode ?s = LabelRest (ls @ [l]) u" "?s \<noteq> []" "js_trim ?s = ?s" "fold quote_step ?s Outside = fold quote_step u Outside"
      using classify_labelled [of ls l gap u] words gap(2) u by (auto simp: laid_out_def)
    have "formatShape (classifyCode ?s) d = ?s" unfolding s(1) using gap(1) u False by (simp add: laid_out_def)
    then show ?thesis using s f gap(1) u trim fold_peel_labels [OF peel] by (simp add: settled_def laid_out_def)
  qed
qed

lemma plain_text:
  "classifyCode src = Directive t \<or> classifyCode src = Define t \<or> classifyCode src = Assignment t \<Longrightarrow> t = js_trim src"
  by (auto simp: classifyCode_def Let_def split: if_splits prod.splits list.splits)

lemma plain_settled:
  assumes "js_trim src \<noteq> []" "formatShape (classifyCode src) d = js_trim src"
  shows "settled d src (formatShape (classifyCode src) d)"
  using assms by (simp add: settled_def classify_trim)

lemma code_settled:
  assumes "js_trim src \<noteq> []" "code_fits src"
  shows "settled d src (formatShape (classifyCode src) d)"
proof (cases "classifyCode src")
  case (LabelOnly l)
  then have "peel_labels (js_trim src) = ([] @ [l], [])"
    by (auto simp: classifyCode_def Let_def length_Suc_conv split: if_splits prod.splits list.splits)
  from labelled_settled [OF this _ assms(2)] LabelOnly show ?thesis by simp
next
  case (LabelRest labels rest)
  then have p: "peel_labels (js_trim src) = (labels, rest)" "labels \<noteq> []" "\<not> (rest = [] \<and> length labels = 1)"
    by (auto simp: classifyCode_def Let_def split: if_splits prod.splits list.splits)
  then obtain ls l where "labels = ls @ [l]" by (cases labels rule: rev_cases) auto
  then show ?thesis using labelled_settled [of src ls l rest d] p LabelRest assms(2) by (cases "rest = []") auto
next
  case (Instruction k ops)
  then have p: "peel_labels (js_trim src) = ([], js_trim src)"
    using no_labels no_labels_rest unfolding classify_instruction_iff Let_def by blast
  have "word_fits (classifyCode src)" using assms(2) Instruction by (simp add: code_fits_def)
  then obtain u where u: "laid_out d src u" using plain_layout [OF assms(1) p] by blast
  have "js_trim (INSTRUCTION_INDENT @ u) = js_trim u" using js_trim_pad [OF indent_blank, of "[]" u] by simp
  moreover from this have "classifyCode (INSTRUCTION_INDENT @ u) = classifyCode u" by (metis classify_trim)
  moreover have "fold quote_step (INSTRUCTION_INDENT @ u) Outside = fold quote_step u Outside"
    using fold_blank [OF indent_blank, of Outside] by (simp add: after_blank_def)
  ultimately show ?thesis using u unfolding settled_def laid_out_def by auto
next
  case Blank
  then show ?thesis using assms(1) by (auto simp: classifyCode_def Let_def split: if_splits prod.splits list.splits)
qed (rule plain_settled [OF assms(1)]; use plain_text in fastforce)+

definition line_fits :: "jstring \<Rightarrow> bool" where
  "line_fits raw = code_fits (fst (splitOffComment raw))"

lemma formatLine_code:
  "js_trim src \<noteq> [] \<Longrightarrow> splitOffComment raw = (src, comment) \<Longrightarrow> js_trim raw \<noteq> [] \<Longrightarrow>
     formatLine d raw = attachComment (formatShape (classifyCode src) d) comment"
  by (auto simp: formatLine_def classifyCode_def Let_def split: CodeShape.splits if_splits prod.splits list.splits)

lemma formatLine_no_code:
  "js_trim src = [] \<Longrightarrow> splitOffComment raw = (src, comment) \<Longrightarrow>
     formatLine d raw = (if js_trim raw = [] then [] else case comment of None \<Rightarrow> [] | Some c \<Rightarrow> c)"
  by (auto simp: formatLine_def classifyCode_def)

lemma comment_text_trim: "comment_text c \<Longrightarrow> comment_text (js_trim c) \<and> js_trim c \<noteq> []"
proof -
  assume c: "comment_text c"
  then obtain x xs where x: "c = x # xs" "\<not> is_ws x" by (cases c) (auto simp: comment_text_def next_is_def char_classes)
  have "\<not> is_ws (CHR ''/'')" by (simp add: char_classes)
  then have *: "js_trim (a # b # r) = a # js_trim_end" if "\<not> is_ws a" "\<not> is_ws b" "js_trim_end = b # rev (dropWhile is_ws (rev r))" for a b r js_trim_end
    using that by (auto simp: js_trim_def dropWhile_append dropWhile_eq_Nil_conv)
  have "js_trim (a # r) = a # rev (dropWhile is_ws (rev r))" if "\<not> is_ws a" for a r
    using that by (auto simp: js_trim_def dropWhile_append dropWhile_eq_Nil_conv)
  then show ?thesis using c x * \<open>\<not> is_ws (CHR ''/'')\<close> by (cases xs) (auto simp: comment_text_def next_is_def)
qed

lemma js_trim_nil: "js_trim s = [] \<longleftrightarrow> list_all is_ws s"
proof
  assume "js_trim s = []"
  then have "\<forall>c \<in> set (skip_space s). is_ws c" by (simp add: js_trim_def dropWhile_eq_Nil_conv)
  then have "skip_space s = []" using hd_dropWhile [of is_ws s] by (metis hd_in_set)
  then show "list_all is_ws s" by (simp add: list_all_iff dropWhile_eq_Nil_conv)
next
  assume "list_all is_ws s"
  then have "skip_space s = []" by (simp add: list_all_iff dropWhile_eq_Nil_conv)
  then show "js_trim s = []" unfolding js_trim_def by (simp only: rev.simps dropWhile.simps)
qed

lemma fold_trim:
  assumes "fold quote_step s Outside = q" "q \<noteq> Comment"
  shows "after_blank (fold quote_step (js_trim s) Outside) = after_blank q \<and> fold quote_step (js_trim s) Outside \<noteq> Comment"
proof -
  obtain pre post where s: "s = pre @ js_trim s @ post" "list_all is_ws pre" "list_all is_ws post"
  proof -
    let ?r = "skip_space s"
    have "s = takeWhile is_ws s @ js_trim s @ rev (takeWhile is_ws (rev ?r))"
      unfolding js_trim_def by (metis rev_append rev_rev_ident takeWhile_dropWhile_id)
    moreover have "list_all is_ws (takeWhile is_ws x)" for x by (auto simp: list_all_iff dest: set_takeWhileD)
    ultimately show thesis using that by (metis list_all_rev)
  qed
  have "fold quote_step s Outside = fold quote_step post (fold quote_step (js_trim s) (fold quote_step pre Outside))"
    by (subst s(1)) simp
  also have "fold quote_step pre Outside = Outside" using fold_blank [OF s(2), of Outside] by (auto simp: after_blank_def)
  finally have q: "q = (if post = [] then fold quote_step (js_trim s) Outside else after_blank (fold quote_step (js_trim s) Outside))"
    using assms(1) fold_blank [OF s(3)] by simp
  have "after_blank Comment = Comment" by (simp add: after_blank_def)
  then show ?thesis using assms(2) q by (auto split: if_splits)
qed

lemma formatLine_twice:
  assumes "line_fits raw"
  shows "formatLine d (formatLine d raw) = formatLine d raw"
proof -
  obtain src comment where sp: "splitOffComment raw = (src, comment)" by fastforce
  note reads = split_comment_reads [OF sp [unfolded splitOffComment_def]]
  have nil: "formatLine d [] = []" by (simp add: formatLine_def js_trim_def)
  show ?thesis
  proof (cases "js_trim src = []")
    case True
    show ?thesis
    proof (cases comment)
      case (Some c)
      then have c: "comment_text c" using reads by simp
      then have "splitOffComment c = ([], Some c)" using split_comment_appended [of "[]" False c] by (simp add: splitOffComment_def)
      then have "formatLine d c = c" using formatLine_no_code [of "[]" c "Some c" d] comment_text_trim [OF c] js_trim_nil [of "[]"] by simp
      then show ?thesis using formatLine_no_code [OF True sp, of d] Some nil by simp
    qed (use formatLine_no_code [OF True sp, of d] nil in simp)
  next
    case False
    let ?f = "formatShape (classifyCode src) d"
    have "code_fits src" using assms sp by (simp add: line_fits_def)
    then have f: "js_trim ?f \<noteq> []" "formatShape (classifyCode ?f) d = ?f" "fold quote_step ?f Outside = fold quote_step (js_trim src) Outside"
      using code_settled [OF False] by (auto simp: settled_def)
    have "js_trim raw \<noteq> []" using False split_comment_parts [OF sp [unfolded splitOffComment_def]] by (auto simp: js_trim_nil list_all_iff)
    then have once: "formatLine d raw = attachComment ?f comment" using formatLine_code [OF False sp] by simp
    show ?thesis
    proof (cases comment)
      case None
      then have "splitOffComment ?f = (?f, None)"
        using reads fold_trim [of src] f(3) split_comment_none [of ?f False] by (simp add: splitOffComment_def)
      then show ?thesis using once None formatLine_code [OF f(1) _ f(1), of None d] f(2) by (simp add: attachComment_def)
    next
      case (Some c)
      let ?gap = "replicate (max COMMENT_COLUMN (length ?f + 1) - length ?f) (CHR '' '')"
      have c: "comment_text c" and q: "fold quote_step src Outside \<in> {Outside, Slash}" using reads Some by auto
      note ct = comment_text_trim [OF c]
      have gap: "list_all is_ws ?gap" "?gap \<noteq> []" by (auto simp: list_all_iff char_classes)
      have "after_blank (fold quote_step ?f Outside) = Outside"
        using q fold_trim [OF refl, of src] f(3) by (auto simp: after_blank_def)
      then have "fold quote_step (?f @ ?gap) Outside = Outside" using fold_blank [OF gap(1)] gap(2) by simp
      then have s: "splitOffComment (?f @ ?gap @ js_trim c) = (?f @ ?gap, Some (js_trim c))"
        using split_comment_appended [of "?f @ ?gap" False "js_trim c"] ct by (simp add: splitOffComment_def)
      have t: "js_trim (?f @ ?gap) = js_trim ?f" using js_trim_pad [of "[]" ?gap ?f] gap(1) by simp
      then have "classifyCode (?f @ ?gap) = classifyCode ?f" by (metis classify_trim)
      moreover have "?f \<noteq> []" "js_trim (?f @ ?gap @ js_trim c) \<noteq> []" using f(1) by (auto simp: js_trim_nil list_all_iff)
      ultimately show ?thesis using once Some formatLine_code [OF _ s, of d] f t by (simp add: attachComment_def)
    qed
  qed
qed

text \<open>C23: formatting twice changes nothing: when every first word that something follows is shorter than the
  column of mnemonics, and the formatted source defines the same names, formatting the formatted source
  gives it back, comments, strings and stacked labels included.\<close>

theorem formatting_twice:
  assumes "list_all line_fits (js_split nl source)"
    and "defined = None \<Longrightarrow> collectDefinedSymbols (formatAsm source None) = collectDefinedSymbols source"
  shows "formatAsm (formatAsm source defined) defined = formatAsm source defined"
proof -
  define k where "k = (case defined of None \<Rightarrow> collectDefinedSymbols source | Some d \<Rightarrow> d)"
  define f where "f = map (formatLine k) (js_split nl source)"
  have "nl \<notin> set w" if "w \<in> set (js_split nl source)" for w using that by (rule js_split_parts)
  then have split: "js_split nl (js_join [nl] f) = f" unfolding f_def by (intro js_split_join) (auto simp: nl_formatLine)
  have once: "formatAsm source defined = js_join [nl] f" by (simp add: formatAsm_def Let_def f_def k_def)
  have "(case defined of None \<Rightarrow> collectDefinedSymbols (formatAsm source defined) | Some d \<Rightarrow> d) = k"
    using assms(2) by (cases defined) (simp_all add: k_def)
  moreover have "map (formatLine k) f = f" using assms(1) by (simp add: list_all_iff formatLine_twice f_def)
  ultimately show ?thesis unfolding formatAsm_def [of "formatAsm source defined"] Let_def by (simp add: once split)
qed

lemma pad_33: "replicate 33 c = [c, c, c, c, c, c, c, c, c, c, c, c, c, c, c, c, c, c, c, c, c, c, c, c, c, c, c, c, c, c, c, c, c]"
  by (simp add: numeral_eq_Suc)

lemma labelled_line: "formatLine d ''L1:ret // end'' = ''L1: ret                                 // end''"
  by (simp add: run_format label_head_def COMMENT_COLUMN_def pad_33)

lemma labelled_line_names:
  "collectDefinedSymbols ''L1:ret // end'' = [''L1'']"
  "collectDefinedSymbols ''L1: ret                                 // end'' = [''L1'']"
  by (simp_all add: collectDefinedSymbols_def js_split_no_sep line_names_def label_name_def define_name_def assign_name_def
      req_name_def run_format)

lemma labelled_line_fits: "line_fits ''L1:ret // end''"
  by (simp add: line_fits_def code_fits_def word_fits_def run_format)

theorem formatting_twice_witness:
  "formatAsm ''L1:ret // end'' None = ''L1: ret                                 // end'' \<and>
   formatAsm (formatAsm ''L1:ret // end'' None) None = ''L1: ret                                 // end''"
proof -
  have once: "formatAsm ''L1:ret // end'' None = ''L1: ret                                 // end''"
    by (simp add: formatAsm_line labelled_line)
  then show ?thesis
    using formatting_twice [of "''L1:ret // end''" None] labelled_line_names labelled_line_fits by (simp add: js_split_no_sep)
qed

end
