(* ===== verification/LineComment.thy ===== *)
theory LineComment
  imports Prelude
begin

text \<open>
  Toggling line comments in the plain text editor: \<open>web/lib/asm/line-comment.ts\<close>.  \<open>lastIndexOf\<close> takes a
  start below zero as zero, as the language has it.
\<close>

definition LINE_COMMENT :: jstring where "LINE_COMMENT = ''//''"

record LineCommentToggle =
  lt_text :: jstring
  lt_selStart :: nat
  lt_selEnd :: nat

definition lastIndexOf :: "char \<Rightarrow> jstring \<Rightarrow> int \<Rightarrow> int" where
  "lastIndexOf c s k =
     (case filter (\<lambda>i. s ! i = c) [0 ..< min (length s) (nat (max 0 k) + 1)] of [] \<Rightarrow> -1 | xs \<Rightarrow> int (last xs))"

definition indexOf :: "char \<Rightarrow> jstring \<Rightarrow> nat \<Rightarrow> int" where
  "indexOf c s k = (case filter (\<lambda>i. s ! i = c) [k ..< length s] of [] \<Rightarrow> -1 | x # _ \<Rightarrow> int x)"

definition trimStart :: "jstring \<Rightarrow> jstring" where
  "trimStart s = dropWhile is_ws s"

definition lead :: "jstring \<Rightarrow> nat" where
  "lead s = length s - length (trimStart s)"

definition commentLines :: "jstring list \<Rightarrow> jstring list \<Rightarrow> jstring list" where
  "commentLines ls nonBlank =
     (let indent = Min (set (map lead nonBlank)) in
      map (\<lambda>l. if length (js_trim l) = 0 then l else take indent l @ LINE_COMMENT @ '' '' @ drop indent l) ls)"

definition uncommentLine :: "jstring \<Rightarrow> jstring" where
  "uncommentLine line =
     (let rest = drop (lead line) line in
      if \<not> starts_with LINE_COMMENT rest then line
      else let body = drop (length LINE_COMMENT) rest in
        take (lead line) line @ (if starts_with '' '' body then drop 1 body else body))"

definition block_start :: "jstring \<Rightarrow> int \<Rightarrow> int \<Rightarrow> nat" where
  "block_start text selStart selEnd =
     (let from = max 0 (min (min selStart selEnd) (int (length text))) in nat (lastIndexOf (CHR 0x0A) text (from - 1) + 1))"

definition block_end :: "jstring \<Rightarrow> int \<Rightarrow> int \<Rightarrow> nat" where
  "block_end text selStart selEnd =
     (let to = min (int (length text)) (max (max selStart selEnd) 0); nextNewline = indexOf (CHR 0x0A) text (nat to) in
      if nextNewline = -1 then length text else nat nextNewline)"

definition all_commented :: "jstring list \<Rightarrow> bool" where
  "all_commented ls =
     (let nonBlank = filter (\<lambda>l. length (js_trim l) > 0) ls in
      length nonBlank > 0 \<and> list_all (\<lambda>l. starts_with LINE_COMMENT (trimStart l)) nonBlank)"

definition toggle_block :: "jstring \<Rightarrow> jstring" where
  "toggle_block block =
     (let ls = js_split (CHR 0x0A) block in
      js_join [CHR 0x0A]
        (if all_commented ls then map uncommentLine ls else commentLines ls (filter (\<lambda>l. length (js_trim l) > 0) ls)))"

definition toggleLineComment :: "jstring \<Rightarrow> int \<Rightarrow> int \<Rightarrow> LineCommentToggle" where
  "toggleLineComment text selStart selEnd =
     (let blockStart = block_start text selStart selEnd;
          blockEnd = block_end text selStart selEnd;
          newBlock = toggle_block (js_slice text blockStart blockEnd) in
      \<lparr>lt_text = take blockStart text @ newBlock @ drop blockEnd text,
       lt_selStart = blockStart, lt_selEnd = blockStart + length newBlock\<rparr>)"

subsection \<open>Lines\<close>

abbreviation nonblank :: "jstring list \<Rightarrow> jstring list" where
  "nonblank \<equiv> filter (\<lambda>l. length (js_trim l) > 0)"

lemma js_trim_blank: "js_trim l = [] \<longleftrightarrow> trimStart l = []"
proof
  assume t: "js_trim l = []"
  show "trimStart l = []"
  proof (rule ccontr)
    assume ne: "trimStart l \<noteq> []"
    then have "hd (trimStart l) \<in> set (trimStart l)" "\<not> is_ws (hd (trimStart l))"
      unfolding trimStart_def using hd_dropWhile hd_in_set by blast+
    moreover have "\<forall>c \<in> set (trimStart l). is_ws c" using t by (simp add: js_trim_def trimStart_def dropWhile_eq_Nil_conv)
    ultimately show False by blast
  qed
next
  assume "trimStart l = []"
  then show "js_trim l = []" unfolding js_trim_def trimStart_def by (simp only: rev.simps dropWhile.simps)
qed

lemma trimStart_at:
  assumes "i \<le> lead l"
  shows "list_all is_ws (take i l)"
proof -
  have "length (takeWhile is_ws l) = lead l"
    unfolding lead_def trimStart_def by (metis add_diff_cancel_right' length_append takeWhile_dropWhile_id)
  then have "take i l = take i (takeWhile is_ws l)"
    using assms by (metis nat_le_linear take_all_iff take_append diff_is_0_eq take_0 append_Nil2 takeWhile_dropWhile_id)
  then show ?thesis by (auto simp: list_all_iff dest!: in_set_takeD set_takeWhileD)
qed

lemma trimStart_pad: "list_all is_ws p \<Longrightarrow> \<not> is_ws c \<Longrightarrow> trimStart (p @ c # r) = c # r"
  by (simp add: trimStart_def dropWhile_append list_all_iff)

lemma commented_line:
  assumes "i \<le> lead l"
  defines "l' \<equiv> take i l @ LINE_COMMENT @ '' '' @ drop i l"
  shows "starts_with LINE_COMMENT (trimStart l')" "js_trim l' \<noteq> []" "uncommentLine l' = l"
proof -
  have s: "\<not> is_ws (CHR ''/'')" by (simp add: is_ws_def code_def)
  have t: "trimStart l' = LINE_COMMENT @ '' '' @ drop i l"
    unfolding l'_def LINE_COMMENT_def using trimStart_pad [OF trimStart_at [OF assms(1)] s] by simp
  then show "starts_with LINE_COMMENT (trimStart l')" "js_trim l' \<noteq> []" by (simp_all add: js_trim_blank LINE_COMMENT_def)
  have "i \<le> length l" using assms(1) by (simp add: lead_def)
  then have "lead l' = i" unfolding lead_def t by (simp add: l'_def LINE_COMMENT_def)
  then show "uncommentLine l' = l" using \<open>i \<le> length l\<close> by (simp add: uncommentLine_def l'_def LINE_COMMENT_def Let_def)
qed

lemma uncomment_blank: "js_trim l = [] \<Longrightarrow> uncommentLine l = l"
  by (simp add: uncommentLine_def lead_def js_trim_blank LINE_COMMENT_def)

lemma nonblank_map:
  "(\<And>l. l \<in> set xs \<Longrightarrow> js_trim l \<noteq> [] \<Longrightarrow> js_trim (c l) \<noteq> []) \<Longrightarrow>
     nonblank (map (\<lambda>l. if js_trim l = [] then l else c l) xs) = map c (nonblank xs)"
  by (induction xs) auto

lemma commentLines_undone:
  assumes "nonblank ls \<noteq> []"
  shows "all_commented (commentLines ls (nonblank ls))" "map uncommentLine (commentLines ls (nonblank ls)) = ls"
proof -
  let ?i = "Min (set (map lead (nonblank ls)))"
  let ?c = "\<lambda>l. take ?i l @ LINE_COMMENT @ '' '' @ drop ?i l"
  have i: "?i \<le> lead l" if "l \<in> set ls" "js_trim l \<noteq> []" for l using that by (intro Min_le) auto
  have out: "commentLines ls (nonblank ls) = map (\<lambda>l. if js_trim l = [] then l else ?c l) ls"
    by (simp add: commentLines_def Let_def)
  show "map uncommentLine (commentLines ls (nonblank ls)) = ls"
    unfolding out map_map comp_def using commented_line(3) [OF i] uncomment_blank by (intro map_idI) auto
  have nb: "nonblank (commentLines ls (nonblank ls)) = map ?c (nonblank ls)"
    unfolding out by (rule nonblank_map) (rule commented_line(2) [OF i])
  show "all_commented (commentLines ls (nonblank ls))"
    unfolding all_commented_def nb Let_def using assms commented_line(1) [OF i] by (auto simp: list_all_iff)
qed

subsection \<open>The lines of a selection\<close>

abbreviation nl :: char where "nl \<equiv> CHR 0x0A"

lemma lastIndexOf_cases:
  obtains (none) "lastIndexOf c s k = -1" "\<And>i. i < length s \<Longrightarrow> int i \<le> max 0 k \<Longrightarrow> s ! i \<noteq> c"
    | (found) j where "lastIndexOf c s k = int j" "j < length s" "int j \<le> max 0 k" "s ! j = c"
        "\<And>i. j < i \<Longrightarrow> i < length s \<Longrightarrow> int i \<le> max 0 k \<Longrightarrow> s ! i \<noteq> c"
proof -
  let ?n = "min (length s) (nat (max 0 k) + 1)"
  let ?f = "filter (\<lambda>i. s ! i = c) [0 ..< ?n]"
  have mem: "i \<in> set ?f \<longleftrightarrow> i < length s \<and> int i \<le> max 0 k \<and> s ! i = c" for i by auto
  show thesis
  proof (cases ?f rule: rev_cases)
    case Nil
    then have "lastIndexOf c s k = -1" by (simp add: lastIndexOf_def)
    moreover have "s ! i \<noteq> c" if "i < length s" "int i \<le> max 0 k" for i using that mem [of i] Nil by (metis empty_iff list.set(1))
    ultimately show thesis using none by blast
  next
    case (snoc ys j)
    have at: "lastIndexOf c s k = int j" unfolding lastIndexOf_def snoc by (cases ys) auto
    have "j \<in> set ?f" unfolding snoc by simp
    then have m: "j < length s" "int j \<le> max 0 k" "s ! j = c" unfolding mem by auto
    have mono: "i \<le> j" if "i \<in> set ?f" for i
    proof -
      have "sorted ?f" by (simp add: sorted_wrt_filter)
      then show ?thesis using that unfolding snoc by (auto simp: sorted_append)
    qed
    have none: "s ! i \<noteq> c" if "j < i" "i < length s" "int i \<le> max 0 k" for i using that mono [of i] unfolding mem by linarith
    show thesis by (rule found [OF at m none])
  qed
qed

lemma indexOf_cases:
  obtains (none) "indexOf c s k = -1" "\<And>i. k \<le> i \<Longrightarrow> i < length s \<Longrightarrow> s ! i \<noteq> c"
    | (found) j where "indexOf c s k = int j" "k \<le> j" "j < length s" "s ! j = c" "\<And>i. k \<le> i \<Longrightarrow> i < j \<Longrightarrow> s ! i \<noteq> c"
proof -
  let ?f = "filter (\<lambda>i. s ! i = c) [k ..< length s]"
  have mem: "i \<in> set ?f \<longleftrightarrow> k \<le> i \<and> i < length s \<and> s ! i = c" for i by auto
  show thesis
  proof (cases ?f)
    case Nil
    then have "indexOf c s k = -1" by (simp add: indexOf_def)
    then show thesis using none mem Nil by (metis empty_iff list.set(1))
  next
    case (Cons j ys)
    have at: "indexOf c s k = int j" unfolding indexOf_def Cons by simp
    have "j \<in> set ?f" unfolding Cons by simp
    then have m: "k \<le> j" "j < length s" "s ! j = c" unfolding mem by auto
    have mono: "j \<le> i" if "i \<in> set ?f" for i
    proof -
      have "sorted ?f" by (simp add: sorted_wrt_filter)
      then show ?thesis using that unfolding Cons by auto
    qed
    have none: "s ! i \<noteq> c" if "k \<le> i" "i < j" for i using that mono [of i] m(2) unfolding mem by linarith
    show thesis by (rule found [OF at m none])
  qed
qed

text \<open>The one selection that has no lines of its own: the caret before an empty first line.\<close>

definition caret_before_empty_line :: "jstring \<Rightarrow> int \<Rightarrow> int \<Rightarrow> bool" where
  "caret_before_empty_line text a b \<longleftrightarrow> text \<noteq> [] \<and> hd text = nl \<and> a \<le> 0 \<and> b \<le> 0"

definition whole_lines :: "jstring \<Rightarrow> nat \<Rightarrow> nat \<Rightarrow> bool" where
  "whole_lines text i j \<longleftrightarrow>
     i \<le> j \<and> j \<le> length text \<and> (if i = 0 then text = [] \<or> hd text \<noteq> nl else text ! (i - 1) = nl) \<and> (j < length text \<longrightarrow> text ! j = nl)"

lemma block_whole_lines:
  assumes "\<not> caret_before_empty_line text a b"
  shows "whole_lines text (block_start text a b) (block_end text a b)"
proof -
  define n where "n = int (length text)"
  define lo where "lo = max 0 (min (min a b) n)"
  define hi where "hi = min n (max (max a b) 0)"
  have r: "0 \<le> lo" "lo \<le> hi" "hi \<le> n" by (auto simp: lo_def hi_def n_def)
  have e: "int (block_end text a b) \<ge> hi" "block_end text a b \<le> length text"
    "block_end text a b < length text \<Longrightarrow> text ! block_end text a b = nl"
    unfolding block_end_def Let_def n_def [symmetric] hi_def [symmetric]
    by (cases rule: indexOf_cases [of nl "text" "nat hi"]; use r n_def in auto)+
  have bs: "block_start text a b = nat (lastIndexOf nl text (lo - 1) + 1)"
    by (simp add: block_start_def lo_def n_def Let_def)
  have first: "text \<noteq> [] \<Longrightarrow> hd text = nl \<Longrightarrow> 0 < hi"
    using assms by (auto simp: caret_before_empty_line_def hi_def n_def)
  show ?thesis
  proof (cases rule: lastIndexOf_cases [of nl "text" "lo - 1"])
    case none
    then have "text = [] \<or> hd text \<noteq> nl" using none(2) [of 0] by (cases "text") auto
    then show ?thesis using none(1) bs e by (simp add: whole_lines_def)
  next
    case (found j)
    have "int (j + 1) \<le> hi"
    proof (cases "lo = 0")
      case True
      then have "j = 0" using found(3) by simp
      then show ?thesis using first found(2,4) by (cases "text") auto
    qed (use found(3) r in auto)
    then show ?thesis using found(1,4) bs e by (auto simp: whole_lines_def nat_add_distrib)
  qed
qed

lemma block_of_whole_lines:
  assumes "whole_lines text i j"
  shows "block_start text (int i) (int j) = i" "block_end text (int i) (int j) = j"
proof -
  have w: "i \<le> j" "j \<le> length text" "j < length text \<longrightarrow> text ! j = nl"
    and s: "if i = 0 then text = [] \<or> hd text \<noteq> nl else text ! (i - 1) = nl"
    using assms by (auto simp: whole_lines_def)
  show "block_end text (int i) (int j) = j"
  proof (cases rule: indexOf_cases [of nl "text" j])
    case none
    then have "j = length text" using w none(2) [of j] by force
    then show ?thesis using none(1) w(1) by (simp add: block_end_def Let_def)
  next
    case (found k)
    then have "k = j" using w found(5) [of j] by force
    then show ?thesis using found(1) w(1,2) by (simp add: block_end_def Let_def)
  qed
  have "block_start text (int i) (int j) = nat (lastIndexOf nl text (int i - 1) + 1)"
    using w by (simp add: block_start_def Let_def min_def max_def)
  also have "\<dots> = i"
  proof (cases rule: lastIndexOf_cases [of nl "text" "int i - 1"])
    case none
    then show ?thesis using s w none(2) [of "i - 1"] by (cases "i = 0") auto
  next
    case (found k)
    show ?thesis
    proof (cases "i = 0")
      case True
      then show ?thesis using found s by (cases "text") auto
    next
      case False
      then have "\<not> k < i - 1" using found(5) [of "i - 1"] s w by fastforce
      then show ?thesis using found(1,3) False by auto
    qed
  qed
  finally show "block_start text (int i) (int j) = i" .
qed

subsection \<open>Toggling twice\<close>

lemma js_split_first: "block \<noteq> [] \<Longrightarrow> hd block \<noteq> sep \<Longrightarrow> hd (js_split sep block) \<noteq> []"
  by (cases block) (auto split: list.splits)

lemma join_first: "w \<noteq> [] \<Longrightarrow> hd (js_join sep (w # ws)) = hd w \<and> js_join sep (w # ws) \<noteq> []"
  by (cases ws) auto

lemma toggle_block_undone:
  assumes "\<not> all_commented (js_split nl block)"
  shows "toggle_block (toggle_block block) = block"
    "block \<noteq> [] \<Longrightarrow> hd block \<noteq> nl \<Longrightarrow> toggle_block block \<noteq> [] \<and> hd (toggle_block block) \<noteq> nl"
proof -
  let ?ls = "js_split nl block"
  let ?c = "commentLines ?ls (nonblank ?ls)"
  have once: "toggle_block block = js_join [nl] ?c" using assms by (simp add: toggle_block_def Let_def)
  have sep: "nl \<notin> set l" if "l \<in> set ?ls" for l using that by (rule js_split_parts)
  have lines: "nl \<notin> set w" if "w \<in> set ?c" for w
    using that sep unfolding commentLines_def Let_def LINE_COMMENT_def
    by (auto split: if_splits dest: in_set_takeD in_set_dropD) (meson in_set_takeD in_set_dropD)+
  then have split: "js_split nl (toggle_block block) = ?c"
    unfolding once by (intro js_split_join) (auto simp: commentLines_def Let_def)
  show "toggle_block (toggle_block block) = block"
  proof (cases "nonblank ?ls = []")
    case True
    then have "?c = ?ls" by (auto simp: commentLines_def Let_def filter_empty_conv intro: map_idI)
    then show ?thesis using once by simp
  next
    case False
    then have "toggle_block (toggle_block block) = js_join [nl] (map uncommentLine ?c)"
      using commentLines_undone(1) split by (simp add: toggle_block_def Let_def)
    then show ?thesis using commentLines_undone(2) [OF False] by simp
  qed
  assume b: "block \<noteq> []" "hd block \<noteq> nl"
  obtain l ls where ls: "?ls = l # ls" by (cases ?ls) auto
  then have "l \<noteq> []" using js_split_first [OF b] by simp
  then obtain w ws where w: "?c = w # ws" "w \<noteq> []" unfolding ls by (auto simp: commentLines_def Let_def LINE_COMMENT_def)
  have "nl \<notin> set w" using lines [of w] w(1) by simp
  then have "hd w \<noteq> nl" using w(2) hd_in_set by metis
  then show "toggle_block block \<noteq> [] \<and> hd (toggle_block block) \<noteq> nl" unfolding once w(1) using join_first [OF w(2)] by auto
qed

lemma whole_lines_replaced:
  assumes "whole_lines text i j" "js_slice text i j \<noteq> [] \<Longrightarrow> hd (js_slice text i j) \<noteq> nl \<Longrightarrow> b \<noteq> [] \<and> hd b \<noteq> nl"
    "js_slice text i j = [] \<Longrightarrow> b = []"
  shows "whole_lines (take i text @ b @ drop j text) i (i + length b)"
proof (cases "i = 0")
  case True
  have j: "j \<le> length text" "j < length text \<longrightarrow> text ! j = nl" "text = [] \<or> hd text \<noteq> nl" using assms(1) True by (auto simp: whole_lines_def)
  have "b @ drop j text = [] \<or> hd (b @ drop j text) \<noteq> nl"
  proof (cases "js_slice text 0 j = []")
    case True
    then have "j = 0 \<or> text = []" by (auto simp: js_slice_def)
    then show ?thesis using assms(3) True \<open>i = 0\<close> j by auto
  next
    case False
    then have "hd (js_slice text 0 j) = hd text" "text \<noteq> []" by (auto simp: js_slice_def hd_take)
    then show ?thesis using assms(2) False \<open>i = 0\<close> j by auto
  qed
  then show ?thesis using True j by (auto simp: whole_lines_def nth_append)
next
  case False
  then show ?thesis using assms(1) by (auto simp: whole_lines_def nth_append)
qed

lemma toggle_block_nil: "toggle_block [] = []"
  by (simp add: toggle_block_def all_commented_def commentLines_def js_trim_def Let_def)

lemma toggle_undone:
  assumes "\<not> caret_before_empty_line text a b"
    and "\<not> all_commented (js_split nl (js_slice text (block_start text a b) (block_end text a b)))"
  defines "t \<equiv> toggleLineComment text a b"
  shows "toggleLineComment (lt_text t) (int (lt_selStart t)) (int (lt_selEnd t)) =
    \<lparr>lt_text = text, lt_selStart = block_start text a b, lt_selEnd = block_end text a b\<rparr>"
proof -
  define i where "i = block_start text a b"
  define j where "j = block_end text a b"
  define s where "s = js_slice text i j"
  have w: "whole_lines text i j" using block_whole_lines [OF assms(1)] by (simp add: i_def j_def)
  note undo = toggle_block_undone [OF assms(2) [folded i_def j_def s_def]]
  have t: "t = \<lparr>lt_text = take i text @ toggle_block s @ drop j text, lt_selStart = i, lt_selEnd = i + length (toggle_block s)\<rparr>"
    by (simp add: t_def toggleLineComment_def Let_def i_def j_def s_def)
  have w': "whole_lines (lt_text t) i (i + length (toggle_block s))"
    unfolding t using whole_lines_replaced [OF w, of "toggle_block s"] undo(2) toggle_block_nil by (auto simp: s_def)
  have ij: "i \<le> j" "j \<le> length text" using w by (auto simp: whole_lines_def)
  have slice: "js_slice (lt_text t) i (i + length (toggle_block s)) = toggle_block s" using ij by (simp add: t js_slice_def)
  have join: "take i text @ s @ drop j text = text" using ij by (simp add: s_def js_slice_def) (metis append_take_drop_id drop_drop le_add_diff_inverse2 take_add)
  have len: "length s = j - i" using ij by (simp add: s_def js_slice_def)
  have "toggleLineComment (lt_text t) (int i) (int (i + length (toggle_block s))) =
      \<lparr>lt_text = take i (lt_text t) @ s @ drop (i + length (toggle_block s)) (lt_text t), lt_selStart = i, lt_selEnd = i + length s\<rparr>"
    unfolding toggleLineComment_def Let_def block_of_whole_lines [OF w'] slice undo(1) ..
  also have "take i (lt_text t) @ s @ drop (i + length (toggle_block s)) (lt_text t) = text"
    using ij join by (simp add: t)
  finally show ?thesis using ij len by (simp add: t i_def j_def)
qed

text \<open>A second toggle undoes a commenting toggle straight away: unless the caret stands before an empty
  first line, toggling lines that are not all comments and toggling again with the selection returned
  gives the text back, with the selection over the same lines.\<close>

theorem toggle_twice_restores:
  assumes "\<not> caret_before_empty_line text a b"
    and "\<not> all_commented (js_split nl (js_slice text (block_start text a b) (block_end text a b)))"
    and "toggleLineComment text a b = t"
  shows "toggleLineComment (lt_text t) (int (lt_selStart t)) (int (lt_selEnd t)) =
    \<lparr>lt_text = text, lt_selStart = block_start text a b, lt_selEnd = block_end text a b\<rparr>"
  using toggle_undone [OF assms(1,2)] unfolding assms(3) .

lemmas run_toggle = toggleLineComment_def block_start_def block_end_def lastIndexOf_def indexOf_def toggle_block_def
  all_commented_def commentLines_def lead_def trimStart_def js_trim_def js_slice_def LINE_COMMENT_def is_ws_def code_def
  upt_rec nth_Cons' numeral_eq_Suc caret_before_empty_line_def

theorem toggle_twice_restores_witness:
  "toggleLineComment [CHR ''a'', nl, CHR '' '', CHR ''b''] 3 3 =
     \<lparr>lt_text = [CHR ''a'', nl, CHR '' '', CHR ''/'', CHR ''/'', CHR '' '', CHR ''b''], lt_selStart = 2, lt_selEnd = 7\<rparr> \<and>
   toggleLineComment [CHR ''a'', nl, CHR '' '', CHR ''/'', CHR ''/'', CHR '' '', CHR ''b''] 2 7 =
     \<lparr>lt_text = [CHR ''a'', nl, CHR '' '', CHR ''b''], lt_selStart = 2, lt_selEnd = 4\<rparr>"
proof -
  let ?s = "[CHR ''a'', nl, CHR '' '', CHR ''b'']"
  let ?t = "\<lparr>lt_text = [CHR ''a'', nl, CHR '' '', CHR ''/'', CHR ''/'', CHR '' '', CHR ''b''], lt_selStart = 2, lt_selEnd = 7\<rparr>"
  have b: "block_start ?s 3 3 = 2" "block_end ?s 3 3 = 4" by (simp_all add: run_toggle)
  have once: "toggleLineComment ?s 3 3 = ?t" by (simp add: run_toggle)
  have "\<not> caret_before_empty_line ?s 3 3" "\<not> all_commented (js_split nl (js_slice ?s 2 4))" by (simp_all add: run_toggle)
  then show ?thesis using toggle_twice_restores [of ?s 3 3 ?t] once b by simp
qed

lemma lastIndexOf_first: "lastIndexOf c (c # s) (-1) = 0"
  by (simp add: lastIndexOf_def)

lemma indexOf_first: "indexOf c (c # s) 0 = 0"
  by (simp add: indexOf_def upt_conv_Cons del: upt_Suc)

text \<open>With the caret before an empty first line, toggling changes what it has no lines to change: it puts one
  more empty line at the top of the text, at every press.\<close>

theorem caret_before_empty_line_adds_a_line:
  "lt_text (toggleLineComment (nl # s) 0 0) = nl # nl # s"
proof -
  have "block_start (nl # s) 0 0 = 1" "block_end (nl # s) 0 0 = 0"
    using lastIndexOf_first [of nl s] indexOf_first [of nl s] by (simp_all add: block_start_def block_end_def)
  then show ?thesis by (simp add: toggleLineComment_def js_slice_def toggle_block_nil)
qed

end
