(* ===== verification/WorkingSet.thy ===== *)
theory WorkingSet
  imports Json "HOL-Library.AList"
begin

text \<open>
  The student's files beside the program: \<open>web/lib/playground/use-working-set.ts\<close> and the copy of them kept in
  IndexedDB, \<open>vfs-persist.ts\<close>.  An object from names to texts is an association list with distinct keys.
  The machine is a parameter.  Each hook callback is a function on the hook's state; the load that
  the mount effect starts is two steps, the read of the database and the continuation, between which other
  callbacks may run.  The database serves its requests in the order they are made.
\<close>

type_synonym files = "(jstring \<times> jstring) list"

record InputSeeds =
  sd_stdin :: "jstring option"
  sd_vfs :: "files option"

record 'w WorkingSetMachine =
  wm_pushStdin :: "jstring \<Rightarrow> 'w \<Rightarrow> 'w"
  wm_uploadVfsFile :: "jstring \<Rightarrow> nat list \<Rightarrow> 'w \<Rightarrow> 'w"
  wm_deleteVfsFile :: "jstring \<Rightarrow> 'w \<Rightarrow> bool \<times> 'w"

subsection \<open>The stored copy\<close>

definition workingSetBytes :: "files \<Rightarrow> nat" where
  "workingSetBytes files = fold (\<lambda>(name, body) total. total + (length name + length (utf8_encode body))) files 0"

definition isWorkingSet :: "json \<Rightarrow> bool" where
  "isWorkingSet v = (case v of JObj kvs \<Rightarrow> list_all (\<lambda>(k, x). case x of JStr _ \<Rightarrow> True | _ \<Rightarrow> False) kvs | _ \<Rightarrow> False)"

definition read_files :: "json \<Rightarrow> files" where
  "read_files v = (case v of JObj kvs \<Rightarrow> map (\<lambda>(k, x). (k, case x of JStr s \<Rightarrow> s | _ \<Rightarrow> [])) kvs | _ \<Rightarrow> [])"

definition write_files :: "files \<Rightarrow> json" where
  "write_files files = JObj (map (\<lambda>(k, s). (k, JStr s)) files)"

text \<open>The database opens or not; when it does, it holds one value under the key, or none.  \<open>served\<close> is whether the
  request of this read succeeds.\<close>

definition loadPersistedVfs :: "bool \<Rightarrow> bool \<Rightarrow> json option \<Rightarrow> files option" where
  "loadPersistedVfs opens served store =
     (if \<not> opens then None
      else if \<not> served then None
      else case store of None \<Rightarrow> None | Some v \<Rightarrow> if isWorkingSet v then Some (read_files v) else None)"

text \<open>\<open>accepted\<close> is whether the transaction of this write commits.\<close>

definition savePersistedVfs :: "bool \<Rightarrow> bool \<Rightarrow> files \<Rightarrow> json option \<Rightarrow> json option" where
  "savePersistedVfs opens accepted files store =
     (if workingSetBytes files > MAX_VFS_BYTES then store
      else if \<not> opens then store
      else if accepted then Some (write_files files) else store)"

subsection \<open>The hook\<close>

record ws_opts =
  isHome :: bool
  startStdin :: "jstring option"
  db_opens :: bool

record 'w working_set =
  ws_seeds :: InputSeeds
  ws_hydrated :: bool
  ws_loading :: "files option option"
  ws_removing :: nat
  ws_store :: "json option"
  ws_machine :: 'w

definition mount :: "ws_opts \<Rightarrow> json option \<Rightarrow> 'w \<Rightarrow> 'w working_set" where
  "mount opts store w =
     \<lparr>ws_seeds = \<lparr>sd_stdin = (if isHome opts then None else startStdin opts), sd_vfs = None\<rparr>,
      ws_hydrated = False, ws_loading = None, ws_removing = 0, ws_store = store, ws_machine = w\<rparr>"

definition spread :: "files \<Rightarrow> files \<Rightarrow> files" where
  "spread a b = fold (\<lambda>(k, v). AList.update k v) b a"

definition seeded :: "InputSeeds \<Rightarrow> files" where
  "seeded seeds = (case sd_vfs seeds of None \<Rightarrow> [] | Some f \<Rightarrow> f)"

definition uploadAll :: "'w WorkingSetMachine \<Rightarrow> files \<Rightarrow> 'w \<Rightarrow> 'w" where
  "uploadAll m files w = fold (\<lambda>(name, body). wm_uploadVfsFile m name (utf8_encode body)) files w"

definition applySeeds :: "'w WorkingSetMachine \<Rightarrow> 'w working_set \<Rightarrow> 'w working_set" where
  "applySeeds m s =
     (let w1 = (case sd_stdin (ws_seeds s) of None \<Rightarrow> ws_machine s
                | Some i \<Rightarrow> if i = [] then ws_machine s else wm_pushStdin m i (ws_machine s));
          w2 = (case sd_vfs (ws_seeds s) of None \<Rightarrow> w1 | Some f \<Rightarrow> uploadAll m f w1) in
      s\<lparr>ws_machine := w2\<rparr>)"

definition persistWorkingSet :: "ws_opts \<Rightarrow> bool \<Rightarrow> 'w working_set \<Rightarrow> 'w working_set" where
  "persistWorkingSet opts accepted s =
     (if \<not> isHome opts then s
      else s\<lparr>ws_store := savePersistedVfs (db_opens opts) accepted (seeded (ws_seeds s)) (ws_store s)\<rparr>)"

text \<open>A text, or bytes together with the text \<open>TextDecoder\<close> reads in them.\<close>

datatype staged = Text jstring | Bytes "nat list" jstring

fun staged_bytes :: "staged \<Rightarrow> nat list" where
  "staged_bytes (Text t) = utf8_encode t"
| "staged_bytes (Bytes b t) = b"

fun staged_body :: "staged \<Rightarrow> jstring" where
  "staged_body (Text t) = t"
| "staged_body (Bytes b t) = t"

definition stageVfsFile :: "ws_opts \<Rightarrow> 'w WorkingSetMachine \<Rightarrow> bool \<Rightarrow> jstring \<Rightarrow> staged \<Rightarrow> 'w working_set \<Rightarrow> 'w working_set" where
  "stageVfsFile opts m accepted name data s =
     (let seeds = (ws_seeds s)\<lparr>sd_vfs := Some (AList.update name (staged_body data) (seeded (ws_seeds s)))\<rparr> in
      persistWorkingSet opts accepted
        (s\<lparr>ws_seeds := seeds, ws_machine := wm_uploadVfsFile m name (staged_bytes data) (ws_machine s)\<rparr>))"

text \<open>Removing a file waits for the machine before it saves: the callback up to its await, and the rest.\<close>

definition removeVfsFile :: "'w WorkingSetMachine \<Rightarrow> jstring \<Rightarrow> 'w working_set \<Rightarrow> bool \<times> 'w working_set" where
  "removeVfsFile m path s =
     (let seeds = (case sd_vfs (ws_seeds s) of None \<Rightarrow> ws_seeds s
                   | Some f \<Rightarrow> (ws_seeds s)\<lparr>sd_vfs := Some (AList.delete path f)\<rparr>);
          (removed, w) = wm_deleteVfsFile m path (ws_machine s) in
      (removed, s\<lparr>ws_seeds := seeds, ws_machine := w, ws_removing := Suc (ws_removing s)\<rparr>))"

definition remove_done :: "ws_opts \<Rightarrow> bool \<Rightarrow> 'w working_set \<Rightarrow> 'w working_set" where
  "remove_done opts accepted s =
     (if ws_removing s = 0 then s else persistWorkingSet opts accepted (s\<lparr>ws_removing := ws_removing s - 1\<rparr>))"

definition seedFromPayload :: "ws_opts \<Rightarrow> 'w WorkingSetMachine \<Rightarrow> bool \<Rightarrow> InputSeeds \<Rightarrow> 'w working_set \<Rightarrow> 'w working_set" where
  "seedFromPayload opts m accepted payload s =
     (let workingVfs = (if isHome opts then Some (spread (seeded (ws_seeds s)) (seeded payload)) else sd_vfs payload);
          seeds = \<lparr>sd_stdin = (if isHome opts then None else sd_stdin payload), sd_vfs = workingVfs\<rparr>;
          w = (case workingVfs of None \<Rightarrow> ws_machine s | Some f \<Rightarrow> uploadAll m f (ws_machine s)) in
      persistWorkingSet opts accepted (s\<lparr>ws_seeds := seeds, ws_machine := w\<rparr>))"

text \<open>The mount effect: what the database holds is read, and later the continuation runs.\<close>

definition hydrate_begin :: "ws_opts \<Rightarrow> bool \<Rightarrow> bool \<Rightarrow> 'w working_set \<Rightarrow> 'w working_set" where
  "hydrate_begin opts served machineLoaded s =
     (if \<not> isHome opts \<or> ws_hydrated s \<or> \<not> machineLoaded then s
      else s\<lparr>ws_hydrated := True, ws_loading := Some (loadPersistedVfs (db_opens opts) served (ws_store s))\<rparr>)"

definition hydrate_end :: "'w WorkingSetMachine \<Rightarrow> 'w working_set \<Rightarrow> 'w working_set" where
  "hydrate_end m s =
     (case ws_loading s of None \<Rightarrow> s
      | Some None \<Rightarrow> s\<lparr>ws_loading := None\<rparr>
      | Some (Some files) \<Rightarrow>
          if files = [] then s\<lparr>ws_loading := None\<rparr>
          else let vfs = spread files (seeded (ws_seeds s)) in
            s\<lparr>ws_loading := None, ws_seeds := (ws_seeds s)\<lparr>sd_vfs := Some vfs\<rparr>, ws_machine := uploadAll m vfs (ws_machine s)\<rparr>)"

definition workingFiles :: "'w working_set \<Rightarrow> files" where
  "workingFiles s = seeded (ws_seeds s)"

subsection \<open>A session\<close>

text \<open>What may happen while the page is open, in any order.  \<open>Machine f\<close> is whatever the program, or an assemble,
  does to the machine.\<close>

datatype 'w action =
    Stage jstring staged bool
  | Remove jstring
  | RemoveDone bool
  | Seed InputSeeds bool
  | ApplySeeds
  | Machine "'w \<Rightarrow> 'w"
  | HydrateBegin bool bool
  | HydrateEnd

fun perform :: "ws_opts \<Rightarrow> 'w WorkingSetMachine \<Rightarrow> 'w action \<Rightarrow> 'w working_set \<Rightarrow> 'w working_set" where
  "perform opts m (Stage name data ok) s = stageVfsFile opts m ok name data s"
| "perform opts m (Remove path) s = snd (removeVfsFile m path s)"
| "perform opts m (RemoveDone ok) s = remove_done opts ok s"
| "perform opts m (Seed payload ok) s = seedFromPayload opts m ok payload s"
| "perform opts m ApplySeeds s = applySeeds m s"
| "perform opts m (Machine f) s = s\<lparr>ws_machine := f (ws_machine s)\<rparr>"
| "perform opts m (HydrateBegin served loaded) s = hydrate_begin opts served loaded s"
| "perform opts m HydrateEnd s = hydrate_end m s"

abbreviation session :: "ws_opts \<Rightarrow> 'w WorkingSetMachine \<Rightarrow> 'w action list \<Rightarrow> 'w working_set \<Rightarrow> 'w working_set" where
  "session opts m acts \<equiv> fold (perform opts m) acts"

text \<open>Opening the page again on what the database holds.\<close>

definition reopened :: "ws_opts \<Rightarrow> 'w WorkingSetMachine \<Rightarrow> 'w \<Rightarrow> 'w working_set \<Rightarrow> 'w working_set" where
  "reopened opts m w s = session opts m [HydrateBegin True True, HydrateEnd] (mount opts (ws_store s) w)"

subsection \<open>Files as maps\<close>

lemma map_of_spread: "distinct (map fst b) \<Longrightarrow> map_of (spread a b) = map_of a ++ map_of b"
proof (induction b arbitrary: a)
  case (Cons p b)
  obtain k v where p: "p = (k, v)" by fastforce
  have "map_of (spread a (p # b)) = map_of (AList.update k v a) ++ map_of b" using Cons p by (simp add: spread_def)
  also have "\<dots> = map_of a ++ map_of (p # b)"
    using Cons.prems p by (auto simp: update_conv fun_eq_iff map_add_def dom_map_of_conv_image_fst split: option.splits)
      (metis fst_conv image_eqI)
  finally show ?case .
qed (simp add: spread_def)

lemma distinct_spread: "distinct (map fst a) \<Longrightarrow> distinct (map fst (spread a b))"
  unfolding spread_def by (induction b arbitrary: a) (auto simp: distinct_update)

lemma isWorkingSet_write [simp]: "isWorkingSet (write_files f)" "read_files (write_files f) = f"
  by (auto simp: isWorkingSet_def write_files_def read_files_def list_all_iff comp_def case_prod_beta)

lemma spread_nil [simp]: "spread a [] = a"
  by (simp add: spread_def)

text \<open>The files in the database.\<close>

definition stored :: "ws_opts \<Rightarrow> 'w working_set \<Rightarrow> files" where
  "stored opts s = (case loadPersistedVfs (db_opens opts) True (ws_store s) of None \<Rightarrow> [] | Some f \<Rightarrow> f)"

lemma reopened_files: "isHome opts \<Longrightarrow> workingFiles (reopened opts m w s) = spread (stored opts s) []"
  by (auto simp: reopened_def mount_def hydrate_begin_def hydrate_end_def workingFiles_def stored_def seeded_def Let_def split: option.splits)

subsection \<open>The home directory survives\<close>

definition settled_in :: "'w working_set \<Rightarrow> bool" where
  "settled_in s \<longleftrightarrow> ws_hydrated s \<and> ws_loading s = None"

fun put_accepted :: "'w action \<Rightarrow> bool" where
  "put_accepted (Stage name data ok) = ok"
| "put_accepted (RemoveDone ok) = ok"
| "put_accepted (Seed payload ok) = ok"
| "put_accepted _ = True"

lemmas perform_defs = stageVfsFile_def removeVfsFile_def remove_done_def seedFromPayload_def persistWorkingSet_def savePersistedVfs_def
  applySeeds_def hydrate_begin_def hydrate_end_def workingFiles_def Let_def

lemma perform_settled: "settled_in s \<Longrightarrow> settled_in (perform opts m a s)"
  by (cases a) (auto simp: settled_in_def perform_defs split: prod.splits)

lemma persist_files [simp]:
  "workingFiles (persistWorkingSet opts ok s) = workingFiles s" "ws_loading (persistWorkingSet opts ok s) = ws_loading s"
  by (simp_all add: persistWorkingSet_def workingFiles_def)

lemma persist_stored: "stored opts (persistWorkingSet opts ok s) \<in> {stored opts s, workingFiles s}"
  by (auto simp: persistWorkingSet_def savePersistedVfs_def stored_def loadPersistedVfs_def workingFiles_def)

lemma persist_saved:
  "isHome opts \<Longrightarrow> db_opens opts \<Longrightarrow> workingSetBytes (workingFiles s) \<le> MAX_VFS_BYTES \<Longrightarrow>
     stored opts (persistWorkingSet opts True s) = workingFiles s"
  by (simp add: persistWorkingSet_def savePersistedVfs_def stored_def loadPersistedVfs_def workingFiles_def)

lemma stored_cong: "ws_store t = ws_store s \<Longrightarrow> stored opts t = stored opts s"
  by (simp add: stored_def)

text \<open>An action saves, or it leaves the record and the database as they are.\<close>

lemma perform_cases:
  assumes "settled_in s"
  obtains (saves) ok t where "perform opts m a s = persistWorkingSet opts ok t" "ws_store t = ws_store s" "put_accepted a \<longleftrightarrow> ok"
    | (keeps) "ws_store (perform opts m a s) = ws_store s"
        "ws_removing (perform opts m a s) = 0 \<longrightarrow> ws_removing s = 0 \<and> workingFiles (perform opts m a s) = workingFiles s"
proof (cases a)
  case (Stage name data ok)
  then show thesis using saves [of ok] by (simp add: stageVfsFile_def Let_def)
next
  case (Remove path)
  show thesis by (rule keeps) (simp_all add: Remove removeVfsFile_def Let_def split: prod.splits)
next
  case (RemoveDone ok)
  show thesis
  proof (cases "ws_removing s = 0")
    case True
    then show thesis using keeps RemoveDone by (simp add: remove_done_def)
  next
    case False
    then show thesis using saves [of ok] RemoveDone by (simp add: remove_done_def)
  qed
next
  case (Seed payload ok)
  then show thesis using saves [of ok] by (simp add: seedFromPayload_def Let_def)
qed (use assms keeps in \<open>simp_all add: settled_in_def applySeeds_def hydrate_begin_def hydrate_end_def workingFiles_def Let_def\<close>)

lemma perform_store:
  assumes "settled_in s"
  shows "stored opts (perform opts m a s) \<in> {stored opts s, workingFiles (perform opts m a s)}"
proof (rule perform_cases [OF assms, of opts m a], goal_cases saves keeps)
  case (saves ok t)
  then show ?thesis using persist_stored [of opts ok t] stored_cong [of t s opts] by simp
next
  case keeps
  then show ?thesis using stored_cong by blast
qed

text \<open>While no removal waits, the database holds the record.\<close>

definition saved :: "ws_opts \<Rightarrow> 'w working_set \<Rightarrow> bool" where
  "saved opts s \<longleftrightarrow> ws_removing s > 0 \<or> stored opts s = workingFiles s"

lemma perform_saved:
  assumes "settled_in s" "isHome opts" "db_opens opts" "put_accepted a"
    and "workingSetBytes (workingFiles (perform opts m a s)) \<le> MAX_VFS_BYTES" "saved opts s"
  shows "saved opts (perform opts m a s)"
proof (rule perform_cases [OF assms(1), of opts m a], goal_cases saves keeps)
  case (saves ok t)
  then show ?thesis using persist_saved [OF assms(2,3), of t] assms(4,5) by (simp add: saved_def)
next
  case keeps
  then show ?thesis using stored_cong [of "perform opts m a s" s opts] assms(6) by (auto simp: saved_def)
qed

lemma session_settled: "settled_in s \<Longrightarrow> settled_in (session opts m acts s)"
  by (induction acts arbitrary: s) (auto simp: perform_settled)

lemma session_store:
  assumes "settled_in s" "stored opts s = workingFiles s"
  shows "\<exists>k \<le> length acts. stored opts (session opts m acts s) = workingFiles (session opts m (take k acts) s)"
proof (induction acts rule: rev_induct)
  case (snoc a acts)
  let ?t = "session opts m acts s"
  obtain k where k: "k \<le> length acts" "stored opts ?t = workingFiles (session opts m (take k acts) s)" using snoc by blast
  have "stored opts (perform opts m a ?t) \<in> {stored opts ?t, workingFiles (perform opts m a ?t)}"
    using perform_store session_settled [OF assms(1)] by blast
  then show ?case
  proof
    assume "stored opts (perform opts m a ?t) = stored opts ?t"
    then show ?thesis using k by (intro exI [of _ k]) simp
  qed (auto intro!: exI [of _ "Suc (length acts)"])
qed (use assms in simp)

lemma session_saved:
  assumes "settled_in s" "saved opts s" "isHome opts" "db_opens opts" "list_all put_accepted acts"
    and "\<And>k. k \<le> length acts \<Longrightarrow> workingSetBytes (workingFiles (session opts m (take k acts) s)) \<le> MAX_VFS_BYTES"
  shows "saved opts (session opts m acts s)"
  using assms(5,6)
proof (induction acts rule: rev_induct)
  case (snoc a acts)
  have fits: "workingSetBytes (workingFiles (session opts m (take k acts) s)) \<le> MAX_VFS_BYTES" if "k \<le> length acts" for k
    using snoc(3) [of k] that by simp
  then have "saved opts (session opts m acts s)" using snoc(1,2) by simp
  then show ?case
    using perform_saved [where a = a and m = m, OF session_settled [OF assms(1), where m = m and acts = acts] assms(3,4)]
      snoc(2) snoc(3) [of "Suc (length acts)"] by simp
qed (use assms(2) in simp)

lemma opened_settled:
  fixes m :: "'w WorkingSetMachine" and store :: "json option" and w :: 'w
  assumes "isHome opts"
  defines "s \<equiv> session opts m [HydrateBegin True True, HydrateEnd] (mount opts store w)"
  shows "settled_in s" "stored opts s = workingFiles s"
  using assms(1) unfolding s_def
  by (auto simp: settled_in_def mount_def hydrate_begin_def hydrate_end_def workingFiles_def stored_def seeded_def Let_def split: option.splits)

text \<open>C24: once the home directory has been read, whatever the student, the terminal and the programs then do, opening
  the page again brings back the files as they were at one moment of the session, whole and never a
  mix: as they are now when the database accepted every write, no set was over the cap and no removal
  still waits for the machine.\<close>

theorem home_survives_reload:
  assumes "isHome opts"
    and "s = session opts m [HydrateBegin True True, HydrateEnd] (mount opts store w)"
    and "t = session opts m acts s"
  shows "(\<exists>k \<le> length acts. workingFiles (reopened opts m w' t) = workingFiles (session opts m (take k acts) s)) \<and>
    (db_opens opts \<and> list_all put_accepted acts \<and> ws_removing t = 0 \<and>
      (\<forall>k \<le> length acts. workingSetBytes (workingFiles (session opts m (take k acts) s)) \<le> MAX_VFS_BYTES) \<longrightarrow>
     workingFiles (reopened opts m w' t) = workingFiles t)"
proof -
  note s = opened_settled [OF assms(1), of m store w, folded assms(2)]
  have "workingFiles (reopened opts m w' t) = stored opts t" using reopened_files [OF assms(1)] by simp
  then show ?thesis unfolding assms(3) using session_store [OF s, of acts m] session_saved [OF s(1) _ assms(1), of acts m] s(2) by (auto simp: saved_def)
qed

text \<open>A machine that is its files and its input.\<close>

definition plain_machine :: "((jstring \<times> nat list) list \<times> jstring) WorkingSetMachine" where
  "plain_machine =
     \<lparr>wm_pushStdin = (\<lambda>i w. (fst w, snd w @ i)),
      wm_uploadVfsFile = (\<lambda>n b w. (AList.update n b (fst w), snd w)),
      wm_deleteVfsFile = (\<lambda>n w. (n \<in> fst ` set (fst w), (AList.delete n (fst w), snd w)))\<rparr>"

definition home_opts :: ws_opts where
  "home_opts = \<lparr>isHome = True, startStdin = None, db_opens = True\<rparr>"

theorem home_survives_reload_witness:
  "workingFiles (reopened home_opts plain_machine ([], [])
     (session home_opts plain_machine [HydrateBegin True True, HydrateEnd, Stage ''b'' (Text ''2'') True, Remove ''a'', RemoveDone True]
       (mount home_opts (Some (write_files [(''a'', ''1'')])) ([], [])))) = [(''b'', ''2'')]"
proof -
  let ?acts = "[Stage ''b'' (Text ''2'') True, Remove ''a'', RemoveDone True]"
  let ?s = "session home_opts plain_machine [HydrateBegin True True, HydrateEnd] (mount home_opts (Some (write_files [(''a'', ''1'')])) ([], []))"
  note run = mount_def perform_defs plain_machine_def home_opts_def seeded_def uploadAll_def loadPersistedVfs_def
    workingSetBytes_def MAX_VFS_BYTES_def utf8_encode_def utf8_char_def code_def
  have s: "workingFiles ?s = [(''a'', ''1'')]" by (simp add: run)
  have t: "workingFiles (session home_opts plain_machine ?acts ?s) = [(''b'', ''2'')]" by (simp add: run)
  have "workingSetBytes (workingFiles (session home_opts plain_machine (take k ?acts) ?s)) \<le> MAX_VFS_BYTES" if "k \<le> length ?acts" for k
  proof -
    have "k = 0 \<or> k = 1 \<or> k = 2 \<or> k = 3" using that by auto
    then show ?thesis by (elim disjE) (simp_all add: run)
  qed
  moreover have "isHome home_opts" "db_opens home_opts" "list_all put_accepted ?acts" by (simp_all add: home_opts_def)
  moreover have "ws_removing (session home_opts plain_machine ?acts ?s) = 0" by (simp add: run)
  ultimately have "workingFiles (reopened home_opts plain_machine ([], []) (session home_opts plain_machine ?acts ?s)) =
      workingFiles (session home_opts plain_machine ?acts ?s)"
    using home_survives_reload [of home_opts ?s plain_machine "Some (write_files [(''a'', ''1'')])" "([], [])"
        "session home_opts plain_machine ?acts ?s" ?acts "([], [])"] by blast
  then show ?thesis using t by simp
qed

subsection \<open>A program loaded at the start\<close>

lemma stored_seed:
  assumes "isHome opts" "db_opens opts" "workingSetBytes (spread (seeded (ws_seeds s)) (seeded payload)) \<le> MAX_VFS_BYTES"
  shows "stored opts (seedFromPayload opts m True payload s) = spread (seeded (ws_seeds s)) (seeded payload)"
    "workingFiles (seedFromPayload opts m True payload s) = spread (seeded (ws_seeds s)) (seeded payload)"
  using assms by (auto simp: stored_def loadPersistedVfs_def seedFromPayload_def persistWorkingSet_def savePersistedVfs_def
      workingFiles_def seeded_def Let_def)

text \<open>C39: a program that is loaded while the home directory is still being read, as a share link is when the page
  opens, replaces the stored home directory by its own files: a file of the student's is still there in
  this session, and gone when the page is opened again.\<close>

theorem boot_program_loses_home:
  assumes "isHome opts" "db_opens opts"
    and "store = Some (write_files home)" "n \<in> fst ` set home"
    and "distinct (map fst (seeded payload))" "n \<notin> fst ` set (seeded payload)"
    and "workingSetBytes (spread [] (seeded payload)) \<le> MAX_VFS_BYTES"
    and "s = session opts m [HydrateBegin True True, Seed payload True, HydrateEnd] (mount opts store w)"
  shows "n \<in> fst ` set (workingFiles s) \<and> n \<notin> fst ` set (workingFiles (reopened opts m w' s))"
proof -
  let ?s0 = "hydrate_begin opts True True (mount opts store w)"
  let ?s1 = "seedFromPayload opts m True payload ?s0"
  have s0: "seeded (ws_seeds ?s0) = []" "ws_loading ?s0 = Some (Some home)"
    using assms(1-3) by (simp_all add: hydrate_begin_def mount_def seeded_def loadPersistedVfs_def)
  have s1: "stored opts ?s1 = spread [] (seeded payload)" "workingFiles ?s1 = spread [] (seeded payload)"
    using stored_seed [OF assms(1,2), of ?s0 payload m] assms(7) s0(1) by simp_all
  have l: "ws_loading ?s1 = Some (Some home)" using s0(2) by (simp add: seedFromPayload_def persistWorkingSet_def Let_def)
  have keys: "fst ` set (spread a b) = fst ` set a \<union> fst ` set b" if "distinct (map fst b)" for a b :: files
    using map_of_spread [OF that, of a] by (metis Un_commute dom_map_add dom_map_of_conv_image_fst)
  have s: "s = hydrate_end m ?s1" using assms(8) by simp
  have ne: "home \<noteq> []" using assms(4) by auto
  have "distinct (map fst (seeded (ws_seeds ?s1)))" using s1(2) distinct_spread [of "[]"] by (simp add: workingFiles_def)
  then have "n \<in> fst ` set (workingFiles s)" using s l ne assms(4) keys by (simp add: hydrate_end_def workingFiles_def seeded_def Let_def)
  moreover have "stored opts s = stored opts ?s1" using s l ne by (simp add: hydrate_end_def stored_def Let_def)
  then have "n \<notin> fst ` set (stored opts s)" using s1(1) keys [OF assms(5), of "[]"] assms(6) by simp
  then have "n \<notin> fst ` set (workingFiles (reopened opts m w' s))" using reopened_files [OF assms(1), of m w' s] by simp
  ultimately show ?thesis ..
qed

theorem boot_program_loses_home_witness:
  "''notes'' \<in> fst ` set (workingFiles (session home_opts plain_machine
     [HydrateBegin True True, Seed \<lparr>sd_stdin = None, sd_vfs = None\<rparr> True, HydrateEnd] (mount home_opts (Some (write_files [(''notes'', ''x'')])) ([], [])))) \<and>
   ''notes'' \<notin> fst ` set (workingFiles (reopened home_opts plain_machine ([], []) (session home_opts plain_machine
     [HydrateBegin True True, Seed \<lparr>sd_stdin = None, sd_vfs = None\<rparr> True, HydrateEnd] (mount home_opts (Some (write_files [(''notes'', ''x'')])) ([], [])))))"
  by (rule boot_program_loses_home [where home = "[(''notes'', ''x'')]" and payload = "\<lparr>sd_stdin = None, sd_vfs = None\<rparr>",
        OF _ _ refl _ _ _ _ refl])
    (simp_all add: home_opts_def seeded_def workingSetBytes_def)

subsection \<open>What an assemble puts back\<close>

lemma upload_all_files:
  assumes "\<And>n b w. content (wm_uploadVfsFile m n b w) = (content w)(n \<mapsto> b)" "distinct (map fst f)"
  shows "content (uploadAll m f w) = content w ++ (map_option utf8_encode \<circ> map_of f)"
  using assms(2)
proof (induction f arbitrary: w)
  case (Cons p f)
  obtain n b where p: "p = (n, b)" by fastforce
  have "content (uploadAll m (p # f) w) = (content w)(n \<mapsto> utf8_encode b) ++ (map_option utf8_encode \<circ> map_of f)"
    using Cons p assms(1) by (simp add: uploadAll_def comp_def)
  also have "\<dots> = content w ++ (map_option utf8_encode \<circ> map_of (p # f))"
  proof -
    have "map_of f n = None" using Cons.prems p by (simp add: map_of_eq_None_iff)
    then show ?thesis using p by (auto simp: fun_eq_iff map_add_def split: option.splits)
  qed
  finally show ?case .
qed (simp add: uploadAll_def map_add_def fun_eq_iff)

text \<open>On a machine whose uploads store what they are given, putting the seeds back after an assemble has
  emptied it leaves exactly the files of the record, and nothing a run had written.\<close>

theorem assemble_puts_back_the_record:
  assumes "\<And>n b w. content (wm_uploadVfsFile m n b w) = (content w)(n \<mapsto> b)"
    and "\<And>i w. content (wm_pushStdin m i w) = content w"
    and "content (ws_machine s) = Map.empty" "distinct (map fst (workingFiles s))"
  shows "content (ws_machine (applySeeds m s)) = map_option utf8_encode \<circ> map_of (workingFiles s)"
proof (cases "sd_vfs (ws_seeds s)")
  case None
  then show ?thesis using assms(2,3) by (auto simp: applySeeds_def workingFiles_def seeded_def fun_eq_iff split: option.splits)
next
  case (Some f)
  then have d: "distinct (map fst f)" using assms(4) by (simp add: workingFiles_def seeded_def)
  show ?thesis using Some assms(2,3) upload_all_files [OF assms(1) d]
    by (auto simp: applySeeds_def workingFiles_def seeded_def split: option.splits)
qed

theorem assemble_puts_back_the_record_witness:
  "map_of (fst (ws_machine (applySeeds plain_machine (session home_opts plain_machine [Stage ''b'' (Text ''2'') True, Machine (\<lambda>w. ([], []))]
     (mount home_opts None ([], [])))))) ''b'' = Some [50]"
proof -
  let ?s = "session home_opts plain_machine [Stage ''b'' (Text ''2'') True, Machine (\<lambda>w. ([], []))] (mount home_opts None ([], []))"
  have f: "workingFiles ?s = [(''b'', ''2'')]"
    by (simp add: mount_def perform_defs plain_machine_def home_opts_def seeded_def)
  have "map_of (fst (ws_machine (applySeeds plain_machine ?s))) = map_option utf8_encode \<circ> map_of (workingFiles ?s)"
  proof (rule assemble_puts_back_the_record)
    show "map_of (fst (wm_uploadVfsFile plain_machine n b w)) = (map_of (fst w))(n \<mapsto> b)" for n b w
      by (simp add: plain_machine_def update_conv' fun_upd_def)
    show "distinct (map fst (workingFiles ?s))" unfolding f by simp
  qed (simp_all add: plain_machine_def)
  then show ?thesis unfolding f by (simp add: utf8_encode_def utf8_char_def code_def)
qed

end
