(* ===== verification/Backend.thy ===== *)
theory Backend
  imports Worker
begin

text \<open>
  The backend on the main thread: \<open>web/lib/emulator/backend.ts\<close>, with the typed wrapper of the wasm instance
  it calls, \<open>emulator.ts\<close>.  It offers the page the same operations as the worker, so an operation is
  named by the \<open>Request\<close> the worker's client sends for it.  The private fields of the class are those of the
  worker's variables (\<open>emu\<close>, \<open>regions\<close>, \<open>frame\<close>, \<open>runEpoch\<close>, \<open>pauseRequested\<close>), so its state is a \<open>core\<close>,
  whose promises it does not use, and the snapshots its listeners were given.
\<close>

subsection \<open>The wrapper of an instance\<close>

text \<open>\<open>method?.() ?? d\<close> and \<open>method?.() ?? null\<close> on the instance itself.\<close>

definition or_else :: "('e, 'a) act option \<Rightarrow> 'a \<Rightarrow> ('e, 'a) act" where
  "or_else f d = (case f of None \<Rightarrow> ret d | Some g \<Rightarrow> g)"

definition or_null :: "('e, 'a) act option \<Rightarrow> ('e, 'a option) act" where
  "or_null f = (case f of None \<Rightarrow> ret None | Some g \<Rightarrow> bind g (\<lambda>a. ret (Some a)))"






definition ei_stdoutSeen :: "'e Emulator \<Rightarrow> ('e, int option) act" where
  "ei_stdoutSeen em = or_null (em_stdout_seen em)"

definition ei_stderrSeen :: "'e Emulator \<Rightarrow> ('e, int option) act" where
  "ei_stderrSeen em = or_null (em_stderr_seen em)"

definition ei_takeClobberNotes :: "'e Emulator \<Rightarrow> ('e, int list) act" where
  "ei_takeClobberNotes em = or_else (em_take_clobber_notes em) []"

definition ei_frames :: "'e Emulator \<Rightarrow> ('e, int list option) act" where
  "ei_frames em = or_null (em_frames em)"


definition ei_callCard :: "'e Emulator \<Rightarrow> ('e, int list option) act" where
  "ei_callCard em = bind (or_null (em_last_call em)) (\<lambda>ns. ret (nonempty ns))"

definition ei_getExitCode :: "'e Emulator \<Rightarrow> ('e, int option) act" where
  "ei_getExitCode em = bind (em_get_exit_code em) (\<lambda>v. ret (map_option to_number v))"


definition ei_wantsTerminal :: "'e Emulator \<Rightarrow> ('e, bool) act" where
  "ei_wantsTerminal em = or_else (em_wants_terminal em) False"

definition ei_hostCallContext :: "'e Emulator \<Rightarrow> ('e, ExternalCall option) act" where
  "ei_hostCallContext em =
     (case em_hostCallContext em of
        None \<Rightarrow> ret None
      | Some probe \<Rightarrow>
          bind probe (\<lambda>raw.
          ret (map_option (\<lambda>r. \<lparr>xc_name = hx_name r, xc_callSitePc = to_number (hx_call_site_pc r),
                                 xc_callSiteLine = hx_call_site_line r\<rparr>) raw)))"

definition ei_runUntilBreak :: "'e Emulator \<Rightarrow> nat \<Rightarrow> RunGoal option \<Rightarrow> ('e, RunResultPayload) act" where
  "ei_runUntilBreak em maxSteps until =
     bind (case until of
             Some goal \<Rightarrow> em_run_to em maxSteps (case_option (- 1) (\<lambda>d. d) (rg_depth goal)) (case_option (- 1) (\<lambda>p. p) (rg_pc goal))
           | None \<Rightarrow> em_run_until_break em maxSteps)
       (\<lambda>raw. ret (run_result raw))"


definition ei_getFpRegisters :: "'e Emulator \<Rightarrow> ('e, jstring list) act" where
  "ei_getFpRegisters em = or_else (em_get_fp_registers em) []"

definition ei_getChangedFpRegisters :: "'e Emulator \<Rightarrow> ('e, nat list) act" where
  "ei_getChangedFpRegisters em = or_else (em_get_changed_fp_registers em) []"

definition ei_getVectorRegisters :: "'e Emulator \<Rightarrow> ('e, jstring list) act" where
  "ei_getVectorRegisters em = or_else (em_get_vector_registers em) []"





subsection \<open>Operations\<close>

definition requireEmu :: "('e core, nat) act" where
  "requireEmu c =
     (case c_emulator c of
        None \<Rightarrow> (Inl \<lparr>th_runtimeError = False, th_message = ''emulator not initialized; call init() first''\<rparr>, c)
      | Some i \<Rightarrow> (Inr i, c))"

definition main_live_snapshot :: "'e Emulator \<Rightarrow> nat \<Rightarrow> ('e core, StateSnapshot) act" where
  "main_live_snapshot em i =
     bind (invoke i (em_get_all_registers em)) (\<lambda>regs.
     bind (invoke i (ei_stdoutSeen em)) (\<lambda>stdoutSeen.
     bind (invoke i (ei_stderrSeen em)) (\<lambda>stderrSeen.
     bind (invoke i (ei_takeClobberNotes em)) (\<lambda>clobberNotes.
     bind (invoke i (ei_frames em)) (\<lambda>frames.
     bind (invoke i (ei_callCard em)) (\<lambda>callCard.
     bind (gets c_frame) (\<lambda>frame.
     bind (invoke i (ei_getFpRegisters em)) (\<lambda>fpRegisters.
     bind (invoke i (ei_getVectorRegisters em)) (\<lambda>vectorRegisters.
     bind (invoke i (em_get_changed_registers em)) (\<lambda>changed.
     bind (invoke i (ei_getChangedFpRegisters em)) (\<lambda>changedFp.
     bind (invoke i (em_is_halted em)) (\<lambda>isHalted.
     bind (invoke i (em_is_blocked em)) (\<lambda>isBlocked.
     bind (invoke i (ei_getExitCode em)) (\<lambda>exit.
     bind (invoke i (em_can_step_back em)) (\<lambda>canStepBack.
     bind (invoke i (em_take_stdout em)) (\<lambda>stdoutDelta.
     bind (invoke i (em_take_stderr em)) (\<lambda>stderrDelta.
     bind (invoke i (em_list_vfs_files em)) (\<lambda>vfsFiles.
     bind (invoke i (em_list_states em)) (\<lambda>savedStates.
     bind (invoke i (ei_wantsTerminal em)) (\<lambda>wantsTerminal.
     bind (invoke i (ei_hostCallContext em)) (\<lambda>externalCall.
     bind (invoke i (em_take_dirty_addrs em)) (\<lambda>dirty.
     ret \<lparr>ss_frame = frame, ss_registers = ar_gpr regs, ss_fpRegisters = fpRegisters,
               ss_vectorRegisters = vectorRegisters, ss_sp = ar_sp regs, ss_pc = ar_pc regs, ss_nzcv = ar_nzcv regs,
               ss_changedRegs = changed, ss_changedFpRegs = changedFp, ss_halted = isHalted, ss_blocked = isBlocked,
               ss_exitCode = exit, ss_canStepBack = canStepBack, ss_stdoutDelta = stdoutDelta,
               ss_stderrDelta = stderrDelta, ss_stdoutSeen = stdoutSeen, ss_stderrSeen = stderrSeen,
               ss_vfsFiles = vfsFiles, ss_savedStates = savedStates, ss_wantsTerminal = wantsTerminal,
               ss_externalCall = externalCall, ss_clobberNotes = nonempty (Some clobberNotes), ss_frames = frames,
               ss_callCard = callCard, ss_dirtyAddrs = dirty\<rparr>))))))))))))))))))))))"

definition main_snapshot :: "'e Emulator \<Rightarrow> ('e core, StateSnapshot) act" where
  "main_snapshot em c =
     (case c_emulator c of
        None \<Rightarrow> (Inr (emptyStateSnapshot (c_frame c)), c)
      | Some i \<Rightarrow> main_live_snapshot em i c)"



definition then_snapshot :: "'e Emulator \<Rightarrow> (StateSnapshot \<Rightarrow> Value) \<Rightarrow> ('e core, Value) act" where
  "then_snapshot em f = bind (main_snapshot em) (\<lambda>s. ret (f s))"




text \<open>The class with its listeners, who are told every snapshot an operation returns.\<close>

record 'e main =
  mb_core :: "'e core"
  mb_heard :: "StateSnapshot list"

definition heard_of :: "Thrown + Value \<Rightarrow> StateSnapshot list" where
  "heard_of r = (case r of Inl e \<Rightarrow> [] | Inr v \<Rightarrow> case_option [] (\<lambda>s. [s]) (value_snapshot v))"

definition notifyAndReturn :: "('e core, Value) act \<Rightarrow> 'e main \<Rightarrow> (Thrown + Value) \<times> 'e main" where
  "notifyAndReturn f b = (case f (mb_core b) of (r, c) \<Rightarrow> (r, b\<lparr>mb_core := c, mb_heard := mb_heard b @ heard_of r\<rparr>))"

text \<open>\<open>init\<close> once the module has made the instance; its snapshot is returned and not told.\<close>

definition main_init :: "'e Wasm \<Rightarrow> 'e \<Rightarrow> ('e core, Value) act" where
  "main_init wasm e =
     bind (modify (\<lambda>c. c\<lparr>c_instances := c_instances c @ [e], c_emulator := Some (length (c_instances c))\<rparr>))
       (\<lambda>_. then_snapshot (wa_emulator wasm) VSnapshot)"

subsection \<open>The run\<close>

text \<open>The shared loop with this class as its host: the pause between heartbeats is left out, so it is zero.\<close>

definition main_round :: "'e Emulator \<Rightarrow> rat \<Rightarrow> RunState \<Rightarrow> ('e core, round \<times> StateSnapshot option) act" where
  "main_round em at_time ru =
     bind (invoke (ru_emu ru) (ei_runUntilBreak em (min CHUNK_STEPS (ru_max ru - ru_total ru)) (ru_until ru))) (\<lambda>chunk.
     let ru' = ru\<lparr>ru_total := ru_total ru + steps_executed chunk, ru_result := chunk\<rparr> in
     bind bumpFrame (\<lambda>_.
     if chunk_stops chunk \<or> sleep_ms chunk \<noteq> None then ret (Finished ru', None)
     else bind (invoke (ru_emu ru) (em_is_blocked em)) (\<lambda>isBlocked.
       if isBlocked then ret (Finished ru', None)
       else if steps_executed chunk = 0 then
         ret (Finished (ru'\<lparr>ru_result := chunk\<lparr>rr_error := Some NO_PROGRESS_ERROR\<rparr>\<rparr>), None)
       else if at_time - ru_lastHeartbeat ru \<ge> 0 then
         bind (main_snapshot em) (\<lambda>s. ret (Yielded (ru'\<lparr>ru_lastHeartbeat := at_time\<rparr>), Some s))
       else ret (Yielded ru', None))))"

definition main_enter :: "'e Emulator \<Rightarrow> rat \<Rightarrow> RunState \<Rightarrow> ('e core, round \<times> StateSnapshot option) act" where
  "main_enter em at_time ru = (if ru_total ru < ru_max ru then main_round em at_time ru else ret (Finished ru, None))"

definition main_start_run :: "'e Emulator \<Rightarrow> nat \<Rightarrow> RunGoal option \<Rightarrow> rat \<Rightarrow> rat \<Rightarrow> ('e core, round \<times> StateSnapshot option) act" where
  "main_start_run em maxSteps until start_time at_time =
     bind requireEmu (\<lambda>emu.
     bind (modify (\<lambda>c. c\<lparr>c_pauseRequested := False\<rparr>)) (\<lambda>_.
     bind (gets c_runEpoch) (\<lambda>epoch.
     main_enter em at_time
       \<lparr>ru_emu = emu, ru_epoch = epoch, ru_max = maxSteps, ru_until = until, ru_total = 0,
        ru_lastHeartbeat = start_time, ru_result = empty_result\<rparr>)))"

definition main_after_yield :: "'e Emulator \<Rightarrow> rat \<Rightarrow> RunState \<Rightarrow> ('e core, round \<times> StateSnapshot option) act" where
  "main_after_yield em at_time ru =
     bind (gets (\<lambda>c. (c_runEpoch c, c_pauseRequested c))) (\<lambda>(epoch, pauseRequested).
     if ru_epoch ru \<noteq> epoch then ret (Finished (ru\<lparr>ru_result := (ru_result ru)\<lparr>cancelled := True\<rparr>\<rparr>), None)
     else if pauseRequested then ret (Finished ru, None)
     else main_enter em at_time ru)"

definition main_finish_run :: "'e Emulator \<Rightarrow> RunState \<Rightarrow> ('e core, Value) act" where
  "main_finish_run em ru =
     bind (gets c_pauseRequested) (\<lambda>pauseRequested.
     let r = ru_result ru in
     bind (if ru_total ru \<ge> ru_max ru \<and> \<not> pauseRequested \<and> \<not> halted r \<and> \<not> hit_breakpoint r \<and> \<not> reached r \<and>
              \<not> bad_return r \<and> \<not> truthy (rr_error r) \<and> sleep_ms r = None
           then bind (invoke (ru_emu ru) (em_is_blocked em)) (\<lambda>b. ret (\<not> b)) else ret False) (\<lambda>limit.
     then_snapshot em (VRun (r\<lparr>steps_executed := ru_total ru, step_limit_reached := limit\<rparr>))))"

subsection \<open>Reading the instance in another order\<close>













lemma bind_ret [simp]: "bind (ret a) k = k a"
  by (simp add: fun_eq_iff bind_def ret_def)
















subsection \<open>The two backends side by side\<close>


definition loaded :: "'e core \<Rightarrow> bool" where
  "loaded c \<longleftrightarrow>
     (\<exists>i < length (c_instances c). c_emulator c = Some i) \<and>
     (\<exists>p < length (c_promises c). c_wasmReady c = Some p \<and> c_promises c ! p = Fulfilled)"





lemma loaded_update [simp]:
  "loaded (c\<lparr>c_instances := (c_instances c)[i := e]\<rparr>) = loaded c" "loaded (c\<lparr>c_frame := f\<rparr>) = loaded c"
  "loaded (c\<lparr>c_regions := r\<rparr>) = loaded c" "loaded (c\<lparr>c_runEpoch := n\<rparr>) = loaded c" "loaded (c\<lparr>c_pauseRequested := p\<rparr>) = loaded c"
  by (simp_all add: loaded_def)





























lemma invoke_bind: "i < length (c_instances c) \<Longrightarrow> invoke i (bind f k) c = bind (invoke i f) (\<lambda>a. invoke i (k a)) c"
  by (auto simp: invoke_def bind_def split: prod.splits sum.splits)

lemma invoke_ret: "invoke i (ret a) = ret a"
  by (simp add: fun_eq_iff invoke_def ret_def)

















lemma main_overtaken:
  "ru_epoch ru \<noteq> c_runEpoch c \<Longrightarrow> main_after_yield em t ru c = (Inr (Finished (ru\<lparr>ru_result := (ru_result ru)\<lparr>cancelled := True\<rparr>\<rparr>), None), c)"
  by (simp add: main_after_yield_def bind_def gets_def ret_def)

end
