(* ===== verification/Utf8.thy ===== *)
theory Utf8
  imports HeadlessRun
begin

text \<open>
  The platform's text codec, at the width the console needs it.  The rest of the
  library keeps strings of 8-bit characters; the console counts machine bytes
  against the UTF-16 code units of a JavaScript string, so here a string is the
  list of its code units, each below 65536, and \<open>TextEncoder.encode\<close> and
  \<open>TextDecoder.decode\<close> are written out from the Encoding standard: surrogate
  pairs, lone surrogates read as U+FFFD, the decoder's boundary rules, the
  replacement of a malformed sequence, and the byte order mark a decoder drops.
  The lemmas: encoding distributes over any cut that splits no pair, and decoding
  gives back every string without lone surrogates that starts with no byte order
  mark.
\<close>

type_synonym units = "nat list"

definition is_high :: "nat \<Rightarrow> bool" where
  "is_high u \<longleftrightarrow> 0xD800 \<le> u \<and> u \<le> 0xDBFF"

definition is_low :: "nat \<Rightarrow> bool" where
  "is_low u \<longleftrightarrow> 0xDC00 \<le> u \<and> u \<le> 0xDFFF"

definition lone :: "nat \<Rightarrow> nat" where
  "lone u = (if is_high u \<or> is_low u then 0xFFFD else u)"

definition pair :: "nat \<Rightarrow> nat \<Rightarrow> nat" where
  "pair u v = 0x10000 + (u - 0xD800) * 0x400 + (v - 0xDC00)"

fun scalars :: "units \<Rightarrow> nat list" where
  "scalars [] = []"
| "scalars [u] = [lone u]"
| "scalars (u # v # us) =
     (if is_high u \<and> is_low v then pair u v # scalars us else lone u # scalars (v # us))"

definition utf8_scalar :: "nat \<Rightarrow> nat list" where
  "utf8_scalar c =
     (if c < 0x80 then [c]
      else if c < 0x800 then [0xC0 + c div 0x40, 0x80 + c mod 0x40]
      else if c < 0x10000 then [0xE0 + c div 0x1000, 0x80 + c div 0x40 mod 0x40, 0x80 + c mod 0x40]
      else [0xF0 + c div 0x40000, 0x80 + c div 0x1000 mod 0x40, 0x80 + c div 0x40 mod 0x40,
            0x80 + c mod 0x40])"

definition encode :: "units \<Rightarrow> nat list" where
  "encode s = concat (map utf8_scalar (scalars s))"

text \<open>The decoder's state: the bytes still needed, the code point so far, and the
  bounds of the next continuation byte.\<close>

record decoder =
  needed :: nat
  point :: nat
  lower :: nat
  upper :: nat

definition idle :: decoder where
  "idle = \<lparr>needed = 0, point = 0, lower = 0x80, upper = 0xBF\<rparr>"

definition lead :: "nat \<Rightarrow> decoder option" where
  "lead b =
     (if 0xC2 \<le> b \<and> b \<le> 0xDF then Some \<lparr>needed = 1, point = b - 0xC0, lower = 0x80, upper = 0xBF\<rparr>
      else if 0xE0 \<le> b \<and> b \<le> 0xEF then
        Some \<lparr>needed = 2, point = b - 0xE0, lower = (if b = 0xE0 then 0xA0 else 0x80),
              upper = (if b = 0xED then 0x9F else 0xBF)\<rparr>
      else if 0xF0 \<le> b \<and> b \<le> 0xF4 then
        Some \<lparr>needed = 3, point = b - 0xF0, lower = (if b = 0xF0 then 0x90 else 0x80),
              upper = (if b = 0xF4 then 0x8F else 0xBF)\<rparr>
      else None)"

function decode_from :: "decoder \<Rightarrow> nat list \<Rightarrow> nat list" where
  "decode_from d [] = (if needed d = 0 then [] else [0xFFFD])"
| "decode_from d (b # bs) =
     (if needed d = 0 then
        (if b < 0x80 then b # decode_from idle bs
         else case lead b of None \<Rightarrow> 0xFFFD # decode_from idle bs | Some e \<Rightarrow> decode_from e bs)
      else if b < lower d \<or> upper d < b then 0xFFFD # decode_from idle (b # bs)
      else if needed d = 1 then (point d * 0x40 + (b - 0x80)) # decode_from idle bs
      else decode_from \<lparr>needed = needed d - 1, point = point d * 0x40 + (b - 0x80),
                        lower = 0x80, upper = 0xBF\<rparr> bs)"
  by pat_completeness auto
termination
  by (relation "measure (\<lambda>(d, bs). 2 * length bs + (if needed d = 0 then 0 else 1))")
     (auto simp: idle_def)

definition units_of_scalar :: "nat \<Rightarrow> units" where
  "units_of_scalar c =
     (if c < 0x10000 then [c]
      else [0xD800 + (c - 0x10000) div 0x400, 0xDC00 + (c - 0x10000) mod 0x400])"

definition decode :: "nat list \<Rightarrow> units" where
  "decode bs =
     concat (map units_of_scalar
       (decode_from idle (if take 3 bs = [0xEF, 0xBB, 0xBF] then drop 3 bs else bs)))"

subsection \<open>Encoding and cuts\<close>

text \<open>A cut between \<open>a\<close> and \<open>b\<close> that falls inside a surrogate pair.\<close>

definition splits_pair :: "units \<Rightarrow> units \<Rightarrow> bool" where
  "splits_pair a b \<longleftrightarrow> a \<noteq> [] \<and> b \<noteq> [] \<and> is_high (last a) \<and> is_low (hd b)"

lemma high_not_low: "is_high u \<Longrightarrow> \<not> is_low u"
  by (simp add: is_high_def is_low_def)

lemma scalars_append:
  "\<not> splits_pair a b \<Longrightarrow> scalars (a @ b) = scalars a @ scalars b"
proof (induction a rule: scalars.induct)
  case (2 u)
  then show ?case by (cases b) (auto simp: splits_pair_def)
next
  case (3 u v us)
  then show ?case by (cases us) (auto simp: splits_pair_def dest: high_not_low)
qed simp

lemma encode_Nil [simp]: "encode [] = []"
  by (simp add: encode_def)

lemma encode_append: "\<not> splits_pair a b \<Longrightarrow> encode (a @ b) = encode a @ encode b"
  by (simp add: encode_def scalars_append)

text \<open>Text without surrogates: every character of the basic plane.\<close>

definition plain :: "units \<Rightarrow> bool" where
  "plain s \<longleftrightarrow> (\<forall>u \<in> set s. u < 0x10000 \<and> \<not> is_high u \<and> \<not> is_low u)"

lemma plain_Nil [simp]: "plain []" by (simp add: plain_def)

lemma plain_append [simp]: "plain (a @ b) \<longleftrightarrow> plain a \<and> plain b" by (auto simp: plain_def)

lemma plain_take [simp]: "plain s \<Longrightarrow> plain (take n s)"
  by (auto simp: plain_def dest: in_set_takeD)

lemma plain_drop [simp]: "plain s \<Longrightarrow> plain (drop n s)"
  by (auto simp: plain_def dest: in_set_dropD)

lemma plain_splits_none: "plain a \<Longrightarrow> \<not> splits_pair a b"
  by (auto simp: splits_pair_def plain_def)

lemma encode_plain_append [simp]: "plain a \<Longrightarrow> encode (a @ b) = encode a @ encode b"
  by (simp add: encode_append plain_splits_none)

lemma encode_plain: "plain s \<Longrightarrow> encode s = concat (map utf8_scalar s)"
proof (induction s)
  case (Cons u s)
  have "encode ([u] @ s) = encode [u] @ encode s"
    using Cons.prems by (intro encode_append plain_splits_none) (simp add: plain_def)
  then show ?case using Cons by (simp add: plain_def encode_def lone_def)
qed simp

lemma encode_agrees_with_bytes: "encode (map code s) = utf8_encode s"
proof -
  have *: "code c < 256" for c by (simp add: code_def)
  have "\<not> is_high (code c) \<and> \<not> is_low (code c) \<and> code c < 0x10000" for c
    using * [of c] by (simp add: is_high_def is_low_def)
  then have "plain (map code s)" by (simp add: plain_def)
  then have "encode (map code s) = concat (map (\<lambda>c. utf8_scalar (code c)) s)"
    by (simp add: encode_plain o_def)
  also have "\<dots> = utf8_encode s"
  proof -
    have "utf8_scalar (code c) = utf8_char c" for c
      using * [of c] by (simp add: utf8_scalar_def utf8_char_def)
    then show ?thesis by (simp add: utf8_encode_def)
  qed
  finally show ?thesis .
qed

subsection \<open>Decoding what was encoded\<close>

definition is_scalar :: "nat \<Rightarrow> bool" where
  "is_scalar c \<longleftrightarrow> c \<le> 0x10FFFF \<and> \<not> is_high c \<and> \<not> is_low c"

lemma three_digits: "(c::nat) div 0x1000 * 0x1000 + c div 0x40 mod 0x40 * 0x40 + c mod 0x40 = c"
proof -
  have "c div 0x1000 = c div 0x40 div 0x40" by (simp add: div_mult2_eq [symmetric])
  then show ?thesis using div_mult_mod_eq [of "c div 0x40" "0x40"] div_mult_mod_eq [of c "0x40"]
    by linarith
qed

lemma four_digits:
  "(c::nat) div 0x40000 * 0x40000 + c div 0x1000 mod 0x40 * 0x1000 + c div 0x40 mod 0x40 * 0x40 + c mod 0x40 = c"
proof -
  have "c div 0x40000 = c div 0x1000 div 0x40" by (simp add: div_mult2_eq [symmetric])
  then show ?thesis using div_mult_mod_eq [of "c div 0x1000" "0x40"] three_digits [of c] by linarith
qed

lemma idle_needs_none [simp]: "needed idle = 0"
  by (simp add: idle_def)

lemma decode_from_three:
  assumes "0x800 \<le> c" "c < 0x10000" "is_scalar c"
  shows "decode_from idle (utf8_scalar c @ bs) = c # decode_from idle bs"
proof -
  define x y z where "x = c div 0x1000" and "y = c div 0x40 mod 0x40" and "z = c mod 0x40"
  have c: "x * 0x1000 + y * 0x40 + z = c" unfolding x_def y_def z_def by (rule three_digits)
  have b: "y < 0x40" "z < 0x40" unfolding y_def z_def by simp_all
  have x: "x < 0x10" using c assms by linarith
  have y: "x = 0 \<Longrightarrow> 0x20 \<le> y" using c b assms(1) by linarith
  have y': "x = 0xD \<Longrightarrow> y < 0x20"
    using c b assms(3) by (auto simp: is_scalar_def is_high_def is_low_def)
  have "utf8_scalar c = [0xE0 + x, 0x80 + y, 0x80 + z]"
    using assms by (simp add: utf8_scalar_def x_def y_def z_def)
  moreover have "(x * 0x40 + y) * 0x40 + z = c" using c by simp
  ultimately show ?thesis using b x y y' by (auto simp: lead_def)
qed

lemma decode_from_four:
  assumes "0x10000 \<le> c" "is_scalar c"
  shows "decode_from idle (utf8_scalar c @ bs) = c # decode_from idle bs"
proof -
  define w x y z where "w = c div 0x40000" and "x = c div 0x1000 mod 0x40"
    and "y = c div 0x40 mod 0x40" and "z = c mod 0x40"
  have c: "w * 0x40000 + x * 0x1000 + y * 0x40 + z = c"
    unfolding w_def x_def y_def z_def by (rule four_digits)
  have b: "x < 0x40" "y < 0x40" "z < 0x40" unfolding x_def y_def z_def by simp_all
  have top: "c \<le> 0x10FFFF" using assms by (simp add: is_scalar_def)
  have w: "w \<le> 4" using c top by linarith
  have x: "w = 0 \<Longrightarrow> 0x10 \<le> x" "w = 4 \<Longrightarrow> x < 0x10" using c b top assms(1) by linarith+
  have "utf8_scalar c = [0xF0 + w, 0x80 + x, 0x80 + y, 0x80 + z]"
    using assms by (simp add: utf8_scalar_def w_def x_def y_def z_def)
  moreover have "((w * 0x40 + x) * 0x40 + y) * 0x40 + z = c" using c by simp
  ultimately show ?thesis using b w x by (auto simp: lead_def)
qed

lemma decode_from_scalar:
  assumes "is_scalar c"
  shows "decode_from idle (utf8_scalar c @ bs) = c # decode_from idle bs"
proof -
  consider "c < 0x80" | "0x80 \<le> c" "c < 0x800" | "0x800 \<le> c" "c < 0x10000" | "0x10000 \<le> c"
    by linarith
  then show ?thesis
  proof cases
    case 1
    then show ?thesis by (simp add: utf8_scalar_def)
  next
    case 2
    then have "2 \<le> c div 0x40" "c div 0x40 < 0x20" "c div 0x40 * 0x40 + c mod 0x40 = c" by auto
    with 2 show ?thesis by (auto simp: utf8_scalar_def lead_def)
  next
    case 3
    then show ?thesis using assms by (rule decode_from_three)
  next
    case 4
    then show ?thesis using assms by (rule decode_from_four)
  qed
qed

lemma decode_from_scalars:
  "\<forall>c \<in> set cs. is_scalar c \<Longrightarrow> decode_from idle (concat (map utf8_scalar cs)) = cs"
  by (induction cs) (simp_all add: decode_from_scalar)

text \<open>Strings without lone surrogates.\<close>

fun well_formed :: "units \<Rightarrow> bool" where
  "well_formed [] = True"
| "well_formed [u] = (u < 0x10000 \<and> \<not> is_high u \<and> \<not> is_low u)"
| "well_formed (u # v # us) =
     (if is_high u \<and> is_low v then well_formed us
      else u < 0x10000 \<and> \<not> is_high u \<and> \<not> is_low u \<and> well_formed (v # us))"

lemma plain_well_formed: "plain s \<Longrightarrow> well_formed s"
  by (induction s rule: well_formed.induct) (auto simp: plain_def)

lemma pair_scalar: "is_high u \<Longrightarrow> is_low v \<Longrightarrow> is_scalar (pair u v)"
  by (auto simp: pair_def is_scalar_def is_high_def is_low_def)

lemma units_of_pair: "is_high u \<Longrightarrow> is_low v \<Longrightarrow> units_of_scalar (pair u v) = [u, v]"
proof -
  assume uv: "is_high u" "is_low v"
  then have "u = 0xD800 + (u - 0xD800)" "v = 0xDC00 + (v - 0xDC00)" "v - 0xDC00 < 0x400"
    by (auto simp: is_high_def is_low_def)
  then obtain h l where "u = 0xD800 + h" "v = 0xDC00 + l" "l < 0x400" by blast
  then show ?thesis by (simp add: pair_def units_of_scalar_def)
qed

lemma unit_scalar: "u < 0x10000 \<Longrightarrow> \<not> is_high u \<Longrightarrow> \<not> is_low u \<Longrightarrow> is_scalar u"
  by (simp add: is_scalar_def)

lemma units_of_unit: "u < 0x10000 \<Longrightarrow> units_of_scalar u = [u]"
  by (simp add: units_of_scalar_def)

lemma well_formed_scalars: "well_formed s \<Longrightarrow> c \<in> set (scalars s) \<Longrightarrow> is_scalar c"
  by (induction s rule: well_formed.induct)
     (auto simp: pair_scalar lone_def intro: unit_scalar split: if_splits)

lemma units_of_scalars: "well_formed s \<Longrightarrow> concat (map units_of_scalar (scalars s)) = s"
  by (induction s rule: well_formed.induct)
     (auto simp: units_of_pair lone_def units_of_unit split: if_splits)

definition byte_order_mark :: nat where
  "byte_order_mark = 0xFEFF"

text \<open>The three bytes of the mark start only the encoding of the mark.\<close>

lemma mark_bytes_scalar:
  assumes "is_scalar c" "take 3 (utf8_scalar c @ bs) = [0xEF, 0xBB, 0xBF]"
  shows "c = 0xFEFF"
proof -
  have "c div 0x1000 = 0xF" "c div 0x40 mod 0x40 = 0x3B" "c mod 0x40 = 0x3F"
    using assms by (auto simp: utf8_scalar_def is_scalar_def split: if_splits)
  then show ?thesis using three_digits [of c] by simp
qed

lemma decode_encode:
  assumes wf: "well_formed s" and mark: "s = [] \<or> hd s \<noteq> byte_order_mark"
  shows "decode (encode s) = s"
proof -
  have "take 3 (encode s) \<noteq> [0xEF, 0xBB, 0xBF]"
  proof (cases "scalars s")
    case (Cons c cs)
    have "c \<noteq> 0xFEFF"
      using wf mark Cons by (cases s rule: scalars.cases)
        (auto simp: byte_order_mark_def pair_def lone_def is_high_def is_low_def split: if_splits)
    moreover have "is_scalar c" using well_formed_scalars [OF wf, of c] Cons by simp
    ultimately show ?thesis using mark_bytes_scalar [of c "concat (map utf8_scalar cs)"] Cons
      by (auto simp: encode_def)
  qed (simp add: encode_def)
  then show ?thesis
    using decode_from_scalars [of "scalars s"] well_formed_scalars [OF wf] units_of_scalars [OF wf]
    by (simp add: decode_def encode_def)
qed

text \<open>Cutting the bytes of a text at the end of one of its prefixes decodes to
  that prefix.\<close>

lemma decode_cut:
  assumes "well_formed a" "\<not> splits_pair a b" "a = [] \<or> hd a \<noteq> byte_order_mark"
  shows "decode (take (length (encode a)) (encode (a @ b))) = a"
  using assms by (simp add: encode_append decode_encode)

lemma half_a_character: "decode (take 1 (encode [0xE9])) = [0xFFFD]"
  by (simp add: decode_def encode_def lone_def is_high_def is_low_def utf8_scalar_def lead_def
      units_of_scalar_def)

end
