(* ===== verification/ConsoleOutput.thy ===== *)
theory ConsoleOutput
  imports Utf8 "HOL-Library.Sublist"
begin

text \<open>
  The console's scrollback (\<open>lib/emulator/use-console-output.ts\<close>) and the part of
  \<open>applySnapshot\<close> in \<open>lib/emulator/use-emulator.ts\<close> that feeds it.  Each of the two
  streams keeps the text on screen and its place in the machine's output, in
  absolute bytes: where the held text starts, how many bytes of it the machine
  printed, how many at the head it did not.  An append may trim the head; a
  machine counter that moved back (a step back, a restored save) unprints.

  A React state setter and the ref it mirrors are one field.  The output tap is a
  callback into the terminal pane: a flag and the text it was handed.

  The theorems: after any sequence of prints, steps back, clears, assembles and
  terminal builds, what a stream holds is the end of what the machine has printed
  and its counters say which bytes; stepping back over a print and running it
  again leaves the text as it was; output the terminal pane took breaks this.
\<close>

definition MAX_CONSOLE_CHARS :: nat where
  "MAX_CONSOLE_CHARS = 256 * 1024"

definition CONSOLE_TRIM_MARKER :: units where
  "CONSOLE_TRIM_MARKER = map code (''[...earlier output trimmed...]'' @ [CHR 0x0A])"

definition MAX_NOTES :: nat where
  "MAX_NOTES = 64"

datatype ConsoleStream = Stdout | Stderr

definition textByteLength :: "units \<Rightarrow> int" where
  "textByteLength t = int (length (encode t))"

record BoundedAppend =
  boundedText :: units
  droppedBytes :: int

text \<open>The marker peeled off a text, and put back.\<close>

definition marked :: "units \<Rightarrow> bool" where
  "marked t \<longleftrightarrow> prefix CONSOLE_TRIM_MARKER t"

definition body :: "units \<Rightarrow> units" where
  "body t = (if marked t then drop (length CONSOLE_TRIM_MARKER) t else t)"

definition remark :: "bool \<Rightarrow> units \<Rightarrow> units" where
  "remark m t = (if m then CONSOLE_TRIM_MARKER @ t else t)"

definition appendBoundedTracked :: "units \<Rightarrow> units \<Rightarrow> BoundedAppend" where
  "appendBoundedTracked prev delta =
     (let nxt = body prev @ delta
      in if length nxt \<le> MAX_CONSOLE_CHARS
         then \<lparr>boundedText = remark (marked prev) nxt, droppedBytes = 0\<rparr>
         else let cut = length nxt - MAX_CONSOLE_CHARS
              in \<lparr>boundedText = CONSOLE_TRIM_MARKER @ drop cut nxt,
                  droppedBytes = textByteLength (take cut nxt)\<rparr>)"

definition appendBounded :: "units \<Rightarrow> units \<Rightarrow> units" where
  "appendBounded prev delta = boundedText (appendBoundedTracked prev delta)"

record StreamPosition =
  seenBase :: int
  bytesHeld :: int
  historyBytes :: int

record Console =
  textRef :: "ConsoleStream \<Rightarrow> units"
  posRef :: "ConsoleStream \<Rightarrow> StreamPosition"
  consoleNotes :: "units list"
  outputTap :: bool
  tapped :: "units list"

definition initialConsole :: Console where
  "initialConsole =
     \<lparr>textRef = (\<lambda>_. []), posRef = (\<lambda>_. \<lparr>seenBase = 0, bytesHeld = 0, historyBytes = 0\<rparr>),
      consoleNotes = [], outputTap = False, tapped = []\<rparr>"

definition writeStream :: "ConsoleStream \<Rightarrow> units \<Rightarrow> Console \<Rightarrow> Console" where
  "writeStream stream t c = c\<lparr>textRef := (textRef c)(stream := t)\<rparr>"

definition setPos :: "ConsoleStream \<Rightarrow> StreamPosition \<Rightarrow> Console \<Rightarrow> Console" where
  "setPos stream p c = c\<lparr>posRef := (posRef c)(stream := p)\<rparr>"

definition appendStream :: "ConsoleStream \<Rightarrow> units \<Rightarrow> Console \<Rightarrow> Console" where
  "appendStream stream delta c =
     (let pos = posRef c stream;
          r = appendBoundedTracked (textRef c stream) delta;
          fromHistory = min (historyBytes pos) (droppedBytes r);
          pos1 = pos\<lparr>historyBytes := historyBytes pos - fromHistory,
                     bytesHeld := bytesHeld pos + (textByteLength delta - (droppedBytes r - fromHistory)),
                     seenBase := seenBase pos + (droppedBytes r - fromHistory)\<rparr>
      in writeStream stream (boundedText r) (setPos stream pos1 c))"

definition appendStdout :: "units \<Rightarrow> Console \<Rightarrow> Console" where
  "appendStdout delta c =
     (if outputTap c then c\<lparr>tapped := tapped c @ [delta]\<rparr> else appendStream Stdout delta c)"

definition appendStderr :: "units \<Rightarrow> Console \<Rightarrow> Console" where
  "appendStderr delta c = appendStream Stderr delta c"

definition appendNotes :: "units list \<Rightarrow> Console \<Rightarrow> Console" where
  "appendNotes texts c =
     (let all = consoleNotes c @ texts in c\<lparr>consoleNotes := drop (length all - MAX_NOTES) all\<rparr>)"

text \<open>\<open>slice(0, k)\<close>: a negative end counts from the end of the array.\<close>

definition slice_to :: "int \<Rightarrow> 'a list \<Rightarrow> 'a list" where
  "slice_to k xs = take (nat (if k < 0 then int (length xs) + k else k)) xs"

definition syncSeen :: "ConsoleStream \<Rightarrow> int \<Rightarrow> Console \<Rightarrow> Console" where
  "syncSeen stream seen c =
     (let pos = posRef c stream
      in if seen \<ge> seenBase pos + bytesHeld pos
         then setPos stream (pos\<lparr>seenBase := seen - bytesHeld pos\<rparr>) c
         else let target = max 0 (seen - seenBase pos);
                  t = textRef c stream;
                  encoded = encode (body t);
                  floor = int (length encoded) - bytesHeld pos;
                  kept = decode (slice_to (floor + target) encoded)
              in writeStream stream (remark (marked t) kept)
                   (setPos stream (pos\<lparr>bytesHeld := target, seenBase := seen - target\<rparr>) c))"

definition clearStream :: "ConsoleStream \<Rightarrow> Console \<Rightarrow> Console" where
  "clearStream stream c =
     writeStream stream [] (setPos stream ((posRef c stream)\<lparr>bytesHeld := 0, historyBytes := 0\<rparr>) c)"

definition clearScrollback :: "Console \<Rightarrow> Console" where
  "clearScrollback c = (clearStream Stderr (clearStream Stdout c))\<lparr>consoleNotes := []\<rparr>"

definition preserveStream :: "ConsoleStream \<Rightarrow> Console \<Rightarrow> Console" where
  "preserveStream stream c =
     setPos stream ((posRef c stream)\<lparr>historyBytes := textByteLength (body (textRef c stream)),
                                      bytesHeld := 0, seenBase := 0\<rparr>) c"

definition preserveScrollback :: "Console \<Rightarrow> Console" where
  "preserveScrollback c = preserveStream Stderr (preserveStream Stdout c)"

text \<open>The machine's own \<open>clearConsole\<close> is the backend's; no backend, no clear.\<close>

definition clearConsole :: "('m \<Rightarrow> 'm) \<Rightarrow> 'm option \<Rightarrow> Console \<Rightarrow> 'm option \<times> Console" where
  "clearConsole backendClear backend c =
     (case backend of None \<Rightarrow> (None, c) | Some m \<Rightarrow> (Some (backendClear m), clearScrollback c))"

definition setOutputTap :: "bool \<Rightarrow> Console \<Rightarrow> Console" where
  "setOutputTap tap c = c\<lparr>outputTap := tap\<rparr>"

text \<open>The four fields of a snapshot that \<open>applySnapshot\<close> hands the console; an
  older machine sends no counters.\<close>

record ConsoleSnapshot =
  stdoutDelta :: units
  stderrDelta :: units
  stdoutSeen :: "int option"
  stderrSeen :: "int option"

definition applyOutput :: "ConsoleSnapshot \<Rightarrow> Console \<Rightarrow> Console" where
  "applyOutput snap c =
     (let c1 = if stdoutDelta snap \<noteq> [] then appendStdout (stdoutDelta snap) c else c;
          c2 = if stderrDelta snap \<noteq> [] then appendStderr (stderrDelta snap) c1 else c1;
          c3 = case stdoutSeen snap of None \<Rightarrow> c2 | Some n \<Rightarrow> syncSeen Stdout n c2
      in case stderrSeen snap of None \<Rightarrow> c3 | Some n \<Rightarrow> syncSeen Stderr n c3)"

text \<open>What starting an assemble does to the console: the editor's clears it, a
  terminal build keeps it as history.\<close>

definition startAssemble :: "bool \<Rightarrow> Console \<Rightarrow> Console" where
  "startAssemble surfaceErrors c = (if surfaceErrors then clearScrollback c else preserveScrollback c)"

subsection \<open>What the console needs of a codec\<close>

text \<open>Text that meters cleanly: encoding splits at every cut, and decoding the bytes
  of a prefix gives the prefix.\<close>

locale text_codec =
  fixes enc :: "'u list \<Rightarrow> 'b list" and dec :: "'b list \<Rightarrow> 'u list" and ok :: "'u list \<Rightarrow> bool"
  assumes ok_append: "ok (a @ b) \<longleftrightarrow> ok a \<and> ok b"
    and enc_append: "ok a \<Longrightarrow> enc (a @ b) = enc a @ enc b"
    and dec_enc: "ok a \<Longrightarrow> dec (enc a) = a"
begin

lemma dec_cut: "ok a \<Longrightarrow> dec (take (length (enc a)) (enc (a @ b))) = a"
  by (simp add: enc_append dec_enc)

lemma enc_eq_Nil: "ok a \<Longrightarrow> enc a = [] \<Longrightarrow> ok b \<Longrightarrow> enc b = [] \<Longrightarrow> a = b"
  by (metis dec_enc)

lemma length_enc_take: "ok a \<Longrightarrow> length (enc (take n a)) + length (enc (drop n a)) = length (enc a)"
  by (metis append_take_drop_id enc_append length_append ok_append)

end

definition printable :: "units \<Rightarrow> bool" where
  "printable t \<longleftrightarrow> plain t \<and> byte_order_mark \<notin> set t"

interpretation utf8: text_codec encode decode printable
proof
  show "decode (encode a) = a" if "printable a" for a
    using that by (intro decode_encode) (auto simp: printable_def plain_well_formed dest: hd_in_set)
qed (auto simp: printable_def)

lemma printable_Nil [simp]: "printable []"
  by (simp add: printable_def)

lemma printable_take_drop [simp]: "printable t \<Longrightarrow> printable (take n t)" "printable t \<Longrightarrow> printable (drop n t)"
  by (metis append_take_drop_id utf8.ok_append)+

lemma textByteLength_Nil [simp]: "textByteLength [] = 0"
  by (simp add: textByteLength_def)

lemma textByteLength_append [simp]:
  "printable a \<Longrightarrow> textByteLength (a @ b) = textByteLength a + textByteLength b"
  by (simp add: textByteLength_def utf8.enc_append)

lemma textByteLength_nonneg [simp]: "0 \<le> textByteLength t"
  by (simp add: textByteLength_def)

lemma textByteLength_zero: "printable t \<Longrightarrow> textByteLength t = 0 \<longleftrightarrow> t = []"
  using utf8.enc_eq_Nil [of t "[]"] by (auto simp: textByteLength_def)

lemma textByteLength_cut:
  "printable t \<Longrightarrow> textByteLength (take n t) + textByteLength (drop n t) = textByteLength t"
  using utf8.length_enc_take [of t n] by (simp add: textByteLength_def)

subsection \<open>The scrollback's invariant\<close>

text \<open>A stream shows \<open>history\<close> and then \<open>held\<close>, under the marker or not; the
  counters measure both, and \<open>held\<close> is the end of the machine's output \<open>out\<close>.  The
  marker is told from output by its text alone, so an unmarked text must not start
  with it.\<close>

definition laid_out :: "bool \<Rightarrow> units \<Rightarrow> units \<Rightarrow> units \<Rightarrow> units \<Rightarrow> StreamPosition \<Rightarrow> bool" where
  "laid_out m history held out t pos \<longleftrightarrow>
     t = remark m (history @ held) \<and> (m \<or> \<not> prefix CONSOLE_TRIM_MARKER (history @ held)) \<and>
     printable history \<and> printable out \<and> length (history @ held) \<le> MAX_CONSOLE_CHARS \<and>
     historyBytes pos = textByteLength history \<and> bytesHeld pos = textByteLength held \<and>
     suffix held out \<and> 0 \<le> seenBase pos"

definition accounted :: "units \<Rightarrow> units \<Rightarrow> StreamPosition \<Rightarrow> bool" where
  "accounted out t pos \<longleftrightarrow>
     (\<exists>m history held. laid_out m history held out t pos \<and>
        seenBase pos + bytesHeld pos \<le> textByteLength out)"

definition in_step :: "units \<Rightarrow> units \<Rightarrow> StreamPosition \<Rightarrow> bool" where
  "in_step out t pos \<longleftrightarrow>
     (\<exists>m history held. laid_out m history held out t pos \<and>
        seenBase pos + bytesHeld pos \<le> textByteLength out \<and>
        (held \<noteq> [] \<longrightarrow> seenBase pos + bytesHeld pos = textByteLength out))"

lemma printable_held: "suffix held out \<Longrightarrow> printable out \<Longrightarrow> printable held"
  by (auto simp: suffix_def utf8.ok_append)

lemma body_laid_out:
  assumes "laid_out m history held out t pos"
  shows "body t = history @ held" and "marked t = m"
  using assms by (auto simp: laid_out_def body_def marked_def remark_def split: if_splits)

lemma remark_body: "remark (marked t) (body t) = t"
  by (auto simp: remark_def marked_def body_def prefix_def)

text \<open>An append that would make a text start with the marker when it did not.\<close>

definition forges_marker :: "units \<Rightarrow> units \<Rightarrow> bool" where
  "forges_marker t delta \<longleftrightarrow> \<not> marked t \<and> marked (t @ delta)"

lemma stream_after_append:
  "textRef (appendStream s d c) s = appendBounded (textRef c s) d"
  "textRef (appendStream s d c) s' = (if s' = s then appendBounded (textRef c s) d else textRef c s')"
  "s' \<noteq> s \<Longrightarrow> posRef (appendStream s d c) s' = posRef c s'"
  by (simp_all add: appendStream_def appendBounded_def writeStream_def setPos_def Let_def)

lemma length_drop_to: "m \<le> length xs \<Longrightarrow> length (drop (length xs - m) xs) = m"
  by simp

text \<open>What a trim drops comes first out of the history.\<close>

lemma trim_bytes:
  assumes "printable history" "printable new"
  shows "min (textByteLength history) (textByteLength (take n (history @ new))) = textByteLength (take n history)"
    and "textByteLength (take n (history @ new)) = textByteLength (take n history) + textByteLength (take (n - length history) new)"
proof -
  show *: "textByteLength (take n (history @ new)) = textByteLength (take n history) + textByteLength (take (n - length history) new)"
    using assms by simp
  show "min (textByteLength history) (textByteLength (take n (history @ new))) = textByteLength (take n history)"
  proof (cases "n \<le> length history")
    case True
    then show ?thesis
      using * textByteLength_cut [OF assms(1), of n] textByteLength_nonneg [of "drop n history"]
      by (simp add: min_def del: textByteLength_nonneg)
  next
    case False
    then show ?thesis using * by (simp add: min_def)
  qed
qed

lemma append_accounted:
  assumes inv: "accounted out (textRef c s) (posRef c s)" and d: "printable d"
    and fm: "\<not> forges_marker (textRef c s) d"
  shows "accounted (out @ d) (textRef (appendStream s d c) s) (posRef (appendStream s d c) s)"
proof -
  obtain m H B where lo: "laid_out m H B out (textRef c s) (posRef c s)"
    and le: "seenBase (posRef c s) + bytesHeld (posRef c s) \<le> textByteLength out"
    using inv by (auto simp: accounted_def)
  note bt = body_laid_out [OF lo]
  have pr: "printable H" "printable out" "printable B" "suffix B out"
    using lo by (auto simp: laid_out_def intro: printable_held)
  have sfx: "suffix (drop n (B @ d)) (out @ d)" for n
    using pr(4) by (meson suffix_drop suffix_order.trans same_suffix_suffix)
  show ?thesis
  proof (cases "length ((H @ B) @ d) \<le> MAX_CONSOLE_CHARS")
    case True
    have "m \<or> \<not> prefix CONSOLE_TRIM_MARKER (H @ B @ d)"
      using fm bt lo by (auto simp: forges_marker_def marked_def laid_out_def remark_def)
    moreover have "suffix (B @ d) (out @ d)" using sfx [of 0] by simp
    ultimately have "laid_out m H (B @ d) (out @ d) (textRef (appendStream s d c) s) (posRef (appendStream s d c) s)"
      using True lo pr d bt
      by (simp add: laid_out_def appendStream_def appendBoundedTracked_def writeStream_def setPos_def
          Let_def utf8.ok_append)
    then show ?thesis
      using True le bt pr d unfolding accounted_def
      by (intro exI [of _ m] exI [of _ H] exI [of _ "B @ d"])
         (simp add: appendStream_def appendBoundedTracked_def writeStream_def setPos_def Let_def)
  next
    case False
    define cut where "cut = length (H @ B @ d) - MAX_CONSOLE_CHARS"
    let ?H = "drop cut H" and ?B = "drop (cut - length H) (B @ d)"
    have prd: "printable (B @ d)" using pr d by (simp add: utf8.ok_append)
    note tb = trim_bytes [OF pr(1) prd, of cut]
    have cB: "textByteLength ?B = textByteLength (B @ d) - textByteLength (take (cut - length H) (B @ d))"
      and cH: "textByteLength ?H = textByteLength H - textByteLength (take cut H)"
      using textByteLength_cut [OF prd, of "cut - length H"] textByteLength_cut [OF pr(1), of cut] by simp_all
    have r: "appendBoundedTracked (textRef c s) d =
        \<lparr>boundedText = CONSOLE_TRIM_MARKER @ ?H @ ?B, droppedBytes = textByteLength (take cut (H @ B @ d))\<rparr>"
      using False bt by (simp add: appendBoundedTracked_def Let_def cut_def)
    have counts: "historyBytes (posRef c s) = textByteLength H" "bytesHeld (posRef c s) = textByteLength B"
      using lo by (simp_all add: laid_out_def)
    have t1: "textRef (appendStream s d c) s = CONSOLE_TRIM_MARKER @ ?H @ ?B"
      and p1: "historyBytes (posRef (appendStream s d c) s) = textByteLength ?H"
        "bytesHeld (posRef (appendStream s d c) s) = textByteLength ?B"
        "seenBase (posRef (appendStream s d c) s) =
           seenBase (posRef c s) + textByteLength (take (cut - length H) (B @ d))"
      unfolding cH cB using counts tb pr
      by (simp_all add: appendStream_def r writeStream_def setPos_def Let_def del: take_append drop_append)
    have "length (?H @ ?B) \<le> MAX_CONSOLE_CHARS" using False by (simp add: cut_def)
    then have "laid_out True ?H ?B (out @ d) (textRef (appendStream s d c) s) (posRef (appendStream s d c) s)"
      using lo pr d sfx by (simp add: laid_out_def t1 p1 remark_def utf8.ok_append del: drop_append take_append)
    moreover have "seenBase (posRef (appendStream s d c) s) + bytesHeld (posRef (appendStream s d c) s)
        \<le> textByteLength (out @ d)"
      unfolding p1 cB using le counts pr by (simp del: take_append)
    ultimately show ?thesis unfolding accounted_def by blast
  qed
qed

subsection \<open>Matching the machine's counter\<close>

lemma stream_after_sync_other:
  "s' \<noteq> s \<Longrightarrow> textRef (syncSeen s n c) s' = textRef c s'"
  "s' \<noteq> s \<Longrightarrow> posRef (syncSeen s n c) s' = posRef c s'"
  by (simp_all add: syncSeen_def writeStream_def setPos_def Let_def)

lemma in_step_accounted: "in_step out t pos \<Longrightarrow> accounted out t pos"
  by (auto simp: in_step_def accounted_def)

text \<open>A counter at the end of the output only moves the offset.\<close>

lemma sync_forward:
  assumes "accounted out (textRef c s) (posRef c s)"
  shows "in_step out (textRef (syncSeen s (textByteLength out) c) s) (posRef (syncSeen s (textByteLength out) c) s)"
    and "textRef (syncSeen s (textByteLength out) c) s = textRef c s"
proof -
  obtain m H B where lo: "laid_out m H B out (textRef c s) (posRef c s)"
    and le: "seenBase (posRef c s) + bytesHeld (posRef c s) \<le> textByteLength out"
    using assms by (auto simp: accounted_def)
  have "laid_out m H B out (textRef (syncSeen s (textByteLength out) c) s) (posRef (syncSeen s (textByteLength out) c) s)"
    using lo le by (simp add: laid_out_def syncSeen_def setPos_def)
  then show "in_step out (textRef (syncSeen s (textByteLength out) c) s) (posRef (syncSeen s (textByteLength out) c) s)"
    unfolding in_step_def using le
    by (intro exI [of _ m] exI [of _ H] exI [of _ B]) (auto simp: syncSeen_def setPos_def Let_def)
  show "textRef (syncSeen s (textByteLength out) c) s = textRef c s"
    using le by (simp add: syncSeen_def setPos_def Let_def)
qed

text \<open>The cut of an unprint, when what stays of the held text is a prefix of it.\<close>

lemma sync_cut:
  assumes lo: "laid_out m H (B1 @ B2) out (textRef c s) (posRef c s)"
    and behind: "n < seenBase (posRef c s) + bytesHeld (posRef c s)"
    and target: "max 0 (n - seenBase (posRef c s)) = textByteLength B1"
  shows "textRef (syncSeen s n c) s = remark m (H @ B1)"
    and "posRef (syncSeen s n c) s = (posRef c s)\<lparr>bytesHeld := textByteLength B1, seenBase := n - textByteLength B1\<rparr>"
proof -
  have pr: "printable H" "printable B1" "printable B2"
    using lo by (auto simp: laid_out_def suffix_def utf8.ok_append)
  have held: "bytesHeld (posRef c s) = textByteLength B1 + textByteLength B2"
    using lo pr by (simp add: laid_out_def)
  have "decode (slice_to (int (length (encode (H @ B1 @ B2))) - bytesHeld (posRef c s) + textByteLength B1)
      (encode (H @ B1 @ B2))) = H @ B1"
    using pr held utf8.dec_cut [of "H @ B1" B2]
    by (simp add: slice_to_def textByteLength_def utf8.enc_append utf8.ok_append nat_add_distrib)
  then show "textRef (syncSeen s n c) s = remark m (H @ B1)"
    using behind body_laid_out [OF lo] target
    by (simp add: syncSeen_def writeStream_def setPos_def Let_def)
  show "posRef (syncSeen s n c) s = (posRef c s)\<lparr>bytesHeld := textByteLength B1, seenBase := n - textByteLength B1\<rparr>"
    using behind target by (simp add: syncSeen_def writeStream_def setPos_def Let_def)
qed

lemma unmarked_prefix:
  "m \<or> \<not> prefix CONSOLE_TRIM_MARKER (H @ B1 @ B2) \<Longrightarrow> m \<or> \<not> prefix CONSOLE_TRIM_MARKER (H @ B1)"
  by (metis append_assoc prefix_prefix)

lemma sync_cut_in_step:
  assumes lo: "laid_out m H (B1 @ B2) (out1 @ out2) (textRef c s) (posRef c s)"
    and behind: "textByteLength out1 < seenBase (posRef c s) + bytesHeld (posRef c s)"
    and target: "max 0 (textByteLength out1 - seenBase (posRef c s)) = textByteLength B1"
    and sfx: "suffix B1 out1"
  shows "in_step out1 (textRef (syncSeen s (textByteLength out1) c) s) (posRef (syncSeen s (textByteLength out1) c) s)"
proof -
  have pr: "printable H" "printable out1" using lo by (simp_all add: laid_out_def utf8.ok_append)
  moreover have "printable B1" using sfx pr(2) by (rule printable_held)
  ultimately have pr: "printable H" "printable B1" "printable out1" by simp_all
  have "textByteLength B1 \<le> textByteLength out1"
    using sfx pr by (auto simp: suffix_def utf8.ok_append)
  then have "laid_out m H B1 out1 (textRef (syncSeen s (textByteLength out1) c) s) (posRef (syncSeen s (textByteLength out1) c) s)"
    using lo pr sfx unmarked_prefix [of m H B1 B2] by (simp add: laid_out_def sync_cut [OF lo behind target])
  then show ?thesis unfolding in_step_def using sync_cut(2) [OF lo behind target]
    by (intro exI [of _ m] exI [of _ H] exI [of _ B1]) simp
qed

text \<open>A counter that moved back leaves the stream in step with what is left of the
  output.\<close>

lemma sync_back:
  assumes inv: "in_step (out1 @ out2) (textRef c s) (posRef c s)"
  shows "in_step out1 (textRef (syncSeen s (textByteLength out1) c) s) (posRef (syncSeen s (textByteLength out1) c) s)"
proof -
  obtain m H B where lo: "laid_out m H B (out1 @ out2) (textRef c s) (posRef c s)"
    and eq: "B \<noteq> [] \<Longrightarrow> seenBase (posRef c s) + bytesHeld (posRef c s) = textByteLength (out1 @ out2)"
    and le: "seenBase (posRef c s) + bytesHeld (posRef c s) \<le> textByteLength (out1 @ out2)"
    using inv by (auto simp: in_step_def)
  have pr: "printable out1" "printable out2" using lo by (simp_all add: laid_out_def utf8.ok_append)
  obtain X where X: "out1 @ out2 = X @ B" using lo by (auto simp: laid_out_def suffix_def)
  have "printable X" "printable B" using pr X utf8.ok_append by metis+
  show ?thesis
  proof (cases "seenBase (posRef c s) + bytesHeld (posRef c s) \<le> textByteLength out1")
    case True
    show ?thesis
    proof (cases "B = []")
      case False
      then have "textByteLength out2 \<le> 0" using True eq pr by simp
      then have "out2 = []" using textByteLength_zero [OF pr(2)] textByteLength_nonneg [of out2] by linarith
      then show ?thesis using sync_forward(1) [OF in_step_accounted, of out1] inv by simp
    next
      case B: True
      then have "accounted out1 (textRef c s) (posRef c s)"
        using lo True pr unfolding accounted_def
        by (intro exI [of _ m] exI [of _ H] exI [of _ B]) (simp add: laid_out_def)
      then show ?thesis by (rule sync_forward(1))
    qed
  next
    case False
    then have behind: "textByteLength out1 < seenBase (posRef c s) + bytesHeld (posRef c s)" by simp
    have base: "seenBase (posRef c s) = textByteLength X" if "B \<noteq> []"
      using eq [OF that] X lo \<open>printable X\<close> by (simp add: laid_out_def)
    from X consider us where "out1 = X @ us" "B = us @ out2" "B \<noteq> []"
      | us where "X = out1 @ us" "B \<noteq> []" | "B = []"
      by (auto simp: append_eq_append_conv2)
    then show ?thesis
    proof cases
      case 1
      then show ?thesis using lo behind base \<open>printable X\<close>
        by (intro sync_cut_in_step [of m H us out2 _ out2]) (simp_all add: suffix_def)
    next
      case 2
      then have "textByteLength out1 \<le> seenBase (posRef c s)" using base pr by simp
      then show ?thesis using lo behind
        by (intro sync_cut_in_step [of m H "[]" B _ out2]) simp_all
    next
      case 3
      then show ?thesis using lo behind
        by (intro sync_cut_in_step [of m H "[]" B _ out2]) (simp_all add: laid_out_def)
    qed
  qed
qed

subsection \<open>Sessions\<close>

text \<open>What the machine does to the console while no terminal pane has the output.
  The first component of a state is what the program has printed on each stream
  since the machine's counters were last at zero.\<close>

type_synonym session = "(ConsoleStream \<Rightarrow> units) \<times> Console"

definition snapshot_of :: "(ConsoleStream \<Rightarrow> units) \<Rightarrow> (ConsoleStream \<Rightarrow> units) \<Rightarrow> ConsoleSnapshot" where
  "snapshot_of out delta =
     \<lparr>stdoutDelta = delta Stdout, stderrDelta = delta Stderr,
      stdoutSeen = Some (textByteLength (out Stdout)), stderrSeen = Some (textByteLength (out Stderr))\<rparr>"

definition silent :: "ConsoleStream \<Rightarrow> units" where
  "silent = (\<lambda>_. [])"

definition prints :: "(ConsoleStream \<Rightarrow> units) \<Rightarrow> Console \<Rightarrow> bool" where
  "prints delta c \<longleftrightarrow> (\<forall>s. printable (delta s) \<and> \<not> forges_marker (textRef c s) (delta s))"

inductive console_step :: "session \<Rightarrow> session \<Rightarrow> bool" where
  print: "prints delta c \<Longrightarrow> \<not> outputTap c \<Longrightarrow>
    console_step (out, c)
      (\<lambda>s. out s @ delta s, applyOutput (snapshot_of (\<lambda>s. out s @ delta s) delta) c)"
| stepBack: "\<forall>s. prefix (out' s) (out s) \<Longrightarrow>
    console_step (out, c) (out', applyOutput (snapshot_of out' silent) c)"
| clear: "console_step (out, c) (out, clearScrollback c)"
| assemble: "console_step (out, c)
    (silent, applyOutput (snapshot_of silent silent) (startAssemble surfaceErrors c))"

definition console_reachable :: "session \<Rightarrow> bool" where
  "console_reachable = console_step\<^sup>*\<^sup>* (silent, initialConsole)"

definition in_step_everywhere :: "session \<Rightarrow> bool" where
  "in_step_everywhere x \<longleftrightarrow> (\<forall>s. in_step (fst x s) (textRef (snd x) s) (posRef (snd x) s)) \<and> \<not> outputTap (snd x)"

lemma tap_unchanged [simp]:
  "outputTap (appendStream s d c) = outputTap c" "outputTap (syncSeen s n c) = outputTap c"
  "outputTap (clearScrollback c) = outputTap c" "outputTap (preserveScrollback c) = outputTap c"
  by (simp_all add: appendStream_def syncSeen_def writeStream_def setPos_def Let_def clearScrollback_def
      clearStream_def preserveScrollback_def preserveStream_def)

text \<open>A snapshot reaches each stream by itself.\<close>

definition deliver :: "ConsoleStream \<Rightarrow> units \<Rightarrow> int \<Rightarrow> Console \<Rightarrow> Console" where
  "deliver s d n c = syncSeen s n (if d \<noteq> [] then appendStream s d c else c)"

lemma appendStream_local:
  "textRef c s = textRef c' s \<Longrightarrow> posRef c s = posRef c' s \<Longrightarrow>
    textRef (appendStream s d c) s = textRef (appendStream s d c') s \<and>
    posRef (appendStream s d c) s = posRef (appendStream s d c') s"
  by (simp add: appendStream_def writeStream_def setPos_def Let_def)

lemma syncSeen_local:
  "textRef c s = textRef c' s \<Longrightarrow> posRef c s = posRef c' s \<Longrightarrow>
    textRef (syncSeen s n c) s = textRef (syncSeen s n c') s \<and>
    posRef (syncSeen s n c) s = posRef (syncSeen s n c') s"
  by (simp add: syncSeen_def writeStream_def setPos_def Let_def)

lemma applyOutput_stream:
  assumes "\<not> outputTap c"
  shows "textRef (applyOutput (snapshot_of out delta) c) s = textRef (deliver s (delta s) (textByteLength (out s)) c) s"
    and "posRef (applyOutput (snapshot_of out delta) c) s = posRef (deliver s (delta s) (textByteLength (out s)) c) s"
    and "outputTap (applyOutput (snapshot_of out delta) c) = outputTap c"
proof -
  let ?c1 = "if delta Stdout \<noteq> [] then appendStream Stdout (delta Stdout) c else c"
  let ?c2 = "if delta Stderr \<noteq> [] then appendStream Stderr (delta Stderr) ?c1 else ?c1"
  have c: "applyOutput (snapshot_of out delta) c =
      syncSeen Stderr (textByteLength (out Stderr)) (syncSeen Stdout (textByteLength (out Stdout)) ?c2)"
    using assms by (simp add: applyOutput_def snapshot_of_def appendStdout_def appendStderr_def Let_def)
  show "outputTap (applyOutput (snapshot_of out delta) c) = outputTap c" by (simp add: c)
  have "textRef (applyOutput (snapshot_of out delta) c) s = textRef (deliver s (delta s) (textByteLength (out s)) c) s \<and>
        posRef (applyOutput (snapshot_of out delta) c) s = posRef (deliver s (delta s) (textByteLength (out s)) c) s"
  proof (cases s)
    case Stdout
    have "textRef ?c2 Stdout = textRef ?c1 Stdout \<and> posRef ?c2 Stdout = posRef ?c1 Stdout"
      by (simp add: stream_after_append)
    then show ?thesis unfolding c Stdout deliver_def
      using syncSeen_local [of ?c2 Stdout ?c1] by (simp add: stream_after_sync_other)
  next
    case Stderr
    have "textRef ?c1 Stderr = textRef c Stderr \<and> posRef ?c1 Stderr = posRef c Stderr"
      by (simp add: stream_after_append)
    then have "textRef ?c2 Stderr = textRef (if delta Stderr \<noteq> [] then appendStream Stderr (delta Stderr) c else c) Stderr \<and>
        posRef ?c2 Stderr = posRef (if delta Stderr \<noteq> [] then appendStream Stderr (delta Stderr) c else c) Stderr"
      using appendStream_local [of ?c1 Stderr c] by auto
    then show ?thesis unfolding c Stderr deliver_def
      by (intro syncSeen_local) (simp_all add: stream_after_sync_other)
  qed
  then show "textRef (applyOutput (snapshot_of out delta) c) s = textRef (deliver s (delta s) (textByteLength (out s)) c) s"
    and "posRef (applyOutput (snapshot_of out delta) c) s = posRef (deliver s (delta s) (textByteLength (out s)) c) s"
    by simp_all
qed

lemma deliver_print:
  assumes "in_step out (textRef c s) (posRef c s)" "printable d" "\<not> forges_marker (textRef c s) d"
  shows "in_step (out @ d) (textRef (deliver s d (textByteLength (out @ d)) c) s)
           (posRef (deliver s d (textByteLength (out @ d)) c) s)"
  using sync_forward(1) [of "out @ d"] append_accounted [OF in_step_accounted [OF assms(1)] assms(2, 3)]
    in_step_accounted [OF assms(1)]
  by (simp add: deliver_def)

lemma deliver_back:
  assumes "in_step out (textRef c s) (posRef c s)" "prefix out' out"
  shows "in_step out' (textRef (deliver s [] (textByteLength out') c) s) (posRef (deliver s [] (textByteLength out') c) s)"
  using sync_back [of out' _ c s] assms by (auto simp: deliver_def prefix_def)

lemma clear_in_step:
  assumes "in_step out (textRef c s) (posRef c s)"
  shows "in_step out (textRef (clearScrollback c) s) (posRef (clearScrollback c) s)"
proof -
  obtain m H B where lo: "laid_out m H B out (textRef c s) (posRef c s)"
    and le: "seenBase (posRef c s) + bytesHeld (posRef c s) \<le> textByteLength out"
    using assms by (auto simp: in_step_def)
  have "seenBase (posRef c s) \<le> textByteLength out"
    using lo le textByteLength_nonneg [of B] unfolding laid_out_def by linarith
  moreover have "textRef (clearScrollback c) s = []"
    "posRef (clearScrollback c) s = (posRef c s)\<lparr>bytesHeld := 0, historyBytes := 0\<rparr>"
    by (cases s; simp add: clearScrollback_def clearStream_def writeStream_def setPos_def)+
  moreover have "\<not> prefix CONSOLE_TRIM_MARKER []" by (simp add: CONSOLE_TRIM_MARKER_def)
  ultimately show ?thesis using lo le unfolding in_step_def
    by (intro exI [of _ False] exI [of _ "[]"]) (simp add: laid_out_def remark_def)
qed

lemma preserve_in_step:
  assumes "in_step out (textRef c s) (posRef c s)"
  shows "in_step out (textRef (preserveScrollback c) s) (posRef (preserveScrollback c) s)"
    and "textRef (preserveScrollback c) s = textRef c s"
proof -
  obtain m H B where lo: "laid_out m H B out (textRef c s) (posRef c s)"
    using assms by (auto simp: in_step_def)
  have "printable B" using lo by (auto simp: laid_out_def intro: printable_held)
  moreover show t: "textRef (preserveScrollback c) s = textRef c s"
    by (cases s; simp add: preserveScrollback_def preserveStream_def setPos_def)
  moreover have "posRef (preserveScrollback c) s =
      (posRef c s)\<lparr>historyBytes := textByteLength (H @ B), bytesHeld := 0, seenBase := 0\<rparr>"
    using body_laid_out [OF lo]
    by (cases s; simp add: preserveScrollback_def preserveStream_def setPos_def)
  ultimately show "in_step out (textRef (preserveScrollback c) s) (posRef (preserveScrollback c) s)"
    using lo unfolding in_step_def
    by (intro exI [of _ m] exI [of _ "H @ B"] exI [of _ "[]"]) (simp add: laid_out_def utf8.ok_append)
qed

lemma startAssemble_in_step:
  "in_step_everywhere (out, c) \<Longrightarrow> in_step_everywhere (out, startAssemble surfaceErrors c)"
  by (auto simp: in_step_everywhere_def startAssemble_def clear_in_step preserve_in_step)

lemma stepBack_in_step:
  assumes "in_step_everywhere (out, c)" "\<forall>s. prefix (out' s) (out s)"
  shows "in_step_everywhere (out', applyOutput (snapshot_of out' silent) c)"
proof -
  have "in_step (out' s) (textRef (deliver s [] (textByteLength (out' s)) c) s)
      (posRef (deliver s [] (textByteLength (out' s)) c) s)" for s
    using assms by (intro deliver_back [of "out s"]) (auto simp: in_step_everywhere_def)
  then show ?thesis using assms(1) applyOutput_stream [of c out' silent]
    by (simp add: in_step_everywhere_def silent_def)
qed

lemma initial_in_step: "in_step_everywhere (silent, initialConsole)"
proof -
  have "\<not> prefix CONSOLE_TRIM_MARKER []" by (simp add: CONSOLE_TRIM_MARKER_def)
  then show ?thesis
    by (auto simp: in_step_everywhere_def in_step_def silent_def initialConsole_def laid_out_def remark_def)
qed

lemma step_in_step:
  assumes "console_step x y" "in_step_everywhere x"
  shows "in_step_everywhere y"
  using assms
proof (induction rule: console_step.induct)
  case (print delta c out)
  then show ?case using applyOutput_stream [of c "\<lambda>s. out s @ delta s" delta]
    by (simp add: in_step_everywhere_def prints_def deliver_print)
next
  case (assemble out c surfaceErrors)
  then show ?case
    using stepBack_in_step [OF startAssemble_in_step, of out c silent surfaceErrors]
    by (simp add: silent_def)
next
  case (stepBack out' out c)
  then show ?case by (blast intro: stepBack_in_step)
qed (simp add: in_step_everywhere_def clear_in_step)

lemma reachable_in_step:
  assumes "console_reachable x"
  shows "in_step_everywhere x"
  using assms unfolding console_reachable_def
  by (induction rule: rtranclp_induct) (auto intro: initial_in_step step_in_step)



text \<open>A print that is still held in full ends the held text.\<close>

lemma held_ends_with:
  assumes lo: "laid_out m H B (before @ d) t pos" and held: "textByteLength d \<le> bytesHeld pos"
  obtains us where "B = us @ d" "suffix us before"
proof -
  obtain X where "before @ d = X @ B" using lo by (auto simp: laid_out_def suffix_def)
  then consider us where "before = X @ us" "B = us @ d" | us where "d = us @ B"
    by (auto simp: append_eq_append_conv2)
  then show thesis
  proof cases
    case 2
    then have "textByteLength us \<le> 0" "printable us"
      using lo held by (auto simp: laid_out_def utf8.ok_append)
    then have "us = []" using textByteLength_zero [of us] textByteLength_nonneg [of us] by linarith
    with 2 show thesis using that [of "[]"] by simp
  qed (auto intro: that simp: suffix_def)
qed

lemma marked_remark:
  "m \<or> \<not> prefix CONSOLE_TRIM_MARKER t \<Longrightarrow> marked (remark m t) = m"
  "m \<or> \<not> prefix CONSOLE_TRIM_MARKER t \<Longrightarrow> body (remark m t) = t"
  by (auto simp: body_def marked_def remark_def)

lemma rerun_stream:
  assumes inv: "in_step (before @ d) (textRef c s) (posRef c s)"
    and held: "textByteLength d \<le> bytesHeld (posRef c s)" and d: "d \<noteq> []"
  shows "textRef (deliver s d (textByteLength (before @ d)) (deliver s [] (textByteLength before) c)) s = textRef c s"
proof -
  let ?c = "deliver s [] (textByteLength before) c"
  obtain m H B where lo: "laid_out m H B (before @ d) (textRef c s) (posRef c s)"
    and eq: "B \<noteq> [] \<longrightarrow> seenBase (posRef c s) + bytesHeld (posRef c s) = textByteLength (before @ d)"
    using inv by (auto simp: in_step_def)
  obtain us where B: "B = us @ d" using held_ends_with [OF lo held] .
  then have lo: "laid_out m H (us @ d) (before @ d) (textRef c s) (posRef c s)" using lo by simp
  then have "printable (us @ d)" using printable_held [of "us @ d" "before @ d"] by (simp add: laid_out_def)
  then have pr: "printable before" "printable d" "printable us"
    using lo by (simp_all add: laid_out_def utf8.ok_append)
  have pos: "0 < textByteLength d"
    using textByteLength_zero [OF pr(2)] textByteLength_nonneg [of d] d by linarith
  have counts: "seenBase (posRef c s) + textByteLength us = textByteLength before"
    "bytesHeld (posRef c s) = textByteLength us + textByteLength d"
    using eq lo B d pr by (simp_all add: laid_out_def)
  have behind: "textByteLength before < seenBase (posRef c s) + bytesHeld (posRef c s)"
    and target: "max 0 (textByteLength before - seenBase (posRef c s)) = textByteLength us"
    using counts pos textByteLength_nonneg [of us] by linarith+
  have backed: "textRef ?c s = remark m (H @ us)"
    using sync_cut(1) [OF lo behind target] by (simp add: deliver_def)
  have m: "m \<or> \<not> prefix CONSOLE_TRIM_MARKER (H @ us)" "m \<or> \<not> prefix CONSOLE_TRIM_MARKER (H @ us @ d)"
    using lo unmarked_prefix [of m H us d] by (auto simp: laid_out_def)
  note mk = marked_remark [OF m(1)]
  have fm: "\<not> forges_marker (textRef ?c s) d"
    using m(2) mk by (auto simp: backed forges_marker_def marked_def remark_def)
  have inv': "in_step before (textRef ?c s) (posRef ?c s)" using inv by (rule deliver_back) simp
  have "textRef (appendStream s d ?c) s = remark m (H @ us @ d)"
    using lo mk by (simp add: stream_after_append appendBounded_def appendBoundedTracked_def backed laid_out_def)
  moreover have "textRef (deliver s d (textByteLength (before @ d)) ?c) s = textRef (appendStream s d ?c) s"
    using sync_forward(2) [OF append_accounted [OF in_step_accounted [OF inv'] pr(2) fm]] d
    by (simp add: deliver_def)
  ultimately show ?thesis using lo by (simp add: laid_out_def)
qed

lemma rerun_nothing:
  assumes "in_step out (textRef c s) (posRef c s)"
  shows "textRef (deliver s [] (textByteLength out) (deliver s [] (textByteLength out) c)) s = textRef c s"
proof -
  have "in_step out (textRef (deliver s [] (textByteLength out) c) s) (posRef (deliver s [] (textByteLength out) c) s)"
    using assms by (rule deliver_back) simp
  then show ?thesis using assms sync_forward(2) [OF in_step_accounted] by (simp add: deliver_def)
qed

text \<open>A step back and a re-run do not print twice.  In a reachable session, take
  the latest output \<open>d\<close> of each stream, as long as the scrollback still holds all of
  it: the snapshot of a step back over \<open>d\<close>, and then the snapshot of running it again,
  leave both texts as they were.\<close>

theorem rerun_prints_once:
  assumes "console_reachable (\<lambda>s. before s @ d s, c)"
    and "\<forall>s. textByteLength (d s) \<le> bytesHeld (posRef c s)"
  shows "textRef (applyOutput (snapshot_of (\<lambda>s. before s @ d s) d) (applyOutput (snapshot_of before silent) c))
    = textRef c"
proof
  fix s
  let ?c = "applyOutput (snapshot_of before silent) c"
  have inv: "in_step (before s @ d s) (textRef c s) (posRef c s)" and tap: "\<not> outputTap c"
    using reachable_in_step [OF assms(1)] by (simp_all add: in_step_everywhere_def)
  note backed = applyOutput_stream [OF tap, of before silent]
  have again: "textRef (deliver s (d s) n ?c) s = textRef (deliver s (d s) n (deliver s [] (textByteLength (before s)) c)) s" for n
    unfolding deliver_def
    using backed(1, 2) [of s] appendStream_local [of ?c s "deliver s [] (textByteLength (before s)) c" "d s"]
      syncSeen_local [of ?c s "deliver s [] (textByteLength (before s)) c"]
      syncSeen_local [of "appendStream s (d s) ?c" s "appendStream s (d s) (deliver s [] (textByteLength (before s)) c)"]
    by (simp add: deliver_def silent_def)
  show "textRef (applyOutput (snapshot_of (\<lambda>s. before s @ d s) d) ?c) s = textRef c s"
    using applyOutput_stream(1) [of ?c "\<lambda>s. before s @ d s" d s] backed(3) tap again
      rerun_stream [OF inv] rerun_nothing [of "before s" c s] inv assms(2)
    by (cases "d s = []") simp_all
qed

definition on_stdout :: "units \<Rightarrow> ConsoleStream \<Rightarrow> units" where
  "on_stdout t s = (if s = Stdout then t else [])"

lemma first_print_reachable:
  assumes "printable a" "\<not> marked a"
  shows "console_reachable (on_stdout a, applyOutput (snapshot_of (on_stdout a) (on_stdout a)) initialConsole)"
proof -
  have "prints (on_stdout a) initialConsole"
    using assms by (simp add: prints_def on_stdout_def initialConsole_def forges_marker_def marked_def
        CONSOLE_TRIM_MARKER_def)
  then have "console_step (silent, initialConsole)
      (\<lambda>s. silent s @ on_stdout a s,
       applyOutput (snapshot_of (\<lambda>s. silent s @ on_stdout a s) (on_stdout a)) initialConsole)"
    by (rule console_step.print) (simp add: initialConsole_def)
  then show ?thesis by (simp add: console_reachable_def silent_def)
qed

definition hi :: units where
  "hi = [104, 105]"

lemma hi_prints: "printable hi" "\<not> marked hi"
  by (simp_all add: hi_def printable_def plain_def is_high_def is_low_def byte_order_mark_def marked_def
      CONSOLE_TRIM_MARKER_def)


lemma first_print_state:
  assumes "a \<noteq> []" "length a \<le> MAX_CONSOLE_CHARS"
  shows "textRef (applyOutput (snapshot_of (on_stdout a) (on_stdout a)) initialConsole) Stdout = a"
    and "posRef (applyOutput (snapshot_of (on_stdout a) (on_stdout a)) initialConsole) Stdout =
      \<lparr>seenBase = 0, bytesHeld = textByteLength a, historyBytes = 0\<rparr>"
  using assms applyOutput_stream(1, 2) [of initialConsole "on_stdout a" "on_stdout a" Stdout]
  by (simp_all add: initialConsole_def deliver_def on_stdout_def appendStream_def appendBoundedTracked_def
      writeStream_def setPos_def Let_def syncSeen_def remark_def marked_def body_def CONSOLE_TRIM_MARKER_def)

theorem rerun_prints_once_witness:
  "textRef (applyOutput (snapshot_of (\<lambda>s. silent s @ on_stdout hi s) (on_stdout hi))
      (applyOutput (snapshot_of silent silent)
        (applyOutput (snapshot_of (on_stdout hi) (on_stdout hi)) initialConsole))) Stdout = hi"
proof -
  let ?c = "applyOutput (snapshot_of (on_stdout hi) (on_stdout hi)) initialConsole"
  have hi: "hi \<noteq> []" "length hi \<le> MAX_CONSOLE_CHARS" by (simp_all add: hi_def MAX_CONSOLE_CHARS_def)
  have e: "posRef ?c Stderr = \<lparr>seenBase = 0, bytesHeld = 0, historyBytes = 0\<rparr>"
    using applyOutput_stream(2) [of initialConsole "on_stdout hi" "on_stdout hi" Stderr]
    by (simp add: initialConsole_def deliver_def on_stdout_def syncSeen_def setPos_def Let_def)
  have "textByteLength (on_stdout hi s) \<le> bytesHeld (posRef ?c s)" for s
    using first_print_state(2) [OF hi] e by (cases s) (simp_all add: on_stdout_def)
  then show ?thesis
    using rerun_prints_once [of silent "on_stdout hi" ?c] first_print_reachable [OF hi_prints]
      first_print_state(1) [OF hi]
    by (simp add: silent_def)
qed

subsection \<open>Where the accounting fails\<close>

lemma syncSeen_Stderr_idle:
  "posRef c Stderr = \<lparr>seenBase = 0, bytesHeld = 0, historyBytes = 0\<rparr> \<Longrightarrow>
    textRef (syncSeen Stderr 0 c) = textRef c \<and> posRef (syncSeen Stderr 0 c) = posRef c"
  by (simp add: syncSeen_def setPos_def fun_upd_idem)

text \<open>C38: output the terminal pane took is unprinted from the console.  The program
  prints \<open>a\<close> to the console, then \<open>d\<close>, no shorter, while the pane has the tap; going
  back to the machine's state before \<open>d\<close>, a step back or a restored save, erases \<open>a\<close>
  from the console, though the machine has printed it.\<close>

theorem going_back_past_the_pane_erases:
  assumes "printable a" "\<not> marked a" "a \<noteq> []" "length a \<le> MAX_CONSOLE_CHARS"
    and "printable d" "textByteLength a \<le> textByteLength d" "d \<noteq> []"
  defines "c1 \<equiv> applyOutput (snapshot_of (on_stdout a) (on_stdout a)) initialConsole"
  defines "c2 \<equiv> applyOutput (snapshot_of (on_stdout (a @ d)) (on_stdout d)) (setOutputTap True c1)"
  defines "c3 \<equiv> applyOutput (snapshot_of (on_stdout a) silent) (setOutputTap False c2)"
  shows "textRef c1 Stdout = a \<and> textRef c2 Stdout = a \<and> textRef c3 Stdout = []"
proof -
  note first = first_print_state [OF assms(3, 4), folded c1_def]
  have pos: "0 < textByteLength a"
    using textByteLength_zero [OF assms(1)] textByteLength_nonneg [of a] assms(3) by linarith
  have c2: "textRef c2 Stdout = a"
    "posRef c2 Stdout = \<lparr>seenBase = textByteLength d, bytesHeld = textByteLength a, historyBytes = 0\<rparr>"
    using first assms(1, 7)
    by (simp_all add: c2_def applyOutput_def snapshot_of_def on_stdout_def appendStdout_def setOutputTap_def
        stream_after_sync_other syncSeen_def [of Stdout] setPos_def writeStream_def Let_def)
  have "laid_out False [] ([] @ a) a (textRef (setOutputTap False c2) Stdout) (posRef (setOutputTap False c2) Stdout)"
    using c2 assms(1, 2, 4) by (simp add: laid_out_def setOutputTap_def remark_def marked_def)
  then have "textRef (syncSeen Stdout (textByteLength a) (setOutputTap False c2)) Stdout = remark False ([] @ [])"
    using c2 pos assms(6) by (intro sync_cut(1)) (simp_all add: setOutputTap_def)
  then have "textRef c3 Stdout = []"
    using applyOutput_stream(1) [of "setOutputTap False c2" "on_stdout a" silent Stdout]
    by (simp add: c3_def deliver_def silent_def on_stdout_def setOutputTap_def remark_def)
  then show ?thesis using first c2 by simp
qed

theorem going_back_past_the_pane_erases_witness:
  "textRef (applyOutput (snapshot_of (on_stdout hi) silent)
     (setOutputTap False
       (applyOutput (snapshot_of (on_stdout (hi @ hi)) (on_stdout hi))
         (setOutputTap True (applyOutput (snapshot_of (on_stdout hi) (on_stdout hi)) initialConsole))))) Stdout = []"
  using going_back_past_the_pane_erases [OF hi_prints _ _ hi_prints(1)]
  by (simp add: hi_def MAX_CONSOLE_CHARS_def)

text \<open>A trim counts characters, so it can fall inside a surrogate pair; both halves
  then encode as U+FFFD, and the two counters fall short of the text they measure.\<close>

lemma encode_letters: "encode (replicate n 65) = replicate n 65"
  by (induction n) (simp_all add: encode_plain plain_def is_high_def is_low_def utf8_scalar_def)

lemma encode_letters_after:
  "textByteLength ([0xD83D, 0xDE00] @ replicate n 65) = int n + 4"
  "textByteLength ([0xDE00] @ replicate n 65) = int n + 3"
  "textByteLength [0xD83D] = 3"
proof -
  have "\<not> splits_pair [0xD83D, 0xDE00] (replicate n 65)" "\<not> splits_pair [0xDE00] (replicate n 65)"
    by (simp_all add: splits_pair_def is_high_def is_low_def)
  note cuts = this [THEN encode_append]
  show "textByteLength ([0xD83D, 0xDE00] @ replicate n 65) = int n + 4"
    "textByteLength ([0xDE00] @ replicate n 65) = int n + 3" "textByteLength [0xD83D] = 3"
    unfolding textByteLength_def cuts encode_letters
    by (simp_all add: encode_def is_high_def is_low_def pair_def lone_def utf8_scalar_def)
qed

lemma trim_inside_a_pair:
  assumes max: "MAX_CONSOLE_CHARS = n + 2"
  defines "c \<equiv> appendStream Stdout [65] (appendStream Stdout ([0xD83D, 0xDE00] @ replicate n 65) initialConsole)"
  shows "bytesHeld (posRef c Stdout) + historyBytes (posRef c Stdout) + 2 = textByteLength (body (textRef c Stdout))"
proof -
  let ?t = "[0xD83D, 0xDE00] @ replicate n 65"
  let ?c = "appendStream Stdout ?t initialConsole"
  have unmarked: "\<not> marked ?t" "\<not> marked []" by (simp_all add: marked_def CONSOLE_TRIM_MARKER_def code_def)
  have "appendBoundedTracked [] ?t = \<lparr>boundedText = ?t, droppedBytes = 0\<rparr>"
    using unmarked by (simp add: appendBoundedTracked_def body_def remark_def max)
  then have one: "textRef ?c Stdout = ?t" "posRef ?c Stdout = \<lparr>seenBase = 0, bytesHeld = int n + 4, historyBytes = 0\<rparr>"
    using encode_letters_after(1) [of n]
    by (simp_all add: appendStream_def initialConsole_def writeStream_def setPos_def Let_def del: append.simps)
  have "appendBoundedTracked ?t [65] =
      \<lparr>boundedText = CONSOLE_TRIM_MARKER @ [0xDE00] @ replicate (Suc n) 65, droppedBytes = 3\<rparr>"
    using unmarked encode_letters_after(3)
    by (simp add: appendBoundedTracked_def body_def max replicate_append_same)
  moreover have "body (CONSOLE_TRIM_MARKER @ t) = t" for t by (simp add: body_def marked_def)
  moreover have "textByteLength [65] = 1"
    by (simp add: textByteLength_def encode_def lone_def is_high_def is_low_def utf8_scalar_def)
  ultimately show ?thesis
    using one encode_letters_after(2) [of "Suc n"]
    by (simp add: c_def appendStream_def [of Stdout "[65]"] writeStream_def setPos_def Let_def
        del: append.simps replicate.simps)
qed

end
