(* ===== verification/Breakpoints.thy ===== *)
theory Breakpoints
  imports FileMap
begin

text \<open>
  Breakpoints in both of their forms (\<open>lib/emulator/use-breakpoints.ts\<close>): the lines
  with a dot in the gutter, and the addresses armed in the CPU, kept together by a
  table from each armed address to the dots that share it.  The state carries the
  refs the hook reads (\<open>lineMapRef\<close>, \<open>sourceRef\<close>, \<open>programLoadedRef\<close>) and the CPU's
  breakpoint set, which is a set in \<open>emulator/src/cpu/control.rs\<close>.  A JavaScript
  \<open>Set\<close> is a list in insertion order, a \<open>Map\<close> an association list.  The re-key of an
  assemble awaits the backend once, so it is two definitions, and what the student
  toggles in between is an explicit list.

  The theorems: while no edit has moved the lines, the CPU stops exactly where a
  dot points; an assemble restores that from any state, even with dots toggled
  while it runs; an edit breaks it until the next assemble.
\<close>

record BpState =
  dots :: "int list"
  linesByAddr :: "(int \<times> int list) list"
  armed :: "int set"
  bpMap :: LineMap
  bpSource :: jstring
  programLoaded :: bool
  backendReady :: bool
  codeBase :: int

subsection \<open>The CPU's set\<close>

definition set_breakpoint :: "int \<Rightarrow> BpState \<Rightarrow> BpState" where
  "set_breakpoint addr s = s\<lparr>armed := insert addr (armed s)\<rparr>"

definition clear_breakpoint :: "int \<Rightarrow> BpState \<Rightarrow> BpState" where
  "clear_breakpoint addr s = s\<lparr>armed := armed s - {addr}\<rparr>"

definition clear_all_breakpoints :: "BpState \<Rightarrow> BpState" where
  "clear_all_breakpoints s = s\<lparr>armed := {}\<rparr>"

subsection \<open>The hook\<close>

text \<open>The address of a line under a map, or by counting instructions when there is
  none; \<open>resolveBreakpointAddr\<close> and the re-key's own copy of it.\<close>

definition line_addr :: "int \<Rightarrow> jstring \<Rightarrow> LineMap \<Rightarrow> int \<Rightarrow> int option" where
  "line_addr base source m line =
     (if \<not> isEmptyLineMap m then lineToAddrFromMap line m
      else map_option (\<lambda>idx. base + int idx * 4) (sourceLineToInstrIndex line source))"

definition resolveBreakpointAddr :: "BpState \<Rightarrow> int \<Rightarrow> int option" where
  "resolveBreakpointAddr s line = line_addr (codeBase s) (bpSource s) (bpMap s) line"

definition lines_at :: "BpState \<Rightarrow> int \<Rightarrow> int list" where
  "lines_at s addr = (case map_of (linesByAddr s) addr of None \<Rightarrow> [] | Some ls \<Rightarrow> ls)"

definition toggleBreakpoint :: "int \<Rightarrow> BpState \<Rightarrow> BpState" where
  "toggleBreakpoint line s =
     (if \<not> backendReady s then s
      else case resolveBreakpointAddr s line of
        None \<Rightarrow>
          if programLoaded s then s
          else s\<lparr>dots := (if line \<in> set (dots s) then removeAll line (dots s) else dots s @ [line])\<rparr>
      | Some addr \<Rightarrow>
          let lns = lines_at s addr in
          if line \<in> set (dots s) then
            let rest = removeAll line lns;
                s1 = s\<lparr>dots := removeAll line (dots s)\<rparr>
            in if rest = []
               then clear_breakpoint addr (s1\<lparr>linesByAddr := AList.delete addr (linesByAddr s)\<rparr>)
               else s1\<lparr>linesByAddr := AList.update addr rest (linesByAddr s)\<rparr>
          else
            let s1 = (if lns = [] then set_breakpoint addr s else s)
            in s1\<lparr>dots := dots s @ [line], linesByAddr := AList.update addr (set_add line lns) (linesByAddr s)\<rparr>)"

definition remap_set :: "(int \<Rightarrow> int option) \<Rightarrow> int list \<Rightarrow> int list" where
  "remap_set remap ls =
     fold (\<lambda>line acc. case remap line of None \<Rightarrow> acc | Some l \<Rightarrow> set_add l acc) ls []"

definition remapBreakpoints :: "(int \<Rightarrow> int option) \<Rightarrow> BpState \<Rightarrow> BpState" where
  "remapBreakpoints remap s =
     s\<lparr>linesByAddr := filter (\<lambda>(addr, ls). ls \<noteq> [])
          (map (\<lambda>(addr, ls). (addr, remap_set remap ls)) (linesByAddr s)),
       dots := remap_set remap (dots s)\<rparr>"

definition clearAllBreakpointsHook :: "BpState \<Rightarrow> BpState" where
  "clearAllBreakpointsHook s =
     (let s1 = s\<lparr>linesByAddr := [], dots := []\<rparr>
      in if backendReady s then clear_all_breakpoints s1 else s1)"

definition setBreakpointAddress :: "int \<Rightarrow> BpState \<Rightarrow> BpState" where
  "setBreakpointAddress addr s = (if backendReady s then set_breakpoint addr s else s)"

definition clearBreakpointAddress :: "int \<Rightarrow> BpState \<Rightarrow> BpState" where
  "clearBreakpointAddress addr s = (if backendReady s then clear_breakpoint addr s else s)"

text \<open>The re-key up to its await, and its loop after it: the table, the surviving
  dots, the dropped lines and the CPU's set.\<close>

definition rekeyClear :: "BpState \<Rightarrow> BpState" where
  "rekeyClear s = (if backendReady s then clear_all_breakpoints s else s)"

type_synonym rekeying = "(int \<times> int list) list \<times> int list \<times> int list \<times> int set"

definition rekey_line :: "(int \<Rightarrow> int option) \<Rightarrow> int \<Rightarrow> rekeying \<Rightarrow> rekeying" where
  "rekey_line addr_of line = (\<lambda>(byAddr, survivors, dropped, cpu).
     case addr_of line of
       None \<Rightarrow> (byAddr, survivors, dropped @ [line], cpu)
     | Some addr \<Rightarrow>
         let lns = (case map_of byAddr addr of None \<Rightarrow> [] | Some ls \<Rightarrow> ls)
         in (AList.update addr (set_add line lns) byAddr, set_add line survivors, dropped,
             if lns = [] then insert addr cpu else cpu))"

definition rekeyArm :: "int \<Rightarrow> jstring \<Rightarrow> LineMap \<Rightarrow> BpState \<Rightarrow> int list \<times> BpState" where
  "rekeyArm base source m s =
     (if \<not> backendReady s then ([], s)
      else let (byAddr, survivors, dropped, cpu) =
             fold (rekey_line (line_addr base source m)) (dots s) ([], [], [], armed s)
           in (sort dropped, s\<lparr>linesByAddr := byAddr, dots := survivors, armed := cpu\<rparr>))"

text \<open>What \<open>assembleWith\<close> does around it: the source and an empty map at once, the
  fresh map when the machine has built the program, then the re-key, with the dots
  toggled while it waits, and the loaded flag last.\<close>

definition startAssembly :: "jstring \<Rightarrow> BpState \<Rightarrow> BpState" where
  "startAssembly source s = s\<lparr>bpSource := source, programLoaded := False, bpMap := emptyLineMap\<rparr>"

definition finishAssembly :: "int \<Rightarrow> jstring \<Rightarrow> LineMap \<Rightarrow> int list \<Rightarrow> BpState \<Rightarrow> int list \<times> BpState" where
  "finishAssembly base source m meanwhile s =
     (let s1 = fold toggleBreakpoint meanwhile (rekeyClear (s\<lparr>bpMap := m\<rparr>));
          (dropped, s2) = rekeyArm base source m s1
      in (dropped, s2\<lparr>programLoaded := True\<rparr>))"

subsection \<open>Dots and addresses\<close>

text \<open>The specification: the dots that point at an address, and the addresses some
  dot points at.\<close>

definition pointing_at :: "BpState \<Rightarrow> int \<Rightarrow> int set" where
  "pointing_at s a = {l \<in> set (dots s). resolveBreakpointAddr s l = Some a}"

definition consistent :: "BpState \<Rightarrow> bool" where
  "consistent s \<longleftrightarrow>
     (\<forall>a. set (lines_at s a) = pointing_at s a \<and> (a \<in> armed s \<longleftrightarrow> pointing_at s a \<noteq> {}))"

lemma set_set_add [simp]: "set (set_add x xs) = insert x (set xs)"
  by (auto simp: set_add_def)

lemma removeAll_eq_Nil: "removeAll x xs = [] \<longleftrightarrow> set xs \<subseteq> {x}"
  by (induction xs) auto

lemma resolve_cong:
  "bpMap s = bpMap t \<Longrightarrow> bpSource s = bpSource t \<Longrightarrow> codeBase s = codeBase t \<Longrightarrow>
    resolveBreakpointAddr s = resolveBreakpointAddr t"
  by (rule ext) (simp add: resolveBreakpointAddr_def)

lemma toggle_keeps [simp]:
  "bpMap (toggleBreakpoint l s) = bpMap s" "bpSource (toggleBreakpoint l s) = bpSource s"
  "codeBase (toggleBreakpoint l s) = codeBase s" "backendReady (toggleBreakpoint l s) = backendReady s"
  "programLoaded (toggleBreakpoint l s) = programLoaded s"
  by (simp_all add: toggleBreakpoint_def clear_breakpoint_def set_breakpoint_def Let_def split: option.split)

text \<open>A toggle by what it does to the dots, the table and the set.\<close>

lemma toggle_dots:
  assumes "backendReady s" "\<not> programLoaded s \<or> resolveBreakpointAddr s l \<noteq> None"
  shows "set (dots (toggleBreakpoint l s)) =
    (if l \<in> set (dots s) then set (dots s) - {l} else insert l (set (dots s)))"
  using assms
  by (auto simp: toggleBreakpoint_def clear_breakpoint_def set_breakpoint_def Let_def split: option.splits)

lemma toggle_lines_at:
  assumes "backendReady s" "resolveBreakpointAddr s l = Some a"
  shows "set (lines_at (toggleBreakpoint l s) b) =
    (if b = a then (if l \<in> set (dots s) then set (lines_at s a) - {l} else insert l (set (lines_at s a)))
     else set (lines_at s b))"
  using assms
  by (auto simp: toggleBreakpoint_def clear_breakpoint_def set_breakpoint_def Let_def lines_at_def
      update_conv' delete_conv' removeAll_eq_Nil split: option.splits)

lemma toggle_armed:
  assumes "backendReady s" "resolveBreakpointAddr s l = Some a"
  shows "armed (toggleBreakpoint l s) =
    (if l \<in> set (dots s) then (if set (lines_at s a) \<subseteq> {l} then armed s - {a} else armed s)
     else if lines_at s a = [] then insert a (armed s) else armed s)"
  using assms
  by (auto simp: toggleBreakpoint_def clear_breakpoint_def set_breakpoint_def Let_def removeAll_eq_Nil)

lemma resolve_toggle [simp]: "resolveBreakpointAddr (toggleBreakpoint l s) = resolveBreakpointAddr s"
  by (rule resolve_cong) simp_all

lemma toggle_unresolved:
  assumes "resolveBreakpointAddr s l = None"
  shows "linesByAddr (toggleBreakpoint l s) = linesByAddr s" "armed (toggleBreakpoint l s) = armed s"
    "pointing_at (toggleBreakpoint l s) a = pointing_at s a"
  using assms by (auto simp: toggleBreakpoint_def pointing_at_def resolveBreakpointAddr_def)

lemma toggle_pointing_at:
  assumes "backendReady s" "resolveBreakpointAddr s l = Some a"
  shows "pointing_at (toggleBreakpoint l s) b =
    (if b = a then (if l \<in> set (dots s) then pointing_at s a - {l} else insert l (pointing_at s a))
     else pointing_at s b)"
  using assms toggle_dots [of s l] by (auto simp: pointing_at_def)

lemma lines_at_cong: "linesByAddr s = linesByAddr t \<Longrightarrow> lines_at s = lines_at t"
  by (rule ext) (simp add: lines_at_def)

lemma toggle_consistent:
  assumes "consistent s"
  shows "consistent (toggleBreakpoint l s)"
proof (cases "backendReady s")
  case ready: True
  show ?thesis
  proof (cases "resolveBreakpointAddr s l")
    case None
    note u = toggle_unresolved [OF None]
    show ?thesis using assms u(2, 3) lines_at_cong [OF u(1)] by (simp add: consistent_def)
  next
    case (Some a)
    have lns: "set (lines_at s b) = pointing_at s b" "b \<in> armed s \<longleftrightarrow> pointing_at s b \<noteq> {}" for b
      using assms by (simp_all add: consistent_def)
    have dot: "l \<in> set (dots s) \<longleftrightarrow> l \<in> pointing_at s a" using Some by (simp add: pointing_at_def)
    have "lines_at s a = [] \<longleftrightarrow> pointing_at s a = {}" using lns(1) [of a] by auto
    then show ?thesis
      unfolding consistent_def toggle_lines_at [OF ready Some] toggle_pointing_at [OF ready Some]
        toggle_armed [OF ready Some] dot lns(1)
      using lns(2) by (auto split: if_splits)
  qed
qed (use assms in \<open>simp add: toggleBreakpoint_def\<close>)

text \<open>While the re-key waits, the CPU's set is empty but for what the toggles armed.\<close>

definition rekeying_ok :: "BpState \<Rightarrow> bool" where
  "rekeying_ok s \<longleftrightarrow> (\<forall>a \<in> armed s. lines_at s a \<noteq> [] \<and> set (lines_at s a) \<subseteq> pointing_at s a)"

lemma toggle_rekeying_ok:
  assumes "rekeying_ok s"
  shows "rekeying_ok (toggleBreakpoint l s)"
proof (cases "backendReady s")
  case ready: True
  show ?thesis
  proof (cases "resolveBreakpointAddr s l")
    case None
    note u = toggle_unresolved [OF None]
    show ?thesis using assms u(2, 3) lines_at_cong [OF u(1)] by (simp add: rekeying_ok_def)
  next
    case (Some a)
    have old: "set (lines_at s b) \<noteq> {} \<and> set (lines_at s b) \<subseteq> pointing_at s b" if "b \<in> armed s" for b
      using assms that by (simp add: rekeying_ok_def)
    have ne: "lines_at t b \<noteq> [] \<longleftrightarrow> set (lines_at t b) \<noteq> {}" for t b by simp
    show ?thesis
      unfolding rekeying_ok_def ne toggle_lines_at [OF ready Some] toggle_pointing_at [OF ready Some]
        toggle_armed [OF ready Some]
      using old by (auto split: if_splits)
  qed
qed (use assms in \<open>simp add: toggleBreakpoint_def\<close>)

lemma toggles_rekeying_ok: "rekeying_ok s \<Longrightarrow> rekeying_ok (fold toggleBreakpoint ls s)"
  by (induction ls arbitrary: s) (simp_all add: toggle_rekeying_ok)

lemma toggles_keep [simp]:
  "bpMap (fold toggleBreakpoint ls s) = bpMap s" "bpSource (fold toggleBreakpoint ls s) = bpSource s"
  "codeBase (fold toggleBreakpoint ls s) = codeBase s"
  "backendReady (fold toggleBreakpoint ls s) = backendReady s"
  by (induction ls arbitrary: s) simp_all

subsection \<open>The loop of the re-key\<close>

definition table_at :: "(int \<times> int list) list \<Rightarrow> int \<Rightarrow> int list" where
  "table_at byAddr a = (case map_of byAddr a of None \<Rightarrow> [] | Some ls \<Rightarrow> ls)"

lemma table_at_update: "table_at (AList.update a ls byAddr) b = (if b = a then ls else table_at byAddr b)"
  by (simp add: table_at_def update_conv')

lemma rekey_loop:
  assumes "fold (rekey_line f) ls (byAddr, survivors, dropped, cpu) = (byAddr', survivors', dropped', cpu')"
    and "\<And>a. table_at byAddr a \<noteq> [] \<Longrightarrow> a \<in> cpu"
  shows "set (table_at byAddr' a) = set (table_at byAddr a) \<union> {l \<in> set ls. f l = Some a}"
    and "set survivors' = set survivors \<union> {l \<in> set ls. f l \<noteq> None}"
    and "dropped' = dropped @ filter (\<lambda>l. f l = None) ls"
    and "cpu' = cpu \<union> {a. \<exists>l \<in> set ls. f l = Some a}"
proof -
  have "set (table_at byAddr' a) = set (table_at byAddr a) \<union> {l \<in> set ls. f l = Some a} \<and>
    set survivors' = set survivors \<union> {l \<in> set ls. f l \<noteq> None} \<and>
    dropped' = dropped @ filter (\<lambda>l. f l = None) ls \<and> cpu' = cpu \<union> {a. \<exists>l \<in> set ls. f l = Some a}"
    using assms
  proof (induction ls arbitrary: byAddr survivors dropped cpu)
    case (Cons l ls)
    show ?case
    proof (cases "f l")
      case None
      then show ?thesis using Cons.IH [of byAddr survivors "dropped @ [l]" cpu] Cons.prems
        by (auto simp: rekey_line_def)
    next
      case (Some b)
      let ?byAddr = "AList.update b (set_add l (table_at byAddr b)) byAddr"
      have cpu: "(if table_at byAddr b = [] then insert b cpu else cpu) = insert b cpu"
        using Cons.prems(2) by auto
      have "rekey_line f l (byAddr, survivors, dropped, cpu) =
          (?byAddr, set_add l survivors, dropped, insert b cpu)"
        using Some cpu by (simp add: rekey_line_def table_at_def Let_def)
      then have "fold (rekey_line f) ls (?byAddr, set_add l survivors, dropped, insert b cpu) =
          (byAddr', survivors', dropped', cpu')"
        using Cons.prems(1) by simp
      from Cons.IH [OF this] show ?thesis
        using Cons.prems(2) Some by (auto simp: table_at_update split: if_splits)
    qed
  qed simp
  then show "set (table_at byAddr' a) = set (table_at byAddr a) \<union> {l \<in> set ls. f l = Some a}"
    and "set survivors' = set survivors \<union> {l \<in> set ls. f l \<noteq> None}"
    and "dropped' = dropped @ filter (\<lambda>l. f l = None) ls"
    and "cpu' = cpu \<union> {a. \<exists>l \<in> set ls. f l = Some a}" by blast+
qed

lemma rekeyArm_effect:
  assumes "backendReady s" "rekeyArm base source m s = (dropped, s')"
  shows "set (lines_at s' a) = {l \<in> set (dots s). line_addr base source m l = Some a}"
    and "set (dots s') = {l \<in> set (dots s). line_addr base source m l \<noteq> None}"
    and "dropped = sort (filter (\<lambda>l. line_addr base source m l = None) (dots s))"
    and "armed s' = armed s \<union> {a. \<exists>l \<in> set (dots s). line_addr base source m l = Some a}"
    and "bpMap s' = bpMap s" "bpSource s' = bpSource s" "codeBase s' = codeBase s" "backendReady s'"
proof -
  obtain byAddr survivors dr cpu where
    loop: "fold (rekey_line (line_addr base source m)) (dots s) ([], [], [], armed s) = (byAddr, survivors, dr, cpu)"
    by (metis prod_cases4)
  have s': "s' = s\<lparr>linesByAddr := byAddr, dots := survivors, armed := cpu\<rparr>" and d: "dropped = sort dr"
    using assms loop by (auto simp: rekeyArm_def)
  note eff = rekey_loop [OF loop]
  show "set (lines_at s' a) = {l \<in> set (dots s). line_addr base source m l = Some a}"
    using eff(1) by (simp add: s' lines_at_def table_at_def)
  show "set (dots s') = {l \<in> set (dots s). line_addr base source m l \<noteq> None}"
    "dropped = sort (filter (\<lambda>l. line_addr base source m l = None) (dots s))"
    "armed s' = armed s \<union> {a. \<exists>l \<in> set (dots s). line_addr base source m l = Some a}"
    "bpMap s' = bpMap s" "bpSource s' = bpSource s" "codeBase s' = codeBase s" "backendReady s'"
    using eff(2, 3, 4) d assms(1) by (simp_all add: s' table_at_def)
qed


subsection \<open>Assembling\<close>

lemma finishAssembly_effect:
  assumes ready: "backendReady s"
    and fin: "finishAssembly (codeBase s) (bpSource s) m meanwhile s = (dropped, s')"
  defines "s1 \<equiv> fold toggleBreakpoint meanwhile (rekeyClear (s\<lparr>bpMap := m\<rparr>))"
  shows "consistent s'"
    and "set (dots s') = {l \<in> set (dots s1). resolveBreakpointAddr s' l \<noteq> None}"
    and "dropped = sort (filter (\<lambda>l. resolveBreakpointAddr s' l = None) (dots s1))"
    and "bpMap s' = m" "bpSource s' = bpSource s" "codeBase s' = codeBase s" "programLoaded s'" "backendReady s'"
proof -
  obtain s2 where arm: "rekeyArm (codeBase s) (bpSource s) m s1 = (dropped, s2)"
    and s': "s' = s2\<lparr>programLoaded := True\<rparr>"
    using fin by (auto simp: finishAssembly_def Let_def s1_def split: prod.splits)
  have kept: "bpMap s1 = m" "bpSource s1 = bpSource s" "codeBase s1 = codeBase s" "backendReady s1"
    using ready by (simp_all add: s1_def rekeyClear_def clear_all_breakpoints_def)
  note eff = rekeyArm_effect [OF kept(4) arm]
  have addr: "line_addr (codeBase s) (bpSource s) m = resolveBreakpointAddr s'"
    "resolveBreakpointAddr s' = resolveBreakpointAddr s1"
    using kept eff(5-7) by (auto simp: resolveBreakpointAddr_def s')
  have "rekeying_ok s1"
    unfolding s1_def using ready
    by (intro toggles_rekeying_ok) (simp add: rekeying_ok_def rekeyClear_def clear_all_breakpoints_def)
  then have sub: "armed s1 \<subseteq> {a. \<exists>l \<in> set (dots s1). resolveBreakpointAddr s' l = Some a}"
    unfolding addr(2) rekeying_ok_def pointing_at_def by (auto simp: subset_iff) (metis list.set_intros(1) neq_Nil_conv)
  have "set (lines_at s' a) = pointing_at s' a" for a
    using eff(1) [of a] eff(2) unfolding addr(1) by (auto simp: s' lines_at_def pointing_at_def)
  moreover have cpu: "armed s' = {a. \<exists>l \<in> set (dots s1). resolveBreakpointAddr s' l = Some a}"
    using eff(4) sub unfolding addr(1) by (auto simp: s')
  moreover have "set (dots s') = {l \<in> set (dots s1). resolveBreakpointAddr s' l \<noteq> None}"
    using eff(2) unfolding addr(1) by (simp add: s')
  then have "a \<in> armed s' \<longleftrightarrow> pointing_at s' a \<noteq> {}" for a
    unfolding cpu by (auto simp: pointing_at_def)
  ultimately show "consistent s'" by (simp add: consistent_def)
  show "set (dots s') = {l \<in> set (dots s1). resolveBreakpointAddr s' l \<noteq> None}"
    "dropped = sort (filter (\<lambda>l. resolveBreakpointAddr s' l = None) (dots s1))"
    "bpMap s' = m" "bpSource s' = bpSource s" "codeBase s' = codeBase s" "programLoaded s'" "backendReady s'"
    using eff(2, 3, 5-8) kept unfolding addr(1) by (simp_all add: s')
qed

text \<open>C12: an assemble puts the CPU and the gutter back in step, whatever state they
  were in and whatever the student toggles while it runs: afterwards an address is
  armed exactly when a dot points at it through the fresh line map, every dot that
  is left points somewhere, and the lines reported as dropped are those that do not,
  in order.\<close>

theorem assemble_rekeys:
  assumes "backendReady s" "finishAssembly (codeBase s) source m meanwhile (startAssembly source s) = (dropped, s')"
  shows "armed s' = {a. \<exists>l \<in> set (dots s'). line_addr (codeBase s) source m l = Some a} \<and>
    (\<forall>l \<in> set (dots s'). line_addr (codeBase s) source m l \<noteq> None) \<and>
    sorted dropped \<and>
    set dropped \<inter> set (dots s') = {} \<and>
    set dropped \<union> set (dots s') =
      set (dots (fold toggleBreakpoint meanwhile (rekeyClear ((startAssembly source s)\<lparr>bpMap := m\<rparr>))))"
proof -
  have "backendReady (startAssembly source s)"
    "finishAssembly (codeBase (startAssembly source s)) (bpSource (startAssembly source s)) m meanwhile
       (startAssembly source s) = (dropped, s')"
    using assms by (simp_all add: startAssembly_def)
  note eff = finishAssembly_effect [OF this]
  have addr: "resolveBreakpointAddr s' = line_addr (codeBase s) source m"
    using eff(4-6) by (auto simp: resolveBreakpointAddr_def startAssembly_def)
  show ?thesis using eff(1-3) unfolding consistent_def pointing_at_def addr by auto
qed

subsection \<open>A session\<close>

definition initialBp :: "int \<Rightarrow> BpState" where
  "initialBp base = \<lparr>dots = [], linesByAddr = [], armed = {}, bpMap = emptyLineMap, bpSource = [],
     programLoaded = False, backendReady = False, codeBase = base\<rparr>"

text \<open>The states in which no edit has moved a line since the last assemble: an
  assemble leads to one from any state.\<close>

inductive settled :: "BpState \<Rightarrow> bool" where
  start: "settled (initialBp base)"
| ready: "settled s \<Longrightarrow> settled (s\<lparr>backendReady := True\<rparr>)"
| toggle: "settled s \<Longrightarrow> settled (toggleBreakpoint line s)"
| clearAll: "settled s \<Longrightarrow> settled (clearAllBreakpointsHook s)"
| assemble: "backendReady s \<Longrightarrow> 
    settled (snd (finishAssembly (codeBase s) source m meanwhile (startAssembly source s)))"

lemma toggle_not_ready: "\<not> backendReady s \<Longrightarrow> toggleBreakpoint l s = s"
  by (simp add: toggleBreakpoint_def)

lemma settled_consistent: "settled s \<Longrightarrow> consistent s \<and> (\<not> backendReady s \<longrightarrow> armed s = {})"
proof (induction rule: settled.induct)
  case (assemble s source m meanwhile)
  then have "backendReady (startAssembly source s)" by (simp add: startAssembly_def)
  note eff = finishAssembly_effect(1, 8) [OF this prod.collapse [symmetric], of m meanwhile]
  show ?case using eff by (simp add: startAssembly_def)
next
  case (toggle s line)
  then show ?case using toggle_consistent toggle_not_ready by (cases "backendReady s") auto
qed (auto simp: initialBp_def consistent_def pointing_at_def lines_at_def resolveBreakpointAddr_def
      clearAllBreakpointsHook_def clear_all_breakpoints_def Let_def)

lemma cpu_stops_iff:
  assumes "settled s"
  shows "a \<in> armed s \<longleftrightarrow> (\<exists>l \<in> set (dots s). resolveBreakpointAddr s l = Some a)"
  using settled_consistent [OF assms] by (auto simp: consistent_def pointing_at_def)


definition demo_map :: LineMap where
  "demo_map = parseLineMap (Some [Fin 0x400000, Fin 2, Fin 0x400004, Fin 3])"

definition demo_bp :: BpState where
  "demo_bp = (initialBp 0x400000)\<lparr>backendReady := True, dots := [2, 9]\<rparr>"

lemma demo_addresses:
  "line_addr 0x400000 src demo_map 2 = Some 0x400000" "line_addr 0x400000 src demo_map 3 = Some 0x400004"
  "line_addr 0x400000 src demo_map 9 = None"
  by (simp_all add: line_addr_def isEmptyLineMap_def lineToAddrFromMap_def demo_map_def parseLineMap_def
      add_pair_def emptyLineMap_def)

lemma demo_bp_base: "codeBase demo_bp = 0x400000"
  by (simp add: demo_bp_def initialBp_def)

lemma demo_assembly:
  "fst (finishAssembly 0x400000 [] demo_map [3] (startAssembly [] demo_bp)) = [9]"
  "dots (snd (finishAssembly 0x400000 [] demo_map [3] (startAssembly [] demo_bp))) = [2, 3]"
  by (simp_all add: finishAssembly_def startAssembly_def demo_bp_def initialBp_def rekeyClear_def
      clear_all_breakpoints_def toggleBreakpoint_def resolveBreakpointAddr_def demo_addresses lines_at_def
      set_breakpoint_def rekeyArm_def rekey_line_def set_add_def Let_def)

theorem assemble_rekeys_witness:
  "armed (snd (finishAssembly 0x400000 [] demo_map [3] (startAssembly [] demo_bp))) = {0x400000, 0x400004}"
proof -
  have "backendReady demo_bp" "codeBase demo_bp = 0x400000" by (simp_all add: demo_bp_def initialBp_def)
  then show ?thesis
    using assemble_rekeys [of demo_bp "[]" demo_map "[3]" "[9]" "snd (finishAssembly 0x400000 [] demo_map [3] (startAssembly [] demo_bp))"]
    by (auto simp: demo_assembly demo_addresses prod_eq_iff)
qed


subsection \<open>Edits\<close>

lemma remap_set_one: "remap l = Some l' \<Longrightarrow> remap_set remap [l] = [l']"
  by (simp add: remap_set_def set_add_def)

lemma toggle_elsewhere_keeps_armed:
  assumes "a \<in> armed s" "resolveBreakpointAddr s l \<noteq> Some a"
  shows "a \<in> armed (toggleBreakpoint l s)"
proof (cases "backendReady s")
  case True
  then show ?thesis using assms toggle_unresolved(2) [of s l] toggle_armed [OF True, of l]
    by (cases "resolveBreakpointAddr s l") (auto split: if_splits)
qed (use assms in \<open>simp add: toggle_not_ready\<close>)

text \<open>C37: after an edit that moves a dot onto a line of another instruction, removing
  the dot does not disarm the breakpoint until the next assemble.  With one dot set, an edit re-numbers its
  line; the program in the machine is still the old one.  Removing the dot then
  resolves its new line through the old map, so the address it had armed stays
  armed: the gutter is empty and the CPU still stops there.\<close>

theorem removing_a_moved_dot_leaves_it_armed:
  assumes "settled s" "backendReady s" "dots s = [l]" "resolveBreakpointAddr s l = Some a"
    and "remap l = Some l'" "resolveBreakpointAddr s l' = Some b" "b \<noteq> a"
  defines "s' \<equiv> toggleBreakpoint l' (remapBreakpoints remap s)"
  shows "dots s' = [] \<and> a \<in> armed s'"
proof -
  let ?s = "remapBreakpoints remap s"
  have moved: "resolveBreakpointAddr ?s = resolveBreakpointAddr s" "armed ?s = armed s" "dots ?s = [l']"
    "backendReady ?s"
    using assms(2, 3, 5) by (auto simp: remapBreakpoints_def remap_set_one intro: resolve_cong)
  have "a \<in> armed ?s" using cpu_stops_iff [OF assms(1), of a] assms(3, 4) moved by simp
  then have "a \<in> armed s'" unfolding s'_def
    by (rule toggle_elsewhere_keeps_armed) (use moved assms(6, 7) in simp)
  moreover have "set (dots s') = {}" using toggle_dots [of ?s l'] moved assms(6) by (simp add: s'_def)
  ultimately show ?thesis by simp
qed

theorem removing_a_moved_dot_leaves_it_armed_witness:
  "0x400000 \<in> armed (toggleBreakpoint 3 (remapBreakpoints (\<lambda>l. Some (l + 1))
     (snd (finishAssembly 0x400000 [] demo_map [] (startAssembly [] (demo_bp\<lparr>dots := [2]\<rparr>))))))"
proof -
  let ?s = "snd (finishAssembly 0x400000 [] demo_map [] (startAssembly [] (demo_bp\<lparr>dots := [2]\<rparr>)))"
  have "settled (snd (finishAssembly (codeBase (demo_bp\<lparr>dots := [2]\<rparr>)) [] demo_map [] (startAssembly [] (demo_bp\<lparr>dots := [2]\<rparr>))))"
    by (rule settled.assemble) (simp add: demo_bp_def)
  then have "settled ?s" by (simp add: demo_bp_base)
  moreover have "backendReady ?s" "dots ?s = [2]" "resolveBreakpointAddr ?s 2 = Some 0x400000"
    "resolveBreakpointAddr ?s 3 = Some 0x400004"
    by (simp_all add: finishAssembly_def startAssembly_def demo_bp_def initialBp_def rekeyClear_def
      clear_all_breakpoints_def resolveBreakpointAddr_def demo_addresses rekeyArm_def rekey_line_def
      set_add_def Let_def)
  ultimately show ?thesis
    using removing_a_moved_dot_leaves_it_armed [of ?s 2 "0x400000" "\<lambda>l. Some (l + 1)" 3 "0x400004"] by simp
qed

end
