(* ===== verification/Hub.thy ===== *)
theory Hub
  imports Protocol Replay TerminalInput ExerciseChecker ConsoleOutput Breakpoints
begin

text \<open>
  The hub that every surface of the page drives the machine through
  (\<open>lib/emulator/use-emulator.ts\<close>) and the register view it keeps
  (\<open>lib/emulator/use-cpu-view.ts\<close>): the console, the breakpoints, the replay ring and
  the run controls over one backend.

  The state is the hook's refs and its React state in one record; the flags a ref
  and a state mirror are two fields where the code sets them apart.  A callback
  returns at once and leaves a continuation behind, so the state lists the
  continuations that wait (\<open>hb_waiting\<close>) and the requests sent; the reply of the
  backend is an argument of the continuation.  The stages of an assemble after the
  machine's answer are one continuation, with the dots toggled meanwhile.  The
  words of the cards, notes and stop reasons come from modules that are not
  modelled; they are a parameter.

  The theorems: a run that is shown as running has a drive behind it; while nobody
  pauses or resets there is one drive at a time; pausing a program that sleeps and
  running it again leaves two.
\<close>

subsection \<open>The register view (use-cpu-view.ts)\<close>

record LatestSnap =
  ls_registers :: "jstring list"
  ls_sp :: jstring
  ls_fpRegisters :: "jstring list"
  ls_vectorRegisters :: "jstring list"
  ls_pc :: int
  ls_nzcv :: int
  ls_changedRegs :: "int list"
  ls_changedFpRegs :: "int list"

text \<open>What the panels show, what the live machine last reported, the marker in both
  forms, and the replay ring.\<close>

record CpuView =
  cv_shown :: LatestSnap
  cv_latest :: LatestSnap
  cv_line :: "int option"
  cv_lineRef :: "int option"
  cv_ring :: ReplayRing
  cv_tick :: nat

definition IDLE_CPU_VIEW :: LatestSnap where
  "IDLE_CPU_VIEW =
     \<lparr>ls_registers = replicate 31 ''0x0000000000000000'', ls_sp = ''0x0000000080000000'', ls_fpRegisters = [],
      ls_vectorRegisters = [], ls_pc = 0x400000, ls_nzcv = 0, ls_changedRegs = [], ls_changedFpRegs = []\<rparr>"

definition initialCpuView :: CpuView where
  "initialCpuView =
     \<lparr>cv_shown = IDLE_CPU_VIEW, cv_latest = IDLE_CPU_VIEW\<lparr>ls_registers := [], ls_pc := 0\<rparr>, cv_line = None,
      cv_lineRef = None, cv_ring = \<lparr>frames = [], cap = 128\<rparr>, cv_tick = 0\<rparr>"

text \<open>\<open>Number(BigInt(snap.pc))\<close>; the machine always sends a hexadecimal word.\<close>

definition pc_number :: "jstring \<Rightarrow> int" where
  "pc_number t = (case BigInt t of None \<Rightarrow> 0 | Some n \<Rightarrow> n)"

definition applyRegisters :: "StateSnapshot \<Rightarrow> CpuView \<Rightarrow> int \<times> CpuView" where
  "applyRegisters snap v =
     (let pc = pc_number (ss_pc snap);
          latest = \<lparr>ls_registers = ss_registers snap, ls_sp = ss_sp snap, ls_fpRegisters = ss_fpRegisters snap,
            ls_vectorRegisters = ss_vectorRegisters snap, ls_pc = pc, ls_nzcv = ss_nzcv snap,
            ls_changedRegs = map int (ss_changedRegs snap), ls_changedFpRegs = map int (ss_changedFpRegs snap)\<rparr>
      in (pc, v\<lparr>cv_shown := latest, cv_latest := latest\<rparr>))"

definition setCurrentLine :: "int option \<Rightarrow> CpuView \<Rightarrow> CpuView" where
  "setCurrentLine line v = v\<lparr>cv_line := line\<rparr>"

definition markCurrentLine :: "int option \<Rightarrow> CpuView \<Rightarrow> CpuView" where
  "markCurrentLine line v = v\<lparr>cv_line := line, cv_lineRef := line\<rparr>"

definition replay_frame :: "int \<Rightarrow> CpuView \<Rightarrow> ReplayFrame" where
  "replay_frame newStepCount v =
     (let s = cv_latest v
      in \<lparr>stepCount = newStepCount, registers = ls_registers s, rf_sp = ls_sp s, fpRegisters = ls_fpRegisters s,
          vectorRegisters = ls_vectorRegisters s, rf_pc = ls_pc s, rf_nzcv = ls_nzcv s,
          changedRegs = ls_changedRegs s, changedFpRegs = ls_changedFpRegs s, currentLine = cv_lineRef v\<rparr>)"

definition pushReplayFrame :: "int \<Rightarrow> CpuView \<Rightarrow> CpuView" where
  "pushReplayFrame newStepCount v =
     v\<lparr>cv_ring := push (replay_frame newStepCount v) (cv_ring v), cv_tick := cv_tick v + 1\<rparr>"

definition resetReplayHistory :: "CpuView \<Rightarrow> CpuView" where
  "resetReplayHistory v = v\<lparr>cv_ring := clear (cv_ring v), cv_tick := cv_tick v + 1\<rparr>"

definition seekReplay :: "int \<Rightarrow> CpuView \<Rightarrow> CpuView" where
  "seekReplay frameIndex v =
     (case ring_at (cv_ring v) frameIndex of None \<Rightarrow> v
      | Some f \<Rightarrow>
          v\<lparr>cv_shown := \<lparr>ls_registers = registers f, ls_sp = rf_sp f, ls_fpRegisters = fpRegisters f,
              ls_vectorRegisters = vectorRegisters f, ls_pc = rf_pc f, ls_nzcv = rf_nzcv f,
              ls_changedRegs = changedRegs f, ls_changedFpRegs = changedFpRegs f\<rparr>,
            cv_line := currentLine f\<rparr>)"

definition readReplayFrames :: "CpuView \<Rightarrow> ReplayFrame list" where
  "readReplayFrames v = range (cv_ring v)"

subsection \<open>The hub's state\<close>

datatype StepTarget = Over | Out | ToLine int

record Goal =
  g_until :: RunGoal
  g_target :: StepTarget

text \<open>The continuations.  A step and a step back carry the number of the promise that
  a goal waits for; a drive of \<open>run\<close> waits for the machine or for its nap to end,
  with the steps counted so far.\<close>

datatype Waiting =
    WStep nat
  | WStepBack nat
  | WLoad jstring
  | WUntil nat StepTarget
  | WRun "Goal option" nat
  | WSleep "Goal option" nat RunResultPayload StateSnapshot
  | WAssemble jstring bool

record 'c HubError =
  he_line :: int
  he_message :: jstring
  he_card :: "'c option"

text \<open>The state in five parts: the run controls with what waits and what was sent, the
  last snapshot's report of the machine, the notices, what the panels show, and the
  rest.\<close>

record RunControl =
  rc_running :: bool
  rc_isRunning :: bool
  rc_waiting :: "Waiting list"
  rc_sent :: "Request list"
  rc_runBlocked :: bool
  rc_goal :: "Goal option"
  rc_pausedAt :: int
  rc_moving :: nat
  rc_stop :: "jstring option"
  rc_stopAt :: int

record MachineState =
  ms_snap :: "StateSnapshot option"
  ms_frame :: nat
  ms_memoryEpoch :: nat
  ms_halted :: bool
  ms_blocked :: bool
  ms_canStepBack :: bool
  ms_wantsTerminal :: bool
  ms_exitCode :: "int option"
  ms_vfsFiles :: "jstring list"
  ms_savedStates :: "jstring list"
  ms_dirtyAddrs :: "(int \<times> int) list"

record 'c Notices =
  nt_error :: "jstring option"
  nt_errorCard :: "(jstring \<times> 'c) option"
  nt_pauseText :: "jstring option"
  nt_assemblyErrors :: "'c HubError list"
  nt_droppedBreakpoints :: "int list"

record Shown =
  sh_externalCall :: "ExternalCall option"
  sh_lastCall :: "ExternalCall option"
  sh_frames :: "int list option"
  sh_callCard :: "int list option"
  sh_frameLayout :: "FrameLayoutPayload option"
  sh_noteRows :: "int list"
  sh_instructions :: "DecodedInstruction list"

record 'c Hub =
  hb_bp :: BpState
  hb_console :: Console
  hb_cpu :: CpuView
  hb_ctl :: RunControl
  hb_mach :: MachineState
  hb_notices :: "'c Notices"
  hb_shown :: Shown
  hb_isAssembling :: bool
  hb_workspace :: Workspace
  hb_stepCount :: int
  hb_stepCountRef :: int
  hb_savedSteps :: "(jstring \<times> int) list"
  hb_stdinLog :: jstring

text \<open>The words: what a fault after a bad return says and its card (\<open>frame-cards.ts\<close>),
  why a goal run stopped (\<open>stop-reason.ts\<close>: text, whether it is a problem, card), the
  notes on clobbered registers (\<open>clobber-note.ts\<close>), and a count of steps in text.\<close>

record 'c Words =
  w_faultText :: "jstring \<Rightarrow> StateSnapshot \<Rightarrow> FrameLayoutPayload option \<Rightarrow> LineMap \<Rightarrow> (jstring \<times> 'c) option"
  w_plain :: "'c \<Rightarrow> units"
  w_stopReason :: "StepTarget \<Rightarrow> RunResultPayload \<Rightarrow> StateSnapshot \<Rightarrow> FrameLayoutPayload option \<Rightarrow> LineMap \<Rightarrow>
    (jstring \<times> bool \<times> 'c option) option"
  w_clobberNoteTexts :: "int list \<Rightarrow> Workspace \<Rightarrow> units list"
  w_calleeTexts :: "int list \<Rightarrow> LineMap \<Rightarrow> FrameLayoutPayload option \<Rightarrow> units list"
  w_formatSteps :: "nat \<Rightarrow> jstring"

subsection \<open>Snapshots\<close>

definition withoutCallScratch :: "StateSnapshot \<Rightarrow> StateSnapshot" where
  "withoutCallScratch snap =
     (case ss_externalCall snap of None \<Rightarrow> snap
      | Some _ \<Rightarrow> snap\<lparr>ss_changedRegs := filter (\<lambda>i. i \<noteq> 16 \<and> i \<noteq> 17) (ss_changedRegs snap)\<rparr>)"

text \<open>The flat \<open>[addr, len, addr, len, ...]\<close>; a last odd number is left out.\<close>

fun dirty_pairs :: "int list \<Rightarrow> (int \<times> int) list" where
  "dirty_pairs (a # l # rest) = (a, l) # dirty_pairs rest"
| "dirty_pairs _ = []"

definition console_of :: "StateSnapshot \<Rightarrow> ConsoleSnapshot" where
  "console_of snap =
     \<lparr>stdoutDelta = map code (ss_stdoutDelta snap), stderrDelta = map code (ss_stderrDelta snap),
      stdoutSeen = ss_stdoutSeen snap, stderrSeen = ss_stderrSeen snap\<rparr>"

text \<open>The line the marker goes to.  By index the pc must not lie below the code; the
  quotient of Numbers may then be no whole number, which names no line.\<close>

definition marker :: "'c Hub \<Rightarrow> int \<Rightarrow> ExternalCall option \<Rightarrow> CpuView \<Rightarrow> CpuView" where
  "marker h pc call v =
     (let bp = hb_bp h in
      if \<not> programLoaded bp then markCurrentLine None v
      else case call of Some c \<Rightarrow> markCurrentLine (xc_callSiteLine c) v
      | None \<Rightarrow>
          if \<not> isEmptyLineMap (bpMap bp) then markCurrentLine (pcToSourceLineFromMap pc (bpMap bp)) v
          else if pc - codeBase bp \<ge> 0 then
            markCurrentLine (if (pc - codeBase bp) mod 4 = 0
              then map_option int (pcToSourceLine ((pc - codeBase bp) div 4) (bpSource bp)) else None) v
          else v)"

definition applySnapshot :: "'c Words \<Rightarrow> StateSnapshot \<Rightarrow> 'c Hub \<Rightarrow> 'c Hub" where
  "applySnapshot W snap h =
     (let (pc, cpu1) = applyRegisters (withoutCallScratch snap) (hb_cpu h);
          rows = (case ss_clobberNotes snap of None \<Rightarrow> [] | Some r \<Rightarrow> r);
          call = (if rc_running (hb_ctl h) then None else ss_externalCall snap);
          console1 = applyOutput (console_of snap) (hb_console h);
          console2 = (if rows = [] then console1
            else let c = appendNotes (w_clobberNoteTexts W rows (hb_workspace h)) console1;
                     cards = w_calleeTexts W rows (bpMap (hb_bp h)) (sh_frameLayout (hb_shown h))
                 in if cards = [] then c else appendNotes cards c);
          newer = ss_frame snap > ms_frame (hb_mach h)
      in h\<lparr>hb_mach := (hb_mach h)\<lparr>ms_snap := Some snap,
          ms_frame := (if newer then ss_frame snap else ms_frame (hb_mach h)),
              ms_memoryEpoch := (if newer then ms_memoryEpoch (hb_mach h) + 1 else ms_memoryEpoch (hb_mach h)),
                  ms_halted := ss_halted snap, ms_blocked := ss_blocked snap,
                      ms_canStepBack := ss_canStepBack snap,
                          ms_wantsTerminal := (ss_wantsTerminal snap \<and> \<not> ss_halted snap),
                              ms_exitCode := ss_exitCode snap, ms_vfsFiles := ss_vfsFiles snap,
                                  ms_savedStates := ss_savedStates snap,
                                      ms_dirtyAddrs := dirty_pairs (ss_dirtyAddrs snap)\<rparr>,
           hb_shown := (hb_shown h)\<lparr>sh_frames := ss_frames snap, sh_callCard := ss_callCard snap,
               sh_noteRows := rows, sh_lastCall := ss_externalCall snap, sh_externalCall := call\<rparr>,
           hb_console := console2,
           hb_cpu := marker h pc call cpu1\<rparr>)"

definition markProgramLoaded :: "bool \<Rightarrow> 'c Hub \<Rightarrow> 'c Hub" where
  "markProgramLoaded l h = h\<lparr>hb_bp := (hb_bp h)\<lparr>programLoaded := l\<rparr>\<rparr>"

text \<open>The end of the mount effect: the machine's first snapshot and its code base.\<close>

definition onBackendReady :: "'c Words \<Rightarrow> StateSnapshot \<Rightarrow> int \<Rightarrow> 'c Hub \<Rightarrow> 'c Hub" where
  "onBackendReady W snap base h =
     (let h1 = applySnapshot W snap (h\<lparr>hb_bp := (hb_bp h)\<lparr>backendReady := True\<rparr>\<rparr>)
      in h1\<lparr>hb_bp := (hb_bp h1)\<lparr>codeBase := base\<rparr>\<rparr>)"

definition send :: "Request \<Rightarrow> 'c Hub \<Rightarrow> 'c Hub" where
  "send r h = h\<lparr>hb_ctl := (hb_ctl h)\<lparr>rc_sent := rc_sent (hb_ctl h) @ [r]\<rparr>\<rparr>"

definition wait_for :: "Waiting \<Rightarrow> 'c Hub \<Rightarrow> 'c Hub" where
  "wait_for w h = h\<lparr>hb_ctl := (hb_ctl h)\<lparr>rc_waiting := rc_waiting (hb_ctl h) @ [w]\<rparr>\<rparr>"

definition pushStdin :: "jstring \<Rightarrow> bool \<Rightarrow> 'c Hub \<Rightarrow> 'c Hub" where
  "pushStdin s interactive h =
     (let log = hb_stdinLog h @ s;
          h1 = h\<lparr>hb_stdinLog := drop (length log - MAX_STDIN_BYTES) log\<rparr>
      in if backendReady (hb_bp h) then send (RPushStdin s interactive) h1 else h1)"

subsection \<open>Assembling\<close>

definition no_instructions :: jstring where
  "no_instructions = ''no instructions to assemble''"

text \<open>\<open>fail\<close>: the machine is reset, and the panes with it.\<close>

definition failAssembly :: "'c Hub \<Rightarrow> 'c Hub" where
  "failAssembly h = send RReset (h\<lparr>hb_shown := (hb_shown h)\<lparr>sh_instructions := [],
      sh_frameLayout := None\<rparr>\<rparr>)"

text \<open>What an attempt does before the machine is asked.\<close>

definition beginAssembly :: "jstring \<Rightarrow> bool \<Rightarrow> Workspace \<Rightarrow> 'c Hub \<Rightarrow> 'c Hub" where
  "beginAssembly source surfaceErrors workspace h =
     (let h1 = h\<lparr>hb_ctl := (hb_ctl h)\<lparr>rc_runBlocked := False, rc_stopAt := -1\<rparr>,
           hb_bp := startAssembly source (hb_bp h),
           hb_workspace := workspace,
           hb_stdinLog := [],
           hb_console := startAssemble surfaceErrors (hb_console h)\<rparr>
      in if surfaceErrors
         then h1\<lparr>hb_notices := (hb_notices h1)\<lparr>nt_error := None, nt_assemblyErrors := [],
             nt_droppedBreakpoints := []\<rparr>,
           hb_stepCount := 0,
           hb_cpu := resetReplayHistory (hb_cpu h)\<rparr>
         else h1)"

definition assembleWith :: "jstring \<Rightarrow> jstring list \<Rightarrow> bool \<Rightarrow> Workspace \<Rightarrow> 'c Hub \<Rightarrow> 'c Hub" where
  "assembleWith source args surfaceErrors workspace h =
     (if \<not> backendReady (hb_bp h) then h
      else let h1 = beginAssembly source surfaceErrors workspace h
           in if \<not> hasAssemblableContent source
              then failAssembly (if surfaceErrors
                     then h1\<lparr>hb_notices := (hb_notices h1)\<lparr>nt_error := Some no_instructions\<rparr>\<rparr> else h1)
              else wait_for (WAssemble source surfaceErrors) (send (RAssemble source args)
                     (if surfaceErrors then h1\<lparr>hb_isAssembling := True\<rparr> else h1)))"

text \<open>The answer of \<open>backend.assemble\<close> with what the later awaits bring: the line map,
  the bytes of the code and the frame layout.  \<open>listingLength\<close> of a map of whole words
  is a whole number.\<close>

record AssembleReply =
  ar_result :: AssembleResultPayload
  ar_lineMap :: "js_number list option"
  ar_codeBytes :: "int list"
  ar_layout :: "FrameLayoutPayload option"

definition failedAssembly :: "bool \<Rightarrow> AssembleResultPayload \<Rightarrow> 'c Hub \<Rightarrow> 'c Hub" where
  "failedAssembly surfaceErrors result h =
     (let errorLine = (case ap_error_line result of Some l \<Rightarrow> if l > 0 then Some l else None | None \<Rightarrow> None);
          h1 = (if surfaceErrors
                then h\<lparr>hb_notices := (hb_notices h)\<lparr>nt_assemblyErrors := (case (errorLine, ap_error result) of
                          (Some l, Some e) \<Rightarrow> [\<lparr>he_line = l, he_message = e, he_card = None\<rparr>] | _ \<Rightarrow> []),
                       nt_error := ap_error result\<rparr>\<rparr>
                else h)
      in failAssembly h1)"

definition succeededAssembly :: "jstring \<Rightarrow> bool \<Rightarrow> AssembleReply \<Rightarrow> int list \<Rightarrow> 'c Hub \<Rightarrow> 'c Hub" where
  "succeededAssembly source surfaceErrors reply meanwhile h =
     (let m = parseLineMap (ar_lineMap reply);
          base = codeBase (hb_bp h);
          (dropped, bp) = finishAssembly base source m meanwhile (hb_bp h);
          entryPc = ls_pc (cv_latest (hb_cpu h));
          entryLine = (if \<not> isEmptyLineMap m then pcToSourceLineFromMap entryPc m
                       else if (entryPc - base) mod 4 = 0
                       then map_option int (pcToSourceLine ((entryPc - base) div 4) source) else None);
          count = nat \<lfloor>listingLength base (of_nat (ap_instruction_count (ar_result reply))) m\<rfloor>
      in h\<lparr>hb_notices := (hb_notices h)\<lparr>nt_droppedBreakpoints :=
               (if surfaceErrors \<and> dropped \<noteq> [] then dropped else nt_droppedBreakpoints (hb_notices h))\<rparr>,
           hb_shown := (hb_shown h)\<lparr>sh_instructions := buildDisassembly base count (ar_codeBytes reply) source m,
             sh_frameLayout := ar_layout reply\<rparr>,
           hb_bp := bp,
           hb_cpu := markCurrentLine entryLine (hb_cpu h)\<rparr>)"

definition onAssembled :: "jstring \<Rightarrow> bool \<Rightarrow> AssembleReply \<Rightarrow> int list \<Rightarrow> 'c Hub \<Rightarrow> 'c Hub" where
  "onAssembled source surfaceErrors reply meanwhile h =
     (let h1 = (if ap_success (ar_result reply) then succeededAssembly source surfaceErrors reply meanwhile h
                else failedAssembly surfaceErrors (ar_result reply) h)
      in if surfaceErrors then h1\<lparr>hb_isAssembling := False\<rparr> else h1)"

definition onAssembleFailed :: "bool \<Rightarrow> jstring \<Rightarrow> 'c Hub \<Rightarrow> 'c Hub" where
  "onAssembleFailed surfaceErrors message h =
     (if surfaceErrors
      then (failAssembly (h\<lparr>hb_notices := (hb_notices h)\<lparr>nt_error := Some message\<rparr>\<rparr>))\<lparr>hb_isAssembling := False\<rparr>
      else failAssembly h)"

subsection \<open>Steps\<close>

definition bad_return_slot :: "int list option \<Rightarrow> bool" where
  "bad_return_slot f = (case f of None \<Rightarrow> False | Some n \<Rightarrow> num n 5 \<noteq> 0)"

definition surfaceRuntimeError :: "'c Words \<Rightarrow> jstring \<Rightarrow> int option \<Rightarrow> bool \<Rightarrow> 'c Hub \<Rightarrow> jstring \<times> 'c Hub" where
  "surfaceRuntimeError W message line note h =
     (let said = (case ms_snap (hb_mach h) of None \<Rightarrow> None
            | Some snap \<Rightarrow> if bad_return_slot (ss_frames snap)
                then w_faultText W message snap (sh_frameLayout (hb_shown h)) (bpMap (hb_bp h)) else None);
          txt = (case said of None \<Rightarrow> message | Some (t, _) \<Rightarrow> t);
          lined = (case line of Some l \<Rightarrow> l > 0 | None \<Rightarrow> False);
          shown = (if lined then ''line '' @ show_int (the line) @ '': '' @ txt else txt);
          h1 = h\<lparr>hb_notices := (hb_notices h)\<lparr>nt_error := Some shown, nt_assemblyErrors := (if lined
                   then [\<lparr>he_line = the line, he_message = txt, he_card = map_option snd said\<rparr>]
                   else nt_assemblyErrors (hb_notices h)),
                       nt_errorCard := map_option (\<lambda>(_, cd). (shown, cd)) said\<rparr>\<rparr>
      in (shown, case said of
            Some (_, cd) \<Rightarrow> if note then h1\<lparr>hb_console := appendNotes [w_plain W cd] (hb_console h1)\<rparr> else h1
          | None \<Rightarrow> h1))"

text \<open>The number of the newest move; a goal waits until that promise has settled.\<close>

definition new_move :: "(nat \<Rightarrow> Waiting) \<Rightarrow> Request \<Rightarrow> 'c Hub \<Rightarrow> 'c Hub" where
  "new_move w r h =
     wait_for (w (rc_moving (hb_ctl h) + 1)) (send r
       (h\<lparr>hb_ctl := (hb_ctl h)\<lparr>rc_moving := rc_moving (hb_ctl h) + 1, rc_runBlocked := False, rc_stopAt := -1,
            rc_pausedAt := -1\<rparr>,
          hb_notices := (hb_notices h)\<lparr>nt_error := None\<rparr>\<rparr>))"

definition hub_step :: "'c Hub \<Rightarrow> 'c Hub" where
  "hub_step h =
     (if \<not> backendReady (hb_bp h) \<or> \<not> programLoaded (hb_bp h) \<or> ms_halted (hb_mach h) then h else new_move WStep RStep h)"

definition onStepped :: "'c Words \<Rightarrow> StepResultPayload \<Rightarrow> 'c Hub \<Rightarrow> 'c Hub" where
  "onStepped W result h =
     (let h1 = (if truthy (sp_error result)
          then snd (surfaceRuntimeError W (the (sp_error result)) (sp_error_line result) True h)
          else h);
          nxt = hb_stepCount h1 + 1
      in h1\<lparr>hb_stepCountRef := hb_stepCountRef h1 + 1,
           hb_stepCount := nxt,
           hb_cpu := pushReplayFrame nxt (hb_cpu h1)\<rparr>)"

definition hub_stepBack :: "'c Hub \<Rightarrow> 'c Hub" where
  "hub_stepBack h =
     (if \<not> backendReady (hb_bp h) \<or> \<not> programLoaded (hb_bp h) \<or> \<not> ms_canStepBack (hb_mach h) then h
      else new_move WStepBack RStepBack h)"

definition onSteppedBack :: "'c Hub \<Rightarrow> 'c Hub" where
  "onSteppedBack h =
     h\<lparr>hb_stepCountRef := max 0 (hb_stepCountRef h - 1),
           hb_stepCount := max 0 (hb_stepCount h - 1)\<rparr>"

definition onRejected :: "jstring \<Rightarrow> 'c Hub \<Rightarrow> 'c Hub" where
  "onRejected message h = h\<lparr>hb_notices := (hb_notices h)\<lparr>nt_error := Some message\<rparr>\<rparr>"

subsection \<open>Named saves\<close>

definition saveState :: "jstring \<Rightarrow> 'c Hub \<Rightarrow> 'c Hub" where
  "saveState name h =
     (let h1 = h\<lparr>hb_savedSteps := AList.update name (hb_stepCountRef h) (hb_savedSteps h)\<rparr>
      in if backendReady (hb_bp h) then send (RSaveState name) h1 else h1)"

definition deleteState :: "jstring \<Rightarrow> 'c Hub \<Rightarrow> 'c Hub" where
  "deleteState name h =
     (let h1 = h\<lparr>hb_savedSteps := AList.delete name (hb_savedSteps h)\<rparr>
      in if backendReady (hb_bp h) then send (RDeleteState name) h1 else h1)"

definition loadState :: "jstring \<Rightarrow> 'c Hub \<Rightarrow> 'c Hub" where
  "loadState name h =
     (if \<not> backendReady (hb_bp h) then h
      else wait_for (WLoad name) (send (RLoadState name) (h\<lparr>hb_ctl := (hb_ctl h)\<lparr>rc_runBlocked := False, rc_stopAt := -1\<rparr>\<rparr>)))"

definition onLoaded :: "jstring \<Rightarrow> bool \<Rightarrow> 'c Hub \<Rightarrow> 'c Hub" where
  "onLoaded name ok h =
     (if \<not> ok then h
      else let h1 = markProgramLoaded True (h\<lparr>hb_notices := (hb_notices h)\<lparr>nt_error := None\<rparr>\<rparr>)
           in case map_of (hb_savedSteps h) name of None \<Rightarrow> h1
              | Some saved \<Rightarrow> h1\<lparr>hb_stepCount := saved,
           hb_cpu := resetReplayHistory (hb_cpu h1)\<rparr>)"

subsection \<open>Runs\<close>

definition RUN_BUDGET :: nat where "RUN_BUDGET = 1000000"

definition ask_run :: "Goal option \<Rightarrow> nat \<Rightarrow> 'c Hub \<Rightarrow> 'c Hub" where
  "ask_run goal tot h =
     wait_for (WRun goal tot) (send (RRunUntilBreak RUN_BUDGET (map_option g_until goal)) h)"

definition hub_run :: "Goal option \<Rightarrow> 'c Hub \<Rightarrow> 'c Hub" where
  "hub_run goal h =
     (if \<not> backendReady (hb_bp h) \<or> \<not> programLoaded (hb_bp h) \<or> ms_halted (hb_mach h) then h
      else if rc_running (hb_ctl h) then h
      else ask_run goal 0 (h\<lparr>hb_ctl := (hb_ctl h)\<lparr>rc_goal := goal, rc_runBlocked := False,
          rc_stopAt := -1, rc_isRunning := True, rc_running := True\<rparr>,
           hb_notices := (hb_notices h)\<lparr>nt_error := None\<rparr>\<rparr>))"

text \<open>The \<open>finally\<close> of a drive.\<close>

definition run_over :: "'c Hub \<Rightarrow> 'c Hub" where
  "run_over h = h\<lparr>hb_ctl := (hb_ctl h)\<lparr>rc_isRunning := False, rc_running := False\<rparr>\<rparr>"

text \<open>A pacing pause: the program sleeps and nothing else ended the chunk.\<close>

definition naps :: "RunResultPayload \<Rightarrow> bool" where
  "naps r \<longleftrightarrow> sleep_ms r \<noteq> None \<and> \<not> halted r \<and> \<not> truthy (rr_error r) \<and> \<not> hit_breakpoint r \<and> \<not> reached r \<and>
     \<not> bad_return r"

definition paused_after :: "'c Words \<Rightarrow> nat \<Rightarrow> jstring" where
  "paused_after W tot =
     ''paused after '' @ w_formatSteps W tot @ '' without finishing. '' @
     ''press run to continue, or check for a loop whose exit condition never becomes true''"

definition saying :: "jstring \<Rightarrow> jstring option \<Rightarrow> jstring option" where
  "saying txt prev = Some (if prev = Some txt then txt @ '' '' else txt)"

text \<open>The marker and the count after a run that was not cancelled.\<close>

definition show_stop :: "'c Words \<Rightarrow> bool \<Rightarrow> nat \<Rightarrow> RunResultPayload \<Rightarrow> 'c Hub \<Rightarrow> 'c Hub" where
  "show_stop W hasGoal tot r h =
     (let h1 = h\<lparr>hb_ctl := (hb_ctl h)\<lparr>rc_runBlocked := (ms_blocked (hb_mach h) \<and> \<not> truthy (rr_error r))\<rparr>\<rparr>;
          h2 = (case sh_lastCall (hb_shown h1) of
                  Some call \<Rightarrow> if programLoaded (hb_bp h1)
                    then h1\<lparr>hb_shown := (hb_shown h1)\<lparr>sh_externalCall := Some call\<rparr>,
           hb_cpu := markCurrentLine (xc_callSiteLine call) (hb_cpu h1)\<rparr>
                    else h1
                | None \<Rightarrow> h1);
          nxt = hb_stepCount h2 + int tot;
          h3 = (if truthy (rr_error r) then snd (surfaceRuntimeError W (the (rr_error r)) (error_line r) True h2)
                else if step_limit_reached r \<and> \<not> hasGoal
                then let (shown, h') = surfaceRuntimeError W (paused_after W tot) None False h2
                     in h'\<lparr>hb_notices := (hb_notices h')\<lparr>nt_pauseText := Some shown\<rparr>\<rparr>
                else h2)
      in h3\<lparr>hb_stepCount := nxt,
           hb_cpu := pushReplayFrame nxt (hb_cpu h3)\<rparr>)"

definition say_goal :: "'c Words \<Rightarrow> Goal \<Rightarrow> nat \<Rightarrow> RunResultPayload \<Rightarrow> StateSnapshot \<Rightarrow> 'c Hub \<Rightarrow> 'c Hub" where
  "say_goal W goal tot r snapshot h =
     (let here = hb_stepCountRef h + int tot;
          h1 = h\<lparr>hb_ctl := (hb_ctl h)\<lparr>rc_pausedAt := (if step_limit_reached r then here else -1)\<rparr>\<rparr>
      in case w_stopReason W (g_target goal) r snapshot (sh_frameLayout (hb_shown h1)) (bpMap (hb_bp h1)) of
           None \<Rightarrow> h1
         | Some (txt, problem, crd) \<Rightarrow>
             if problem
             then h1\<lparr>hb_notices := (hb_notices h1)\<lparr>nt_error := Some txt,
                 nt_errorCard := map_option (\<lambda>c. (txt, c)) crd,
                     nt_pauseText := (if step_limit_reached r \<and> crd = None then Some txt else nt_pauseText (hb_notices h1))\<rparr>\<rparr>
             else h1\<lparr>hb_ctl := (hb_ctl h1)\<lparr>rc_stop := saying txt (rc_stop (hb_ctl h1)),
                 rc_stopAt := here\<rparr>\<rparr>)"

definition run_stopped :: "'c Words \<Rightarrow> Goal option \<Rightarrow> nat \<Rightarrow> RunResultPayload \<Rightarrow> StateSnapshot \<Rightarrow> 'c Hub \<Rightarrow> 'c Hub" where
  "run_stopped W goal tot r snapshot h =
     (let h1 = show_stop W (goal \<noteq> None) tot r h
      in run_over (case goal of None \<Rightarrow> h1 | Some g \<Rightarrow> say_goal W g tot r snapshot h1))"

definition onRan :: "'c Words \<Rightarrow> Goal option \<Rightarrow> nat \<Rightarrow> RunResultPayload \<Rightarrow> StateSnapshot \<Rightarrow> 'c Hub \<Rightarrow> 'c Hub" where
  "onRan W goal tot r snapshot h =
     (if cancelled r then run_over h
      else let tot' = tot + steps_executed r
           in if naps r then wait_for (WSleep goal tot' r snapshot) h
              else run_stopped W goal tot' r snapshot h)"

text \<open>The end of a nap: the drive goes on if the run still counts as running.\<close>

definition onWoke :: "'c Words \<Rightarrow> Goal option \<Rightarrow> nat \<Rightarrow> RunResultPayload \<Rightarrow> StateSnapshot \<Rightarrow> 'c Hub \<Rightarrow> 'c Hub" where
  "onWoke W goal tot r snapshot h =
     (if rc_running (hb_ctl h) then ask_run goal tot h else run_stopped W goal tot r snapshot h)"

definition onRunRejected :: "jstring \<Rightarrow> 'c Hub \<Rightarrow> 'c Hub" where
  "onRunRejected message h = run_over (h\<lparr>hb_notices := (hb_notices h)\<lparr>nt_error := Some message\<rparr>\<rparr>)"

definition runUntil :: "StepTarget \<Rightarrow> 'c Hub \<Rightarrow> 'c Hub" where
  "runUntil target h = wait_for (WUntil (rc_moving (hb_ctl h)) target) h"

definition no_instruction_at :: "int \<Rightarrow> jstring" where
  "no_instruction_at line = ''line '' @ show_int line @ '' has no instruction to stop at''"

text \<open>A goal of its own: an address for a line, a call depth for over and out.\<close>

definition until_fresh :: "StepTarget \<Rightarrow> 'c Hub \<Rightarrow> 'c Hub" where
  "until_fresh target h =
     (case target of
        ToLine line \<Rightarrow>
          (case resolveBreakpointAddr (hb_bp h) line of
             Some pc \<Rightarrow> hub_run (Some \<lparr>g_until = \<lparr>rg_depth = None, rg_pc = Some pc\<rparr>, g_target = target\<rparr>) h
           | None \<Rightarrow> h\<lparr>hb_ctl := (hb_ctl h)\<lparr>rc_stop := saying (no_instruction_at line) (rc_stop (hb_ctl h)),
               rc_stopAt := hb_stepCountRef h\<rparr>\<rparr>)
      | _ \<Rightarrow>
          (case ms_snap (hb_mach h) of None \<Rightarrow> h
           | Some snap \<Rightarrow>
               (case ss_frames snap of None \<Rightarrow> h
                | Some f \<Rightarrow>
                    let depth = (if target = Out \<and> ss_externalCall snap = None then callDepth f - 1 else callDepth f)
                    in hub_run (Some \<lparr>g_until = \<lparr>rg_depth = Some depth, rg_pc = None\<rparr>, g_target = target\<rparr>) h)))"

definition onUntil :: "StepTarget \<Rightarrow> 'c Hub \<Rightarrow> 'c Hub" where
  "onUntil target h =
     (if \<not> programLoaded (hb_bp h) then h
      else case rc_goal (hb_ctl h) of
        Some paused \<Rightarrow>
          if g_target paused = target \<and> rc_pausedAt (hb_ctl h) = hb_stepCountRef h then hub_run (Some paused) h
          else until_fresh target h
      | None \<Rightarrow> until_fresh target h)"

definition resumeAfterInput :: "'c Hub \<Rightarrow> 'c Hub" where
  "resumeAfterInput h =
     (if \<not> rc_runBlocked (hb_ctl h) then h
      else hub_run (rc_goal (hb_ctl h)) (h\<lparr>hb_ctl := (hb_ctl h)\<lparr>rc_runBlocked := False\<rparr>\<rparr>))"

definition hub_pause :: "'c Hub \<Rightarrow> 'c Hub" where
  "hub_pause h =
     (if \<not> backendReady (hb_bp h) then h
      else send RPause (h\<lparr>hb_ctl := (hb_ctl h)\<lparr>rc_running := False, rc_runBlocked := False,
          rc_isRunning := False\<rparr>\<rparr>))"

definition hub_reset :: "'c Hub \<Rightarrow> 'c Hub" where
  "hub_reset h =
     (if \<not> backendReady (hb_bp h) then h
      else send RReset (markProgramLoaded False (h\<lparr>hb_ctl := (hb_ctl h)\<lparr>rc_running := False,
          rc_runBlocked := False, rc_stopAt := -1, rc_isRunning := False\<rparr>,
           hb_notices := (hb_notices h)\<lparr>nt_error := None, nt_assemblyErrors := []\<rparr>,
           hb_shown := (hb_shown h)\<lparr>sh_instructions := []\<rparr>,
           hb_stdinLog := [],
           hb_cpu := resetReplayHistory (setCurrentLine None (hb_cpu h)),
           hb_console := clearScrollback (hb_console h),
           hb_stepCount := 0\<rparr>)))"

text \<open>The effect after a render: the ref follows the state.\<close>

definition hub_rendered :: "'c Hub \<Rightarrow> 'c Hub" where
  "hub_rendered h = h\<lparr>hb_stepCountRef := hb_stepCount h\<rparr>"

text \<open>What the memo derives: an error that is a pause, the card of the error shown, and
  the stop reason at the count it belongs to.\<close>

definition hub_paused :: "'c Hub \<Rightarrow> bool" where
  "hub_paused h \<longleftrightarrow> nt_error (hb_notices h) \<noteq> None \<and> nt_error (hb_notices h) = nt_pauseText (hb_notices h)"

definition hub_errorCard :: "'c Hub \<Rightarrow> 'c option" where
  "hub_errorCard h = (case nt_errorCard (hb_notices h) of None \<Rightarrow> None
     | Some (e, c) \<Rightarrow> if Some e = nt_error (hb_notices h) then Some c else None)"

definition hub_stopReason :: "'c Hub \<Rightarrow> jstring option" where
  "hub_stopReason h =
     (if rc_stopAt (hb_ctl h) = hb_stepCount h \<and> \<not> rc_isRunning (hb_ctl h) then rc_stop (hb_ctl h) else None)"

subsection \<open>Restoring a bookmark\<close>

record Bookmark =
  bk_source :: jstring
  bk_args :: "jstring option"
  bk_stdin :: "jstring option"
  bk_stepCount :: rat

text \<open>The machine a restore drives: an assemble that says whether it worked, a push of
  input and a step.\<close>

record 'w RestoreMachine =
  rm_assemble :: "jstring \<Rightarrow> jstring list \<Rightarrow> 'w \<Rightarrow> bool \<times> 'w"
  rm_pushStdin :: "jstring \<Rightarrow> 'w \<Rightarrow> 'w"
  rm_step :: "'w \<Rightarrow> StepResultPayload \<times> 'w"

definition bookmark_target :: "rat \<Rightarrow> nat" where
  "bookmark_target c = nat (min (max 0 \<lfloor>c\<rfloor>) 1000000)"

definition restore_ends :: "StepResultPayload \<Rightarrow> bool" where
  "restore_ends r \<longleftrightarrow> sp_halted r \<or> truthy (sp_error r) \<or> sp_outcome r = ''waiting''"

function restore_loop :: "('w \<Rightarrow> StepResultPayload \<times> 'w) \<Rightarrow> nat \<Rightarrow> nat \<Rightarrow> 'w \<Rightarrow> nat \<times> 'w" where
  "restore_loop stp target stepped w =
     (if stepped < target
      then let (r, w1) = stp w
           in if restore_ends r then (stepped + 1, w1) else restore_loop stp target (stepped + 1) w1
      else (stepped, w))"
  by pat_completeness auto
termination by (relation "measure (\<lambda>(stp, target, stepped, w). target - stepped)") auto

declare restore_loop.simps [simp del]

text \<open>The result is success and the steps taken; the counter is set to those.\<close>

definition bookmark_args :: "Bookmark \<Rightarrow> jstring list" where
  "bookmark_args b = (case bk_args b of Some a \<Rightarrow> if a = [] then [] else parseArgs a | None \<Rightarrow> [])"

definition seed_stdin :: "'w RestoreMachine \<Rightarrow> Bookmark \<Rightarrow> 'w \<Rightarrow> 'w" where
  "seed_stdin m b w = (case bk_stdin b of Some s \<Rightarrow> if s = [] then w else rm_pushStdin m s w | None \<Rightarrow> w)"

definition restoreBookmark :: "'w RestoreMachine \<Rightarrow> bool \<Rightarrow> Bookmark \<Rightarrow> 'w \<Rightarrow> (bool \<times> nat) \<times> 'w" where
  "restoreBookmark m ready b w =
     (if \<not> ready then ((False, 0), w)
      else let (success, w1) = rm_assemble m (bk_source b) (bookmark_args b) w
           in if \<not> success then ((False, 0), w1)
              else let (stepped, w2) =
                     restore_loop (rm_step m) (bookmark_target (bk_stepCount b)) 0 (seed_stdin m b w1)
                   in ((True, stepped), w2))"

text \<open>The machine after \<open>n\<close> steps.\<close>

definition after_steps :: "('w \<Rightarrow> StepResultPayload \<times> 'w) \<Rightarrow> nat \<Rightarrow> 'w \<Rightarrow> 'w" where
  "after_steps stp n w = ((\<lambda>v. snd (stp v)) ^^ n) w"

lemma after_steps_Suc: "after_steps stp (Suc n) w = after_steps stp n (snd (stp w))"
  by (simp add: after_steps_def funpow_Suc_right del: funpow.simps)

lemma restore_loop_effect:
  "restore_loop stp target k w = (n, w') \<Longrightarrow> k \<le> target \<Longrightarrow>
    k \<le> n \<and> n \<le> target \<and> w' = after_steps stp (n - k) w \<and>
    (\<forall>i. k + i + 1 < n \<longrightarrow> \<not> restore_ends (fst (stp (after_steps stp i w)))) \<and>
    (n < target \<longrightarrow> n \<noteq> k \<and> restore_ends (fst (stp (after_steps stp (n - k - 1) w))))"
proof (induction stp target k w arbitrary: n w' rule: restore_loop.induct)
  case (1 stp target k w)
  show ?case
  proof (cases "k < target")
    case False
    then show ?thesis using 1(2, 3) by (simp add: restore_loop.simps after_steps_def)
  next
    case True
    obtain r w1 where st: "stp w = (r, w1)" by fastforce
    show ?thesis
    proof (cases "restore_ends r")
      case ends: True
      then have "n = k + 1" "w' = w1" using 1(2) True st by (simp_all add: restore_loop.simps)
      then show ?thesis using True st ends by (simp add: after_steps_def)
    next
      case False
      then have "restore_loop stp target (k + 1) w1 = (n, w')" using 1(2) True st by (simp add: restore_loop.simps)
      note ih = 1(1) [OF True refl st [symmetric] False this]
      then have n: "k + 1 \<le> n" "n \<le> target" and w': "w' = after_steps stp (n - (k + 1)) w1"
        and quiet: "\<And>i. k + 1 + i + 1 < n \<Longrightarrow> \<not> restore_ends (fst (stp (after_steps stp i w1)))"
        and stop: "n < target \<Longrightarrow> n \<noteq> k + 1 \<and> restore_ends (fst (stp (after_steps stp (n - (k + 1) - 1) w1)))"
        using True by auto
      have s: "after_steps stp (Suc i) w = after_steps stp i w1" for i using st by (simp add: after_steps_Suc)
      have "\<not> restore_ends (fst (stp (after_steps stp i w)))" if "k + i + 1 < n" for i
        using that quiet s False st by (cases i) (auto simp: after_steps_def)
      moreover have "restore_ends (fst (stp (after_steps stp (n - k - 1) w)))" if "n < target"
      proof -
        have "n - k - 1 = Suc (n - (k + 1) - 1)" using stop [OF that] n by linarith
        then show ?thesis using stop [OF that] s by simp
      qed
      moreover have "after_steps stp (n - k) w = w'" using n w' s [of "n - (k + 1)"] by (simp add: Suc_diff_Suc)
      ultimately show ?thesis using n by auto
    qed
  qed
qed

text \<open>C32: a restored bookmark stands exactly where it was saved, or where the program
  stopped on the way.  For any step count the file carries, negative, fractional or
  huge, a restore whose program assembles ends within a million steps; it takes the
  steps asked for unless one of them halts, fails or waits for input, and then that
  step is its last.\<close>

theorem restore_reaches_the_step:
  assumes "rm_assemble m (bk_source b) (bookmark_args b) w = (True, w1)"
  defines "machine_after \<equiv> \<lambda>i. after_steps (rm_step m) i (seed_stdin m b w1)"
    and "target \<equiv> bookmark_target (bk_stepCount b)"
  shows "\<exists>n. restoreBookmark m True b w = ((True, n), machine_after n) \<and> n \<le> target \<and> target \<le> 1000000 \<and>
    (\<forall>i. i + 1 < n \<longrightarrow> \<not> restore_ends (fst (rm_step m (machine_after i)))) \<and>
    (n = target \<or> 0 < n \<and> restore_ends (fst (rm_step m (machine_after (n - 1)))))"
proof -
  obtain n w' where loop: "restore_loop (rm_step m) target 0 (seed_stdin m b w1) = (n, w')"
    by fastforce
  have "target \<le> 1000000" by (simp add: target_def bookmark_target_def nat_le_iff)
  moreover have "restoreBookmark m True b w = ((True, n), w')"
    using assms(1) loop by (simp add: restoreBookmark_def target_def)
  ultimately show ?thesis using restore_loop_effect [OF loop] unfolding machine_after_def
    by (intro exI [of _ n]) auto
qed

text \<open>A program that counts its steps and waits for input after the third.\<close>

definition demo_restore :: "nat RestoreMachine" where
  "demo_restore = \<lparr>rm_assemble = (\<lambda>_ _ w. (True, 0)), rm_pushStdin = (\<lambda>_ w. w),
     rm_step = (\<lambda>w. (\<lparr>sp_pc = 0, sp_halted = False, sp_error = None, sp_error_line = None,
       sp_outcome = (if w = 2 then ''waiting'' else ''ok''), sp_exitCode = None\<rparr>, w + 1))\<rparr>"

definition demo_bookmark :: Bookmark where
  "demo_bookmark = \<lparr>bk_source = ''nop'', bk_args = None, bk_stdin = None, bk_stepCount = 10\<rparr>"

theorem restore_reaches_the_step_witness:
  "\<exists>n. restoreBookmark demo_restore True demo_bookmark 7 =
      ((True, n), after_steps (rm_step demo_restore) n (seed_stdin demo_restore demo_bookmark 0)) \<and> n \<le> 1000000"
  using restore_reaches_the_step [of demo_restore demo_bookmark 7 0]
  by (auto simp: demo_restore_def dest: order_trans)

lemma demo_restore_stops_at_the_read: "fst (restoreBookmark demo_restore True demo_bookmark 7) = (True, 3)"
  by (simp add: restoreBookmark_def demo_restore_def demo_bookmark_def bookmark_target_def seed_stdin_def
      restore_loop.simps restore_ends_def truthy_def)

subsection \<open>Sessions\<close>

definition emptyWorkspace :: Workspace where
  "emptyWorkspace = \<lparr>ws_main = [], ws_extras = []\<rparr>"

definition initialHub :: "'c Hub" where
  "initialHub =
     \<lparr>hb_bp = initialBp 0x400000, hb_console = initialConsole, hb_cpu = initialCpuView,
      hb_ctl = \<lparr>rc_running = False, rc_isRunning = False, rc_waiting = [], rc_sent = [], rc_runBlocked = False,
        rc_goal = None, rc_pausedAt = -1, rc_moving = 0, rc_stop = None, rc_stopAt = -1\<rparr>,
      hb_mach = \<lparr>ms_snap = None, ms_frame = 0, ms_memoryEpoch = 0, ms_halted = False, ms_blocked = False,
        ms_canStepBack = False, ms_wantsTerminal = False, ms_exitCode = None, ms_vfsFiles = [], ms_savedStates = [],
        ms_dirtyAddrs = []\<rparr>,
      hb_notices = \<lparr>nt_error = None, nt_errorCard = None, nt_pauseText = None, nt_assemblyErrors = [],
        nt_droppedBreakpoints = []\<rparr>,
      hb_shown = \<lparr>sh_externalCall = None, sh_lastCall = None, sh_frames = None, sh_callCard = None,
        sh_frameLayout = None, sh_noteRows = [], sh_instructions = []\<rparr>,
      hb_isAssembling = False, hb_workspace = emptyWorkspace, hb_stepCount = 0, hb_stepCountRef = 0,
      hb_savedSteps = [], hb_stdinLog = []\<rparr>"

text \<open>The drives of \<open>run\<close> that have not ended.\<close>

fun is_drive :: "Waiting \<Rightarrow> bool" where
  "is_drive (WRun _ _) = True"
| "is_drive (WSleep _ _ _ _) = True"
| "is_drive _ = False"

definition drives :: "'c Hub \<Rightarrow> nat" where
  "drives h = length (filter is_drive (rc_waiting (hb_ctl h)))"

text \<open>A continuation taken out of the list when its promise settles.\<close>

definition settle_wait :: "Waiting \<Rightarrow> 'c Hub \<Rightarrow> 'c Hub" where
  "settle_wait w h = h\<lparr>hb_ctl := (hb_ctl h)\<lparr>rc_waiting := remove1 w (rc_waiting (hb_ctl h))\<rparr>\<rparr>"

text \<open>Everything that can happen to the hub: callbacks, snapshots, the render effect and
  the settling of any promise that waits, with any reply.  When \<open>hasty\<close> is false,
  no run starts while a drive that a pause or a reset stood down is still on its way.\<close>

definition may_start :: "bool \<Rightarrow> 'c Hub \<Rightarrow> bool" where
  "may_start hasty h \<longleftrightarrow> hasty \<or> rc_running (hb_ctl h) \<or> drives h = 0"

inductive hub_event :: "'c Words \<Rightarrow> bool \<Rightarrow> 'c Hub \<Rightarrow> 'c Hub \<Rightarrow> bool" for W hasty where
  backendReady: "hub_event W hasty h (onBackendReady W snap base h)"
| snapshot: "hub_event W hasty h (applySnapshot W snap h)"
| rendered: "hub_event W hasty h (hub_rendered h)"
| stdin: "hub_event W hasty h (pushStdin s interactive h)"
| assemble: "hub_event W hasty h (assembleWith source args surfaceErrors workspace h)"
| step: "hub_event W hasty h (hub_step h)"
| stepBack: "hub_event W hasty h (hub_stepBack h)"
| save: "hub_event W hasty h (saveState name h)"
| delete: "hub_event W hasty h (deleteState name h)"
| load: "hub_event W hasty h (loadState name h)"
| run: "may_start hasty h \<Longrightarrow> hub_event W hasty h (hub_run goal h)"
| runUntil: "hub_event W hasty h (runUntil target h)"
| resume: "may_start hasty h \<Longrightarrow> hub_event W hasty h (resumeAfterInput h)"
| pause: "hub_event W hasty h (hub_pause h)"
| reset: "hub_event W hasty h (hub_reset h)"
| toggle: "hub_event W hasty h (h\<lparr>hb_bp := toggleBreakpoint line (hb_bp h)\<rparr>)"
| remap: "hub_event W hasty h (h\<lparr>hb_bp := remapBreakpoints mp (hb_bp h)\<rparr>)"
| tap: "hub_event W hasty h (h\<lparr>hb_console := setOutputTap t (hb_console h)\<rparr>)"
| seek: "hub_event W hasty h (h\<lparr>hb_cpu := seekReplay i (hb_cpu h)\<rparr>)"
| assembled: "WAssemble source surf \<in> set (rc_waiting (hb_ctl h)) \<Longrightarrow>
    hub_event W hasty h (onAssembled source surf reply meanwhile (settle_wait (WAssemble source surf) h))"
| assembleFailed: "WAssemble source surf \<in> set (rc_waiting (hb_ctl h)) \<Longrightarrow>
    hub_event W hasty h (onAssembleFailed surf message (settle_wait (WAssemble source surf) h))"
| stepped: "WStep n \<in> set (rc_waiting (hb_ctl h)) \<Longrightarrow> hub_event W hasty h (onStepped W result (settle_wait (WStep n) h))"
| steppedBack: "WStepBack n \<in> set (rc_waiting (hb_ctl h)) \<Longrightarrow> hub_event W hasty h (onSteppedBack (settle_wait (WStepBack n) h))"
| moveRejected: "w \<in> {WStep n, WStepBack n} \<Longrightarrow> w \<in> set (rc_waiting (hb_ctl h)) \<Longrightarrow>
    hub_event W hasty h (onRejected message (settle_wait w h))"
| loaded: "WLoad name \<in> set (rc_waiting (hb_ctl h)) \<Longrightarrow> hub_event W hasty h (onLoaded name ok (settle_wait (WLoad name) h))"
| untilReady: "WUntil n target \<in> set (rc_waiting (hb_ctl h)) \<Longrightarrow> WStep n \<notin> set (rc_waiting (hb_ctl h)) \<Longrightarrow>
    WStepBack n \<notin> set (rc_waiting (hb_ctl h)) \<Longrightarrow> may_start hasty h \<Longrightarrow>
    hub_event W hasty h (onUntil target (settle_wait (WUntil n target) h))"
| ran: "WRun goal tot \<in> set (rc_waiting (hb_ctl h)) \<Longrightarrow>
    hub_event W hasty h (onRan W goal tot r snap (settle_wait (WRun goal tot) h))"
| runRejected: "WRun goal tot \<in> set (rc_waiting (hb_ctl h)) \<Longrightarrow>
    hub_event W hasty h (onRunRejected message (settle_wait (WRun goal tot) h))"
| woke: "WSleep goal tot r snap \<in> set (rc_waiting (hb_ctl h)) \<Longrightarrow>
    hub_event W hasty h (onWoke W goal tot r snap (settle_wait (WSleep goal tot r snap) h))"

definition hub_reachable :: "'c Words \<Rightarrow> bool \<Rightarrow> 'c Hub \<Rightarrow> bool" where
  "hub_reachable W hasty = (hub_event W hasty)\<^sup>*\<^sup>* initialHub"

subsection \<open>What touches the run controls\<close>

named_theorems run_controls \<open>the run controls after an operation\<close>

lemma ctl_surface [run_controls]: "hb_ctl (snd (surfaceRuntimeError W m l n h)) = hb_ctl h"
  by (simp add: surfaceRuntimeError_def Let_def split: option.split)

lemma ctl_snapshot [run_controls]: "hb_ctl (applySnapshot W s h) = hb_ctl h"
  by (simp add: applySnapshot_def Let_def case_prod_beta)

lemma ctl_unchanged [run_controls]:
  "hb_ctl (onBackendReady W s b h) = hb_ctl h" "hb_ctl (hub_rendered h) = hb_ctl h"
  "hb_ctl (onStepped W r h) = hb_ctl h" "hb_ctl (onSteppedBack h) = hb_ctl h"
  "hb_ctl (onRejected e h) = hb_ctl h" "hb_ctl (markProgramLoaded l h) = hb_ctl h" "hb_ctl (onLoaded name ok h) = hb_ctl h"
  by (simp_all add: onBackendReady_def hub_rendered_def onStepped_def onSteppedBack_def onRejected_def
      markProgramLoaded_def onLoaded_def run_controls Let_def split: option.split)

text \<open>Whether it runs, in both forms, and what waits.\<close>

definition run_view :: "'c Hub \<Rightarrow> bool \<times> bool \<times> Waiting list" where
  "run_view h = (rc_running (hb_ctl h), rc_isRunning (hb_ctl h), rc_waiting (hb_ctl h))"

lemma view_send [run_controls]: "run_view (send r h) = run_view h"
  by (simp add: run_view_def send_def)

lemma view_ctl: "hb_ctl h = hb_ctl h' \<Longrightarrow> run_view h = run_view h'"
  by (simp add: run_view_def)

lemma view_assemble [run_controls]:
  "run_view (failAssembly h) = run_view h"
  "run_view (onAssembled src s rp mw h) = run_view h" "run_view (onAssembleFailed s e h) = run_view h"
  by (simp_all add: failAssembly_def onAssembled_def onAssembleFailed_def succeededAssembly_def failedAssembly_def
      run_view_def send_def Let_def case_prod_beta)

lemma view_store [run_controls]:
  "run_view (pushStdin s i h) = run_view h" "run_view (saveState name h) = run_view h"
  "run_view (deleteState name h) = run_view h"
  by (simp_all add: pushStdin_def saveState_def deleteState_def run_view_def send_def Let_def)

lemma view_stop:
  "run_view (run_stopped W g t r s h) = (False, False, rc_waiting (hb_ctl h))"
proof -
  have "rc_waiting (hb_ctl (show_stop W b t r h)) = rc_waiting (hb_ctl h)" for b
    using ctl_surface [of W] by (simp add: show_stop_def Let_def case_prod_beta split: option.split)
  moreover have "rc_waiting (hb_ctl (say_goal W gl t r s k)) = rc_waiting (hb_ctl k)" for gl k
    by (simp add: say_goal_def Let_def split: option.split)
  ultimately show ?thesis by (simp add: run_stopped_def run_over_def run_view_def Let_def split: option.split)
qed

lemma view_wait [run_controls]:
  "run_view (wait_for w h) = (rc_running (hb_ctl h), rc_isRunning (hb_ctl h), rc_waiting (hb_ctl h) @ [w])"
  "run_view (settle_wait w h) = (rc_running (hb_ctl h), rc_isRunning (hb_ctl h), remove1 w (rc_waiting (hb_ctl h)))"
  by (simp_all add: run_view_def wait_for_def settle_wait_def)

lemma view_move:
  "run_view (new_move w r h) = (rc_running (hb_ctl h), rc_isRunning (hb_ctl h),
     rc_waiting (hb_ctl h) @ [w (rc_moving (hb_ctl h) + 1)])"
  by (simp add: new_move_def run_view_def wait_for_def send_def)

lemma view_run:
  "run_view (hub_run goal h) = run_view h \<or>
   \<not> rc_running (hb_ctl h) \<and> run_view (hub_run goal h) = (True, True, rc_waiting (hb_ctl h) @ [WRun goal 0])"
  by (simp add: hub_run_def ask_run_def run_view_def wait_for_def send_def)

lemma view_until:
  "run_view (onUntil target h) = run_view h \<or>
   (\<exists>goal. \<not> rc_running (hb_ctl h) \<and> run_view (onUntil target h) = (True, True, rc_waiting (hb_ctl h) @ [WRun goal 0]))"
proof -
  have "run_view (until_fresh target h) = run_view h \<or>
      (\<exists>goal. \<not> rc_running (hb_ctl h) \<and> run_view (until_fresh target h) = (True, True, rc_waiting (hb_ctl h) @ [WRun goal 0]))"
    using view_run [of _ h] by (fastforce simp: until_fresh_def Let_def run_view_def split: StepTarget.split option.split)
  then show ?thesis using view_run [of _ h] by (auto simp: onUntil_def split: option.split)
qed

lemma view_resume:
  "run_view (resumeAfterInput h) = run_view h \<or>
   (\<exists>goal. \<not> rc_running (hb_ctl h) \<and> run_view (resumeAfterInput h) = (True, True, rc_waiting (hb_ctl h) @ [WRun goal 0]))"
  using view_run [of _ "h\<lparr>hb_ctl := (hb_ctl h)\<lparr>rc_runBlocked := False\<rparr>\<rparr>"]
  by (auto simp: resumeAfterInput_def run_view_def)

lemma view_interrupt:
  "run_view (hub_pause h) \<in> {run_view h, (False, False, rc_waiting (hb_ctl h))}"
  "run_view (hub_reset h) \<in> {run_view h, (False, False, rc_waiting (hb_ctl h))}"
  by (simp_all add: hub_pause_def hub_reset_def markProgramLoaded_def run_view_def send_def)

lemma view_assembleWith:
  "run_view (assembleWith src args s ws h) = run_view h \<or>
   run_view (assembleWith src args s ws h) =
     (rc_running (hb_ctl h), rc_isRunning (hb_ctl h), rc_waiting (hb_ctl h) @ [WAssemble src s])"
  by (simp add: assembleWith_def beginAssembly_def failAssembly_def run_view_def wait_for_def send_def Let_def)

lemma view_ran:
  "run_view (onRan W goal t r s h) \<in> {(False, False, rc_waiting (hb_ctl h)),
     (rc_running (hb_ctl h), rc_isRunning (hb_ctl h), rc_waiting (hb_ctl h) @ [WSleep goal (t + steps_executed r) r s])}"
  by (simp add: onRan_def Let_def view_stop view_wait) (simp add: run_over_def run_view_def)

lemma view_woke:
  "run_view (onWoke W goal t r s h) =
     (if rc_running (hb_ctl h) then (True, rc_isRunning (hb_ctl h), rc_waiting (hb_ctl h) @ [WRun goal t])
      else (False, False, rc_waiting (hb_ctl h)))"
  by (simp add: onWoke_def view_stop) (simp add: ask_run_def run_view_def wait_for_def send_def)

subsection \<open>Drives\<close>

definition drive_count :: "Waiting list \<Rightarrow> nat" where
  "drive_count ws = length (filter is_drive ws)"

lemma drive_count_append [simp]: "drive_count (ws @ [w]) = drive_count ws + (if is_drive w then 1 else 0)"
  by (simp add: drive_count_def)

lemma drive_count_remove:
  "w \<in> set ws \<Longrightarrow> drive_count (remove1 w ws) = drive_count ws - (if is_drive w then 1 else 0)"
  "w \<in> set ws \<Longrightarrow> is_drive w \<Longrightarrow> 1 \<le> drive_count ws"
  by (induction ws) (auto simp: drive_count_def)

text \<open>The controls agree, a run that shows has a drive, and with patience there is one
  at most.\<close>

fun controls_ok :: "bool \<Rightarrow> bool \<times> bool \<times> Waiting list \<Rightarrow> bool" where
  "controls_ok hasty (r, i, ws) \<longleftrightarrow> i = r \<and> (r \<longrightarrow> 1 \<le> drive_count ws) \<and> (hasty \<or> drive_count ws \<le> 1)"

lemma drives_conv: "drives h = drive_count (rc_waiting (hb_ctl h))"
  by (simp add: drives_def drive_count_def)

lemma controls_ok_view:
  "controls_ok hasty (run_view h) \<longleftrightarrow> rc_isRunning (hb_ctl h) = rc_running (hb_ctl h) \<and>
     (rc_running (hb_ctl h) \<longrightarrow> 1 \<le> drives h) \<and> (hasty \<or> drives h \<le> 1)"
  by (simp add: run_view_def drives_conv)

text \<open>Starting a run keeps the controls.\<close>

lemma start_controls_ok:
  assumes "controls_ok hasty (run_view h)" "may_start hasty h"
    and "v = run_view h \<or> \<not> rc_running (hb_ctl h) \<and> v = (True, True, rc_waiting (hb_ctl h) @ [WRun goal 0])"
  shows "controls_ok hasty v"
  using assms by (auto simp: controls_ok_view may_start_def drives_conv)

lemma settle_quiet:
  assumes "w \<in> set (rc_waiting (hb_ctl h))" "\<not> is_drive w"
  shows "controls_ok hasty (run_view (settle_wait w h)) = controls_ok hasty (run_view h)"
    and "may_start hasty (settle_wait w h) = may_start hasty h"
  using assms drive_count_remove(1) [of w "rc_waiting (hb_ctl h)"]
  by (simp_all add: run_view_def settle_wait_def may_start_def drives_conv)

lemma wait_quiet:
  "\<not> is_drive w \<Longrightarrow> controls_ok hasty (r, i, ws @ [w]) = controls_ok hasty (r, i, ws)"
  by simp

text \<open>A drive that settles and ends, or goes on.\<close>

lemma settle_drive:
  assumes "w \<in> set (rc_waiting (hb_ctl h))" "is_drive w" "controls_ok hasty (run_view h)"
  shows "controls_ok hasty (False, False, rc_waiting (hb_ctl (settle_wait w h)))"
    and "is_drive w' \<Longrightarrow> controls_ok hasty (rc_running (hb_ctl h), rc_isRunning (hb_ctl h),
      rc_waiting (hb_ctl (settle_wait w h)) @ [w'])"
  using assms drive_count_remove [of w "rc_waiting (hb_ctl h)"]
  by (auto simp: run_view_def settle_wait_def)

lemma ctl_settle [simp]:
  "rc_running (hb_ctl (settle_wait w h)) = rc_running (hb_ctl h)"
  "rc_isRunning (hb_ctl (settle_wait w h)) = rc_isRunning (hb_ctl h)"
  by (simp_all add: settle_wait_def)

lemmas view_unchanged = ctl_snapshot [THEN view_ctl] ctl_unchanged [THEN view_ctl] view_assemble view_store

lemma view_part [simp]:
  "run_view (h\<lparr>hb_bp := b\<rparr>) = run_view h" "run_view (h\<lparr>hb_console := c\<rparr>) = run_view h"
  "run_view (h\<lparr>hb_cpu := v\<rparr>) = run_view h"
  by (simp_all add: run_view_def)

lemma event_controls_ok:
  assumes "hub_event W hasty h h'" "controls_ok hasty (run_view h)"
  shows "controls_ok hasty (run_view h')"
  using assms
proof (cases rule: hub_event.cases)
  case (assemble source args surfaceErrors workspace)
  then show ?thesis using assms(2) view_assembleWith [of source args surfaceErrors workspace h]
    by (auto simp: run_view_def)
next
  case step
  then show ?thesis using assms(2) by (simp add: hub_step_def view_move) (simp add: run_view_def)
next
  case stepBack
  then show ?thesis using assms(2) by (simp add: hub_stepBack_def view_move) (simp add: run_view_def)
next
  case (load name)
  then show ?thesis using assms(2) by (simp add: loadState_def view_wait) (simp add: run_view_def send_def)
next
  case (run goal)
  then show ?thesis using start_controls_ok [OF assms(2)] view_run [of goal h] by blast
next
  case (runUntil target)
  then show ?thesis using assms(2) by (simp add: runUntil_def view_wait) (simp add: run_view_def)
next
  case resume
  then show ?thesis using start_controls_ok [OF assms(2)] view_resume [of h] by blast
next
  case pause
  then show ?thesis using assms(2) view_interrupt(1) [of h] by (auto simp: run_view_def)
next
  case reset
  then show ?thesis using assms(2) view_interrupt(2) [of h] by (auto simp: run_view_def)
next
  case (untilReady n target)
  let ?h = "settle_wait (WUntil n target) h"
  have "controls_ok hasty (run_view ?h)" "may_start hasty ?h"
    using settle_quiet [OF untilReady(2), of hasty] untilReady(5) assms(2) by (simp_all del: controls_ok.simps)
  then show ?thesis unfolding untilReady(1) using start_controls_ok [of hasty ?h] view_until [of target ?h] by blast
next
  case (ran goal tot r snap)
  then show ?thesis using settle_drive [OF ran(2) _ assms(2)] view_ran [of W goal tot r snap "settle_wait (WRun goal tot) h"]
    by (auto simp del: controls_ok.simps)
next
  case (runRejected goal tot message)
  then show ?thesis using settle_drive(1) [OF runRejected(2) _ assms(2)]
    by (simp add: onRunRejected_def run_over_def run_view_def)
next
  case (woke goal tot r snap)
  have "rc_isRunning (hb_ctl h) = rc_running (hb_ctl h)" using assms(2) by (simp add: controls_ok_view del: controls_ok.simps)
  then show ?thesis unfolding woke(1) view_woke
    using settle_drive(1) [OF woke(2) _ assms(2)] settle_drive(2) [OF woke(2) _ assms(2), of "WRun goal tot"]
    by (cases "rc_running (hb_ctl h)") (simp_all del: controls_ok.simps)
qed (use assms(2) in \<open>auto simp: view_unchanged settle_quiet simp del: controls_ok.simps\<close>)

lemma reachable_controls_ok:
  assumes "hub_reachable W hasty h"
  shows "controls_ok hasty (run_view h)"
  using assms unfolding hub_reachable_def
proof (induction rule: rtranclp_induct)
  case base
  then show ?case by (simp add: initialHub_def run_view_def drive_count_def)
next
  case (step y z)
  then show ?case by (blast intro: event_controls_ok)
qed


text \<open>C9: the Run button never hangs.  Whatever the student does and whatever the
  machine answers, in any order: the flag the guards read and the flag the controls
  show agree, and when they say the program runs, a drive of that run is in flight,
  so that its end will clear them.\<close>

theorem running_has_a_drive:
  assumes "hub_reachable W hasty h"
  shows "rc_isRunning (hb_ctl h) = rc_running (hb_ctl h) \<and>
    (rc_running (hb_ctl h) \<longrightarrow>
       (\<exists>goal tot. WRun goal tot \<in> set (rc_waiting (hb_ctl h))) \<or>
       (\<exists>goal tot r snap. WSleep goal tot r snap \<in> set (rc_waiting (hb_ctl h))))"
proof -
  have "\<exists>w \<in> set (rc_waiting (hb_ctl h)). is_drive w" if "1 \<le> drives h"
    using that by (auto simp: drives_def Suc_le_eq filter_empty_conv)
  then show ?thesis using reachable_controls_ok [OF assms] unfolding controls_ok_view
    by (metis is_drive.elims(2))
qed

text \<open>C8: one run at a time.  As long as no run is started while a drive that a pause or
  a reset stood down is still in flight, the machine is driven by one loop at most.\<close>

theorem one_drive_at_a_time:
  assumes "hub_reachable W False h"
  shows "drives h \<le> 1 \<and> (rc_running (hb_ctl h) \<longrightarrow> drives h = 1)"
  using reachable_controls_ok [OF assms] unfolding controls_ok_view by auto

subsection \<open>A nap interrupted\<close>

lemma drives_view: "run_view h = (r, i, ws) \<Longrightarrow> drives h = drive_count ws"
  by (simp add: run_view_def drives_conv)

lemma guards_kept [simp]:
  "hb_bp (hub_pause h) = hb_bp h" "hb_mach (hub_pause h) = hb_mach h"
  by (simp_all add: hub_pause_def send_def)

lemma run_after_pause:
  assumes "backendReady (hb_bp h)" "programLoaded (hb_bp h)" "\<not> ms_halted (hb_mach h)"
  shows "run_view (hub_run goal (hub_pause h)) = (True, True, rc_waiting (hb_ctl h) @ [WRun goal 0])"
  using assms by (simp add: hub_run_def ask_run_def wait_for_def send_def run_view_def) (simp add: hub_pause_def send_def)

lemma onRan_ends:
  assumes "cancelled r \<or> \<not> naps r"
  shows "run_view (onRan W goal t r s h) = (False, False, rc_waiting (hb_ctl h))"
proof (cases "cancelled r")
  case True
  then show ?thesis by (simp add: onRan_def run_over_def run_view_def)
next
  case False
  then show ?thesis using assms by (simp add: onRan_def Let_def view_stop)
qed

text \<open>C36: pausing a program that sleeps and running it again leaves it shown as stopped
  while it runs.  A drive waits for a nap of the program to end; the student presses
  Pause and then Run before it does.  The nap ends, the old drive finds the run flag
  set again and goes on beside the new one; when the new drive is answered, the
  controls show the program as stopped, with the old drive still running it.\<close>

theorem pause_and_run_in_a_nap:
  fixes W :: "'c Words" and h :: "'c Hub" and snap' :: StateSnapshot
  assumes "WSleep goal tot r snap \<in> set (rc_waiting (hb_ctl h))"
    and "backendReady (hb_bp h)" "programLoaded (hb_bp h)" "\<not> ms_halted (hb_mach h)"
    and "cancelled r' \<or> \<not> naps r'"
  defines "h1 \<equiv> hub_run None (hub_pause h)"
  defines "h2 \<equiv> onWoke W goal tot r snap (settle_wait (WSleep goal tot r snap) h1)"
  defines "h3 \<equiv> onRan W None 0 r' snap' (settle_wait (WRun None 0) h2)"
  shows "rc_running (hb_ctl h2) \<and> drives h2 = drives h + 1 \<and>
    \<not> rc_running (hb_ctl h3) \<and> \<not> rc_isRunning (hb_ctl h3) \<and> drives h3 = drives h \<and> 1 \<le> drives h3"
proof -
  let ?ws = "rc_waiting (hb_ctl h)" and ?w = "WSleep goal tot r snap"
  have v1: "run_view h1 = (True, True, ?ws @ [WRun None 0])"
    unfolding h1_def using assms(2-4) by (rule run_after_pause)
  then have c1: "rc_running (hb_ctl h1)" "rc_isRunning (hb_ctl h1)" "rc_waiting (hb_ctl h1) = ?ws @ [WRun None 0]"
    by (simp_all add: run_view_def)
  have v2: "run_view h2 = (True, True, remove1 ?w (?ws @ [WRun None 0]) @ [WRun goal tot])"
    unfolding h2_def view_woke using c1 by (simp add: settle_wait_def)
  then have c2: "rc_running (hb_ctl h2)" "rc_waiting (hb_ctl h2) = remove1 ?w ?ws @ [WRun None 0] @ [WRun goal tot]"
    using assms(1) by (simp_all add: run_view_def remove1_append)
  have v3: "run_view h3 = (False, False, remove1 (WRun None 0) (rc_waiting (hb_ctl h2)))"
    unfolding h3_def onRan_ends [OF assms(5)] by (simp add: settle_wait_def)
  note n = drive_count_remove [OF assms(1)]
  have d2: "drives h2 = drives h + 1" using c2(2) n by (simp add: drives_conv drive_count_def)
  moreover have "drives h3 = drives h2 - 1"
    unfolding drives_view [OF v3] using c2(2) drive_count_remove(1) [of "WRun None 0" "rc_waiting (hb_ctl h2)"]
    by (simp add: drives_conv)
  moreover have "1 \<le> drives h" using n(2) by (simp add: drives_conv)
  ultimately show ?thesis using c2(1) v3 by (simp add: run_view_def)
qed

definition demo_nap :: RunResultPayload where
  "demo_nap = \<lparr>rr_pc = 0x400000, halted = False, steps_executed = 5, hit_breakpoint = False, rr_error = None,
     error_line = None, step_limit_reached = False, cancelled = False, sleep_ms = Some 500, reached = False,
     bad_return = False\<rparr>"

definition demo_words :: "unit Words" where
  "demo_words = \<lparr>w_faultText = (\<lambda>_ _ _ _. None), w_plain = (\<lambda>_. []), w_stopReason = (\<lambda>_ _ _ _ _. None),
     w_clobberNoteTexts = (\<lambda>_ _. []), w_calleeTexts = (\<lambda>_ _ _. []), w_formatSteps = (\<lambda>_. [])\<rparr>"

text \<open>A program that was run and sleeps.\<close>

definition demo_sleeper :: "unit Hub" where
  "demo_sleeper =
     onRan demo_words None 0 demo_nap (emptyStateSnapshot 1) (settle_wait (WRun None 0)
       (hub_run None (initialHub\<lparr>hb_bp := (initialBp 0x400000)\<lparr>backendReady := True, programLoaded := True\<rparr>\<rparr>)))"

lemma demo_sleeper_waits:
  "rc_waiting (hb_ctl demo_sleeper) = [WSleep None 5 demo_nap (emptyStateSnapshot 1)]"
  "rc_running (hb_ctl demo_sleeper)"
  "backendReady (hb_bp demo_sleeper)" "programLoaded (hb_bp demo_sleeper)" "\<not> ms_halted (hb_mach demo_sleeper)"
  by (simp_all add: demo_sleeper_def onRan_def naps_def truthy_def hub_run_def ask_run_def wait_for_def send_def settle_wait_def
      initialHub_def demo_nap_def)

theorem pause_and_run_in_a_nap_witness:
  "drives (onWoke demo_words None 5 demo_nap (emptyStateSnapshot 1)
     (settle_wait (WSleep None 5 demo_nap (emptyStateSnapshot 1)) (hub_run None (hub_pause demo_sleeper)))) = 2"
proof -
  have "drives demo_sleeper = 1" by (simp add: drives_def demo_sleeper_waits)
  then show ?thesis
    using pause_and_run_in_a_nap [of None 5 demo_nap "emptyStateSnapshot 1" demo_sleeper "demo_nap\<lparr>cancelled := True\<rparr>"
        demo_words "emptyStateSnapshot 1"] demo_sleeper_waits
    by simp
qed

text \<open>A session from the mount to a run: the machine loads, a program is assembled and
  run.\<close>

definition demo_reply :: AssembleReply where
  "demo_reply = \<lparr>ar_result = \<lparr>ap_success = True, ap_error = None, ap_error_line = None, ap_instruction_count = 1\<rparr>,
     ar_lineMap = None, ar_codeBytes = [0x1F, 0x20, 0x03, 0xD5], ar_layout = None\<rparr>"

definition demo_loaded :: "unit Hub" where
  "demo_loaded = onBackendReady demo_words (emptyStateSnapshot 1) 0x400000 initialHub"

definition demo_assembling :: "unit Hub" where
  "demo_assembling = assembleWith ''nop'' [] True \<lparr>ws_main = ''nop'', ws_extras = []\<rparr> demo_loaded"

definition demo_running :: "unit Hub" where
  "demo_running = hub_run None
     (onAssembled ''nop'' True demo_reply [] (settle_wait (WAssemble ''nop'' True) demo_assembling))"

lemma demo_loaded_ctl: "hb_ctl demo_loaded = hb_ctl (initialHub :: unit Hub)" "backendReady (hb_bp demo_loaded)"
  "\<not> ms_halted (hb_mach demo_loaded)"
  by (simp_all add: demo_loaded_def ctl_unchanged)
     (simp_all add: onBackendReady_def applySnapshot_def Let_def case_prod_beta emptyStateSnapshot_def)

lemma demo_assembling_waits:
  "rc_waiting (hb_ctl demo_assembling) = [WAssemble ''nop'' True]" "\<not> rc_running (hb_ctl demo_assembling)"
  "backendReady (hb_bp demo_assembling)" "\<not> ms_halted (hb_mach demo_assembling)"
proof -
  have "hasAssemblableContent ''nop''" by code_simp
  then show "rc_waiting (hb_ctl demo_assembling) = [WAssemble ''nop'' True]" "\<not> rc_running (hb_ctl demo_assembling)"
    "backendReady (hb_bp demo_assembling)" "\<not> ms_halted (hb_mach demo_assembling)"
    using demo_loaded_ctl
    by (simp_all add: demo_assembling_def assembleWith_def beginAssembly_def wait_for_def send_def startAssembly_def
        initialHub_def)
qed

lemma finishAssembly_loads:
  "programLoaded (snd (finishAssembly base src m ts s))"
  "backendReady (snd (finishAssembly base src m ts s)) = backendReady s"
  by (simp_all add: finishAssembly_def rekeyArm_def rekeyClear_def clear_all_breakpoints_def Let_def case_prod_beta)

lemma demo_running_runs:
  "rc_running (hb_ctl demo_running)" "rc_waiting (hb_ctl demo_running) = [WRun None 0]"
  using demo_assembling_waits finishAssembly_loads
  by (simp_all add: demo_running_def hub_run_def onAssembled_def demo_reply_def succeededAssembly_def settle_wait_def
      ask_run_def wait_for_def send_def Let_def case_prod_beta)

lemma demo_running_reachable: "hub_reachable demo_words False demo_running"
proof -
  let ?a = "onAssembled ''nop'' True demo_reply [] (settle_wait (WAssemble ''nop'' True) demo_assembling)"
  have "hub_event demo_words False initialHub demo_loaded"
    unfolding demo_loaded_def by (rule hub_event.backendReady)
  moreover have "hub_event demo_words False demo_loaded demo_assembling"
    unfolding demo_assembling_def by (rule hub_event.assemble)
  moreover have "hub_event demo_words False demo_assembling ?a"
    by (rule hub_event.assembled) (simp add: demo_assembling_waits)
  moreover have "run_view ?a = (False, rc_isRunning (hb_ctl demo_assembling), [])"
    using demo_assembling_waits by (simp add: view_assemble view_wait)
  from drives_view [OF this] have "may_start False ?a" by (simp add: may_start_def drive_count_def)
  then have "hub_event demo_words False ?a demo_running"
    unfolding demo_running_def by (rule hub_event.run)
  ultimately show ?thesis unfolding hub_reachable_def
    by (meson converse_rtranclp_into_rtranclp r_into_rtranclp)
qed

theorem running_has_a_drive_witness:
  "rc_isRunning (hb_ctl demo_running) \<and> (\<exists>w \<in> set (rc_waiting (hb_ctl demo_running)). is_drive w)"
  using running_has_a_drive [OF demo_running_reachable] demo_running_runs by auto

theorem one_drive_at_a_time_witness: "drives demo_running = 1"
  using one_drive_at_a_time [OF demo_running_reachable] demo_running_runs by simp

end
