(* ===== verification/MemoryCache.thy ===== *)
theory MemoryCache
  imports Prelude "HOL-Library.AList"
begin

text \<open>
  The memory cache behind the memory and watch panels
  (\<open>lib/emulator/use-memory-cache.ts\<close>): a synchronous read over an asynchronous
  backend, emptied whenever a snapshot with a newer frame arrives.  A key
  \<open>addr:len\<close> is the pair of its numbers.  The cache is then joined to a machine that
  answers in order over two queues, whose memory changes between its snapshots; the
  theorem is that no stale bytes outlive the frame they belong to.
\<close>

type_synonym range_key = "int \<times> int"

record MemoryCache =
  memCache :: "(range_key \<times> nat list) list"
  memPending :: "range_key list"
  mappedCache :: "(range_key \<times> bool) list"
  mappedPending :: "range_key list"
  memTick :: nat

definition memCacheKey :: "int \<Rightarrow> int \<Rightarrow> range_key" where
  "memCacheKey addr len = (addr, len)"

definition emptyMemoryCache :: MemoryCache where
  "emptyMemoryCache = \<lparr>memCache = [], memPending = [], mappedCache = [], mappedPending = [], memTick = 0\<rparr>"

definition invalidate :: "MemoryCache \<Rightarrow> MemoryCache" where
  "invalidate c =
     c\<lparr>memCache := [], memPending := [], mappedCache := [], mappedPending := [], memTick := memTick c + 1\<rparr>"

text \<open>A read: the bytes it returns, whether it sends a request, and the cache.  A
  miss shows zeros until the bytes come.\<close>

definition getMemory :: "bool \<Rightarrow> int \<Rightarrow> int \<Rightarrow> MemoryCache \<Rightarrow> nat list \<times> bool \<times> MemoryCache" where
  "getMemory ready addr len c =
     (let key = memCacheKey addr len; zeros = replicate (nat len) 0 in
      if \<not> ready then (zeros, False, c)
      else case map_of (memCache c) key of
        Some cached \<Rightarrow> (cached, False, c)
      | None \<Rightarrow>
          if key \<in> set (memPending c) then (zeros, False, c)
          else (zeros, True, c\<lparr>memPending := memPending c @ [key]\<rparr>))"

definition onBytes :: "range_key \<Rightarrow> nat list \<Rightarrow> MemoryCache \<Rightarrow> MemoryCache" where
  "onBytes key bytes c =
     c\<lparr>memCache := AList.update key bytes (memCache c), memPending := removeAll key (memPending c),
       memTick := memTick c + 1\<rparr>"

definition onBytesFailed :: "range_key \<Rightarrow> MemoryCache \<Rightarrow> MemoryCache" where
  "onBytesFailed key c = c\<lparr>memPending := removeAll key (memPending c)\<rparr>"

definition getMemoryMapped :: "bool \<Rightarrow> int \<Rightarrow> int \<Rightarrow> MemoryCache \<Rightarrow> bool option \<times> bool \<times> MemoryCache" where
  "getMemoryMapped ready addr len c =
     (let key = memCacheKey addr len in
      if \<not> ready then (None, False, c)
      else case map_of (mappedCache c) key of
        Some cached \<Rightarrow> (Some cached, False, c)
      | None \<Rightarrow>
          if key \<in> set (mappedPending c) then (None, False, c)
          else (None, True, c\<lparr>mappedPending := mappedPending c @ [key]\<rparr>))"

definition onMapped :: "range_key \<Rightarrow> bool \<Rightarrow> MemoryCache \<Rightarrow> MemoryCache" where
  "onMapped key verdict c =
     c\<lparr>mappedCache := AList.update key verdict (mappedCache c), mappedPending := removeAll key (mappedPending c),
       memTick := memTick c + 1\<rparr>"

definition onMappedFailed :: "range_key \<Rightarrow> MemoryCache \<Rightarrow> MemoryCache" where
  "onMappedFailed key c = c\<lparr>mappedPending := removeAll key (mappedPending c)\<rparr>"

subsection \<open>The cache and a machine\<close>

text \<open>What the machine sends: the bytes of a range, a verdict, a failure, or a snapshot
  by its frame.\<close>

datatype machine_message =
    MBytes range_key "nat list"
  | MMapped range_key bool
  | MBytesFailed range_key
  | MMappedFailed range_key
  | MSnapshot nat

text \<open>The page's cache and newest frame; the requests on their way, the messages on
  their way back, the machine's memory, its frame, and whether it changed since its
  last snapshot.  A memory is what a read of a range gives, and which ranges are
  mapped.\<close>

datatype range_request = AskBytes range_key | AskMapped range_key

record cache_system =
  cs_cache :: MemoryCache
  cs_frame :: nat
  cs_requests :: "range_request list"
  cs_messages :: "machine_message list"
  cs_read :: "range_key \<Rightarrow> nat list"
  cs_mapped :: "range_key \<Rightarrow> bool"
  cs_machineFrame :: nat
  cs_dirty :: bool

text \<open>The page's side of a message; a snapshot empties the cache when its frame is
  newer (\<open>applySnapshot\<close>).\<close>

fun onMachineMessage :: "machine_message \<Rightarrow> cache_system \<Rightarrow> cache_system" where
  "onMachineMessage (MBytes k b) s = s\<lparr>cs_cache := onBytes k b (cs_cache s)\<rparr>"
| "onMachineMessage (MMapped k v) s = s\<lparr>cs_cache := onMapped k v (cs_cache s)\<rparr>"
| "onMachineMessage (MBytesFailed k) s = s\<lparr>cs_cache := onBytesFailed k (cs_cache s)\<rparr>"
| "onMachineMessage (MMappedFailed k) s = s\<lparr>cs_cache := onMappedFailed k (cs_cache s)\<rparr>"
| "onMachineMessage (MSnapshot n) s =
     (if n > cs_frame s then s\<lparr>cs_frame := n, cs_cache := invalidate (cs_cache s)\<rparr> else s)"

inductive cache_step :: "cache_system \<Rightarrow> cache_system \<Rightarrow> bool" where
  read: "getMemory True a l (cs_cache s) = (shown, ask, c) \<Longrightarrow>
    cache_step s (s\<lparr>cs_cache := c, cs_requests := cs_requests s @ (if ask then [AskBytes (memCacheKey a l)] else [])\<rparr>)"
| readMapped: "getMemoryMapped True a l (cs_cache s) = (known, ask, c) \<Longrightarrow>
    cache_step s (s\<lparr>cs_cache := c, cs_requests := cs_requests s @ (if ask then [AskMapped (memCacheKey a l)] else [])\<rparr>)"
| answerBytes: "cs_requests s = AskBytes k # rest \<Longrightarrow> m \<in> {MBytes k (cs_read s k), MBytesFailed k} \<Longrightarrow>
    cache_step s (s\<lparr>cs_requests := rest, cs_messages := cs_messages s @ [m]\<rparr>)"
| answerMapped: "cs_requests s = AskMapped k # rest \<Longrightarrow> m \<in> {MMapped k (cs_mapped s k), MMappedFailed k} \<Longrightarrow>
    cache_step s (s\<lparr>cs_requests := rest, cs_messages := cs_messages s @ [m]\<rparr>)"
| run: "cache_step s (s\<lparr>cs_read := rd, cs_mapped := mp, cs_dirty := True\<rparr>)"
| snapshot: "cache_step s (s\<lparr>cs_machineFrame := cs_machineFrame s + 1, cs_dirty := False,
    cs_messages := cs_messages s @ [MSnapshot (cs_machineFrame s + 1)]\<rparr>)"
| deliver: "cs_messages s = m # rest \<Longrightarrow> cache_step s (onMachineMessage m (s\<lparr>cs_messages := rest\<rparr>))"

definition initial_system :: "(range_key \<Rightarrow> nat list) \<Rightarrow> (range_key \<Rightarrow> bool) \<Rightarrow> cache_system" where
  "initial_system rd mp =
     \<lparr>cs_cache = emptyMemoryCache, cs_frame = 0, cs_requests = [], cs_messages = [], cs_read = rd, cs_mapped = mp,
      cs_machineFrame = 0, cs_dirty = False\<rparr>"

subsection \<open>Nothing stale outlives its frame\<close>

fun snaps :: "machine_message list \<Rightarrow> nat list" where
  "snaps [] = []"
| "snaps (MSnapshot n # ms) = n # snaps ms"
| "snaps (_ # ms) = snaps ms"

lemma snaps_append [simp]: "snaps (ms @ ns) = snaps ms @ snaps ns"
  by (induction ms rule: snaps.induct) auto

text \<open>A message that says what the machine's memory now is.\<close>

fun tells :: "cache_system \<Rightarrow> machine_message \<Rightarrow> bool" where
  "tells s (MBytes k b) = (b = cs_read s k)"
| "tells s (MMapped k v) = (v = cs_mapped s k)"
| "tells s _ = True"

fun covered :: "cache_system \<Rightarrow> machine_message list \<Rightarrow> bool" where
  "covered s [] = True"
| "covered s (m # ms) = ((tells s m \<or> cs_dirty s \<or> snaps ms \<noteq> []) \<and> covered s ms)"

definition accurate :: "cache_system \<Rightarrow> bool" where
  "accurate s \<longleftrightarrow>
     (\<forall>k b. map_of (memCache (cs_cache s)) k = Some b \<longrightarrow> b = cs_read s k) \<and>
     (\<forall>k v. map_of (mappedCache (cs_cache s)) k = Some v \<longrightarrow> v = cs_mapped s k)"

definition cache_inv :: "cache_system \<Rightarrow> bool" where
  "cache_inv s \<longleftrightarrow>
     (accurate s \<or> cs_dirty s \<or> snaps (cs_messages s) \<noteq> []) \<and> covered s (cs_messages s) \<and>
     sorted_wrt (<) (cs_frame s # snaps (cs_messages s)) \<and>
     (\<forall>n \<in> set (cs_frame s # snaps (cs_messages s)). n \<le> cs_machineFrame s)"

lemma tells_cong: "cs_read s = cs_read t \<Longrightarrow> cs_mapped s = cs_mapped t \<Longrightarrow> tells s m = tells t m"
  by (cases m) simp_all

lemma covered_cong:
  "cs_read s = cs_read t \<Longrightarrow> cs_mapped s = cs_mapped t \<Longrightarrow> cs_dirty s = cs_dirty t \<Longrightarrow> covered s ms = covered t ms"
  by (induction ms) (simp_all add: tells_cong [of s t])

lemma covered_dirty: "cs_dirty s \<Longrightarrow> covered s ms"
  by (induction ms) simp_all

lemma covered_add: "covered s ms \<Longrightarrow> tells s m \<Longrightarrow> covered s (ms @ [m])"
  by (induction ms) auto

lemma covered_snapshot: "covered s (ms @ [MSnapshot n])"
  by (induction ms) simp_all

lemma reading_keeps:
  "getMemory r a l c = (b, ask, c') \<Longrightarrow> memCache c' = memCache c \<and> mappedCache c' = mappedCache c"
  "getMemoryMapped r a l c = (v, ask, c') \<Longrightarrow> memCache c' = memCache c \<and> mappedCache c' = mappedCache c"
  by (auto simp: getMemory_def getMemoryMapped_def Let_def split: if_splits option.splits)

lemma accurate_cong:
  "memCache (cs_cache s) = memCache (cs_cache t) \<Longrightarrow> mappedCache (cs_cache s) = mappedCache (cs_cache t) \<Longrightarrow>
    cs_read s = cs_read t \<Longrightarrow> cs_mapped s = cs_mapped t \<Longrightarrow> accurate s = accurate t"
  by (simp add: accurate_def)

lemma sorted_add:
  "sorted_wrt (<) (xs::nat list) \<Longrightarrow> (\<And>x. x \<in> set xs \<Longrightarrow> x < n) \<Longrightarrow> sorted_wrt (<) (xs @ [n])"
  by (simp add: sorted_wrt_append)

lemma machine_message_inv:
  assumes inv: "cache_inv s" and ms: "cs_messages s = m # rest"
  shows "cache_inv (onMachineMessage m (s\<lparr>cs_messages := rest\<rparr>))"
proof -
  let ?s = "s\<lparr>cs_messages := rest\<rparr>"
  let ?t = "onMachineMessage m ?s"
  have same: "cs_read ?t = cs_read s" "cs_mapped ?t = cs_mapped s" "cs_dirty ?t = cs_dirty s"
    "cs_messages ?t = rest" "cs_machineFrame ?t = cs_machineFrame s"
    by (cases m; simp)+
  have cov: "covered ?t rest" "tells s m \<or> cs_dirty s \<or> snaps rest \<noteq> []"
    using inv ms same covered_cong [of s ?t rest] by (auto simp: cache_inv_def)
  have order: "sorted_wrt (<) (cs_frame ?t # snaps rest) \<and> (\<forall>n \<in> set (cs_frame ?t # snaps rest). n \<le> cs_machineFrame s)"
    using inv ms by (cases m) (auto simp: cache_inv_def)
  have "accurate ?t \<or> cs_dirty s \<or> snaps rest \<noteq> []"
  proof (cases m)
    case (MSnapshot n)
    then have "cs_frame s < n" using inv ms by (simp add: cache_inv_def)
    then show ?thesis using MSnapshot by (simp add: accurate_def invalidate_def)
  qed (use inv ms cov(2) in \<open>auto simp: cache_inv_def accurate_def onBytes_def onMapped_def onBytesFailed_def
        onMappedFailed_def update_conv' split: if_splits\<close>)
  then show ?thesis using cov(1) order same by (simp add: cache_inv_def)
qed

lemma step_inv:
  assumes "cache_step s t" "cache_inv s"
  shows "cache_inv t"
  using assms
proof (induction rule: cache_step.induct)
  case (read a l s shown ask c)
  let ?t = "s\<lparr>cs_cache := c, cs_requests := cs_requests s @ (if ask then [AskBytes (memCacheKey a l)] else [])\<rparr>"
  have "accurate ?t = accurate s" using reading_keeps(1) [OF read(1)] by (intro accurate_cong) simp_all
  moreover have "covered ?t = covered s" by (intro ext covered_cong) simp_all
  ultimately show ?case using read(2) by (simp add: cache_inv_def)
next
  case (readMapped a l s known ask c)
  let ?t = "s\<lparr>cs_cache := c, cs_requests := cs_requests s @ (if ask then [AskMapped (memCacheKey a l)] else [])\<rparr>"
  have "accurate ?t = accurate s" using reading_keeps(2) [OF readMapped(1)] by (intro accurate_cong) simp_all
  moreover have "covered ?t = covered s" by (intro ext covered_cong) simp_all
  ultimately show ?case using readMapped(2) by (simp add: cache_inv_def)
next
  case (answerBytes s k rest m)
  let ?t = "s\<lparr>cs_requests := rest, cs_messages := cs_messages s @ [m]\<rparr>"
  have "covered ?t (cs_messages s @ [m])"
    using answerBytes covered_cong [of s ?t "cs_messages s"] by (intro covered_add) (auto simp: cache_inv_def)
  moreover have "snaps [m] = []" using answerBytes(2) by auto
  moreover have "accurate ?t = accurate s" by (intro accurate_cong) simp_all
  ultimately show ?case using answerBytes(3) by (simp add: cache_inv_def)
next
  case (answerMapped s k rest m)
  let ?t = "s\<lparr>cs_requests := rest, cs_messages := cs_messages s @ [m]\<rparr>"
  have "covered ?t (cs_messages s @ [m])"
    using answerMapped covered_cong [of s ?t "cs_messages s"] by (intro covered_add) (auto simp: cache_inv_def)
  moreover have "snaps [m] = []" using answerMapped(2) by auto
  moreover have "accurate ?t = accurate s" by (intro accurate_cong) simp_all
  ultimately show ?case using answerMapped(3) by (simp add: cache_inv_def)
next
  case (run s rd mp)
  then show ?case by (simp add: cache_inv_def covered_dirty)
next
  case (snapshot s)
  then show ?case using sorted_add [of "cs_frame s # snaps (cs_messages s)" "Suc (cs_machineFrame s)"]
    by (auto simp: cache_inv_def covered_snapshot le_Suc_eq less_Suc_eq_le)
next
  case (deliver s m rest)
  then show ?case by (simp add: machine_message_inv)
qed

lemma reachable_inv:
  assumes "cache_step\<^sup>*\<^sup>* (initial_system rd mp) s"
  shows "cache_inv s"
  using assms
proof (induction rule: rtranclp_induct)
  case base
  then show ?case by (simp add: cache_inv_def accurate_def initial_system_def emptyMemoryCache_def)
next
  case (step y z)
  then show ?case by (blast intro: step_inv)
qed

text \<open>C11: the panels never keep showing bytes of a machine that has moved on.  In every
  interleaving of reads, answers, changes of the memory and snapshots: once the
  machine has sent a snapshot of its last change and no snapshot is on its way, every
  cached range holds what the machine's memory holds, and every cached verdict is the
  machine's.\<close>

theorem cache_is_never_stale:
  assumes "cache_step\<^sup>*\<^sup>* (initial_system rd mp) s"
    and "\<not> cs_dirty s" "\<forall>n. MSnapshot n \<notin> set (cs_messages s)"
  shows "(\<forall>k b. map_of (memCache (cs_cache s)) k = Some b \<longrightarrow> b = cs_read s k) \<and>
    (\<forall>k v. map_of (mappedCache (cs_cache s)) k = Some v \<longrightarrow> v = cs_mapped s k)"
proof -
  have "snaps ms = []" if "\<forall>n. MSnapshot n \<notin> set ms" for ms
    using that by (induction ms rule: snaps.induct) auto
  then show ?thesis using reachable_inv [OF assms(1)] assms(2, 3) by (auto simp: cache_inv_def accurate_def)
qed

definition demo_system :: cache_system where
  "demo_system = onMachineMessage (MBytes (0, 2) [7, 7])
     ((initial_system (\<lambda>_. [7, 7]) (\<lambda>_. True))\<lparr>cs_cache := snd (snd (getMemory True 0 2 emptyMemoryCache))\<rparr>)"

lemma demo_system_reachable: "cache_step\<^sup>*\<^sup>* (initial_system (\<lambda>_. [7, 7]) (\<lambda>_. True)) demo_system"
proof -
  let ?i = "initial_system (\<lambda>_. [7, 7]) (\<lambda>_. True)"
  let ?c = "snd (snd (getMemory True 0 2 emptyMemoryCache))"
  have r: "getMemory True 0 2 (cs_cache ?i) = (replicate 2 0, True, ?c)"
    by (simp add: initial_system_def getMemory_def emptyMemoryCache_def)
  let ?a = "?i\<lparr>cs_cache := ?c, cs_requests := [AskBytes (0, 2)]\<rparr>"
  have "cache_step ?i ?a"
    using cache_step.read [OF r] by (simp add: initial_system_def memCacheKey_def)
  moreover have "cache_step ?a (?a\<lparr>cs_requests := [], cs_messages := cs_messages ?a @ [MBytes (0, 2) [7, 7]]\<rparr>)"
    by (rule cache_step.answerBytes [of _ "(0, 2)"]) (simp_all add: initial_system_def)
  moreover have "cache_step (?a\<lparr>cs_requests := [], cs_messages := cs_messages ?a @ [MBytes (0, 2) [7, 7]]\<rparr>) demo_system"
    using cache_step.deliver [of "?a\<lparr>cs_requests := [], cs_messages := cs_messages ?a @ [MBytes (0, 2) [7, 7]]\<rparr>"]
    by (simp add: demo_system_def initial_system_def)
  ultimately show ?thesis by (meson converse_rtranclp_into_rtranclp r_into_rtranclp)
qed

theorem cache_is_never_stale_witness:
  "map_of (memCache (cs_cache demo_system)) (0, 2) = Some [7, 7] \<and> cs_read demo_system (0, 2) = [7, 7]"
proof -
  have "\<not> cs_dirty demo_system" "\<forall>n. MSnapshot n \<notin> set (cs_messages demo_system)"
    "map_of (memCache (cs_cache demo_system)) (0, 2) = Some [7, 7]"
    by (simp_all add: demo_system_def initial_system_def onBytes_def update_conv')
  then show ?thesis using cache_is_never_stale [OF demo_system_reachable] by fastforce
qed

end
