(* ===== verification/Handoff.thy ===== *)
theory Handoff
  imports Utf8 ShareLinks SavedWork
begin

text \<open>
  How a program reaches the playground (\<open>lib/playground/playground-handoff.ts\<close>), the query
  string of its links (\<open>lib/hooks/use-deep-link.ts\<close>) and the launch mode that decides its
  arguments (\<open>lib/playground/use-launch-mode.ts\<close>): which program wins at
  boot, the pass after mount that delivers what the boot could not decode, and the
  fetch of an example with its inputs.  A query value is a list of UTF-16 units, as
  percent-encoding can name any; \<open>URLSearchParams\<close> is written out on the bytes.  The
  decoder of a \<open>?bundle=\<close> value is an argument, as in the source, and \<open>fetch\<close> is a
  parameter.  A lookup in a table of the source is by own keys and, where the source
  reads it without a test, by the names every object inherits.

  The theorems: booting without the decoder and delivering afterwards gives the
  program booting with it would; nothing is delivered twice; a link's query reads
  back; a fetched example is within the caps of an upload; the args box of an example
  with two faces holds what its mode puts there or what the student typed.
\<close>

subsection \<open>Query strings\<close>

definition hex_digit_value :: "nat \<Rightarrow> nat option" where
  "hex_digit_value b =
     (if 48 \<le> b \<and> b \<le> 57 then Some (b - 48) else if 65 \<le> b \<and> b \<le> 70 then Some (b - 55)
      else if 97 \<le> b \<and> b \<le> 102 then Some (b - 87) else None)"

fun percent_decode :: "nat list \<Rightarrow> nat list" where
  "percent_decode (b # h # l # bs) =
     (if b = 37 then
        (case (hex_digit_value h, hex_digit_value l) of
           (Some x, Some y) \<Rightarrow> (16 * x + y) # percent_decode bs
         | _ \<Rightarrow> b # percent_decode (h # l # bs))
      else b # percent_decode (h # l # bs))"
| "percent_decode (b # bs) = b # percent_decode bs"
| "percent_decode [] = []"

text \<open>UTF-8 decoding that keeps a byte order mark.\<close>

definition decode_value :: "nat list \<Rightarrow> units" where
  "decode_value bs =
     concat (map units_of_scalar (decode_from idle (percent_decode (map (\<lambda>b. if b = 43 then 32 else b) bs))))"

fun split_bytes :: "nat \<Rightarrow> nat list \<Rightarrow> nat list list" where
  "split_bytes sep [] = [[]]"
| "split_bytes sep (b # bs) =
     (if b = sep then [] # split_bytes sep bs
      else case split_bytes sep bs of [] \<Rightarrow> [[b]] | w # ws \<Rightarrow> (b # w) # ws)"

definition search_pair :: "nat list \<Rightarrow> units \<times> units" where
  "search_pair bs =
     (decode_value (takeWhile (\<lambda>b. b \<noteq> 61) bs), decode_value (drop 1 (dropWhile (\<lambda>b. b \<noteq> 61) bs)))"

definition URLSearchParams :: "jstring \<Rightarrow> (units \<times> units) list" where
  "URLSearchParams s = map search_pair (filter (\<lambda>p. p \<noteq> []) (split_bytes 38 (utf8_encode s)))"

definition params_get :: "jstring \<Rightarrow> (units \<times> units) list \<Rightarrow> units option" where
  "params_get name ps = map_of ps (map code name)"

definition query_of :: "jstring \<Rightarrow> (units \<times> units) list" where
  "query_of search = URLSearchParams (if starts_with ''?'' search then drop 1 search else search)"

subsection \<open>use-deep-link.ts\<close>

datatype LaunchMode = Terminal | ConsoleMode

definition decodeLaunch :: "jstring option \<Rightarrow> LaunchMode" where
  "decodeLaunch v = (if v = Some ''terminal'' \<or> v = Some ''1'' then Terminal else ConsoleMode)"

definition THEME_IDS :: "jstring list" where
  "THEME_IDS = [''dark'', ''light'', ''high-contrast'', ''midnight'', ''ember'', ''forest'', ''dusk'', ''paper'',
     ''glacier'', ''rose'']"

definition isThemeId :: "jstring \<Rightarrow> bool" where
  "isThemeId v \<longleftrightarrow> v \<in> set THEME_IDS"

text \<open>What a \<open>?bundle=\<close> holds of a program, and what its decoder answers.\<close>

record BundleProgram =
  bp_source :: jstring
  bp_files :: "SourceFile list option"
  bp_args :: "jstring option"
  bp_stdin :: "jstring option"

datatype LinkError = LinkCorrupt | LinkTooLarge

datatype BundleReadResult = BundleNone | BundleOk BundleProgram | BundleBad LinkError

type_synonym BundleDecoder = "units option \<Rightarrow> BundleReadResult"

record DeepLink =
  dl_example :: "jstring option"
  dl_theme :: "jstring option"
  dl_run :: "LaunchMode option"
  dl_embed :: bool
  dl_bundle :: "BundleProgram option"
  dl_bundleError :: "LinkError option"

definition is_stem_char :: "char \<Rightarrow> bool" where
  "is_stem_char c \<longleftrightarrow> is_word_char c \<or> c = CHR ''.'' \<or> c = CHR ''-''"

definition stem_pattern :: "jstring \<Rightarrow> bool" where
  "stem_pattern s \<longleftrightarrow> s \<noteq> [] \<and> list_all is_stem_char s"

text \<open>A value as a string of the rest of the library, when all its units are below 256.\<close>

definition narrow :: "units \<Rightarrow> jstring option" where
  "narrow u = (if list_all (\<lambda>x. x < 256) u then Some (map char_of u) else None)"

definition narrow_get :: "jstring \<Rightarrow> (units \<times> units) list \<Rightarrow> jstring option" where
  "narrow_get name ps = Option.bind (params_get name ps) narrow"

definition keep_if :: "('a \<Rightarrow> bool) \<Rightarrow> 'a option \<Rightarrow> 'a option" where
  "keep_if P v = (case v of None \<Rightarrow> None | Some x \<Rightarrow> if P x then Some x else None)"

definition parseDeepLink :: "jstring \<Rightarrow> BundleDecoder option \<Rightarrow> DeepLink" where
  "parseDeepLink search decoder =
     (let ps = query_of search;
          bundle = (case decoder of None \<Rightarrow> BundleNone | Some d \<Rightarrow> d (params_get ''bundle'' ps))
      in \<lparr>dl_example = keep_if stem_pattern (narrow_get ''example'' ps),
          dl_theme = keep_if isThemeId (narrow_get ''theme'' ps),
          dl_run = (if narrow_get ''run'' ps = Some ''terminal'' then Some Terminal
                    else if narrow_get ''run'' ps = Some ''console'' then Some ConsoleMode else None),
          dl_embed = (narrow_get ''embed'' ps = Some ''1''),
          dl_bundle = (case bundle of BundleOk b \<Rightarrow> Some b | _ \<Rightarrow> None),
          dl_bundleError = (case bundle of BundleBad e \<Rightarrow> Some e | _ \<Rightarrow> None)\<rparr>)"

definition LEGACY_EXAMPLE_ALIASES :: "(jstring \<times> jstring) list" where
  "LEGACY_EXAMPLE_ALIASES =
     [(''week03_exercise'', ''basics''), (''week08_scores'', ''array-scores''),
      (''week09_student_record'', ''student-record''), (''week10_find_max'', ''find-max''),
      (''week11_argv'', ''command-line-args''), (''week11_static_counter'', ''static-counter''),
      (''week12_fp_circle'', ''circle-area''), (''week12_is_prime'', ''is-prime''), (''week13_hello'', ''hello''),
      (''week13_echo'', ''echo''), (''week13_write_file'', ''write-file''), (''week13_read_file'', ''read-file''),
      (''week13_copy_file'', ''copy-file'')]"

text \<open>The names a plain object inherits; reading one gives a function or an object.\<close>

definition inherited_names :: "jstring list" where
  "inherited_names =
     [''constructor'', ''__proto__'', ''hasOwnProperty'', ''isPrototypeOf'', ''propertyIsEnumerable'',
      ''toLocaleString'', ''toString'', ''valueOf'', ''__defineGetter__'', ''__defineSetter__'',
      ''__lookupGetter__'', ''__lookupSetter__'']"

datatype StemValue = Stem jstring | Inherited jstring

definition resolveExampleStem :: "jstring \<Rightarrow> StemValue" where
  "resolveExampleStem stem =
     (case map_of LEGACY_EXAMPLE_ALIASES stem of Some s \<Rightarrow> Stem s
      | None \<Rightarrow> if stem \<in> set inherited_names then Inherited stem else Stem stem)"

definition launch_text :: "LaunchMode \<Rightarrow> jstring" where
  "launch_text m = (case m of Terminal \<Rightarrow> ''terminal'' | ConsoleMode \<Rightarrow> ''console'')"

definition serialize_byte :: "nat \<Rightarrow> jstring" where
  "serialize_byte b =
     (if b = 32 then ''+''
      else if b < 128 \<and> (is_word_char (char_of b) \<or> b \<in> {42, 45, 46}) then [char_of b]
      else CHR ''%'' # map (\<lambda>c. if is_lower c then char_of (code c - 32) else c)
             (padStart 2 (CHR ''0'') (nat_to_string 16 b)))"

definition serialize_value :: "jstring \<Rightarrow> jstring" where
  "serialize_value v = concat (map serialize_byte (utf8_encode v))"

definition params_set :: "jstring \<Rightarrow> jstring option \<Rightarrow> jstring list" where
  "params_set name v = (case v of None \<Rightarrow> [] | Some x \<Rightarrow>
       if x = [] then [] else [serialize_value name @ ''='' @ serialize_value x])"

definition buildDeepLinkQuery :: "DeepLink \<Rightarrow> jstring" where
  "buildDeepLinkQuery link =
     (let s = js_join ''&'' (params_set ''example'' (dl_example link) @
                params_set ''run'' (map_option launch_text (dl_run link)) @
                params_set ''theme'' (dl_theme link) @
                params_set ''embed'' (if dl_embed link then Some ''1'' else None))
      in if s = [] then [] else ''?'' @ s)"

subsection \<open>Boot and handoff\<close>

record HandoffPayload =
  hp_source :: jstring
  hp_files :: "SourceFile list option"
  hp_launch :: "LaunchMode option"
  hp_stem :: "jstring option"
  hp_label :: "jstring option"
  hp_args :: "jstring option"
  hp_stdin :: "jstring option"
  hp_vfs :: "(jstring \<times> jstring) list option"
  hp_cursor :: "(rat \<times> rat) option"
  hp_checks :: "ProgramCheck list option"
  hp_fromShare :: bool

definition payload_of :: "jstring \<Rightarrow> jstring \<Rightarrow> HandoffPayload" where
  "payload_of source label =
     \<lparr>hp_source = source, hp_files = None, hp_launch = None, hp_stem = None, hp_label = Some label, hp_args = None,
      hp_stdin = None, hp_vfs = None, hp_cursor = None, hp_checks = None, hp_fromShare = False\<rparr>"

record PlaygroundBoot =
  pb_source :: jstring
  pb_files :: "SourceFile list option"
  pb_args :: jstring
  pb_stdin :: "jstring option"
  pb_cursor :: "(rat \<times> rat) option"
  pb_checks :: "ProgramCheck list option"
  pb_fromShare :: bool
  pb_fromBundle :: bool
  pb_shareError :: "LinkError option"
  pb_bundleError :: "LinkError option"

text \<open>The decoder is loaded exactly for a query that names a bundle.\<close>

definition loadBundleDecoder :: "BundleDecoder \<Rightarrow> jstring \<Rightarrow> BundleDecoder option" where
  "loadBundleDecoder decodeBundle search =
     (if params_get ''bundle'' (query_of search) = None then None else Some decodeBundle)"

definition or_empty :: "jstring option \<Rightarrow> jstring" where
  "or_empty v = (case v of None \<Rightarrow> [] | Some s \<Rightarrow> s)"

definition share_error :: "ShareReadResult \<Rightarrow> LinkError option" where
  "share_error r = (case r of ShareCorrupt \<Rightarrow> Some LinkCorrupt | ShareTooLarge \<Rightarrow> Some LinkTooLarge | _ \<Rightarrow> None)"

text \<open>The first argument reads a share hash: \<open>readShareHash\<close> with its decompressor.\<close>

definition resolveBoot ::
    "(jstring \<Rightarrow> ShareReadResult) \<Rightarrow> jstring \<Rightarrow> jstring \<Rightarrow> jstring option \<Rightarrow> jstring \<Rightarrow> BundleDecoder option \<Rightarrow> PlaygroundBoot" where
  "resolveBoot readHash search hash saved fallback decoder =
     (let dl = parseDeepLink search decoder in
      case dl_bundle dl of
        Some b \<Rightarrow>
          \<lparr>pb_source = bp_source b, pb_files = bp_files b, pb_args = or_empty (bp_args b), pb_stdin = bp_stdin b,
           pb_cursor = None, pb_checks = None, pb_fromShare = False, pb_fromBundle = True, pb_shareError = None,
           pb_bundleError = None\<rparr>
      | None \<Rightarrow>
          (case readHash hash of
             ShareOk st \<Rightarrow>
               \<lparr>pb_source = sh_source st, pb_files = sh_files st, pb_args = or_empty (sh_args st), pb_stdin = sh_stdin st,
                pb_cursor = sh_cursor st, pb_checks = sh_checks st, pb_fromShare = True, pb_fromBundle = False,
                pb_shareError = None, pb_bundleError = None\<rparr>
           | shared \<Rightarrow>
               \<lparr>pb_source = (case saved of Some s \<Rightarrow> if s \<noteq> [] then s else fallback | None \<Rightarrow> fallback), pb_files = None,
                pb_args = [], pb_stdin = None, pb_cursor = None, pb_checks = None, pb_fromShare = False,
                pb_fromBundle = False, pb_shareError = share_error shared, pb_bundleError = dl_bundleError dl\<rparr>))"

datatype HandoffDecision =
    BundleHandoff HandoffPayload
  | ShareHandoff HandoffPayload
  | ExampleHandoff StemValue
  | ShareFailed LinkError
  | BundleFailed LinkError

definition resolveHandoff ::
    "(jstring \<Rightarrow> ShareReadResult) \<Rightarrow> PlaygroundBoot \<Rightarrow> jstring \<Rightarrow> jstring \<Rightarrow> BundleDecoder option \<Rightarrow> HandoffDecision option" where
  "resolveHandoff readHash boot search hash decoder =
     (let dl = parseDeepLink search decoder in
      case dl_bundle dl of
        Some b \<Rightarrow>
          if pb_fromBundle boot then None
          else Some (BundleHandoff ((payload_of (bp_source b) ''diagnostic bundle'')
                 \<lparr>hp_files := bp_files b, hp_args := bp_args b, hp_stdin := bp_stdin b\<rparr>))
      | None \<Rightarrow>
          (case readHash hash of
             ShareOk st \<Rightarrow>
               if pb_fromShare boot then None
               else Some (ShareHandoff ((payload_of (sh_source st) ''shared program'')
                      \<lparr>hp_files := sh_files st, hp_args := sh_args st, hp_stdin := sh_stdin st, hp_cursor := sh_cursor st,
                       hp_checks := sh_checks st, hp_fromShare := True\<rparr>))
           | shared \<Rightarrow>
               (case dl_bundleError dl of
                  Some e \<Rightarrow> if pb_bundleError boot \<noteq> None then None else Some (BundleFailed e)
                | None \<Rightarrow>
                    (case share_error shared of
                       Some e \<Rightarrow> if pb_shareError boot \<noteq> None then None else Some (ShareFailed e)
                     | None \<Rightarrow> map_option (\<lambda>ex. ExampleHandoff (resolveExampleStem ex)) (dl_example dl)))))"

subsection \<open>Examples\<close>

definition EXAMPLE_TERMINAL :: "jstring list" where
  "EXAMPLE_TERMINAL = [''dsav'', ''two-sum'']"

definition EXAMPLE_MODE_ARGS :: "jstring list" where
  "EXAMPLE_MODE_ARGS = [''calc'', ''temp-convert'', ''two-sum'']"

definition modeArgsFor :: "jstring option \<Rightarrow> LaunchMode \<Rightarrow> jstring option" where
  "modeArgsFor stem mode =
     (case stem of None \<Rightarrow> None
      | Some s \<Rightarrow> if s \<notin> set EXAMPLE_MODE_ARGS then None
          else Some (case mode of ConsoleMode \<Rightarrow> ''console'' | Terminal \<Rightarrow> []))"

definition legacyModeArgsFor :: "jstring option \<Rightarrow> jstring option" where
  "legacyModeArgsFor stem =
     (case stem of None \<Rightarrow> None
      | Some s \<Rightarrow> if s \<notin> set EXAMPLE_MODE_ARGS then None else Some (''./'' @ s @ '' console''))"

definition EXAMPLE_FILES :: "(jstring \<times> jstring list) list" where
  "EXAMPLE_FILES =
     [(''dsav'', [''theme.s'', ''ui.s'', ''ansi.s'', ''display.s'', ''utils.s'', ''array.s'', ''stack.s'', ''queue.s'',
        ''list.s'', ''bst.s'', ''rbt.s'', ''heap.s'', ''hash.s'', ''graph.s'', ''sort.s'', ''search.s'', ''recursion.s'']),
      (''deadzone'', [''constants.s'', ''terminal.s'', ''input.s'', ''player.s'', ''enemies.s'', ''projectiles.s'',
        ''upgrades.s'', ''file-io.s'', ''effects.s'', ''boss.s'', ''abilities.s''])]"

text \<open>The inputs of an example: its arguments, its stdin, its files.\<close>

definition EXAMPLE_INPUTS :: "(jstring \<times> bool \<times> bool \<times> bool) list" where
  "EXAMPLE_INPUTS =
     [(''array-scores'', False, True, False), (''circle-area'', False, True, False),
      (''command-line-args'', True, False, False), (''copy-file'', False, False, True), (''echo'', False, True, False),
      (''locals'', False, True, False), (''read-file'', False, False, True), (''student-record'', False, True, False),
      (''temp-convert'', True, False, False), (''triangle-area'', False, True, False),
      (''vector-strlen'', False, True, False), (''vector-upper'', False, True, False)]"

definition MAX_VFS_FIXTURE_FILES :: nat where "MAX_VFS_FIXTURE_FILES = 16"
definition MAX_VFS_FIXTURE_NAME_CHARS :: nat where "MAX_VFS_FIXTURE_NAME_CHARS = 128"

text \<open>An assignment to the key \<open>__proto__\<close> of an object makes no entry.\<close>

fun vfs_entries :: "(jstring \<times> json) list \<Rightarrow> (jstring \<times> jstring) list checked" where
  "vfs_entries [] = Inr []"
| "vfs_entries ((name, v) # rest) =
     (if name = [] \<or> length name > MAX_VFS_FIXTURE_NAME_CHARS then Inl ''vfs fixture file name is empty or too long''
      else case v of
        JStr s \<Rightarrow>
          if length s > MAX_VFS_BYTES then Inl ''vfs fixture file too large''
          else (case vfs_entries rest of Inl e \<Rightarrow> Inl e
                | Inr out \<Rightarrow> Inr (if name = ''__proto__'' then out else (name, s) # out))
      | _ \<Rightarrow> Inl ''vfs fixture contents must be strings'')"

definition parseVfsFixture :: "(jstring \<Rightarrow> rat) \<Rightarrow> jstring \<Rightarrow> (jstring \<times> jstring) list checked" where
  "parseVfsFixture rn raw =
     (case json_parse rn raw of
        None \<Rightarrow> Inl ''vfs fixture is not valid JSON''
      | Some (JObj entries) \<Rightarrow>
          if length entries > MAX_VFS_FIXTURE_FILES
          then Inl (''vfs fixture has too many files (max '' @ show_int (int MAX_VFS_FIXTURE_FILES) @ '')'')
          else vfs_entries entries
      | Some _ \<Rightarrow> Inl ''vfs fixture must be an object of name to content'')"

record Response =
  rs_ok :: bool
  rs_status :: int
  rs_statusText :: jstring
  rs_text :: jstring

definition EXAMPLES_PREFIX :: jstring where "EXAMPLES_PREFIX = ''/examples/cpsc355/''"
definition FIXTURES_PREFIX :: jstring where "FIXTURES_PREFIX = EXAMPLES_PREFIX @ ''fixtures/''"

definition fetchFixture :: "(jstring \<Rightarrow> Response) \<Rightarrow> jstring \<Rightarrow> jstring \<Rightarrow> jstring checked" where
  "fetchFixture fetch stem ext =
     (let res = fetch (FIXTURES_PREFIX @ stem @ ''.'' @ ext)
      in if rs_ok res then Inr (rs_text res)
         else Inl (''failed to load '' @ stem @ ''.'' @ ext @ '': '' @ show_int (rs_status res)))"

text \<open>The names, checked before any of them is fetched.\<close>

fun check_names :: "jstring list \<Rightarrow> SourceFile list \<Rightarrow> jstring option" where
  "check_names [] seen = None"
| "check_names (name # rest) seen =
     (case validateFileName name seen None of
        Some e \<Rightarrow> Some (''example file: '' @ e)
      | None \<Rightarrow> check_names rest (seen @ [\<lparr>sf_name = name, sf_body = []\<rparr>]))"

text \<open>The files; of several failures the model reports the first in order.\<close>

fun fetch_files :: "(jstring \<Rightarrow> Response) \<Rightarrow> jstring \<Rightarrow> jstring list \<Rightarrow> SourceFile list checked" where
  "fetch_files fetch stem [] = Inr []"
| "fetch_files fetch stem (name # rest) =
     (let res = fetch (EXAMPLES_PREFIX @ stem @ ''/'' @ name) in
      if \<not> rs_ok res
      then Inl (''failed to load example file '' @ name @ '': '' @ show_int (rs_status res) @ '' '' @ rs_statusText res)
      else case validateSource (rs_text res) of
        Some e \<Rightarrow> Inl (name @ '': '' @ e)
      | None \<Rightarrow>
          (case fetch_files fetch stem rest of Inl e \<Rightarrow> Inl e
           | Inr files \<Rightarrow> Inr (\<lparr>sf_name = name, sf_body = rs_text res\<rparr> # files)))"

definition example_files :: "(jstring \<Rightarrow> Response) \<Rightarrow> jstring \<Rightarrow> HandoffPayload \<Rightarrow> HandoffPayload checked" where
  "example_files fetch stem payload =
     (case map_of EXAMPLE_FILES stem of None \<Rightarrow> Inr payload
      | Some names \<Rightarrow>
          (case check_names names [] of Some e \<Rightarrow> Inl e
           | None \<Rightarrow>
               (case fetch_files fetch stem names of Inl e \<Rightarrow> Inl e
                | Inr files \<Rightarrow> Inr (payload\<lparr>hp_files := Some files\<rparr>))))"

definition example_args :: "(jstring \<Rightarrow> Response) \<Rightarrow> jstring \<Rightarrow> HandoffPayload \<Rightarrow> HandoffPayload checked" where
  "example_args fetch stem payload =
     (case fetchFixture fetch stem ''args'' of Inl e \<Rightarrow> Inl e
      | Inr t \<Rightarrow>
          (case validateArgs (js_trim t) of Some e \<Rightarrow> Inl e | None \<Rightarrow> Inr (payload\<lparr>hp_args := Some (js_trim t)\<rparr>)))"

definition example_stdin :: "(jstring \<Rightarrow> Response) \<Rightarrow> jstring \<Rightarrow> HandoffPayload \<Rightarrow> HandoffPayload checked" where
  "example_stdin fetch stem payload =
     (case fetchFixture fetch stem ''stdin'' of Inl e \<Rightarrow> Inl e
      | Inr t \<Rightarrow> (case validateStdin t of Some e \<Rightarrow> Inl e | None \<Rightarrow> Inr (payload\<lparr>hp_stdin := Some t\<rparr>)))"

definition example_vfs :: "(jstring \<Rightarrow> rat) \<Rightarrow> (jstring \<Rightarrow> Response) \<Rightarrow> jstring \<Rightarrow> HandoffPayload \<Rightarrow> HandoffPayload checked" where
  "example_vfs rn fetch stem payload =
     (case fetchFixture fetch stem ''vfs.json'' of Inl e \<Rightarrow> Inl e
      | Inr t \<Rightarrow> (case parseVfsFixture rn t of Inl e \<Rightarrow> Inl e | Inr vfs \<Rightarrow> Inr (payload\<lparr>hp_vfs := Some vfs\<rparr>)))"

definition then_if :: "bool \<Rightarrow> ('p \<Rightarrow> 'p checked) \<Rightarrow> 'p checked \<Rightarrow> 'p checked" where
  "then_if b f r = (case r of Inl e \<Rightarrow> Inl e | Inr p \<Rightarrow> if b then f p else Inr p)"

text \<open>An inherited member, put where a stem is expected, prints as text the pattern
  refuses; a stem that is itself such a name finds an inherited member in the table
  of files, which the loop over its names cannot iterate.\<close>

definition fetchExample :: "(jstring \<Rightarrow> rat) \<Rightarrow> (jstring \<Rightarrow> Response) \<Rightarrow> StemValue \<Rightarrow> HandoffPayload checked" where
  "fetchExample rn fetch value =
     (case value of
        Inherited _ \<Rightarrow> Inl ''invalid example name''
      | Stem stem \<Rightarrow>
          if \<not> stem_pattern stem then Inl ''invalid example name''
          else let res = fetch (EXAMPLES_PREFIX @ stem @ ''.s'') in
            if \<not> rs_ok res
            then Inl (''failed to load example: '' @ show_int (rs_status res) @ '' '' @ rs_statusText res)
            else case validateSource (rs_text res) of Some e \<Rightarrow> Inl e
            | None \<Rightarrow>
                if stem \<in> set inherited_names then Inl ''extraNames is not iterable''
                else let payload = (payload_of (rs_text res) stem)\<lparr>hp_stem := Some stem,
                      hp_launch := (if stem \<in> set EXAMPLE_TERMINAL then Some Terminal else None)\<rparr>;
                    (args, stdin, vfs) = (case map_of EXAMPLE_INPUTS stem of None \<Rightarrow> (False, False, False) | Some i \<Rightarrow> i)
                in then_if vfs (example_vfs rn fetch stem)
                     (then_if stdin (example_stdin fetch stem)
                       (then_if args (example_args fetch stem) (example_files fetch stem payload))))"

subsection \<open>Each link is delivered once\<close>

text \<open>The program a boot or a payload brings, whichever of the two it is.\<close>

record Program =
  pr_source :: jstring
  pr_files :: "SourceFile list option"
  pr_args :: jstring
  pr_stdin :: "jstring option"
  pr_cursor :: "(rat \<times> rat) option"
  pr_checks :: "ProgramCheck list option"

definition booted :: "PlaygroundBoot \<Rightarrow> Program" where
  "booted b =
     \<lparr>pr_source = pb_source b, pr_files = pb_files b, pr_args = pb_args b, pr_stdin = pb_stdin b,
      pr_cursor = pb_cursor b, pr_checks = pb_checks b\<rparr>"

definition loaded_from :: "HandoffPayload \<Rightarrow> Program" where
  "loaded_from p =
     \<lparr>pr_source = hp_source p, pr_files = hp_files p, pr_args = or_empty (hp_args p), pr_stdin = hp_stdin p,
      pr_cursor = hp_cursor p, pr_checks = hp_checks p\<rparr>"

definition after_handoff :: "PlaygroundBoot \<Rightarrow> HandoffDecision option \<Rightarrow> Program" where
  "after_handoff boot d =
     (case d of Some (BundleHandoff p) \<Rightarrow> loaded_from p | Some (ShareHandoff p) \<Rightarrow> loaded_from p | _ \<Rightarrow> booted boot)"

text \<open>A decoder only ever touches the bundle of a deep link.\<close>

lemma parse_without_decoder:
  "dl_bundle (parseDeepLink search None) = None" "dl_bundleError (parseDeepLink search None) = None"
  "dl_example (parseDeepLink search (Some d)) = dl_example (parseDeepLink search None)"
  by (simp_all add: parseDeepLink_def Let_def)

text \<open>A link has a program or an error, never both.\<close>

lemma bundle_or_error: "dl_bundle (parseDeepLink search d) = Some b \<Longrightarrow> dl_bundleError (parseDeepLink search d) = None"
  by (cases d) (auto simp: parseDeepLink_def Let_def split: BundleReadResult.splits)

text \<open>C26: a link opens the same way whether its bundle could be decoded at once or only
  after the page has mounted: booting without the decoder and then applying what the
  handoff delivers brings exactly the program that booting with the decoder brings.\<close>

theorem late_decoder_changes_nothing:
  "after_handoff (resolveBoot readHash search hash saved fallback None)
     (resolveHandoff readHash (resolveBoot readHash search hash saved fallback None) search hash (Some d)) =
   booted (resolveBoot readHash search hash saved fallback (Some d))"
proof (cases "dl_bundle (parseDeepLink search (Some d))")
  case (Some b)
  then show ?thesis
    by (cases "readHash hash")
      (simp_all add: resolveBoot_def resolveHandoff_def parse_without_decoder after_handoff_def booted_def
        loaded_from_def payload_of_def)
next
  case None
  then show ?thesis
    by (cases "readHash hash"; cases "dl_bundleError (parseDeepLink search (Some d))";
        cases "dl_example (parseDeepLink search None)")
      (simp_all add: resolveBoot_def resolveHandoff_def parse_without_decoder after_handoff_def booted_def share_error_def)
qed

text \<open>Nothing is delivered or reported twice: when the boot and the pass after mount
  see the same link with the same decoder, the second has at most an example to
  fetch.\<close>

theorem handoff_repeats_nothing:
  "resolveHandoff readHash (resolveBoot readHash search hash saved fallback d) search hash d = None \<or>
   (\<exists>ex. dl_example (parseDeepLink search d) = Some ex \<and>
     resolveHandoff readHash (resolveBoot readHash search hash saved fallback d) search hash d =
       Some (ExampleHandoff (resolveExampleStem ex)))"
  by (cases "dl_bundle (parseDeepLink search d)"; cases "readHash hash";
      cases "dl_bundleError (parseDeepLink search d)"; cases "dl_example (parseDeepLink search d)")
    (simp_all add: resolveBoot_def resolveHandoff_def share_error_def)

subsection \<open>A fetched example is within the caps\<close>

definition vfs_within_caps :: "(jstring \<times> jstring) list \<Rightarrow> bool" where
  "vfs_within_caps vs \<longleftrightarrow> length vs \<le> MAX_VFS_FIXTURE_FILES \<and>
     list_all (\<lambda>(name, s). name \<noteq> [] \<and> length name \<le> MAX_VFS_FIXTURE_NAME_CHARS \<and> length s \<le> MAX_VFS_BYTES) vs"

definition payload_within_caps :: "HandoffPayload \<Rightarrow> bool" where
  "payload_within_caps p \<longleftrightarrow>
     validateSource (hp_source p) = None \<and>
     (case hp_files p of None \<Rightarrow> True
      | Some fs \<Rightarrow> distinct (map sf_name fs) \<and> list_all (\<lambda>f. validateSource (sf_body f) = None) fs) \<and>
     (case hp_args p of None \<Rightarrow> True | Some a \<Rightarrow> validateArgs a = None) \<and>
     (case hp_stdin p of None \<Rightarrow> True | Some s \<Rightarrow> validateStdin s = None) \<and>
     (case hp_vfs p of None \<Rightarrow> True | Some vs \<Rightarrow> vfs_within_caps vs)"

lemma vfs_entries_capped:
  "vfs_entries es = Inr vs \<Longrightarrow>
   length vs \<le> length es \<and>
   list_all (\<lambda>(name, s). name \<noteq> [] \<and> length name \<le> MAX_VFS_FIXTURE_NAME_CHARS \<and> length s \<le> MAX_VFS_BYTES) vs"
proof (induction es arbitrary: vs rule: vfs_entries.induct)
  case (2 name v rest)
  then show ?case by (fastforce split: if_splits json.splits sum.splits)
qed simp

lemma parseVfsFixture_capped:
  assumes "parseVfsFixture rn raw = Inr vs"
  shows "length vs \<le> MAX_VFS_FIXTURE_FILES \<and>
    list_all (\<lambda>(name, s). name \<noteq> [] \<and> length name \<le> MAX_VFS_FIXTURE_NAME_CHARS \<and> length s \<le> MAX_VFS_BYTES) vs"
proof -
  obtain es where "json_parse rn raw = Some (JObj es)" "length es \<le> MAX_VFS_FIXTURE_FILES" "vfs_entries es = Inr vs"
    using assms by (auto simp: parseVfsFixture_def split: option.splits json.splits if_splits)
  then show ?thesis using vfs_entries_capped by fastforce
qed

lemma fetch_files_capped:
  "fetch_files fetch stem names = Inr fs \<Longrightarrow>
   map sf_name fs = names \<and> list_all (\<lambda>f. validateSource (sf_body f) = None) fs"
proof (induction names arbitrary: fs)
  case (Cons name rest)
  then show ?case by (auto simp: Let_def split: if_splits option.splits sum.splits)
qed simp

lemma then_if_Inr: "then_if b f r = Inr p' \<Longrightarrow> \<exists>p. r = Inr p \<and> (if b then f p = Inr p' else p' = p)"
  by (cases r) (simp_all add: then_if_def split: if_splits)

text \<open>The names of the table are distinct, and each stage of the fetch sets one field
  to a value within its cap.\<close>

lemma table_distinct: "list_all (\<lambda>e. distinct (snd e)) EXAMPLE_FILES"
  by code_simp

lemma example_files_sets:
  assumes "example_files fetch stem p = Inr p'"
  shows "p' = p \<or> (\<exists>fs. p' = p\<lparr>hp_files := Some fs\<rparr> \<and> distinct (map sf_name fs) \<and>
    list_all (\<lambda>f. validateSource (sf_body f) = None) fs)"
proof (cases "map_of EXAMPLE_FILES stem")
  case (Some names)
  then obtain fs where fs: "fetch_files fetch stem names = Inr fs" "p' = p\<lparr>hp_files := Some fs\<rparr>"
    using assms unfolding example_files_def
    by (cases "check_names names []"; cases "fetch_files fetch stem names") simp_all
  have "distinct names" using table_distinct map_of_SomeD [OF Some] by (auto simp: list_all_iff)
  then show ?thesis using fs fetch_files_capped by blast
qed (use assms in \<open>simp add: example_files_def\<close>)

lemma example_args_sets:
  "example_args fetch stem p = Inr p' \<Longrightarrow> \<exists>a. p' = p\<lparr>hp_args := Some a\<rparr> \<and> validateArgs a = None"
  unfolding example_args_def
  by (cases "fetchFixture fetch stem ''args''"; cases "validateArgs (js_trim (projr (fetchFixture fetch stem ''args'')))") auto

lemma example_stdin_sets:
  "example_stdin fetch stem p = Inr p' \<Longrightarrow> \<exists>s. p' = p\<lparr>hp_stdin := Some s\<rparr> \<and> validateStdin s = None"
  unfolding example_stdin_def
  by (cases "fetchFixture fetch stem ''stdin''"; cases "validateStdin (projr (fetchFixture fetch stem ''stdin''))") auto

lemma example_vfs_sets:
  "example_vfs rn fetch stem p = Inr p' \<Longrightarrow> \<exists>vs. p' = p\<lparr>hp_vfs := Some vs\<rparr> \<and> vfs_within_caps vs"
  unfolding example_vfs_def vfs_within_caps_def
  using parseVfsFixture_capped [of rn "projr (fetchFixture fetch stem ''vfs.json'')"]
  by (cases "fetchFixture fetch stem ''vfs.json''"; cases "parseVfsFixture rn (projr (fetchFixture fetch stem ''vfs.json''))") auto

lemma payload_within_caps_set:
  assumes "payload_within_caps p"
  shows "distinct (map sf_name fs) \<Longrightarrow> list_all (\<lambda>f. validateSource (sf_body f) = None) fs \<Longrightarrow>
      payload_within_caps (p\<lparr>hp_files := Some fs\<rparr>)"
    and "validateArgs a = None \<Longrightarrow> payload_within_caps (p\<lparr>hp_args := Some a\<rparr>)"
    and "validateStdin s = None \<Longrightarrow> payload_within_caps (p\<lparr>hp_stdin := Some s\<rparr>)"
    and "vfs_within_caps vs \<Longrightarrow> payload_within_caps (p\<lparr>hp_vfs := Some vs\<rparr>)"
  using assms by (simp_all add: payload_within_caps_def)

lemma stage_capped:
  assumes "then_if b f r = Inr p'" "\<And>p. r = Inr p \<Longrightarrow> payload_within_caps p"
    "\<And>p q. f p = Inr q \<Longrightarrow> payload_within_caps p \<Longrightarrow> payload_within_caps q"
  shows "payload_within_caps p'"
proof -
  obtain p where "r = Inr p" "if b then f p = Inr p' else p' = p" using then_if_Inr [OF assms(1)] by blast
  then show ?thesis using assms(2,3) by (cases b) simp_all
qed

lemma inputs_capped:
  assumes "then_if vfs (example_vfs rn fetch stem)
     (then_if stdin (example_stdin fetch stem)
       (then_if args (example_args fetch stem) (example_files fetch stem p))) = Inr p'"
    "payload_within_caps p"
  shows "payload_within_caps p'"
proof (rule stage_capped [OF assms(1)])
  show "payload_within_caps q" if "example_vfs rn fetch stem p = Inr q" "payload_within_caps p" for p q
    using example_vfs_sets [OF that(1)] payload_within_caps_set(4) [OF that(2)] by blast
  show "payload_within_caps q"
    if r: "then_if stdin (example_stdin fetch stem) (then_if args (example_args fetch stem) (example_files fetch stem p)) = Inr q" for q
  proof (rule stage_capped [OF r])
    show "payload_within_caps q" if "example_stdin fetch stem p = Inr q" "payload_within_caps p" for p q
      using example_stdin_sets [OF that(1)] payload_within_caps_set(3) [OF that(2)] by blast
    show "payload_within_caps q" if r: "then_if args (example_args fetch stem) (example_files fetch stem p) = Inr q" for q
    proof (rule stage_capped [OF r])
      show "payload_within_caps q" if "example_args fetch stem p = Inr q" "payload_within_caps p" for p q
        using example_args_sets [OF that(1)] payload_within_caps_set(2) [OF that(2)] by blast
      show "payload_within_caps q" if "example_files fetch stem p = Inr q" for q
        using example_files_sets [OF that] payload_within_caps_set(1) [OF assms(2)] assms(2) by blast
    qed
  qed
qed

definition fresh_payload :: "jstring \<Rightarrow> jstring \<Rightarrow> HandoffPayload" where
  "fresh_payload source stem = (payload_of source stem)\<lparr>hp_stem := Some stem,
     hp_launch := (if stem \<in> set EXAMPLE_TERMINAL then Some Terminal else None)\<rparr>"

definition inputs_of :: "jstring \<Rightarrow> bool \<times> bool \<times> bool" where
  "inputs_of stem = (case map_of EXAMPLE_INPUTS stem of None \<Rightarrow> (False, False, False) | Some i \<Rightarrow> i)"

lemma fetchExample_stages:
  assumes "stem_pattern stem" "rs_ok (fetch (EXAMPLES_PREFIX @ stem @ ''.s''))"
    "validateSource (rs_text (fetch (EXAMPLES_PREFIX @ stem @ ''.s''))) = None" "stem \<notin> set inherited_names"
  shows "fetchExample rn fetch (Stem stem) =
     then_if (snd (snd (inputs_of stem))) (example_vfs rn fetch stem)
       (then_if (fst (snd (inputs_of stem))) (example_stdin fetch stem)
         (then_if (fst (inputs_of stem)) (example_args fetch stem)
           (example_files fetch stem (fresh_payload (rs_text (fetch (EXAMPLES_PREFIX @ stem @ ''.s''))) stem))))"
  using assms unfolding fetchExample_def StemValue.case Let_def case_prod_beta inputs_of_def fresh_payload_def by simp

lemma fetchExample_guards:
  assumes "fetchExample rn fetch (Stem stem) = Inr p"
  shows "stem_pattern stem" "rs_ok (fetch (EXAMPLES_PREFIX @ stem @ ''.s''))"
    "validateSource (rs_text (fetch (EXAMPLES_PREFIX @ stem @ ''.s''))) = None" "stem \<notin> set inherited_names"
proof -
  show pat: "stem_pattern stem" by (rule ccontr) (use assms in \<open>simp add: fetchExample_def Let_def\<close>)
  show ok: "rs_ok (fetch (EXAMPLES_PREFIX @ stem @ ''.s''))" by (rule ccontr) (use assms pat in \<open>simp add: fetchExample_def Let_def\<close>)
  show valid: "validateSource (rs_text (fetch (EXAMPLES_PREFIX @ stem @ ''.s''))) = None"
    by (rule ccontr) (use assms pat ok in \<open>force simp: fetchExample_def Let_def\<close>)
  show "stem \<notin> set inherited_names" by (rule notI) (use assms pat ok valid in \<open>simp add: fetchExample_def Let_def\<close>)
qed

text \<open>Whatever a server answers, a fetched example is within the caps of an upload:
  its source and every helper file pass the source check, the helper names are
  distinct, its arguments and input are within their limits, and its fixture files
  are few, named and small.\<close>

theorem fetched_example_is_capped:
  assumes "fetchExample rn fetch value = Inr p"
  shows "payload_within_caps p"
proof -
  obtain stem where v: "value = Stem stem" using assms by (cases "value") (simp_all add: fetchExample_def)
  note guards = fetchExample_guards [OF assms [unfolded v]]
  then have "payload_within_caps (fresh_payload (rs_text (fetch (EXAMPLES_PREFIX @ stem @ ''.s''))) stem)"
    by (simp add: payload_within_caps_def fresh_payload_def payload_of_def)
  then show ?thesis
    using assms inputs_capped unfolding v fetchExample_stages [where rn = rn and fetch = fetch, OF guards] by blast
qed

definition demo_server :: "jstring \<Rightarrow> Response" where
  "demo_server url =
     (if url = ''/examples/cpsc355/echo.s'' then \<lparr>rs_ok = True, rs_status = 200, rs_statusText = ''OK'', rs_text = ''mov x0, 1''\<rparr>
      else if url = ''/examples/cpsc355/fixtures/echo.stdin''
      then \<lparr>rs_ok = True, rs_status = 200, rs_statusText = ''OK'', rs_text = ''hi''\<rparr>
      else \<lparr>rs_ok = False, rs_status = 404, rs_statusText = ''Not Found'', rs_text = []\<rparr>)"

lemma demo_fetch:
  "fetchExample rn demo_server (Stem ''echo'') = Inr ((fresh_payload ''mov x0, 1'' ''echo'')\<lparr>hp_stdin := Some ''hi''\<rparr>)"
proof -
  have page: "demo_server (EXAMPLES_PREFIX @ ''echo'' @ ''.s'') =
      \<lparr>rs_ok = True, rs_status = 200, rs_statusText = ''OK'', rs_text = ''mov x0, 1''\<rparr>"
    "demo_server (FIXTURES_PREFIX @ ''echo'' @ ''.'' @ ''stdin'') =
      \<lparr>rs_ok = True, rs_status = 200, rs_statusText = ''OK'', rs_text = ''hi''\<rparr>"
    by (simp_all add: demo_server_def EXAMPLES_PREFIX_def FIXTURES_PREFIX_def)
  have tables: "inputs_of ''echo'' = (False, True, False)" "map_of EXAMPLE_FILES ''echo'' = None"
    "stem_pattern ''echo''" "\<not> List.member inherited_names ''echo''"
    by code_simp+
  have "length (utf8_encode ''mov x0, 1'') = 9" "length (utf8_encode ''hi'') = 2" by code_simp+
  then have caps: "validateSource ''mov x0, 1'' = None" "validateStdin ''hi'' = None"
    by (simp_all add: validateSource_def validateStdin_def byteLength_def MAX_SOURCE_BYTES_def MAX_STDIN_BYTES_def)
  show ?thesis
    by (subst fetchExample_stages) (use page tables caps in \<open>simp_all add: then_if_def example_files_def example_stdin_def
      fetchFixture_def Let_def\<close>)
qed

theorem fetched_example_is_capped_witness:
  "\<exists>p. fetchExample (\<lambda>_. 0) demo_server (Stem ''echo'') = Inr p \<and> hp_stdin p = Some ''hi'' \<and> payload_within_caps p"
  using fetched_example_is_capped [OF demo_fetch] demo_fetch by (intro exI [of _ "(fresh_payload ''mov x0, 1'' ''echo'')\<lparr>hp_stdin := Some ''hi''\<rparr>"]) simp

subsection \<open>The launch mode and the arguments it owns\<close>

text \<open>\<open>use-launch-mode.ts\<close>: who owns the pane at the next run, the example the program
  came from, the arguments its payload brought, and the args box, which the hook writes
  through its owner.\<close>

record launch =
  lm_mode :: LaunchMode
  lm_stem :: "jstring option"
  lm_payloadArgs :: jstring
  lm_args :: jstring
  lm_store :: storage

definition LAUNCH_MODE_KEY :: jstring where "LAUNCH_MODE_KEY = ''aarch64-playground:terminal-program''"

definition useLaunchMode :: "jstring \<Rightarrow> storage \<Rightarrow> launch" where
  "useLaunchMode args st =
     \<lparr>lm_mode = decodeLaunch (safeGetItem st LAUNCH_MODE_KEY), lm_stem = None, lm_payloadArgs = [], lm_args = args,
      lm_store = st\<rparr>"

definition setMode :: "LaunchMode \<Rightarrow> launch \<Rightarrow> launch" where
  "setMode m s = s\<lparr>lm_mode := m, lm_store := snd (safeSetItem LAUNCH_MODE_KEY (launch_text m) (lm_store s))\<rparr>"

definition changeMode :: "LaunchMode \<Rightarrow> launch \<Rightarrow> launch" where
  "changeMode m s =
     (case modeArgsFor (lm_stem s) m of
        None \<Rightarrow> setMode m s
      | Some seeded \<Rightarrow>
          if lm_args s = [] \<or> modeArgsFor (lm_stem s) ConsoleMode = Some (lm_args s) \<or> lm_args s = lm_payloadArgs s
          then (setMode m s)\<lparr>lm_args := seeded\<rparr> else setMode m s)"

text \<open>The effect that follows a change of the box or of the example.\<close>

definition migrated :: "jstring option \<Rightarrow> jstring \<Rightarrow> jstring" where
  "migrated stem args =
     (if args \<noteq> [] \<and> legacyModeArgsFor stem = Some args then or_empty (modeArgsFor stem ConsoleMode) else args)"

definition migrate_effect :: "launch \<Rightarrow> launch" where
  "migrate_effect s = s\<lparr>lm_args := migrated (lm_stem s) (lm_args s)\<rparr>"

definition adoptLaunch :: "jstring option \<Rightarrow> LaunchMode \<Rightarrow> jstring \<Rightarrow> launch \<Rightarrow> jstring \<times> launch" where
  "adoptLaunch stem m payloadArgs s =
     (case modeArgsFor stem m of None \<Rightarrow> payloadArgs | Some a \<Rightarrow> a,
      (setMode m s)\<lparr>lm_stem := stem, lm_payloadArgs := payloadArgs\<rparr>)"

definition reset_launch :: "launch \<Rightarrow> launch" where
  "reset_launch s = (setMode ConsoleMode s)\<lparr>lm_stem := None\<rparr>"

definition EXAMPLE_INTERACTIVE :: "jstring list" where
  "EXAMPLE_INTERACTIVE = [''snake'', ''dsav'', ''calc'', ''temp-convert'', ''two-sum'', ''deadzone'']"

definition offersControl :: "launch \<Rightarrow> bool" where
  "offersControl s = (case lm_stem s of None \<Rightarrow> False | Some stem \<Rightarrow> stem \<in> set EXAMPLE_INTERACTIVE)"

text \<open>A \<open>?run=\<close> of the link over the example's own default, and the payload's arrival.\<close>

definition withRun :: "HandoffPayload \<Rightarrow> LaunchMode option \<Rightarrow> HandoffPayload" where
  "withRun payload run = (case run of None \<Rightarrow> payload | Some m \<Rightarrow> payload\<lparr>hp_launch := Some m\<rparr>)"

definition onProgramLoaded :: "HandoffPayload \<Rightarrow> launch \<Rightarrow> launch" where
  "onProgramLoaded p s =
     (let (args, s') = adoptLaunch (hp_stem p) (if hp_launch p = Some Terminal then Terminal else ConsoleMode)
            (or_empty (hp_args p)) s
      in s'\<lparr>lm_args := args\<rparr>)"

datatype launch_event = ModeChanged LaunchMode | ProgramLoaded HandoffPayload | SourceReplaced | ArgsTyped jstring

fun launch_step :: "launch_event \<Rightarrow> launch \<Rightarrow> launch" where
  "launch_step (ModeChanged m) s = migrate_effect (changeMode m s)"
| "launch_step (ProgramLoaded p) s = migrate_effect (onProgramLoaded p s)"
| "launch_step SourceReplaced s = migrate_effect (reset_launch s)"
| "launch_step (ArgsTyped t) s = migrate_effect (s\<lparr>lm_args := t\<rparr>)"

definition launch_run :: "launch_event list \<Rightarrow> launch \<Rightarrow> launch" where
  "launch_run evs s = fold launch_step evs s"

lemma setMode_fields [simp]:
  "lm_mode (setMode m s) = m" "lm_stem (setMode m s) = lm_stem s" "lm_args (setMode m s) = lm_args s"
  "lm_payloadArgs (setMode m s) = lm_payloadArgs s"
  by (simp_all add: setMode_def)

lemma seed_not_legacy: "modeArgsFor stem m = Some d \<Longrightarrow> migrated stem d = d"
  by (auto simp: modeArgsFor_def migrated_def legacyModeArgsFor_def split: option.splits if_splits LaunchMode.splits)

lemma migrated_twice: "migrated stem (migrated stem t) = migrated stem t"
proof (cases "t \<noteq> [] \<and> legacyModeArgsFor stem = Some t")
  case True
  then have "modeArgsFor stem ConsoleMode = Some (migrated stem t)"
    by (auto simp: migrated_def modeArgsFor_def legacyModeArgsFor_def or_empty_def split: option.splits if_splits)
  then show ?thesis by (rule seed_not_legacy)
qed (auto simp: migrated_def)

text \<open>Who wrote the box: the mode, or the student.\<close>

definition box_has_owner :: "jstring set \<Rightarrow> launch \<Rightarrow> bool" where
  "box_has_owner T s \<longleftrightarrow>
     (\<forall>d. modeArgsFor (lm_stem s) (lm_mode s) = Some d \<longrightarrow>
        lm_args s = d \<or> (\<exists>t \<in> T. lm_args s = migrated (lm_stem s) t))"

lemma launch_step_owner:
  assumes "box_has_owner T s" "\<And>t. e = ArgsTyped t \<Longrightarrow> t \<in> T"
  shows "box_has_owner T (launch_step e s)"
proof (cases e)
  case (ModeChanged m)
  show ?thesis
  proof (cases "modeArgsFor (lm_stem s) m")
    case None
    then show ?thesis using ModeChanged by (simp add: changeMode_def migrate_effect_def box_has_owner_def)
  next
    case (Some d)
    show ?thesis
    proof (cases "lm_args s = [] \<or> modeArgsFor (lm_stem s) ConsoleMode = Some (lm_args s) \<or> lm_args s = lm_payloadArgs s")
      case True
      then show ?thesis
        using ModeChanged Some by (simp add: changeMode_def migrate_effect_def box_has_owner_def seed_not_legacy)
    next
      case False
      have "modeArgsFor (lm_stem s) (lm_mode s) \<noteq> Some (lm_args s)"
        using False Some by (cases "lm_mode s") (auto simp: modeArgsFor_def split: option.splits if_splits)
      moreover obtain d' where "modeArgsFor (lm_stem s) (lm_mode s) = Some d'"
        using Some by (auto simp: modeArgsFor_def split: option.splits if_splits)
      ultimately obtain t where "t \<in> T" "lm_args s = migrated (lm_stem s) t"
        using assms(1) by (auto simp: box_has_owner_def)
      then show ?thesis using ModeChanged Some False by (auto simp: changeMode_def migrate_effect_def box_has_owner_def migrated_twice)
    qed
  qed
next
  case (ProgramLoaded p)
  then show ?thesis
    by (auto simp: onProgramLoaded_def adoptLaunch_def migrate_effect_def box_has_owner_def seed_not_legacy)
next
  case SourceReplaced
  then show ?thesis by (simp add: reset_launch_def migrate_effect_def box_has_owner_def modeArgsFor_def)
next
  case (ArgsTyped t)
  then show ?thesis using assms(2) by (auto simp: migrate_effect_def box_has_owner_def)
qed

lemma launch_run_owner: "box_has_owner T s \<Longrightarrow> (\<And>t. ArgsTyped t \<in> set evs \<Longrightarrow> t \<in> T) \<Longrightarrow> box_has_owner T (launch_run evs s)"
  unfolding launch_run_def
proof (induction evs arbitrary: s)
  case (Cons e evs)
  then show ?case by (simp add: launch_step_owner)
qed simp

text \<open>C28: the args box of an example with two faces always has an owner: whatever
  programs are loaded, modes are chosen and texts are typed since the page opened, the
  box holds what the current mode puts there, or what the student typed (with the old
  console form, wherever it is found, rewritten).\<close>

theorem args_box_has_an_owner:
  assumes "s = launch_run evs (useLaunchMode args st)" "modeArgsFor (lm_stem s) (lm_mode s) = Some d"
  shows "lm_args s = d \<or> (\<exists>t. ArgsTyped t \<in> set evs \<and> lm_args s = migrated (lm_stem s) t)"
proof -
  have "box_has_owner {t. ArgsTyped t \<in> set evs} s"
    unfolding assms(1) by (rule launch_run_owner) (simp_all add: box_has_owner_def useLaunchMode_def modeArgsFor_def)
  then show ?thesis using assms(2) by (auto simp: box_has_owner_def)
qed

definition calc_payload :: HandoffPayload where
  "calc_payload = (payload_of ''mov x0, 1'' ''calc'')\<lparr>hp_stem := Some ''calc''\<rparr>"

definition empty_store :: storage where
  "empty_store = \<lparr>st_window = True, st_usable = True, st_accepts = (\<lambda>_ _ _. True), st_items = [], st_events = []\<rparr>"

definition demo_events :: "launch_event list" where
  "demo_events = [ProgramLoaded calc_payload, ModeChanged Terminal, ModeChanged ConsoleMode]"

theorem args_box_has_an_owner_witness:
  "lm_args (launch_run demo_events (useLaunchMode [] empty_store)) = ''console''"
proof -
  have s: "lm_stem (launch_run demo_events (useLaunchMode [] empty_store)) = Some ''calc''"
    "lm_mode (launch_run demo_events (useLaunchMode [] empty_store)) = ConsoleMode"
    "modeArgsFor (Some ''calc'') ConsoleMode = Some ''console''"
    by code_simp+
  then show ?thesis
    using args_box_has_an_owner [OF refl, of demo_events "[]" empty_store "''console''"] by (simp add: demo_events_def)
qed

text \<open>Arguments of the student's own stay through any changes of mode.\<close>

lemma own_arguments_survive:
  assumes "lm_args s = t" "t \<noteq> []" "t \<noteq> ''console''" "t \<noteq> lm_payloadArgs s" "legacyModeArgsFor (lm_stem s) \<noteq> Some t"
  shows "lm_args (launch_run (map ModeChanged ms) s) = t"
  using assms unfolding launch_run_def
proof (induction ms arbitrary: s)
  case (Cons m ms)
  have "modeArgsFor (lm_stem s) ConsoleMode \<noteq> Some t" using Cons.prems(3) by (auto simp: modeArgsFor_def split: option.splits if_splits)
  then have "changeMode m s = setMode m s" using Cons.prems by (auto simp: changeMode_def split: option.splits)
  moreover have "migrated (lm_stem s) t = t" using Cons.prems(5) by (simp add: migrated_def)
  ultimately have "launch_step (ModeChanged m) s = setMode m s" using Cons.prems(1) by (simp add: migrate_effect_def)
  then show ?case using Cons.IH [of "setMode m s"] Cons.prems by simp
qed simp

lemma decode_launch_text [simp]: "decodeLaunch (Some (launch_text m)) = m"
  by (cases m) (simp_all add: decodeLaunch_def launch_text_def)

text \<open>A chosen mode is the one the page opens with after a reload, when the browser kept
  it.\<close>

lemma mode_survives_reload:
  assumes "fst (safeSetItem LAUNCH_MODE_KEY (launch_text m) (lm_store s))"
  shows "lm_mode (useLaunchMode args (lm_store (changeMode m s))) = m"
proof -
  have "lm_store (changeMode m s) = snd (safeSetItem LAUNCH_MODE_KEY (launch_text m) (lm_store s))"
    by (auto simp: changeMode_def setMode_def split: option.splits)
  then show ?thesis using assms by (auto simp: useLaunchMode_def safeSetItem_def safeGetItem_def update_conv' split: if_splits)
qed

subsection \<open>A link's query reads back\<close>

text \<open>Text that percent-encoding leaves alone.\<close>

lemma separator_codes [simp]:
  "code (CHR ''&'') = 38" "code (CHR ''='') = 61" "code (CHR ''.'') = 46" "code (CHR ''-'') = 45" "code (CHR ''_'') = 95"
  "code (CHR ''?'') = 63"
  by code_simp+

lemma stem_char_range:
  assumes "is_stem_char c"
  shows "65 \<le> code c \<and> code c \<le> 90 \<or> 97 \<le> code c \<and> code c \<le> 122 \<or> 48 \<le> code c \<and> code c \<le> 57 \<or>
    code c = 95 \<or> code c = 46 \<or> code c = 45"
proof -
  consider "is_upper c" | "is_lower c" | "is_digit c" | "c = CHR ''_''" | "c = CHR ''.''" | "c = CHR ''-''"
    using assms unfolding is_stem_char_def is_word_char_def is_alpha_def by blast
  then show ?thesis by cases (simp_all add: is_upper_def is_lower_def is_digit_def)
qed

lemma stem_char_code:
  assumes "is_stem_char c"
  shows "code c < 128" "code c \<notin> {32, 37, 38, 43, 61}"
  using stem_char_range [OF assms] by auto

lemma serialize_stem_char:
  assumes "is_stem_char c"
  shows "serialize_byte (code c) = [c]"
proof -
  have "is_word_char (char_of (code c)) \<or> code c \<in> {42, 45, 46}" using assms by (auto simp: is_stem_char_def)
  then show ?thesis using stem_char_code [OF assms] by (simp add: serialize_byte_def)
qed

lemma utf8_encode_plain: "list_all (\<lambda>c. code c < 128) s \<Longrightarrow> utf8_encode s = map code s"
  by (induction s) (simp_all add: utf8_encode_def utf8_char_def)

lemma serialize_plain: "list_all is_stem_char s \<Longrightarrow> serialize_value s = s"
proof -
  assume s: "list_all is_stem_char s"
  then have "list_all (\<lambda>c. code c < 128) s" by (auto simp: list_all_iff stem_char_code)
  moreover have "concat (map serialize_byte (map code s)) = s"
    using s by (induction s) (simp_all add: serialize_stem_char)
  ultimately show ?thesis by (simp add: serialize_value_def utf8_encode_plain)
qed

lemma percent_decode_plain: "37 \<notin> set bs \<Longrightarrow> percent_decode bs = bs"
  by (induction bs rule: percent_decode.induct) auto

lemma decode_from_plain: "list_all (\<lambda>b. b < 128) bs \<Longrightarrow> decode_from idle bs = bs"
  by (induction bs) (simp_all add: idle_def)

lemma decode_plain:
  assumes "list_all is_stem_char s"
  shows "decode_value (map code s) = map code s"
proof -
  have plain: "\<forall>b \<in> set (map code s). b < 128 \<and> b \<noteq> 37 \<and> b \<noteq> 43"
    using assms stem_char_code by (auto simp: list_all_iff)
  then have "map (\<lambda>b. if b = 43 then 32 else b) (map code s) = map code s" by (simp add: map_idI)
  moreover have "percent_decode (map code s) = map code s" using plain by (intro percent_decode_plain) auto
  moreover have "decode_from idle (map code s) = map code s" using plain by (intro decode_from_plain) (auto simp: list_all_iff)
  moreover have "concat (map units_of_scalar (map code s)) = map code s"
    using plain by (induction s) (simp_all add: units_of_scalar_def)
  ultimately show ?thesis unfolding decode_value_def by presburger
qed

lemma split_bytes_nonempty [simp]: "split_bytes sep bs \<noteq> []"
  by (cases bs) (auto split: list.splits)

lemma split_bytes_single: "sep \<notin> set w \<Longrightarrow> split_bytes sep w = [w]"
  by (induction w) auto

lemma split_bytes_append: "sep \<notin> set w \<Longrightarrow> split_bytes sep (w @ sep # bs) = w # split_bytes sep bs"
  by (induction w) auto

lemma split_joined:
  assumes "list_all (\<lambda>w. 38 \<notin> set (map code w)) ws" "ws \<noteq> []"
  shows "split_bytes 38 (map code (js_join ''&'' ws)) = map (map code) ws"
  using assms
proof (induction "''&''" ws rule: js_join.induct)
  case (3 w v ws)
  then show ?case using split_bytes_append [of 38 "map code w" "map code (js_join ''&'' (v # ws))"] by simp
qed (simp_all add: split_bytes_single)

text \<open>One parameter, as it is written and read.\<close>

definition plain_pair :: "jstring \<times> jstring \<Rightarrow> bool" where
  "plain_pair p \<longleftrightarrow> list_all is_stem_char (fst p) \<and> list_all is_stem_char (snd p)"

definition written :: "jstring \<times> jstring \<Rightarrow> jstring" where
  "written p = fst p @ ''='' @ snd p"

lemma read_written:
  assumes "plain_pair p"
  shows "search_pair (map code (written p)) = (map code (fst p), map code (snd p))"
proof -
  have "\<forall>b \<in> set (map code (fst p)). b \<noteq> 61" using assms stem_char_code by (auto simp: plain_pair_def list_all_iff)
  then have "takeWhile (\<lambda>b. b \<noteq> 61) (map code (fst p) @ 61 # map code (snd p)) = map code (fst p)"
    "dropWhile (\<lambda>b. b \<noteq> 61) (map code (fst p) @ 61 # map code (snd p)) = 61 # map code (snd p)"
    by (subst takeWhile_append2, auto, subst dropWhile_append2, auto)
  then show ?thesis using assms by (simp add: search_pair_def written_def plain_pair_def decode_plain)
qed

text \<open>The parameters of a link, in the order its query has them.\<close>

definition param :: "jstring \<Rightarrow> jstring option \<Rightarrow> (jstring \<times> jstring) list" where
  "param name v = (case v of None \<Rightarrow> [] | Some x \<Rightarrow> [(name, x)])"

definition link_pairs :: "DeepLink \<Rightarrow> (jstring \<times> jstring) list" where
  "link_pairs link =
     param ''example'' (dl_example link) @ param ''run'' (map_option launch_text (dl_run link)) @
     param ''theme'' (dl_theme link) @ param ''embed'' (if dl_embed link then Some ''1'' else None)"

definition link_ok :: "DeepLink \<Rightarrow> bool" where
  "link_ok link \<longleftrightarrow>
     (case dl_example link of None \<Rightarrow> True | Some s \<Rightarrow> stem_pattern s) \<and>
     (case dl_theme link of None \<Rightarrow> True | Some t \<Rightarrow> isThemeId t)"

lemma plain_names:
  "stem_pattern ''example''" "stem_pattern ''run''" "stem_pattern ''theme''" "stem_pattern ''embed''" "stem_pattern ''1''"
  by code_simp+

lemma launch_text_plain: "stem_pattern (launch_text m)"
proof -
  have "stem_pattern ''terminal''" "stem_pattern ''console''" by code_simp+
  then show ?thesis by (cases m) (simp_all add: launch_text_def)
qed

lemma themes_are_plain: "isThemeId t \<Longrightarrow> stem_pattern t"
proof -
  have "list_all stem_pattern THEME_IDS" by code_simp
  then show "isThemeId t \<Longrightarrow> stem_pattern t" by (simp add: isThemeId_def list_all_iff)
qed

lemma params_set_plain:
  "stem_pattern name \<Longrightarrow> (\<And>x. v = Some x \<Longrightarrow> stem_pattern x) \<Longrightarrow> params_set name v = map written (param name v)"
  by (cases v) (simp_all add: params_set_def param_def stem_pattern_def serialize_plain written_def)

lemma query_written:
  assumes "link_ok link"
  shows "buildDeepLinkQuery link = (if link_pairs link = [] then [] else ''?'' @ js_join ''&'' (map written (link_pairs link)))"
proof -
  have sets: "params_set ''example'' (dl_example link) = map written (param ''example'' (dl_example link))"
    "params_set ''run'' (map_option launch_text (dl_run link)) = map written (param ''run'' (map_option launch_text (dl_run link)))"
    "params_set ''theme'' (dl_theme link) = map written (param ''theme'' (dl_theme link))"
    "params_set ''embed'' (if dl_embed link then Some ''1'' else None) =
       map written (param ''embed'' (if dl_embed link then Some ''1'' else None))"
    using assms themes_are_plain by (intro params_set_plain plain_names; auto simp: link_ok_def plain_names launch_text_plain split: if_splits)+
  have "js_join ''&'' (map written ps) = [] \<longleftrightarrow> ps = []" for ps
    by (induction "''&''" "map written ps" arbitrary: ps rule: js_join.induct) (auto simp: written_def)
  from this [of "link_pairs link"] show ?thesis
    unfolding buildDeepLinkQuery_def Let_def sets map_append [symmetric] link_pairs_def [symmetric] by simp
qed

lemma map_of_coded:
  "map_of (map (\<lambda>p. (map code (fst p), map code (snd p))) ps) (map code name) = map_option (map code) (map_of ps name)"
proof (induction ps)
  case (Cons p ps)
  have "inj code" by (auto simp: code_def inj_def)
  then have "map code name = map code (fst p) \<longleftrightarrow> name = fst p" by (simp add: inj_map_eq_map)
  then show ?case using Cons by auto
qed simp

lemma narrow_code: "narrow (map code s) = Some s"
  by (simp add: narrow_def list_all_iff code_def comp_def)

lemma pairs_plain: "link_ok link \<Longrightarrow> p \<in> set (link_pairs link) \<Longrightarrow> plain_pair p"
  using plain_names themes_are_plain launch_text_plain
  by (auto simp: link_pairs_def param_def link_ok_def plain_pair_def stem_pattern_def split: option.splits if_splits)

lemma read_query:
  assumes "link_ok link"
  shows "query_of (buildDeepLinkQuery link) = map (\<lambda>p. (map code (fst p), map code (snd p))) (link_pairs link)"
proof (cases "link_pairs link = []")
  case True
  then show ?thesis
    by (simp add: query_written [OF assms] query_of_def URLSearchParams_def utf8_encode_def)
next
  case False
  define q where "q = js_join ''&'' (map written (link_pairs link))"
  have "\<forall>w \<in> set (map written (link_pairs link)). \<forall>c \<in> set w. is_stem_char c \<or> c = CHR ''=''"
    using pairs_plain [OF assms] by (auto simp: written_def plain_pair_def list_all_iff)
  then have chars: "\<forall>w \<in> set (map written (link_pairs link)). \<forall>c \<in> set w. code c < 128 \<and> code c \<noteq> 38"
    using stem_char_code by fastforce
  have set_join: "set (js_join ''&'' ws) \<subseteq> {CHR ''&''} \<union> \<Union> (set ` set ws)" for ws
    by (induction "''&''" ws rule: js_join.induct) auto
  then have "list_all (\<lambda>c. code c < 128) q"
    using chars set_join [of "map written (link_pairs link)"] unfolding q_def list_all_iff by fastforce
  then have "utf8_encode q = map code q" by (rule utf8_encode_plain)
  moreover have "split_bytes 38 (map code q) = map (map code) (map written (link_pairs link))"
    unfolding q_def using chars False by (intro split_joined) (auto simp: list_all_iff)
  moreover have "filter (\<lambda>w. w \<noteq> []) (map (map code) (map written (link_pairs link))) = map (map code) (map written (link_pairs link))"
    by (auto simp: filter_id_conv written_def)
  ultimately have "URLSearchParams q = map search_pair (map (map code) (map written (link_pairs link)))"
    by (simp add: URLSearchParams_def)
  also have "\<dots> = map (\<lambda>p. (map code (fst p), map code (snd p))) (link_pairs link)"
    using pairs_plain [OF assms] by (simp add: read_written)
  finally show ?thesis using False by (simp add: query_written [OF assms] query_of_def q_def)
qed

lemma narrow_get_written:
  "link_ok link \<Longrightarrow> narrow_get name (query_of (buildDeepLinkQuery link)) = map_of (link_pairs link) name"
  by (cases "map_of (link_pairs link) name")
    (simp_all add: narrow_get_def params_get_def read_query map_of_coded narrow_code)

lemma link_params:
  "map_of (link_pairs link) ''example'' = dl_example link"
  "map_of (link_pairs link) ''run'' = map_option launch_text (dl_run link)"
  "map_of (link_pairs link) ''theme'' = dl_theme link"
  "map_of (link_pairs link) ''embed'' = (if dl_embed link then Some ''1'' else None)"
  by (cases "dl_example link"; cases "dl_run link"; cases "dl_theme link"; simp add: link_pairs_def param_def)+

text \<open>C29: a link composed of an example, a mode, a theme and the embed flag reads back as
  it was written: the query string of a link parses to that link.\<close>

theorem link_query_reads_back:
  assumes "link_ok link" "dl_bundle link = None" "dl_bundleError link = None"
  shows "parseDeepLink (buildDeepLinkQuery link) None = link"
proof -
  have "keep_if stem_pattern (dl_example link) = dl_example link" "keep_if isThemeId (dl_theme link) = dl_theme link"
    using assms(1) by (auto simp: keep_if_def link_ok_def split: option.splits)
  moreover have "(if map_option launch_text (dl_run link) = Some ''terminal'' then Some Terminal
      else if map_option launch_text (dl_run link) = Some ''console'' then Some ConsoleMode else None) = dl_run link"
    by (cases "dl_run link"; cases "the (dl_run link)") (simp_all add: launch_text_def)
  ultimately show ?thesis
    using assms(2,3) unfolding parseDeepLink_def Let_def narrow_get_written [OF assms(1)] link_params by simp
qed

definition demo_link :: DeepLink where
  "demo_link = \<lparr>dl_example = Some ''two-sum'', dl_theme = Some ''high-contrast'', dl_run = Some ConsoleMode, dl_embed = True,
     dl_bundle = None, dl_bundleError = None\<rparr>"

theorem link_query_reads_back_witness:
  "buildDeepLinkQuery demo_link = ''?example=two-sum&run=console&theme=high-contrast&embed=1'' \<and>
   parseDeepLink ''?example=two-sum&run=console&theme=high-contrast&embed=1'' None = demo_link"
proof -
  have "link_ok demo_link" by code_simp
  moreover have "link_pairs demo_link =
      [(''example'', ''two-sum''), (''run'', ''console''), (''theme'', ''high-contrast''), (''embed'', ''1'')]"
    by (simp add: link_pairs_def demo_link_def param_def launch_text_def)
  ultimately have "buildDeepLinkQuery demo_link = ''?example=two-sum&run=console&theme=high-contrast&embed=1''"
    by (simp add: query_written written_def)
  moreover have "parseDeepLink (buildDeepLinkQuery demo_link) None = demo_link"
    by (rule link_query_reads_back) (use \<open>link_ok demo_link\<close> in \<open>simp_all add: demo_link_def\<close>)
  ultimately show ?thesis by simp
qed

text \<open>A stem that is no alias is returned unchanged, but for the names every object
  inherits, which the example then refuses as no name at all.\<close>

lemma unknown_stem_unchanged:
  "stem \<notin> fst ` set LEGACY_EXAMPLE_ALIASES \<Longrightarrow> stem \<notin> set inherited_names \<Longrightarrow> resolveExampleStem stem = Stem stem"
  by (simp add: resolveExampleStem_def map_of_eq_None_iff [THEN iffD2])

lemma inherited_stem:
  "resolveExampleStem ''constructor'' = Inherited ''constructor''"
  "fetchExample rn fetch (resolveExampleStem ''constructor'') = Inl ''invalid example name''"
proof -
  have "map_of LEGACY_EXAMPLE_ALIASES ''constructor'' = None" "List.member inherited_names ''constructor''" by code_simp+
  then show r: "resolveExampleStem ''constructor'' = Inherited ''constructor''" by (simp add: resolveExampleStem_def)
  show "fetchExample rn fetch (resolveExampleStem ''constructor'') = Inl ''invalid example name''"
    by (simp add: r fetchExample_def)
qed

lemma alias_targets: "map_of LEGACY_EXAMPLE_ALIASES stem = Some s \<Longrightarrow> stem_pattern s \<and> resolveExampleStem s = Stem s"
proof -
  have "list_all (\<lambda>a. stem_pattern (snd a) \<and> map_of LEGACY_EXAMPLE_ALIASES (snd a) = None \<and> \<not> List.member inherited_names (snd a))
      LEGACY_EXAMPLE_ALIASES"
    by code_simp
  moreover assume "map_of LEGACY_EXAMPLE_ALIASES stem = Some s"
  then have "(stem, s) \<in> set LEGACY_EXAMPLE_ALIASES" by (rule map_of_SomeD)
  ultimately show "stem_pattern s \<and> resolveExampleStem s = Stem s"
    unfolding list_all_iff by (auto simp: resolveExampleStem_def dest!: bspec)
qed

text \<open>What the decoder would have answered for a query without a bundle is never missed.\<close>

lemma decoder_loaded_when_needed:
  assumes "decodeBundle None = BundleNone"
  shows "parseDeepLink search (loadBundleDecoder decodeBundle search) = parseDeepLink search (Some decodeBundle)"
  by (simp add: loadBundleDecoder_def parseDeepLink_def Let_def assms)

subsection \<open>Try-in-playground links\<close>

text \<open>\<open>playground-source.ts\<close>: an instruction's example as a whole program.\<close>

abbreviation lf :: char where "lf \<equiv> CHR 0x0A"

definition main_prologue :: "jstring list" where
  "main_prologue =
     [''        .global main'', ''main:'', ''        stp     x29, x30, [sp, -16]!'', ''        mov     x29, sp'']"

definition main_epilogue :: "jstring list" where
  "main_epilogue = [''        mov     w0, 0'', ''        ldp     x29, x30, [sp], 16'', ''        ret'', []]"

definition wrapInMain :: "jstring \<Rightarrow> jstring" where
  "wrapInMain example =
     (let body = js_join [lf] (map (\<lambda>line. replicate 8 (CHR '' '') @ line) (js_split lf example))
      in js_join [lf] (main_prologue @ [body] @ main_epilogue))"

definition playgroundSource :: "jstring option \<Rightarrow> jstring \<Rightarrow> jstring" where
  "playgroundSource runnable example = (case runnable of Some r \<Rightarrow> r | None \<Rightarrow> wrapInMain example)"

lemma js_join_flat: "ws \<noteq> [] \<Longrightarrow> js_join sep (p @ [js_join sep ws] @ e) = js_join sep (p @ ws @ e)"
proof (induction p)
  case Nil
  then show ?case
  proof (induction ws)
    case (Cons w ws)
    then show ?case by (cases ws; cases e) simp_all
  qed simp
next
  case (Cons a p)
  then show ?case by (cases p; cases ws) simp_all
qed

text \<open>The program's lines are the prologue, the example's lines indented, and the
  epilogue: no line of the example is joined to another or lost.\<close>

lemma wrapped_lines:
  "js_split lf (wrapInMain example) =
     main_prologue @ map (\<lambda>line. replicate 8 (CHR '' '') @ line) (js_split lf example) @ main_epilogue"
proof -
  have "wrapInMain example =
      js_join [lf] (main_prologue @ map (\<lambda>line. replicate 8 (CHR '' '') @ line) (js_split lf example) @ main_epilogue)"
    unfolding wrapInMain_def Let_def by (rule js_join_flat) simp
  moreover have "\<forall>w \<in> set (main_prologue @ main_epilogue). lf \<notin> set w" by (simp add: main_prologue_def main_epilogue_def)
  ultimately show ?thesis by (simp only:) (rule js_split_join, auto simp: main_epilogue_def dest: js_split_parts)
qed

end
