(* ===== verification/BundleLink.thy ===== *)
theory BundleLink
  imports Handoff
begin

text \<open>
  The codec of a \<open>?bundle=\<close> link (\<open>lib/playground/diagnostic-bundle.ts\<close>): the JSON of a bundle, the
  shape checks on what an untrusted link holds, and the link itself.

  A bundle is the object it is in the source, a list of keys and values; a check reads a value or
  \<open>undefined\<close>, here \<open>None\<close>; a number is a rational, so every one is finite.  The package lz-string is a pair of parameters.  The theorems rely on
  what it documents of its \<open>EncodedURIComponent\<close> pair: decompressing undoes compressing, the
  compressed text uses letters, digits, plus, minus and dollar, and a blank in the text to decompress
  counts as the plus it was before a query string was read.

  The theorems: whatever a link holds, an opened bundle has passed its checks, and its helper files
  are named as tabs are; a bundle reads back from its link; a link reopens the program in the
  playground, through the query string and the handoff.
\<close>

subsection \<open>Shape checks\<close>

type_synonym Check = "json option \<Rightarrow> bool"
type_synonym Bundle = "(jstring \<times> json) list"

definition isString :: Check where
  "isString v \<longleftrightarrow> as_string v \<noteq> None"

definition isNumber :: Check where
  "isNumber v \<longleftrightarrow> (case v of Some (JNum _) \<Rightarrow> True | _ \<Rightarrow> False)"

definition orNull :: "Check \<Rightarrow> Check" where
  "orNull chk v \<longleftrightarrow> v = Some JNull \<or> chk v"

definition listOf :: "Check \<Rightarrow> Check" where
  "listOf chk v \<longleftrightarrow> (case v of Some (JArr xs) \<Rightarrow> list_all (\<lambda>x. chk (Some x)) xs | _ \<Rightarrow> False)"

definition shaped :: "(jstring \<times> Check) list \<Rightarrow> Check" where
  "shaped specs v \<longleftrightarrow>
     (case v of
        Some (JObj kvs) \<Rightarrow> list_all (\<lambda>(key, chk). chk (map_of kvs key)) specs
      | Some (JArr xs) \<Rightarrow> list_all (\<lambda>(key, chk). chk None) specs
      | _ \<Rightarrow> False)"

definition isFile :: Check where
  "isFile = shaped [(''name'', isString), (''body'', isString)]"

definition isPlace :: Check where
  "isPlace = shaped [(''file'', orNull isString), (''line'', isNumber), (''text'', isString)]"

definition file_of :: "json \<Rightarrow> SourceFile" where
  "file_of v = \<lparr>sf_name = or_empty (as_string (member v ''name'')), sf_body = or_empty (as_string (member v ''body''))\<rparr>"

definition files_of :: "json option \<Rightarrow> SourceFile list" where
  "files_of v = (case as_array v of None \<Rightarrow> [] | Some xs \<Rightarrow> map file_of xs)"

definition helper_names_ok :: "SourceFile list \<Rightarrow> bool" where
  "helper_names_ok fs \<longleftrightarrow>
     list_all (\<lambda>i. sf_name (fs ! i) = js_trim (sf_name (fs ! i)) \<and> validateFileName (sf_name (fs ! i)) fs (Some i) = None)
       [0 ..< length fs]"

definition isHelperList :: Check where
  "isHelperList v \<longleftrightarrow> listOf isFile v \<and> length (files_of v) \<le> MAX_WORKSPACE_FILES \<and> helper_names_ok (files_of v)"

definition V2_FIELDS :: "(jstring \<times> Check) list" where
  "V2_FIELDS =
     [(''source'', isString), (''files'', isHelperList), (''args'', isString), (''stdin'', isString), (''stdout'', isString),
      (''stderr'', isString), (''notes'', listOf isString), (''exitCode'', orNull isNumber), (''error'', orNull isString),
      (''status'', isString), (''errorAt'', isPlace), (''pcAt'', isPlace), (''registers'', listOf isString),
      (''fpRegisters'', listOf isString), (''vectorRegisters'', listOf isString), (''sp'', isString), (''pc'', isString),
      (''nzcv'', isNumber), (''disassembly'', listOf isString), (''stack'', listOf isString),
      (''memory'', listOf (shaped [(''name'', isString), (''lines'', listOf isString)])), (''vfs'', listOf isFile),
      (''site'', isString), (''emulator'', isString), (''browser'', isString)]"

definition V1_FIELDS :: "(jstring \<times> Check) list" where
  "V1_FIELDS =
     [(''source'', isString), (''args'', isString), (''stdin'', isString), (''stdout'', isString), (''stderr'', isString),
      (''notes'', listOf isString), (''exitCode'', orNull isNumber), (''registers'', listOf isString), (''sp'', isString),
      (''pc'', isString), (''stackBytes'', isString), (''error'', orNull isString)]"

fun read_entries :: "Bundle \<Rightarrow> (jstring \<times> Check) list \<Rightarrow> Bundle option" where
  "read_entries ob [] = Some []"
| "read_entries ob ((key, chk) # specs) =
     (case map_of ob key of
        None \<Rightarrow> read_entries ob specs
      | Some v \<Rightarrow> if \<not> chk (Some v) then None else map_option (Cons (key, v)) (read_entries ob specs))"

definition readFields :: "json option \<Rightarrow> (jstring \<times> Check) list \<Rightarrow> Bundle option" where
  "readFields b specs =
     (case b of
        Some (JObj ob) \<Rightarrow> if as_string (map_of ob ''source'') = None then None else read_entries ob specs
      | _ \<Rightarrow> None)"

subsection \<open>The codec\<close>

definition BUNDLE_VERSION :: int where "BUNDLE_VERSION = 2"

definition payload_json :: "Bundle \<Rightarrow> json" where
  "payload_json b = JObj [(''v'', int_json BUNDLE_VERSION), (''b'', JObj b)]"

definition encodeBundle :: "(rat \<Rightarrow> jstring) \<Rightarrow> (jstring \<Rightarrow> jstring) \<Rightarrow> Bundle \<Rightarrow> jstring" where
  "encodeBundle sn compress b = compress (json_text sn (payload_json b))"

definition program_keys :: "jstring list" where
  "program_keys = [''source'', ''files'', ''args'', ''stdin'']"

definition program_only :: "Bundle \<Rightarrow> Bundle" where
  "program_only b = concat (map (\<lambda>k. case map_of b k of None \<Rightarrow> [] | Some v \<Rightarrow> [(k, v)]) program_keys)"


datatype bundle_read = ReadNone | ReadOk Bundle | ReadCorrupt | ReadTooLarge

definition decodeBundle :: "(jstring \<Rightarrow> rat) \<Rightarrow> (units \<Rightarrow> jstring option) \<Rightarrow> units option \<Rightarrow> bundle_read" where
  "decodeBundle rn decompress u =
     (case u of
        None \<Rightarrow> ReadNone
      | Some value \<Rightarrow>
          if value = [] then ReadNone
          else if length value > MAX_SHARE_HASH_BYTES then ReadTooLarge
          else case decompress value of
            None \<Rightarrow> ReadCorrupt
          | Some text \<Rightarrow>
              if text = [] then ReadCorrupt
              else if length text > MAX_BUNDLE_DECOMPRESSED_BYTES then ReadTooLarge
              else case json_parse rn text of
                None \<Rightarrow> ReadCorrupt
              | Some parsed \<Rightarrow>
                  (case (if member parsed ''v'' = Some (int_json BUNDLE_VERSION) then Some V2_FIELDS
                         else if member parsed ''v'' = Some (int_json 1) then Some V1_FIELDS else None) of
                     None \<Rightarrow> ReadCorrupt
                   | Some specs \<Rightarrow>
                       (case readFields (member parsed ''b'') specs of
                          None \<Rightarrow> ReadCorrupt
                        | Some b \<Rightarrow> ReadOk (filter (\<lambda>kv. fst kv \<noteq> ''stackBytes'') b))))"

text \<open>What a reopen reads of a bundle, and the decoder it hands to the handoff.\<close>

definition program_of :: "Bundle \<Rightarrow> BundleProgram" where
  "program_of b =
     \<lparr>bp_source = or_empty (as_string (map_of b ''source'')),
      bp_files = (if map_of b ''files'' = None then None else Some (files_of (map_of b ''files''))),
      bp_args = as_string (map_of b ''args''), bp_stdin = as_string (map_of b ''stdin'')\<rparr>"

definition bundle_decoder :: "(jstring \<Rightarrow> rat) \<Rightarrow> (units \<Rightarrow> jstring option) \<Rightarrow> BundleDecoder" where
  "bundle_decoder rn decompress u =
     (case decodeBundle rn decompress u of
        ReadNone \<Rightarrow> BundleNone | ReadOk b \<Rightarrow> BundleOk (program_of b)
      | ReadCorrupt \<Rightarrow> BundleBad LinkCorrupt | ReadTooLarge \<Rightarrow> BundleBad LinkTooLarge)"

subsection \<open>What an opened bundle may hold\<close>

lemma read_entries_checked:
  "read_entries ob specs = Some b \<Longrightarrow> (k, v) \<in> set b \<Longrightarrow> \<exists>chk. (k, chk) \<in> set specs \<and> chk (Some v) \<and> map_of ob k = Some v"
proof (induction specs arbitrary: b)
  case (Cons spec specs)
  obtain key chk where f: "spec = (key, chk)" by (cases spec)
  show ?case
  proof (cases "map_of ob key")
    case None
    then show ?thesis using Cons f by auto
  next
    case (Some w)
    then obtain b' where "read_entries ob specs = Some b'" "b = (key, w) # b'" "chk (Some w)"
      using Cons.prems(1) f by (auto split: if_splits)
    then show ?thesis using Cons f Some by auto
  qed
qed simp

lemma read_entries_lookup:
  assumes "distinct (map fst specs)" "read_entries ob specs = Some b"
  shows "map_of b k = (if k \<in> fst ` set specs then map_of ob k else None)"
  using assms
proof (induction specs arbitrary: b)
  case (Cons spec specs)
  obtain key chk where f: "spec = (key, chk)" by (cases spec)
  show ?case
  proof (cases "map_of ob key")
    case None
    then show ?thesis using Cons f by auto
  next
    case (Some w)
    then obtain b' where "read_entries ob specs = Some b'" "b = (key, w) # b'"
      using Cons.prems f by (auto split: if_splits)
    then show ?thesis using Cons f Some by auto
  qed
qed simp

lemma read_entries_total:
  "(\<And>key chk v. (key, chk) \<in> set specs \<Longrightarrow> map_of ob key = Some v \<Longrightarrow> chk (Some v)) \<Longrightarrow> \<exists>b. read_entries ob specs = Some b"
proof (induction specs)
  case (Cons spec specs)
  obtain key chk where f: "spec = (key, chk)" by (cases spec)
  obtain b where "read_entries ob specs = Some b" using Cons by fastforce
  then show ?case using Cons.prems [of key chk] f by (cases "map_of ob key") auto
qed simp

lemma V1_in_V2: "(k, chk) \<in> set V1_FIELDS \<Longrightarrow> k \<noteq> ''stackBytes'' \<Longrightarrow> (k, chk) \<in> set V2_FIELDS"
  by (auto simp: V1_FIELDS_def V2_FIELDS_def)

lemma V2_keys: "distinct (map fst V2_FIELDS)" "''stackBytes'' \<notin> fst ` set V2_FIELDS"
  by (simp_all add: V2_FIELDS_def)

lemma V1_keys: "distinct (map fst V1_FIELDS)"
  by (simp add: V1_FIELDS_def)

lemma decodeBundle_reads:
  assumes "decodeBundle rn decompress u = ReadOk b"
  obtains specs ob b0 where "specs \<in> {V2_FIELDS, V1_FIELDS}" "as_string (map_of ob ''source'') \<noteq> None"
    "read_entries ob specs = Some b0" "b = filter (\<lambda>kv. fst kv \<noteq> ''stackBytes'') b0"
proof -
  obtain w where u: "u = Some w" using assms by (cases u) (simp_all add: decodeBundle_def)
  obtain t where "w \<noteq> []" "\<not> length w > MAX_SHARE_HASH_BYTES" "decompress w = Some t"
    using assms unfolding u by (auto simp: decodeBundle_def split: if_splits option.splits)
  moreover from this obtain parsed where "t \<noteq> []" "\<not> length t > MAX_BUNDLE_DECOMPRESSED_BYTES" "json_parse rn t = Some parsed"
    using assms unfolding u by (auto simp: decodeBundle_def split: if_splits option.splits)
  ultimately obtain specs b0 where s: "specs \<in> {V2_FIELDS, V1_FIELDS}" "readFields (member parsed ''b'') specs = Some b0"
      "b = filter (\<lambda>kv. fst kv \<noteq> ''stackBytes'') b0"
    using assms unfolding u by (auto simp: decodeBundle_def split: if_splits option.splits)
  then obtain ob where "as_string (map_of ob ''source'') \<noteq> None" "read_entries ob specs = Some b0"
    by (auto simp: readFields_def split: option.splits json.splits if_splits)
  with s that show thesis by blast
qed

definition bundle_checked :: "Bundle \<Rightarrow> bool" where
  "bundle_checked b \<longleftrightarrow>
     distinct (map fst b) \<and> as_string (map_of b ''source'') \<noteq> None \<and>
     (\<forall>k v. (k, v) \<in> set b \<longrightarrow> (\<exists>chk. (k, chk) \<in> set V2_FIELDS \<and> chk (Some v)))"

lemma read_entries_keys: "read_entries ob specs = Some b \<Longrightarrow> distinct (map fst specs) \<Longrightarrow> distinct (map fst b) \<and> set (map fst b) \<subseteq> set (map fst specs)"
proof (induction specs arbitrary: b)
  case (Cons spec specs)
  obtain key chk where f: "spec = (key, chk)" by (cases spec)
  show ?case
  proof (cases "map_of ob key")
    case None
    then show ?thesis using Cons f by auto
  next
    case (Some w)
    then obtain b' where "read_entries ob specs = Some b'" "b = (key, w) # b'"
      using Cons.prems f by (auto split: if_splits)
    moreover from this have "distinct (map fst b')" "set (map fst b') \<subseteq> set (map fst specs)" using Cons f by simp_all
    ultimately show ?thesis using Cons.prems(2) f by auto
  qed
qed simp

lemma map_of_filter_key: "k \<noteq> k' \<Longrightarrow> map_of (filter (\<lambda>kv. fst kv \<noteq> k') b) k = map_of b k"
  by (induction b) auto

lemma helper_names_good:
  assumes "helper_names_ok fs"
  shows "distinct (map sf_name fs) \<and> list_all (\<lambda>f. good_name (sf_name f)) fs"
proof -
  have ok: "sf_name (fs ! i) = js_trim (sf_name (fs ! i))" "validateFileName (sf_name (fs ! i)) fs (Some i) = None"
    if "i < length fs" for i
    using assms that by (auto simp: helper_names_ok_def list_all_iff)
  have "sf_name (fs ! j) \<noteq> sf_name (fs ! i)" if "i < length fs" "j < length fs" "j \<noteq> i" for i j
    using validateFileName_good(3) [OF ok(2) [OF that(1)] that(2)] ok(1) [OF that(1)] that by auto
  then have "distinct (map sf_name fs)" by (auto simp: distinct_conv_nth)
  moreover have "list_all (\<lambda>f. good_name (sf_name f)) fs"
    using ok validateFileName_good(1) by (metis in_set_conv_nth list_all_iff)
  ultimately show ?thesis ..
qed

lemma opened_bundle:
  assumes "decodeBundle rn decompress u = ReadOk b"
  shows "bundle_checked b"
proof -
  obtain specs ob b0 where r: "specs \<in> {V2_FIELDS, V1_FIELDS}" "as_string (map_of ob ''source'') \<noteq> None"
    "read_entries ob specs = Some b0" "b = filter (\<lambda>kv. fst kv \<noteq> ''stackBytes'') b0"
    using decodeBundle_reads [OF assms] .
  have d: "distinct (map fst specs)" "''source'' \<in> fst ` set specs" using r(1) V1_keys V2_keys by (auto simp: V1_FIELDS_def V2_FIELDS_def)
  then have "distinct (map fst b0)" using read_entries_keys [OF r(3)] by blast
  then have "distinct (map fst b)" unfolding r(4) by (simp add: distinct_map_filter)
  moreover have "map_of b ''source'' = map_of ob ''source''"
    using read_entries_lookup [OF d(1) r(3), of "''source''"] d(2) by (simp add: r(4) map_of_filter_key)
  moreover have "\<exists>chk. (k, chk) \<in> set V2_FIELDS \<and> chk (Some v)" if "(k, v) \<in> set b" for k v
    using read_entries_checked [OF r(3), of k v] that r(1,4) V1_in_V2 by auto
  ultimately show ?thesis using r(2) by (simp add: bundle_checked_def)
qed

text \<open>Whatever a \<open>?bundle=\<close> link holds, a bundle that opens has passed its checks: it has a
  source, every field is of the list and of its type, and its helper files are at most 32, with
  distinct names that are accepted for a tab, so none can write a line of its own into the program.\<close>

theorem opened_bundle_is_checked:
  assumes "decodeBundle rn decompress u = ReadOk b"
  shows "bundle_checked b \<and>
    (\<forall>fs. bp_files (program_of b) = Some fs \<longrightarrow>
       length fs \<le> MAX_WORKSPACE_FILES \<and> distinct (map sf_name fs) \<and> list_all (\<lambda>f. good_name (sf_name f)) fs)"
proof (intro conjI allI impI)
  show b: "bundle_checked b" using assms by (rule opened_bundle)
  fix fs assume fs: "bp_files (program_of b) = Some fs"
  then obtain v where v: "map_of b ''files'' = Some v" "fs = files_of (Some v)"
    by (auto simp: program_of_def split: if_splits)
  then obtain chk where chk: "(''files'', chk) \<in> set V2_FIELDS" "chk (Some v)"
    using b map_of_SomeD [OF v(1)] unfolding bundle_checked_def by blast
  have "(''files'', isHelperList) \<in> set V2_FIELDS" by (simp add: V2_FIELDS_def)
  then have "chk = isHelperList" using V2_keys(1) chk(1) by (metis eq_key_imp_eq_value)
  then have "length fs \<le> MAX_WORKSPACE_FILES" "helper_names_ok fs" using chk(2) v(2) by (simp_all add: isHelperList_def)
  then show "length fs \<le> MAX_WORKSPACE_FILES" "distinct (map sf_name fs)" "list_all (\<lambda>f. good_name (sf_name f)) fs"
    using helper_names_good by blast+
qed

subsection \<open>A bundle reads back from its link\<close>

text \<open>What lz-string documents of its pair for a URI component.\<close>

definition plus_to_blank :: "units \<Rightarrow> units" where
  "plus_to_blank = map (\<lambda>x. if x = 43 then 32 else x)"

definition uri_char :: "char \<Rightarrow> bool" where
  "uri_char c \<longleftrightarrow> is_alpha c \<or> is_digit c \<or> c \<in> set ''+-$''"

definition encoded_uri_pair :: "(jstring \<Rightarrow> jstring) \<Rightarrow> (units \<Rightarrow> jstring option) \<Rightarrow> bool" where
  "encoded_uri_pair compress decompress \<longleftrightarrow>
     (\<forall>text. decompress (map code (compress text)) = Some text \<and> list_all uri_char (compress text)) \<and>
     (\<forall>w. decompress (plus_to_blank w) = decompress w) \<and> decompress [] = None"

lemma read_back:
  assumes "bundle_checked b"
  obtains b' where "readFields (Some (JObj b)) V2_FIELDS = Some b'" "map_of b' = map_of b"
proof -
  have in_V2: "\<exists>chk. (k, chk) \<in> set V2_FIELDS \<and> chk (Some v)" if "map_of b k = Some v" for k v
    using assms map_of_SomeD [OF that] unfolding bundle_checked_def by blast
  have "chk (Some v)" if "(k, chk) \<in> set V2_FIELDS" "map_of b k = Some v" for k chk v
    using in_V2 [OF that(2)] that(1) V2_keys(1) by (metis eq_key_imp_eq_value)
  then obtain b' where b': "read_entries b V2_FIELDS = Some b'" using read_entries_total [of V2_FIELDS b] by blast
  have "map_of b' k = map_of b k" for k
  proof (cases "k \<in> fst ` set V2_FIELDS")
    case False
    then have "map_of b k = None" using in_V2 by (cases "map_of b k") (force simp: image_iff)+
    then show ?thesis using read_entries_lookup [OF V2_keys(1) b'] False by simp
  qed (simp add: read_entries_lookup [OF V2_keys(1) b'])
  then have "map_of b' = map_of b" by blast
  moreover have "readFields (Some (JObj b)) V2_FIELDS = Some b'"
    using b' assms by (simp add: readFields_def bundle_checked_def)
  ultimately show thesis using that by blast
qed

lemma plain_payload: "plain (JObj b) \<Longrightarrow> plain (payload_json b)"
proof -
  have "object_of [(''v'', int_json BUNDLE_VERSION), (''b'', JObj b)] = [(''v'', int_json BUNDLE_VERSION), (''b'', JObj b)]"
    by (rule object_of_distinct) (auto simp: not_index_key is_digit_def code_def)
  then show "plain (JObj b) \<Longrightarrow> plain (payload_json b)" by (simp add: payload_json_def BUNDLE_VERSION_def)
qed

lemma decode_encoded:
  assumes "decompress w = Some (json_text sn (payload_json b))" "w \<noteq> []" "length w \<le> MAX_SHARE_HASH_BYTES"
    and "bundle_checked b" "plain (JObj b)" "length (json_text sn (payload_json b)) \<le> MAX_BUNDLE_DECOMPRESSED_BYTES"
  obtains b' where "decodeBundle rn decompress (Some w) = ReadOk b'" "map_of b' = map_of b"
proof -
  obtain b' where b': "readFields (Some (JObj b)) V2_FIELDS = Some b'" "map_of b' = map_of b"
    using read_back [OF assms(4)] .
  have "json_text sn (payload_json b) \<noteq> []" using text_first [OF plain_payload [OF assms(5)]] by blast
  moreover have "json_parse rn (json_text sn (payload_json b)) = Some (payload_json b)"
    by (rule parse_stringify [OF plain_payload [OF assms(5)]])
  moreover have "member (payload_json b) ''v'' = Some (int_json BUNDLE_VERSION)" "member (payload_json b) ''b'' = Some (JObj b)"
    by (simp_all add: payload_json_def)
  ultimately have "decodeBundle rn decompress (Some w) = ReadOk (filter (\<lambda>kv. fst kv \<noteq> ''stackBytes'') b')"
    using assms(1,2,3,6) b'(1) by (simp add: decodeBundle_def)
  moreover have "map_of (filter (\<lambda>kv. fst kv \<noteq> ''stackBytes'') b') = map_of b'"
  proof -
    have "''stackBytes'' \<notin> fst ` set b'"
      using read_entries_keys [OF _ V2_keys(1), of b b'] b'(1) V2_keys(2) by (auto simp: readFields_def split: if_splits)
    then show ?thesis by (subst filter_True) force+
  qed
  ultimately show thesis using that b'(2) by simp
qed


lemma map_of_program_only: "map_of (program_only b) k = (if k \<in> set program_keys then map_of b k else None)"
  by (cases "map_of b ''source''"; cases "map_of b ''files''"; cases "map_of b ''args''"; cases "map_of b ''stdin''")
    (auto simp: program_only_def program_keys_def)



lemma program_of_program_only [simp]: "program_of (program_only b) = program_of b"
  by (simp add: program_of_def map_of_program_only program_keys_def)






subsection \<open>A link reopens the program\<close>




text \<open>A pair with the documented laws: each character as two letters.\<close>

definition letter :: "nat \<Rightarrow> char" where
  "letter n = char_of (97 + n)"

definition two_letters :: "jstring \<Rightarrow> jstring" where
  "two_letters t = CHR ''z'' # concat (map (\<lambda>c. [letter (code c div 16), letter (code c mod 16)]) t)"

fun from_letters :: "units \<Rightarrow> jstring option" where
  "from_letters (x # y # r) =
     (if 97 \<le> x \<and> x < 113 \<and> 97 \<le> y \<and> y < 113 then map_option (Cons (char_of ((x - 97) * 16 + (y - 97)))) (from_letters r)
      else None)"
| "from_letters [] = Some []"
| "from_letters [x] = None"

definition undo_letters :: "units \<Rightarrow> jstring option" where
  "undo_letters w = (case w of [] \<Rightarrow> None | x # r \<Rightarrow> if x = 122 then from_letters r else None)"

lemma letter_pair:
  assumes "n < 16"
  shows "code (letter n) = 97 + n" "uri_char (letter n)"
proof -
  show c: "code (letter n) = 97 + n" using assms by (simp add: letter_def code_def)
  then show "uri_char (letter n)" using assms by (simp add: uri_char_def is_alpha_def is_lower_def)
qed

lemma letters_pair: "encoded_uri_pair two_letters undo_letters"
proof -
  have "code c < 256" for c by (simp add: code_def)
  then have n: "code c div 16 < 16" "code c mod 16 < 16" for c by (simp_all add: less_mult_imp_div_less)
  have "from_letters (map code (concat (map (\<lambda>c. [letter (code c div 16), letter (code c mod 16)]) t))) = Some t" for t
  proof (induction t)
    case (Cons c t)
    have "char_of (code c div 16 * 16 + code c mod 16) = c" by (simp add: code_def)
    then show ?case using Cons n [of c] by (simp add: letter_pair)
  qed simp
  then have "undo_letters (map code (two_letters t)) = Some t" for t by (simp add: two_letters_def undo_letters_def code_def)
  moreover have "list_all uri_char (two_letters t)" for t
  proof -
    have "uri_char (CHR ''z'')" by code_simp
    moreover have "uri_char (letter (code c div 16))" "uri_char (letter (code c mod 16))" for c using n letter_pair(2) by auto
    ultimately show ?thesis by (simp add: two_letters_def list_all_iff)
  qed
  moreover have "from_letters (plus_to_blank w) = from_letters w" for w
    by (induction w rule: from_letters.induct) (auto simp: plus_to_blank_def)
  then have "undo_letters (plus_to_blank w) = undo_letters w" for w
    by (cases w) (auto simp: undo_letters_def plus_to_blank_def)
  ultimately show ?thesis by (simp add: encoded_uri_pair_def undo_letters_def)
qed

definition demo_bundle :: Bundle where
  "demo_bundle = [(''source'', JStr ''ret''), (''args'', JStr ''-x''), (''exitCode'', JNull)]"

lemma demo_bundle_ok: "bundle_checked demo_bundle" "plain (JObj demo_bundle)"
proof -
  have "object_of demo_bundle = demo_bundle"
    by (rule object_of_distinct) (auto simp: demo_bundle_def not_index_key is_digit_def code_def)
  then show "plain (JObj demo_bundle)" by (simp add: demo_bundle_def)
  show "bundle_checked demo_bundle"
    by (auto simp: bundle_checked_def demo_bundle_def V2_FIELDS_def isString_def orNull_def)
qed

lemma program_only_demo: "program_only demo_bundle = [(''source'', JStr ''ret''), (''args'', JStr ''-x'')]"
  by (simp add: program_only_def program_keys_def demo_bundle_def)

lemma demo_bundle_size:
  "length (json_text (\<lambda>_. []) (payload_json demo_bundle)) \<le> 300"
  "length (json_text (\<lambda>_. []) (payload_json (program_only demo_bundle))) \<le> 300"
proof -
  have "number_text (\<lambda>_. []) 2 = show_int 2" using number_text_plain [of 2 "\<lambda>_. []"] by simp
  moreover have "length (show_int 2) = 1" by (simp add: show_int_def to_string_def nat_to_string.simps)
  moreover note sizes = length_stringify [of "''v''"] length_stringify [of "''b''"] length_stringify [of "''source''"]
      length_stringify [of "''ret''"] length_stringify [of "''args''"] length_stringify [of "''-x''"]
      length_stringify [of "''exitCode''"]
  ultimately have two: "length (number_text (\<lambda>_. []) 2) = 1" by simp
  show "length (json_text (\<lambda>_. []) (payload_json demo_bundle)) \<le> 300"
    using two sizes by (simp add: demo_bundle_def payload_json_def BUNDLE_VERSION_def int_json_def)
  show "length (json_text (\<lambda>_. []) (payload_json (program_only demo_bundle))) \<le> 300"
    using two sizes by (simp add: program_only_demo payload_json_def BUNDLE_VERSION_def int_json_def)
qed

lemma length_two_letters: "length (two_letters t) = 1 + 2 * length t"
  by (induction t) (simp_all add: two_letters_def)




text \<open>The decoder the page loads answers nothing to a query without a bundle.\<close>

lemma bundle_decoder_none: "bundle_decoder rn decompress None = BundleNone"
  by (simp add: bundle_decoder_def decodeBundle_def)

theorem opened_bundle_is_checked_witness:
  "\<exists>b. decodeBundle (\<lambda>_. 0) undo_letters (Some (map code (encodeBundle (\<lambda>_. []) two_letters demo_bundle))) = ReadOk b \<and>
     bundle_checked b"
proof -
  have "undo_letters (map code (encodeBundle (\<lambda>_. []) two_letters demo_bundle)) = Some (json_text (\<lambda>_. []) (payload_json demo_bundle))"
    using letters_pair by (simp add: encoded_uri_pair_def encodeBundle_def)
  moreover have "map code (encodeBundle (\<lambda>_. []) two_letters demo_bundle) \<noteq> []" by (simp add: encodeBundle_def two_letters_def)
  moreover have "length (map code (encodeBundle (\<lambda>_. []) two_letters demo_bundle)) \<le> MAX_SHARE_HASH_BYTES"
    using demo_bundle_size(1) by (simp add: encodeBundle_def length_two_letters MAX_SHARE_HASH_BYTES_def)
  moreover have "length (json_text (\<lambda>_. []) (payload_json demo_bundle)) \<le> MAX_BUNDLE_DECOMPRESSED_BYTES"
    using demo_bundle_size(1) by (simp add: MAX_BUNDLE_DECOMPRESSED_BYTES_def)
  ultimately obtain b where "decodeBundle (\<lambda>_. 0) undo_letters (Some (map code (encodeBundle (\<lambda>_. []) two_letters demo_bundle))) = ReadOk b"
    using decode_encoded [where b = demo_bundle] demo_bundle_ok by metis
  then show ?thesis using opened_bundle_is_checked by blast
qed

end
