(* ===== verification/Spec2Isabelle.thy ===== *)
theory Spec2Isabelle
  imports DecodeFields Ieee754 FlagMath RegisterText SourceMap Replay Dispatch FileMap WatchExpr ShareLinks WorkerClient AsmFormatter LineComment WorkingSet Backend Hub MemoryCache BundleLink
begin

text \<open>
  A verification development for the AArch64 Playground, a web application in which students
  write, run and debug AArch64 assembly.

  \<^bold>\<open>The program.\<close> A Rust emulator (assembler, CPU, system calls) is compiled to WebAssembly and
  runs in a worker.  The TypeScript under \<open>src/web/lib\<close> is everything between it and the page:
  it decodes the numbers the emulator exports, converts and prints values, maps addresses to
  source lines, runs programs in chunks or headless, draws the call stack, interprets the
  terminal's commands, evaluates watches, validates untrusted lesson and exercise files, grades
  programs, keeps and shares work, and talks to the worker.  This development models that code.  The emulator's exports are parameters: a record of
  functions on an abstract world (\<open>HeadlessMachine\<close>, \<open>RunLoopHost\<close>, \<open>DispatchContext\<close>,
  \<open>EvalContext\<close>, \<open>Emulator\<close>), with the few laws a theorem relies on as named hypotheses and a concrete machine
  in its witness.

  \<^bold>\<open>Conventions.\<close> A JavaScript string is a list of 8-bit characters, the strings whose code units
  are below 256; only the console, which counts bytes against code units, keeps all of UTF-16.  A BigInt, and a Number used as a whole number, is an \<open>int\<close> or \<open>nat\<close>; wrap-around
  is written out with \<open>mod\<close>, \<open>AND\<close> and \<open>push_bit\<close>.  \<open>null\<close> and \<open>undefined\<close> are \<open>None\<close>, thrown or
  returned errors are \<open>Inl\<close> or a constructor.  A promise that the code awaits is the state after it.
  Regular expressions written in the source are spelled out as scans; a pattern that comes from a
  file is judged by an engine that is a parameter.

  \<^bold>\<open>The theories\<close>, each with the source it models (paths under \<open>src/web/lib\<close>):

  \<^item> \<open>Prelude\<close>, \<open>Radix\<close>: the JavaScript string operations and digits in a radix, with their laws.
    \<open>Radix\<close> states positional notation as a locale and interprets it at 2, 8, 10 and 16.
  \<^item> \<open>BaseConvert\<close> (\<open>asm/base-convert.ts\<close>): the base converter.  What is formatted parses back; what
    is accepted fits its width; the signed reading is two's complement.
  \<^item> \<open>DecodeFields\<close> (\<open>emulator/decode-fields.ts\<close>): the instruction field decoder.  The fields tile
    the 32 bits of the word.
  \<^item> \<open>Ieee754\<close> (\<open>asm/ieee754.ts\<close>): float fields.  Rounding is to nearest, ties to even; the exact
    decimal is exact; edits are local and round-trip.
  \<^item> \<open>FlagMath\<close> (\<open>emulator/flag-math.ts\<close>): NZCV.  The flags decide the orders they stand for.
  \<^item> \<open>RegisterText\<close> (\<open>emulator/format-hex.ts\<close>, \<open>parse-address.ts\<close>, \<open>vector-lanes.ts\<close>,
    \<open>register-format.ts\<close>, \<open>memory-map.ts\<close>): the text of registers and addresses.
  \<^item> \<open>SourceMap\<close> (\<open>emulator/line-map.ts\<close>, \<open>source-lines.ts\<close>, \<open>disassembly.ts\<close>): addresses and source
    lines, breakpoints and the listing.
  \<^item> \<open>Replay\<close> (\<open>emulator/replay.ts\<close>): the ring of recorded frames refines a bounded list.
  \<^item> \<open>TerminalInput\<close> (\<open>playground/args.ts\<close>, \<open>terminal/input-state.ts\<close>): the tokenizer and the line
    editor with its invariant.
  \<^item> \<open>StackFrames\<close> (\<open>emulator/stack-frames.ts\<close>, \<open>frame-data.ts\<close>): the decoded call stack; the boxes
    drawn for a frame tile the bytes it owns.
  \<^item> \<open>FrameViews\<close> (\<open>emulator/call-tree.ts\<close>, \<open>frame-check.ts\<close>, \<open>frame-labels.ts\<close>, \<open>frame-boxes.ts\<close>,
    \<open>content/frame-checker.ts\<close>): the call tree and the grading of frame exercises.
  \<^item> \<open>RunLoop\<close> (\<open>emulator/run-loop.ts\<close>): the chunked run.  It ends whatever the machine does, runs a
    halting program to its end within the budget, and says why it stopped.
  \<^item> \<open>HeadlessRun\<close> (\<open>emulator/headless-run.ts\<close>): headless runs and runs to a pause.
  \<^item> \<open>FileMap\<close> (\<open>playground/file-map.ts\<close>): several files joined into one text and lines mapped back.
  \<^item> \<open>Dispatch\<close> (\<open>terminal/dispatch.ts\<close>): the terminal's commands over the files and the machine.
    The file commands implement a specification on the map of files.
  \<^item> \<open>WatchExpr\<close> (\<open>emulator/watch-expr.ts\<close>): watch expressions and the element size of data labels.
  \<^item> \<open>Json\<close> (\<open>playground/upload-guard.ts\<close>): JSON values, checks in order and the size caps; the
    locales \<open>validator\<close> and \<open>exact_validator\<close> are the contract of a validator of list entries.
  \<^item> \<open>LessonSchema\<close>, \<open>ExerciseSchema\<close> (\<open>content/lesson-schema.ts\<close>, \<open>exercise-schema.ts\<close>): the
    validators.  Over all untrusted values they return exactly the well-formed lessons and exercises.
  \<^item> \<open>ExerciseChecker\<close> (\<open>content/exercise-checker.ts\<close>, \<open>runHiddenCases\<close> of the exercise view): the
    grader.  It passes exactly when the assertions hold; comments do not count; a hidden case shows
    nothing of what it expects.
  \<^item> \<open>ProgramChecks\<close> (\<open>playground/program-checks.ts\<close>, \<open>check-runner.ts\<close>): a program's own checks, the
    comparison of outputs and the verdicts.
  \<^item> \<open>JsonText\<close>: \<open>JSON.stringify\<close> and \<open>JSON.parse\<close>, which everything saved, shared or exported passes
    through; the second undoes the first.
  \<^item> \<open>SavedWork\<close> (\<open>playground/safe-storage.ts\<close>, \<open>named-saves.ts\<close>, \<open>exercise-answers.ts\<close>,
    \<open>solved-state.ts\<close>, \<open>auto-save.ts\<close>): what the browser keeps.  The bookmarks implement a map; an
    import of progress takes no work away, and an export moves it whole.  The locale \<open>stored_value\<close>
    is the contract of a value kept as JSON under a key.
  \<^item> \<open>ShareLinks\<close> (\<open>playground/share.ts\<close>, \<open>workspace-bundle.ts\<close>): links and bundles.  A link opens as
    the state it was built from; whatever opens is well formed.
  \<^item> \<open>Protocol\<close>, \<open>Worker\<close> (\<open>worker/protocol.ts\<close>, \<open>emulator.worker.ts\<close>, \<open>dead-instance.ts\<close>,
    \<open>emulator/call-data.ts\<close>): the messages and the worker that owns the emulator, with its requests
    as tasks that interleave at their awaits, its run loop, and its recovery from a trap.
  \<^item> \<open>WorkerClient\<close> (\<open>worker/client.ts\<close>): the page's side, and both sides as a transition system.
    Every call settles, once, on every run; frames never go back; an overtaken run executes nothing
    more.  The locale \<open>progress\<close> is the contract of a relation that makes progress to a goal.
  \<^item> \<open>Backend\<close> (\<open>emulator/backend.ts\<close>, \<open>emulator.ts\<close>): the backend on the main thread and the typed wrapper of the
    wasm instance.  It answers any sequence of requests as the worker does, until a call kills the instance.
  \<^item> \<open>AsmFormatter\<close> (\<open>asm/asm-formatter.ts\<close>): the source formatter.  Lines stay lines; formatting twice
    changes nothing where first words fit their column, and does where they do not.
  \<^item> \<open>LineComment\<close> (\<open>asm/line-comment.ts\<close>): the comment toggle.  A second toggle undoes the first, but for
    the caret before an empty first line.
  \<^item> \<open>WorkingSet\<close> (\<open>playground/use-working-set.ts\<close>, \<open>vfs-persist.ts\<close>): the student's files, their copy in
    the database and the callbacks of the hook in any order.  Opening the page again brings back one whole
    state of the files; a program loaded while they are still being read costs the student the stored ones.
  \<^item> \<open>Utf8\<close>: \<open>TextEncoder\<close> and \<open>TextDecoder\<close> on UTF-16 units, which the console measures its text with;
    the second undoes the first on text without lone surrogates.
  \<^item> \<open>ConsoleOutput\<close> (\<open>emulator/use-console-output.ts\<close>): the console's scrollback and its place in the
    machine's output.  What it holds is the end of what the program printed, through steps back, clears and
    builds; a re-run does not print twice; output the terminal pane took breaks this.  The locale
    \<open>text_codec\<close> is what it needs of a codec.
  \<^item> \<open>Breakpoints\<close> (\<open>emulator/use-breakpoints.ts\<close>): the dots of the gutter and the addresses armed in the
    CPU.  They agree until an edit moves a line, and again after an assemble, whatever happens meanwhile.
  \<^item> \<open>MemoryCache\<close> (\<open>emulator/use-memory-cache.ts\<close>): the panels' memory over an asynchronous machine; no
    stale bytes outlive their frame.
  \<^item> \<open>Hub\<close> (\<open>emulator/use-emulator.ts\<close>, \<open>use-cpu-view.ts\<close>): the hub that joins console, breakpoints, replay
    ring and run controls over one backend, as a transition system of callbacks, snapshots and replies in any
    order.  A program shown as running is being driven; one loop drives it, unless a run is started while an
    interrupted one naps; a restored bookmark ends where it was saved.
  \<^item> \<open>Handoff\<close> (\<open>playground/playground-handoff.ts\<close>, \<open>hooks/use-deep-link.ts\<close>, \<open>playground/use-launch-mode.ts\<close>,
    \<open>playground-source.ts\<close>):
    which program a link opens, when, and with which arguments.  A bundle decoded late opens as one decoded at
    once; nothing is delivered twice; a link's query reads back; a fetched example keeps the caps of an upload;
    the args box holds the mode's text or the student's.
  \<^item> \<open>BundleLink\<close> (the codec of \<open>playground/diagnostic-bundle.ts\<close>): what an opened \<open>?bundle=\<close> link may hold, and
    that a link reopens the program it was made from, on the laws lz-string documents.

  \<^bold>\<open>How they compose.\<close> \<open>ProgramChecks.runChecks\<close> joins the files with \<open>FileMap\<close>, splits arguments with
  \<open>TerminalInput\<close>, runs with \<open>HeadlessRun\<close> and locates faults with \<open>FileMap\<close> again;
  \<open>ExerciseChecker\<close> reads exercises in the types of \<open>ExerciseSchema\<close> and registers in the text of
  \<open>RegisterText\<close>; \<open>Dispatch\<close> tokenizes with \<open>TerminalInput\<close> and draws frames with \<open>FrameViews\<close>.
  \<open>WorkerClient.internal\<close> and \<open>sys_step\<close> run a client, two message queues and a worker together; the
  worker's run uses the results and rules of \<open>RunLoop\<close>.  \<open>ShareLinks\<close> reads files by the rules of
  \<open>FileMap\<close> and checks by those of \<open>ProgramChecks\<close>.  \<open>Hub.applySnapshot\<close> feeds \<open>ConsoleOutput\<close> and the
  register view, \<open>Hub.assembleWith\<close> and its continuation run \<open>Breakpoints.startAssembly\<close> and
  \<open>finishAssembly\<close>, and steps and runs push frames on the ring of \<open>Replay\<close>.  \<open>Handoff\<close> reads share hashes through
  \<open>ShareLinks\<close>, decodes queries with \<open>Utf8\<close> and keeps its mode in the store of \<open>SavedWork\<close>.

  \<^bold>\<open>Termination and bounds.\<close> Loops are recursions with a measure: the rest of a text, or the budget
  that is left (\<open>RunLoop.run_chunks\<close>, \<open>HeadlessRun.pause_loop\<close>).  \<open>HeadlessRun.run_slices\<close> is a
  \<open>partial_function\<close>, as the source's loop may not end on a machine that reports progress without
  making any; it is proved to return on every machine whose slices keep to their size and whose halt
  report is true.  The one function on fuel is the JSON parser, called with twice the length of its
  text and one more; \<open>JsonText.fuel_irrelevant\<close> shows that more changes nothing.

  \<^bold>\<open>Not modelled.\<close> The Rust emulator (another language); the React components and the hooks that only lay out the
  page (effects of their runtime); data tables (reference pages, C equivalents, pitfalls,
  course content); themes; explanation texts.  The terminal
  context, error explanations, the gathering of a diagnostic report and the wording of the run row's cards are left
  too.
\<close>

end
